(* ===== verification/Bastion_Prelude.thy ===== *)
theory Bastion_Prelude
  imports Main "HOL-Library.Word"
begin

text \<open>
  Shared vocabulary of the development: Go's fixed-width signed integers, Go maps read with a
  zero default, the error values that the components return, and the outcome of one call to an
  external store.

  Go's \<^verbatim>\<open>int32\<close> and \<^verbatim>\<open>int64\<close> are modelled as \<^typ>\<open>int\<close> with the wrap-around written
  out: every arithmetic operation of the source is followed by \<open>i32\<close> or \<open>i64\<close>. Where bits matter
  (wire bytes, hashes) the development uses \<^typ>\<open>8 word\<close>, \<^typ>\<open>16 word\<close> and \<^typ>\<open>32 word\<close>.
\<close>

named_theorems go_int \<open>wrap-around facts of Go's signed integers\<close>
named_theorems store_step \<open>one-step facts about tables and stores\<close>

section \<open>Signed integers of a fixed width\<close>

definition i32 :: "int \<Rightarrow> int" where
  "i32 x = (x + 2 ^ 31) mod 2 ^ 32 - 2 ^ 31"

definition i64 :: "int \<Rightarrow> int" where
  "i64 x = (x + 2 ^ 63) mod 2 ^ 64 - 2 ^ 63"

definition in_i32 :: "int \<Rightarrow> bool" where
  "in_i32 x \<longleftrightarrow> - (2 ^ 31) \<le> x \<and> x < 2 ^ 31"

definition in_i64 :: "int \<Rightarrow> bool" where
  "in_i64 x \<longleftrightarrow> - (2 ^ 63) \<le> x \<and> x < 2 ^ 63"

lemma i32_id [go_int, simp]: "in_i32 x \<Longrightarrow> i32 x = x"
  by (simp add: i32_def in_i32_def)

lemma i64_id [go_int, simp]: "in_i64 x \<Longrightarrow> i64 x = x"
  by (simp add: i64_def in_i64_def)

lemma in_i32_i32 [simp]: "in_i32 (i32 x)"
proof -
  have "0 \<le> (x + 2 ^ 31) mod 2 ^ 32" "(x + 2 ^ 31) mod 2 ^ 32 < 2 ^ 32" by simp_all
  then show ?thesis by (simp add: i32_def in_i32_def)
qed

lemma in_i64_i64 [simp]: "in_i64 (i64 x)"
proof -
  have "0 \<le> (x + 2 ^ 63) mod 2 ^ 64" "(x + 2 ^ 63) mod 2 ^ 64 < 2 ^ 64" by simp_all
  then show ?thesis by (simp add: i64_def in_i64_def)
qed

lemma i64_add_i64 [go_int]: "i64 (i64 a + b) = i64 (a + b)"
proof -
  have "(i64 a + b + 2 ^ 63) mod 2 ^ 64 = ((a + 2 ^ 63) mod 2 ^ 64 + b) mod 2 ^ 64"
    by (simp add: i64_def algebra_simps)
  also have "\<dots> = (a + 2 ^ 63 + b) mod 2 ^ 64" by (rule mod_add_left_eq)
  finally show ?thesis by (simp add: i64_def algebra_simps)
qed

lemma i32_add_i32 [go_int]: "i32 (i32 a + b) = i32 (a + b)"
proof -
  have "(i32 a + b + 2 ^ 31) mod 2 ^ 32 = ((a + 2 ^ 31) mod 2 ^ 32 + b) mod 2 ^ 32"
    by (simp add: i32_def algebra_simps)
  also have "\<dots> = (a + 2 ^ 31 + b) mod 2 ^ 32" by (rule mod_add_left_eq)
  finally show ?thesis by (simp add: i32_def algebra_simps)
qed

lemma in_i32_in_i64: "in_i32 x \<Longrightarrow> in_i64 x"
  by (simp add: in_i32_def in_i64_def)

text \<open>Go's \<^verbatim>\<open>%\<close> truncates towards zero: the result has the sign of the dividend.\<close>

definition go_rem :: "int \<Rightarrow> int \<Rightarrow> int" where
  "go_rem a b = sgn a * (\<bar>a\<bar> mod \<bar>b\<bar>)"

definition go_quot :: "int \<Rightarrow> int \<Rightarrow> int" where
  "go_quot a b = sgn a * sgn b * (\<bar>a\<bar> div \<bar>b\<bar>)"

lemma go_rem_nonneg: "0 \<le> a \<Longrightarrow> 0 < b \<Longrightarrow> go_rem a b = a mod b"
  by (cases "a = 0") (simp_all add: go_rem_def)

lemma go_quot_nonneg: "0 \<le> a \<Longrightarrow> 0 < b \<Longrightarrow> go_quot a b = a div b"
  by (cases "a = 0") (simp_all add: go_quot_def)

lemma go_rem_bounds: "0 < b \<Longrightarrow> - b < go_rem a b \<and> go_rem a b < b"
proof -
  assume b: "0 < b"
  then have "0 \<le> \<bar>a\<bar> mod b" "\<bar>a\<bar> mod b < b" by simp_all
  with b show ?thesis by (auto simp: go_rem_def sgn_if)
qed

lemma go_rem_euclid:
  assumes "0 < b"
  shows "(if go_rem a b < 0 then go_rem a b + b else go_rem a b) = a mod b"
proof (cases "0 \<le> a")
  case True
  with assms show ?thesis by (simp add: go_rem_nonneg not_less)
next
  case False
  then have neg: "go_rem a b = - ((- a) mod b)" using assms by (simp add: go_rem_def)
  show ?thesis
  proof (cases "(- a) mod b = 0")
    case True
    then have "b dvd a" by auto
    then have "a mod b = 0" by simp
    with True neg show ?thesis by simp
  next
    case nz: False
    then have "0 < (- a) mod b" using assms by (simp add: order_less_le)
    moreover have "a mod b = b - (- a) mod b"
      using nz zmod_zminus1_eq_if [of "- a" b] by simp
    ultimately show ?thesis using neg by simp
  qed
qed

section \<open>Go maps\<close>

text \<open>
  A Go map is a partial function. Reading an absent key yields the zero value; \<open>gget\<close> is that read
  for integer values. A nil map is the separate value \<^const>\<open>None\<close> where the source distinguishes it.
\<close>

type_synonym 'k gomap = "'k \<Rightarrow> int option"

definition gget :: "'k gomap \<Rightarrow> 'k \<Rightarrow> int" where
  "gget m k = (case m k of None \<Rightarrow> 0 | Some v \<Rightarrow> v)"

lemma gget_upd [simp]: "gget (m(k \<mapsto> v)) k' = (if k' = k then v else gget m k')"
  by (simp add: gget_def)

lemma gget_del [simp]: "gget (m(k := None)) k' = (if k' = k then 0 else gget m k')"
  by (simp add: gget_def)

lemma gget_empty [simp]: "gget Map.empty k = 0"
  by (simp add: gget_def)

lemma gget_Some: "m k = Some v \<Longrightarrow> gget m k = v"
  by (simp add: gget_def)

lemma gget_None: "m k = None \<Longrightarrow> gget m k = 0"
  by (simp add: gget_def)

section \<open>Tables as lists\<close>

text \<open>Rows found by a key that an update of the table keeps.\<close>

lemma find_map_key: "(\<And>x. key (f x) = key x) \<Longrightarrow>
    find (\<lambda>x. key x = i) (map f xs) = map_option f (find (\<lambda>x. key x = i) xs)"
  by (induction xs) auto

lemma find_append_Some: "find P xs = Some x \<Longrightarrow> find P (xs @ ys) = Some x"
  by (induction xs) auto

lemma find_key_mem:
  "distinct (map key xs) \<Longrightarrow> find (\<lambda>x. key x = i) xs = Some x \<longleftrightarrow> x \<in> set xs \<and> key x = i"
  by (induction xs) (auto simp: image_iff)

lemma distinct_head_key: "distinct (map key (x # xs)) \<Longrightarrow> y \<in> set xs \<Longrightarrow> key y \<noteq> key x"
  by (simp, metis imageI)

lemma find_Some_mem: "find P xs = Some x \<Longrightarrow> x \<in> set xs \<and> P x"
  by (auto simp: find_Some_iff)

lemma find_None_mem: "find P xs = None \<Longrightarrow> x \<in> set xs \<Longrightarrow> \<not> P x"
  by (auto simp: find_None_iff)

section \<open>Errors\<close>

text \<open>
  The error values of the source, one constructor per sentinel the code compares with
  \<^verbatim>\<open>errors.Is\<close>; the messages built with \<^verbatim>\<open>fmt.Errorf\<close> that no caller inspects are \<open>ErrMsg\<close>,
  an error the driver of an external store returns is \<open>ErrStore\<close>, and \<open>ErrContext\<close> is the
  error of a context that was cancelled or timed out. \<open>ErrPanic\<close> is a run-time
  panic of the goroutine (a write to a nil map).
\<close>

datatype err =
    ErrStore
  | ErrNoRows
  | ErrRoleNotFound
  | ErrStaleRole
  | ErrInsufficientGold
  | ErrInsufficientItem string
  | ErrWrongShard
  | ErrClosed
  | ErrContext
  | ErrAlreadyAccepted
  | ErrNotAccepted
  | ErrStaleSession
  | ErrPanic
  | ErrMsg string

type_synonym 'a res = "err + 'a"

lemma res_cases [case_names Err Ok]:
  assumes "\<And>e. (r :: 'a res) = Inl e \<Longrightarrow> P" and "\<And>v. r = Inr v \<Longrightarrow> P"
  shows P
  using assms by (cases r) auto

section \<open>Outcome of one call to an external store\<close>

text \<open>
  The program talks to PostgreSQL and Redis over a network. One call either runs and its reply
  arrives (\<open>Done\<close>), or never runs and the caller sees an error (\<open>Failed\<close>), or runs although the
  caller sees an error because the reply was lost (\<open>Lost\<close>). Operations on a store take the outcome
  as an argument, so a statement for every outcome is a statement about every pattern of faults.
\<close>

datatype outcome = Done | Failed | Lost

definition store_call :: "outcome \<Rightarrow> 's \<Rightarrow> ('a res \<times> 's) \<Rightarrow> 'a res \<times> 's" where
  "store_call oc s r =
     (case oc of Done \<Rightarrow> r | Failed \<Rightarrow> (Inl ErrStore, s) | Lost \<Rightarrow> (Inl ErrStore, snd r))"

lemma store_call_simps [simp]:
  "store_call Done s r = r"
  "store_call Failed s r = (Inl ErrStore, s)"
  "store_call Lost s r = (Inl ErrStore, snd r)"
  by (simp_all add: store_call_def)

lemma store_call_Inr:
  "store_call oc s r = (Inr v, s') \<longleftrightarrow> oc = Done \<and> r = (Inr v, s')"
  by (cases oc) auto

lemma store_call_change:
  "store_call oc s r = (v, s') \<Longrightarrow> (s' = s \<and> isl v) \<or> (s' = snd r \<and> (v = fst r \<or> v = Inl ErrStore))"
  by (cases oc) auto

lemma store_call_state:
  "snd (store_call oc s r) = (if oc = Failed then s else snd r)"
  by (cases oc) auto

end
