(* ===== verification/Go_Strings.thy ===== *)
theory Go_Strings
  imports Bastion_Prelude
begin

text \<open>
  The parts of Go's \<^verbatim>\<open>strings\<close> and \<^verbatim>\<open>strconv\<close> packages that the program uses, on byte strings
  (\<^typ>\<open>string\<close> is a list of 8-bit characters, as a Go string is a sequence of bytes), with the
  round trip between decimal printing and parsing.
\<close>

section \<open>Decimal digits\<close>

definition digit_char :: "nat \<Rightarrow> char" where
  "digit_char d = ''0123456789'' ! d"

definition digit_val :: "char \<Rightarrow> nat option" where
  "digit_val c = map_of (zip ''0123456789'' [0, 1, 2, 3, 4, 5, 6, 7, 8, 9]) c"

lemma less_10_cases:
  assumes "(d :: nat) < 10"
  shows "d = 0 \<or> d = 1 \<or> d = 2 \<or> d = 3 \<or> d = 4 \<or> d = 5 \<or> d = 6 \<or> d = 7 \<or> d = 8 \<or> d = 9"
  using assms by arith

lemma digit_val_char [simp]: "d < 10 \<Longrightarrow> digit_val (digit_char d) = Some d"
  by (drule less_10_cases) (auto simp: digit_val_def digit_char_def)

lemma digit_char_not:
  assumes "d < 10"
  shows "digit_char d \<noteq> CHR ''-''" "digit_char d \<noteq> CHR ''+''"
    "digit_char d \<noteq> CHR '':''" "digit_char d \<noteq> CHR '',''" "digit_char d \<noteq> CHR ''z''"
    "digit_char d \<noteq> CHR ''_''"
  using less_10_cases [OF assms] by (auto simp: digit_char_def)

fun nat_digits :: "nat \<Rightarrow> string" where
  "nat_digits n = (if n < 10 then [digit_char n] else nat_digits (n div 10) @ [digit_char (n mod 10)])"

declare nat_digits.simps [simp del]

lemma nat_digits_induct [case_names small big]:
  assumes "\<And>n. n < 10 \<Longrightarrow> P n" and "\<And>n. \<not> n < 10 \<Longrightarrow> P (n div 10) \<Longrightarrow> P n"
  shows "P (n :: nat)"
  by (induction n rule: less_induct) (metis assms div_less_dividend not_less_iff_gr_or_eq
      one_less_numeral_iff order.strict_trans semiring_norm(76) zero_less_numeral)

lemma nat_digits_small: "n < 10 \<Longrightarrow> nat_digits n = [digit_char n]"
  by (subst nat_digits.simps) simp

lemma nat_digits_big: "\<not> n < 10 \<Longrightarrow> nat_digits n = nat_digits (n div 10) @ [digit_char (n mod 10)]"
  by (subst nat_digits.simps) simp

lemma nat_digits_nonempty [simp]: "nat_digits n \<noteq> []"
  by (cases "n < 10") (simp_all add: nat_digits_small nat_digits_big)

lemma nat_digits_chars:
  "c \<in> set (nat_digits n) \<Longrightarrow> \<exists>d < 10. c = digit_char d"
proof (induction n rule: nat_digits_induct)
  case (small n)
  then show ?case by (auto simp: nat_digits_small)
next
  case (big n)
  from big.prems big.hyps consider "c \<in> set (nat_digits (n div 10))" | "c = digit_char (n mod 10)"
    by (auto simp: nat_digits_big)
  then show ?case
  proof cases
    case 1
    then show ?thesis by (rule big.IH)
  next
    case 2
    moreover have "n mod 10 < 10" by simp
    ultimately show ?thesis by blast
  qed
qed

lemma nat_digits_not:
  "CHR ''-'' \<notin> set (nat_digits n)" "CHR ''+'' \<notin> set (nat_digits n)"
  "CHR '':'' \<notin> set (nat_digits n)" "CHR '','' \<notin> set (nat_digits n)"
  "CHR ''z'' \<notin> set (nat_digits n)" "CHR ''_'' \<notin> set (nat_digits n)"
  using nat_digits_chars digit_char_not by metis+

text \<open>\<^verbatim>\<open>strconv.FormatInt(n, 10)\<close>, \<^verbatim>\<open>strconv.Itoa\<close> and the \<^verbatim>\<open>%d\<close> verb of \<^verbatim>\<open>fmt\<close>.\<close>

definition FormatInt :: "int \<Rightarrow> string" where
  "FormatInt n = (if n < 0 then CHR ''-'' # nat_digits (nat (- n)) else nat_digits (nat n))"

section \<open>strconv.ParseInt\<close>

fun parse_digits :: "nat \<Rightarrow> string \<Rightarrow> nat option" where
  "parse_digits acc [] = Some acc"
| "parse_digits acc (c # cs) =
     (case digit_val c of None \<Rightarrow> None | Some d \<Rightarrow> parse_digits (10 * acc + d) cs)"

datatype num_err = ErrSyntax | ErrRange

text \<open>
  Base 10 (so no underscores and no prefix): an optional sign, at least one digit, then the range
  check against \<open>bits\<close>. As in Go, the value returned with an error is 0 for a syntax error and the
  nearest representable number for a range error.
\<close>

definition parse_magnitude :: "nat \<Rightarrow> bool \<Rightarrow> string \<Rightarrow> int \<times> num_err option" where
  "parse_magnitude bits neg ds =
     (if ds = [] then (0, Some ErrSyntax)
      else case parse_digits 0 ds of
             None \<Rightarrow> (0, Some ErrSyntax)
           | Some un \<Rightarrow>
               if \<not> neg \<and> 2 ^ (bits - 1) \<le> int un then (2 ^ (bits - 1) - 1, Some ErrRange)
               else if neg \<and> 2 ^ (bits - 1) < int un then (- (2 ^ (bits - 1)), Some ErrRange)
               else ((if neg then - int un else int un), None))"

definition ParseInt :: "nat \<Rightarrow> string \<Rightarrow> int \<times> num_err option" where
  "ParseInt bits s =
     (case s of
        [] \<Rightarrow> (0, Some ErrSyntax)
      | c # cs \<Rightarrow>
          if c = CHR ''+'' then parse_magnitude bits False cs
          else if c = CHR ''-'' then parse_magnitude bits True cs
          else parse_magnitude bits False s)"

lemma parse_digits_append:
  "parse_digits acc (xs @ ys) =
     (case parse_digits acc xs of None \<Rightarrow> None | Some a \<Rightarrow> parse_digits a ys)"
  by (induction xs arbitrary: acc) (auto split: option.splits)

lemma parse_digits_nat_digits: "parse_digits 0 (nat_digits n) = Some n"
proof (induction n rule: nat_digits_induct)
  case (small n)
  then show ?case by (simp add: nat_digits_small)
next
  case (big n)
  then show ?case by (simp add: nat_digits_big parse_digits_append)
qed

lemma parse_magnitude_pos:
  "int n < 2 ^ (bits - 1) \<Longrightarrow> parse_magnitude bits False (nat_digits n) = (int n, None)"
  by (simp add: parse_magnitude_def parse_digits_nat_digits)

lemma parse_magnitude_neg:
  "int n \<le> 2 ^ (bits - 1) \<Longrightarrow> parse_magnitude bits True (nat_digits n) = (- int n, None)"
  by (simp add: parse_magnitude_def parse_digits_nat_digits)

lemma parse_magnitude_range:
  assumes "parse_magnitude bits neg ds = (n, None)"
  shows "- (2 ^ (bits - 1)) \<le> n \<and> n < 2 ^ (bits - 1)"
proof -
  from assms obtain un where un: "parse_digits 0 ds = Some un" and ne: "ds \<noteq> []"
    by (auto simp: parse_magnitude_def split: if_splits option.splits)
  have p: "(0::int) < 2 ^ (bits - 1)" by simp
  show ?thesis
  proof (cases neg)
    case True
    with assms un ne have "int un \<le> 2 ^ (bits - 1)" "n = - int un"
      unfolding parse_magnitude_def by (simp_all split: if_splits)
    moreover have "0 \<le> int un" by simp
    ultimately show ?thesis using p by linarith
  next
    case False
    with assms un ne have "int un < 2 ^ (bits - 1)" "n = int un"
      unfolding parse_magnitude_def by (simp_all split: if_splits)
    moreover have "0 \<le> int un" by simp
    ultimately show ?thesis using p by linarith
  qed
qed

lemma nat_digits_Cons:
  obtains c cs where "nat_digits n = c # cs" "c \<noteq> CHR ''+''" "c \<noteq> CHR ''-''"
proof -
  obtain c cs where e: "nat_digits n = c # cs" by (cases "nat_digits n") auto
  then have "c \<in> set (nat_digits n)" by simp
  with nat_digits_not [of n] have "c \<noteq> CHR ''+''" "c \<noteq> CHR ''-''" by auto
  with e that show ?thesis by blast
qed

lemma ParseInt_FormatInt:
  assumes "- (2 ^ (bits - 1)) \<le> n" and "n < 2 ^ (bits - 1)"
  shows "ParseInt bits (FormatInt n) = (n, None)"
proof (cases "n < 0")
  case True
  then show ?thesis
    using assms by (simp add: ParseInt_def FormatInt_def parse_magnitude_neg)
next
  case False
  obtain c cs where c: "nat_digits (nat n) = c # cs" "c \<noteq> CHR ''+''" "c \<noteq> CHR ''-''"
    by (rule nat_digits_Cons)
  have "parse_magnitude bits False (nat_digits (nat n)) = (n, None)"
    using False assms by (simp add: parse_magnitude_pos)
  with False c show ?thesis by (simp add: ParseInt_def FormatInt_def)
qed

lemma ParseInt_FormatInt_64: "in_i64 n \<Longrightarrow> ParseInt 64 (FormatInt n) = (n, None)"
  using ParseInt_FormatInt [of 64 n] by (simp add: in_i64_def)

lemma ParseInt_FormatInt_32: "in_i32 n \<Longrightarrow> ParseInt 32 (FormatInt n) = (n, None)"
  using ParseInt_FormatInt [of 32 n] by (simp add: in_i32_def)

lemma ParseInt_range:
  assumes "ParseInt bits s = (n, None)"
  shows "- (2 ^ (bits - 1)) \<le> n \<and> n < 2 ^ (bits - 1)"
  using assms
  by (auto simp: ParseInt_def dest: parse_magnitude_range split: list.splits if_splits)

lemma FormatInt_inj_64: "in_i64 a \<Longrightarrow> in_i64 b \<Longrightarrow> FormatInt a = FormatInt b \<Longrightarrow> a = b"
  by (metis ParseInt_FormatInt_64 prod.inject)

definition lower_char :: "char \<Rightarrow> char" where
  "lower_char c = (let n = of_char c :: nat in if 65 \<le> n \<and> n \<le> 90 then char_of (n + 32) else c)"

text \<open>\<^verbatim>\<open>strings.EqualFold\<close> against an ASCII string without the letters k and s.\<close>

definition EqualFold :: "string \<Rightarrow> string \<Rightarrow> bool" where
  "EqualFold a b \<longleftrightarrow> map lower_char a = map lower_char b"

text \<open>\<^verbatim>\<open>strings.ToUpper\<close> on ASCII strings (currency codes).\<close>

definition upper_ascii :: "char \<Rightarrow> char" where
  "upper_ascii c = (let n = of_char c :: nat in if 97 \<le> n \<and> n \<le> 122 then char_of (n - 32) else c)"

definition ToUpper :: "string \<Rightarrow> string" where
  "ToUpper s = map upper_ascii s"

lemma nat_digits_inj: "nat_digits a = nat_digits b \<Longrightarrow> a = b"
  by (metis option.inject parse_digits_nat_digits)

lemma FormatInt_inj [simp]: "FormatInt a = FormatInt b \<longleftrightarrow> a = b"
proof
  assume e: "FormatInt a = FormatInt b"
  have m: "CHR ''-'' # ds \<noteq> nat_digits n" for ds n
    using nat_digits_not(1) [of n] by (metis list.set_intros(1))
  show "a = b"
    using e m m [symmetric] nat_digits_inj [of "nat (- a)" "nat (- b)"] nat_digits_inj [of "nat a" "nat b"]
    by (auto simp: FormatInt_def split: if_splits)
qed simp

lemma FormatInt_nonempty [simp]: "FormatInt n \<noteq> []"
  by (simp add: FormatInt_def)

lemma FormatInt_not:
  "CHR '':'' \<notin> set (FormatInt n)" "CHR '','' \<notin> set (FormatInt n)"
  "CHR ''z'' \<notin> set (FormatInt n)" "CHR ''_'' \<notin> set (FormatInt n)"
  by (simp_all add: FormatInt_def nat_digits_not)

section \<open>encoding/hex\<close>

definition hex_char :: "nat \<Rightarrow> char" where
  "hex_char n = ''0123456789abcdef'' ! n"

definition hex_encode :: "nat list \<Rightarrow> string" where
  "hex_encode bs = concat (map (\<lambda>b. [hex_char (b div 16), hex_char (b mod 16)]) bs)"

section \<open>strings.Split, SplitN, HasPrefix, TrimPrefix\<close>

text \<open>\<^verbatim>\<open>strings.Split(s, sep)\<close> for a one-byte separator.\<close>

fun Split :: "char \<Rightarrow> string \<Rightarrow> string list" where
  "Split sep [] = [[]]"
| "Split sep (c # cs) =
     (if c = sep then [] # Split sep cs
      else case Split sep cs of [] \<Rightarrow> [[c]] | p # ps \<Rightarrow> (c # p) # ps)"

lemma Split_nonempty [simp]: "Split sep s \<noteq> []"
  by (induction s) (auto split: list.splits)

lemma Split_no_sep: "sep \<notin> set s \<Longrightarrow> Split sep s = [s]"
  by (induction s) auto

lemma Split_append_sep: "sep \<notin> set s \<Longrightarrow> Split sep (s @ sep # t) = s # Split sep t"
  by (induction s) auto

lemma Split_parts: "p \<in> set (Split sep s) \<Longrightarrow> sep \<notin> set p"
proof (induction s arbitrary: p)
  case Nil
  then show ?case by simp
next
  case (Cons c cs)
  obtain q qs where q: "Split sep cs = q # qs" using Split_nonempty neq_Nil_conv by metis
  with Cons show ?case by (cases "c = sep") auto
qed

text \<open>\<^verbatim>\<open>strings.SplitN(s, sep, 2)\<close>: at most one cut, at the first separator.\<close>

fun SplitN2 :: "char \<Rightarrow> string \<Rightarrow> string list" where
  "SplitN2 sep [] = [[]]"
| "SplitN2 sep (c # cs) =
     (if c = sep then [[], cs]
      else case SplitN2 sep cs of [] \<Rightarrow> [[c]] | p # ps \<Rightarrow> (c # p) # ps)"

lemma SplitN2_append_sep: "sep \<notin> set s \<Longrightarrow> SplitN2 sep (s @ sep # t) = [s, t]"
  by (induction s) auto

lemma SplitN2_no_sep: "sep \<notin> set s \<Longrightarrow> SplitN2 sep s = [s]"
  by (induction s) auto

definition HasPrefix :: "string \<Rightarrow> string \<Rightarrow> bool" where
  "HasPrefix s p \<longleftrightarrow> take (length p) s = p"

definition TrimPrefix :: "string \<Rightarrow> string \<Rightarrow> string" where
  "TrimPrefix s p = (if HasPrefix s p then drop (length p) s else s)"

lemma HasPrefix_append [simp]: "HasPrefix (p @ s) p"
  by (simp add: HasPrefix_def)

lemma TrimPrefix_append [simp]: "TrimPrefix (p @ s) p = s"
  by (simp add: TrimPrefix_def)

section \<open>strings.TrimSpace\<close>

text \<open>
  The UTF-8 encodings of the code points that Go counts as white space: six ASCII bytes and the
  multi-byte ones. A Go string is trimmed by stripping these encodings from both ends.
\<close>

definition space_codes :: "string list" where
  "space_codes =
     [[CHR 0x09], [CHR 0x0A], [CHR 0x0B], [CHR 0x0C], [CHR 0x0D], [CHR 0x20],
      [CHR 0xC2, CHR 0x85], [CHR 0xC2, CHR 0xA0], [CHR 0xE1, CHR 0x9A, CHR 0x80],
      [CHR 0xE2, CHR 0x80, CHR 0x80], [CHR 0xE2, CHR 0x80, CHR 0x81], [CHR 0xE2, CHR 0x80, CHR 0x82],
      [CHR 0xE2, CHR 0x80, CHR 0x83], [CHR 0xE2, CHR 0x80, CHR 0x84], [CHR 0xE2, CHR 0x80, CHR 0x85],
      [CHR 0xE2, CHR 0x80, CHR 0x86], [CHR 0xE2, CHR 0x80, CHR 0x87], [CHR 0xE2, CHR 0x80, CHR 0x88],
      [CHR 0xE2, CHR 0x80, CHR 0x89], [CHR 0xE2, CHR 0x80, CHR 0x8A], [CHR 0xE2, CHR 0x80, CHR 0xA8],
      [CHR 0xE2, CHR 0x80, CHR 0xA9], [CHR 0xE2, CHR 0x80, CHR 0xAF], [CHR 0xE2, CHR 0x81, CHR 0x9F],
      [CHR 0xE3, CHR 0x80, CHR 0x80]]"

function strip_codes :: "string list \<Rightarrow> string \<Rightarrow> string" where
  "strip_codes codes s =
     (case find (\<lambda>p. p \<noteq> [] \<and> HasPrefix s p) codes of
        None \<Rightarrow> s
      | Some p \<Rightarrow> strip_codes codes (drop (length p) s))"
  by pat_completeness auto
termination
proof (relation "measure (\<lambda>(codes, s). length s)", goal_cases)
  case 1
  show ?case by simp
next
  case (2 codes s p)
  then have "p \<noteq> []" "HasPrefix s p" by (auto simp: find_Some_iff)
  then have "s \<noteq> []" "p \<noteq> []" by (auto simp: HasPrefix_def)
  then show ?case by simp
qed

declare strip_codes.simps [simp del]

definition TrimSpace :: "string \<Rightarrow> string" where
  "TrimSpace s = rev (strip_codes (map rev space_codes) (rev (strip_codes space_codes s)))"

text \<open>A byte that occurs in no encoding of a white-space character.\<close>

definition plain :: "char \<Rightarrow> bool" where
  "plain c \<longleftrightarrow> c \<notin> set (concat space_codes)"

lemma strip_codes_plain:
  assumes "\<And>c p. c \<in> set s \<Longrightarrow> p \<in> set codes \<Longrightarrow> c \<notin> set p"
  shows "strip_codes codes s = s"
proof -
  have "find (\<lambda>p. p \<noteq> [] \<and> HasPrefix s p) codes = None"
  proof (rule ccontr)
    assume "find (\<lambda>p. p \<noteq> [] \<and> HasPrefix s p) codes \<noteq> None"
    then obtain p where p: "p \<in> set codes" "p \<noteq> []" "HasPrefix s p"
      by (auto simp: find_None_iff)
    from p(2) obtain c where c: "c \<in> set p" by (cases p) auto
    with p(3) have "c \<in> set s" by (metis HasPrefix_def in_set_takeD)
    with assms p(1) c show False by blast
  qed
  then show ?thesis by (subst strip_codes.simps) simp
qed

lemma TrimSpace_plain: "\<forall>c \<in> set s. plain c \<Longrightarrow> TrimSpace s = s"
  unfolding TrimSpace_def plain_def by (subst strip_codes_plain) (auto simp: strip_codes_plain)

lemma plain_digit: "d < 10 \<Longrightarrow> plain (digit_char d)"
  by (drule less_10_cases) (auto simp: digit_char_def plain_def space_codes_def)

lemma plain_minus: "plain (CHR ''-'')"
  by (simp add: plain_def space_codes_def)

lemma plain_FormatInt: "c \<in> set (FormatInt n) \<Longrightarrow> plain c"
  using nat_digits_chars [of c] plain_digit plain_minus
  by (auto simp: FormatInt_def split: if_splits)

lemma TrimSpace_FormatInt [simp]: "TrimSpace (FormatInt n) = FormatInt n"
  by (simp add: TrimSpace_plain plain_FormatInt)

end
