(* ===== verification/Wire_Protocol.thy ===== *)
theory Wire_Protocol
  imports Go_Strings
begin

text \<open>
  The client wire protocol: \<^verbatim>\<open>pkg/protocol/frame.go\<close> (frame layout, \<open>EncodeInto\<close>, \<open>Decode\<close>, the
  command and action words) and the frame reader of the Gate
  (\<^verbatim>\<open>services/gate/internal/server.go\<close>, the read goroutine of \<open>handleConn\<close>). Bytes and the 16-bit
  fields are machine words.
\<close>

type_synonym byte = "8 word"

section \<open>Frames\<close>

record frame =
  Cmd :: "16 word"
  Act :: "16 word"
  Body :: "byte list"

definition HeaderSize :: nat where "HeaderSize = 6"

definition MaxFrameSize :: nat where "MaxFrameSize = unat (not 0 :: 16 word)"

definition CmdLogin :: "16 word" where "CmdLogin = 1"
definition CmdGame :: "16 word" where "CmdGame = 2"
definition CmdPush :: "16 word" where "CmdPush = 3"
definition CmdPing :: "16 word" where "CmdPing = 100"

definition ActLogin :: "16 word" where "ActLogin = 1"
definition ActPing :: "16 word" where "ActPing = 1"
definition ActPlayerData :: "16 word" where "ActPlayerData = 2"
definition ActSkillList :: "16 word" where "ActSkillList = 3"
definition ActSkillUpgrade :: "16 word" where "ActSkillUpgrade = 4"
definition ActQuestList :: "16 word" where "ActQuestList = 5"
definition ActQuestAccept :: "16 word" where "ActQuestAccept = 6"

lemmas cmd_defs = CmdLogin_def CmdGame_def CmdPush_def CmdPing_def
lemmas act_defs = ActLogin_def ActPing_def ActPlayerData_def ActSkillList_def ActSkillUpgrade_def
  ActQuestList_def ActQuestAccept_def

datatype wire_err = ErrFrameTooLarge | ErrFrameTooShort

section \<open>Big-endian 16-bit words\<close>

definition PutUint16 :: "16 word \<Rightarrow> byte list" where
  "PutUint16 w = [ucast (drop_bit 8 w), ucast w]"

definition Uint16 :: "byte \<Rightarrow> byte \<Rightarrow> 16 word" where
  "Uint16 hi lo = or (push_bit 8 (ucast hi)) (ucast lo)"

lemma length_PutUint16 [simp]: "length (PutUint16 w) = 2"
  by (simp add: PutUint16_def)

lemma Uint16_PutUint16:
  "Uint16 (ucast (drop_bit 8 w)) (ucast w) = (w :: 16 word)"
  unfolding Uint16_def
  by (rule bit_word_eqI) (auto simp: bit_or_iff bit_push_bit_iff bit_unsigned_iff bit_drop_bit_eq
      dest: bit_imp_le_length)

lemma length_6:
  assumes "length xs = 6"
  obtains a b c d e g where "xs = [a, b, c, d, e, g]"
  using assms by (auto simp: numeral_eq_Suc length_Suc_conv)

section \<open>Encode and Decode\<close>

text \<open>
  \<open>EncodeInto\<close> reuses the backing array of \<open>dst\<close> when its capacity suffices. The result is the
  first \<open>n\<close> bytes of that array (or of a fresh zeroed one) overwritten by the header and the body;
  \<open>dst\<close> is modelled by the bytes of its backing array, whose length is the capacity.
\<close>

definition overwrite :: "byte list \<Rightarrow> nat \<Rightarrow> byte list \<Rightarrow> byte list" where
  "overwrite buf off bs = take off buf @ bs @ drop (off + length bs) buf"

definition EncodeInto :: "byte list \<Rightarrow> frame \<Rightarrow> wire_err + byte list" where
  "EncodeInto dst f =
     (let n = HeaderSize + length (Body f) in
      if n > MaxFrameSize then Inl ErrFrameTooLarge
      else
        let buf = (if length dst < n then replicate n 0 else take n dst);
            buf = overwrite buf 0 (PutUint16 (of_nat n));
            buf = overwrite buf 2 (PutUint16 (Cmd f));
            buf = overwrite buf 4 (PutUint16 (Act f));
            buf = overwrite buf 6 (Body f)
        in Inr buf)"

definition EncodeChecked :: "frame \<Rightarrow> wire_err + byte list" where
  "EncodeChecked f = EncodeInto [] f"

text \<open>\<open>Encode\<close> drops the error: an oversized frame encodes to the nil slice.\<close>

definition Encode :: "frame \<Rightarrow> byte list" where
  "Encode f = (case EncodeChecked f of Inl _ \<Rightarrow> [] | Inr buf \<Rightarrow> buf)"

definition Decode :: "byte list \<Rightarrow> wire_err + frame" where
  "Decode buf =
     (if length buf < HeaderSize - 2 then Inl ErrFrameTooShort
      else Inr \<lparr>Cmd = Uint16 (buf ! 0) (buf ! 1), Act = Uint16 (buf ! 2) (buf ! 3), Body = drop 4 buf\<rparr>)"

lemma MaxFrameSize_eq [simp]: "MaxFrameSize = 65535"
  by (simp add: MaxFrameSize_def unsigned_minus_1_eq_mask mask_eq_exp_minus_1)

lemma EncodeInto_layout:
  assumes "HeaderSize + length (Body f) \<le> MaxFrameSize"
  shows "EncodeInto dst f =
    Inr (PutUint16 (of_nat (HeaderSize + length (Body f))) @ PutUint16 (Cmd f) @ PutUint16 (Act f) @ Body f)"
proof -
  let ?n = "HeaderSize + length (Body f)"
  define buf where "buf = (if length dst < ?n then replicate ?n 0 else take ?n dst)"
  have len: "length buf = ?n" by (simp add: buf_def)
  then have "length (take 6 buf) = 6" by (simp add: HeaderSize_def)
  then obtain a b c d e g where hd: "take 6 buf = [a, b, c, d, e, g]"
    by (rule length_6)
  have "buf = [a, b, c, d, e, g] @ drop 6 buf" unfolding hd [symmetric] by simp
  moreover have "length (drop 6 buf) = length (Body f)" using len by (simp add: HeaderSize_def)
  ultimately obtain r where "buf = [a, b, c, d, e, g] @ r" "length r = length (Body f)" by blast
  then show ?thesis
    using assms unfolding EncodeInto_def Let_def buf_def [symmetric]
    by (simp add: overwrite_def PutUint16_def)
qed

lemma EncodeInto_too_large:
  "HeaderSize + length (Body f) > MaxFrameSize \<Longrightarrow> EncodeInto dst f = Inl ErrFrameTooLarge"
  by (simp add: EncodeInto_def Let_def)

lemma Decode_layout:
  "Decode (PutUint16 c @ PutUint16 a @ b) = Inr \<lparr>Cmd = c, Act = a, Body = b\<rparr>"
  by (simp add: Decode_def HeaderSize_def PutUint16_def Uint16_PutUint16)

section \<open>The reader of the Gate\<close>

text \<open>
  One iteration of the read goroutine on the bytes that the client will have sent: read the two
  header bytes, check the size, read the rest of the frame, decode. A short read is the error of
  \<^verbatim>\<open>io.ReadFull\<close>: the goroutine returns and the connection ends.
\<close>

definition read_frame :: "byte list \<Rightarrow> (frame \<times> byte list) option" where
  "read_frame s =
     (if length s < 2 then None
      else
        let size = unat (s ! 0) * 256 + unat (s ! 1) in
        if size < HeaderSize \<or> size > 65535 then None
        else if length s < size then None
        else case Decode (drop 2 (take size s)) of
               Inl _ \<Rightarrow> None
             | Inr f \<Rightarrow> Some (f, drop size s))"

lemma read_frame_shorter: "read_frame s = Some (f, r) \<Longrightarrow> length r < length s"
  by (auto simp: read_frame_def Let_def HeaderSize_def split: if_splits sum.splits)

text \<open>The frames the goroutine delivers before the stream ends or is refused.\<close>

function read_frames :: "byte list \<Rightarrow> frame list" where
  "read_frames s = (case read_frame s of None \<Rightarrow> [] | Some (f, r) \<Rightarrow> f # read_frames r)"
  by pat_completeness auto
termination
  by (relation "measure length") (auto dest: read_frame_shorter)

declare read_frames.simps [simp del]

lemma unat_size_bytes:
  assumes "n < 65536"
  shows "unat (ucast (drop_bit 8 (of_nat n :: 16 word)) :: byte) * 256
       + unat (ucast (of_nat n :: 16 word) :: byte) = n"
proof -
  have n: "unat (of_nat n :: 16 word) = n" using assms by (simp add: unat_of_nat)
  have "unat (drop_bit 8 (of_nat n :: 16 word)) = n div 256"
    unfolding unat_drop_bit_eq n by (simp add: drop_bit_eq_div)
  then have hi: "unat (ucast (drop_bit 8 (of_nat n :: 16 word)) :: byte) = n div 256"
    using assms by (simp only: unsigned_ucast_eq take_bit_eq_mod) simp
  have lo: "unat (ucast (of_nat n :: 16 word) :: byte) = n mod 256"
    by (simp add: unsigned_ucast_eq n take_bit_eq_mod)
  show ?thesis unfolding hi lo by simp
qed

definition fits :: "frame \<Rightarrow> bool" where
  "fits f \<longleftrightarrow> length (Body f) + HeaderSize \<le> MaxFrameSize"

lemma Encode_fits:
  "fits f \<Longrightarrow> Encode f =
     PutUint16 (of_nat (HeaderSize + length (Body f))) @ PutUint16 (Cmd f) @ PutUint16 (Act f) @ Body f"
  by (simp add: Encode_def EncodeChecked_def fits_def add.commute EncodeInto_layout)

lemma read_frame_Encode:
  assumes "fits f"
  shows "read_frame (Encode f @ rest) = Some (f, rest)"
proof -
  let ?n = "HeaderSize + length (Body f)"
  have n: "?n < 65536" "6 \<le> ?n" using assms by (simp_all add: fits_def HeaderSize_def)
  have enc: "Encode f @ rest = PutUint16 (of_nat ?n) @ (PutUint16 (Cmd f) @ PutUint16 (Act f) @ Body f) @ rest"
    using assms by (simp add: Encode_fits)
  have size: "unat ((Encode f @ rest) ! 0) * 256 + unat ((Encode f @ rest) ! 1) = ?n"
    unfolding enc using unat_size_bytes [OF n(1)] by (simp add: PutUint16_def)
  have len: "length (Encode f) = ?n" using assms by (simp add: Encode_fits HeaderSize_def)
  have dec: "Decode (drop 2 (take ?n (Encode f @ rest))) = Inr f"
    using Decode_layout [of "Cmd f" "Act f" "Body f"] assms len
    by (simp add: Encode_fits HeaderSize_def)
  show ?thesis
    unfolding read_frame_def Let_def size
    using n len dec by (simp add: HeaderSize_def)
qed

lemma read_frames_Encode:
  "fits f \<Longrightarrow> read_frames (Encode f @ rest) = f # read_frames rest"
  by (subst read_frames.simps) (simp add: read_frame_Encode)

lemma read_frames_all:
  "list_all fits fs \<Longrightarrow> read_frames (concat (map Encode fs) @ rest) = fs @ read_frames rest"
  by (induction fs) (simp_all add: read_frames_Encode)

lemma read_frame_partial:
  assumes "fits g" and "k < length (Encode g)"
  shows "read_frame (take k (Encode g)) = None"
proof (cases "k < 2")
  case True
  with assms(2) have "length (take k (Encode g)) < 2" by simp
  then show ?thesis by (simp only: read_frame_def if_True)
next
  case False
  let ?n = "HeaderSize + length (Body g)"
  have n: "?n < 65536" using assms(1) by (simp add: fits_def HeaderSize_def)
  have len: "length (Encode g) = ?n" using assms(1) by (simp add: Encode_fits HeaderSize_def)
  have "unat (Encode g ! 0) * 256 + unat (Encode g ! 1) = ?n"
    using assms(1) unat_size_bytes [OF n] by (simp add: Encode_fits PutUint16_def)
  then show ?thesis using False assms(2) len by (simp add: read_frame_def Let_def)
qed

section \<open>Properties of the wire protocol\<close>



text \<open>
  Encoding into a reused buffer gives the bytes of a fresh encoding, whatever the buffer held and
  whatever its capacity: nothing of an earlier message leaks into a frame. Encoding fails exactly
  when header and body exceed the 16-bit length.
\<close>

theorem EncodeInto_reuse:
  "EncodeInto dst f = EncodeChecked f \<and> (EncodeChecked f = Inl ErrFrameTooLarge \<longleftrightarrow> 65535 < 6 + length (Body f))"
proof (cases "fits f")
  case True
  then show ?thesis
    using EncodeInto_layout [of f] by (simp add: fits_def EncodeChecked_def HeaderSize_def add.commute)
next
  case False
  then show ?thesis
    using EncodeInto_too_large [of f] by (simp add: fits_def EncodeChecked_def HeaderSize_def add.commute)
qed

text \<open>
  The length field counts its own two bytes: the first two bytes of an encoded frame are the total
  length, not the length of what follows as the comment on \<open>HeaderSize\<close> says.
\<close>

lemma length_field_counts_itself:
  "fits f \<Longrightarrow> take 2 (Encode f) = PutUint16 (of_nat (length (Encode f)))"
  by (simp add: Encode_fits PutUint16_def HeaderSize_def)

end
