(* ===== verification/Shard_Routing.thy ===== *)
theory Shard_Routing
  imports Go_Strings
begin

text \<open>
  Deterministic routing of roles: \<^verbatim>\<open>pkg/shard/shard.go\<close>, the physical database index of
  \<^verbatim>\<open>pkg/db/sharded.go\<close>, and the ownership test of \<^verbatim>\<open>services/game/internal/player/manager.go\<close>.
\<close>

unbundle bit_operations_syntax

definition DefaultShardCount :: int where "DefaultShardCount = 50"
definition MaxRecommendedShardCount :: int where "MaxRecommendedShardCount = 512"
definition CCUPerShard :: int where "CCUPerShard = 2000"

definition ForRole :: "int \<Rightarrow> int \<Rightarrow> int" where
  "ForRole roleID shardCount =
     (let n = (if shardCount \<le> 0 then 1 else shardCount);
          m = go_rem roleID n;
          m = (if m < 0 then i64 (m + n) else m)
      in i32 m)"

text \<open>FNV-1a over the bytes of a string, on 32-bit words.\<close>

definition fnv32a :: "string \<Rightarrow> 32 word" where
  "fnv32a s = foldl (\<lambda>h c. (h XOR of_char c) * 16777619) 2166136261 s"

definition ForRoleFNV :: "int \<Rightarrow> int \<Rightarrow> int" where
  "ForRoleFNV roleID shardCount =
     (let n = (if shardCount \<le> 0 then 1 else shardCount)
      in i32 (uint (fnv32a (FormatInt roleID)) mod uint (word_of_int n :: 32 word)))"

definition ShardCountForCCU :: "int \<Rightarrow> int \<Rightarrow> int" where
  "ShardCountForCCU ccu perShard =
     (let per = (if perShard \<le> 0 then CCUPerShard else perShard) in
      if ccu \<le> 0 then 1
      else let n = go_quot (i32 (i32 (ccu + per) - 1)) per in
           if n > MaxRecommendedShardCount then MaxRecommendedShardCount
           else if n < 1 then 1 else n)"

definition ServiceName :: "int \<Rightarrow> string" where
  "ServiceName shardID = ''game-shard-'' @ FormatInt shardID"

definition GateServiceName :: "string \<Rightarrow> string" where
  "GateServiceName instanceSuffix = ''gate-'' @ instanceSuffix"

text \<open>\<^verbatim>\<open>ShardedPool.indexForRole\<close> on a pool of \<open>count\<close> databases.\<close>

definition indexForRole :: "nat \<Rightarrow> int \<Rightarrow> int" where
  "indexForRole count roleID = (if count \<le> 1 then 0 else ForRole roleID (i32 (int count)))"

text \<open>\<^verbatim>\<open>Manager.Owns\<close> of a process configured with \<open>shardID\<close> and \<open>shardCount\<close>.\<close>

definition Owns :: "int \<Rightarrow> int \<Rightarrow> int \<Rightarrow> bool" where
  "Owns shardID shardCount roleID \<longleftrightarrow> shardCount \<le> 1 \<or> ForRole roleID shardCount = shardID"

section \<open>Routing is a function onto the shards\<close>

lemma ForRole_pos:
  assumes "in_i32 n" and "0 < n"
  shows "ForRole r n = r mod n"
proof -
  have b: "- n < go_rem r n" "go_rem r n < n" using go_rem_bounds [OF assms(2)] by blast+
  have "in_i64 (go_rem r n + n)" using b assms by (simp add: in_i64_def in_i32_def)
  moreover have "(if go_rem r n < 0 then go_rem r n + n else go_rem r n) = r mod n"
    by (rule go_rem_euclid [OF assms(2)])
  moreover have "in_i32 (r mod n)"
    using assms pos_mod_sign [of n r] pos_mod_bound [of n r] unfolding in_i32_def by linarith
  ultimately show ?thesis
    using assms(2) by (cases "go_rem r n < 0") (simp_all add: ForRole_def)
qed

lemma ForRole_mod:
  assumes "in_i32 n"
  shows "ForRole r n = r mod (if n \<le> 0 then 1 else n)"
proof (cases "n \<le> 0")
  case True
  then have "ForRole r n = ForRole r 1" by (simp add: ForRole_def)
  also have "\<dots> = 0" by (subst ForRole_pos) (simp_all add: in_i32_def)
  finally show ?thesis using True by simp
next
  case False
  with assms show ?thesis by (simp add: ForRole_pos)
qed

lemma ForRole_range:
  assumes "in_i32 n" and "0 < n"
  shows "0 \<le> ForRole r n \<and> ForRole r n < n"
  using assms by (simp add: ForRole_mod)

lemma ServiceName_inj: "in_i32 a \<Longrightarrow> in_i32 b \<Longrightarrow> ServiceName a = ServiceName b \<Longrightarrow> a = b"
  by (auto simp: ServiceName_def intro: FormatInt_inj_64 in_i32_in_i64)

lemma indexForRole_range:
  assumes "0 < count" and "count < 2 ^ 31"
  shows "0 \<le> indexForRole count r \<and> indexForRole count r < int count"
proof (cases "count \<le> 1")
  case True
  with assms show ?thesis by (simp add: indexForRole_def)
next
  case False
  have "int count < 2 ^ 31" using assms(2) by (metis of_nat_less_numeral_power_cancel_iff)
  then have "in_i32 (int count)" by (simp add: in_i32_def)
  with False show ?thesis using ForRole_range [of "int count" r] by (simp add: indexForRole_def)
qed

lemma ShardCountForCCU_ceiling:
  assumes "0 < per" and "0 < ccu" and "ccu + per - 1 < 2 ^ 31"
  shows "ShardCountForCCU ccu per = min MaxRecommendedShardCount ((ccu + per - 1) div per)"
proof -
  have "in_i32 (ccu + per - 1)" using assms by (simp add: in_i32_def)
  moreover have "i32 (i32 (ccu + per) - 1) = i32 (ccu + per - 1)"
    using i32_add_i32 [of "ccu + per" "- 1"] by simp
  ultimately have q: "go_quot (i32 (i32 (ccu + per) - 1)) per = (ccu + per - 1) div per"
    using assms by (simp add: go_quot_nonneg)
  have "1 \<le> (ccu + per - 1) div per"
    using assms zdiv_mono1 [of per "ccu + per - 1" per] by simp
  with assms q show ?thesis
    unfolding ShardCountForCCU_def Let_def by (auto simp: MaxRecommendedShardCount_def min_def)
qed

section \<open>The interface of a router\<close>

text \<open>
  What Gate, Match, the Game processes and the database pools rely on: a role goes to one of the
  shards there are.
\<close>

locale router =
  fixes route :: "int \<Rightarrow> int \<Rightarrow> int"
  assumes route_range: "in_i32 n \<Longrightarrow> 0 < n \<Longrightarrow> 0 \<le> route r n \<and> route r n < n"
    and route_degenerate: "n \<le> 0 \<Longrightarrow> route r n = 0"
begin

lemma route_one: "route r 1 = 0"
  using route_range [of 1 r] by (simp add: in_i32_def)

lemma route_unique: "in_i32 n \<Longrightarrow> 0 < n \<Longrightarrow> \<exists>!s. 0 \<le> s \<and> s < n \<and> (n \<le> 1 \<or> route r n = s)"
proof (cases "n \<le> 1")
  case True
  assume "0 < n"
  with True have "n = 1" by simp
  then show ?thesis by (auto intro: exI [of _ 0])
next
  case False
  assume "in_i32 n" "0 < n"
  with False show ?thesis using route_range [of n r] by auto
qed

lemma service_unique:
  assumes "in_i32 n" and "0 < n"
  shows "\<exists>!name. \<exists>s. 0 \<le> s \<and> s < n \<and> (n \<le> 1 \<or> route r n = s) \<and> name = ServiceName s"
proof -
  obtain s where s: "0 \<le> s \<and> s < n \<and> (n \<le> 1 \<or> route r n = s)"
    and u: "\<And>t. 0 \<le> t \<and> t < n \<and> (n \<le> 1 \<or> route r n = t) \<Longrightarrow> t = s"
    using route_unique [OF assms, of r] by blast
  then show ?thesis by blast
qed

end

interpretation by_modulus: router ForRole
  by unfold_locales (use ForRole_range in blast, simp add: ForRole_mod [of 1] ForRole_def go_rem_def in_i32_def)

lemma ForRoleFNV_range:
  assumes "in_i32 n" and "0 < n"
  shows "0 \<le> ForRoleFNV r n \<and> ForRoleFNV r n < n"
proof -
  have n: "uint (word_of_int n :: 32 word) = n"
    using assms by (simp add: uint_word_of_int in_i32_def)
  let ?m = "uint (fnv32a (FormatInt r)) mod n"
  have "0 \<le> ?m" "?m < n" using assms(2) by simp_all
  moreover from this have "in_i32 ?m" using assms(1) unfolding in_i32_def by linarith
  ultimately show ?thesis using assms(2) by (simp add: ForRoleFNV_def n)
qed

interpretation by_fnv: router ForRoleFNV
  by unfold_locales (use ForRoleFNV_range in blast, simp add: ForRoleFNV_def i32_def)

section \<open>Properties of routing\<close>

text \<open>
  Every role has exactly one owner. Among the processes of a cluster with \<open>n\<close> shards, one and only
  one shard id passes the ownership check of the player manager for a role, that shard is the
  Euclidean remainder of the role id (also for negative ids), and no two shards share a service name.
\<close>

theorem role_has_one_owner:
  assumes "in_i32 n" and "0 < n"
  shows "(\<exists>!s. 0 \<le> s \<and> s < n \<and> Owns s n roleID) \<and> Owns (roleID mod n) n roleID \<and>
    (\<exists>!name. \<exists>s. 0 \<le> s \<and> s < n \<and> Owns s n roleID \<and> name = ServiceName s)"
  using by_modulus.route_unique [OF assms, of roleID] by_modulus.service_unique [OF assms, of roleID]
    ForRole_pos [OF assms, of roleID]
  unfolding Owns_def by simp

theorem role_has_one_owner_witness:
  "(\<exists>!s. 0 \<le> s \<and> s < 50 \<and> Owns s 50 (- 7)) \<and> Owns 43 50 (- 7)"
  using role_has_one_owner [of 50 "- 7"] by (simp add: in_i32_def)

text \<open>
  The recommended number of shards is the number of online players divided by the players per
  shard, rounded up, between 1 and 512, as long as the 32-bit sum does not overflow.
\<close>

theorem ShardCountForCCU_bounds:
  assumes "0 < ccu" and "0 < per" and "ccu + per - 1 < 2 ^ 31"
  shows "1 \<le> ShardCountForCCU ccu per \<and> ShardCountForCCU ccu per \<le> 512 \<and>
    (ShardCountForCCU ccu per < 512 \<longrightarrow>
       ccu \<le> per * ShardCountForCCU ccu per \<and> per * (ShardCountForCCU ccu per - 1) < ccu)"
proof -
  let ?q = "(ccu + per - 1) div per"
  have s: "ShardCountForCCU ccu per = min 512 ?q"
    using assms by (simp add: ShardCountForCCU_ceiling MaxRecommendedShardCount_def)
  have e: "per * ?q + (ccu + per - 1) mod per = ccu + per - 1" by (rule mult_div_mod_eq)
  have m: "0 \<le> (ccu + per - 1) mod per" "(ccu + per - 1) mod per < per"
    using assms(2) by simp_all
  have "ccu \<le> per * ?q" "per * (?q - 1) < ccu" using e m unfolding right_diff_distrib by linarith+
  moreover have "1 \<le> ?q" using assms zdiv_mono1 [of per "ccu + per - 1" per] by simp
  ultimately show ?thesis unfolding s by (auto simp: min_def)
qed

theorem ShardCountForCCU_bounds_witness: "1 \<le> ShardCountForCCU 100001 2000 \<and> ShardCountForCCU 100001 2000 \<le> 512"
  using ShardCountForCCU_bounds [of 100001 2000] by simp

text \<open>Past that bound the sum wraps and the largest population gets a single shard.\<close>

lemma ShardCountForCCU_overflow: "ShardCountForCCU 2147483647 2000 = 1"
  by (simp add: ShardCountForCCU_def i32_def go_quot_def MaxRecommendedShardCount_def)

end
