(* ===== verification/Hash_Ring.thy ===== *)
theory Hash_Ring
  imports Shard_Routing
begin

text \<open>
  The consistent-hash ring of \<^verbatim>\<open>pkg/shard/consistent.go\<close>: CRC-32 virtual nodes on a sorted key
  list, lookup by Go's binary search. The lemmas relate the search to the first key clockwise of a
  hash and show that a change of the node set moves only the roles it has to move.
\<close>

section \<open>CRC-32 (IEEE), bitwise\<close>

definition crc_bit :: "32 word \<Rightarrow> 32 word" where
  "crc_bit c = (if odd (unat c) then drop_bit 1 c XOR 0xEDB88320 else drop_bit 1 c)"

definition crc_byte :: "32 word \<Rightarrow> char \<Rightarrow> 32 word" where
  "crc_byte c b = (crc_bit ^^ 8) (c XOR of_char b)"

definition ChecksumIEEE :: "string \<Rightarrow> 32 word" where
  "ChecksumIEEE s = NOT (foldl crc_byte (NOT 0) s)"

section \<open>sort.Search\<close>

text \<open>Go's \<^verbatim>\<open>sort.Search(n, f)\<close>: binary search for the least index in \<open>[i, j)\<close> where \<open>f\<close> holds.\<close>

function search_loop :: "(nat \<Rightarrow> bool) \<Rightarrow> nat \<Rightarrow> nat \<Rightarrow> nat" where
  "search_loop f i j =
     (if i < j then
        let h = (i + j) div 2 in
        if \<not> f h then search_loop f (Suc h) j else search_loop f i h
      else i)"
  by pat_completeness auto
termination
  by (relation "measure (\<lambda>(f, i, j). j - i)") auto

declare search_loop.simps [simp del]

definition sort_Search :: "nat \<Rightarrow> (nat \<Rightarrow> bool) \<Rightarrow> nat" where
  "sort_Search n f = search_loop f 0 n"

lemma search_loop_step:
  "i < j \<Longrightarrow> f ((i + j) div 2) \<Longrightarrow> search_loop f i j = search_loop f i ((i + j) div 2)"
  "i < j \<Longrightarrow> \<not> f ((i + j) div 2) \<Longrightarrow> search_loop f i j = search_loop f (Suc ((i + j) div 2)) j"
  "\<not> i < j \<Longrightarrow> search_loop f i j = i"
  by (subst search_loop.simps, simp add: Let_def)+

definition least_in :: "(nat \<Rightarrow> bool) \<Rightarrow> nat \<Rightarrow> nat \<Rightarrow> nat \<Rightarrow> bool" where
  "least_in f i j r \<longleftrightarrow> i \<le> r \<and> r \<le> j \<and> (\<forall>k. i \<le> k \<and> k < r \<longrightarrow> \<not> f k) \<and> (r < j \<longrightarrow> f r)"

lemma search_loop_spec:
  assumes "\<And>a b. a \<le> b \<Longrightarrow> b < j \<Longrightarrow> f a \<Longrightarrow> f b" and "i \<le> j"
  shows "least_in f i j (search_loop f i j)"
  using assms
proof (induction f i j rule: search_loop.induct)
  case (1 f i j)
  let ?h = "(i + j) div 2"
  show ?case
  proof (cases "i < j")
    case True
    then have h: "i \<le> ?h" "?h < j" by auto
    show ?thesis
    proof (cases "f ?h")
      case fh: True
      have "least_in f i ?h (search_loop f i ?h)"
        using "1.IH"(2) [OF True refl] fh h "1.prems"(1) by simp
      then show ?thesis
        using fh h by (auto simp: search_loop_step(1) [OF True] least_in_def le_less)
    next
      case nfh: False
      have ih: "least_in f (Suc ?h) j (search_loop f (Suc ?h) j)"
        using "1.IH"(1) [OF True refl nfh] h "1.prems"(1) by simp
      have low: "\<not> f k" if "k \<le> ?h" for k using "1.prems"(1) h(2) nfh that by blast
      have "\<not> f k" if "k < search_loop f (Suc ?h) j" for k
        using low [of k] ih that by (cases "k \<le> ?h") (simp_all add: least_in_def)
      then show ?thesis
        using ih h(1) by (simp add: search_loop_step(2) [of i j f, OF True nfh] least_in_def)
    qed
  next
    case False
    with "1.prems"(2) show ?thesis by (auto simp: search_loop_step least_in_def)
  qed
qed

lemma find_nth_least:
  assumes "least_in (\<lambda>i. P (xs ! i)) 0 (length xs) r"
  shows "find P xs = (if r < length xs then Some (xs ! r) else None)"
proof (cases "r < length xs")
  case True
  with assms show ?thesis by (auto simp: least_in_def find_Some_iff)
next
  case False
  with assms have "r = length xs" by (simp add: least_in_def)
  with assms show ?thesis by (auto simp: least_in_def find_None_iff in_set_conv_nth)
qed

section \<open>The ring\<close>

record ring =
  replicas :: int
  keys :: "32 word list"
  hashMap :: "32 word \<Rightarrow> string option"
  nodes :: "string set"

definition NewRing :: "int \<Rightarrow> ring" where
  "NewRing n = \<lparr>replicas = (if n \<le> 0 then 150 else n), keys = [], hashMap = Map.empty, nodes = {}\<rparr>"

definition vnode :: "string \<Rightarrow> nat \<Rightarrow> 32 word" where
  "vnode node i = ChecksumIEEE (node @ ''#'' @ FormatInt (int i))"

text \<open>The inner loop of \<open>Add\<close>: one key per virtual node, the map entry overwritten on a collision.\<close>

fun add_vnodes :: "string \<Rightarrow> nat list \<Rightarrow> ring \<Rightarrow> ring" where
  "add_vnodes node [] r = r"
| "add_vnodes node (i # is) r =
     add_vnodes node is (r\<lparr>keys := keys r @ [vnode node i], hashMap := (hashMap r)(vnode node i \<mapsto> node)\<rparr>)"

fun add_nodes :: "string list \<Rightarrow> ring \<Rightarrow> ring" where
  "add_nodes [] r = r"
| "add_nodes (node # ns) r =
     (if node = [] \<or> node \<in> nodes r then add_nodes ns r
      else add_nodes ns (add_vnodes node [0..<nat (replicas r)] (r\<lparr>nodes := insert node (nodes r)\<rparr>)))"

definition Ring_Add :: "ring \<Rightarrow> string list \<Rightarrow> ring" where
  "Ring_Add r ns = (let r' = add_nodes ns r in r'\<lparr>keys := sort (keys r')\<rparr>)"

definition lookup_node :: "(32 word \<Rightarrow> string option) \<Rightarrow> 32 word \<Rightarrow> string" where
  "lookup_node m h = (case m h of None \<Rightarrow> [] | Some n \<Rightarrow> n)"

text \<open>The loop of \<open>Remove\<close>: the map shrinks while the keys are scanned.\<close>

fun remove_keys :: "string \<Rightarrow> (32 word \<Rightarrow> string option) \<Rightarrow> 32 word list
    \<Rightarrow> 32 word list \<times> (32 word \<Rightarrow> string option)" where
  "remove_keys node m [] = ([], m)"
| "remove_keys node m (h # hs) =
     (if lookup_node m h = node then remove_keys node (m(h := None)) hs
      else let (kept, m') = remove_keys node m hs in (h # kept, m'))"

definition Ring_Remove :: "ring \<Rightarrow> string \<Rightarrow> ring" where
  "Ring_Remove r node =
     (if node \<notin> nodes r then r
      else let (kept, m') = remove_keys node (hashMap r) (keys r)
           in r\<lparr>nodes := nodes r - {node}, hashMap := m', keys := kept\<rparr>)"

definition Ring_Get :: "ring \<Rightarrow> int \<Rightarrow> string" where
  "Ring_Get r roleID =
     (if keys r = [] then []
      else let h = ChecksumIEEE (FormatInt roleID);
               idx = sort_Search (length (keys r)) (\<lambda>i. keys r ! i \<ge> h);
               idx = (if idx = length (keys r) then 0 else idx)
           in lookup_node (hashMap r) (keys r ! idx))"

definition Ring_Nodes :: "ring \<Rightarrow> nat" where
  "Ring_Nodes r = card (nodes r)"

text \<open>\<^verbatim>\<open>for i := int32(0); i < count; i++ { r.Add(ServiceName(i)) }\<close>\<close>

definition RingForShards :: "int \<Rightarrow> int \<Rightarrow> ring" where
  "RingForShards shards n = foldl (\<lambda>r i. Ring_Add r [ServiceName (int i)]) (NewRing n) [0..<nat shards]"

section \<open>The clockwise successor\<close>

text \<open>
  What the ring promises: the role goes to the owner of the first key at or after its hash, and
  past the largest key the ring wraps to the smallest.
\<close>

definition succ_key :: "32 word list \<Rightarrow> 32 word \<Rightarrow> 32 word option" where
  "succ_key ks h = (case find (\<lambda>k. h \<le> k) ks of Some k \<Rightarrow> Some k
                    | None \<Rightarrow> (case ks of [] \<Rightarrow> None | k # _ \<Rightarrow> Some k))"

definition owner :: "ring \<Rightarrow> 32 word \<Rightarrow> string" where
  "owner r h = (case succ_key (keys r) h of None \<Rightarrow> [] | Some k \<Rightarrow> lookup_node (hashMap r) k)"

lemma Ring_Get_owner:
  assumes "sorted (keys r)"
  shows "Ring_Get r roleID = owner r (ChecksumIEEE (FormatInt roleID))"
proof (cases "keys r = []")
  case True
  then show ?thesis by (simp add: Ring_Get_def owner_def succ_key_def)
next
  case False
  let ?h = "ChecksumIEEE (FormatInt roleID)"
  let ?idx = "sort_Search (length (keys r)) (\<lambda>i. ?h \<le> keys r ! i)"
  have "least_in (\<lambda>i. ?h \<le> keys r ! i) 0 (length (keys r)) ?idx"
    unfolding sort_Search_def
    by (rule search_loop_spec) (use assms in \<open>auto intro: order_trans sorted_nth_mono\<close>)
  then have "find (\<lambda>k. ?h \<le> k) (keys r) = (if ?idx < length (keys r) then Some (keys r ! ?idx) else None)"
    and "?idx \<le> length (keys r)"
    by (auto simp: find_nth_least) (simp add: least_in_def)
  moreover obtain k ks where "keys r = k # ks" using False by (cases "keys r") auto
  ultimately show ?thesis
    by (auto simp: Ring_Get_def owner_def succ_key_def Let_def)
qed

lemma find_filter_keep: "find P xs = Some k \<Longrightarrow> Q k \<Longrightarrow> find P (filter Q xs) = Some k"
  by (induction xs) (auto split: if_splits)

lemma find_filter_None: "find P xs = None \<Longrightarrow> find P (filter Q xs) = None"
  by (induction xs) (auto split: if_splits)

text \<open>Dropping keys other than the successor does not change the successor.\<close>

lemma succ_key_filter:
  assumes "succ_key ks h = Some k" and "Q k"
  shows "succ_key (filter Q ks) h = Some k"
proof (cases "find (\<lambda>k. h \<le> k) ks")
  case None
  with assms show ?thesis
    by (auto simp: succ_key_def find_filter_None split: list.splits)
next
  case (Some k')
  with assms have "find (\<lambda>k. h \<le> k) (filter Q ks) = Some k"
    by (auto simp: succ_key_def intro: find_filter_keep)
  then show ?thesis by (simp add: succ_key_def)
qed

lemma succ_key_mem: "succ_key ks h = Some k \<Longrightarrow> k \<in> set ks"
  by (auto simp: succ_key_def find_Some_iff split: option.splits list.splits)

lemma succ_key_None [simp]: "succ_key ks h = None \<longleftrightarrow> ks = []"
  by (auto simp: succ_key_def split: option.splits list.splits)

section \<open>The ring invariant\<close>

definition vnodes :: "ring \<Rightarrow> string \<Rightarrow> 32 word set" where
  "vnodes r node = vnode node ` {..<nat (replicas r)}"

definition ring_ok :: "ring \<Rightarrow> bool" where
  "ring_ok r \<longleftrightarrow> sorted (keys r) \<and> distinct (keys r) \<and> [] \<notin> nodes r \<and> dom (hashMap r) = set (keys r) \<and>
     (\<forall>k node. hashMap r k = Some node \<longleftrightarrow> node \<in> nodes r \<and> k \<in> vnodes r node)"

lemma ring_ok_NewRing: "ring_ok (NewRing n)"
  by (simp add: ring_ok_def NewRing_def)

lemma ring_okD:
  assumes "ring_ok r"
  shows "sorted (keys r)" "distinct (keys r)" "[] \<notin> nodes r" "dom (hashMap r) = set (keys r)"
    "hashMap r k = Some n \<longleftrightarrow> n \<in> nodes r \<and> k \<in> vnodes r n"
  using assms by (simp_all add: ring_ok_def)

lemma ring_ok_lookup:
  assumes "ring_ok r" and "k \<in> set (keys r)"
  shows "hashMap r k = Some (lookup_node (hashMap r) k)"
proof -
  from assms(2) have "k \<in> dom (hashMap r)" by (simp only: ring_okD(4) [OF assms(1)])
  then show ?thesis by (auto simp: lookup_node_def)
qed

lemma remove_keys_distinct:
  assumes "distinct ks"
  shows "remove_keys node m ks =
    (filter (\<lambda>k. lookup_node m k \<noteq> node) ks,
     \<lambda>k. if k \<in> set ks \<and> lookup_node m k = node then None else m k)"
  using assms
proof (induction ks arbitrary: m)
  case Nil
  then show ?case by auto
next
  case (Cons h hs)
  then have h: "h \<notin> set hs" and IH: "\<And>m. remove_keys node m hs =
      (filter (\<lambda>k. lookup_node m k \<noteq> node) hs,
       \<lambda>k. if k \<in> set hs \<and> lookup_node m k = node then None else m k)" by auto
  have other: "k \<in> set hs \<Longrightarrow> lookup_node (m(h := None)) k = lookup_node m k" for k
    using h by (auto simp: lookup_node_def)
  show ?case
    using h other by (auto simp: IH fun_eq_iff intro!: filter_cong)
qed

lemma Ring_Remove_eq:
  assumes "ring_ok r" and "node \<in> nodes r"
  shows "Ring_Remove r node = r\<lparr>nodes := nodes r - {node},
     hashMap := (\<lambda>k. if hashMap r k = Some node then None else hashMap r k),
     keys := filter (\<lambda>k. hashMap r k \<noteq> Some node) (keys r)\<rparr>"
proof -
  have d: "distinct (keys r)" and ne: "node \<noteq> []" and dom: "dom (hashMap r) = set (keys r)"
    using assms by (auto simp: ring_ok_def)
  have lk: "lookup_node (hashMap r) k = node \<longleftrightarrow> hashMap r k = Some node" for k
    using ne by (auto simp: lookup_node_def split: option.splits)
  have "(\<lambda>k. if k \<in> set (keys r) \<and> hashMap r k = Some node then None else hashMap r k)
      = (\<lambda>k. if hashMap r k = Some node then None else hashMap r k)"
    using dom by (intro ext) (auto dest: domI)
  then show ?thesis
    using assms(2) by (simp add: Ring_Remove_def remove_keys_distinct [OF d] lk)
qed

lemma ring_ok_Remove:
  assumes "ring_ok r"
  shows "ring_ok (Ring_Remove r node)"
proof (cases "node \<in> nodes r")
  case True
  have owner: "hashMap r k = Some n \<longleftrightarrow> n \<in> nodes r \<and> k \<in> vnodes r n" for k n
    using assms by (simp add: ring_ok_def)
  have "(if hashMap r k = Some node then None else hashMap r k) = Some n
      \<longleftrightarrow> n \<in> nodes r - {node} \<and> k \<in> vnodes r n" for k n
    using owner [of k n] by (cases "hashMap r k = Some node") auto
  moreover have "dom (\<lambda>k. if hashMap r k = Some node then None else hashMap r k)
      = {k \<in> set (keys r). hashMap r k \<noteq> Some node}"
    unfolding ring_okD(4) [OF assms, symmetric] by (auto split: if_splits)
  ultimately show ?thesis
    unfolding Ring_Remove_eq [OF assms True]
    using assms by (simp add: ring_ok_def vnodes_def sorted_filter [where f = id, simplified])
next
  case False
  with assms show ?thesis by (simp add: Ring_Remove_def)
qed

lemma add_vnodes_eq:
  "add_vnodes node is r = r\<lparr>keys := keys r @ map (vnode node) is,
     hashMap := (\<lambda>k. if k \<in> vnode node ` set is then Some node else hashMap r k)\<rparr>"
proof (induction "is" arbitrary: r)
  case Nil
  then show ?case by simp
next
  case (Cons i "is")
  then show ?case by (auto simp: fun_eq_iff)
qed

text \<open>A node whose virtual keys collide neither with each other nor with a key of the ring.\<close>

definition collision_free :: "ring \<Rightarrow> string \<Rightarrow> bool" where
  "collision_free r node \<longleftrightarrow>
     distinct (map (vnode node) [0..<nat (replicas r)]) \<and>
     (\<forall>i < nat (replicas r). vnode node i \<notin> set (keys r))"

lemma collision_free_disjoint: "collision_free r node \<Longrightarrow> vnodes r node \<inter> set (keys r) = {}"
  by (auto simp: collision_free_def vnodes_def)

lemma Ring_Add_single:
  assumes "node \<noteq> []" and "node \<notin> nodes r"
  shows "Ring_Add r [node] = r\<lparr>nodes := insert node (nodes r),
     hashMap := (\<lambda>k. if k \<in> vnodes r node then Some node else hashMap r k),
     keys := sort (keys r @ map (vnode node) [0..<nat (replicas r)])\<rparr>"
  using assms by (simp add: Ring_Add_def add_vnodes_eq vnodes_def lessThan_atLeast0 cong: if_cong)

lemma Ring_Add_present: "sorted (keys r) \<Longrightarrow> node = [] \<or> node \<in> nodes r \<Longrightarrow> Ring_Add r [node] = r"
  by (auto simp: Ring_Add_def sorted_sort_id)

lemma ring_ok_Add:
  assumes "ring_ok r" and "node \<notin> nodes r \<Longrightarrow> collision_free r node"
  shows "ring_ok (Ring_Add r [node])"
proof (cases "node = [] \<or> node \<in> nodes r")
  case True
  with assms(1) show ?thesis by (simp add: Ring_Add_present ring_okD)
next
  case False
  with assms(2) have cf: "collision_free r node" by simp
  have own: "(if k \<in> vnodes r node then Some node else hashMap r k) = Some n
      \<longleftrightarrow> n \<in> insert node (nodes r) \<and> k \<in> vnodes r n" for k n
  proof (cases "k \<in> vnodes r node")
    case True
    with collision_free_disjoint [OF cf] have "k \<notin> dom (hashMap r)"
      unfolding ring_okD(4) [OF assms(1)] by blast
    with True show ?thesis using ring_okD(5) [OF assms(1), of k n] by auto
  next
    case notin: False
    show ?thesis using notin False ring_okD(5) [OF assms(1), of k n] by auto
  qed
  have "dom (\<lambda>k. if k \<in> vnodes r node then Some node else hashMap r k)
      = set (sort (keys r @ map (vnode node) [0..<nat (replicas r)]))"
    using ring_okD(4) [OF assms(1), symmetric]
    by (auto simp: vnodes_def lessThan_atLeast0 split: if_splits)
  moreover have "distinct (sort (keys r @ map (vnode node) [0..<nat (replicas r)]))"
    using cf ring_okD(2) [OF assms(1)] by (auto simp: collision_free_def)
  ultimately show ?thesis
    using False own ring_okD(3) [OF assms(1)]
    by (auto simp: Ring_Add_single ring_ok_def vnodes_def)
qed

section \<open>A change of the node set moves only the roles it has to\<close>

lemma owner_Remove:
  assumes "ring_ok r" and "owner r h \<noteq> node"
  shows "owner (Ring_Remove r node) h = owner r h"
proof (cases "node \<in> nodes r")
  case False
  then show ?thesis by (simp add: Ring_Remove_def)
next
  case True
  show ?thesis
  proof (cases "succ_key (keys r) h")
    case None
    then have "keys r = []" by simp
    then show ?thesis
      by (simp add: Ring_Remove_eq [OF assms(1) True] owner_def succ_key_def)
  next
    case (Some k)
    have "hashMap r k = Some (lookup_node (hashMap r) k)"
      using ring_ok_lookup [OF assms(1) succ_key_mem [OF Some]] .
    with assms(2) Some have "hashMap r k \<noteq> Some node" by (simp add: owner_def)
    with Some show ?thesis
      by (simp add: Ring_Remove_eq [OF assms(1) True] owner_def succ_key_filter lookup_node_def)
  qed
qed

lemma owner_in_nodes:
  assumes "ring_ok r" and "keys r \<noteq> []"
  shows "owner r h \<in> nodes r"
proof -
  obtain k where k: "succ_key (keys r) h = Some k" using assms(2) by fastforce
  then have "hashMap r k = Some (lookup_node (hashMap r) k)"
    using ring_ok_lookup [OF assms(1) succ_key_mem] by blast
  with k show ?thesis using ring_okD(5) [OF assms(1)] by (simp add: owner_def)
qed

lemma keys_Add_filter:
  assumes "ring_ok r" and "collision_free r node" and "node \<noteq> []" "node \<notin> nodes r"
  shows "keys r = filter (\<lambda>k. k \<notin> vnodes r node) (keys (Ring_Add r [node]))"
proof (rule sorted_distinct_set_unique)
  have ok: "ring_ok (Ring_Add r [node])" using assms by (simp add: ring_ok_Add)
  show "sorted (keys r)" "distinct (keys r)" using ring_okD [OF assms(1)] by simp_all
  show "sorted (filter (\<lambda>k. k \<notin> vnodes r node) (keys (Ring_Add r [node])))"
    using ring_okD(1) [OF ok] by (simp add: sorted_filter [where f = id, simplified])
  show "distinct (filter (\<lambda>k. k \<notin> vnodes r node) (keys (Ring_Add r [node])))"
    using ring_okD(2) [OF ok] by simp
  show "set (keys r) = set (filter (\<lambda>k. k \<notin> vnodes r node) (keys (Ring_Add r [node])))"
    using collision_free_disjoint [OF assms(2)] assms(3,4)
    by (auto simp: Ring_Add_single vnodes_def)
qed

lemma owner_Add:
  assumes "ring_ok r" and "collision_free r node" and "node \<noteq> []" "node \<notin> nodes r"
  shows "owner (Ring_Add r [node]) h \<in> {owner r h, node}"
proof (cases "succ_key (keys (Ring_Add r [node])) h")
  case None
  then have e: "keys (Ring_Add r [node]) = []" by simp
  then have "keys r = []" using keys_Add_filter [OF assms] by simp
  with e show ?thesis by (simp add: owner_def succ_key_def)
next
  case (Some k)
  show ?thesis
  proof (cases "k \<in> vnodes r node")
    case True
    with Some assms show ?thesis by (simp add: owner_def Ring_Add_single lookup_node_def)
  next
    case False
    with Some have "succ_key (keys r) h = Some k"
      unfolding keys_Add_filter [OF assms] by (intro succ_key_filter) simp_all
    with Some False assms show ?thesis by (simp add: owner_def Ring_Add_single lookup_node_def)
  qed
qed

section \<open>Properties of the ring\<close>

text \<open>
  C4. \<open>Get\<close> returns the owner of the first virtual node at or after the hash of the role, wrapping to
  the smallest one; on a ring with nodes that owner is one of them, on an empty ring it is the empty
  name. Adding a node (without a checksum collision) and removing one keep the invariant this needs.
\<close>

theorem Ring_Get_clockwise:
  assumes "ring_ok r"
  shows "Ring_Get r roleID = owner r (ChecksumIEEE (FormatInt roleID)) \<and>
    (if keys r = [] then Ring_Get r roleID = [] else Ring_Get r roleID \<in> nodes r) \<and>
    ring_ok (Ring_Remove r node) \<and> (collision_free r node \<longrightarrow> ring_ok (Ring_Add r [node]))"
  using Ring_Get_owner [of r roleID] owner_in_nodes [OF assms] ring_okD(1) [OF assms]
    ring_ok_Remove [OF assms] ring_ok_Add [OF assms, of node]
  by (auto simp: owner_def succ_key_def)

text \<open>
  Minimal disruption. Removing a node moves no role that another node served; adding a node moves
  a role only to the new node; and removing a node right after adding it restores every assignment.
\<close>

theorem Ring_minimal_disruption:
  assumes "ring_ok r" and "collision_free r node" and "node \<noteq> []" and "node \<notin> nodes r"
  shows "(Ring_Get r roleID \<noteq> old \<longrightarrow> Ring_Get (Ring_Remove r old) roleID = Ring_Get r roleID) \<and>
    Ring_Get (Ring_Add r [node]) roleID \<in> {Ring_Get r roleID, node} \<and>
    Ring_Get (Ring_Remove (Ring_Add r [node]) node) roleID = Ring_Get r roleID"
proof -
  have ok: "ring_ok (Ring_Add r [node])" using assms by (simp add: ring_ok_Add)
  have get: "Ring_Get x roleID = owner x (ChecksumIEEE (FormatInt roleID))" if "ring_ok x" for x
    using Ring_Get_owner ring_okD(1) [OF that] by blast
  have "Ring_Remove (Ring_Add r [node]) node = r"
  proof -
    have mem: "node \<in> nodes (Ring_Add r [node])" using assms(3,4) by (simp add: Ring_Add_single)
    have hm: "hashMap (Ring_Add r [node]) = (\<lambda>k. if k \<in> vnodes r node then Some node else hashMap r k)"
      using assms(3,4) by (simp add: Ring_Add_single)
    have no: "hashMap r k \<noteq> Some node" for k using ring_okD(5) [OF assms(1)] assms(4) by blast
    have none: "k \<in> vnodes r node \<Longrightarrow> hashMap r k = None" for k
      using collision_free_disjoint [OF assms(2)] ring_okD(4) [OF assms(1)] by auto
    have "(\<lambda>k. if hashMap (Ring_Add r [node]) k = Some node then None else hashMap (Ring_Add r [node]) k) = hashMap r"
      using no none by (auto simp: hm fun_eq_iff)
    moreover have "filter (\<lambda>k. hashMap (Ring_Add r [node]) k \<noteq> Some node) (keys (Ring_Add r [node])) = keys r"
      unfolding keys_Add_filter [OF assms] by (rule filter_cong) (use no in \<open>auto simp: hm\<close>)
    ultimately show ?thesis
      unfolding Ring_Remove_eq [OF ok mem] using assms(3,4) by (simp add: Ring_Add_single)
  qed
  then show ?thesis
    using owner_Remove [OF assms(1)] owner_Add [OF assms] ring_ok_Remove [OF assms(1)] get assms(1) ok by simp
qed

definition demo_ring :: ring where
  "demo_ring = Ring_Add (NewRing 1) [''a'']"

lemma demo_collision_free: "collision_free (NewRing 1) ''a''"
  by (simp add: collision_free_def NewRing_def)

lemma demo_ring_ok: "ring_ok demo_ring"
  unfolding demo_ring_def by (intro ring_ok_Add ring_ok_NewRing demo_collision_free)

theorem Ring_Get_clockwise_witness: "Ring_Get demo_ring 7 \<in> nodes demo_ring \<and> ring_ok (Ring_Remove demo_ring ''a'')"
proof -
  have "keys demo_ring \<noteq> []" by (simp add: demo_ring_def Ring_Add_def NewRing_def add_vnodes_eq)
  then show ?thesis using Ring_Get_clockwise [OF demo_ring_ok, of 7 "''a''"] by metis
qed

theorem Ring_minimal_disruption_witness:
  "Ring_Get demo_ring 7 \<in> {Ring_Get (NewRing 1) 7, ''a''} \<and>
   Ring_Get (Ring_Remove demo_ring ''a'') 7 = Ring_Get (NewRing 1) 7"
  using Ring_minimal_disruption [OF ring_ok_NewRing demo_collision_free, of 7]
  by (simp add: demo_ring_def NewRing_def)

end
