(* ===== verification/Grant_Bundle.thy ===== *)
theory Grant_Bundle
  imports Go_Strings
begin

text \<open>
  Reward bundles and the reward-string parser of \<^verbatim>\<open>pkg/grant/grant.go\<close>. A bundle's item map is an
  association list with distinct keys; its order stands for the (arbitrary) iteration order of the
  Go map, and what a lookup returns does not depend on it.
\<close>

record grant_bundle =
  bGold :: int
  bItems :: "(string \<times> int) list"

definition empty_bundle :: grant_bundle where
  "empty_bundle = \<lparr>bGold = 0, bItems = []\<rparr>"

definition bundle_qty :: "grant_bundle \<Rightarrow> string \<Rightarrow> int" where
  "bundle_qty b k = gget (map_of (bItems b)) k"

text \<open>\<^verbatim>\<open>m[key] += int32(n)\<close> on the item map.\<close>

fun add_item :: "string \<Rightarrow> int \<Rightarrow> (string \<times> int) list \<Rightarrow> (string \<times> int) list" where
  "add_item k n [] = [(k, i32 n)]"
| "add_item k n ((k', v) # m) = (if k = k' then (k', i32 (v + i32 n)) # m else (k', v) # add_item k n m)"

text \<open>The branch of the loop that credits one parsed token.\<close>

definition credit :: "grant_bundle \<Rightarrow> string \<Rightarrow> int \<Rightarrow> grant_bundle" where
  "credit b key n =
     (if key = ''gold'' then b\<lparr>bGold := i64 (bGold b + n)\<rparr>
      else b\<lparr>bItems := add_item key n (bItems b)\<rparr>)"

fun parse_parts :: "string list \<Rightarrow> grant_bundle \<Rightarrow> grant_bundle res" where
  "parse_parts [] b = Inr b"
| "parse_parts (raw # rest) b =
     (let part = TrimSpace raw in
      if part = [] then parse_parts rest b
      else case SplitN2 CHR '':'' part of
             [k, v] \<Rightarrow>
               (case ParseInt 64 (TrimSpace v) of
                  (n, None) \<Rightarrow> parse_parts rest (credit b (TrimSpace k) n)
                | (_, Some _) \<Rightarrow> Inl (ErrMsg ''invalid amount''))
           | _ \<Rightarrow> Inl (ErrMsg ''invalid item token''))"

definition Parse :: "string \<Rightarrow> grant_bundle res" where
  "Parse raw =
     (let raw = TrimSpace raw in
      if raw = [] then Inr empty_bundle else parse_parts (Split CHR '','' raw) empty_bundle)"

section \<open>Reward strings as they are written\<close>

definition show_token :: "string \<times> int \<Rightarrow> string" where
  "show_token kn = fst kn @ '':'' @ FormatInt (snd kn)"

fun show_tokens :: "(string \<times> int) list \<Rightarrow> string" where
  "show_tokens [] = []"
| "show_tokens [kn] = show_token kn"
| "show_tokens (kn # kn' # kns) = show_token kn @ '','' @ show_tokens (kn' # kns)"

text \<open>A key that survives trimming and splitting.\<close>

definition token_ok :: "string \<times> int \<Rightarrow> bool" where
  "token_ok kn \<longleftrightarrow> (\<forall>c \<in> set (fst kn). plain c \<and> c \<noteq> CHR '':'' \<and> c \<noteq> CHR '','') \<and> in_i64 (snd kn)"

lemma plain_punct [simp]: "plain CHR '':''" "plain CHR '',''"
  by (simp_all add: plain_def space_codes_def)

lemma show_token_plain: "token_ok kn \<Longrightarrow> c \<in> set (show_token kn) \<Longrightarrow> plain c \<and> c \<noteq> CHR '',''"
  using plain_FormatInt FormatInt_not(2)
  by (auto simp: show_token_def token_ok_def dest: bspec)

lemma show_tokens_plain:
  "\<forall>kn \<in> set kns. token_ok kn \<Longrightarrow> c \<in> set (show_tokens kns) \<Longrightarrow> plain c"
  by (induction kns rule: show_tokens.induct) (auto dest: show_token_plain)

lemma TrimSpace_token [simp]: "token_ok kn \<Longrightarrow> TrimSpace (show_token kn) = show_token kn"
  by (simp add: TrimSpace_plain show_token_plain)

lemma Split_show_tokens:
  "kns \<noteq> [] \<Longrightarrow> \<forall>kn \<in> set kns. token_ok kn \<Longrightarrow> Split CHR '','' (show_tokens kns) = map show_token kns"
proof (induction kns rule: show_tokens.induct)
  case 1
  then show ?case by simp
next
  case (2 kn)
  have "CHR '','' \<notin> set (show_token kn)" using 2 show_token_plain by fastforce
  then show ?case by (simp add: Split_no_sep)
next
  case (3 kn kn' kns)
  have "CHR '','' \<notin> set (show_token kn)" using 3 show_token_plain by fastforce
  with 3 show ?case by (simp add: Split_append_sep)
qed

lemma parse_parts_token:
  assumes "token_ok kn"
  shows "parse_parts (show_token kn # rest) b = parse_parts rest (credit b (fst kn) (snd kn))"
proof -
  have colon: "CHR '':'' \<notin> set (fst kn)" and key: "TrimSpace (fst kn) = fst kn"
    using assms by (auto simp: token_ok_def intro!: TrimSpace_plain)
  have ne: "show_token kn \<noteq> []" by (simp add: show_token_def)
  have "SplitN2 CHR '':'' (show_token kn) = [fst kn, FormatInt (snd kn)]"
    using colon by (simp add: show_token_def SplitN2_append_sep)
  moreover have "ParseInt 64 (FormatInt (snd kn)) = (snd kn, None)"
    using assms by (simp add: token_ok_def ParseInt_FormatInt_64)
  ultimately show ?thesis using assms key ne by (simp add: Let_def)
qed

lemma parse_parts_tokens:
  "\<forall>kn \<in> set kns. token_ok kn \<Longrightarrow>
   parse_parts (map show_token kns) b = Inr (foldl (\<lambda>b kn. credit b (fst kn) (snd kn)) b kns)"
  by (induction kns arbitrary: b) (simp_all add: parse_parts_token del: parse_parts.simps(2))

section \<open>What a fold of credits adds up to\<close>

lemma map_of_add_item:
  "gget (map_of (add_item k n m)) k' =
     (if k' = k then i32 (gget (map_of m) k + n) else gget (map_of m) k')"
proof (induction m)
  case Nil
  then show ?case by (simp add: gget_def)
next
  case (Cons p m)
  obtain a v where p: "p = (a, v)" by (cases p)
  have "i32 (v + i32 n) = i32 (v + n)" using i32_add_i32 [of n v] by (simp add: add.commute)
  with Cons p show ?case by (auto simp: gget_def)
qed

lemma add_item_keys: "fst ` set (add_item k n m) = insert k (fst ` set m)"
  by (induction k n m rule: add_item.induct) (simp_all add: insert_commute)

lemma distinct_add_item: "distinct (map fst m) \<Longrightarrow> distinct (map fst (add_item k n m))"
proof (induction m)
  case Nil
  then show ?case by simp
next
  case (Cons p m)
  then show ?case by (cases p) (auto simp: add_item_keys image_iff)
qed

definition total :: "string \<Rightarrow> (string \<times> int) list \<Rightarrow> int" where
  "total k kns = (\<Sum>(k', n) \<leftarrow> kns. if k' = k then n else 0)"

lemma total_simps [simp]:
  "total k [] = 0" "total k ((k', n) # kns) = (if k' = k then n else 0) + total k kns"
  by (simp_all add: total_def)

lemma credits_gold:
  "bGold (foldl (\<lambda>b kn. credit b (fst kn) (snd kn)) b kns) =
     (if \<exists>n. (''gold'', n) \<in> set kns then i64 (bGold b + total ''gold'' kns) else bGold b)"
proof (induction kns arbitrary: b)
  case Nil
  then show ?case by simp
next
  case (Cons p kns)
  obtain k n where p: "p = (k, n)" by (cases p)
  have no: "\<nexists>n. (''gold'', n) \<in> set kns \<Longrightarrow> total ''gold'' kns = 0"
    unfolding total_def by (induction kns) auto
  show ?case
  proof (cases "k = ''gold''")
    case True
    then show ?thesis using Cons.IH no i64_add_i64 p by (auto simp: credit_def add.assoc)
  next
    case False
    then show ?thesis using Cons.IH p by (auto simp: credit_def)
  qed
qed

lemma credits_item:
  assumes "k \<noteq> ''gold''"
  shows "bundle_qty (foldl (\<lambda>b kn. credit b (fst kn) (snd kn)) b kns) k =
     (if \<exists>n. (k, n) \<in> set kns then i32 (bundle_qty b k + total k kns) else bundle_qty b k)"
proof (induction kns arbitrary: b)
  case Nil
  then show ?case by simp
next
  case (Cons p kns)
  obtain k' n where p: "p = (k', n)" by (cases p)
  have no: "\<nexists>n. (k, n) \<in> set kns \<Longrightarrow> total k kns = 0"
    unfolding total_def by (induction kns) auto
  have q: "bundle_qty (credit b k' n) k =
      (if k' = k then i32 (bundle_qty b k + n) else bundle_qty b k)"
    using assms by (auto simp: credit_def bundle_qty_def map_of_add_item)
  show ?case using Cons.IH [of "credit b k' n"] no i32_add_i32 p q by (auto simp: add.assoc)
qed

lemma credits_distinct:
  "distinct (map fst (bItems b)) \<Longrightarrow>
   distinct (map fst (bItems (foldl (\<lambda>b kn. credit b (fst kn) (snd kn)) b kns)))"
  by (induction kns arbitrary: b) (auto simp: credit_def distinct_add_item)

lemma Parse_show_tokens:
  assumes "\<forall>kn \<in> set kns. token_ok kn"
  shows "Parse (show_tokens kns) = Inr (foldl (\<lambda>b kn. credit b (fst kn) (snd kn)) empty_bundle kns)"
proof (cases kns)
  case Nil
  then show ?thesis by (simp add: Parse_def TrimSpace_plain)
next
  case (Cons kn kns')
  then have ne: "show_tokens kns \<noteq> []" by (cases kns') (simp_all add: show_token_def)
  have "TrimSpace (show_tokens kns) = show_tokens kns"
    using assms show_tokens_plain by (blast intro: TrimSpace_plain)
  moreover have "Split CHR '','' (show_tokens kns) = map show_token kns"
    using Cons by (intro Split_show_tokens [OF _ assms]) simp
  ultimately show ?thesis
    using ne by (simp only: Parse_def Let_def parse_parts_tokens [OF assms]) simp
qed

lemma parse_parts_distinct:
  "distinct (map fst (bItems b)) \<Longrightarrow> parse_parts ps b = Inr b' \<Longrightarrow> distinct (map fst (bItems b'))"
proof (induction ps b rule: parse_parts.induct)
  case (1 b)
  then show ?case by simp
next
  case (2 raw rest b)
  then show ?case
    by (auto simp: Let_def credit_def distinct_add_item split: if_splits list.splits prod.splits option.splits)
qed

lemma Parse_distinct: "Parse raw = Inr b \<Longrightarrow> distinct (map fst (bItems b))"
  by (auto simp: Parse_def Let_def empty_bundle_def split: if_splits intro: parse_parts_distinct [rotated])

section \<open>Properties of the reward parser\<close>

text \<open>
  A reward string means the sum of its tokens. For every list of tokens whose keys contain no
  separator or space, parsing its printed form succeeds; the gold is the 64-bit sum of the gold
  tokens, the count of every item the 32-bit sum of its tokens, and the item map has no duplicate key.
\<close>

theorem Parse_sums_tokens:
  assumes "\<forall>kn \<in> set kns. token_ok kn"
  shows "\<exists>b. Parse (show_tokens kns) = Inr b \<and> bGold b = i64 (total ''gold'' kns) \<and>
    (\<forall>k. k \<noteq> ''gold'' \<longrightarrow> bundle_qty b k = i32 (total k kns)) \<and> distinct (map fst (bItems b))"
proof -
  have none: "\<nexists>n. (k, n) \<in> set kns \<Longrightarrow> total k kns = 0" for k
    unfolding total_def by (induction kns) auto
  have "i64 0 = 0" "i32 0 = 0" by (simp_all add: i64_def i32_def)
  moreover have "bundle_qty empty_bundle k = 0" for k by (simp add: bundle_qty_def empty_bundle_def)
  moreover have "bGold empty_bundle = 0" "bItems empty_bundle = []" by (simp_all add: empty_bundle_def)
  ultimately show ?thesis
    using none by (auto simp: Parse_show_tokens [OF assms] credits_gold credits_item credits_distinct)
qed

theorem Parse_sums_tokens_witness:
  "\<exists>b. Parse ''gold:100,potion:2,gold:-1'' = Inr b \<and> bGold b = 99"
  using Parse_sums_tokens [of "[(''gold'', 100), (''potion'', 2), (''gold'', - 1)]"]
  by (auto simp: show_token_def FormatInt_def nat_digits.simps digit_char_def token_ok_def plain_def
      space_codes_def in_i64_def i64_def)

text \<open>An item amount outside 32 bits is truncated without an error.\<close>

lemma Parse_truncates: "Parse ''gem:4294967297'' = Inr \<lparr>bGold = 0, bItems = [(''gem'', 1)]\<rparr>"
  using Parse_show_tokens [of "[(''gem'', 4294967297)]"]
  by (simp add: show_token_def FormatInt_def nat_digits.simps digit_char_def token_ok_def plain_def
      space_codes_def in_i64_def i32_def credit_def empty_bundle_def)

section \<open>The interface of a granter\<close>

text \<open>
  What the sagas rely on when they credit or charge a role under a source: a success means that the
  ledger has an entry for the source, an entry is never removed or replaced, and only the entry of
  this role and source can appear. (The balance check comes before the ledger, so an error says
  nothing about the entry.)
\<close>

definition bundle_wf :: "grant_bundle \<Rightarrow> bool" where
  "bundle_wf b \<longleftrightarrow> distinct (map fst (bItems b))"

lemma parse_parts_wf: "parse_parts ps b = Inr b' \<Longrightarrow> bundle_wf b \<Longrightarrow> bundle_wf b'"
proof (induction ps arbitrary: b)
  case (Cons raw rest)
  have "bundle_wf (credit b k n)" for k n
    using Cons.prems(2) by (simp add: bundle_wf_def credit_def distinct_add_item)
  with Cons show ?case
    by (auto simp: Let_def split: if_splits list.splits prod.splits option.splits)
qed simp

lemma Parse_wf: "Parse raw = Inr b \<Longrightarrow> bundle_wf b"
  using parse_parts_wf by (auto simp: Parse_def Let_def bundle_wf_def empty_bundle_def split: if_splits)

locale granter =
  fixes credited :: "'w \<Rightarrow> int \<times> string \<Rightarrow> grant_bundle option"
    and grant :: "int \<Rightarrow> grant_bundle \<Rightarrow> string \<Rightarrow> 'w \<Rightarrow> err option \<times> 'w"
    and live :: "'w \<Rightarrow> bool"
  assumes grant_credits: "live w \<Longrightarrow> src \<noteq> [] \<Longrightarrow> grant r b src w = (None, w') \<Longrightarrow> credited w' (r, src) \<noteq> None"
    and grant_keeps: "live w \<Longrightarrow> grant r b src w = (x, w') \<Longrightarrow> credited w k = Some c \<Longrightarrow> credited w' k = Some c"
    and grant_only: "live w \<Longrightarrow> bundle_wf b \<Longrightarrow> grant r b src w = (x, w') \<Longrightarrow> credited w k = None \<Longrightarrow> credited w' k = Some c \<Longrightarrow> k = (r, src) \<and> c = b"
    and grant_live: "live w \<Longrightarrow> grant r b src w = (x, w') \<Longrightarrow> live w'"
begin

lemma grant_once:
  assumes "live w" and "src \<noteq> []" and "grant r b src w = (None, w')" and "bundle_wf b"
  shows "credited w' (r, src) = (case credited w (r, src) of None \<Rightarrow> Some b | Some c \<Rightarrow> Some c)"
proof (cases "credited w (r, src)")
  case None
  then show ?thesis using grant_credits [OF assms(1,2,3)] grant_only [OF assms(1,4,3) None] by fastforce
next
  case (Some c)
  then show ?thesis using grant_keeps [OF assms(1,3) Some] by simp
qed

end

end
