(* ===== verification/Role_Repo.thy ===== *)
theory Role_Repo
  imports Shard_Routing Grant_Bundle
begin

text \<open>
  The role store: \<^verbatim>\<open>pkg/repo/role.go\<close> and \<^verbatim>\<open>pkg/repo/outbox.go\<close>. Each SQL statement (or
  transaction) of the source is a function on the tables it touches; the tables and their unique
  constraints are those of \<^verbatim>\<open>deploy/init.sql\<close>. Each call takes the \<^typ>\<open>outcome\<close> of its round trip;
  an error that PostgreSQL itself raises (a column too narrow, a lost connection) is the outcome
  \<^const>\<open>Failed\<close>. \<open>BIGINT\<close> columns are unbounded integers: PostgreSQL raises instead of wrapping.
\<close>

section \<open>Snapshots and their stored form\<close>

text \<open>\<^verbatim>\<open>RoleSnapshot\<close>; \<^const>\<open>None\<close> is a nil map. \<open>snVersion\<close> and \<open>snOwnerEpoch\<close> are not serialised.\<close>

record role_snapshot =
  snLevel :: int
  snGold :: int
  snBag :: "string gomap option"
  snSkills :: "string gomap option"
  snQuests :: "string gomap option"
  snQuestProg :: "string gomap option"
  snGuildID :: int
  snVersion :: int
  snOwnerEpoch :: int

text \<open>
  The JSON document of the \<open>snapshot\<close> column, field by field. \<^const>\<open>None\<close> is an absent or null
  field: decoding leaves the Go field as it was, which for the maps is nil either way.
\<close>

record role_doc =
  docLevel :: "int option"
  docGold :: "int option"
  docBag :: "string gomap option"
  docSkills :: "string gomap option"
  docQuests :: "string gomap option"
  docQuestProg :: "string gomap option"
  docGuildID :: "int option"

definition empty_doc :: role_doc where
  "empty_doc = \<lparr>docLevel = None, docGold = None, docBag = None, docSkills = None,
     docQuests = None, docQuestProg = None, docGuildID = None\<rparr>"

text \<open>The bytes read from the column: none, a decodable document, or something else.\<close>

datatype raw = RawEmpty | RawDoc role_doc | RawBad

definition json_Marshal :: "role_snapshot \<Rightarrow> raw" where
  "json_Marshal s = RawDoc \<lparr>docLevel = Some (snLevel s), docGold = Some (snGold s), docBag = snBag s,
     docSkills = snSkills s, docQuests = snQuests s, docQuestProg = snQuestProg s,
     docGuildID = Some (snGuildID s)\<rparr>"

text \<open>\<^verbatim>\<open>json.Unmarshal(raw, &snap)\<close> into a snapshot that already holds the columns.\<close>

definition or_keep :: "'a option \<Rightarrow> 'a \<Rightarrow> 'a" where
  "or_keep x old = (case x of None \<Rightarrow> old | Some v \<Rightarrow> v)"

definition json_Unmarshal :: "role_doc \<Rightarrow> role_snapshot \<Rightarrow> role_snapshot" where
  "json_Unmarshal d s = s\<lparr>snLevel := or_keep (docLevel d) (snLevel s), snGold := or_keep (docGold d) (snGold s),
     snBag := docBag d, snSkills := docSkills d, snQuests := docQuests d, snQuestProg := docQuestProg d,
     snGuildID := or_keep (docGuildID d) (snGuildID s)\<rparr>"

definition nonnil :: "'k gomap option \<Rightarrow> 'k gomap option" where
  "nonnil m = (case m of None \<Rightarrow> Some Map.empty | Some f \<Rightarrow> Some f)"

definition decodeRoleSnapshot :: "role_snapshot \<Rightarrow> raw \<Rightarrow> role_snapshot res" where
  "decodeRoleSnapshot snap raw =
     (let decoded =
        (case raw of
           RawEmpty \<Rightarrow> Inr snap
         | RawBad \<Rightarrow> Inl (ErrMsg ''decode role snapshot'')
         | RawDoc d \<Rightarrow> Inr ((json_Unmarshal d snap)\<lparr>snVersion := snVersion snap, snOwnerEpoch := snOwnerEpoch snap\<rparr>))
      in case decoded of
           Inl e \<Rightarrow> Inl e
         | Inr s \<Rightarrow> Inr (s\<lparr>snLevel := (if snLevel s = 0 then 1 else snLevel s),
             snBag := nonnil (snBag s), snSkills := nonnil (snSkills s),
             snQuests := nonnil (snQuests s), snQuestProg := nonnil (snQuestProg s),
             snVersion := (if snVersion s \<le> 0 then 1 else snVersion s),
             snOwnerEpoch := (if snOwnerEpoch s \<le> 0 then 1 else snOwnerEpoch s)\<rparr>))"

definition zero_snapshot :: role_snapshot where
  "zero_snapshot = \<lparr>snLevel = 0, snGold = 0, snBag = None, snSkills = None, snQuests = None,
     snQuestProg = None, snGuildID = 0, snVersion = 0, snOwnerEpoch = 0\<rparr>"

section \<open>Tables\<close>

record role_row =
  rAccountID :: int
  rZoneID :: int
  rName :: string
  rLevel :: int
  rSnapshot :: raw
  rVersion :: int
  rOwnerEpoch :: int

record outbox_event =
  EventID :: string
  Subject :: string
  AggregateID :: string
  AggregateVersion :: int
  Payload :: string

record outbox_row =
  oID :: int
  oEvent :: outbox_event
  oPublished :: "int option"
  oAttempts :: int
  oAvailable :: int

record pgdb =
  roles :: "int \<Rightarrow> role_row option"
  ledger :: "int \<times> string \<Rightarrow> (string \<times> grant_bundle) option"
  outbox :: "outbox_row list"
  outbox_seq :: int

definition empty_db :: pgdb where
  "empty_db = \<lparr>roles = Map.empty, ledger = Map.empty, outbox = [], outbox_seq = 1\<rparr>"

section \<open>Reading and acquiring a role\<close>

definition row_columns :: "role_row \<Rightarrow> role_snapshot" where
  "row_columns row = zero_snapshot\<lparr>snLevel := rLevel row, snVersion := rVersion row, snOwnerEpoch := rOwnerEpoch row\<rparr>"

definition Repo_Load :: "outcome \<Rightarrow> int \<Rightarrow> pgdb \<Rightarrow> role_snapshot res \<times> pgdb" where
  "Repo_Load oc roleID db = store_call oc db
     (case roles db roleID of
        None \<Rightarrow> (Inl ErrRoleNotFound, db)
      | Some row \<Rightarrow> (decodeRoleSnapshot (row_columns row) (rSnapshot row), db))"

definition Repo_Acquire :: "outcome \<Rightarrow> int \<Rightarrow> pgdb \<Rightarrow> role_snapshot res \<times> pgdb" where
  "Repo_Acquire oc roleID db = store_call oc db
     (case roles db roleID of
        None \<Rightarrow> (Inl ErrRoleNotFound, db)
      | Some row \<Rightarrow>
          let row' = row\<lparr>rOwnerEpoch := rOwnerEpoch row + 1\<rparr>
          in (decodeRoleSnapshot (row_columns row') (rSnapshot row'),
              db\<lparr>roles := (roles db)(roleID \<mapsto> row')\<rparr>))"

section \<open>Writing a role\<close>

text \<open>
  The guarded update shared by \<open>Save\<close>, \<open>SaveIdempotent\<close> and \<open>SaveWithOutbox\<close>:
  \<^verbatim>\<open>UPDATE roles SET level, snapshot, version = version + 1 WHERE id AND version AND owner_epoch\<close>.
\<close>

definition update_role :: "int \<Rightarrow> role_snapshot \<Rightarrow> pgdb \<Rightarrow> (int \<times> pgdb) option" where
  "update_role roleID snap db =
     (case roles db roleID of
        None \<Rightarrow> None
      | Some row \<Rightarrow>
          if rVersion row = snVersion snap \<and> rOwnerEpoch row = snOwnerEpoch snap then
            Some (rVersion row + 1,
                  db\<lparr>roles := (roles db)(roleID \<mapsto>
                    row\<lparr>rLevel := snLevel snap, rSnapshot := json_Marshal snap, rVersion := rVersion row + 1\<rparr>)\<rparr>)
          else None)"

definition Repo_Save :: "outcome \<Rightarrow> int \<Rightarrow> role_snapshot \<Rightarrow> pgdb \<Rightarrow> int res \<times> pgdb" where
  "Repo_Save oc roleID snap db = store_call oc db
     (case update_role roleID snap db of
        None \<Rightarrow> (Inl ErrStaleRole, db)
      | Some (version, db') \<Rightarrow> (Inr version, db'))"

definition Repo_SaveIdempotent :: "outcome \<Rightarrow> int \<Rightarrow> string \<Rightarrow> string \<Rightarrow> role_snapshot \<Rightarrow> grant_bundle
    \<Rightarrow> pgdb \<Rightarrow> (int \<times> bool) res \<times> pgdb" where
  "Repo_SaveIdempotent oc roleID source kind snap payload db =
     (if source = [] then
        (case Repo_Save oc roleID snap db of
           (Inl e, db') \<Rightarrow> (Inl e, db')
         | (Inr version, db') \<Rightarrow> (Inr (version, True), db'))
      else store_call oc db
        (if ledger db (roleID, source) \<noteq> None then (Inr (snVersion snap, False), db)
         else
           let db1 = db\<lparr>ledger := (ledger db)((roleID, source) \<mapsto> (kind, payload))\<rparr> in
           case update_role roleID snap db1 of
             None \<Rightarrow> (Inl ErrStaleRole, db)
           | Some (version, db2) \<Rightarrow> (Inr (version, True), db2)))"

definition Repo_Ensure :: "outcome \<Rightarrow> int \<Rightarrow> int \<Rightarrow> int \<Rightarrow> string \<Rightarrow> int \<Rightarrow> pgdb \<Rightarrow> unit res \<times> pgdb" where
  "Repo_Ensure oc roleID accountID zoneID name level db = store_call oc db
     (case roles db roleID of
        Some _ \<Rightarrow> (Inr (), db)
      | None \<Rightarrow> (Inr (), db\<lparr>roles := (roles db)(roleID \<mapsto>
          \<lparr>rAccountID = accountID, rZoneID = zoneID, rName = name, rLevel = level,
           rSnapshot = RawDoc empty_doc, rVersion = 1, rOwnerEpoch = 1\<rparr>)\<rparr>))"

section \<open>The outbox\<close>

definition insert_outbox :: "int \<Rightarrow> outbox_event \<Rightarrow> pgdb \<Rightarrow> pgdb" where
  "insert_outbox now e db =
     (if EventID e \<in> EventID ` oEvent ` set (outbox db) then db\<lparr>outbox_seq := outbox_seq db + 1\<rparr>
      else db\<lparr>outbox := outbox db @ [\<lparr>oID = outbox_seq db, oEvent = e, oPublished = None, oAttempts = 0, oAvailable = now\<rparr>],
              outbox_seq := outbox_seq db + 1\<rparr>)"

definition Repo_SaveWithOutbox :: "outcome \<Rightarrow> int \<Rightarrow> int \<Rightarrow> role_snapshot \<Rightarrow> outbox_event \<Rightarrow> pgdb \<Rightarrow> int res \<times> pgdb" where
  "Repo_SaveWithOutbox oc now roleID snap event db =
     (if EventID event = [] \<or> Subject event = [] then (Inl (ErrMsg ''outbox event id and subject are required''), db)
      else store_call oc db
        (case update_role roleID snap db of
           None \<Rightarrow> (Inl ErrStaleRole, db)
         | Some (version, db1) \<Rightarrow>
             (Inr version, insert_outbox now (event\<lparr>AggregateVersion := version\<rparr>) db1)))"

definition lease_due :: "int \<Rightarrow> outbox_row \<Rightarrow> bool" where
  "lease_due now row \<longleftrightarrow> oPublished row = None \<and> oAvailable row \<le> now"

text \<open>One pool of \<open>ReserveOutbox\<close>: lease the first \<open>limit\<close> due rows in id order for 30 seconds.\<close>

definition reserve_rows :: "int \<Rightarrow> nat \<Rightarrow> outbox_row list \<Rightarrow> outbox_row list \<times> outbox_row list" where
  "reserve_rows now limit rows =
     (let picked = take limit (filter (lease_due now) rows);
          ids = oID ` set picked
      in (picked,
          map (\<lambda>r. if oID r \<in> ids then r\<lparr>oAvailable := now + 30, oAttempts := oAttempts r + 1\<rparr> else r) rows))"

definition db_ReserveOutbox :: "outcome \<Rightarrow> int \<Rightarrow> nat \<Rightarrow> pgdb \<Rightarrow> (int \<times> outbox_event) list res \<times> pgdb" where
  "db_ReserveOutbox oc now limit db = store_call oc db
     (let (picked, rows) = reserve_rows now limit (outbox db)
      in (Inr (map (\<lambda>r. (oID r, oEvent r)) picked), db\<lparr>outbox := rows\<rparr>))"

definition db_MarkPublished :: "outcome \<Rightarrow> int \<Rightarrow> int \<Rightarrow> pgdb \<Rightarrow> unit res \<times> pgdb" where
  "db_MarkPublished oc now i db = store_call oc db
     (Inr (), db\<lparr>outbox := map (\<lambda>r. if oID r = i then r\<lparr>oPublished := Some now\<rparr> else r) (outbox db)\<rparr>)"

section \<open>Several physical databases\<close>

text \<open>
  \<^verbatim>\<open>RoleRepo\<close>: one or several pools, a role's data on the pool that \<^const>\<open>indexForRole\<close> names
  (\<^verbatim>\<open>NewRoleRepo\<close> is the case of one pool).
\<close>

record role_repo =
  pools :: "nat \<Rightarrow> pgdb"
  npools :: nat

definition poolFor :: "role_repo \<Rightarrow> int \<Rightarrow> nat" where
  "poolFor rp roleID = nat (indexForRole (npools rp) roleID)"

definition role_db :: "role_repo \<Rightarrow> int \<Rightarrow> pgdb" where
  "role_db rp roleID = pools rp (poolFor rp roleID)"

definition on_pool :: "int \<Rightarrow> (pgdb \<Rightarrow> 'a \<times> pgdb) \<Rightarrow> role_repo \<Rightarrow> 'a \<times> role_repo" where
  "on_pool roleID f rp =
     (let (r, db') = f (role_db rp roleID) in (r, rp\<lparr>pools := (pools rp)(poolFor rp roleID := db')\<rparr>))"

fun reserve_pools :: "(nat \<Rightarrow> outcome) \<Rightarrow> int \<Rightarrow> nat \<Rightarrow> nat list \<Rightarrow> role_repo
    \<Rightarrow> (nat \<times> int \<times> outbox_event) list res \<times> role_repo" where
  "reserve_pools ocs now perPool [] rp = (Inr [], rp)"
| "reserve_pools ocs now perPool (i # is) rp =
     (case db_ReserveOutbox (ocs i) now perPool (pools rp i) of
        (Inl e, db') \<Rightarrow> (Inl e, rp\<lparr>pools := (pools rp)(i := db')\<rparr>)
      | (Inr evs, db') \<Rightarrow>
          (case reserve_pools ocs now perPool is (rp\<lparr>pools := (pools rp)(i := db')\<rparr>) of
             (Inl e, rp') \<Rightarrow> (Inl e, rp')
           | (Inr rest, rp') \<Rightarrow> (Inr (map (\<lambda>(n, ev). (i, n, ev)) evs @ rest), rp')))"

definition Repo_ReserveOutbox :: "(nat \<Rightarrow> outcome) \<Rightarrow> int \<Rightarrow> int \<Rightarrow> role_repo
    \<Rightarrow> (nat \<times> int \<times> outbox_event) list res \<times> role_repo" where
  "Repo_ReserveOutbox ocs now limit rp =
     (let limit = nat (if limit \<le> 0 then 100 else limit);
          perPool = (if npools rp > 1 then (limit + npools rp - 1) div npools rp else limit)
      in reserve_pools ocs now perPool [0..<npools rp] rp)"

definition Repo_MarkOutboxPublished :: "outcome \<Rightarrow> int \<Rightarrow> int \<Rightarrow> int \<Rightarrow> role_repo \<Rightarrow> unit res \<times> role_repo" where
  "Repo_MarkOutboxPublished oc now poolIndex i rp =
     (if poolIndex < 0 \<or> poolIndex \<ge> int (npools rp) then (Inl (ErrMsg ''invalid outbox pool index''), rp)
      else let (r, db') = db_MarkPublished oc now i (pools rp (nat poolIndex))
           in (r, rp\<lparr>pools := (pools rp)(nat poolIndex := db')\<rparr>))"

section \<open>Facts about one call\<close>

lemma update_role_Some:
  "update_role roleID snap db = Some (v, db') \<longleftrightarrow>
     (\<exists>row. roles db roleID = Some row \<and> rVersion row = snVersion snap \<and> rOwnerEpoch row = snOwnerEpoch snap \<and>
       v = rVersion row + 1 \<and>
       db' = db\<lparr>roles := (roles db)(roleID \<mapsto>
         row\<lparr>rLevel := snLevel snap, rSnapshot := json_Marshal snap, rVersion := rVersion row + 1\<rparr>)\<rparr>)"
  by (auto simp: update_role_def split: option.splits if_splits)

lemma update_role_ledger: "update_role roleID snap (db\<lparr>ledger := l\<rparr>) =
    map_option (\<lambda>(v, db'). (v, db'\<lparr>ledger := l\<rparr>)) (update_role roleID snap db)"
  by (simp add: update_role_def split: option.splits)

lemma Repo_Save_Inr:
  "Repo_Save oc roleID snap db = (Inr v, db') \<longleftrightarrow> oc = Done \<and> update_role roleID snap db = Some (v, db')"
  by (auto simp: Repo_Save_def store_call_Inr split: option.splits)

lemma Repo_Save_stale:
  "roles db roleID = Some row \<Longrightarrow> rVersion row \<noteq> snVersion snap \<or> rOwnerEpoch row \<noteq> snOwnerEpoch snap \<Longrightarrow>
   Repo_Save Done roleID snap db = (Inl ErrStaleRole, db)"
  by (auto simp: Repo_Save_def update_role_def)

lemma snd_Save:
  "snd (Repo_Save oc r s db) =
     (if oc = Failed then db else case update_role r s db of None \<Rightarrow> db | Some (v, db') \<Rightarrow> db')"
  by (simp add: Repo_Save_def store_call_state split: option.splits)

lemma snd_SaveIdempotent:
  "snd (Repo_SaveIdempotent oc r src k s b db) =
     (if src = [] then snd (Repo_Save oc r s db)
      else if oc = Failed \<or> ledger db (r, src) \<noteq> None then db
      else case update_role r s db of
             None \<Rightarrow> db
           | Some (v, db') \<Rightarrow> db'\<lparr>ledger := (ledger db)((r, src) \<mapsto> (k, b))\<rparr>)"
proof (cases "src = []")
  case True
  then show ?thesis by (simp add: Repo_SaveIdempotent_def split: prod.splits sum.splits)
next
  case False
  then show ?thesis
    by (simp add: Repo_SaveIdempotent_def store_call_state update_role_ledger Let_def split: option.splits)
qed

lemmas snd_writes = snd_Save snd_SaveIdempotent

lemma decode_nonnil:
  "decodeRoleSnapshot c raw = Inr s \<Longrightarrow>
   (\<exists>b k q p. snBag s = Some b \<and> snSkills s = Some k \<and> snQuests s = Some q \<and> snQuestProg s = Some p) \<and>
   0 < snVersion s \<and> 0 < snOwnerEpoch s"
  by (auto simp: decodeRoleSnapshot_def nonnil_def Let_def split: raw.splits option.splits)

text \<open>A snapshot in the shape the actor produces: live maps, a nonzero level, positive fences.\<close>

definition snapshot_live :: "role_snapshot \<Rightarrow> bool" where
  "snapshot_live s \<longleftrightarrow> snLevel s \<noteq> 0 \<and> snBag s \<noteq> None \<and> snSkills s \<noteq> None \<and> snQuests s \<noteq> None \<and>
     snQuestProg s \<noteq> None \<and> 0 < snVersion s \<and> 0 < snOwnerEpoch s"

lemma decode_marshal:
  assumes "snapshot_live s"
  shows "decodeRoleSnapshot (zero_snapshot\<lparr>snLevel := l, snVersion := v, snOwnerEpoch := e\<rparr>) (json_Marshal s)
    = Inr (s\<lparr>snVersion := (if v \<le> 0 then 1 else v), snOwnerEpoch := (if e \<le> 0 then 1 else e)\<rparr>)"
  using assms
  by (auto simp: snapshot_live_def decodeRoleSnapshot_def json_Marshal_def json_Unmarshal_def
      zero_snapshot_def or_keep_def nonnil_def split: option.splits)

lemma decode_marshal_zero_level:
  assumes "snapshot_live (s\<lparr>snLevel := 1\<rparr>)" and "snLevel s = 0"
  shows "decodeRoleSnapshot (zero_snapshot\<lparr>snLevel := l, snVersion := v, snOwnerEpoch := e\<rparr>) (json_Marshal s)
    = Inr (s\<lparr>snLevel := 1, snVersion := (if v \<le> 0 then 1 else v), snOwnerEpoch := (if e \<le> 0 then 1 else e)\<rparr>)"
  using assms
  by (auto simp: snapshot_live_def decodeRoleSnapshot_def json_Marshal_def json_Unmarshal_def
      zero_snapshot_def or_keep_def nonnil_def split: option.splits)

section \<open>Histories of a role database\<close>

text \<open>
  Everything any Game process, migration job or outbox worker can do to one role database, as data:
  a history is a list of these operations in commit order, with arbitrary arguments and outcomes.
\<close>

datatype db_op =
    OpLoad outcome int
  | OpAcquire outcome int
  | OpSave outcome int role_snapshot
  | OpGrant outcome int string string role_snapshot grant_bundle
  | OpEnsure outcome int int int string int
  | OpOutbox outcome int int role_snapshot outbox_event
  | OpReserve outcome int nat
  | OpPublished outcome int int

fun db_step :: "db_op \<Rightarrow> pgdb \<Rightarrow> pgdb" where
  "db_step (OpLoad oc r) db = snd (Repo_Load oc r db)"
| "db_step (OpAcquire oc r) db = snd (Repo_Acquire oc r db)"
| "db_step (OpSave oc r s) db = snd (Repo_Save oc r s db)"
| "db_step (OpGrant oc r src k s b) db = snd (Repo_SaveIdempotent oc r src k s b db)"
| "db_step (OpEnsure oc r a z n l) db = snd (Repo_Ensure oc r a z n l db)"
| "db_step (OpOutbox oc now r s e) db = snd (Repo_SaveWithOutbox oc now r s e db)"
| "db_step (OpReserve oc now n) db = snd (db_ReserveOutbox oc now n db)"
| "db_step (OpPublished oc now i) db = snd (db_MarkPublished oc now i db)"

definition db_run :: "db_op list \<Rightarrow> pgdb \<Rightarrow> pgdb" where
  "db_run ops db = foldl (\<lambda>db op. db_step op db) db ops"

lemma db_run_simps [simp]:
  "db_run [] db = db" "db_run (op # ops) db = db_run ops (db_step op db)"
  by (simp_all add: db_run_def)

text \<open>How one row may change: it stays, its epoch rises by one, or a write advances its version.\<close>

definition row_step :: "role_row \<Rightarrow> role_row \<Rightarrow> bool" where
  "row_step a b \<longleftrightarrow> b = a \<or> b = a\<lparr>rOwnerEpoch := rOwnerEpoch a + 1\<rparr> \<or>
     (\<exists>l d. b = a\<lparr>rLevel := l, rSnapshot := d, rVersion := rVersion a + 1\<rparr>)"

lemma update_role_row:
  "update_role r s db = Some (v, db') \<Longrightarrow> roles db roleID = Some row \<Longrightarrow>
   \<exists>row'. roles db' roleID = Some row' \<and> row_step row row'"
  by (cases "roleID = r") (auto simp: update_role_Some row_step_def)

lemma roles_insert_outbox [simp]: "roles (insert_outbox now e db) = roles db"
  by (simp add: insert_outbox_def)

lemma db_step_row:
  assumes "roles db roleID = Some row"
  shows "\<exists>row'. roles (db_step op db) roleID = Some row' \<and> row_step row row'"
proof -
  have same: "\<exists>row'. roles db roleID = Some row' \<and> row_step row row'"
    using assms by (simp add: row_step_def)
  have upd: "\<exists>row'. roles db' roleID = Some row' \<and> row_step row row'"
    if "update_role r s db = Some (v, db')" for r s v db'
    using that assms by (rule update_role_row)
  show ?thesis
  proof (cases op)
    case (OpLoad oc r)
    then show ?thesis using same by (auto simp: Repo_Load_def store_call_state split: option.splits)
  next
    case (OpAcquire oc r)
    then show ?thesis using assms
      by (auto simp: Repo_Acquire_def store_call_state Let_def row_step_def split: option.splits)
  next
    case (OpSave oc r s)
    then show ?thesis using same upd [of r s] by (auto simp: snd_writes split: option.splits)
  next
    case (OpGrant oc r src k s b)
    then show ?thesis using same upd [of r s] by (auto simp: snd_writes split: option.splits)
  next
    case (OpEnsure oc r a z n l)
    then show ?thesis using same assms
      by (auto simp: Repo_Ensure_def store_call_state split: option.splits)
  next
    case (OpOutbox oc now r s e)
    then show ?thesis using same upd [of r s]
      by (auto simp: Repo_SaveWithOutbox_def store_call_state split: option.splits)
  next
    case (OpReserve oc now n)
    then show ?thesis using same
      by (auto simp: db_ReserveOutbox_def store_call_state split: prod.splits)
  next
    case (OpPublished oc now i)
    then show ?thesis using same by (auto simp: db_MarkPublished_def store_call_state)
  qed
qed

definition row_le :: "role_row \<Rightarrow> role_row \<Rightarrow> bool" where
  "row_le a b \<longleftrightarrow> rVersion a \<le> rVersion b \<and> rOwnerEpoch a \<le> rOwnerEpoch b \<and>
     (rVersion a = rVersion b \<longrightarrow> rSnapshot a = rSnapshot b \<and> rLevel a = rLevel b)"

lemma row_step_le: "row_step a b \<Longrightarrow> row_le a b"
  by (auto simp: row_step_def row_le_def)

lemma row_le_refl [simp]: "row_le a a"
  by (simp add: row_le_def)

lemma row_le_trans: "row_le a b \<Longrightarrow> row_le b c \<Longrightarrow> row_le a c"
  by (auto simp: row_le_def)

lemma db_run_row:
  "roles db roleID = Some row \<Longrightarrow> \<exists>row'. roles (db_run ops db) roleID = Some row' \<and> row_le row row'"
proof (induction ops arbitrary: db row)
  case Nil
  then show ?case by simp
next
  case (Cons op ops)
  then obtain row1 where 1: "roles (db_step op db) roleID = Some row1" "row_step row row1"
    using db_step_row by blast
  with Cons.IH [of "db_step op db" row1] obtain row2
    where "roles (db_run ops (db_step op db)) roleID = Some row2" "row_le row1 row2" by blast
  with 1 show ?case using row_step_le row_le_trans by (metis db_run_simps(2))
qed

lemma ledger_insert_outbox [simp]: "ledger (insert_outbox now e db) = ledger db"
  by (simp add: insert_outbox_def)

lemma update_role_same_ledger: "update_role r s db = Some (v, db') \<Longrightarrow> ledger db' = ledger db"
  by (auto simp: update_role_Some)

lemma db_step_ledger: "ledger db k = Some e \<Longrightarrow> ledger (db_step op db) k = Some e"
proof (cases op)
  case (OpGrant oc r src kd s b)
  assume k: "ledger db k = Some e"
  then have "update_role r s db = Some (v, db') \<Longrightarrow> ledger db' k = Some e" for v db'
    by (simp add: update_role_same_ledger)
  with k OpGrant show ?thesis
    by (cases e; cases "update_role r s db") (auto simp: snd_writes)
qed (auto simp: Repo_Load_def Repo_Acquire_def Repo_Ensure_def Repo_SaveWithOutbox_def
       db_ReserveOutbox_def db_MarkPublished_def snd_writes store_call_state Let_def
       update_role_same_ledger split: option.splits prod.splits)

lemma db_run_ledger: "ledger db k = Some e \<Longrightarrow> ledger (db_run ops db) k = Some e"
  by (induction ops arbitrary: db) (auto simp: db_step_ledger)

text \<open>The database holds only rows it could have created: positive versions and epochs.\<close>

definition db_pos :: "pgdb \<Rightarrow> bool" where
  "db_pos db \<longleftrightarrow> (\<forall>r row. roles db r = Some row \<longrightarrow> 0 < rVersion row \<and> 0 < rOwnerEpoch row)"

lemma db_posD: "db_pos db \<Longrightarrow> roles db r = Some row \<Longrightarrow> 0 < rVersion row \<and> 0 < rOwnerEpoch row"
  by (simp add: db_pos_def)

lemma update_role_pos: "update_role r s db = Some (v, db') \<Longrightarrow> db_pos db \<Longrightarrow> db_pos db'"
  by (force simp: update_role_Some db_pos_def split: if_splits)

lemma db_pos_insert_outbox [simp]: "db_pos (insert_outbox now e db) = db_pos db"
  by (simp add: db_pos_def)

lemma db_pos_cong: "roles db' = roles db \<Longrightarrow> db_pos db' = db_pos db"
  by (simp add: db_pos_def)

lemma db_step_pos:
  assumes "db_pos db"
  shows "db_pos (db_step op db)"
proof (cases op)
  case (OpSave oc r s)
  then show ?thesis using assms update_role_pos [of r s db] by (auto simp: snd_writes split: option.splits)
next
  case (OpGrant oc r src k s b)
  have "db_pos (db'\<lparr>ledger := l\<rparr>) = db_pos db'" for db' l by (rule db_pos_cong) simp
  then show ?thesis using assms OpGrant update_role_pos [of r s db]
    by (auto simp: snd_writes split: option.splits)
next
  case (OpOutbox oc now r s e)
  then show ?thesis using assms update_role_pos [of r s db]
    by (auto simp: Repo_SaveWithOutbox_def store_call_state split: option.splits)
next
  case (OpAcquire oc r)
  then show ?thesis using assms
    by (force simp: Repo_Acquire_def store_call_state Let_def db_pos_def split: option.splits)
qed (use assms in \<open>auto simp: Repo_Load_def Repo_Ensure_def db_ReserveOutbox_def db_MarkPublished_def
       store_call_state db_pos_def split: option.splits prod.splits\<close>)

lemma db_run_pos: "db_pos db \<Longrightarrow> db_pos (db_run ops db)"
  by (induction ops arbitrary: db) (auto simp: db_step_pos)

lemma Repo_Acquire_Inr:
  assumes "Repo_Acquire oc r db = (Inr snap, db')"
  obtains row where "oc = Done" "roles db r = Some row"
    "db' = db\<lparr>roles := (roles db)(r \<mapsto> row\<lparr>rOwnerEpoch := rOwnerEpoch row + 1\<rparr>)\<rparr>"
    "decodeRoleSnapshot (row_columns (row\<lparr>rOwnerEpoch := rOwnerEpoch row + 1\<rparr>)) (rSnapshot row) = Inr snap"
  using assms by (auto simp: Repo_Acquire_def store_call_Inr Let_def split: option.splits)

lemma decode_fences:
  "decodeRoleSnapshot c raw = Inr s \<Longrightarrow> 0 < snVersion c \<Longrightarrow> 0 < snOwnerEpoch c \<Longrightarrow>
   snVersion s = snVersion c \<and> snOwnerEpoch s = snOwnerEpoch c"
  by (auto simp: decodeRoleSnapshot_def Let_def split: raw.splits)

lemma Repo_Acquire_epoch:
  assumes "Repo_Acquire oc r db = (Inr snap, db')" and "db_pos db"
  shows "\<exists>row row'. roles db r = Some row \<and> roles db' r = Some row' \<and>
    snOwnerEpoch snap = rOwnerEpoch row + 1 \<and> rOwnerEpoch row' = rOwnerEpoch row + 1 \<and>
    snVersion snap = rVersion row \<and> rVersion row' = rVersion row"
proof -
  obtain row where row: "oc = Done" "roles db r = Some row"
    "db' = db\<lparr>roles := (roles db)(r \<mapsto> row\<lparr>rOwnerEpoch := rOwnerEpoch row + 1\<rparr>)\<rparr>"
    "decodeRoleSnapshot (row_columns (row\<lparr>rOwnerEpoch := rOwnerEpoch row + 1\<rparr>)) (rSnapshot row) = Inr snap"
    by (rule Repo_Acquire_Inr [OF assms(1)])
  have "0 < rVersion row" "0 < rOwnerEpoch row" using db_posD [OF assms(2) row(2)] by auto
  with decode_fences [OF row(4)] row(2,3) show ?thesis by (simp add: row_columns_def)
qed

lemma update_role_fenced:
  "roles db r = Some row \<Longrightarrow> rOwnerEpoch row \<noteq> snOwnerEpoch s \<Longrightarrow> update_role r s db = None"
  by (simp add: update_role_def)

lemma writes_fenced:
  assumes "update_role r s db = None"
  shows "Repo_Save Done r s db = (Inl ErrStaleRole, db)"
    and "src \<noteq> [] \<Longrightarrow> ledger db (r, src) = None \<Longrightarrow>
      Repo_SaveIdempotent Done r src k s b db = (Inl ErrStaleRole, db)"
    and "EventID e \<noteq> [] \<Longrightarrow> Subject e \<noteq> [] \<Longrightarrow>
      Repo_SaveWithOutbox Done now r s e db = (Inl ErrStaleRole, db)"
  using assms
  by (auto simp: Repo_Save_def Repo_SaveIdempotent_def Repo_SaveWithOutbox_def update_role_ledger Let_def)

text \<open>
  How often a grant with a given source took effect in a history: the operations for that role and
  source that changed the database.
\<close>

fun is_grant :: "int \<Rightarrow> string \<Rightarrow> db_op \<Rightarrow> bool" where
  "is_grant r src (OpGrant oc r' src' k s b) = (r' = r \<and> src' = src)"
| "is_grant r src op = False"

fun grant_effects :: "int \<Rightarrow> string \<Rightarrow> db_op list \<Rightarrow> (pgdb \<Rightarrow> nat)" where
  "grant_effects r src [] db = 0"
| "grant_effects r src (op # ops) db =
     (if is_grant r src op \<and> roles (db_step op db) \<noteq> roles db then 1 else 0) + grant_effects r src ops (db_step op db)"

lemma SaveIdempotent_duplicate:
  "src \<noteq> [] \<Longrightarrow> ledger db (r, src) \<noteq> None \<Longrightarrow>
   Repo_SaveIdempotent Done r src k s b db = (Inr (snVersion s, False), db)"
  by (simp add: Repo_SaveIdempotent_def)

lemma grant_step_done:
  "src \<noteq> [] \<Longrightarrow> ledger db (r, src) \<noteq> None \<Longrightarrow> is_grant r src op \<Longrightarrow> db_step op db = db"
  by (cases op) (auto simp: snd_writes)

lemma grant_effects_done: "src \<noteq> [] \<Longrightarrow> ledger db (r, src) \<noteq> None \<Longrightarrow> grant_effects r src ops db = 0"
proof (induction ops arbitrary: db)
  case (Cons op ops)
  have "ledger (db_step op db) (r, src) \<noteq> None" using Cons.prems(2) db_step_ledger by fastforce
  then show ?case using Cons grant_step_done [of src db r op] by auto
qed simp

lemma grant_step_ledger:
  "src \<noteq> [] \<Longrightarrow> is_grant r src op \<Longrightarrow> roles (db_step op db) \<noteq> roles db \<Longrightarrow> ledger (db_step op db) (r, src) \<noteq> None"
  by (cases op) (auto simp: snd_writes split: option.splits if_splits)

lemma SaveIdempotent_applied:
  "Repo_SaveIdempotent oc r src k s b db = (Inr (v, True), db') \<Longrightarrow> src \<noteq> [] \<Longrightarrow>
   ledger db (r, src) = None \<and> ledger db' (r, src) = Some (k, b) \<and>
   (\<exists>row. roles db r = Some row \<and> rVersion row = snVersion s \<and> rOwnerEpoch row = snOwnerEpoch s \<and> v = rVersion row + 1 \<and>
      roles db' = (roles db)(r \<mapsto> row\<lparr>rLevel := snLevel s, rSnapshot := json_Marshal s, rVersion := v\<rparr>))"
  by (cases "ledger db (r, src)")
    (auto simp: Repo_SaveIdempotent_def store_call_Inr update_role_Some update_role_ledger Let_def
      split: if_splits option.splits)

section \<open>Properties of the role store\<close>

text \<open>
  C2. Fencing. After a process acquires a role, a process that acquired it earlier can no longer
  write it: whatever the history in between and afterwards, each of its three kinds of write
  reports \<open>ErrStaleRole\<close> and leaves the database unchanged.
\<close>

theorem acquire_fences_old_owner:
  assumes "db_pos db0"
    and "Repo_Acquire oc1 roleID db0 = (Inr old, db1)"
    and "db2 = db_run ops db1"
    and "Repo_Acquire oc2 roleID db2 = (Inr new, db3)"
    and "db4 = db_run ops' db3"
    and "snOwnerEpoch s = snOwnerEpoch old"
  shows "Repo_Save Done roleID s db4 = (Inl ErrStaleRole, db4) \<and>
    (src \<noteq> [] \<longrightarrow> ledger db4 (roleID, src) = None \<longrightarrow>
       Repo_SaveIdempotent Done roleID src k s b db4 = (Inl ErrStaleRole, db4)) \<and>
    (EventID e \<noteq> [] \<longrightarrow> Subject e \<noteq> [] \<longrightarrow>
       Repo_SaveWithOutbox Done now roleID s e db4 = (Inl ErrStaleRole, db4))"
proof -
  obtain r1 where r1: "roles db1 roleID = Some r1" "snOwnerEpoch old = rOwnerEpoch r1"
    using Repo_Acquire_epoch [OF assms(2,1)] by auto
  obtain r2 where r2: "roles db2 roleID = Some r2" "row_le r1 r2"
    using db_run_row [OF r1(1)] assms(3) by blast
  have pos2: "db_pos db2"
    using db_step_pos [OF assms(1), of "OpAcquire oc1 roleID"] assms(2,3) by (simp add: db_run_pos)
  obtain r3 where r3: "roles db3 roleID = Some r3" "rOwnerEpoch r3 = rOwnerEpoch r2 + 1"
    using Repo_Acquire_epoch [OF assms(4) pos2] r2(1) by auto
  obtain r4 where r4: "roles db4 roleID = Some r4" "row_le r3 r4"
    using db_run_row [OF r3(1)] assms(5) by blast
  have "snOwnerEpoch s < rOwnerEpoch r4"
    using assms(6) r1(2) r2(2) r3(2) r4(2) by (simp add: row_le_def)
  then have "update_role roleID s db4 = None" using r4(1) by (simp add: update_role_fenced)
  then show ?thesis by (simp add: writes_fenced)
qed

text \<open>
  No lost update. A write that commits was based on the latest state: if a snapshot read at
  some point is used to save after any history, and the save succeeds, then the stored document and
  version of the role are still those that were read.
\<close>

theorem save_based_on_latest:
  assumes "roles db roleID = Some row" and "snVersion s = rVersion row"
    and "Repo_Save oc roleID s (db_run ops db) = (Inr v, db')"
  shows "\<exists>row'. roles (db_run ops db) roleID = Some row' \<and> rSnapshot row' = rSnapshot row \<and>
           rLevel row' = rLevel row \<and> rVersion row' = rVersion row \<and> v = rVersion row + 1"
proof -
  obtain row' where row': "roles (db_run ops db) roleID = Some row'" "row_le row row'"
    using db_run_row [OF assms(1)] by blast
  have "update_role roleID s (db_run ops db) = Some (v, db')"
    using assms(3) by (simp add: Repo_Save_Inr)
  with row' assms(2) show ?thesis by (auto simp: update_role_Some row_le_def)
qed

text \<open>
  C1. Exactly once. Whatever the history of a role database (retries, concurrent processes, lost
  replies), a grant with a nonempty source changes the role at most once, and once one attempt has
  reported that it applied, its ledger entry is there for good and every later attempt that reaches
  the database reports \<open>false\<close> and changes nothing.
\<close>

theorem grant_exactly_once:
  assumes "src \<noteq> []"
  shows "grant_effects r src ops db \<le> 1 \<and>
    (Repo_SaveIdempotent oc r src k s b db = (Inr (v, True), db') \<longrightarrow>
       ledger (db_run ops db') (r, src) = Some (k, b) \<and> grant_effects r src ops db' = 0 \<and>
       Repo_SaveIdempotent Done r src k' s' b' (db_run ops db') = (Inr (snVersion s', False), db_run ops db'))"
proof -
  have "grant_effects r src ops db \<le> 1"
  proof (induction ops arbitrary: db)
    case (Cons op ops)
    show ?case
    proof (cases "is_grant r src op \<and> roles (db_step op db) \<noteq> roles db")
      case True
      then have "grant_effects r src ops (db_step op db) = 0"
        by (intro grant_effects_done grant_step_ledger) (use assms in auto)
      then show ?thesis by simp
    next
      case False
      then show ?thesis using Cons by auto
    qed
  qed simp
  moreover have "ledger (db_run ops db') (r, src) = Some (k, b) \<and> grant_effects r src ops db' = 0"
    if "Repo_SaveIdempotent oc r src k s b db = (Inr (v, True), db')"
  proof -
    have l: "ledger db' (r, src) = Some (k, b)" using SaveIdempotent_applied [OF that assms] by blast
    then show ?thesis using db_run_ledger [OF l] grant_effects_done [OF assms, of db' r ops] by simp
  qed
  moreover from this have "Repo_SaveIdempotent Done r src k' s' b' (db_run ops db') = (Inr (snVersion s', False), db_run ops db')"
    if "Repo_SaveIdempotent oc r src k s b db = (Inr (v, True), db')"
    using that assms by (intro SaveIdempotent_duplicate) auto
  ultimately show ?thesis by blast
qed

section \<open>The properties at concrete inputs\<close>

definition demo_event :: outbox_event where
  "demo_event = \<lparr>EventID = ''e1'', Subject = ''bastion.role.saved'', AggregateID = ''7'', AggregateVersion = 0, Payload = ''{}''\<rparr>"

definition demo_db :: pgdb where
  "demo_db = snd (Repo_Ensure Done 7 1 1 ''hero'' 1 empty_db)"

definition demo_snap :: "int \<Rightarrow> int \<Rightarrow> role_snapshot" where
  "demo_snap v e = \<lparr>snLevel = 1, snGold = 0, snBag = Some Map.empty, snSkills = Some Map.empty,
     snQuests = Some Map.empty, snQuestProg = Some Map.empty, snGuildID = 0, snVersion = v, snOwnerEpoch = e\<rparr>"

lemmas demo_simps = demo_db_def demo_snap_def demo_event_def empty_db_def empty_doc_def Repo_Ensure_def Repo_Acquire_def
  Repo_Save_def Repo_SaveIdempotent_def update_role_def decodeRoleSnapshot_def json_Unmarshal_def row_columns_def
  zero_snapshot_def or_keep_def nonnil_def

lemma demo_acquire_first: "Repo_Acquire Done 7 demo_db = (Inr (demo_snap 1 2), db_step (OpAcquire Done 7) demo_db)"
  by (simp add: demo_simps)

lemma demo_acquire_second:
  "Repo_Acquire Done 7 (db_run [] (db_step (OpAcquire Done 7) demo_db)) =
     (Inr (demo_snap 1 3), db_step (OpAcquire Done 7) (db_step (OpAcquire Done 7) demo_db))"
  by (simp add: demo_simps)

lemma demo_pos: "db_pos demo_db"
  by (simp add: demo_simps db_pos_def)

theorem acquire_fences_old_owner_witness:
  "Repo_Save Done 7 (demo_snap 1 2) (db_run [] (db_step (OpAcquire Done 7) (db_step (OpAcquire Done 7) demo_db)))
     = (Inl ErrStaleRole, db_run [] (db_step (OpAcquire Done 7) (db_step (OpAcquire Done 7) demo_db)))"
  using acquire_fences_old_owner [OF demo_pos demo_acquire_first refl demo_acquire_second refl,
      of "demo_snap 1 2" "[]"]
  by (simp add: demo_snap_def)

theorem save_based_on_latest_witness:
  "\<exists>row'. roles (db_run [OpLoad Done 7] demo_db) 7 = Some row' \<and> rVersion row' = 1"
  using save_based_on_latest [of demo_db 7 "the (roles demo_db 7)" "demo_snap 1 1" Done "[OpLoad Done 7]" 2
      "snd (Repo_Save Done 7 (demo_snap 1 1) (db_run [OpLoad Done 7] demo_db))"]
  by (simp add: demo_simps Repo_Load_def)

theorem grant_exactly_once_witness:
  "Repo_SaveIdempotent Done 7 ''order-1'' ''pay'' (demo_snap 2 1) empty_bundle
     (db_run [] (db_step (OpGrant Done 7 ''order-1'' ''pay'' (demo_snap 1 1) empty_bundle) demo_db))
   = (Inr (2, False), db_step (OpGrant Done 7 ''order-1'' ''pay'' (demo_snap 1 1) empty_bundle) demo_db)"
  using grant_exactly_once [of "''order-1''" 7 "[]" demo_db Done "''pay''" "demo_snap 1 1" empty_bundle 2
      "db_step (OpGrant Done 7 ''order-1'' ''pay'' (demo_snap 1 1) empty_bundle) demo_db" "''pay''" "demo_snap 2 1" empty_bundle]
  by (simp add: demo_simps)

end
