(* ===== verification/Outbox_Delivery.thy ===== *)
theory Outbox_Delivery
  imports Role_Repo
begin

text \<open>
  Delivery of outbox events: the leases of \<^verbatim>\<open>ReserveOutbox\<close> (\<^verbatim>\<open>pkg/repo/outbox.go\<close>) and the publisher
  loop \<^verbatim>\<open>publishOutboxBatch\<close> of \<^verbatim>\<open>services/game/internal/server.go\<close>. JetStream is an append-only list of
  acknowledged messages; a publish whose acknowledgement is lost still appends.
\<close>

type_synonym broker = "(string \<times> outbox_event) list"

section \<open>The publisher\<close>

definition mq_Publish :: "outcome \<Rightarrow> string \<Rightarrow> outbox_event \<Rightarrow> broker \<Rightarrow> unit res \<times> broker" where
  "mq_Publish oc subject event br =
     (if EventID event = [] then (Inl (ErrMsg ''event_id required''), br)
      else store_call oc br (Inr (), br @ [(subject, event)]))"

text \<open>What the other processes do to the databases before the \<open>k\<close>-th mark: a history per pool.\<close>

definition others :: "(nat \<Rightarrow> db_op list) \<Rightarrow> role_repo \<Rightarrow> role_repo" where
  "others h rp = rp\<lparr>pools := (\<lambda>i. db_run (h i) (pools rp i))\<rparr>"

fun publish_events :: "(nat \<Rightarrow> outcome) \<Rightarrow> (nat \<Rightarrow> outcome) \<Rightarrow> (nat \<Rightarrow> nat \<Rightarrow> db_op list) \<Rightarrow> int \<Rightarrow> (nat \<times> int \<times> outbox_event) list
    \<Rightarrow> role_repo \<times> broker \<Rightarrow> err option \<times> role_repo \<times> broker" where
  "publish_events ocp ocm hist now [] s = (None, s)"
| "publish_events ocp ocm hist now ((poolIndex, i, event) # events) s =
     (let k = length events; (rp, br) = s in
      case mq_Publish (ocp k) (Subject event) event br of
        (Inl e, br) \<Rightarrow> (Some e, rp, br)
      | (Inr _, br) \<Rightarrow>
          (case Repo_MarkOutboxPublished (ocm k) now (int poolIndex) i (others (hist k) rp) of
             (Inl e, rp) \<Rightarrow> (Some e, rp, br)
           | (Inr _, rp) \<Rightarrow> publish_events ocp ocm hist now events (rp, br)))"

definition publishOutboxBatch :: "(nat \<Rightarrow> outcome) \<Rightarrow> (nat \<Rightarrow> outcome) \<Rightarrow> (nat \<Rightarrow> outcome) \<Rightarrow> (nat \<Rightarrow> nat \<Rightarrow> db_op list) \<Rightarrow> int
    \<Rightarrow> role_repo \<times> broker \<Rightarrow> err option \<times> role_repo \<times> broker" where
  "publishOutboxBatch ocr ocp ocm hist now s =
     (case Repo_ReserveOutbox ocr now 100 (fst s) of
        (Inl e, rp) \<Rightarrow> (Some e, rp, snd s)
      | (Inr events, rp) \<Rightarrow> publish_events ocp ocm hist now events (rp, snd s))"

section \<open>Rows by id\<close>

definition orow :: "pgdb \<Rightarrow> int \<Rightarrow> outbox_row option" where
  "orow db i = find (\<lambda>r. oID r = i) (outbox db)"

definition outbox_ok :: "pgdb \<Rightarrow> bool" where
  "outbox_ok db \<longleftrightarrow> distinct (map oID (outbox db)) \<and> (\<forall>r \<in> set (outbox db). oID r < outbox_seq db)"

definition orow_le :: "outbox_row \<Rightarrow> outbox_row \<Rightarrow> bool" where
  "orow_le a b \<longleftrightarrow> oID b = oID a \<and> oEvent b = oEvent a \<and> oAvailable a \<le> oAvailable b \<and>
     (oPublished a \<noteq> None \<longrightarrow> oPublished b \<noteq> None)"

lemma orow_le_refl [simp]: "orow_le a a"
  by (simp add: orow_le_def)

lemma orow_le_trans: "orow_le a b \<Longrightarrow> orow_le b c \<Longrightarrow> orow_le a c"
  by (auto simp: orow_le_def)

lemma orow_mem:
  assumes "outbox_ok db"
  shows "orow db i = Some r \<longleftrightarrow> r \<in> set (outbox db) \<and> oID r = i"
proof -
  from assms have "distinct (map oID (outbox db))" by (simp add: outbox_ok_def)
  then show ?thesis unfolding orow_def by (rule find_key_mem)
qed

lemma map_ids [simp]: "map oID (map (\<lambda>r. if P r then r\<lparr>oAvailable := a, oAttempts := n r\<rparr> else r) xs) = map oID xs"
  "map oID (map (\<lambda>r. if P r then r\<lparr>oPublished := q\<rparr> else r) xs) = map oID xs"
  by (simp_all add: comp_def cong: if_cong)

lemma reserve_rows_ids: "map oID (snd (reserve_rows now n xs)) = map oID xs"
  by (simp only: reserve_rows_def Let_def snd_conv map_ids)

lemma snd_ReserveOutbox:
  "snd (db_ReserveOutbox oc now n db) = (if oc = Failed then db else db\<lparr>outbox := snd (reserve_rows now n (outbox db))\<rparr>)"
  by (simp add: db_ReserveOutbox_def store_call_state split: prod.splits)

lemma snd_MarkPublished:
  "snd (db_MarkPublished oc now i db) =
     (if oc = Failed then db
      else db\<lparr>outbox := map (\<lambda>r. if oID r = i then r\<lparr>oPublished := Some now\<rparr> else r) (outbox db)\<rparr>)"
  by (simp add: db_MarkPublished_def store_call_state)

lemma update_role_outbox:
  "update_role r s db = Some (v, db') \<Longrightarrow> outbox db' = outbox db \<and> outbox_seq db' = outbox_seq db"
  by (auto simp: update_role_Some)

lemma outbox_ok_cong: "outbox db' = outbox db \<Longrightarrow> outbox_seq db' = outbox_seq db \<Longrightarrow> outbox_ok db' = outbox_ok db"
  by (simp add: outbox_ok_def)

lemma orow_cong: "outbox db' = outbox db \<Longrightarrow> orow db' i = orow db i"
  by (simp add: orow_def)

lemma insert_outbox_ok: "outbox_ok db \<Longrightarrow> outbox_ok (insert_outbox now e db)"
  by (auto simp: outbox_ok_def insert_outbox_def image_iff split: if_splits)

lemma insert_outbox_orow: "orow db i = Some r \<Longrightarrow> orow (insert_outbox now e db) i = Some r"
  by (auto simp: orow_def insert_outbox_def find_append_Some)

text \<open>How the outbox of a database changes in one operation.\<close>

datatype outbox_change = Same | Insert int outbox_event | Lease int nat | Mark int int

fun outbox_apply :: "outbox_change \<Rightarrow> pgdb \<Rightarrow> pgdb" where
  "outbox_apply Same db = db"
| "outbox_apply (Insert now e) db = insert_outbox now e db"
| "outbox_apply (Lease now n) db = db\<lparr>outbox := snd (reserve_rows now n (outbox db))\<rparr>"
| "outbox_apply (Mark now i) db =
     db\<lparr>outbox := map (\<lambda>r. if oID r = i then r\<lparr>oPublished := Some now\<rparr> else r) (outbox db)\<rparr>"

lemma db_step_change:
  "\<exists>c. outbox (db_step op db) = outbox (outbox_apply c db) \<and> outbox_seq (db_step op db) = outbox_seq (outbox_apply c db) \<and>
     ((\<exists>now i. c = Mark now i) \<longrightarrow> (\<exists>oc now i. op = OpPublished oc now i))"
proof -
  have same: ?thesis if "outbox (db_step op db) = outbox db" "outbox_seq (db_step op db) = outbox_seq db"
    using that by (intro exI [of _ Same]) simp
  show ?thesis
  proof (cases op)
    case (OpLoad oc r)
    then show ?thesis by (intro same) (auto simp: Repo_Load_def store_call_state split: option.splits)
  next
    case (OpAcquire oc r)
    then show ?thesis by (intro same) (auto simp: Repo_Acquire_def store_call_state Let_def split: option.splits)
  next
    case (OpSave oc r s)
    then show ?thesis by (intro same) (auto simp: snd_writes dest!: update_role_outbox split: option.splits)
  next
    case (OpGrant oc r src k s b)
    then show ?thesis by (intro same) (auto simp: snd_writes dest!: update_role_outbox split: option.splits)
  next
    case (OpEnsure oc r a z n l)
    then show ?thesis by (intro same) (auto simp: Repo_Ensure_def store_call_state split: option.splits)
  next
    case (OpOutbox oc now r s e)
    show ?thesis
    proof (cases "EventID e = [] \<or> Subject e = [] \<or> oc = Failed \<or> update_role r s db = None")
      case True
      then show ?thesis using OpOutbox by (intro same) (auto simp: Repo_SaveWithOutbox_def store_call_state)
    next
      case False
      then obtain v db' where u: "update_role r s db = Some (v, db')" by auto
      show ?thesis
        using False OpOutbox u update_role_outbox [OF u]
        by (intro exI [of _ "Insert now (e\<lparr>AggregateVersion := v\<rparr>)"])
          (auto simp: Repo_SaveWithOutbox_def store_call_state insert_outbox_def)
    qed
  next
    case (OpReserve oc now n)
    then show ?thesis
      by (cases "oc = Failed") (auto simp: snd_ReserveOutbox intro: exI [of _ Same] exI [of _ "Lease now n"])
  next
    case (OpPublished oc now i)
    then show ?thesis
      by (cases "oc = Failed") (auto simp: snd_MarkPublished intro: exI [of _ Same] exI [of _ "Mark now i"])
  qed
qed

lemma outbox_apply_ok: "outbox_ok db \<Longrightarrow> outbox_ok (outbox_apply c db)"
proof (cases c)
  case (Lease now n)
  assume ok: "outbox_ok db"
  have "oID ` set (snd (reserve_rows now n (outbox db))) = oID ` set (outbox db)"
    by (metis reserve_rows_ids list.set_map)
  with ok Lease show ?thesis
    by (auto simp: outbox_ok_def reserve_rows_ids) (metis imageE image_eqI)
next
  case (Mark now i)
  assume "outbox_ok db"
  moreover have "map oID (outbox (outbox_apply c db)) = map oID (outbox db)" by (simp add: Mark)
  ultimately have "distinct (map oID (outbox (outbox_apply c db)))" by (simp only: outbox_ok_def)
  with Mark \<open>outbox_ok db\<close> show ?thesis by (auto simp: outbox_ok_def)
qed (simp_all add: insert_outbox_ok)

lemma picked_rows:
  assumes "r \<in> set (fst (reserve_rows now n xs))"
  shows "r \<in> set xs \<and> lease_due now r"
  using assms set_take_subset by (fastforce simp: reserve_rows_def Let_def)

lemma picked_id:
  assumes "distinct (map oID xs)" and "r \<in> set xs" and "oID r \<in> oID ` set (take n (filter (lease_due now) xs))"
  shows "lease_due now r"
proof -
  obtain q where q: "q \<in> set (take n (filter (lease_due now) xs))" "oID q = oID r" using assms(3) by fastforce
  then have "q \<in> set xs" "lease_due now q" using set_take_subset by fastforce+
  moreover have "q = r" using assms(1,2) q(2) \<open>q \<in> set xs\<close> by (simp add: distinct_map inj_on_def)
  ultimately show ?thesis by simp
qed

lemma outbox_apply_orow:
  assumes "outbox_ok db" and "orow db i = Some r"
  shows "\<exists>r'. orow (outbox_apply c db) i = Some r' \<and> orow_le r r' \<and>
     (oPublished r = None \<and> oPublished r' \<noteq> None \<longrightarrow> (\<exists>now j. c = Mark now j))"
proof (cases c)
  case Same
  then show ?thesis using assms by auto
next
  case (Insert now e)
  then show ?thesis using assms insert_outbox_orow by auto
next
  case (Lease now n)
  have r: "r \<in> set (outbox db)" "oID r = i" using assms by (simp_all add: orow_mem)
  have d: "distinct (map oID (outbox db))" using assms(1) by (simp add: outbox_ok_def)
  let ?ids = "oID ` set (take n (filter (lease_due now) (outbox db)))"
  let ?f = "\<lambda>r. if oID r \<in> ?ids then r\<lparr>oAvailable := now + 30, oAttempts := oAttempts r + 1\<rparr> else r"
  have "orow (outbox_apply c db) i = Some (?f r)"
    using assms(2) Lease find_map_key [of oID ?f i "outbox db"] by (simp add: orow_def reserve_rows_def Let_def)
  moreover have "orow_le r (?f r)"
    using picked_id [OF d r(1), of n now] by (auto simp: orow_le_def lease_due_def)
  ultimately show ?thesis by auto
next
  case (Mark now j)
  let ?f = "\<lambda>r. if oID r = j then r\<lparr>oPublished := Some now\<rparr> else r"
  have "orow (outbox_apply c db) i = Some (?f r)"
    using assms(2) Mark find_map_key [of oID ?f i "outbox db"] by (simp add: orow_def)
  then show ?thesis using Mark by (auto simp: orow_le_def)
qed

lemma db_step_outbox:
  assumes "outbox_ok db"
  shows "outbox_ok (db_step op db)"
    and "orow db i = Some r \<Longrightarrow> \<exists>r'. orow (db_step op db) i = Some r' \<and> orow_le r r' \<and>
      (oPublished r = None \<and> oPublished r' \<noteq> None \<longrightarrow> (\<exists>oc now j. op = OpPublished oc now j))"
proof -
  obtain c where c: "outbox (db_step op db) = outbox (outbox_apply c db)"
    "outbox_seq (db_step op db) = outbox_seq (outbox_apply c db)"
    "(\<exists>now i. c = Mark now i) \<longrightarrow> (\<exists>oc now i. op = OpPublished oc now i)"
    using db_step_change by blast
  show "outbox_ok (db_step op db)"
    using outbox_apply_ok [OF assms, of c] outbox_ok_cong [OF c(1,2)] by simp
  show "\<exists>r'. orow (db_step op db) i = Some r' \<and> orow_le r r' \<and>
      (oPublished r = None \<and> oPublished r' \<noteq> None \<longrightarrow> (\<exists>oc now j. op = OpPublished oc now j))"
    if "orow db i = Some r"
    using outbox_apply_orow [OF assms that, of c] orow_cong [OF c(1)] c(3) by auto
qed

lemma db_run_outbox:
  assumes "outbox_ok db"
  shows "outbox_ok (db_run ops db)"
    and "orow db i = Some r \<Longrightarrow> \<exists>r'. orow (db_run ops db) i = Some r' \<and> orow_le r r'"
proof -
  show "outbox_ok (db_run ops db)"
    using assms by (induction ops arbitrary: db) (auto simp: db_step_outbox)
  show "\<exists>r'. orow (db_run ops db) i = Some r' \<and> orow_le r r'" if "orow db i = Some r"
    using assms that
  proof (induction ops arbitrary: db r)
    case (Cons op ops)
    from db_step_outbox(2) [OF Cons.prems, of op] obtain r1
      where "orow (db_step op db) i = Some r1" "orow_le r r1" by blast
    with Cons.IH [of "db_step op db" r1] db_step_outbox(1) [OF Cons.prems(1)] show ?case
      using orow_le_trans by fastforce
  qed simp
qed

lemma ReserveOutbox_Inr:
  assumes "db_ReserveOutbox oc now n db = (Inr evs, db')" and "outbox_ok db" and "(i, e) \<in> set evs"
  shows "\<exists>r. orow db i = Some r \<and> oEvent r = e \<and> lease_due now r \<and>
    orow db' i = Some (r\<lparr>oAvailable := now + 30, oAttempts := oAttempts r + 1\<rparr>)"
proof -
  obtain picked rows where pr: "reserve_rows now n (outbox db) = (picked, rows)" by fastforce
  have oc: "oc = Done" and evs: "evs = map (\<lambda>r. (oID r, oEvent r)) picked" and db': "db' = db\<lparr>outbox := rows\<rparr>"
    using assms(1) pr by (auto simp: db_ReserveOutbox_def store_call_Inr)
  obtain r where r: "r \<in> set picked" "i = oID r" "e = oEvent r" using assms(3) evs by auto
  have mem: "r \<in> set (outbox db)" "lease_due now r" using picked_rows [of r now n "outbox db"] pr r(1) by auto
  have o: "orow db i = Some r" using mem r(2) by (simp add: orow_mem [OF assms(2)])
  let ?ids = "oID ` set picked"
  let ?f = "\<lambda>r. if oID r \<in> ?ids then r\<lparr>oAvailable := now + 30, oAttempts := oAttempts r + 1\<rparr> else r"
  have rows: "rows = map ?f (outbox db)" using pr by (auto simp: reserve_rows_def Let_def)
  have "orow db' i = Some (?f r)"
    using o find_map_key [of oID ?f i "outbox db"] by (simp add: orow_def db' rows)
  moreover have "oID r \<in> ?ids" using r(1) by simp
  ultimately show ?thesis using o mem(2) r(3) by simp
qed

section \<open>Properties of delivery\<close>

text \<open>
  Leases are exclusive. Once a publisher has reserved an event, no publisher reserves it again for
  30 seconds, whatever all processes do to the database in between and even if their own
  reservations fail half-way; and a published event is never reserved again.
\<close>

theorem outbox_lease_exclusive:
  assumes "outbox_ok db" and "db_ReserveOutbox oc now n db = (Inr evs, db1)" and "i \<in> fst ` set evs"
    and "db_ReserveOutbox oc' now' n' (db_run ops db1) = (Inr evs', db2)"
  shows "(now' < now + 30 \<longrightarrow> i \<notin> fst ` set evs') \<and>
    (\<forall>r. orow (db_run ops db1) j = Some r \<and> oPublished r \<noteq> None \<longrightarrow> j \<notin> fst ` set evs')"
proof -
  obtain e where e: "(i, e) \<in> set evs" using assms(3) by auto
  have step: "db1 = db_step (OpReserve oc now n) db" using assms(2) by simp
  have ok1: "outbox_ok db1" unfolding step by (rule db_step_outbox(1) [OF assms(1)])
  have ok2: "outbox_ok (db_run ops db1)" by (rule db_run_outbox(1) [OF ok1])
  obtain r where "orow db1 i = Some (r\<lparr>oAvailable := now + 30, oAttempts := oAttempts r + 1\<rparr>)"
    using ReserveOutbox_Inr [OF assms(2,1) e] by blast
  then obtain r' where r': "orow (db_run ops db1) i = Some r'" "now + 30 \<le> oAvailable r'"
    using db_run_outbox(2) [OF ok1] by (fastforce simp: orow_le_def)
  have due: "\<exists>r. orow (db_run ops db1) k = Some r \<and> lease_due now' r" if "k \<in> fst ` set evs'" for k
    using ReserveOutbox_Inr [OF assms(4) ok2] that by fastforce
  have "i \<notin> fst ` set evs'" if "now' < now + 30"
    using due [of i] r' that by (auto simp: lease_due_def)
  moreover have "j \<notin> fst ` set evs'" if "orow (db_run ops db1) j = Some r" "oPublished r \<noteq> None" for r
    using due [of j] that by (auto simp: lease_due_def)
  ultimately show ?thesis by blast
qed

section \<open>The publisher loses nothing\<close>

text \<open>Every row marked as published is in the broker.\<close>

definition broker_covers :: "role_repo \<Rightarrow> broker \<Rightarrow> bool" where
  "broker_covers rp br \<longleftrightarrow>
     (\<forall>p < npools rp. outbox_ok (pools rp p) \<and>
        (\<forall>i r. orow (pools rp p) i = Some r \<and> oPublished r \<noteq> None \<longrightarrow> (Subject (oEvent r), oEvent r) \<in> set br))"

definition no_marks :: "db_op list \<Rightarrow> bool" where
  "no_marks ops \<longleftrightarrow> (\<forall>oc now i. OpPublished oc now i \<notin> set ops)"

text \<open>A row of the database after an operation is an older row or a new, unpublished one.\<close>

lemma outbox_apply_back:
  assumes "outbox_ok db" and "orow (outbox_apply c db) i = Some r'" and "\<And>now j. c \<noteq> Mark now j"
    and "oPublished r' \<noteq> None"
  shows "\<exists>r. orow db i = Some r \<and> oPublished r \<noteq> None \<and> oEvent r' = oEvent r"
proof -
  have ok: "outbox_ok (outbox_apply c db)" by (rule outbox_apply_ok [OF assms(1)])
  show ?thesis
  proof (cases c)
    case (Insert now e)
    have "r' \<in> set (outbox (insert_outbox now e db))" "oID r' = i"
      using assms(2) Insert ok by (auto simp: orow_mem)
    then show ?thesis using assms(1,4) by (auto simp: insert_outbox_def orow_mem split: if_splits)
  next
    case (Lease now n)
    have "r' \<in> set (snd (reserve_rows now n (outbox db)))" "oID r' = i"
      using assms(2) Lease ok by (auto simp: orow_mem)
    then show ?thesis using assms(1,4) by (auto simp: reserve_rows_def Let_def orow_mem)
  qed (use assms in auto)
qed

lemma db_run_back:
  assumes "outbox_ok db" and "no_marks ops" and "orow (db_run ops db) i = Some r'" and "oPublished r' \<noteq> None"
  shows "\<exists>r. orow db i = Some r \<and> oPublished r \<noteq> None \<and> oEvent r' = oEvent r"
  using assms
proof (induction ops arbitrary: db)
  case (Cons op ops)
  have "no_marks ops" and nm: "\<nexists>oc now i. op = OpPublished oc now i" using Cons.prems(2) by (auto simp: no_marks_def)
  with Cons.IH [of "db_step op db"] Cons.prems db_step_outbox(1) [of db op]
  obtain r1 where r1: "orow (db_step op db) i = Some r1" "oPublished r1 \<noteq> None" "oEvent r' = oEvent r1" by auto
  obtain c where c: "outbox (db_step op db) = outbox (outbox_apply c db)"
    "(\<exists>now i. c = Mark now i) \<longrightarrow> (\<exists>oc now i. op = OpPublished oc now i)"
    using db_step_change by blast
  have "orow (outbox_apply c db) i = Some r1" using r1(1) orow_cong [OF c(1), of i] by simp
  from outbox_apply_back [OF Cons.prems(1) this _ r1(2)] c(2) nm r1(3) show ?case by auto
qed simp

lemma others_covers:
  assumes "broker_covers rp br" and "\<And>p. no_marks (h p)"
  shows "broker_covers (others h rp) br"
proof -
  have "outbox_ok (db_run (h p) (pools rp p)) \<and>
      (\<forall>i r. orow (db_run (h p) (pools rp p)) i = Some r \<and> oPublished r \<noteq> None \<longrightarrow> (Subject (oEvent r), oEvent r) \<in> set br)"
    if "p < npools rp" for p
  proof -
    have ok: "outbox_ok (pools rp p)" and cov: "\<And>i r. orow (pools rp p) i = Some r \<Longrightarrow> oPublished r \<noteq> None \<Longrightarrow>
        (Subject (oEvent r), oEvent r) \<in> set br"
      using assms(1) that by (auto simp: broker_covers_def)
    show ?thesis using db_run_outbox(1) [OF ok] db_run_back [OF ok assms(2)] cov by metis
  qed
  then show ?thesis unfolding broker_covers_def others_def by simp blast
qed

lemma reserve_covers:
  assumes "broker_covers rp br" and "p < npools rp"
  shows "broker_covers (rp\<lparr>pools := (pools rp)(p := snd (db_ReserveOutbox oc now n (pools rp p)))\<rparr>) br"
proof -
  let ?h = "\<lambda>q. if q = p then [OpReserve oc now n] else []"
  have "rp\<lparr>pools := (pools rp)(p := snd (db_ReserveOutbox oc now n (pools rp p)))\<rparr> = others ?h rp"
    by (cases rp) (auto simp: others_def fun_eq_iff)
  moreover have "broker_covers (others ?h rp) br"
    by (rule others_covers [OF assms(1)]) (auto simp: no_marks_def)
  ultimately show ?thesis by simp
qed

text \<open>The events handed to the publisher are those of their rows.\<close>

definition batch_ok :: "(nat \<times> int \<times> outbox_event) list \<Rightarrow> role_repo \<Rightarrow> bool" where
  "batch_ok evs rp \<longleftrightarrow> (\<forall>(p, i, e) \<in> set evs. p < npools rp \<and> (\<exists>r. orow (pools rp p) i = Some r \<and> oEvent r = e))"

lemma others_batch:
  assumes "batch_ok evs rp" and "broker_covers rp br"
  shows "batch_ok evs (others h rp)"
  unfolding batch_ok_def
proof (clarify)
  fix p i e
  assume "(p, i, e) \<in> set evs"
  then obtain r where p: "p < npools rp" and r: "orow (pools rp p) i = Some r" "oEvent r = e"
    using assms(1) by (auto simp: batch_ok_def)
  have "outbox_ok (pools rp p)" using assms(2) p by (simp add: broker_covers_def)
  from db_run_outbox(2) [OF this r(1), of "h p"] p r(2)
  show "p < npools (others h rp) \<and> (\<exists>r. orow (pools (others h rp) p) i = Some r \<and> oEvent r = e)"
    by (auto simp: others_def orow_le_def)
qed

lemma broker_covers_mono: "broker_covers rp br \<Longrightarrow> broker_covers rp (br @ ms)"
  by (auto simp: broker_covers_def)

lemma Mark_pools:
  "p < npools rp \<Longrightarrow> snd (Repo_MarkOutboxPublished oc now (int p) i rp)
     = rp\<lparr>pools := (pools rp)(p := db_step (OpPublished oc now i) (pools rp p))\<rparr>"
  by (simp add: Repo_MarkOutboxPublished_def split: prod.splits)

lemma Mark_covers:
  assumes "broker_covers rp br" and "batch_ok ((p, i, e) # evs) rp" and "(Subject e, e) \<in> set br"
  shows "broker_covers (snd (Repo_MarkOutboxPublished oc now (int p) i rp)) br \<and>
    batch_ok evs (snd (Repo_MarkOutboxPublished oc now (int p) i rp))"
proof -
  obtain r where p: "p < npools rp" and r: "orow (pools rp p) i = Some r" "oEvent r = e"
    using assms(2) by (auto simp: batch_ok_def)
  have ok: "outbox_ok (pools rp p)" and cov: "\<And>j s. orow (pools rp p) j = Some s \<Longrightarrow> oPublished s \<noteq> None \<Longrightarrow>
      (Subject (oEvent s), oEvent s) \<in> set br"
    using assms(1) p by (auto simp: broker_covers_def)
  let ?db = "db_step (OpPublished oc now i) (pools rp p)"
  have ok': "outbox_ok ?db" by (rule db_step_outbox(1) [OF ok])
  have cov': "(Subject (oEvent s), oEvent s) \<in> set br" if s: "orow ?db j = Some s" "oPublished s \<noteq> None" for j s
  proof -
    have "s \<in> set (outbox ?db)" "oID s = j" using s(1) orow_mem [OF ok'] by blast+
    then obtain s0 where s0: "s0 \<in> set (outbox (pools rp p))" "oEvent s = oEvent s0" "oID s0 = j"
      "oPublished s = oPublished s0 \<or> j = i"
      by (auto simp: snd_MarkPublished split: if_splits)
    then have "orow (pools rp p) j = Some s0" by (simp add: orow_mem [OF ok])
    then show ?thesis using s0 s(2) r cov assms(3) by auto
  qed
  have "broker_covers (rp\<lparr>pools := (pools rp)(p := ?db)\<rparr>) br"
    using assms(1) ok' cov' unfolding broker_covers_def by (auto simp del: db_step.simps)
  moreover have "batch_ok evs (rp\<lparr>pools := (pools rp)(p := ?db)\<rparr>)"
    unfolding batch_ok_def
  proof (clarify)
    fix p' i' e'
    assume "(p', i', e') \<in> set evs"
    then obtain r' where "p' < npools rp" "orow (pools rp p') i' = Some r'" "oEvent r' = e'"
      using assms(2) by (auto simp: batch_ok_def)
    then show "p' < npools (rp\<lparr>pools := (pools rp)(p := ?db)\<rparr>) \<and>
        (\<exists>r. orow (pools (rp\<lparr>pools := (pools rp)(p := ?db)\<rparr>) p') i' = Some r \<and> oEvent r = e')"
      using db_step_outbox(2) [OF ok, of i' r' "OpPublished oc now i"]
      by (cases "p' = p") (auto simp: orow_le_def simp del: db_step.simps)
  qed
  ultimately show ?thesis by (simp add: Mark_pools [OF p] del: db_step.simps)
qed

lemma publish_events_covers:
  assumes "broker_covers rp br" and "batch_ok evs rp" and "\<And>k p. no_marks (hist k p)"
    and "publish_events ocp ocm hist now evs (rp, br) = (r, rp', br')"
  shows "broker_covers rp' br' \<and> set br \<subseteq> set br' \<and>
    (r = None \<longrightarrow> (\<forall>(p, i, e) \<in> set evs. (Subject e, e) \<in> set br'))"
  using assms
proof (induction evs arbitrary: rp br)
  case Nil
  then show ?case by simp
next
  case (Cons ev evs)
  obtain p i e where ev: "ev = (p, i, e)" by (cases ev)
  obtain x br1 where pub: "mq_Publish (ocp (length evs)) (Subject e) e br = (x, br1)" by fastforce
  have br1: "br1 = br \<or> br1 = br @ [(Subject e, e)]" and got: "\<And>u. x = Inr u \<Longrightarrow> br1 = br @ [(Subject e, e)]"
    using pub by (auto simp: mq_Publish_def store_call_def split: if_splits outcome.splits)
  have cov1: "broker_covers rp br1" using br1 Cons.prems(1) broker_covers_mono by auto
  show ?case
  proof (cases x)
    case (Inl err)
    then show ?thesis using Cons.prems(4) ev pub cov1 br1 by auto
  next
    case (Inr u)
    let ?rp = "others (hist (length evs)) rp"
    have cov2: "broker_covers ?rp br1" by (rule others_covers [OF cov1 Cons.prems(3)])
    have bat: "batch_ok ((p, i, e) # evs) ?rp" using others_batch [OF Cons.prems(2) cov1] ev by simp
    have mem: "(Subject e, e) \<in> set br1" using got [OF Inr] by simp
    obtain y rp2 where mk: "Repo_MarkOutboxPublished (ocm (length evs)) now (int p) i ?rp = (y, rp2)" by fastforce
    have m: "broker_covers rp2 br1 \<and> batch_ok evs rp2" using Mark_covers [OF cov2 bat mem] mk by (metis snd_conv)
    show ?thesis
    proof (cases y)
      case (Inl err)
      then show ?thesis using Cons.prems(4) ev pub Inr mk m br1 by auto
    next
      case (Inr w)
      have "publish_events ocp ocm hist now evs (rp2, br1) = (r, rp', br')"
        using Cons.prems(4) ev pub \<open>x = Inr u\<close> mk Inr by simp
      from Cons.IH [OF _ _ Cons.prems(3) this] m mem br1 ev show ?thesis by auto
    qed
  qed
qed

lemma reserve_pools_batch:
  assumes "broker_covers rp br" and "set is \<subseteq> {..<npools rp}" and "distinct is"
    and "reserve_pools ocs now per is rp = (x, rp')"
  shows "broker_covers rp' br \<and> npools rp' = npools rp \<and> (\<forall>q. q \<notin> set is \<longrightarrow> pools rp' q = pools rp q) \<and>
    (\<forall>evs. x = Inr evs \<longrightarrow> batch_ok evs rp' \<and> fst ` set evs \<subseteq> set is)"
  using assms
proof (induction "is" arbitrary: rp x rp')
  case Nil
  then show ?case by (auto simp: batch_ok_def)
next
  case (Cons p ps)
  have p: "p < npools rp" using Cons.prems(2) by simp
  obtain y db1 where rs: "db_ReserveOutbox (ocs p) now per (pools rp p) = (y, db1)" by fastforce
  let ?rp = "rp\<lparr>pools := (pools rp)(p := db1)\<rparr>"
  have cov: "broker_covers ?rp br" using reserve_covers [OF Cons.prems(1) p, of "ocs p" now per] rs by simp
  have ok: "outbox_ok (pools rp p)" using Cons.prems(1) p by (simp add: broker_covers_def)
  show ?case
  proof (cases y)
    case (Inl err)
    then show ?thesis using Cons.prems(4) rs cov by auto
  next
    case (Inr evs)
    obtain z rp2 where rest: "reserve_pools ocs now per ps ?rp = (z, rp2)" by fastforce
    have IH: "broker_covers rp2 br \<and> npools rp2 = npools rp \<and> (\<forall>q. q \<notin> set ps \<longrightarrow> pools rp2 q = pools ?rp q) \<and>
        (\<forall>evs. z = Inr evs \<longrightarrow> batch_ok evs rp2 \<and> fst ` set evs \<subseteq> set ps)"
      using Cons.IH [OF cov _ _ rest] Cons.prems(2,3) by auto
    then have db1: "pools rp2 p = db1" using Cons.prems(3) by simp
    have own: "\<exists>r. orow db1 i = Some r \<and> oEvent r = e" if "(i, e) \<in> set evs" for i e
      using ReserveOutbox_Inr [OF _ ok that] rs Inr by fastforce
    show ?thesis
      using Cons.prems(4) rs Inr rest IH db1 own p
      by (fastforce simp: batch_ok_def split: sum.splits)
  qed
qed

text \<open>A pool with no more due events than the batch size hands all of them to the publisher.\<close>

lemma reserve_pools_all_due:
  assumes "reserve_pools ocs now per is rp = (Inr evs, rp')" and "p \<in> set is" and "distinct is"
    and "row \<in> set (outbox (pools rp p))" and "lease_due now row" and "length (filter (lease_due now) (outbox (pools rp p))) \<le> per"
  shows "(p, oID row, oEvent row) \<in> set evs"
  using assms
proof (induction "is" arbitrary: rp evs rp')
  case (Cons q ps)
  obtain y db1 where rs: "db_ReserveOutbox (ocs q) now per (pools rp q) = (y, db1)" by fastforce
  obtain e1 where y: "y = Inr e1" using Cons.prems(1) rs by (cases y) auto
  let ?rp = "rp\<lparr>pools := (pools rp)(q := db1)\<rparr>"
  obtain e2 where rest: "reserve_pools ocs now per ps ?rp = (Inr e2, rp')" and evs: "evs = map (\<lambda>(n, ev). (q, n, ev)) e1 @ e2"
    using Cons.prems(1) rs y by (auto split: sum.splits prod.splits)
  show ?case
  proof (cases "p = q")
    case True
    have "e1 = map (\<lambda>r. (oID r, oEvent r)) (take per (filter (lease_due now) (outbox (pools rp q))))"
      using rs y by (auto simp: db_ReserveOutbox_def store_call_Inr reserve_rows_def Let_def)
    then have "(oID row, oEvent row) \<in> set e1" using Cons.prems(4-6) True by auto
    then show ?thesis using True evs by force
  next
    case False
    then show ?thesis using Cons.IH [OF rest] Cons.prems evs by auto
  qed
qed simp


section \<open>The properties at concrete inputs\<close>

definition demo_outbox :: pgdb where
  "demo_outbox = insert_outbox 0 demo_event empty_db"

lemma demo_outbox_ok: "outbox_ok demo_outbox"
  by (simp add: demo_outbox_def insert_outbox_def empty_db_def outbox_ok_def)

lemma demo_reserve: "db_ReserveOutbox Done 10 5 demo_outbox = (Inr [(1, demo_event)], snd (db_ReserveOutbox Done 10 5 demo_outbox))"
  by (simp add: demo_outbox_def insert_outbox_def empty_db_def db_ReserveOutbox_def reserve_rows_def lease_due_def)

lemma demo_reserve_again:
  "db_ReserveOutbox Done 20 5 (db_run [] (snd (db_ReserveOutbox Done 10 5 demo_outbox))) =
     (Inr [], snd (db_ReserveOutbox Done 10 5 demo_outbox))"
  by (simp add: demo_outbox_def insert_outbox_def empty_db_def db_ReserveOutbox_def reserve_rows_def lease_due_def)

theorem outbox_lease_exclusive_witness: "1 \<notin> fst ` set ([] :: (int \<times> outbox_event) list) \<and>
    fst (db_ReserveOutbox Done 20 5 (db_run [] (snd (db_ReserveOutbox Done 10 5 demo_outbox)))) = Inr []"
  using outbox_lease_exclusive [OF demo_outbox_ok demo_reserve _ demo_reserve_again, of 1 1] demo_reserve_again by simp


end
