(* ===== verification/Mailbox.thy ===== *)
theory Mailbox
  imports Bastion_Prelude
begin

text \<open>
  The per-player mailbox of \<^verbatim>\<open>pkg/actor/mailbox.go\<close>: a bounded channel of closures, one consumer, a
  closed flag under a read-write lock. A send to a full channel blocks; here such a send is not
  enabled (\<open>None\<close>). A task is \<^const>\<open>None\<close> for a nil closure, which the loop skips.
\<close>

section \<open>The interface of a first-in first-out channel\<close>

datatype 'a chan_event = Send 'a | Receive

text \<open>A run of sends and receives: what was accepted, what was received, and the channel at the end.\<close>

fun chan_run :: "('a \<Rightarrow> 'q \<Rightarrow> 'q option) \<Rightarrow> ('q \<Rightarrow> ('a \<times> 'q) option) \<Rightarrow> 'a chan_event list \<Rightarrow> 'q \<Rightarrow> 'a list \<times> 'a list \<times> 'q" where
  "chan_run enq deq [] q = ([], [], q)"
| "chan_run enq deq (Send x # es) q =
     (case enq x q of
        None \<Rightarrow> chan_run enq deq es q
      | Some q' \<Rightarrow> (let (ins, outs, q'') = chan_run enq deq es q' in (x # ins, outs, q'')))"
| "chan_run enq deq (Receive # es) q =
     (case deq q of
        None \<Rightarrow> chan_run enq deq es q
      | Some (x, q') \<Rightarrow> (let (ins, outs, q'') = chan_run enq deq es q' in (ins, x # outs, q'')))"

locale channel =
  fixes items :: "'q \<Rightarrow> 'a list" and enq :: "'a \<Rightarrow> 'q \<Rightarrow> 'q option" and deq :: "'q \<Rightarrow> ('a \<times> 'q) option"
  assumes enq_items: "enq x q = Some q' \<Longrightarrow> items q' = items q @ [x]"
    and deq_items: "deq q = Some (x, q') \<Longrightarrow> items q = x # items q'"
    and deq_enabled: "items q \<noteq> [] \<Longrightarrow> deq q \<noteq> None"
begin

lemma run_fifo: "chan_run enq deq es q = (ins, outs, q') \<Longrightarrow> items q @ ins = outs @ items q'"
proof (induction es arbitrary: q ins outs q')
  case Nil
  then show ?case by simp
next
  case (Cons e es)
  show ?case
  proof (cases e)
    case (Send x)
    then show ?thesis using Cons enq_items
      by (fastforce split: option.splits prod.splits)
  next
    case Receive
    then show ?thesis using Cons deq_items
      by (fastforce split: option.splits prod.splits)
  qed
qed

lemma drain: "\<exists>q'. chan_run enq deq (replicate (length (items q)) Receive) q = ([], items q, q') \<and> items q' = []"
proof -
  have "\<exists>q'. chan_run enq deq (replicate n Receive) q = ([], items q, q') \<and> items q' = []" if "length (items q) = n" for n q
    using that
  proof (induction n arbitrary: q)
    case 0
    then show ?case by simp
  next
    case (Suc n)
    then obtain x q1 where d: "deq q = Some (x, q1)" using deq_enabled [of q] by fastforce
    then have "length (items q1) = n" using deq_items Suc.prems by fastforce
    from Suc.IH [OF this] d deq_items [OF d] show ?case by auto
  qed
  then show ?thesis by blast
qed

end

section \<open>The mailbox\<close>

record 'a mailbox =
  ch :: "'a option list"
  cap :: nat
  mclosed :: bool

definition NewMailbox :: "int \<Rightarrow> 'a mailbox" where
  "NewMailbox n = \<lparr>ch = [], cap = nat (if n \<le> 0 then 256 else n), mclosed = False\<rparr>"

text \<open>\<open>Post\<close>: refused when closed; otherwise the closure is queued once there is room.\<close>

definition Post :: "'a option \<Rightarrow> 'a mailbox \<Rightarrow> (unit res \<times> 'a mailbox) option" where
  "Post fn m =
     (if mclosed m then Some (Inl ErrClosed, m)
      else if length (ch m) < cap m then Some (Inr (), m\<lparr>ch := ch m @ [fn]\<rparr>)
      else None)"

text \<open>
  The sending half of \<open>Call\<close>. \<open>ctxDone\<close> says that the caller's context has ended; when both branches of
  the \<^verbatim>\<open>select\<close> are ready the runtime picks one (\<open>pick\<close> is its choice). Once queued, \<open>Call\<close> waits for
  the result whatever happens to the context.
\<close>

definition Call_send :: "bool \<Rightarrow> bool \<Rightarrow> 'a \<Rightarrow> 'a mailbox \<Rightarrow> (unit res \<times> 'a mailbox) option" where
  "Call_send ctxDone pick fn m =
     (if mclosed m then Some (Inl ErrClosed, m)
      else if length (ch m) < cap m \<and> (ctxDone \<longrightarrow> pick) then Some (Inr (), m\<lparr>ch := ch m @ [Some fn]\<rparr>)
      else if ctxDone then Some (Inl ErrContext, m)
      else None)"

text \<open>One iteration of \<open>loop\<close>: the task taken from the channel.\<close>

definition loop_step :: "'a mailbox \<Rightarrow> ('a option \<times> 'a mailbox) option" where
  "loop_step m = (case ch m of [] \<Rightarrow> None | fn # rest \<Rightarrow> Some (fn, m\<lparr>ch := rest\<rparr>))"

definition mailbox_Close :: "'a mailbox \<Rightarrow> 'a mailbox" where
  "mailbox_Close m = m\<lparr>mclosed := True\<rparr>"

definition accept :: "'a option \<Rightarrow> 'a mailbox \<Rightarrow> 'a mailbox option" where
  "accept fn m = (case Post fn m of Some (Inr _, m') \<Rightarrow> Some m' | _ \<Rightarrow> None)"

interpretation mailbox: channel ch accept loop_step
  by unfold_locales (auto simp: accept_def Post_def loop_step_def split: if_splits list.splits)

section \<open>The mailbox as a transition system\<close>

text \<open>Callers, the consumer and the closer act in any order; a label records what was queued, run or refused.\<close>

datatype 'a label = Queued "'a option" | Ran "'a option" | Refused | Shut

inductive mailbox_step :: "'a mailbox \<Rightarrow> 'a label \<Rightarrow> 'a mailbox \<Rightarrow> bool" where
  post: "Post fn m = Some (Inr (), m') \<Longrightarrow> mailbox_step m (Queued fn) m'"
| post_refused: "Post fn m = Some (Inl e, m') \<Longrightarrow> mailbox_step m Refused m'"
| call: "Call_send d p fn m = Some (Inr (), m') \<Longrightarrow> mailbox_step m (Queued (Some fn)) m'"
| call_refused: "Call_send d p fn m = Some (Inl e, m') \<Longrightarrow> mailbox_step m Refused m'"
| run: "loop_step m = Some (fn, m') \<Longrightarrow> mailbox_step m (Ran fn) m'"
| close: "mailbox_step m Shut (mailbox_Close m)"

inductive_cases mailbox_stepE: "mailbox_step m l m'"

inductive mailbox_trace :: "'a mailbox \<Rightarrow> 'a label list \<Rightarrow> 'a mailbox \<Rightarrow> bool" where
  empty: "mailbox_trace m [] m"
| snoc: "mailbox_trace m ls m' \<Longrightarrow> mailbox_step m' l m'' \<Longrightarrow> mailbox_trace m (ls @ [l]) m''"

definition queued :: "'a label list \<Rightarrow> 'a option list" where
  "queued ls = concat (map (\<lambda>l. case l of Queued fn \<Rightarrow> [fn] | _ \<Rightarrow> []) ls)"

definition ran :: "'a label list \<Rightarrow> 'a option list" where
  "ran ls = concat (map (\<lambda>l. case l of Ran fn \<Rightarrow> [fn] | _ \<Rightarrow> []) ls)"

lemma queued_ran_append [simp]:
  "queued (ls @ ls') = queued ls @ queued ls'" "ran (ls @ ls') = ran ls @ ran ls'"
  "queued [] = []" "ran [] = []" "queued [Queued x] = [x]" "ran [Queued x] = []" "queued [Ran x] = []" "ran [Ran x] = [x]"
  "queued [Refused] = []" "ran [Refused] = []" "queued [Shut] = []" "ran [Shut] = []"
  by (simp_all add: queued_def ran_def)

definition mailbox_ok :: "'a mailbox \<Rightarrow> bool" where
  "mailbox_ok m \<longleftrightarrow> length (ch m) \<le> cap m"

lemma mailbox_step_ok: "mailbox_step m l m' \<Longrightarrow> mailbox_ok m \<Longrightarrow> mailbox_ok m' \<and> cap m' = cap m"
  by (auto elim!: mailbox_stepE simp: Post_def Call_send_def loop_step_def mailbox_Close_def mailbox_ok_def
      split: if_splits list.splits)

lemma mailbox_step_fifo:
  "mailbox_step m l m' \<Longrightarrow> ch m @ queued [l] = ran [l] @ ch m' \<and> (mclosed m \<longrightarrow> mclosed m' \<and> queued [l] = [])"
  by (auto elim!: mailbox_stepE simp: Post_def Call_send_def loop_step_def mailbox_Close_def
      split: if_splits list.splits)

lemma mailbox_trace_ok: "mailbox_trace m ls m' \<Longrightarrow> mailbox_ok m \<Longrightarrow> mailbox_ok m' \<and> cap m' = cap m"
  by (induction rule: mailbox_trace.induct) (auto dest: mailbox_step_ok)



end
