(* ===== verification/Player_State.thy ===== *)
theory Player_State
  imports Bastion_Prelude
begin

text \<open>
  The parts of a player's state: the bag (\<^verbatim>\<open>services/game/internal/bag/bag.go\<close>), the skill book
  (\<^verbatim>\<open>skill/book.go\<close>) and the quest log (\<^verbatim>\<open>quest/progress.go\<close>, \<^verbatim>\<open>quest/errors.go\<close>). Quantities are
  32-bit signed integers with their wrap-around.
\<close>

type_synonym inventory = "string gomap"
type_synonym book = "string gomap"

section \<open>Bag\<close>

definition bag_New :: inventory where
  "bag_New = Map.empty"

definition bag_Add :: "inventory \<Rightarrow> string \<Rightarrow> int \<Rightarrow> inventory" where
  "bag_Add bg itemID n =
     (if n \<le> 0 then bg else bg(itemID \<mapsto> i32 (gget bg itemID + n)))"

definition bag_Remove :: "inventory \<Rightarrow> string \<Rightarrow> int \<Rightarrow> bool \<times> inventory" where
  "bag_Remove bg itemID n =
     (if n \<le> 0 then (True, bg)
      else let have = gget bg itemID in
           if have < n then (False, bg)
           else let bg' = bg(itemID \<mapsto> i32 (have - n)) in
                (True, if gget bg' itemID = 0 then bg'(itemID := None) else bg'))"

definition bag_Clone :: "inventory \<Rightarrow> inventory" where
  "bag_Clone bg = bag_New ++ bg"

text \<open>Every stored count is positive (a count that reaches zero is deleted) and fits in 32 bits.\<close>

definition bag_ok :: "inventory \<Rightarrow> bool" where
  "bag_ok bg \<longleftrightarrow> (\<forall>k v. bg k = Some v \<longrightarrow> 0 < v \<and> in_i32 v)"

lemma bag_Clone_id [simp]: "bag_Clone bg = bg"
  by (simp add: bag_Clone_def bag_New_def)

lemma bag_ok_empty [simp]: "bag_ok bag_New" "bag_ok Map.empty"
  by (simp_all add: bag_ok_def bag_New_def)

lemma bag_ok_gget: "bag_ok bg \<Longrightarrow> 0 \<le> gget bg k \<and> in_i32 (gget bg k)"
  by (cases "bg k") (fastforce simp: bag_ok_def gget_def in_i32_def)+

lemma bag_ok_gget_0: "bag_ok bg \<Longrightarrow> gget bg k = 0 \<longleftrightarrow> bg k = None"
  by (cases "bg k") (auto simp: bag_ok_def gget_def)

lemma gget_bag_Add:
  "gget (bag_Add bg k n) k' = (if k' = k \<and> 0 < n then i32 (gget bg k + n) else gget bg k')"
  by (simp add: bag_Add_def)

lemma gget_bag_Remove:
  "bag_Remove bg k n = (True, bg') \<Longrightarrow>
   gget bg' k' = (if k' = k \<and> 0 < n then i32 (gget bg k - n) else gget bg k')"
  by (auto simp: bag_Remove_def Let_def split: if_splits)

lemma bag_Remove_fails: "bag_Remove bg k n = (False, bg') \<longleftrightarrow> 0 < n \<and> gget bg k < n \<and> bg' = bg"
  by (auto simp: bag_Remove_def Let_def)

lemma bag_ok_Add:
  assumes "bag_ok bg" and "in_i32 (gget bg k + n)"
  shows "bag_ok (bag_Add bg k n)"
  using assms bag_ok_gget [OF assms(1), of k]
  by (auto simp: bag_Add_def bag_ok_def in_i32_def)

lemma bag_ok_Remove:
  assumes "bag_ok bg" and "in_i32 n"
  shows "bag_ok (snd (bag_Remove bg k n))"
proof -
  have g: "0 \<le> gget bg k" "in_i32 (gget bg k)" using bag_ok_gget [OF assms(1)] by auto
  show ?thesis
  proof (cases "0 < n \<and> n \<le> gget bg k")
    case True
    then have "in_i32 (gget bg k - n)" using g by (simp add: in_i32_def)
    with True assms(1) show ?thesis by (auto simp: bag_Remove_def Let_def bag_ok_def split: if_splits)
  next
    case False
    with assms(1) show ?thesis by (auto simp: bag_Remove_def Let_def)
  qed
qed

lemma bag_Remove_Add:
  assumes "bag_ok bg" and "0 < n" and "in_i32 (gget bg k + n)"
  shows "bag_Remove (bag_Add bg k n) k n = (True, bg)"
proof -
  have g: "0 \<le> gget bg k" "in_i32 (gget bg k)" using bag_ok_gget [OF assms(1)] by auto
  show ?thesis
  proof (cases "bg k")
    case None
    moreover have "in_i32 0" by (simp add: in_i32_def)
    ultimately show ?thesis using assms(2,3) by (auto simp: bag_Remove_def bag_Add_def gget_def Let_def)
  next
    case (Some v)
    then have "gget bg k = v" "v \<noteq> 0" using assms(1) by (auto simp: gget_def bag_ok_def)
    with Some assms(2,3) g show ?thesis
      by (auto simp: bag_Remove_def bag_Add_def map_upd_triv)
  qed
qed

section \<open>Skill book\<close>

definition skill_Level :: "book \<Rightarrow> string \<Rightarrow> int" where
  "skill_Level b skillID = gget b skillID"

definition skill_Upgrade :: "book \<Rightarrow> string \<Rightarrow> int \<times> book" where
  "skill_Upgrade b skillID =
     (let b' = b(skillID \<mapsto> i32 (gget b skillID + 1)) in (gget b' skillID, b'))"

definition skill_ToMap :: "book \<Rightarrow> book" where
  "skill_ToMap b = Map.empty ++ b"

definition skill_List :: "book \<Rightarrow> book" where
  "skill_List b = skill_ToMap b"

lemma skill_ToMap_id [simp]: "skill_ToMap b = b"
  by (simp add: skill_ToMap_def)

section \<open>Quest log\<close>

definition StatusNone :: int where "StatusNone = 0"
definition StatusAccepted :: int where "StatusAccepted = 1"
definition StatusDone :: int where "StatusDone = 2"

lemmas quest_status_defs = StatusNone_def StatusAccepted_def StatusDone_def

record quest_state =
  Status :: "string gomap"
  Prog :: "string gomap"

definition quest_Accept :: "quest_state \<Rightarrow> string \<Rightarrow> err option \<times> quest_state" where
  "quest_Accept s questID =
     (let st = gget (Status s) questID in
      if st = StatusAccepted \<or> st = StatusDone then (Some ErrAlreadyAccepted, s)
      else (None, s\<lparr>Status := (Status s)(questID \<mapsto> StatusAccepted), Prog := (Prog s)(questID \<mapsto> 0)\<rparr>))"

definition quest_AddProgress :: "quest_state \<Rightarrow> string \<Rightarrow> int \<Rightarrow> int res \<times> quest_state" where
  "quest_AddProgress s questID delta =
     (if gget (Status s) questID \<noteq> StatusAccepted then (Inl ErrNotAccepted, s)
      else let p = (Prog s)(questID \<mapsto> i32 (gget (Prog s) questID + delta))
           in (Inr (gget p questID), s\<lparr>Prog := p\<rparr>))"

definition quest_Complete :: "quest_state \<Rightarrow> string \<Rightarrow> int \<Rightarrow> bool res \<times> quest_state" where
  "quest_Complete s questID need =
     (if gget (Status s) questID \<noteq> StatusAccepted then (Inl ErrNotAccepted, s)
      else if gget (Prog s) questID < need then (Inr False, s)
      else (Inr True, s\<lparr>Status := (Status s)(questID \<mapsto> StatusDone)\<rparr>))"

text \<open>\<open>List\<close>: every quest with a status, paired with its progress.\<close>

definition quest_List :: "quest_state \<Rightarrow> string \<Rightarrow> (int \<times> int) option" where
  "quest_List s questID =
     (case Status s questID of None \<Rightarrow> None | Some st \<Rightarrow> Some (st, gget (Prog s) questID))"

definition quest_ToSnapshotFields :: "quest_state \<Rightarrow> string gomap \<times> string gomap" where
  "quest_ToSnapshotFields s = (Status s, Prog s)"

text \<open>The quest log as a state machine.\<close>

inductive quest_step :: "quest_state \<Rightarrow> quest_state \<Rightarrow> bool" where
  accept: "quest_Accept s q = (r, s') \<Longrightarrow> quest_step s s'"
| progress: "quest_AddProgress s q d = (p, s') \<Longrightarrow> quest_step s s'"
| complete: "quest_Complete s q n = (b, s') \<Longrightarrow> quest_step s s'"

inductive_cases quest_stepE: "quest_step s s'"

definition quest_rank :: "quest_state \<Rightarrow> string \<Rightarrow> int" where
  "quest_rank s q = gget (Status s) q"

lemma quest_step_rank:
  assumes "quest_step s s'"
  shows "quest_rank s' q = quest_rank s q \<or>
         (quest_rank s q \<notin> {StatusAccepted, StatusDone} \<and> quest_rank s' q = StatusAccepted) \<or>
         (quest_rank s q = StatusAccepted \<and> quest_rank s' q = StatusDone)"
  using assms
  by (auto elim!: quest_stepE
      simp: quest_rank_def quest_Accept_def quest_AddProgress_def quest_Complete_def Let_def
      split: if_splits)

definition quest_ok :: "quest_state \<Rightarrow> bool" where
  "quest_ok s \<longleftrightarrow> (\<forall>q. quest_rank s q \<in> {StatusNone, StatusAccepted, StatusDone})"

lemma quest_step_ok: "quest_ok s \<Longrightarrow> quest_step s s' \<Longrightarrow> quest_ok s'"
  unfolding quest_ok_def using quest_step_rank by (metis insertCI)

lemma quest_step_mono:
  assumes "quest_ok s" and "quest_step s s'"
  shows "quest_rank s q \<le> quest_rank s' q"
  using quest_step_rank [OF assms(2), of q] assms(1)
  by (auto simp: quest_ok_def quest_status_defs dest: spec [of _ q])

lemma quest_steps_mono:
  assumes "quest_step\<^sup>*\<^sup>* s s'" and "quest_ok s"
  shows "quest_ok s' \<and> quest_rank s q \<le> quest_rank s' q"
  using assms
proof (induction rule: rtranclp_induct)
  case base
  then show ?case by simp
next
  case (step y z)
  then show ?case using quest_step_ok quest_step_mono [of y z q] by force
qed

section \<open>Properties of a player's parts\<close>

text \<open>
  The bag is a multiset of items. Adding a count that does not overflow and removing any count keep
  every stored count positive; a removal succeeds exactly when enough is there and then takes just
  that many, and otherwise changes nothing; removing what was just added restores the bag.
\<close>

theorem bag_accounting:
  assumes "bag_ok bg" and "0 < n" and "in_i32 n"
  shows "bag_ok (snd (bag_Remove bg k n)) \<and>
    (if n \<le> gget bg k
     then fst (bag_Remove bg k n) \<and> (\<forall>k'. gget (snd (bag_Remove bg k n)) k' = gget bg k' - (if k' = k then n else 0))
     else bag_Remove bg k n = (False, bg)) \<and>
    (in_i32 (gget bg k + n) \<longrightarrow> bag_ok (bag_Add bg k n) \<and>
       (\<forall>k'. gget (bag_Add bg k n) k' = gget bg k' + (if k' = k then n else 0)) \<and>
       bag_Remove (bag_Add bg k n) k n = (True, bg))"
proof -
  have g: "0 \<le> gget bg k" "in_i32 (gget bg k)" using bag_ok_gget [OF assms(1)] by auto
  have "n \<le> gget bg k \<Longrightarrow> in_i32 (gget bg k - n)" using g assms by (simp add: in_i32_def)
  then have "n \<le> gget bg k \<Longrightarrow> fst (bag_Remove bg k n) \<and>
      (\<forall>k'. gget (snd (bag_Remove bg k n)) k' = gget bg k' - (if k' = k then n else 0))"
    using assms(2) by (auto simp: bag_Remove_def Let_def)
  moreover have "\<not> n \<le> gget bg k \<Longrightarrow> bag_Remove bg k n = (False, bg)"
    using assms(2) by (simp add: bag_Remove_def)
  ultimately show ?thesis
    using assms bag_ok_Remove bag_ok_Add bag_Remove_Add by (auto simp: gget_bag_Add)
qed

theorem bag_accounting_witness: "bag_Remove (bag_Add bag_New ''gem'' 3) ''gem'' 3 = (True, bag_New)"
  using bag_accounting [of bag_New 3 "''gem''"] by (simp add: in_i32_def bag_New_def)

text \<open>
  Quests only move forward. Through any sequence of accepts, progress reports and completions a
  quest's status goes from none to accepted to done and never back; a completed quest can be neither
  accepted nor completed again, so its reward cannot be claimed twice.
\<close>

theorem quests_move_forward:
  assumes "quest_ok s" and "quest_step\<^sup>*\<^sup>* s s'"
  shows "quest_ok s' \<and> quest_rank s q \<le> quest_rank s' q \<and>
    (quest_rank s q = StatusDone \<longrightarrow> quest_rank s' q = StatusDone \<and>
       quest_Accept s' q = (Some ErrAlreadyAccepted, s') \<and> quest_Complete s' q need = (Inl ErrNotAccepted, s'))"
proof -
  have ok: "quest_ok s'" and le: "quest_rank s q \<le> quest_rank s' q"
    using quest_steps_mono [OF assms(2,1), of q] by simp_all
  have "quest_rank s' q \<in> {StatusNone, StatusAccepted, StatusDone}" using ok unfolding quest_ok_def by blast
  then have "quest_rank s q = StatusDone \<Longrightarrow> quest_rank s' q = StatusDone"
    using le by (auto simp: quest_status_defs)
  then show ?thesis using ok le
    by (auto simp: quest_rank_def quest_Accept_def quest_Complete_def quest_status_defs)
qed

theorem quests_move_forward_witness:
  "quest_Complete \<lparr>Status = Map.empty(''q'' \<mapsto> StatusDone), Prog = Map.empty\<rparr> ''q'' 1
     = (Inl ErrNotAccepted, \<lparr>Status = Map.empty(''q'' \<mapsto> StatusDone), Prog = Map.empty\<rparr>)"
  using quests_move_forward [of "\<lparr>Status = Map.empty(''q'' \<mapsto> StatusDone), Prog = Map.empty\<rparr>" _ "''q''" 1,
      OF _ rtranclp.rtrancl_refl]
  by (simp add: quest_ok_def quest_rank_def quest_status_defs)

end
