(* ===== verification/Json_Values.thy ===== *)
theory Json_Values
  imports Go_Strings "HOL-Library.AList"
begin

text \<open>
  JSON request bodies as the handlers read them. A body that is not JSON at all is \<^const>\<open>None\<close>. The
  readers model \<^verbatim>\<open>json.Unmarshal\<close> into a struct whose error the caller ignores or reports: keys match
  without regard to ASCII case, a later matching key overwrites an earlier one, \<open>null\<close> and a value of
  the wrong type leave the field as it was, and a field that was never set has its zero value.
\<close>

datatype json = JNull | JBool bool | JNum int | JStr string | JArr "json list" | JObj "(string \<times> json) list"

type_synonym body = "json option"

definition same_key :: "string \<Rightarrow> string \<Rightarrow> bool" where
  "same_key a b \<longleftrightarrow> map lower_char a = map lower_char b"

definition fields :: "body \<Rightarrow> (string \<times> json) list" where
  "fields p = (case p of Some (JObj kvs) \<Rightarrow> kvs | _ \<Rightarrow> [])"

fun keep_string :: "string \<Rightarrow> json \<Rightarrow> string" where
  "keep_string old (JStr s) = s"
| "keep_string old _ = old"

fun keep_int :: "(int \<Rightarrow> bool) \<Rightarrow> int \<Rightarrow> json \<Rightarrow> int" where
  "keep_int ok old (JNum n) = (if ok n then n else old)"
| "keep_int ok old _ = old"

definition read_field :: "('a \<Rightarrow> json \<Rightarrow> 'a) \<Rightarrow> 'a \<Rightarrow> string \<Rightarrow> body \<Rightarrow> 'a" where
  "read_field keep zero key p =
     foldl (\<lambda>acc kv. if same_key (fst kv) key then keep acc (snd kv) else acc) zero (fields p)"

definition json_string :: "string \<Rightarrow> body \<Rightarrow> string" where
  "json_string = read_field keep_string []"

definition json_int64 :: "string \<Rightarrow> body \<Rightarrow> int" where
  "json_int64 = read_field (keep_int in_i64) 0"

definition json_int32 :: "string \<Rightarrow> body \<Rightarrow> int" where
  "json_int32 = read_field (keep_int in_i32) 0"

definition json_uint16 :: "string \<Rightarrow> body \<Rightarrow> 16 word" where
  "json_uint16 key p = word_of_int (read_field (keep_int (\<lambda>n. 0 \<le> n \<and> n < 2 ^ 16)) 0 key p)"

text \<open>
  A field of type \<^verbatim>\<open>map[string]int32\<close>: \<^const>\<open>None\<close> is the nil map, \<open>null\<close> makes it nil, an object adds its
  entries to what is there, a \<open>null\<close> entry is zero.
\<close>

definition keep_items :: "(string \<times> int) list option \<Rightarrow> json \<Rightarrow> (string \<times> int) list option" where
  "keep_items old j =
     (case j of
        JNull \<Rightarrow> None
      | JObj kvs \<Rightarrow> Some (foldl (\<lambda>m kv. AList.update (fst kv) (keep_int in_i32 0 (snd kv)) m) (case old of None \<Rightarrow> [] | Some m \<Rightarrow> m) kvs)
      | _ \<Rightarrow> old)"

definition json_items :: "string \<Rightarrow> body \<Rightarrow> (string \<times> int) list option" where
  "json_items = read_field keep_items None"

text \<open>Fields of type \<^verbatim>\<open>bool\<close> and \<^verbatim>\<open>[]int64\<close>; a \<open>null\<close> element is zero, and \<open>null\<close> makes the slice nil.\<close>

fun keep_bool :: "bool \<Rightarrow> json \<Rightarrow> bool" where
  "keep_bool old (JBool b) = b"
| "keep_bool old _ = old"

definition json_bool :: "string \<Rightarrow> body \<Rightarrow> bool" where
  "json_bool = read_field keep_bool False"

fun keep_int64s :: "int list \<Rightarrow> json \<Rightarrow> int list" where
  "keep_int64s old (JArr js) = map (keep_int in_i64 0) js"
| "keep_int64s old JNull = []"
| "keep_int64s old _ = old"

definition json_int64s :: "string \<Rightarrow> body \<Rightarrow> int list" where
  "json_int64s = read_field keep_int64s []"

text \<open>Whether \<^verbatim>\<open>json.Unmarshal\<close> reports an error, given the types of the struct's fields; the number is the width, 16 is unsigned.\<close>

fun field_ok :: "json \<Rightarrow> json \<Rightarrow> bool" where
  "field_ok _ JNull = True"
| "field_ok (JStr _) (JStr _) = True"
| "field_ok (JNum b) (JNum n) = (if b = 32 then in_i32 n else if b = 16 then 0 \<le> n \<and> n < 2 ^ 16 else in_i64 n)"
| "field_ok (JBool _) (JBool _) = True"
| "field_ok (JObj _) (JObj kvs) = list_all (\<lambda>kv. case snd kv of JNull \<Rightarrow> True | JNum n \<Rightarrow> in_i32 n | _ \<Rightarrow> False) kvs"
| "field_ok (JArr _) (JArr js) = list_all (\<lambda>j. case j of JNull \<Rightarrow> True | JNum n \<Rightarrow> in_i64 n | _ \<Rightarrow> False) js"
| "field_ok _ _ = False"

definition json_valid :: "(string \<times> json) list \<Rightarrow> body \<Rightarrow> bool" where
  "json_valid shape p \<longleftrightarrow>
     (case p of
        None \<Rightarrow> False
      | Some JNull \<Rightarrow> True
      | Some (JObj kvs) \<Rightarrow> (\<forall>kv \<in> set kvs. \<forall>f \<in> set shape. same_key (fst kv) (fst f) \<longrightarrow> field_ok (snd f) (snd kv))
      | Some _ \<Rightarrow> False)"

lemma update_entries:
  "distinct (map fst z) \<Longrightarrow> (k', x) \<in> set (AList.update k v z) \<longleftrightarrow> (if k' = k then x = v else (k', x) \<in> set z)"
proof -
  assume d: "distinct (map fst z)"
  then have "(k', x) \<in> set (AList.update k v z) \<longleftrightarrow> map_of (AList.update k v z) k' = Some x"
    by (simp add: distinct_update)
  then show ?thesis using d by (auto simp: update_conv')
qed

lemma json_string_single [simp]: "json_string k (Some (JObj [(k, JStr s)])) = s"
  by (simp add: json_string_def read_field_def fields_def same_key_def)

lemma json_int64_range: "in_i64 (json_int64 k p)"
proof -
  have "in_i64 z \<Longrightarrow> in_i64 (foldl (\<lambda>acc kv. if same_key (fst kv) k then keep_int in_i64 acc (snd kv) else acc) z kvs)" for z kvs
  proof (induction kvs arbitrary: z)
    case (Cons kv kvs)
    have "in_i64 (keep_int in_i64 z (snd kv))" using Cons.prems by (cases "snd kv") auto
    with Cons show ?case by simp
  qed simp
  then show ?thesis by (simp add: json_int64_def read_field_def in_i64_def)
qed

end
