(* ===== verification/Player_Actor.thy ===== *)
theory Player_Actor
  imports Player_State Role_Repo Wire_Protocol Json_Values
begin

text \<open>
  The player actor of \<^verbatim>\<open>services/game/internal/player/actor.go\<close>: the runtime view of one role, its
  protocol handler, its persistence and its idempotent grants, together with the dungeon reward of
  \<^verbatim>\<open>dungeon/service.go\<close> and the unconditional grant of \<^verbatim>\<open>grant/service.go\<close>.

  A task runs alone on the actor (the mailbox serialises them, see \<open>Mailbox\<close>), so an operation is a
  function from the actor and the role store to its result, the actor and the store. The store is
  \<^const>\<open>None\<close> when the process runs without a database. Other processes do use the same database:
  where an operation makes two calls, what they do in between is an argument.
\<close>

section \<open>The role store as the actor sees it\<close>

type_synonym store = "role_repo option"

definition RoleRepo_Load :: "outcome \<Rightarrow> int \<Rightarrow> role_repo \<Rightarrow> role_snapshot res \<times> role_repo" where
  "RoleRepo_Load oc roleID = on_pool roleID (Repo_Load oc roleID)"

definition RoleRepo_Acquire :: "outcome \<Rightarrow> int \<Rightarrow> role_repo \<Rightarrow> role_snapshot res \<times> role_repo" where
  "RoleRepo_Acquire oc roleID = on_pool roleID (Repo_Acquire oc roleID)"

definition RoleRepo_Save :: "outcome \<Rightarrow> int \<Rightarrow> role_snapshot \<Rightarrow> role_repo \<Rightarrow> int res \<times> role_repo" where
  "RoleRepo_Save oc roleID snap = on_pool roleID (Repo_Save oc roleID snap)"

definition RoleRepo_SaveIdempotent :: "outcome \<Rightarrow> int \<Rightarrow> string \<Rightarrow> string \<Rightarrow> role_snapshot \<Rightarrow> grant_bundle
    \<Rightarrow> role_repo \<Rightarrow> (int \<times> bool) res \<times> role_repo" where
  "RoleRepo_SaveIdempotent oc roleID source kind snap payload =
     on_pool roleID (Repo_SaveIdempotent oc roleID source kind snap payload)"

definition RoleRepo_SaveWithOutbox :: "outcome \<Rightarrow> int \<Rightarrow> int \<Rightarrow> role_snapshot \<Rightarrow> outbox_event \<Rightarrow> role_repo \<Rightarrow> int res \<times> role_repo" where
  "RoleRepo_SaveWithOutbox oc now roleID snap event = on_pool roleID (Repo_SaveWithOutbox oc now roleID snap event)"

lemma on_pool_eq:
  "on_pool r f rp = (fst (f (role_db rp r)), rp\<lparr>pools := (pools rp)(poolFor rp r := snd (f (role_db rp r)))\<rparr>)"
  by (simp add: on_pool_def split: prod.splits)

lemma role_db_on_pool [simp]: "role_db (snd (on_pool r f rp)) r = snd (f (role_db rp r))"
  by (simp add: on_pool_eq role_db_def poolFor_def)

lemma role_db_put [simp]: "role_db (rp\<lparr>pools := (pools rp)(poolFor rp r := db)\<rparr>) r = db"
  by (simp add: role_db_def poolFor_def)

lemma fst_on_pool [simp]: "fst (on_pool r f rp) = fst (f (role_db rp r))"
  by (simp add: on_pool_eq)

lemma on_pool_Inr:
  "on_pool r f rp = (x, rp') \<Longrightarrow> f (role_db rp r) = (x, role_db rp' r)"
  by (metis fst_on_pool role_db_on_pool prod.collapse fst_conv snd_conv)

lemma on_pool_id: "snd (f (role_db rp r)) = role_db rp r \<Longrightarrow> snd (on_pool r f rp) = rp"
  by (simp add: on_pool_eq role_db_def)

section \<open>The actor\<close>

record actor =
  pID :: int
  pLevel :: int
  pGold :: int
  pInv :: inventory
  pSkills :: book
  pQuests :: quest_state
  pGuildID :: int
  pVersion :: int
  pOwnerEpoch :: int
  pApplied :: "string set"
  pLastActive :: int
  pClosed :: bool

definition skill_FromSnapshot :: "role_snapshot \<Rightarrow> book" where
  "skill_FromSnapshot snap = (case snSkills snap of None \<Rightarrow> Map.empty | Some b \<Rightarrow> b)"

definition quest_FromSnapshot :: "role_snapshot \<Rightarrow> quest_state" where
  "quest_FromSnapshot snap =
     \<lparr>Status = (case snQuests snap of None \<Rightarrow> Map.empty | Some m \<Rightarrow> m),
      Prog = (case snQuestProg snap of None \<Rightarrow> Map.empty | Some m \<Rightarrow> m)\<rparr>"

definition New :: "int \<Rightarrow> int \<Rightarrow> role_snapshot \<Rightarrow> actor" where
  "New now i snap =
     \<lparr>pID = i, pLevel = snLevel snap, pGold = snGold snap,
      pInv = (case snBag snap of None \<Rightarrow> bag_New | Some b \<Rightarrow> b),
      pSkills = skill_FromSnapshot snap, pQuests = quest_FromSnapshot snap, pGuildID = snGuildID snap,
      pVersion = (if snVersion snap \<le> 0 then 1 else snVersion snap),
      pOwnerEpoch = (if snOwnerEpoch snap \<le> 0 then 1 else snOwnerEpoch snap),
      pApplied = {}, pLastActive = now, pClosed = False\<rparr>"

definition touch :: "int \<Rightarrow> actor \<Rightarrow> actor" where
  "touch now p = p\<lparr>pLastActive := now\<rparr>"

definition Close :: "actor \<Rightarrow> actor" where
  "Close p = p\<lparr>pClosed := True\<rparr>"

definition cloneInt32Map :: "string gomap \<Rightarrow> string gomap" where
  "cloneInt32Map m = Map.empty ++ m"

definition snapshotUnsafe :: "actor \<Rightarrow> role_snapshot" where
  "snapshotUnsafe p =
     (let (qs, qp) = quest_ToSnapshotFields (pQuests p) in
      \<lparr>snLevel = pLevel p, snGold = pGold p, snBag = Some (bag_Clone (pInv p)), snSkills = Some (skill_ToMap (pSkills p)),
       snQuests = Some (cloneInt32Map qs), snQuestProg = Some (cloneInt32Map qp), snGuildID = pGuildID p,
       snVersion = pVersion p, snOwnerEpoch = pOwnerEpoch p\<rparr>)"

text \<open>
  \<open>restoreUnsafe\<close> assigns \<^verbatim>\<open>p.Inv = s.Bag\<close>. Its arguments are snapshots of an actor or decoded rows,
  whose bag is never nil (\<open>snapshot_bag\<close>, \<open>decode_nonnil\<close>); a nil bag, which reads as empty, is
  mapped to the empty bag.
\<close>

definition restoreUnsafe :: "role_snapshot \<Rightarrow> actor \<Rightarrow> actor" where
  "restoreUnsafe s p = p\<lparr>pLevel := snLevel s, pGold := snGold s,
     pInv := (case snBag s of None \<Rightarrow> Map.empty | Some b \<Rightarrow> b),
     pSkills := skill_FromSnapshot s, pQuests := quest_FromSnapshot s, pGuildID := snGuildID s,
     pVersion := snVersion s, pOwnerEpoch := snOwnerEpoch s\<rparr>"

section \<open>Protocol handler\<close>

datatype reply =
    PlayerData int int int inventory book "string \<Rightarrow> (int \<times> int) option" int
  | SkillList book
  | SkillUpgraded string int
  | QuestList "string \<Rightarrow> (int \<times> int) option"
  | QuestRefused err
  | QuestAccepted string

definition Handle :: "16 word \<Rightarrow> 16 word \<Rightarrow> body \<Rightarrow> actor \<Rightarrow> reply res \<times> actor" where
  "Handle cmd act payload p =
     (if cmd \<noteq> CmdGame then (Inl (ErrMsg ''unsupported command''), p)
      else if act = ActPlayerData then
        (Inr (PlayerData (pID p) (pLevel p) (pGold p) (pInv p) (skill_List (pSkills p)) (quest_List (pQuests p)) (pGuildID p)), p)
      else if act = ActSkillList then (Inr (SkillList (skill_List (pSkills p))), p)
      else if act = ActSkillUpgrade then
        let skillID = json_string ''skill_id'' payload;
            skillID = (if skillID = [] then ''slash'' else skillID);
            (lv, b) = skill_Upgrade (pSkills p) skillID
        in (Inr (SkillUpgraded skillID lv), p\<lparr>pSkills := b\<rparr>)
      else if act = ActQuestList then (Inr (QuestList (quest_List (pQuests p))), p)
      else if act = ActQuestAccept then
        let questID = json_string ''quest_id'' payload;
            questID = (if questID = [] then ''main_1'' else questID)
        in (case quest_Accept (pQuests p) questID of
              (Some e, q) \<Rightarrow> (Inr (QuestRefused e), p\<lparr>pQuests := q\<rparr>)
            | (None, q) \<Rightarrow> (Inr (QuestAccepted questID), p\<lparr>pQuests := q\<rparr>))
      else (Inl (ErrMsg ''unsupported game action''), p))"

definition MutatingAct :: "16 word \<Rightarrow> 16 word \<Rightarrow> bool" where
  "MutatingAct cmd act \<longleftrightarrow> cmd = CmdGame \<and> (act = ActSkillUpgrade \<or> act = ActQuestAccept)"

section \<open>Mailbox entry\<close>

text \<open>
  \<^verbatim>\<open>mailbox.Call\<close>: a closed mailbox refuses; a caller whose context ends while it waits for a slot gives
  up (\<open>CtxDone\<close>); otherwise the task runs to its end and the caller gets its result.
\<close>

datatype admission = Admitted | CtxDone

definition mailbox_Call :: "admission \<Rightarrow> (actor \<times> 's \<Rightarrow> 'r res \<times> actor \<times> 's) \<Rightarrow> actor \<times> 's \<Rightarrow> 'r res \<times> actor \<times> 's" where
  "mailbox_Call adm fn s =
     (if pClosed (fst s) then (Inl ErrClosed, s)
      else case adm of CtxDone \<Rightarrow> (Inl ErrContext, s) | Admitted \<Rightarrow> fn s)"

definition Invoke :: "admission \<Rightarrow> int \<Rightarrow> (actor \<times> 's \<Rightarrow> 'r res \<times> actor \<times> 's) \<Rightarrow> actor \<times> 's \<Rightarrow> 'r res \<times> actor \<times> 's" where
  "Invoke adm now fn s = mailbox_Call adm fn (touch now (fst s), snd s)"

section \<open>Persistence\<close>

definition saveUnsafe :: "outcome \<Rightarrow> actor \<times> store \<Rightarrow> err option \<times> actor \<times> store" where
  "saveUnsafe oc s =
     (let (p, st) = s in
      case st of
        None \<Rightarrow> (None, p, None)
      | Some rp \<Rightarrow>
          (case RoleRepo_Save oc (pID p) (snapshotUnsafe p) rp of
             (Inr v, rp') \<Rightarrow> (None, p\<lparr>pVersion := v\<rparr>, Some rp')
           | (Inl e, rp') \<Rightarrow> (Some e, p, Some rp')))"

definition as_res :: "err option \<times> 'a \<Rightarrow> unit res \<times> 'a" where
  "as_res r = ((case fst r of None \<Rightarrow> Inr () | Some e \<Rightarrow> Inl e), snd r)"

definition Save :: "admission \<Rightarrow> outcome \<Rightarrow> actor \<times> store \<Rightarrow> unit res \<times> actor \<times> store" where
  "Save adm oc s =
     (case snd s of
        None \<Rightarrow> (Inr (), s)
      | Some _ \<Rightarrow> mailbox_Call adm (\<lambda>s. as_res (saveUnsafe oc s)) s)"

definition saveWithOutboxUnsafe :: "outcome \<Rightarrow> int \<Rightarrow> outbox_event \<Rightarrow> actor \<times> store \<Rightarrow> err option \<times> actor \<times> store" where
  "saveWithOutboxUnsafe oc now event s =
     (let (p, st) = s in
      case st of
        None \<Rightarrow> (None, p, None)
      | Some rp \<Rightarrow>
          (case RoleRepo_SaveWithOutbox oc now (pID p) (snapshotUnsafe p) event rp of
             (Inr v, rp') \<Rightarrow> (None, p\<lparr>pVersion := v\<rparr>, Some rp')
           | (Inl e, rp') \<Rightarrow> (Some e, p, Some rp')))"

definition SaveWithOutbox :: "admission \<Rightarrow> outcome \<Rightarrow> int \<Rightarrow> outbox_event \<Rightarrow> actor \<times> store \<Rightarrow> unit res \<times> actor \<times> store" where
  "SaveWithOutbox adm oc now event s =
     (case snd s of
        None \<Rightarrow> (Inr (), s)
      | Some _ \<Rightarrow> mailbox_Call adm (\<lambda>s. as_res (saveWithOutboxUnsafe oc now event s)) s)"

section \<open>Mutations\<close>

definition AddGold :: "int \<Rightarrow> actor \<Rightarrow> actor" where
  "AddGold amount p = (if amount > 0 then p\<lparr>pGold := i64 (pGold p + amount)\<rparr> else p)"

definition SpendGold :: "int \<Rightarrow> actor \<Rightarrow> bool \<times> actor" where
  "SpendGold amount p =
     (if amount \<le> 0 \<or> pGold p < amount then (False, p) else (True, p\<lparr>pGold := i64 (pGold p - amount)\<rparr>))"

definition LevelUp :: "actor \<Rightarrow> actor" where
  "LevelUp p = p\<lparr>pLevel := i32 (pLevel p + 1)\<rparr>"

definition SetGuild :: "int \<Rightarrow> actor \<Rightarrow> actor" where
  "SetGuild i p = p\<lparr>pGuildID := i\<rparr>"

definition goldPerPass :: int where "goldPerPass = 50"

definition dungeon_Pass :: "actor \<Rightarrow> (int \<times> int) \<times> actor" where
  "dungeon_Pass p =
     (let p = LevelUp p; p = AddGold goldPerPass p; p = p\<lparr>pInv := bag_Add (pInv p) ''potion'' 1\<rparr>
      in ((pLevel p, pGold p), p))"

text \<open>\<^verbatim>\<open>grant.Service.Apply\<close>; the item list stands for the iteration order of the Go map.\<close>

definition grant_Apply :: "grant_bundle \<Rightarrow> actor \<Rightarrow> actor" where
  "grant_Apply b p =
     (let p = (if bGold b > 0 then AddGold (bGold b) p else p)
      in p\<lparr>pInv := foldl (\<lambda>bg kn. bag_Add bg (fst kn) (snd kn)) (pInv p) (bItems b)\<rparr>)"

section \<open>Grants\<close>

text \<open>
  The two loops over \<^verbatim>\<open>b.Items\<close> in \<open>applyBundleUnsafe\<close> each run in an order of their own: \<open>ord1\<close> and
  \<open>ord2\<close> are those two orders.
\<close>

fun check_items :: "inventory \<Rightarrow> (string \<times> int) list \<Rightarrow> err option" where
  "check_items bg [] = None"
| "check_items bg ((item, n) # rest) =
     (if n < 0 \<and> gget bg item < i32 (- n) then Some (ErrInsufficientItem item) else check_items bg rest)"

fun apply_items :: "inventory \<Rightarrow> (string \<times> int) list \<Rightarrow> inventory" where
  "apply_items bg [] = bg"
| "apply_items bg ((item, n) # rest) =
     apply_items (if n > 0 then bag_Add bg item n else if n < 0 then snd (bag_Remove bg item (i32 (- n))) else bg) rest"

definition applyBundleUnsafe :: "(string \<times> int) list \<Rightarrow> (string \<times> int) list \<Rightarrow> grant_bundle \<Rightarrow> actor \<Rightarrow> err option \<times> actor" where
  "applyBundleUnsafe ord1 ord2 b p =
     (if bGold b < 0 \<and> pGold p < i64 (- bGold b) then (Some ErrInsufficientGold, p)
      else case check_items (pInv p) ord1 of
             Some e \<Rightarrow> (Some e, p)
           | None \<Rightarrow> (None, p\<lparr>pGold := i64 (pGold p + bGold b), pInv := apply_items (pInv p) ord2\<rparr>))"

text \<open>The task that \<open>ApplyGrant\<close> puts in the mailbox; \<open>between\<close> is what other processes do between its two database calls.\<close>

definition grant_task :: "outcome \<Rightarrow> outcome \<Rightarrow> (role_repo \<Rightarrow> role_repo) \<Rightarrow> (string \<times> int) list \<Rightarrow> (string \<times> int) list
    \<Rightarrow> grant_bundle \<Rightarrow> string \<Rightarrow> actor \<times> store \<Rightarrow> bool res \<times> actor \<times> store" where
  "grant_task oc1 oc2 between ord1 ord2 b source s =
     (let (a, st) = s in
      if source \<noteq> [] \<and> source \<in> pApplied a \<and> st = None then (Inr False, a, st)
      else
        let before = snapshotUnsafe a in
        case applyBundleUnsafe ord1 ord2 b a of
          (Some e, a) \<Rightarrow> (Inl e, a, st)
        | (None, a) \<Rightarrow>
            let after = snapshotUnsafe a in
            case st of
              None \<Rightarrow> (Inr True, (if source \<noteq> [] then a\<lparr>pApplied := insert source (pApplied a)\<rparr> else a), None)
            | Some rp \<Rightarrow>
                (case RoleRepo_SaveIdempotent oc1 (pID a) source ''grant'' after b rp of
                   (Inl e, rp) \<Rightarrow> (Inl e, restoreUnsafe before a, Some rp)
                 | (Inr (v, inserted), rp) \<Rightarrow>
                     if \<not> inserted then
                       (case RoleRepo_Load oc2 (pID a) (between rp) of
                          (Inl e, rp) \<Rightarrow> (Inl e, restoreUnsafe before a, Some rp)
                        | (Inr latest, rp) \<Rightarrow> (Inr False, restoreUnsafe latest a, Some rp))
                     else (Inr True, a\<lparr>pVersion := v\<rparr>, Some rp)))"

definition ApplyGrant :: "admission \<Rightarrow> int \<Rightarrow> outcome \<Rightarrow> outcome \<Rightarrow> (role_repo \<Rightarrow> role_repo) \<Rightarrow> (string \<times> int) list
    \<Rightarrow> (string \<times> int) list \<Rightarrow> grant_bundle \<Rightarrow> string \<Rightarrow> actor \<times> store \<Rightarrow> bool res \<times> actor \<times> store" where
  "ApplyGrant adm now oc1 oc2 between ord1 ord2 b source =
     Invoke adm now (grant_task oc1 oc2 between ord1 ord2 b source)"

section \<open>Snapshots and restores\<close>

lemma cloneInt32Map_id [simp]: "cloneInt32Map m = m"
  by (simp add: cloneInt32Map_def)

lemma snapshotUnsafe_simps [simp]:
  "snLevel (snapshotUnsafe p) = pLevel p" "snGold (snapshotUnsafe p) = pGold p" "snBag (snapshotUnsafe p) = Some (pInv p)"
  "snSkills (snapshotUnsafe p) = Some (pSkills p)" "snQuests (snapshotUnsafe p) = Some (Status (pQuests p))"
  "snQuestProg (snapshotUnsafe p) = Some (Prog (pQuests p))" "snGuildID (snapshotUnsafe p) = pGuildID p"
  "snVersion (snapshotUnsafe p) = pVersion p" "snOwnerEpoch (snapshotUnsafe p) = pOwnerEpoch p"
  by (simp_all add: snapshotUnsafe_def quest_ToSnapshotFields_def)

lemma snapshot_bag: "snBag (snapshotUnsafe p) \<noteq> None"
  by simp

text \<open>The fields a snapshot does not hold: identity, in-memory idempotency set, activity, mailbox.\<close>

definition same_shell :: "actor \<Rightarrow> actor \<Rightarrow> bool" where
  "same_shell a b \<longleftrightarrow> pID a = pID b \<and> pApplied a = pApplied b \<and> pLastActive a = pLastActive b \<and> pClosed a = pClosed b"

lemma same_shell_refl [simp]: "same_shell a a"
  by (simp add: same_shell_def)

lemma restore_snapshot [simp]: "same_shell a b \<Longrightarrow> restoreUnsafe (snapshotUnsafe a) b = a"
  by (cases a; cases b) (simp add: restoreUnsafe_def skill_FromSnapshot_def quest_FromSnapshot_def same_shell_def)

lemma applyBundle_shell: "applyBundleUnsafe o1 o2 b p = (r, p') \<Longrightarrow> same_shell p p'"
  by (auto simp: applyBundleUnsafe_def same_shell_def split: if_splits option.splits)

lemma applyBundle_fences:
  "applyBundleUnsafe o1 o2 b p = (r, p') \<Longrightarrow> pVersion p' = pVersion p \<and> pOwnerEpoch p' = pOwnerEpoch p"
  by (auto simp: applyBundleUnsafe_def split: if_splits option.splits)

lemma applyBundle_error: "applyBundleUnsafe o1 o2 b p = (Some e, p') \<Longrightarrow> p' = p"
  by (auto simp: applyBundleUnsafe_def split: if_splits option.splits)

section \<open>The item loops\<close>

definition apply_item :: "inventory \<Rightarrow> string \<Rightarrow> int \<Rightarrow> inventory" where
  "apply_item bg item n =
     (if n > 0 then bag_Add bg item n else if n < 0 then snd (bag_Remove bg item (i32 (- n))) else bg)"

lemma apply_item_other: "k \<noteq> item \<Longrightarrow> apply_item bg item n k = bg k"
  by (auto simp: apply_item_def bag_Add_def bag_Remove_def Let_def)

lemma apply_item_cong: "bg k = bg' k \<Longrightarrow> apply_item bg k n k = apply_item bg' k n k"
  by (auto simp: apply_item_def bag_Add_def bag_Remove_def Let_def gget_def split: option.splits)

lemma apply_items_Cons: "apply_items bg ((item, n) # rest) = apply_items (apply_item bg item n) rest"
  by (simp add: apply_item_def)

declare apply_items.simps(2) [simp del]

text \<open>Each key is touched once, so the order of the loop does not matter.\<close>

lemma apply_items_lookup:
  "distinct (map fst its) \<Longrightarrow>
   apply_items bg its k = (case map_of its k of None \<Rightarrow> bg k | Some n \<Rightarrow> apply_item bg k n k)"
proof (induction its arbitrary: bg)
  case Nil
  then show ?case by simp
next
  case (Cons p its)
  obtain item n where p: "p = (item, n)" by (cases p)
  have d: "distinct (map fst its)" and out: "item \<notin> fst ` set its" using Cons.prems p by auto
  have none: "map_of its item = None" using out by (simp add: map_of_eq_None_iff)
  show ?case
  proof (cases "k = item")
    case True
    then show ?thesis using Cons.IH [OF d] p none by (simp add: apply_items_Cons)
  next
    case False
    then have same: "apply_item bg item n k = bg k" by (rule apply_item_other)
    from False show ?thesis
      using Cons.IH [OF d, of "apply_item bg item n"] p same apply_item_cong [of "apply_item bg item n" k bg, OF same]
      by (simp add: apply_items_Cons split: option.splits)
  qed
qed

lemma check_items_None:
  "check_items bg its = None \<longleftrightarrow> (\<forall>(item, n) \<in> set its. \<not> (n < 0 \<and> gget bg item < i32 (- n)))"
  by (induction bg its rule: check_items.induct) auto

definition iter_order :: "grant_bundle \<Rightarrow> (string \<times> int) list \<Rightarrow> bool" where
  "iter_order b its \<longleftrightarrow> distinct (map fst its) \<and> set its = set (bItems b)"

definition bundle_ok :: "grant_bundle \<Rightarrow> bool" where
  "bundle_ok b \<longleftrightarrow> distinct (map fst (bItems b)) \<and> - (2 ^ 63) < bGold b \<and> bGold b < 2 ^ 63 \<and>
     (\<forall>(item, n) \<in> set (bItems b). - (2 ^ 31) < n \<and> n < 2 ^ 31)"

lemma iter_order_map_of:
  assumes "distinct (map fst (bItems b))" and "iter_order b its"
  shows "map_of its = map_of (bItems b)"
  using assms unfolding iter_order_def by (simp add: map_of_inject_set)

definition actor_ok :: "actor \<Rightarrow> bool" where
  "actor_ok p \<longleftrightarrow> 0 \<le> pGold p \<and> in_i64 (pGold p) \<and> bag_ok (pInv p) \<and> quest_ok (pQuests p)"

definition fits_after :: "grant_bundle \<Rightarrow> actor \<Rightarrow> bool" where
  "fits_after b p \<longleftrightarrow> in_i64 (pGold p + bGold b) \<and> (\<forall>k. in_i32 (gget (pInv p) k + bundle_qty b k))"

definition affordable :: "grant_bundle \<Rightarrow> actor \<Rightarrow> bool" where
  "affordable b p \<longleftrightarrow> 0 \<le> pGold p + bGold b \<and> (\<forall>k. 0 \<le> gget (pInv p) k + bundle_qty b k)"

lemma apply_item_gget:
  assumes "bag_ok bg" and "- (2 ^ 31) < n" and "n < 2 ^ 31" and "0 \<le> gget bg k + n" and "in_i32 (gget bg k + n)"
  shows "gget (apply_item bg k n) k = gget bg k + n" and "bag_ok (apply_item bg k n)"
proof -
  have neg: "i32 (- n) = - n" using assms by (intro i32_id) (simp add: in_i32_def)
  have "0 \<le> gget bg k" "in_i32 (gget bg k)" using bag_ok_gget [OF assms(1)] by auto
  with neg assms show "gget (apply_item bg k n) k = gget bg k + n"
    by (auto simp: apply_item_def bag_Add_def bag_Remove_def Let_def)
  have "in_i32 (- n)" using assms by (simp add: in_i32_def)
  then show "bag_ok (apply_item bg k n)"
    unfolding apply_item_def neg using assms bag_ok_Add [OF assms(1,5)] bag_ok_Remove [OF assms(1)] by auto
qed

lemma check_items_affordable:
  assumes "bundle_ok b" and "iter_order b its" and "bag_ok bg"
  shows "check_items bg its = None \<longleftrightarrow> (\<forall>k. 0 \<le> gget bg k + bundle_qty b k)"
proof -
  have d: "distinct (map fst (bItems b))" and r: "\<And>i n. (i, n) \<in> set (bItems b) \<Longrightarrow> i32 (- n) = - n"
    using assms(1) by (auto simp: bundle_ok_def in_i32_def intro!: i32_id)
  have s: "set its = set (bItems b)" using assms(2) by (simp add: iter_order_def)
  have q: "(i, n) \<in> set (bItems b) \<Longrightarrow> bundle_qty b i = n" for i n
    using d by (simp add: bundle_qty_def gget_def)
  have z: "bundle_qty b k = 0 \<or> (k, bundle_qty b k) \<in> set (bItems b)" for k
    by (cases "map_of (bItems b) k") (auto simp: bundle_qty_def gget_def dest: map_of_SomeD)
  have nn: "0 \<le> gget bg k" for k using bag_ok_gget [OF assms(3)] by blast
  show ?thesis
  proof
    assume "check_items bg its = None"
    then have c: "\<And>i n. (i, n) \<in> set (bItems b) \<Longrightarrow> \<not> (n < 0 \<and> gget bg i < i32 (- n))"
      unfolding check_items_None s by blast
    show "\<forall>k. 0 \<le> gget bg k + bundle_qty b k"
    proof
      fix k
      show "0 \<le> gget bg k + bundle_qty b k" using z [of k] c [of k "bundle_qty b k"] r [of k] nn [of k] by auto
    qed
  next
    assume a: "\<forall>k. 0 \<le> gget bg k + bundle_qty b k"
    have "\<not> (n < 0 \<and> gget bg i < i32 (- n))" if "(i, n) \<in> set (bItems b)" for i n
      using q [OF that] r [OF that] spec [OF a, of i] by simp
    then show "check_items bg its = None" unfolding check_items_None s by blast
  qed
qed

lemma apply_items_affordable:
  assumes "bundle_ok b" and "iter_order b its" and "bag_ok bg"
    and "\<forall>k. 0 \<le> gget bg k + bundle_qty b k" and "\<forall>k. in_i32 (gget bg k + bundle_qty b k)"
  shows "gget (apply_items bg its) k = gget bg k + bundle_qty b k" and "bag_ok (apply_items bg its)"
proof -
  have d: "distinct (map fst (bItems b))" and di: "distinct (map fst its)"
    using assms(1,2) by (auto simp: bundle_ok_def iter_order_def)
  have lk: "apply_items bg its k = (case map_of (bItems b) k of None \<Rightarrow> bg k | Some n \<Rightarrow> apply_item bg k n k)" for k
    using apply_items_lookup [OF di] iter_order_map_of [OF d assms(2)] by simp
  have one: "gget (apply_item bg k n) k = gget bg k + n \<and> bag_ok (apply_item bg k n)" and qn: "bundle_qty b k = n"
    if "map_of (bItems b) k = Some n" for k n
  proof -
    show qn: "bundle_qty b k = n" using that by (simp add: bundle_qty_def gget_def)
    have "- (2 ^ 31) < n" "n < 2 ^ 31" using assms(1) map_of_SomeD [OF that] by (auto simp: bundle_ok_def)
    then show "gget (apply_item bg k n) k = gget bg k + n \<and> bag_ok (apply_item bg k n)"
      using apply_item_gget [OF assms(3), of n k] spec [OF assms(4), of k] spec [OF assms(5), of k] qn by simp
  qed
  show "gget (apply_items bg its) k = gget bg k + bundle_qty b k"
  proof (cases "map_of (bItems b) k")
    case None
    then show ?thesis using lk [of k] by (simp add: gget_def bundle_qty_def)
  next
    case (Some n)
    have "gget (apply_items bg its) k = gget (apply_item bg k n) k" using lk [of k] Some by (simp add: gget_def)
    then show ?thesis using one [OF Some] qn [OF Some] by simp
  qed
  show "bag_ok (apply_items bg its)"
    unfolding bag_ok_def
  proof (intro allI impI)
    fix k v
    assume v: "apply_items bg its k = Some v"
    show "0 < v \<and> in_i32 v"
    proof (cases "map_of (bItems b) k")
      case None
      then show ?thesis using v lk [of k] assms(3) by (simp add: bag_ok_def)
    next
      case (Some n)
      then show ?thesis using v lk [of k] one [OF Some] by (simp add: bag_ok_def)
    qed
  qed
qed

section \<open>What a stored actor looks like\<close>

text \<open>The row of the actor's role is the one the actor wrote or read last.\<close>

definition persisted :: "actor \<Rightarrow> role_repo \<Rightarrow> bool" where
  "persisted p rp \<longleftrightarrow>
     (\<exists>row. roles (role_db rp (pID p)) (pID p) = Some row \<and> rVersion row = pVersion p \<and>
        rOwnerEpoch row = pOwnerEpoch p \<and> rSnapshot row = json_Marshal (snapshotUnsafe p) \<and> rLevel row = pLevel p)"

lemma json_Marshal_fences [simp]:
  "json_Marshal (s\<lparr>snVersion := v\<rparr>) = json_Marshal s" "json_Marshal (s\<lparr>snOwnerEpoch := e\<rparr>) = json_Marshal s"
  by (simp_all add: json_Marshal_def)

lemma snapshot_version [simp]: "snapshotUnsafe (p\<lparr>pVersion := v\<rparr>) = (snapshotUnsafe p)\<lparr>snVersion := v\<rparr>"
  by (simp add: snapshotUnsafe_def split: prod.splits)

lemma saveUnsafe_cases:
  obtains (nostore) "snd s = None" "saveUnsafe oc s = (None, s)"
  | (ok) rp rp' v where "snd s = Some rp" "RoleRepo_Save oc (pID (fst s)) (snapshotUnsafe (fst s)) rp = (Inr v, rp')"
      "saveUnsafe oc s = (None, (fst s)\<lparr>pVersion := v\<rparr>, Some rp')"
  | (err) rp rp' e where "snd s = Some rp" "RoleRepo_Save oc (pID (fst s)) (snapshotUnsafe (fst s)) rp = (Inl e, rp')"
      "saveUnsafe oc s = (Some e, fst s, Some rp')"
proof (cases "snd s")
  case None
  then have "saveUnsafe oc s = (None, s)" by (cases s) (simp add: saveUnsafe_def)
  with None show ?thesis by (rule nostore)
next
  case (Some rp)
  obtain x rp' where x: "RoleRepo_Save oc (pID (fst s)) (snapshotUnsafe (fst s)) rp = (x, rp')" by fastforce
  show ?thesis
  proof (cases x)
    case (Inl e)
    with Some x show ?thesis by (intro err [of rp e rp']) (auto simp: saveUnsafe_def split_beta)
  next
    case (Inr v)
    with Some x show ?thesis by (intro ok [of rp v rp']) (auto simp: saveUnsafe_def split_beta)
  qed
qed

lemma update_role_persisted:
  assumes "update_role (pID p) (snapshotUnsafe p) (role_db rp (pID p)) = Some (v, db')"
    and "roles (role_db rp' (pID p)) = roles db'"
  shows "persisted (p\<lparr>pVersion := v\<rparr>) rp' \<and> v = pVersion p + 1"
  using assms by (auto simp: update_role_Some persisted_def)

lemma saveUnsafe_persisted:
  assumes "saveUnsafe oc (p, Some rp) = (None, p', st')"
  shows "\<exists>rp'. st' = Some rp' \<and> persisted p' rp' \<and> p' = p\<lparr>pVersion := pVersion p + 1\<rparr>"
proof -
  obtain v rp' where s: "RoleRepo_Save oc (pID p) (snapshotUnsafe p) rp = (Inr v, rp')"
    and r: "p' = p\<lparr>pVersion := v\<rparr>" "st' = Some rp'"
    using assms by (auto simp: saveUnsafe_def split: prod.splits sum.splits)
  have "Repo_Save oc (pID p) (snapshotUnsafe p) (role_db rp (pID p)) = (Inr v, role_db rp' (pID p))"
    by (rule on_pool_Inr [OF s [unfolded RoleRepo_Save_def]])
  then have "update_role (pID p) (snapshotUnsafe p) (role_db rp (pID p)) = Some (v, role_db rp' (pID p))"
    by (simp add: Repo_Save_Inr)
  from update_role_persisted [OF this refl] r show ?thesis by auto
qed

lemma saveUnsafe_error: "saveUnsafe oc s = (Some e, p', st') \<Longrightarrow> p' = fst s"
  by (auto simp: saveUnsafe_def split: prod.splits option.splits sum.splits)

section \<open>The outcomes of a grant\<close>

lemma grant_task_error:
  assumes "grant_task oc1 oc2 bt o1 o2 b src (p, st) = (Inl e, p', st')"
  shows "p' = p"
proof (cases "applyBundleUnsafe o1 o2 b p")
  case (Pair r q)
  then show ?thesis
    using assms applyBundle_error [of o1 o2 b p] applyBundle_shell [OF Pair]
    by (auto simp: grant_task_def Let_def split: if_splits option.splits prod.splits sum.splits)
qed

lemma grant_task_applied:
  assumes "grant_task oc1 oc2 bt o1 o2 b src (p, Some rp) = (Inr True, p', st')"
  shows "\<exists>q v rp'. applyBundleUnsafe o1 o2 b p = (None, q) \<and> st' = Some rp' \<and> p' = q\<lparr>pVersion := v\<rparr> \<and>
    Repo_SaveIdempotent oc1 (pID p) src ''grant'' (snapshotUnsafe q) b (role_db rp (pID p))
      = (Inr (v, True), role_db rp' (pID p))"
proof -
  obtain q where q: "applyBundleUnsafe o1 o2 b p = (None, q)"
    using assms by (cases "applyBundleUnsafe o1 o2 b p"; cases "fst (applyBundleUnsafe o1 o2 b p)")
      (auto simp: grant_task_def Let_def)
  have i: "pID q = pID p" using applyBundle_shell [OF q] by (simp add: same_shell_def)
  obtain v rp' where s: "RoleRepo_SaveIdempotent oc1 (pID p) src ''grant'' (snapshotUnsafe q) b rp = (Inr (v, True), rp')"
    and r: "p' = q\<lparr>pVersion := v\<rparr>" "st' = Some rp'"
    using assms q i by (auto simp: grant_task_def Let_def split: if_splits prod.splits sum.splits)
  from on_pool_Inr [OF s [unfolded RoleRepo_SaveIdempotent_def]] q r show ?thesis by blast
qed

lemma SaveIdempotent_persisted:
  assumes "Repo_SaveIdempotent oc (pID p) src k (snapshotUnsafe p) b (role_db rp (pID p)) = (Inr (v, True), role_db rp' (pID p))"
  shows "persisted (p\<lparr>pVersion := v\<rparr>) rp' \<and> v = pVersion p + 1 \<and>
    (src \<noteq> [] \<longrightarrow> ledger (role_db rp (pID p)) (pID p, src) = None \<and> ledger (role_db rp' (pID p)) (pID p, src) = Some (k, b))"
proof (cases "src = []")
  case True
  with assms have "Repo_Save oc (pID p) (snapshotUnsafe p) (role_db rp (pID p)) = (Inr v, role_db rp' (pID p))"
    by (auto simp: Repo_SaveIdempotent_def split: prod.splits sum.splits)
  then have "update_role (pID p) (snapshotUnsafe p) (role_db rp (pID p)) = Some (v, role_db rp' (pID p))"
    by (simp add: Repo_Save_Inr)
  from update_role_persisted [OF this refl] True show ?thesis by auto
next
  case False
  from SaveIdempotent_applied [OF assms False] False show ?thesis
    by (auto simp: persisted_def)
qed

lemma grant_task_duplicate:
  assumes "grant_task oc1 oc2 bt o1 o2 b src (p, Some rp) = (Inr False, p', st')"
  shows "\<exists>latest q. st' = Some (bt rp) \<and> src \<noteq> [] \<and> ledger (role_db rp (pID p)) (pID p, src) \<noteq> None \<and>
    Repo_Load oc2 (pID p) (role_db (bt rp) (pID p)) = (Inr latest, role_db (bt rp) (pID p)) \<and>
    same_shell p q \<and> p' = restoreUnsafe latest q"
proof -
  obtain q where q: "applyBundleUnsafe o1 o2 b p = (None, q)"
    using assms by (cases "applyBundleUnsafe o1 o2 b p"; cases "fst (applyBundleUnsafe o1 o2 b p)")
      (auto simp: grant_task_def Let_def)
  have sh: "same_shell p q" and i: "pID q = pID p" using applyBundle_shell [OF q] by (simp_all add: same_shell_def)
  obtain v rp1 where s: "RoleRepo_SaveIdempotent oc1 (pID p) src ''grant'' (snapshotUnsafe q) b rp = (Inr (v, False), rp1)"
    using assms q i by (auto simp: grant_task_def Let_def split: if_splits prod.splits sum.splits)
  obtain latest rp2 where l: "RoleRepo_Load oc2 (pID p) (bt rp1) = (Inr latest, rp2)"
    and r: "st' = Some rp2" "p' = restoreUnsafe latest q"
    using assms q i s by (auto simp: grant_task_def Let_def split: if_splits prod.splits sum.splits)
  have d: "src \<noteq> [] \<and> ledger (role_db rp (pID p)) (pID p, src) \<noteq> None \<and> role_db rp1 (pID p) = role_db rp (pID p)"
    using on_pool_Inr [OF s [unfolded RoleRepo_SaveIdempotent_def]]
    by (auto simp: Repo_SaveIdempotent_def store_call_Inr Let_def split: if_splits option.splits prod.splits sum.splits)
  have "rp1 = rp"
    using on_pool_id [of "Repo_SaveIdempotent oc1 (pID p) src ''grant'' (snapshotUnsafe q) b" rp "pID p"] d
      on_pool_Inr [OF s [unfolded RoleRepo_SaveIdempotent_def]] s
    by (simp add: RoleRepo_SaveIdempotent_def)
  moreover have "Repo_Load oc2 (pID p) (role_db (bt rp1) (pID p)) = (Inr latest, role_db rp2 (pID p))"
    by (rule on_pool_Inr [OF l [unfolded RoleRepo_Load_def]])
  moreover from this have "role_db rp2 (pID p) = role_db (bt rp1) (pID p)"
    by (auto simp: Repo_Load_def store_call_Inr split: option.splits)
  moreover from calculation have "rp2 = bt rp1"
    using on_pool_id [of "Repo_Load oc2 (pID p)" "bt rp1" "pID p"] l by (simp add: RoleRepo_Load_def)
  ultimately show ?thesis using d sh r by auto
qed

section \<open>Properties of the actor\<close>

text \<open>
  Exact accounting. On a well-formed actor, for a bundle of signed amounts whose sums fit their
  widths, and whatever orders the two loops over the item map take: the bundle is applied exactly
  when gold and every item cover it, and then gold and every count change by just the bundle's
  amounts and stay non-negative; otherwise an error is returned and nothing changes.
\<close>

theorem grant_accounting:
  assumes "actor_ok p" and "bundle_ok b" and "fits_after b p" and "iter_order b ord1" and "iter_order b ord2"
  shows "if affordable b p
    then \<exists>p'. applyBundleUnsafe ord1 ord2 b p = (None, p') \<and> actor_ok p' \<and> pGold p' = pGold p + bGold b \<and>
           (\<forall>k. gget (pInv p') k = gget (pInv p) k + bundle_qty b k) \<and>
           p' = p\<lparr>pGold := pGold p', pInv := pInv p'\<rparr>
    else \<exists>e. applyBundleUnsafe ord1 ord2 b p = (Some e, p)"
proof -
  have bag: "bag_ok (pInv p)" and g: "0 \<le> pGold p" "in_i64 (pGold p)" and q: "quest_ok (pQuests p)"
    using assms(1) by (simp_all add: actor_ok_def)
  have ng: "i64 (- bGold b) = - bGold b"
    using assms(2) by (intro i64_id) (auto simp: bundle_ok_def in_i64_def)
  have fit: "in_i64 (pGold p + bGold b)" "\<forall>k. in_i32 (gget (pInv p) k + bundle_qty b k)"
    using assms(3) by (simp_all add: fits_after_def)
  have chk: "check_items (pInv p) ord1 = None \<longleftrightarrow> (\<forall>k. 0 \<le> gget (pInv p) k + bundle_qty b k)"
    by (rule check_items_affordable [OF assms(2,4) bag])
  show ?thesis
  proof (cases "affordable b p")
    case True
    then have a: "0 \<le> pGold p + bGold b" "\<forall>k. 0 \<le> gget (pInv p) k + bundle_qty b k"
      by (simp_all add: affordable_def)
    have "applyBundleUnsafe ord1 ord2 b p = (None, p\<lparr>pGold := pGold p + bGold b, pInv := apply_items (pInv p) ord2\<rparr>)"
      using a chk ng fit(1) by (simp add: applyBundleUnsafe_def)
    then show ?thesis
      using True a q fit(1) apply_items_affordable [OF assms(2,5) bag a(2) fit(2)] by (simp add: actor_ok_def)
  next
    case False
    then show ?thesis using chk ng g
      by (cases "check_items (pInv p) ord1") (auto simp: applyBundleUnsafe_def affordable_def)
  qed
qed

text \<open>
  A grant is all or nothing. Whatever the faults of its database calls, the iteration orders and
  what other processes do in between: if \<open>ApplyGrant\<close> reports an error, the actor's state is what it
  was; if it reports that it applied, the bundle was applied in memory, exactly this state is the
  stored one with the version advanced by one, and the ledger entry for its source is new; if it
  reports a duplicate, the ledger already had the entry and this call wrote nothing.
\<close>

theorem ApplyGrant_all_or_nothing:
  assumes "ApplyGrant adm now oc1 oc2 between ord1 ord2 b source (p, Some rp) = (r, p', st')"
  shows "(\<forall>e. r = Inl e \<longrightarrow> p' = touch now p) \<and>
    (r = Inr True \<longrightarrow> (\<exists>q rp'. st' = Some rp' \<and> applyBundleUnsafe ord1 ord2 b (touch now p) = (None, q) \<and>
       p' = q\<lparr>pVersion := pVersion p + 1\<rparr> \<and> persisted p' rp' \<and>
       (source \<noteq> [] \<longrightarrow> ledger (role_db rp (pID p)) (pID p, source) = None \<and>
          ledger (role_db rp' (pID p)) (pID p, source) = Some (''grant'', b)))) \<and>
    (r = Inr False \<longrightarrow> st' = Some (between rp) \<and> ledger (role_db rp (pID p)) (pID p, source) \<noteq> None)"
proof -
  let ?p = "touch now p"
  have i: "pID ?p = pID p" "pVersion ?p = pVersion p" by (simp_all add: touch_def)
  have run: "grant_task oc1 oc2 between ord1 ord2 b source (?p, Some rp) = (r, p', st')
      \<or> (\<exists>e. r = Inl e \<and> p' = ?p)"
    using assms by (auto simp: ApplyGrant_def Invoke_def mailbox_Call_def split: if_splits admission.splits)
  have err: "p' = ?p" if "r = Inl e" for e
    using run that grant_task_error [of oc1 oc2 between ord1 ord2 b source ?p "Some rp" e p' st'] by auto
  have ok: "\<exists>q rp'. st' = Some rp' \<and> applyBundleUnsafe ord1 ord2 b ?p = (None, q) \<and>
       p' = q\<lparr>pVersion := pVersion p + 1\<rparr> \<and> persisted p' rp' \<and>
       (source \<noteq> [] \<longrightarrow> ledger (role_db rp (pID p)) (pID p, source) = None \<and>
          ledger (role_db rp' (pID p)) (pID p, source) = Some (''grant'', b))" if rT: "r = Inr True"
  proof -
    obtain q v rp' where q: "applyBundleUnsafe ord1 ord2 b ?p = (None, q)" "st' = Some rp'" "p' = q\<lparr>pVersion := v\<rparr>"
      "Repo_SaveIdempotent oc1 (pID ?p) source ''grant'' (snapshotUnsafe q) b (role_db rp (pID ?p))
        = (Inr (v, True), role_db rp' (pID ?p))"
      using run rT grant_task_applied [of oc1 oc2 between ord1 ord2 b source ?p rp p' st'] by auto
    have j: "pID ?p = pID q" "pVersion q = pVersion p"
      using applyBundle_shell [OF q(1)] applyBundle_fences [OF q(1)] i by (simp_all add: same_shell_def)
    then have "pID q = pID p" using i by simp
    with SaveIdempotent_persisted [OF q(4) [unfolded j(1)]] q(1-3) j(2) show ?thesis by auto
  qed
  have dup: "st' = Some (between rp) \<and> ledger (role_db rp (pID p)) (pID p, source) \<noteq> None" if "r = Inr False"
    using run that grant_task_duplicate [of oc1 oc2 between ord1 ord2 b source ?p rp p' st'] i by auto
  show ?thesis using err ok dup by blast
qed

text \<open>
  C6. Crash recovery. An actor whose save was acknowledged is rebuilt without loss by the next
  process that acquires the role: level, gold, bag, skills, quests and guild are the same, the
  version is the saved one, and the fencing token is strictly newer.
\<close>

theorem save_survives_restart:
  assumes "saveUnsafe oc (p, Some rp) = (None, p', Some rp')" and "pLevel p \<noteq> 0" and "0 \<le> pVersion p" and "0 < pOwnerEpoch p"
  shows "\<exists>snap rp''. RoleRepo_Acquire Done (pID p) rp' = (Inr snap, rp'') \<and>
    New now (pID p) snap = p'\<lparr>pOwnerEpoch := pOwnerEpoch p + 1, pApplied := {}, pLastActive := now, pClosed := False\<rparr> \<and>
    persisted (New now (pID p) snap) rp''"
proof -
  have p': "p' = p\<lparr>pVersion := pVersion p + 1\<rparr>" and per: "persisted p' rp'"
    using saveUnsafe_persisted [OF assms(1)] by auto
  then obtain row where row: "roles (role_db rp' (pID p)) (pID p) = Some row" "rVersion row = pVersion p + 1"
    "rOwnerEpoch row = pOwnerEpoch p" "rSnapshot row = json_Marshal (snapshotUnsafe p)" "rLevel row = pLevel p"
    by (auto simp: persisted_def)
  have live: "snapshot_live ((snapshotUnsafe p)\<lparr>snVersion := pVersion p + 1\<rparr>)"
    using assms(2-4) by (simp add: snapshot_live_def)
  let ?row = "row\<lparr>rOwnerEpoch := rOwnerEpoch row + 1\<rparr>"
  let ?snap = "(snapshotUnsafe p)\<lparr>snVersion := pVersion p + 1, snOwnerEpoch := pOwnerEpoch p + 1\<rparr>"
  have dec: "decodeRoleSnapshot (row_columns ?row) (json_Marshal (snapshotUnsafe p)) = Inr ?snap"
    using decode_marshal [OF live, where l = "pLevel p" and v = "pVersion p + 1" and e = "pOwnerEpoch p + 1"] assms(3,4) row
    by (simp add: row_columns_def)
  let ?db = "(role_db rp' (pID p))\<lparr>roles := (roles (role_db rp' (pID p)))(pID p \<mapsto> ?row)\<rparr>"
  have acq: "Repo_Acquire Done (pID p) (role_db rp' (pID p)) = (Inr ?snap, ?db)"
    using row dec by (simp add: Repo_Acquire_def)
  define rp'' where "rp'' = rp'\<lparr>pools := (pools rp')(poolFor rp' (pID p) := ?db)\<rparr>"
  have "RoleRepo_Acquire Done (pID p) rp' = (Inr ?snap, rp'')"
    using acq by (simp add: RoleRepo_Acquire_def on_pool_eq rp''_def)
  moreover have new: "New now (pID p) ?snap = p'\<lparr>pOwnerEpoch := pOwnerEpoch p + 1, pApplied := {}, pLastActive := now, pClosed := False\<rparr>"
    using assms(3,4) by (simp add: New_def p' skill_FromSnapshot_def quest_FromSnapshot_def)
  moreover have "persisted (New now (pID p) ?snap) rp''"
    unfolding new p' using row by (simp add: persisted_def rp''_def json_Marshal_def)
  ultimately show ?thesis by blast
qed

text \<open>
  The table of mutating actions is complete: a protocol frame that \<open>MutatingAct\<close> does not list never
  changes the actor, so skipping the save for it loses nothing; and a listed one changes only skills
  or quests, never gold, bag, level or guild.
\<close>

theorem Handle_changes_only_mutating:
  assumes "Handle cmd act payload p = (r, p')"
  shows "(\<not> MutatingAct cmd act \<longrightarrow> p' = p) \<and> p' = p\<lparr>pSkills := pSkills p', pQuests := pQuests p'\<rparr> \<and>
    (\<forall>e. r = Inl e \<longrightarrow> p' = p) \<and> (quest_ok (pQuests p) \<longrightarrow> quest_ok (pQuests p'))"
proof -
  have q: "quest_ok s \<Longrightarrow> quest_Accept s qid = (x, s') \<Longrightarrow> quest_ok s'" for s qid x s'
    using quest_step_ok quest_step.accept by blast
  show ?thesis
    using assms q [of "pQuests p"]
    by (auto simp: Handle_def MutatingAct_def Let_def split: if_splits prod.splits option.splits)
qed

text \<open>
  Two limits of the guards in \<open>applyBundleUnsafe\<close>: the most negative amounts have no negation, so
  their checks pass. Gold becomes negative, and the item is not taken although no error is reported.
\<close>

lemma most_negative_gold_overdraws:
  "pGold p = 0 \<Longrightarrow>
   applyBundleUnsafe [] [] \<lparr>bGold = - (2 ^ 63), bItems = []\<rparr> p = (None, p\<lparr>pGold := - (2 ^ 63)\<rparr>)"
  by (simp add: applyBundleUnsafe_def i64_def)

lemma most_negative_item_ignored:
  "pInv p = Map.empty \<Longrightarrow> pGold p = 0 \<Longrightarrow>
   applyBundleUnsafe [(k, - (2 ^ 31))] [(k, - (2 ^ 31))] \<lparr>bGold = 0, bItems = [(k, - (2 ^ 31))]\<rparr> p = (None, p)"
  by (simp add: applyBundleUnsafe_def apply_items_Cons apply_item_def bag_Remove_def i64_def i32_def)

text \<open>
  A retried grant hands the fencing token back. An actor whose role another process has acquired
  (its epoch is older than the row's) reloads the row on a duplicate source and takes over the row's
  version and epoch: its next save succeeds although it lost the ownership.
\<close>

lemma duplicate_grant_regains_fence:
  assumes "applyBundleUnsafe o1 o2 b p = (None, q)" and "src \<noteq> []"
    and "ledger (role_db rp (pID p)) (pID p, src) \<noteq> None"
    and "roles (role_db rp (pID p)) (pID p) = Some row" and "0 < rVersion row" and "0 < rOwnerEpoch row"
    and "decodeRoleSnapshot (row_columns row) (rSnapshot row) = Inr latest"
    and "pOwnerEpoch p < rOwnerEpoch row"
  shows "\<exists>p'. grant_task Done Done id o1 o2 b src (p, Some rp) = (Inr False, p', Some rp) \<and>
    pOwnerEpoch p' = rOwnerEpoch row \<and> fst (saveUnsafe Done (p', Some rp)) = None"
proof -
  have sh: "pID q = pID p" using applyBundle_shell [OF assms(1)] by (simp add: same_shell_def)
  have dup: "RoleRepo_SaveIdempotent Done (pID p) src ''grant'' (snapshotUnsafe q) b rp = (Inr (pVersion q, False), rp)"
    using assms(2,3) by (simp add: RoleRepo_SaveIdempotent_def on_pool_eq SaveIdempotent_duplicate role_db_def)
  have ld: "RoleRepo_Load Done (pID p) rp = (Inr latest, rp)"
    using assms(4,7) by (simp add: RoleRepo_Load_def on_pool_eq Repo_Load_def role_db_def)
  have fence: "snVersion latest = rVersion row" "snOwnerEpoch latest = rOwnerEpoch row"
    using decode_fences [OF assms(7)] assms(5,6) by (simp_all add: row_columns_def)
  have "fst (saveUnsafe Done (restoreUnsafe latest q, Some rp)) = None"
    using assms(4) sh fence
    by (simp add: saveUnsafe_def RoleRepo_Save_def on_pool_eq Repo_Save_def update_role_def restoreUnsafe_def)
  moreover have "grant_task Done Done id o1 o2 b src (p, Some rp) = (Inr False, restoreUnsafe latest q, Some rp)"
    using assms(1) sh dup ld by (simp add: grant_task_def)
  ultimately show ?thesis using fence by (auto simp: restoreUnsafe_def)
qed

section \<open>The properties at concrete inputs\<close>

definition demo_repo :: role_repo where
  "demo_repo = \<lparr>pools = (\<lambda>_. demo_db), npools = 1\<rparr>"

definition demo_actor :: actor where
  "demo_actor = New 0 7 (demo_snap 1 1)"

definition demo_bundle :: grant_bundle where
  "demo_bundle = \<lparr>bGold = 5, bItems = [(''gem'', 2)]\<rparr>"

lemma demo_actor_simps [simp]:
  "pGold demo_actor = 0" "pInv demo_actor = Map.empty" "pID demo_actor = 7" "pVersion demo_actor = 1"
  "pOwnerEpoch demo_actor = 1" "pLevel demo_actor = 1" "pClosed demo_actor = False" "pApplied demo_actor = {}"
  "pQuests demo_actor = \<lparr>Status = Map.empty, Prog = Map.empty\<rparr>"
  by (simp_all add: demo_actor_def New_def demo_snap_def bag_New_def quest_FromSnapshot_def)

theorem grant_accounting_witness:
  "\<exists>p'. applyBundleUnsafe [(''gem'', 2)] [(''gem'', 2)] demo_bundle demo_actor = (None, p') \<and> pGold p' = 5"
proof -
  have "affordable demo_bundle demo_actor" "actor_ok demo_actor" "bundle_ok demo_bundle"
    "fits_after demo_bundle demo_actor" "iter_order demo_bundle [(''gem'', 2)]"
    by (simp_all add: affordable_def demo_bundle_def bundle_qty_def gget_def actor_ok_def in_i64_def in_i32_def
        bundle_ok_def fits_after_def iter_order_def quest_ok_def quest_rank_def StatusNone_def)
  then show ?thesis using grant_accounting [of demo_actor demo_bundle "[(''gem'', 2)]" "[(''gem'', 2)]"]
    by (auto simp: demo_bundle_def)
qed

lemma demo_grant:
  "fst (ApplyGrant Admitted 9 Done Done id [(''gem'', 2)] [(''gem'', 2)] demo_bundle ''o1'' (demo_actor, Some demo_repo)) = Inr True"
  by (simp add: ApplyGrant_def Invoke_def mailbox_Call_def touch_def grant_task_def applyBundleUnsafe_def
      demo_bundle_def RoleRepo_SaveIdempotent_def on_pool_eq role_db_def poolFor_def indexForRole_def demo_repo_def
      demo_db_def Repo_Ensure_def empty_db_def Repo_SaveIdempotent_def update_role_def)

theorem ApplyGrant_all_or_nothing_witness:
  "\<exists>p' rp'. snd (ApplyGrant Admitted 9 Done Done id [(''gem'', 2)] [(''gem'', 2)] demo_bundle ''o1'' (demo_actor, Some demo_repo))
     = (p', Some rp') \<and> persisted p' rp'"
proof -
  obtain r p' st' where x:
    "ApplyGrant Admitted 9 Done Done id [(''gem'', 2)] [(''gem'', 2)] demo_bundle ''o1'' (demo_actor, Some demo_repo) = (r, p', st')"
    by (rule prod_cases3)
  with demo_grant have "r = Inr True" by simp
  with ApplyGrant_all_or_nothing [OF x] x show ?thesis by auto
qed

theorem save_survives_restart_witness:
  "\<exists>snap rp' rp''. saveUnsafe Done (demo_actor, Some demo_repo) = (None, demo_actor\<lparr>pVersion := 2\<rparr>, Some rp') \<and>
     RoleRepo_Acquire Done 7 rp' = (Inr snap, rp'') \<and> pVersion (New 5 7 snap) = 2"
proof -
  obtain rp' where s: "saveUnsafe Done (demo_actor, Some demo_repo) = (None, demo_actor\<lparr>pVersion := 2\<rparr>, Some rp')"
    by (simp add: saveUnsafe_def RoleRepo_Save_def on_pool_eq role_db_def poolFor_def indexForRole_def demo_repo_def
        demo_db_def Repo_Ensure_def empty_db_def Repo_Save_def update_role_def)
  show ?thesis using save_survives_restart [OF s, of 5] s by auto
qed

theorem Handle_changes_only_mutating_witness:
  "snd (Handle CmdGame ActPlayerData None demo_actor) = demo_actor"
  using Handle_changes_only_mutating [of CmdGame ActPlayerData None demo_actor
      "fst (Handle CmdGame ActPlayerData None demo_actor)" "snd (Handle CmdGame ActPlayerData None demo_actor)"]
  by (simp add: MutatingAct_def ActPlayerData_def ActSkillUpgrade_def ActQuestAccept_def)

end
