(* ===== verification/Player_Manager.thy ===== *)
theory Player_Manager
  imports Player_Actor
begin

text \<open>
  The cache of online players of one Game process (\<^verbatim>\<open>player/manager.go\<close>) and its asynchronous saver
  (\<^verbatim>\<open>player/persist.go\<close>). Actors live in a heap: the map of online players and the queue of pending
  saves hold addresses, because \<^verbatim>\<open>CompareAndDelete\<close> and the queue compare pointers and a dropped
  actor may still be in the queue.

  The striped load lock makes the slow path of \<open>Get\<close> exclusive per role, so \<open>Get\<close> is one step and the
  branch of \<^verbatim>\<open>LoadOrStore\<close> that finds another actor is not taken. Each other method is the sequence of
  steps its source has; a mailbox task is one step. Times are Unix seconds.
\<close>

section \<open>State\<close>

record saver =
  pending :: "(int \<times> nat) list"
  depth :: int
  saved :: int
  failed :: int

record manager =
  gRoles :: store
  gPlayers :: "int \<Rightarrow> nat option"
  gHeap :: "nat \<Rightarrow> actor"
  gNext :: nat
  gSaver :: "saver option"
  gShardID :: int
  gShardCount :: int

definition idleTimeout :: int where "idleTimeout = 1800"

definition NewAsyncSaver :: saver where
  "NewAsyncSaver = \<lparr>pending = [], depth = 0, saved = 0, failed = 0\<rparr>"

definition NewManager :: "store \<Rightarrow> string \<Rightarrow> int \<Rightarrow> int \<Rightarrow> actor \<Rightarrow> manager" where
  "NewManager st mode shardID shardCount junk =
     \<lparr>gRoles = st, gPlayers = Map.empty, gHeap = (\<lambda>_. junk), gNext = 0,
      gSaver = (if st \<noteq> None \<and> mode = ''async'' then Some NewAsyncSaver else None),
      gShardID = shardID, gShardCount = shardCount\<rparr>"

definition manager_Owns :: "manager \<Rightarrow> int \<Rightarrow> bool" where
  "manager_Owns m roleID \<longleftrightarrow> Owns (gShardID m) (gShardCount m) roleID"

text \<open>The heap beyond \<open>gNext\<close> is not used; \<open>junk\<close> fills it. Run a function on the actor at an address and on the store.\<close>

definition on_actor :: "nat \<Rightarrow> (actor \<times> store \<Rightarrow> 'r \<times> actor \<times> store) \<Rightarrow> manager \<Rightarrow> 'r \<times> manager" where
  "on_actor q f m =
     (let (r, a, st) = f (gHeap m q, gRoles m) in (r, m\<lparr>gHeap := (gHeap m)(q := a), gRoles := st\<rparr>))"

definition close_actor :: "nat \<Rightarrow> manager \<Rightarrow> manager" where
  "close_actor q m = m\<lparr>gHeap := (gHeap m)(q := Close (gHeap m q))\<rparr>"

section \<open>The asynchronous saver\<close>

text \<open>\<^verbatim>\<open>pending[id] = a\<close> and \<^verbatim>\<open>delete(pending, id)\<close>; the list order is the iteration order of the map.\<close>

fun put :: "int \<Rightarrow> nat \<Rightarrow> (int \<times> nat) list \<Rightarrow> (int \<times> nat) list" where
  "put k v [] = [(k, v)]"
| "put k v ((k', v') # m) = (if k = k' then (k, v) # m else (k', v') # put k v m)"

definition Schedule :: "nat \<Rightarrow> manager \<Rightarrow> manager" where
  "Schedule q m =
     (case gSaver m of
        None \<Rightarrow> m
      | Some s \<Rightarrow>
          if gRoles m = None then m
          else let p = put (pID (gHeap m q)) q (pending s)
               in m\<lparr>gSaver := Some (s\<lparr>pending := p, depth := int (length p)\<rparr>)\<rparr>)"

definition saver_Remove :: "int \<Rightarrow> manager \<Rightarrow> manager" where
  "saver_Remove roleID m =
     (case gSaver m of
        None \<Rightarrow> m
      | Some s \<Rightarrow>
          let p = filter (\<lambda>kv. fst kv \<noteq> roleID) (pending s)
          in m\<lparr>gSaver := Some (s\<lparr>pending := p, depth := int (length p)\<rparr>)\<rparr>)"

definition count_saved :: "bool \<Rightarrow> manager \<Rightarrow> manager" where
  "count_saved ok m =
     (case gSaver m of
        None \<Rightarrow> m
      | Some s \<Rightarrow> m\<lparr>gSaver := Some (if ok then s\<lparr>saved := i64 (saved s + 1)\<rparr> else s\<lparr>failed := i64 (failed s + 1)\<rparr>)\<rparr>)"

definition actor_Save :: "admission \<Rightarrow> outcome \<Rightarrow> nat \<Rightarrow> manager \<Rightarrow> unit res \<times> manager" where
  "actor_Save adm oc q = on_actor q (Save adm oc)"

text \<open>The workers of \<open>flushAll\<close> drain the batch; \<open>jobs\<close> is the order in which the saves happen.\<close>

fun flush_jobs :: "(nat \<Rightarrow> admission) \<Rightarrow> (nat \<Rightarrow> outcome) \<Rightarrow> nat list \<Rightarrow> manager \<Rightarrow> manager" where
  "flush_jobs adm oc [] m = m"
| "flush_jobs adm oc (q # qs) m =
     (case actor_Save (adm (length qs)) (oc (length qs)) q m of
        (Inl e, m) \<Rightarrow>
          if e = ErrClosed then flush_jobs adm oc qs m
          else flush_jobs adm oc qs (Schedule q (count_saved False m))
      | (Inr _, m) \<Rightarrow> flush_jobs adm oc qs (count_saved True m))"

definition flushAll :: "(nat \<Rightarrow> admission) \<Rightarrow> (nat \<Rightarrow> outcome) \<Rightarrow> (nat list \<Rightarrow> nat list) \<Rightarrow> manager \<Rightarrow> manager" where
  "flushAll adm oc order m =
     (case gSaver m of
        None \<Rightarrow> m
      | Some s \<Rightarrow>
          let batch = map snd (pending s);
              m = m\<lparr>gSaver := Some (s\<lparr>pending := [], depth := 0\<rparr>)\<rparr>
          in if batch = [] then m else flush_jobs adm oc (order batch) m)"

definition FlushNow :: "admission \<Rightarrow> outcome \<Rightarrow> nat \<Rightarrow> manager \<Rightarrow> unit res \<times> manager" where
  "FlushNow adm oc q m =
     (case actor_Save adm oc q (saver_Remove (pID (gHeap m q)) m) of
        (Inl e, m) \<Rightarrow> (Inl e, Schedule q m)
      | (Inr u, m) \<Rightarrow> (Inr u, m))"

definition QueueDepth :: "manager \<Rightarrow> int" where
  "QueueDepth m = (case gSaver m of None \<Rightarrow> 0 | Some s \<Rightarrow> depth s)"

section \<open>Lookup and eviction\<close>

definition manager_Get :: "outcome \<Rightarrow> int \<Rightarrow> int \<Rightarrow> manager \<Rightarrow> nat res \<times> manager" where
  "manager_Get oc now roleID m =
     (if roleID \<le> 0 then (Inl (ErrMsg ''invalid role id''), m)
      else if \<not> manager_Owns m roleID then (Inl ErrWrongShard, m)
      else case gPlayers m roleID of
             Some q \<Rightarrow> (Inr q, m)
           | None \<Rightarrow>
               (let (snap, st) =
                  (case gRoles m of
                     None \<Rightarrow> (Inr (zero_snapshot\<lparr>snLevel := 1, snVersion := 1, snOwnerEpoch := 1\<rparr>), None)
                   | Some rp \<Rightarrow> (let (r, rp') = RoleRepo_Acquire oc roleID rp in (r, Some rp')))
                in case snap of
                     Inl e \<Rightarrow> (Inl e, m\<lparr>gRoles := st\<rparr>)
                   | Inr snap \<Rightarrow>
                       (Inr (gNext m),
                        m\<lparr>gRoles := st, gHeap := (gHeap m)(gNext m := New now roleID snap),
                          gPlayers := (gPlayers m)(roleID \<mapsto> gNext m), gNext := gNext m + 1\<rparr>)))"

definition dropIfStale :: "int \<Rightarrow> nat \<Rightarrow> 'r res \<Rightarrow> manager \<Rightarrow> manager" where
  "dropIfStale roleID q r m =
     (if (case r of Inl e \<Rightarrow> e = ErrStaleRole | Inr _ \<Rightarrow> False) \<and> gPlayers m roleID = Some q
      then close_actor q (m\<lparr>gPlayers := (gPlayers m)(roleID := None)\<rparr>)
      else m)"

section \<open>Operations on a player\<close>

text \<open>A mutation that must be stored before it counts: restore the actor unless the save succeeds.\<close>

definition saved_task :: "(actor \<times> store \<Rightarrow> err option \<times> actor \<times> store) \<Rightarrow> (actor \<Rightarrow> 'r res \<times> actor) \<Rightarrow> actor \<times> store
    \<Rightarrow> 'r res \<times> actor \<times> store" where
  "saved_task save fn s =
     (let (a, st) = s; before = snapshotUnsafe a in
      case fn a of
        (Inl e, a) \<Rightarrow> (Inl e, restoreUnsafe before a, st)
      | (Inr r, a) \<Rightarrow>
          (case save (a, st) of
             (Some e, a, st) \<Rightarrow> (Inl e, restoreUnsafe before a, st)
           | (None, a, st) \<Rightarrow> (Inr r, a, st)))"

definition handle_task :: "outcome \<Rightarrow> 16 word \<Rightarrow> 16 word \<Rightarrow> body \<Rightarrow> actor \<times> store \<Rightarrow> reply res \<times> actor \<times> store" where
  "handle_task oc cmd act payload s =
     (let (a, st) = s; before = snapshotUnsafe a in
      case Handle cmd act payload a of
        (Inl e, a) \<Rightarrow> (Inl e, a, st)
      | (Inr r, a) \<Rightarrow>
          if \<not> MutatingAct cmd act then (Inr r, a, st)
          else (case saveUnsafe oc (a, st) of
                  (Some e, a, st) \<Rightarrow> (Inl e, restoreUnsafe before a, st)
                | (None, a, st) \<Rightarrow> (Inr r, a, st)))"

definition HandleMsg :: "outcome \<Rightarrow> admission \<Rightarrow> outcome \<Rightarrow> int \<Rightarrow> int \<Rightarrow> 16 word \<Rightarrow> 16 word \<Rightarrow> body \<Rightarrow> manager \<Rightarrow> reply res \<times> manager" where
  "HandleMsg ocg adm oc now roleID cmd act payload m =
     (case manager_Get ocg now roleID m of
        (Inl e, m) \<Rightarrow> (Inl e, m)
      | (Inr q, m) \<Rightarrow>
          let m = (if MutatingAct cmd act then saver_Remove roleID m else m);
              (r, m) = on_actor q (Invoke adm now (handle_task oc cmd act payload)) m
          in (r, dropIfStale roleID q r m))"

definition WithPlayer :: "outcome \<Rightarrow> admission \<Rightarrow> int \<Rightarrow> int \<Rightarrow> (actor \<Rightarrow> 'r res \<times> actor) \<Rightarrow> manager \<Rightarrow> 'r res \<times> manager" where
  "WithPlayer ocg adm now roleID fn m =
     (case manager_Get ocg now roleID m of
        (Inl e, m) \<Rightarrow> (Inl e, m)
      | (Inr q, m) \<Rightarrow>
          let (r, m) = on_actor q (Invoke adm now (\<lambda>(a, st). let (r, a) = fn a in (r, a, st))) m
          in (r, dropIfStale roleID q r m))"

definition WithPlayerSaved :: "outcome \<Rightarrow> admission \<Rightarrow> outcome \<Rightarrow> int \<Rightarrow> int \<Rightarrow> (actor \<Rightarrow> 'r res \<times> actor) \<Rightarrow> manager \<Rightarrow> 'r res \<times> manager" where
  "WithPlayerSaved ocg adm oc now roleID fn m =
     (case manager_Get ocg now roleID m of
        (Inl e, m) \<Rightarrow> (Inl e, m)
      | (Inr q, m) \<Rightarrow>
          let (r, m) = on_actor q (Invoke adm now (saved_task (saveUnsafe oc) fn)) (saver_Remove roleID m)
          in (r, dropIfStale roleID q r m))"

text \<open>The event of \<open>WithPlayerOutbox\<close> is what the mutation returns.\<close>

definition outbox_task :: "outcome \<Rightarrow> int \<Rightarrow> (actor \<Rightarrow> outbox_event res \<times> actor) \<Rightarrow> actor \<times> store \<Rightarrow> unit res \<times> actor \<times> store" where
  "outbox_task oc now fn s =
     (let (a, st) = s; before = snapshotUnsafe a in
      case fn a of
        (Inl e, a) \<Rightarrow> (Inl e, restoreUnsafe before a, st)
      | (Inr event, a) \<Rightarrow>
          (case saveWithOutboxUnsafe oc now event (a, st) of
             (Some e, a, st) \<Rightarrow> (Inl e, restoreUnsafe before a, st)
           | (None, a, st) \<Rightarrow> (Inr (), a, st)))"

definition WithPlayerOutbox :: "outcome \<Rightarrow> admission \<Rightarrow> outcome \<Rightarrow> int \<Rightarrow> int \<Rightarrow> (actor \<Rightarrow> outbox_event res \<times> actor) \<Rightarrow> manager \<Rightarrow> unit res \<times> manager" where
  "WithPlayerOutbox ocg adm oc now roleID fn m =
     (case manager_Get ocg now roleID m of
        (Inl e, m) \<Rightarrow> (Inl e, m)
      | (Inr q, m) \<Rightarrow>
          let (r, m) = on_actor q (Invoke adm now (outbox_task oc now fn)) (saver_Remove roleID m)
          in (r, dropIfStale roleID q r m))"

definition manager_ApplyGrant :: "outcome \<Rightarrow> admission \<Rightarrow> int \<Rightarrow> outcome \<Rightarrow> outcome \<Rightarrow> (role_repo \<Rightarrow> role_repo) \<Rightarrow> (string \<times> int) list
    \<Rightarrow> (string \<times> int) list \<Rightarrow> int \<Rightarrow> grant_bundle \<Rightarrow> string \<Rightarrow> manager \<Rightarrow> (nat \<times> bool) res \<times> manager" where
  "manager_ApplyGrant ocg adm now oc1 oc2 between ord1 ord2 roleID b source m =
     (case manager_Get ocg now roleID m of
        (Inl e, m) \<Rightarrow> (Inl e, m)
      | (Inr q, m) \<Rightarrow>
          let (r, m) = on_actor q (ApplyGrant adm now oc1 oc2 between ord1 ord2 b source) m
          in (map_sum id (\<lambda>applied. (q, applied)) r, dropIfStale roleID q r m))"

section \<open>Saving and unloading\<close>

definition ScheduleSave :: "outcome \<Rightarrow> int \<Rightarrow> manager \<Rightarrow> manager" where
  "ScheduleSave oc roleID m =
     (case gPlayers m roleID of
        None \<Rightarrow> m
      | Some q \<Rightarrow> if gSaver m \<noteq> None then Schedule q m else snd (actor_Save Admitted oc q m))"

definition flush_or_save :: "admission \<Rightarrow> outcome \<Rightarrow> nat \<Rightarrow> manager \<Rightarrow> unit res \<times> manager" where
  "flush_or_save adm oc q m = (if gSaver m \<noteq> None then FlushNow adm oc q m else actor_Save adm oc q m)"

definition SaveNow :: "outcome \<Rightarrow> admission \<Rightarrow> outcome \<Rightarrow> int \<Rightarrow> int \<Rightarrow> manager \<Rightarrow> unit res \<times> manager" where
  "SaveNow ocg adm oc now roleID m =
     (case manager_Get ocg now roleID m of
        (Inl e, m) \<Rightarrow> (Inl e, m)
      | (Inr q, m) \<Rightarrow> let (r, m) = flush_or_save adm oc q m in (r, dropIfStale roleID q r m))"

definition SaveNowWithOutbox :: "outcome \<Rightarrow> admission \<Rightarrow> outcome \<Rightarrow> int \<Rightarrow> int \<Rightarrow> outbox_event \<Rightarrow> manager \<Rightarrow> unit res \<times> manager" where
  "SaveNowWithOutbox ocg adm oc now roleID event m =
     (case manager_Get ocg now roleID m of
        (Inl e, m) \<Rightarrow> (Inl e, m)
      | (Inr q, m) \<Rightarrow>
          let (r, m) = on_actor q (SaveWithOutbox adm oc now event) (saver_Remove (pID (gHeap m q)) m)
          in (r, dropIfStale roleID q r m))"

text \<open>\<^verbatim>\<open>CompareAndDelete(roleID, a)\<close> followed by \<^verbatim>\<open>a.Close()\<close> on success.\<close>

definition unload :: "int \<Rightarrow> nat \<Rightarrow> manager \<Rightarrow> manager" where
  "unload roleID q m =
     (if gPlayers m roleID = Some q then close_actor q (m\<lparr>gPlayers := (gPlayers m)(roleID := None)\<rparr>) else m)"

definition Logout :: "admission \<Rightarrow> outcome \<Rightarrow> int \<Rightarrow> manager \<Rightarrow> unit res \<times> manager" where
  "Logout adm oc roleID m =
     (case gPlayers m roleID of
        None \<Rightarrow> (Inr (), m)
      | Some q \<Rightarrow>
          (case flush_or_save adm oc q m of
             (Inl e, m) \<Rightarrow> (Inl e, dropIfStale roleID q (Inl e :: unit res) m)
           | (Inr u, m) \<Rightarrow> (Inr u, unload roleID q m)))"

text \<open>One tick of \<open>evictLoop\<close>; \<open>rs\<close> is the order of \<^verbatim>\<open>Range\<close>.\<close>

fun evict :: "int \<Rightarrow> (int \<Rightarrow> admission) \<Rightarrow> (int \<Rightarrow> outcome) \<Rightarrow> int list \<Rightarrow> manager \<Rightarrow> manager" where
  "evict now adm oc [] m = m"
| "evict now adm oc (k # rs) m =
     evict now adm oc rs
       (case gPlayers m k of
          None \<Rightarrow> m
        | Some q \<Rightarrow>
            if pLastActive (gHeap m q) < now - idleTimeout then
              let (r, m) = flush_or_save (adm k) (oc k) q m in
              if r = Inr () \<and> pLastActive (gHeap m q) < now - idleTimeout \<and> gPlayers m k = Some q
              then unload k q m
              else dropIfStale k q r m
            else m)"

fun stop_players :: "(int \<Rightarrow> admission) \<Rightarrow> (int \<Rightarrow> outcome) \<Rightarrow> int list \<Rightarrow> manager \<Rightarrow> manager" where
  "stop_players adm oc [] m = m"
| "stop_players adm oc (k # rs) m =
     stop_players adm oc rs
       (case gPlayers m k of
          None \<Rightarrow> m
        | Some q \<Rightarrow>
            close_actor q (snd (actor_Save (adm k) (oc k) q (m\<lparr>gPlayers := (gPlayers m)(k := None)\<rparr>))))"

definition FlushAll :: "(nat \<Rightarrow> admission) \<Rightarrow> (nat \<Rightarrow> outcome) \<Rightarrow> (nat list \<Rightarrow> nat list) \<Rightarrow> manager \<Rightarrow> manager" where
  "FlushAll adm oc order m = flushAll adm oc order m"

text \<open>
  \<open>StopAndFlush\<close> cancels the context first: \<open>Run\<close> of the saver flushes a last time and ends.
\<close>

definition saver_Run_final :: "(nat \<Rightarrow> admission) \<Rightarrow> (nat \<Rightarrow> outcome) \<Rightarrow> (nat list \<Rightarrow> nat list) \<Rightarrow> manager \<Rightarrow> manager" where
  "saver_Run_final adm oc order m = flushAll adm oc order m"

definition StopAndFlush :: "(nat \<Rightarrow> admission) \<Rightarrow> (nat \<Rightarrow> outcome) \<Rightarrow> (nat list \<Rightarrow> nat list) \<Rightarrow> (int \<Rightarrow> admission) \<Rightarrow> (int \<Rightarrow> outcome) \<Rightarrow> int list
    \<Rightarrow> manager \<Rightarrow> manager" where
  "StopAndFlush adm oc order adm' oc' rs m =
     stop_players adm' oc' rs (FlushAll adm oc order (saver_Run_final adm oc order m))"

section \<open>The interface of a transactional task\<close>

text \<open>
  What the manager needs of a mailbox task that changes a player: an error leaves the actor as it was,
  a success means that the actor's state is the stored one, and identity and mailbox never change.
\<close>

locale transactional_task =
  fixes task :: "actor \<times> store \<Rightarrow> 'r res \<times> actor \<times> store"
  assumes rollback: "task (a, st) = (Inl e, a', st') \<Longrightarrow> a' = a"
    and commit: "task (a, Some rp) = (Inr r, a', st') \<Longrightarrow> \<exists>rp'. st' = Some rp' \<and> persisted a' rp'"
    and keeps_shell: "task (a, st) = (x, a', st') \<Longrightarrow> same_shell a a'"
    and keeps_store: "task (a, st) = (x, a', st') \<Longrightarrow> st' = None \<longleftrightarrow> st = None"

definition with_task :: "outcome \<Rightarrow> admission \<Rightarrow> int \<Rightarrow> int \<Rightarrow> (actor \<times> store \<Rightarrow> 'r res \<times> actor \<times> store) \<Rightarrow> manager \<Rightarrow> 'r res \<times> manager" where
  "with_task ocg adm now roleID task m =
     (case manager_Get ocg now roleID m of
        (Inl e, m) \<Rightarrow> (Inl e, m)
      | (Inr q, m) \<Rightarrow>
          let (r, m) = on_actor q (Invoke adm now task) (saver_Remove roleID m)
          in (r, dropIfStale roleID q r m))"

lemma with_task_eqs:
  "WithPlayerSaved ocg adm oc now roleID fn m = with_task ocg adm now roleID (saved_task (saveUnsafe oc) fn) m"
  "WithPlayerOutbox ocg adm oc now roleID ev m = with_task ocg adm now roleID (outbox_task oc now ev) m"
  "MutatingAct cmd act \<Longrightarrow>
     HandleMsg ocg adm oc now roleID cmd act payload m = with_task ocg adm now roleID (handle_task oc cmd act payload) m"
  by (simp_all add: WithPlayerSaved_def WithPlayerOutbox_def HandleMsg_def with_task_def split: prod.splits sum.splits)

lemma saver_Remove_simps [simp]:
  "gRoles (saver_Remove r m) = gRoles m" "gPlayers (saver_Remove r m) = gPlayers m" "gHeap (saver_Remove r m) = gHeap m"
  "gNext (saver_Remove r m) = gNext m" "gShardID (saver_Remove r m) = gShardID m" "gShardCount (saver_Remove r m) = gShardCount m"
  by (simp_all add: saver_Remove_def Let_def split: option.splits)

lemma Schedule_simps [simp]:
  "gRoles (Schedule q m) = gRoles m" "gPlayers (Schedule q m) = gPlayers m" "gHeap (Schedule q m) = gHeap m"
  "gNext (Schedule q m) = gNext m" "gShardID (Schedule q m) = gShardID m" "gShardCount (Schedule q m) = gShardCount m"
  by (simp_all add: Schedule_def Let_def split: option.splits)

lemma count_saved_simps [simp]:
  "gRoles (count_saved b m) = gRoles m" "gPlayers (count_saved b m) = gPlayers m" "gHeap (count_saved b m) = gHeap m"
  "gNext (count_saved b m) = gNext m" "gShardID (count_saved b m) = gShardID m" "gShardCount (count_saved b m) = gShardCount m"
  by (simp_all add: count_saved_def split: option.splits)

lemma manager_Get_cached: "0 < r \<Longrightarrow> manager_Owns m r \<Longrightarrow> gPlayers m r = Some q \<Longrightarrow> manager_Get oc now r m = (Inr q, m)"
  by (simp add: manager_Get_def)

lemma manager_Get_Inr:
  "manager_Get oc now r m = (Inr q, m') \<Longrightarrow> gPlayers m' r = Some q \<and> 0 < r \<and> manager_Owns m r"
  by (auto simp: manager_Get_def split: if_splits option.splits prod.splits sum.splits)

lemma manager_Get_store: "manager_Get oc now r m = (x, m') \<Longrightarrow> gRoles m' = None \<longleftrightarrow> gRoles m = None"
  by (auto simp: manager_Get_def split: if_splits option.splits prod.splits sum.splits)

context transactional_task
begin

lemma invoke_cases:
  assumes "Invoke adm now task (a, st) = (x, a', st')"
  shows "(task (touch now a, st) = (x, a', st')) \<or> ((x = Inl ErrClosed \<or> x = Inl ErrContext) \<and> a' = touch now a \<and> st' = st)"
  using assms by (auto simp: Invoke_def mailbox_Call_def split: if_splits admission.splits)

lemma invoke_shell:
  assumes "Invoke adm now task (a, st) = (x, a', st')"
  shows "pID a' = pID a \<and> pClosed a' = pClosed a \<and> (st' = None \<longleftrightarrow> st = None)"
  using invoke_cases [OF assms] keeps_shell keeps_store by (fastforce simp: same_shell_def touch_def)

text \<open>An acknowledged change is stored.\<close>

lemma ack_durable:
  assumes "with_task ocg adm now roleID task m = (Inr r, m')" and "gRoles m \<noteq> None"
  shows "\<exists>q rp'. gPlayers m' roleID = Some q \<and> gRoles m' = Some rp' \<and> persisted (gHeap m' q) rp'"
proof -
  obtain q m1 where g: "manager_Get ocg now roleID m = (Inr q, m1)"
    using assms(1) by (auto simp: with_task_def split: prod.splits sum.splits)
  obtain x a st where iv: "Invoke adm now task (gHeap m1 q, gRoles m1) = (x, a, st)" by (rule prod_cases3)
  have x: "x = Inr r" and m': "m' = (saver_Remove roleID m1)\<lparr>gHeap := (gHeap m1)(q := a), gRoles := st\<rparr>"
    using assms(1) g iv by (auto simp: with_task_def on_actor_def dropIfStale_def split: sum.splits)
  obtain rp where rp: "gRoles m1 = Some rp" using manager_Get_store [OF g] assms(2) by auto
  have "task (touch now (gHeap m1 q), Some rp) = (Inr r, a, st)" using invoke_cases [OF iv] x rp by auto
  from commit [OF this] show ?thesis using manager_Get_Inr [OF g] m' by auto
qed

text \<open>A refused change leaves the cached actor as it was; a stale owner leaves the cache.\<close>

lemma refused_unchanged:
  assumes "with_task ocg adm now roleID task m = (Inl e, m')" and "manager_Get ocg now roleID m = (Inr q, m1)"
  shows "snapshotUnsafe (gHeap m' q) = snapshotUnsafe (gHeap m1 q) \<and>
    (if e = ErrStaleRole then gPlayers m' roleID = None \<and> pClosed (gHeap m' q) else gPlayers m' = gPlayers m1)"
proof -
  obtain x a st where iv: "Invoke adm now task (gHeap m1 q, gRoles m1) = (x, a, st)" by (rule prod_cases3)
  let ?m = "(saver_Remove roleID m1)\<lparr>gHeap := (gHeap m1)(q := a), gRoles := st\<rparr>"
  have x: "x = Inl e" and m': "m' = dropIfStale roleID q x ?m"
    using assms iv by (auto simp: with_task_def on_actor_def)
  have "a = touch now (gHeap m1 q)"
    using invoke_cases [OF iv] rollback x by fastforce
  then have "snapshotUnsafe a = snapshotUnsafe (gHeap m1 q)" by (simp add: snapshotUnsafe_def touch_def)
  then show ?thesis
    using manager_Get_Inr [OF assms(2)] x m'
    by (auto simp: dropIfStale_def close_actor_def Close_def snapshotUnsafe_def)
qed

end

section \<open>The tasks of the manager are transactional\<close>

lemma same_shell_sym: "same_shell a b \<Longrightarrow> same_shell b a"
  by (simp add: same_shell_def)

lemma same_shell_trans: "same_shell a b \<Longrightarrow> same_shell b c \<Longrightarrow> same_shell a c"
  by (simp add: same_shell_def)

lemma same_shell_version [simp]: "same_shell a (b\<lparr>pVersion := v\<rparr>) = same_shell a b"
  by (simp add: same_shell_def)

lemma saveUnsafe_result:
  assumes "saveUnsafe oc (a, st) = (x, a', st')"
  shows "same_shell a a' \<and> (st' = None \<longleftrightarrow> st = None) \<and> (\<forall>e. x = Some e \<longrightarrow> a' = a)"
  using assms by (auto simp: saveUnsafe_def same_shell_def split: option.splits prod.splits sum.splits)

lemma saveWithOutboxUnsafe_result:
  assumes "saveWithOutboxUnsafe oc now ev (a, st) = (x, a', st')"
  shows "same_shell a a' \<and> (st' = None \<longleftrightarrow> st = None) \<and> (\<forall>e. x = Some e \<longrightarrow> a' = a)"
  using assms by (auto simp: saveWithOutboxUnsafe_def same_shell_def split: option.splits prod.splits sum.splits)

lemma saveWithOutboxUnsafe_persisted:
  assumes "saveWithOutboxUnsafe oc now ev (p, Some rp) = (None, p', st')"
  shows "\<exists>rp'. st' = Some rp' \<and> persisted p' rp' \<and> p' = p\<lparr>pVersion := pVersion p + 1\<rparr> \<and>
    EventID ev \<in> EventID ` oEvent ` set (outbox (role_db rp' (pID p)))"
proof -
  obtain v rp' where s: "RoleRepo_SaveWithOutbox oc now (pID p) (snapshotUnsafe p) ev rp = (Inr v, rp')"
    and r: "p' = p\<lparr>pVersion := v\<rparr>" "st' = Some rp'"
    using assms by (auto simp: saveWithOutboxUnsafe_def split: prod.splits sum.splits)
  have so: "Repo_SaveWithOutbox oc now (pID p) (snapshotUnsafe p) ev (role_db rp (pID p)) = (Inr v, role_db rp' (pID p))"
    by (rule on_pool_Inr [OF s [unfolded RoleRepo_SaveWithOutbox_def]])
  then obtain db1 where u: "update_role (pID p) (snapshotUnsafe p) (role_db rp (pID p)) = Some (v, db1)"
    and db: "role_db rp' (pID p) = insert_outbox now (ev\<lparr>AggregateVersion := v\<rparr>) db1"
    by (auto simp: Repo_SaveWithOutbox_def store_call_Inr split: if_splits option.splits)
  have "EventID ev \<in> EventID ` oEvent ` set (outbox (role_db rp' (pID p)))"
    unfolding db by (auto simp: insert_outbox_def image_iff)
  then show ?thesis using update_role_persisted [OF u, of rp'] r db by auto
qed

definition mutation :: "(actor \<Rightarrow> 'r res \<times> actor) \<Rightarrow> bool" where
  "mutation fn \<longleftrightarrow> (\<forall>a. same_shell a (snd (fn a)))"

lemma mutationD: "mutation fn \<Longrightarrow> fn a = (r, a') \<Longrightarrow> same_shell a a'"
  by (metis mutation_def snd_conv)

lemma restore_shell: "same_shell a b \<Longrightarrow> same_shell a (restoreUnsafe s b)"
  by (simp add: same_shell_def restoreUnsafe_def)

lemma saved_task_transactional:
  assumes "mutation fn"
  shows "transactional_task (saved_task (saveUnsafe oc) fn)"
proof
  fix a st e a' st'
  assume "saved_task (saveUnsafe oc) fn (a, st) = (Inl e, a', st')"
  then show "a' = a"
    using mutationD [OF assms]
    by (auto simp: saved_task_def Let_def dest!: saveUnsafe_result intro!: restore_snapshot split: prod.splits sum.splits option.splits)
next
  fix a rp r a' st'
  assume "saved_task (saveUnsafe oc) fn (a, Some rp) = (Inr r, a', st')"
  then show "\<exists>rp'. st' = Some rp' \<and> persisted a' rp'"
    by (auto simp: saved_task_def Let_def dest!: saveUnsafe_persisted split: prod.splits sum.splits option.splits)
next
  fix a st x a' st'
  assume "saved_task (saveUnsafe oc) fn (a, st) = (x, a', st')"
  then show "same_shell a a'"
    using mutationD [OF assms]
    by (auto simp: saved_task_def Let_def dest!: saveUnsafe_result intro: restore_shell same_shell_trans split: prod.splits sum.splits option.splits)
next
  fix a st x a' st'
  assume "saved_task (saveUnsafe oc) fn (a, st) = (x, a', st')"
  then show "st' = None \<longleftrightarrow> st = None"
    by (auto simp: saved_task_def Let_def dest!: saveUnsafe_result split: prod.splits sum.splits option.splits)
qed

lemma outbox_task_transactional:
  assumes "mutation fn"
  shows "transactional_task (outbox_task oc now fn)"
proof
  fix a st e a' st'
  assume "outbox_task oc now fn (a, st) = (Inl e, a', st')"
  then show "a' = a"
    using mutationD [OF assms]
    by (auto simp: outbox_task_def Let_def dest!: saveWithOutboxUnsafe_result intro!: restore_snapshot split: prod.splits sum.splits option.splits)
next
  fix a rp r a' st'
  assume "outbox_task oc now fn (a, Some rp) = (Inr r, a', st')"
  then show "\<exists>rp'. st' = Some rp' \<and> persisted a' rp'"
    by (auto simp: outbox_task_def Let_def dest!: saveWithOutboxUnsafe_persisted split: prod.splits sum.splits option.splits)
next
  fix a st x a' st'
  assume "outbox_task oc now fn (a, st) = (x, a', st')"
  then show "same_shell a a'"
    using mutationD [OF assms]
    by (auto simp: outbox_task_def Let_def dest!: saveWithOutboxUnsafe_result intro: restore_shell same_shell_trans split: prod.splits sum.splits option.splits)
next
  fix a st x a' st'
  assume "outbox_task oc now fn (a, st) = (x, a', st')"
  then show "st' = None \<longleftrightarrow> st = None"
    by (auto simp: outbox_task_def Let_def dest!: saveWithOutboxUnsafe_result split: prod.splits sum.splits option.splits)
qed

lemma Handle_shell: "Handle cmd act payload a = (r, a') \<Longrightarrow> same_shell a a'"
  by (auto simp: Handle_def same_shell_def Let_def split: if_splits prod.splits option.splits)

lemma Handle_error: "Handle cmd act payload a = (Inl e, a') \<Longrightarrow> a' = a"
  by (auto simp: Handle_def Let_def split: if_splits prod.splits option.splits)

lemma handle_task_shell:
  "handle_task oc cmd act payload (a, st) = (x, a', st') \<Longrightarrow> same_shell a a' \<and> (st' = None \<longleftrightarrow> st = None)"
  by (auto simp: handle_task_def dest!: saveUnsafe_result Handle_shell intro: restore_shell same_shell_trans
      split: prod.splits sum.splits option.splits if_splits)

lemma handle_task_transactional:
  assumes "MutatingAct cmd act"
  shows "transactional_task (handle_task oc cmd act payload)"
proof
  fix a st e a' st'
  assume "handle_task oc cmd act payload (a, st) = (Inl e, a', st')"
  then show "a' = a"
    using Handle_error
    by (auto simp: handle_task_def dest!: saveUnsafe_result dest: Handle_shell intro!: restore_snapshot
        split: prod.splits sum.splits option.splits if_splits)
next
  fix a rp r a' st'
  assume "handle_task oc cmd act payload (a, Some rp) = (Inr r, a', st')"
  then show "\<exists>rp'. st' = Some rp' \<and> persisted a' rp'"
    using assms by (auto simp: handle_task_def dest!: saveUnsafe_persisted split: prod.splits sum.splits option.splits)
qed (use handle_task_shell in blast)+

text \<open>The two mutating protocol actions are such tasks.\<close>

interpretation skill_upgrade: transactional_task "handle_task oc CmdGame ActSkillUpgrade payload"
  by (rule handle_task_transactional) (simp add: MutatingAct_def)

interpretation quest_accept: transactional_task "handle_task oc CmdGame ActQuestAccept payload"
  by (rule handle_task_transactional) (simp add: MutatingAct_def)

section \<open>The invariant of the manager\<close>

definition players_ok :: "manager \<Rightarrow> bool" where
  "players_ok m \<longleftrightarrow> (\<forall>r q. gPlayers m r = Some q \<longrightarrow>
     q < gNext m \<and> pID (gHeap m q) = r \<and> \<not> pClosed (gHeap m q) \<and> 0 < r \<and> manager_Owns m r)"

definition pending_ok :: "manager \<Rightarrow> bool" where
  "pending_ok m \<longleftrightarrow> (\<forall>s. gSaver m = Some s \<longrightarrow> distinct (map fst (pending s)) \<and> depth s = int (length (pending s)) \<and>
     (\<forall>(r, q) \<in> set (pending s). q < gNext m \<and> pID (gHeap m q) = r))"

definition manager_ok :: "manager \<Rightarrow> bool" where
  "manager_ok m \<longleftrightarrow> players_ok m \<and> pending_ok m"

definition keeps_actor :: "(actor \<times> store \<Rightarrow> 'r \<times> actor \<times> store) \<Rightarrow> bool" where
  "keeps_actor f \<longleftrightarrow> (\<forall>a st. pID (fst (snd (f (a, st)))) = pID a \<and> pClosed (fst (snd (f (a, st)))) = pClosed a)"

lemma manager_ok_on_actor:
  assumes "manager_ok m" and "keeps_actor f"
  shows "manager_ok (snd (on_actor q f m))"
proof -
  obtain r a st where f: "f (gHeap m q, gRoles m) = (r, a, st)" by (rule prod_cases3)
  have "pID a = pID (gHeap m q)" "pClosed a = pClosed (gHeap m q)"
    using assms(2) f unfolding keeps_actor_def by (metis fst_conv snd_conv)+
  then show ?thesis
    using assms(1) f by (auto simp: manager_ok_def players_ok_def pending_ok_def on_actor_def manager_Owns_def)
qed

lemma on_actor_simps [simp]:
  "gPlayers (snd (on_actor q f m)) = gPlayers m" "gNext (snd (on_actor q f m)) = gNext m"
  "gSaver (snd (on_actor q f m)) = gSaver m"
  by (simp_all add: on_actor_def split: prod.splits)

lemma manager_ok_Get:
  assumes "manager_ok m"
  shows "manager_ok (snd (manager_Get oc now r m))"
proof (cases "0 < r \<and> manager_Owns m r \<and> gPlayers m r = None")
  case False
  then show ?thesis using assms by (auto simp: manager_Get_def split: option.splits)
next
  case True
  have new: "manager_ok (m\<lparr>gRoles := st, gHeap := (gHeap m)(gNext m := New now r snap),
      gPlayers := (gPlayers m)(r \<mapsto> gNext m), gNext := gNext m + 1\<rparr>)" for st snap
    using assms True
    by (fastforce simp: manager_ok_def players_ok_def pending_ok_def manager_Owns_def New_def)
  have same: "manager_ok (m\<lparr>gRoles := st\<rparr>)" for st
    using assms by (auto simp: manager_ok_def players_ok_def pending_ok_def manager_Owns_def)
  show ?thesis using True new same
    by (auto simp: manager_Get_def split: option.splits prod.splits sum.splits)
qed

lemma Get_pointer: "manager_ok m \<Longrightarrow> manager_Get oc now r m = (Inr q, m') \<Longrightarrow> q < gNext m' \<and> pID (gHeap m' q) = r"
  using manager_ok_Get [of m oc now r] manager_Get_Inr [of oc now r m q m']
  by (auto simp: manager_ok_def players_ok_def)

lemma manager_ok_unload:
  assumes "manager_ok m"
  shows "manager_ok (unload r q m)"
proof (cases "gPlayers m r = Some q")
  case True
  have other: "q' \<noteq> q" if "gPlayers m r' = Some q'" "r' \<noteq> r" for r' q'
    using assms True that by (auto simp: manager_ok_def players_ok_def)
  show ?thesis using assms True other
    by (fastforce simp: unload_def close_actor_def Close_def manager_ok_def players_ok_def pending_ok_def manager_Owns_def)
qed (use assms in \<open>simp add: unload_def\<close>)

lemma manager_ok_close: "manager_ok m \<Longrightarrow> (\<And>r. gPlayers m r \<noteq> Some q) \<Longrightarrow> manager_ok (close_actor q m)"
  by (auto simp: close_actor_def Close_def manager_ok_def players_ok_def pending_ok_def manager_Owns_def)

lemma dropIfStale_unload: "dropIfStale r q x m = m \<or> dropIfStale r q x m = unload r q m"
  by (simp add: dropIfStale_def unload_def)

lemma manager_ok_drop: "manager_ok m \<Longrightarrow> manager_ok (dropIfStale r q x m)"
  using dropIfStale_unload [of r q x m] manager_ok_unload by metis

lemma put_keys: "fst ` set (put k v xs) = insert k (fst ` set xs)"
  by (induction k v xs rule: put.induct) auto

lemma set_put: "set (put k v xs) \<subseteq> insert (k, v) (set xs)"
  by (induction k v xs rule: put.induct) auto

lemma put_mem: "(k, v) \<in> set (put k v xs)"
  by (induction k v xs rule: put.induct) auto

lemma distinct_put: "distinct (map fst xs) \<Longrightarrow> distinct (map fst (put k v xs))"
proof (induction k v xs rule: put.induct)
  case (2 k v k' v' m)
  have "fst ` set (put k v m) = insert k (fst ` set m)" by (rule put_keys)
  with 2 show ?case by (auto simp del: image_insert)
qed simp

lemma manager_ok_Schedule:
  assumes "manager_ok m" and "q < gNext m"
  shows "manager_ok (Schedule q m)"
proof (cases "gSaver m")
  case None
  then show ?thesis using assms by (simp add: Schedule_def)
next
  case (Some s)
  have p: "\<forall>(r, q') \<in> set (pending s). q' < gNext m \<and> pID (gHeap m q') = r" "distinct (map fst (pending s))"
    using assms(1) Some by (auto simp: manager_ok_def pending_ok_def)
  have "\<forall>(r, q') \<in> set (put (pID (gHeap m q)) q (pending s)). q' < gNext m \<and> pID (gHeap m q') = r"
    using set_put [of "pID (gHeap m q)" q "pending s"] p(1) assms(2) by auto
  then show ?thesis
    using assms(1) Some distinct_put [OF p(2)]
    by (auto simp: Schedule_def Let_def manager_ok_def players_ok_def pending_ok_def manager_Owns_def)
qed

lemma manager_ok_Remove: "manager_ok m \<Longrightarrow> manager_ok (saver_Remove r m)"
  by (auto simp: saver_Remove_def Let_def manager_ok_def players_ok_def pending_ok_def manager_Owns_def
      intro: distinct_map_filter split: option.splits)

lemma manager_ok_count: "manager_ok m \<Longrightarrow> manager_ok (count_saved b m)"
  by (auto simp: count_saved_def manager_ok_def players_ok_def pending_ok_def manager_Owns_def split: option.splits)

lemma keeps_Save: "keeps_actor (Save adm oc)"
  unfolding keeps_actor_def
proof (intro allI)
  fix a st
  obtain x a' st' where s: "saveUnsafe oc (a, st) = (x, a', st')" by (rule prod_cases3)
  show "pID (fst (snd (Save adm oc (a, st)))) = pID a \<and> pClosed (fst (snd (Save adm oc (a, st)))) = pClosed a"
    using saveUnsafe_result [OF s] s
    by (auto simp: Save_def mailbox_Call_def as_res_def same_shell_def split: option.splits admission.splits)
qed

lemma keeps_SaveWithOutbox: "keeps_actor (SaveWithOutbox adm oc now ev)"
  unfolding keeps_actor_def
proof (intro allI)
  fix a st
  obtain x a' st' where s: "saveWithOutboxUnsafe oc now ev (a, st) = (x, a', st')" by (rule prod_cases3)
  show "pID (fst (snd (SaveWithOutbox adm oc now ev (a, st)))) = pID a \<and> pClosed (fst (snd (SaveWithOutbox adm oc now ev (a, st)))) = pClosed a"
    using saveWithOutboxUnsafe_result [OF s] s
    by (auto simp: SaveWithOutbox_def mailbox_Call_def as_res_def same_shell_def split: option.splits admission.splits)
qed

lemma keeps_Invoke:
  assumes "\<And>a st r a' st'. f (a, st) = (r, a', st') \<Longrightarrow> same_shell a a'"
  shows "keeps_actor (Invoke adm now f)"
  unfolding keeps_actor_def
proof (intro allI)
  fix a st
  obtain x a' st' where s: "f (touch now a, st) = (x, a', st')" by (rule prod_cases3)
  show "pID (fst (snd (Invoke adm now f (a, st)))) = pID a \<and> pClosed (fst (snd (Invoke adm now f (a, st)))) = pClosed a"
    using assms [OF s] s by (auto simp: Invoke_def mailbox_Call_def same_shell_def touch_def split: admission.splits)
qed

lemma grant_task_shell:
  assumes "grant_task oc1 oc2 bt o1 o2 b src (a, st) = (r, a', st')"
  shows "pID a' = pID a \<and> pClosed a' = pClosed a"
proof -
  obtain x q where q: "applyBundleUnsafe o1 o2 b a = (x, q)" by fastforce
  from applyBundle_shell [OF q] have "pID q = pID a" "pClosed q = pClosed a" by (simp_all add: same_shell_def)
  then show ?thesis using assms q
    by (auto simp: grant_task_def Let_def restoreUnsafe_def split: if_splits option.splits prod.splits sum.splits)
qed

lemma keeps_ApplyGrant: "keeps_actor (ApplyGrant adm now oc1 oc2 bt o1 o2 b src)"
  unfolding keeps_actor_def
proof (intro allI)
  fix a st
  obtain x a' st' where s: "grant_task oc1 oc2 bt o1 o2 b src (touch now a, st) = (x, a', st')" by (rule prod_cases3)
  show "pID (fst (snd (ApplyGrant adm now oc1 oc2 bt o1 o2 b src (a, st)))) = pID a \<and>
      pClosed (fst (snd (ApplyGrant adm now oc1 oc2 bt o1 o2 b src (a, st)))) = pClosed a"
    using grant_task_shell [OF s] s
    by (auto simp: ApplyGrant_def Invoke_def mailbox_Call_def touch_def split: admission.splits)
qed

lemmas manager_ok_steps = manager_ok_on_actor manager_ok_drop manager_ok_unload manager_ok_Remove manager_ok_count

section \<open>Every operation keeps the invariant\<close>

lemma on_actor_pair: "on_actor q f m = (r, m') \<Longrightarrow> manager_ok m \<Longrightarrow> keeps_actor f \<Longrightarrow> manager_ok m'"
  using manager_ok_on_actor by (metis snd_conv)

text \<open>The common frame of the operations: look the player up, run a task, drop a stale actor.\<close>

lemma frame_ok:
  assumes "manager_ok m" and "keeps_actor f"
    and "\<And>e m1. manager_Get ocg now r m = (Inl e, m1) \<Longrightarrow> m' = m1"
    and "\<And>q m1. manager_Get ocg now r m = (Inr q, m1) \<Longrightarrow>
      \<exists>x m2. on_actor q f (if rm then saver_Remove r m1 else m1) = (x, m2) \<and> m' = dropIfStale r q x m2"
  shows "manager_ok m'"
proof (cases "manager_Get ocg now r m")
  case (Pair x m1)
  have ok: "manager_ok m1" using manager_ok_Get [OF assms(1), of ocg now r] Pair by simp
  show ?thesis
  proof (cases x)
    case (Inl e)
    then show ?thesis using assms(3) Pair ok by simp
  next
    case (Inr q)
    then obtain y m2 where "on_actor q f (if rm then saver_Remove r m1 else m1) = (y, m2)" "m' = dropIfStale r q y m2"
      using assms(4) Pair by blast
    then show ?thesis using on_actor_pair [OF _ _ assms(2)] ok manager_ok_Remove manager_ok_drop by metis
  qed
qed

lemma HandleMsg_ok: "manager_ok m \<Longrightarrow> manager_ok (snd (HandleMsg ocg adm oc now r cmd act payload m))"
  by (rule frame_ok [where f = "Invoke adm now (handle_task oc cmd act payload)" and rm = "MutatingAct cmd act" and ocg = ocg and now = now and r = r])
    (auto simp: HandleMsg_def intro!: keeps_Invoke dest: handle_task_shell split: prod.splits)

lemma WithPlayer_ok:
  assumes "manager_ok m" and "mutation fn"
  shows "manager_ok (snd (WithPlayer ocg adm now r fn m))"
  by (rule frame_ok [where f = "Invoke adm now (\<lambda>(a, st). let (r, a) = fn a in (r, a, st))" and rm = False and ocg = ocg and now = now and r = r, OF assms(1)])
    (auto simp: WithPlayer_def intro!: keeps_Invoke dest: mutationD [OF assms(2)] split: prod.splits)

lemma with_task_ok:
  assumes "manager_ok m" and "transactional_task task"
  shows "manager_ok (snd (with_task ocg adm now r task m))"
  by (rule frame_ok [where f = "Invoke adm now task" and rm = True and ocg = ocg and now = now and r = r, OF assms(1)])
    (auto simp: with_task_def intro!: keeps_Invoke transactional_task.keeps_shell [OF assms(2)] split: prod.splits)

lemma WithPlayerSaved_ok: "manager_ok m \<Longrightarrow> mutation fn \<Longrightarrow> manager_ok (snd (WithPlayerSaved ocg adm oc now r fn m))"
  by (simp add: with_task_eqs with_task_ok saved_task_transactional)

lemma WithPlayerOutbox_ok: "manager_ok m \<Longrightarrow> mutation fn \<Longrightarrow> manager_ok (snd (WithPlayerOutbox ocg adm oc now r fn m))"
  by (simp add: with_task_eqs with_task_ok outbox_task_transactional)

lemma manager_ApplyGrant_ok:
  "manager_ok m \<Longrightarrow> manager_ok (snd (manager_ApplyGrant ocg adm now oc1 oc2 bt o1 o2 r b src m))"
  by (rule frame_ok [where f = "ApplyGrant adm now oc1 oc2 bt o1 o2 b src" and rm = False and ocg = ocg and now = now and r = r])
    (auto simp: manager_ApplyGrant_def keeps_ApplyGrant split: prod.splits)

lemma actor_Save_ok: "manager_ok m \<Longrightarrow> manager_ok (snd (actor_Save adm oc q m))"
  unfolding actor_Save_def by (rule manager_ok_on_actor [OF _ keeps_Save])

lemma actor_Save_simps [simp]:
  "gPlayers (snd (actor_Save adm oc q m)) = gPlayers m" "gNext (snd (actor_Save adm oc q m)) = gNext m"
  "gSaver (snd (actor_Save adm oc q m)) = gSaver m"
  by (simp_all add: actor_Save_def)

lemma FlushNow_ok: "manager_ok m \<Longrightarrow> q < gNext m \<Longrightarrow> manager_ok (snd (FlushNow adm oc q m))"
  using actor_Save_ok [OF manager_ok_Remove [of m "pID (gHeap m q)"], of adm oc q]
    actor_Save_simps(2) [of adm oc q "saver_Remove (pID (gHeap m q)) m"]
  by (auto simp: FlushNow_def intro!: manager_ok_Schedule simp del: actor_Save_simps split: prod.splits sum.splits)

lemma flush_or_save_ok: "manager_ok m \<Longrightarrow> q < gNext m \<Longrightarrow> manager_ok (snd (flush_or_save adm oc q m))"
  by (simp add: flush_or_save_def FlushNow_ok actor_Save_ok)

lemma players_pointer: "manager_ok m \<Longrightarrow> gPlayers m r = Some q \<Longrightarrow> q < gNext m"
  by (simp add: manager_ok_def players_ok_def)

lemma ScheduleSave_ok: "manager_ok m \<Longrightarrow> manager_ok (ScheduleSave oc r m)"
  by (auto simp: ScheduleSave_def actor_Save_ok players_pointer intro!: manager_ok_Schedule split: option.splits)

lemma SaveNow_ok:
  assumes "manager_ok m"
  shows "manager_ok (snd (SaveNow ocg adm oc now r m))"
proof (cases "manager_Get ocg now r m")
  case (Pair x m1)
  have ok: "manager_ok m1" using manager_ok_Get [OF assms, of ocg now r] Pair by simp
  show ?thesis
  proof (cases x)
    case (Inr q)
    have "q < gNext m1" using Get_pointer [OF assms] Pair Inr by blast
    then show ?thesis using Pair Inr flush_or_save_ok [OF ok, of q adm oc] manager_ok_drop
      by (auto simp: SaveNow_def split: prod.splits)
  qed (use Pair ok in \<open>simp add: SaveNow_def\<close>)
qed

lemma SaveNowWithOutbox_ok:
  assumes "manager_ok m"
  shows "manager_ok (snd (SaveNowWithOutbox ocg adm oc now r ev m))"
proof (cases "manager_Get ocg now r m")
  case (Pair x m1)
  have ok: "manager_ok m1" using manager_ok_Get [OF assms, of ocg now r] Pair by simp
  show ?thesis
  proof (cases x)
    case (Inr q)
    have "manager_ok (snd (on_actor q (SaveWithOutbox adm oc now ev) (saver_Remove (pID (gHeap m1 q)) m1)))"
      by (intro manager_ok_steps ok keeps_SaveWithOutbox)
    then show ?thesis using Pair Inr manager_ok_drop by (auto simp: SaveNowWithOutbox_def split: prod.splits)
  qed (use Pair ok in \<open>simp add: SaveNowWithOutbox_def\<close>)
qed

lemma Logout_ok:
  assumes "manager_ok m"
  shows "manager_ok (snd (Logout adm oc r m))"
proof (cases "gPlayers m r")
  case (Some q)
  then show ?thesis
    using flush_or_save_ok [OF assms players_pointer [OF assms Some], of adm oc] manager_ok_drop manager_ok_unload
    by (auto simp: Logout_def split: prod.splits sum.splits)
qed (use assms in \<open>simp add: Logout_def\<close>)

lemma evict_ok: "manager_ok m \<Longrightarrow> manager_ok (evict now adm oc rs m)"
proof (induction rs arbitrary: m)
  case (Cons k rs)
  let ?m = "case gPlayers m k of None \<Rightarrow> m | Some q \<Rightarrow>
      if pLastActive (gHeap m q) < now - idleTimeout then
        let (r, m) = flush_or_save (adm k) (oc k) q m in
        if r = Inr () \<and> pLastActive (gHeap m q) < now - idleTimeout \<and> gPlayers m k = Some q then unload k q m
        else dropIfStale k q r m
      else m"
  have "manager_ok ?m"
  proof (cases "gPlayers m k")
    case (Some q)
    obtain r m1 where fs: "flush_or_save (adm k) (oc k) q m = (r, m1)" by fastforce
    have "manager_ok m1" using flush_or_save_ok [OF Cons.prems players_pointer [OF Cons.prems Some], of "adm k" "oc k"] fs by simp
    then show ?thesis using Some fs Cons.prems by (simp add: manager_ok_drop manager_ok_unload)
  qed (use Cons.prems in simp)
  from Cons.IH [OF this] show ?case by simp
qed simp

lemma flush_jobs_ok:
  "manager_ok m \<Longrightarrow> \<forall>q \<in> set qs. q < gNext m \<Longrightarrow> manager_ok (flush_jobs adm oc qs m)"
proof (induction qs arbitrary: m)
  case (Cons q qs)
  obtain x m1 where s: "actor_Save (adm (length qs)) (oc (length qs)) q m = (x, m1)" by fastforce
  have ok: "manager_ok m1" and n: "gNext m1 = gNext m"
    using actor_Save_ok [OF Cons.prems(1)] actor_Save_simps(2) s by (metis snd_conv)+
  have again: "manager_ok (Schedule q (count_saved False m1))"
    by (intro manager_ok_Schedule manager_ok_count ok) (use n Cons.prems in simp)
  have l: "\<forall>q \<in> set qs. q < gNext m1" using Cons.prems(2) n by simp
  show ?case
    using s Cons.IH [OF ok l] Cons.IH [OF again] Cons.IH [OF manager_ok_count [OF ok, of True]] l
    by (auto split: sum.splits)
qed simp

lemma flushAll_ok:
  assumes "manager_ok m" and "\<And>b. set (order b) \<subseteq> set b"
  shows "manager_ok (flushAll adm oc order m)"
proof (cases "gSaver m")
  case (Some s)
  let ?m = "m\<lparr>gSaver := Some (s\<lparr>pending := [], depth := 0\<rparr>)\<rparr>"
  have "manager_ok ?m" using assms(1) Some
    by (auto simp: manager_ok_def players_ok_def pending_ok_def manager_Owns_def)
  moreover have "\<forall>q \<in> set (order (map snd (pending s))). q < gNext ?m"
    using assms Some by (fastforce simp: manager_ok_def pending_ok_def)
  ultimately show ?thesis using Some by (simp add: flushAll_def Let_def flush_jobs_ok)
qed (use assms in \<open>simp add: flushAll_def\<close>)

lemma stop_players_ok: "manager_ok m \<Longrightarrow> manager_ok (stop_players adm oc rs m)"
proof (induction rs arbitrary: m)
  case (Cons k rs)
  have "manager_ok (case gPlayers m k of None \<Rightarrow> m
      | Some q \<Rightarrow> close_actor q (snd (actor_Save (adm k) (oc k) q (m\<lparr>gPlayers := (gPlayers m)(k := None)\<rparr>))))"
  proof (cases "gPlayers m k")
    case (Some q)
    let ?m = "snd (actor_Save (adm k) (oc k) q (m\<lparr>gPlayers := (gPlayers m)(k := None)\<rparr>))"
    have "manager_ok (m\<lparr>gPlayers := (gPlayers m)(k := None)\<rparr>)"
      using Cons.prems by (auto simp: manager_ok_def players_ok_def pending_ok_def manager_Owns_def)
    then have ok: "manager_ok ?m" by (rule actor_Save_ok)
    have k: "pID (gHeap m q) = k" using Cons.prems Some by (simp add: manager_ok_def players_ok_def)
    have "gPlayers ?m r \<noteq> Some q" for r
    proof
      assume "gPlayers ?m r = Some q"
      then have "r \<noteq> k" "gPlayers m r = Some q" by (auto split: if_splits)
      then show False using Cons.prems k by (auto simp: manager_ok_def players_ok_def)
    qed
    then have "manager_ok (close_actor q ?m)" by (intro manager_ok_close [OF ok]) blast
    then show ?thesis using Some by simp
  qed (use Cons.prems in simp)
  from Cons.IH [OF this] show ?case by simp
qed simp

section \<open>A Game process as a transition system\<close>

text \<open>Requests, background loops and shutdown of one process, in any order and with any faults.\<close>

inductive manager_step :: "manager \<Rightarrow> manager \<Rightarrow> bool" where
  msg: "manager_step m (snd (HandleMsg ocg adm oc now r cmd act payload m))"
| with_player: "mutation (fn :: actor \<Rightarrow> unit res \<times> actor) \<Longrightarrow> manager_step m (snd (WithPlayer ocg adm now r fn m))"
| with_saved: "mutation (fn :: actor \<Rightarrow> unit res \<times> actor) \<Longrightarrow> manager_step m (snd (WithPlayerSaved ocg adm oc now r fn m))"
| with_outbox: "mutation ev \<Longrightarrow> manager_step m (snd (WithPlayerOutbox ocg adm oc now r ev m))"
| grant: "manager_step m (snd (manager_ApplyGrant ocg adm now oc1 oc2 bt o1 o2 r b src m))"
| schedule: "manager_step m (ScheduleSave oc r m)"
| save_now: "manager_step m (snd (SaveNow ocg adm oc now r m))"
| save_outbox: "manager_step m (snd (SaveNowWithOutbox ocg adm oc now r event m))"
| logout: "manager_step m (snd (Logout adm oc r m))"
| evict: "manager_step m (evict now adms ocs rs m)"
| flush: "(\<And>b. set (order b) \<subseteq> set b) \<Longrightarrow> manager_step m (flushAll admf ocf order m)"
| stop: "(\<And>b. set (order b) \<subseteq> set b) \<Longrightarrow> manager_step m (StopAndFlush admf ocf order adms ocs rs m)"

inductive_cases manager_stepE: "manager_step m m'"

lemma manager_step_ok: "manager_step m m' \<Longrightarrow> manager_ok m \<Longrightarrow> manager_ok m'"
  by (erule manager_step.cases)
    (auto simp: HandleMsg_ok WithPlayer_ok WithPlayerSaved_ok WithPlayerOutbox_ok manager_ApplyGrant_ok ScheduleSave_ok SaveNow_ok
      SaveNowWithOutbox_ok Logout_ok evict_ok flushAll_ok StopAndFlush_def FlushAll_def saver_Run_final_def stop_players_ok)

lemma manager_ok_New: "manager_ok (NewManager st mode i n junk)"
  by (simp add: NewManager_def manager_ok_def players_ok_def pending_ok_def NewAsyncSaver_def)

lemma manager_steps_ok: "manager_step\<^sup>*\<^sup>* m m' \<Longrightarrow> manager_ok m \<Longrightarrow> manager_ok m'"
  by (induction rule: rtranclp_induct) (auto intro: manager_step_ok)

section \<open>Properties of the manager\<close>


text \<open>
  C8. Acknowledged changes are durable. When a mutating protocol frame, a saved mutation or a mutation
  with an outbox event reports success on a process with a database, the cached actor's whole state
  is the one stored in its role's row, with matching version and fencing token.
\<close>

theorem acknowledged_is_durable:
  assumes "gRoles m \<noteq> None" and "mutation fn" and "mutation ev"
  shows "(MutatingAct cmd act \<and> HandleMsg ocg adm oc now roleID cmd act payload m = (Inr reply, m') \<or>
     WithPlayerSaved ocg adm oc now roleID fn m = (Inr x, m') \<or>
     WithPlayerOutbox ocg adm oc now roleID ev m = (Inr (), m')) \<longrightarrow>
    (\<exists>q rp'. gPlayers m' roleID = Some q \<and> gRoles m' = Some rp' \<and> persisted (gHeap m' q) rp')"
  using transactional_task.ack_durable [OF handle_task_transactional _ assms(1)]
    transactional_task.ack_durable [OF saved_task_transactional [OF assms(2)] _ assms(1)]
    transactional_task.ack_durable [OF outbox_task_transactional [OF assms(3)] _ assms(1)]
  by (auto simp: with_task_eqs)


section \<open>The asynchronous saver loses nothing\<close>

text \<open>What must hold of a scheduled actor: it is stored, or queued again, or its mailbox was closed.\<close>

definition settled :: "manager \<Rightarrow> nat \<Rightarrow> bool" where
  "settled m q \<longleftrightarrow> pClosed (gHeap m q) \<or>
     (\<exists>s. gSaver m = Some s \<and> (pID (gHeap m q), q) \<in> set (pending s)) \<or>
     (\<exists>rp. gRoles m = Some rp \<and> persisted (gHeap m q) rp)"

lemma Save_other_role:
  assumes "RoleRepo_Save oc r s rp = (x, rp')" and "r' \<noteq> r"
  shows "roles (role_db rp' r') r' = roles (role_db rp r') r'"
proof -
  have rp': "rp' = rp\<lparr>pools := (pools rp)(poolFor rp r := snd (Repo_Save oc r s (role_db rp r)))\<rparr>"
    using assms(1) by (simp add: RoleRepo_Save_def on_pool_eq)
  have "roles (snd (Repo_Save oc r s db)) r' = roles db r'" for db
    using assms(2) by (auto simp: snd_Save update_role_Some split: option.splits)
  then show ?thesis by (auto simp: rp' role_db_def poolFor_def)
qed

lemma actor_Save_result:
  assumes "actor_Save adm oc q m = (x, m')" and "gRoles m = Some rp"
  shows "(\<forall>q'. q' \<noteq> q \<longrightarrow> gHeap m' q' = gHeap m q') \<and> pID (gHeap m' q) = pID (gHeap m q) \<and>
    (\<exists>rp'. gRoles m' = Some rp' \<and> (\<forall>r'. r' \<noteq> pID (gHeap m q) \<longrightarrow> roles (role_db rp' r') r' = roles (role_db rp r') r') \<and>
       (\<forall>u. x = Inr u \<longrightarrow> persisted (gHeap m' q) rp')) \<and> (x = Inl ErrClosed \<longrightarrow> pClosed (gHeap m' q))"
proof -
  let ?a = "gHeap m q"
  obtain y a st where sv: "Save adm oc (?a, Some rp) = (y, a, st)" by (rule prod_cases3)
  have m': "x = y" "m' = m\<lparr>gHeap := (gHeap m)(q := a), gRoles := st\<rparr>"
    using assms sv by (auto simp: actor_Save_def on_actor_def)
  have "pID a = pID ?a \<and> (\<exists>rp'. st = Some rp' \<and>
      (\<forall>r'. r' \<noteq> pID ?a \<longrightarrow> roles (role_db rp' r') r' = roles (role_db rp r') r') \<and> (\<forall>u. y = Inr u \<longrightarrow> persisted a rp')) \<and>
      (y = Inl ErrClosed \<longrightarrow> pClosed a)"
  proof (cases "pClosed ?a \<or> adm = CtxDone")
    case True
    then show ?thesis using sv by (auto simp: Save_def mailbox_Call_def split: if_splits)
  next
    case False
    then have adm: "adm = Admitted" by (cases adm) auto
    obtain z where su: "saveUnsafe oc (?a, Some rp) = (z, a, st)" and y: "y = (case z of None \<Rightarrow> Inr () | Some e \<Rightarrow> Inl e)"
      using sv False adm by (cases "saveUnsafe oc (?a, Some rp)") (auto simp: Save_def mailbox_Call_def as_res_def)
    obtain w rp' where w: "RoleRepo_Save oc (pID ?a) (snapshotUnsafe ?a) rp = (w, rp')" by fastforce
    have st: "st = Some rp'" "pID a = pID ?a"
      using su w by (auto simp: saveUnsafe_def split: sum.splits)
    have "w \<noteq> Inl ErrClosed"
      using w by (auto simp: RoleRepo_Save_def on_pool_eq Repo_Save_def store_call_def split: outcome.splits option.splits)
    then have "y \<noteq> Inl ErrClosed" using su w y by (auto simp: saveUnsafe_def split: sum.splits)
    then show ?thesis
      using st Save_other_role [OF w] saveUnsafe_persisted [of oc ?a rp a st] su y by (auto split: option.splits)
  qed
  with m' show ?thesis by auto
qed

lemma settled_cong:
  assumes "gHeap m' q = gHeap m q" and "gRoles m = Some rp" and "gRoles m' = Some rp'"
    and "roles (role_db rp' (pID (gHeap m q))) (pID (gHeap m q)) = roles (role_db rp (pID (gHeap m q))) (pID (gHeap m q))"
    and "\<And>s. gSaver m = Some s \<Longrightarrow> (pID (gHeap m q), q) \<in> set (pending s) \<Longrightarrow>
      \<exists>s'. gSaver m' = Some s' \<and> (pID (gHeap m q), q) \<in> set (pending s')"
    and "settled m q"
  shows "settled m' q"
  using assms unfolding settled_def persisted_def by auto

lemma put_other: "(k', v') \<in> set xs \<Longrightarrow> k' \<noteq> k \<Longrightarrow> (k', v') \<in> set (put k v xs)"
  by (induction k v xs rule: put.induct) auto

lemma Schedule_pending:
  assumes "gSaver m = Some s" and "gRoles m \<noteq> None"
  shows "\<exists>s'. gSaver (Schedule q m) = Some s' \<and> pending s' = put (pID (gHeap m q)) q (pending s)"
  using assms by (auto simp: Schedule_def Let_def)

lemma count_saved_pending: "gSaver m = Some s \<Longrightarrow> \<exists>s'. gSaver (count_saved b m) = Some s' \<and> pending s' = pending s"
  by (auto simp: count_saved_def)

text \<open>One job of the batch settles its actor and unsettles no other.\<close>

definition flush_one :: "admission \<Rightarrow> outcome \<Rightarrow> nat \<Rightarrow> manager \<Rightarrow> manager" where
  "flush_one adm oc q m =
     (case actor_Save adm oc q m of
        (Inl e, m) \<Rightarrow> if e = ErrClosed then m else Schedule q (count_saved False m)
      | (Inr _, m) \<Rightarrow> count_saved True m)"

lemma flush_jobs_one: "flush_jobs adm oc (q # qs) m = flush_jobs adm oc qs (flush_one (adm (length qs)) (oc (length qs)) q m)"
  by (simp add: flush_one_def split: prod.splits sum.splits)

lemma flush_one_settles:
  assumes "gRoles m \<noteq> None" and "gSaver m \<noteq> None" and m'_def: "m' = flush_one adm oc q m"
  shows "gRoles m' \<noteq> None \<and> gSaver m' \<noteq> None \<and> settled m' q \<and>
    (\<forall>q'. pID (gHeap m' q') = pID (gHeap m q')) \<and>
    (\<forall>q'. q' \<noteq> q \<and> pID (gHeap m q') \<noteq> pID (gHeap m q) \<and> settled m q' \<longrightarrow> settled m' q')"
proof -
  obtain rp s where rp: "gRoles m = Some rp" and s: "gSaver m = Some s" using assms(1,2) by auto
  obtain x m1 where sv: "actor_Save adm oc q m = (x, m1)" by fastforce
  note res = actor_Save_result [OF sv rp]
  obtain rp' where rp': "gRoles m1 = Some rp'"
    and other: "\<And>r'. r' \<noteq> pID (gHeap m q) \<Longrightarrow> roles (role_db rp' r') r' = roles (role_db rp r') r'"
    and per: "\<And>u. x = Inr u \<Longrightarrow> persisted (gHeap m1 q) rp'"
    using res by blast
  have s1: "gSaver m1 = Some s" using actor_Save_simps(3) [of adm oc q m] sv s by simp
  obtain s2 where s2: "gSaver (count_saved False m1) = Some s2" "pending s2 = pending s"
    using count_saved_pending [OF s1] by blast
  obtain s3 where s3: "gSaver (Schedule q (count_saved False m1)) = Some s3"
    "pending s3 = put (pID (gHeap m1 q)) q (pending s)"
    using Schedule_pending [OF s2(1), of q] s2(2) rp' by auto
  obtain s4 where s4: "gSaver (count_saved True m1) = Some s4" "pending s4 = pending s"
    using count_saved_pending [OF s1] by blast
  have m': "m' = m1 \<and> x = Inl ErrClosed \<or> m' = Schedule q (count_saved False m1) \<or> m' = count_saved True m1 \<and> (\<exists>u. x = Inr u)"
    by (auto simp: m'_def flush_one_def sv split: sum.splits)
  have heap: "gHeap m' = gHeap m1" "gRoles m' = Some rp'" using m' rp' by auto
  obtain s' where s': "gSaver m' = Some s'"
    and keep: "\<And>k v. (k, v) \<in> set (pending s) \<Longrightarrow> k \<noteq> pID (gHeap m q) \<Longrightarrow> (k, v) \<in> set (pending s')"
    using m' s1 s3 s4 res put_other by auto
  have "settled m' q"
    using m' res per rp' s3 put_mem [of "pID (gHeap m1 q)" q "pending s"]
    by (auto simp: settled_def)
  moreover have "settled m' q'" if "q' \<noteq> q" "pID (gHeap m q') \<noteq> pID (gHeap m q)" "settled m q'" for q'
    by (rule settled_cong [OF _ rp heap(2) _ _ that(3)]) (use heap(1) res other keep that s s' in auto)
  moreover have "pID (gHeap m' q') = pID (gHeap m q')" for q' using heap(1) res by (cases "q' = q") auto
  ultimately show ?thesis using heap(2) s' by auto
qed

lemma flush_jobs_settles:
  assumes "gRoles m \<noteq> None" and "gSaver m \<noteq> None" and "distinct qs" and "inj_on (\<lambda>q. pID (gHeap m q)) (set qs \<union> done)"
    and "set qs \<inter> done = {}" and "\<forall>q \<in> done. settled m q"
  shows "\<forall>q \<in> set qs \<union> done. settled (flush_jobs adm oc qs m) q"
  using assms
proof (induction qs arbitrary: m "done")
  case (Cons q qs)
  let ?m = "flush_one (adm (length qs)) (oc (length qs)) q m"
  note st = flush_one_settles [OF Cons.prems(1,2) refl, of "adm (length qs)" "oc (length qs)" q]
  have ids: "(\<lambda>q. pID (gHeap ?m q)) = (\<lambda>q. pID (gHeap m q))" using st by auto
  have inj: "inj_on (\<lambda>q. pID (gHeap ?m q)) (set qs \<union> insert q done)"
    unfolding ids using Cons.prems(4) by (simp add: Un_commute insert_commute)
  have "settled ?m q'" if "q' \<in> done" for q'
  proof -
    have "q' \<noteq> q" using that Cons.prems(5) by auto
    moreover have "pID (gHeap m q') \<noteq> pID (gHeap m q)"
      using inj_onD [OF Cons.prems(4), of q' q] that \<open>q' \<noteq> q\<close> by auto
    ultimately show ?thesis using st Cons.prems(6) that by blast
  qed
  then have d: "\<forall>q' \<in> insert q done. settled ?m q'" using st by blast
  have "\<forall>q' \<in> set qs \<union> insert q done. settled (flush_jobs adm oc qs ?m) q'"
    using Cons.IH [OF _ _ _ inj _ d] st Cons.prems(3,5) by auto
  then show ?case unfolding flush_jobs_one by auto
qed simp

text \<open>
  The asynchronous flush loses no change. Whatever saves of a batch fail and in whatever order the
  workers take them, every actor that was scheduled is afterwards stored with its whole state, or
  scheduled again, or had its mailbox closed.
\<close>

theorem async_flush_loses_nothing:
  assumes "manager_ok m" and "gSaver m = Some s" and "gRoles m \<noteq> None" and "(r, q) \<in> set (pending s)"
    and "\<forall>b. set (order b) = set b \<and> length (order b) = length b"
  shows "settled (flushAll adm oc order m) q"
proof -
  let ?batch = "map snd (pending s)"
  let ?m = "m\<lparr>gSaver := Some (s\<lparr>pending := [], depth := 0\<rparr>)\<rparr>"
  have p: "distinct (map fst (pending s))" "\<And>r q. (r, q) \<in> set (pending s) \<Longrightarrow> pID (gHeap m q) = r"
    using assms(1,2) by (auto simp: manager_ok_def pending_ok_def)
  have inj: "inj_on (\<lambda>q. pID (gHeap m q)) (set ?batch)"
  proof (rule inj_onI)
    fix a b
    assume "a \<in> set ?batch" "b \<in> set ?batch" and e: "pID (gHeap m a) = pID (gHeap m b)"
    then obtain k where "(k, a) \<in> set (pending s)" "(k, b) \<in> set (pending s)" using p(2) by force
    then show "a = b" using p(1) by (metis eq_key_imp_eq_value)
  qed
  have "distinct ?batch"
  proof -
    have "distinct (pending s)" using p(1) by (simp add: distinct_map)
    moreover have "inj_on snd (set (pending s))"
      by (rule inj_onI) (metis p(2) prod.collapse)
    ultimately show ?thesis by (simp add: distinct_map)
  qed
  then have d: "distinct (order ?batch)" using assms(5) card_distinct distinct_card by metis
  have ne: "pending s \<noteq> []" and mem: "q \<in> set (order ?batch)" using assms(4,5) by (auto simp: image_iff intro: rev_bexI)
  have "\<forall>q \<in> set (order ?batch) \<union> {}. settled (flush_jobs adm oc (order ?batch) ?m) q"
    by (rule flush_jobs_settles) (use assms(3,5) d inj in \<open>simp_all\<close>)
  then show ?thesis using mem ne assms(2) by (simp add: flushAll_def Let_def)
qed

section \<open>The properties at concrete inputs\<close>

definition demo_manager :: manager where
  "demo_manager = NewManager (Some demo_repo) ''async'' 0 1 demo_actor"

definition demo_loaded :: manager where
  "demo_loaded = snd (manager_Get Done 5 7 demo_manager)"

definition demo_scheduled :: manager where
  "demo_scheduled = ScheduleSave Done 7 demo_loaded"

lemmas demo_manager_simps = demo_manager_def NewManager_def NewAsyncSaver_def manager_Get_def manager_Owns_def Owns_def
  RoleRepo_Acquire_def RoleRepo_Save_def on_pool_eq role_db_def poolFor_def indexForRole_def demo_repo_def demo_simps

lemma demo_Get: "manager_Get Done 5 7 demo_manager = (Inr 0, demo_loaded)"
  by (simp add: demo_loaded_def demo_manager_simps)


lemma demo_mutations: "mutation (\<lambda>a. (Inr (), LevelUp a))" "mutation (\<lambda>a. (Inr demo_event, LevelUp a))"
  by (simp_all add: mutation_def LevelUp_def same_shell_def)

lemma demo_saved:
  "fst (WithPlayerSaved Done Admitted Done 5 7 (\<lambda>a. (Inr (), LevelUp a)) demo_manager) = Inr ()"
  by (simp add: WithPlayerSaved_def saver_Remove_def on_actor_def Invoke_def mailbox_Call_def touch_def saved_task_def saveUnsafe_def
      LevelUp_def New_def demo_manager_simps)

theorem acknowledged_is_durable_witness:
  "\<exists>q rp'. gPlayers (snd (WithPlayerSaved Done Admitted Done 5 7 (\<lambda>a. (Inr (), LevelUp a)) demo_manager)) 7 = Some q \<and>
     gRoles (snd (WithPlayerSaved Done Admitted Done 5 7 (\<lambda>a. (Inr (), LevelUp a)) demo_manager)) = Some rp'"
proof -
  let ?r = "WithPlayerSaved Done Admitted Done 5 7 (\<lambda>a. (Inr (), LevelUp a)) demo_manager"
  have "?r = (Inr (), snd ?r)" using demo_saved by (metis prod.collapse)
  moreover have "gRoles demo_manager \<noteq> None" by (simp add: demo_manager_def NewManager_def)
  ultimately show ?thesis
    using acknowledged_is_durable [OF _ demo_mutations, of demo_manager CmdGame ActPlayerData Done Admitted Done 5 7 None _ "snd ?r" "()"] by blast
qed


theorem async_flush_loses_nothing_witness: "settled (flushAll (\<lambda>_. Admitted) (\<lambda>_. Done) id demo_scheduled) 0"
proof -
  have ok: "manager_ok demo_scheduled"
    unfolding demo_scheduled_def demo_loaded_def demo_manager_def
    by (intro ScheduleSave_ok manager_ok_Get manager_ok_New)
  have s: "gSaver demo_scheduled = Some \<lparr>pending = [(7, 0)], depth = 1, saved = 0, failed = 0\<rparr>" "gRoles demo_scheduled \<noteq> None"
    by (simp_all add: demo_scheduled_def demo_loaded_def ScheduleSave_def Schedule_def demo_manager_simps New_def)
  show ?thesis by (rule async_flush_loses_nothing [OF ok s, of 7]) simp_all
qed

end
