(* ===== verification/Player_Grants.thy ===== *)
theory Player_Grants
  imports Player_Manager
begin

text \<open>
  Grants as the economy sees them. The auction house, the payment service and the mail service all
  credit or charge a role under a source string; this theory shows that the player manager of one
  game process, with the economy ledger of its database, keeps the contract of the locale
  \<open>granter\<close> whatever outcomes its calls have.
\<close>

text \<open>The circumstances of one call to the player manager: outcomes, time and iteration orders.\<close>

record call_env =
  eGet :: outcome
  eAdm :: admission
  eNow :: int
  eSave :: outcome
  eLoad :: outcome
  eBetween :: "role_repo \<Rightarrow> role_repo"
  eOrd1 :: "(string \<times> int) list \<Rightarrow> (string \<times> int) list"
  eOrd2 :: "(string \<times> int) list \<Rightarrow> (string \<times> int) list"

definition local_grant :: "call_env \<Rightarrow> int \<Rightarrow> grant_bundle \<Rightarrow> string \<Rightarrow> manager \<Rightarrow> err option \<times> manager" where
  "local_grant E roleID b source m =
     (case manager_ApplyGrant (eGet E) (eAdm E) (eNow E) (eSave E) (eLoad E) (eBetween E) (eOrd1 E (bItems b)) (eOrd2 E (bItems b)) roleID b source m of
        (Inl e, m) \<Rightarrow> (Some e, m)
      | (Inr _, m) \<Rightarrow> (None, m))"

type_synonym granter_fn = "int \<Rightarrow> grant_bundle \<Rightarrow> string \<Rightarrow> manager \<Rightarrow> err option \<times> manager"

section \<open>The player manager is a granter\<close>

definition manager_credited :: "manager \<Rightarrow> int \<times> string \<Rightarrow> grant_bundle option" where
  "manager_credited m k =
     (case gRoles m of None \<Rightarrow> None | Some rp \<Rightarrow> map_option snd (ledger (role_db rp (fst k)) k))"

definition manager_live :: "manager \<Rightarrow> bool" where
  "manager_live m \<longleftrightarrow> gRoles m \<noteq> None \<and> manager_ok m"

lemma ledger_put:
  "ledger (role_db (rp\<lparr>pools := (pools rp)(poolFor rp r := db)\<rparr>) r') k
     = (if poolFor rp r' = poolFor rp r then ledger db k else ledger (role_db rp r') k)"
  by (simp add: role_db_def poolFor_def)

lemma SaveIdempotent_ledger:
  assumes "Repo_SaveIdempotent oc r src k s b db = (x, db')"
  shows "ledger db key = Some e \<Longrightarrow> ledger db' key = Some e"
    and "ledger db key = None \<Longrightarrow> ledger db' key = Some e \<Longrightarrow> key = (r, src) \<and> e = (k, b)"
    and "x = Inr (v, ap) \<Longrightarrow> src \<noteq> [] \<Longrightarrow> ledger db' (r, src) \<noteq> None"
proof -
  have db': "db' = db_step (OpGrant oc r src k s b) db" using assms by simp
  show "ledger db key = Some e \<Longrightarrow> ledger db' key = Some e" unfolding db' by (rule db_step_ledger)
  show "key = (r, src) \<and> e = (k, b)" if "ledger db key = None" "ledger db' key = Some e"
    using that unfolding db'
    by (auto simp: snd_writes dest!: update_role_same_ledger split: if_splits option.splits)
  show "ledger db' (r, src) \<noteq> None" if "x = Inr (v, ap)" "src \<noteq> []"
    using assms that
    by (auto simp: Repo_SaveIdempotent_def store_call_Inr update_role_ledger Let_def split: if_splits option.splits)
qed

text \<open>What other processes do to the database between two calls keeps every ledger entry and adds none for this role.\<close>

definition benign :: "(role_repo \<Rightarrow> role_repo) \<Rightarrow> bool" where
  "benign f \<longleftrightarrow> (\<forall>rp. npools (f rp) = npools rp \<and> (\<forall>r k. ledger (role_db (f rp) r) k = ledger (role_db rp r) k))"

lemma RoleRepo_Load_same: "RoleRepo_Load oc r rp = (x, rp') \<Longrightarrow> rp' = rp"
proof -
  assume a: "RoleRepo_Load oc r rp = (x, rp')"
  have "snd (Repo_Load oc r db) = db" for db
    by (simp add: Repo_Load_def store_call_state split: option.splits)
  then show ?thesis using a on_pool_id [of "Repo_Load oc r" rp r] by (simp add: RoleRepo_Load_def)
qed

text \<open>The ledger effect of one grant task.\<close>

definition ledger_after :: "int \<Rightarrow> string \<Rightarrow> grant_bundle \<Rightarrow> role_repo \<Rightarrow> role_repo \<Rightarrow> bool" where
  "ledger_after r src b rp rp' \<longleftrightarrow>
     (\<forall>k e. ledger (role_db rp (fst k)) k = Some e \<longrightarrow> ledger (role_db rp' (fst k)) k = Some e) \<and>
     (\<forall>k e. ledger (role_db rp (fst k)) k = None \<and> ledger (role_db rp' (fst k)) k = Some e \<longrightarrow> k = (r, src) \<and> snd e = b)"

lemma ledger_after_refl [simp]: "ledger_after r src b rp rp"
  unfolding ledger_after_def by force

lemma ledger_after_benign: "ledger_after r src b rp rp' \<Longrightarrow> benign f \<Longrightarrow> ledger_after r src b rp (f rp')"
  by (auto simp: ledger_after_def benign_def)

lemma RoleRepo_SaveIdempotent_ledger:
  assumes "RoleRepo_SaveIdempotent oc r src k s b rp = (x, rp')"
  shows "ledger_after r src b rp rp'"
    and "x = Inr (v, ap) \<Longrightarrow> src \<noteq> [] \<Longrightarrow> ledger (role_db rp' r) (r, src) \<noteq> None"
proof -
  let ?db' = "snd (Repo_SaveIdempotent oc r src k s b (role_db rp r))"
  have rp': "rp' = rp\<lparr>pools := (pools rp)(poolFor rp r := ?db')\<rparr>"
    and x: "Repo_SaveIdempotent oc r src k s b (role_db rp r) = (x, ?db')"
    using assms by (simp_all add: RoleRepo_SaveIdempotent_def on_pool_eq prod_eq_iff)
  have db: "poolFor rp r' = poolFor rp r \<Longrightarrow> role_db rp r' = role_db rp r" for r' by (simp add: role_db_def)
  show "ledger_after r src b rp rp'"
    unfolding ledger_after_def
  proof (intro conjI allI impI; (elim conjE)?)
    fix k' e
    assume "ledger (role_db rp (fst k')) k' = Some e"
    then show "ledger (role_db rp' (fst k')) k' = Some e"
      using SaveIdempotent_ledger(1) [OF x, of k' e] db [of "fst k'"] by (auto simp: rp' ledger_put)
  next
    fix k' e
    assume "ledger (role_db rp (fst k')) k' = None" "ledger (role_db rp' (fst k')) k' = Some e"
    then have "k' = (r, src) \<and> e = (k, b)"
      using SaveIdempotent_ledger(2) [OF x, of k' e] db [of "fst k'"] by (auto simp: rp' ledger_put split: if_splits)
    then show "k' = (r, src)" "snd e = b" by simp_all
  qed
  show "x = Inr (v, ap) \<Longrightarrow> src \<noteq> [] \<Longrightarrow> ledger (role_db rp' r) (r, src) \<noteq> None"
    unfolding rp' ledger_put using SaveIdempotent_ledger(3) [OF x] by auto
qed

lemma grant_task_ledger:
  assumes "grant_task oc1 oc2 bt o1 o2 b src (a, Some rp) = (x, a', st')" and "benign bt"
  shows "\<exists>rp'. st' = Some rp' \<and> ledger_after (pID a) src b rp rp' \<and>
    (\<forall>u. x = Inr u \<longrightarrow> src \<noteq> [] \<longrightarrow> ledger (role_db rp' (pID a)) (pID a, src) \<noteq> None)"
proof -
  obtain y q where q: "applyBundleUnsafe o1 o2 b a = (y, q)" by fastforce
  have i: "pID q = pID a" using applyBundle_shell [OF q] by (simp add: same_shell_def)
  obtain z rp1 where s: "RoleRepo_SaveIdempotent oc1 (pID a) src ''grant'' (snapshotUnsafe q) b rp = (z, rp1)" by fastforce
  obtain l rp2 where ld: "RoleRepo_Load oc2 (pID a) (bt rp1) = (l, rp2)" by fastforce
  have rp2: "rp2 = bt rp1" by (rule RoleRepo_Load_same [OF ld])
  have keep: "ledger (role_db (bt rp1) r) k = ledger (role_db rp1 r) k" for r k using assms(2) unfolding benign_def by blast
  note l1 = RoleRepo_SaveIdempotent_ledger [OF s]
  show ?thesis
  proof (cases y)
    case (Some e)
    then show ?thesis using assms(1) q by (auto simp: grant_task_def)
  next
    case None
    then show ?thesis
      using assms(1) q i s ld rp2 keep l1 ledger_after_benign [OF l1(1) assms(2)]
      by (auto simp: grant_task_def Let_def split: sum.splits prod.splits if_splits)
  qed
qed

lemma Acquire_ledger: "RoleRepo_Acquire oc r rp = (x, rp') \<Longrightarrow> ledger (role_db rp' r') k = ledger (role_db rp r') k"
proof -
  assume a: "RoleRepo_Acquire oc r rp = (x, rp')"
  have "ledger (snd (Repo_Acquire oc r db)) = ledger db" for db
    by (simp add: Repo_Acquire_def store_call_state Let_def split: option.splits)
  moreover have "rp' = rp\<lparr>pools := (pools rp)(poolFor rp r := snd (Repo_Acquire oc r (role_db rp r)))\<rparr>"
    using a by (simp add: RoleRepo_Acquire_def on_pool_eq)
  ultimately show ?thesis by (simp add: ledger_put) (simp add: role_db_def)
qed

lemma Get_credited:
  assumes "manager_Get oc now r m = (x, m')" and "manager_live m"
  shows "manager_credited m' k = manager_credited m k \<and> manager_live m' \<and> (\<forall>q. x = Inr q \<longrightarrow> pID (gHeap m' q) = r)"
proof -
  obtain rp where rp: "gRoles m = Some rp" using assms(2) by (auto simp: manager_live_def)
  obtain y rp' where aq: "RoleRepo_Acquire oc r rp = (y, rp')" by fastforce
  have "gRoles m' = Some rp \<or> gRoles m' = Some rp'"
    using assms(1) rp aq by (auto simp: manager_Get_def split: if_splits option.splits sum.splits)
  then have "manager_credited m' k = manager_credited m k"
    using rp Acquire_ledger [OF aq, of "fst k" k] by (auto simp: manager_credited_def)
  moreover have "manager_live m'"
    using manager_ok_Get [of m oc now r] manager_Get_store [OF assms(1)] assms by (simp add: manager_live_def)
  moreover have "\<forall>q. x = Inr q \<longrightarrow> pID (gHeap m' q) = r"
    using Get_pointer [of m oc now r] assms by (auto simp: manager_live_def)
  ultimately show ?thesis by blast
qed

lemma dropIfStale_roles [simp]: "gRoles (dropIfStale r q x m) = gRoles m"
  by (simp add: dropIfStale_def close_actor_def)

lemma local_grant_ledger:
  assumes "local_grant E r b src m = (x, m')" and "manager_live m" and "benign (eBetween E)"
  shows "manager_live m' \<and> (\<forall>k c. manager_credited m k = Some c \<longrightarrow> manager_credited m' k = Some c) \<and>
    (\<forall>k c. manager_credited m k = None \<and> manager_credited m' k = Some c \<longrightarrow> k = (r, src) \<and> c = b) \<and>
    (x = None \<and> src \<noteq> [] \<longrightarrow> manager_credited m' (r, src) \<noteq> None)"
proof -
  let ?run = "manager_ApplyGrant (eGet E) (eAdm E) (eNow E) (eSave E) (eLoad E) (eBetween E) (eOrd1 E (bItems b)) (eOrd2 E (bItems b)) r b src m"
  have m': "m' = snd ?run" and xx: "x = None \<longleftrightarrow> (\<exists>u. fst ?run = Inr u)"
    using assms(1) by (auto simp: local_grant_def split: prod.splits sum.splits)
  have ok: "manager_ok m'" unfolding m' using assms(2) by (intro manager_ApplyGrant_ok) (simp add: manager_live_def)
  obtain g m1 where g: "manager_Get (eGet E) (eNow E) r m = (g, m1)" by fastforce
  note gc = Get_credited [OF g assms(2)]
  show ?thesis
  proof (cases g)
    case (Inl e)
    then have "m' = m1" "x \<noteq> None" using m' xx g by (simp_all add: manager_ApplyGrant_def)
    then show ?thesis using gc by auto
  next
    case (Inr q)
    obtain rp where rp: "gRoles m1 = Some rp" using gc [of undefined] by (auto simp: manager_live_def)
    have id: "pID (gHeap m1 q) = r" using gc Inr by blast
    let ?task = "grant_task (eSave E) (eLoad E) (eBetween E) (eOrd1 E (bItems b)) (eOrd2 E (bItems b)) b src"
    obtain y a st where iv: "Invoke (eAdm E) (eNow E) ?task (gHeap m1 q, Some rp) = (y, a, st)" by (rule prod_cases3)
    have r1: "gRoles m' = st" "x = None \<longleftrightarrow> (\<exists>u. y = Inr u)"
      using m' xx g Inr iv rp
      by (cases y; auto simp: manager_ApplyGrant_def ApplyGrant_def on_actor_def)+
    obtain rp' where st: "st = Some rp'" and la: "ledger_after r src b rp rp'"
      and cr: "\<And>u. y = Inr u \<Longrightarrow> src \<noteq> [] \<Longrightarrow> ledger (role_db rp' r) (r, src) \<noteq> None"
    proof (cases "pClosed (gHeap m1 q) \<or> eAdm E = CtxDone")
      case True
      then have "st = Some rp \<and> (\<forall>u. y \<noteq> Inr u)"
        using iv by (auto simp: Invoke_def mailbox_Call_def touch_def split: if_splits admission.splits)
      then show ?thesis using that [of rp] by auto
    next
      case False
      then have "?task (touch (eNow E) (gHeap m1 q), Some rp) = (y, a, st)"
        using iv by (cases "eAdm E") (auto simp: Invoke_def mailbox_Call_def touch_def)
      from grant_task_ledger [OF this assms(3)] id show ?thesis using that by (auto simp: touch_def)
    qed
    have cm: "manager_credited m k = map_option snd (ledger (role_db rp (fst k)) k)" for k
      using gc [of k] rp by (simp add: manager_credited_def)
    have cm': "manager_credited m' k = map_option snd (ledger (role_db rp' (fst k)) k)" for k
      using r1 st by (simp add: manager_credited_def)
    show ?thesis
      using ok r1 st cr la unfolding cm cm' ledger_after_def manager_live_def by fastforce
  qed
qed

lemma local_grant_granter: "benign (eBetween E) \<Longrightarrow> granter manager_credited (local_grant E) manager_live"
  by unfold_locales (use local_grant_ledger in blast)+

lemma benign_id [simp]: "benign id"
  by (simp add: benign_def)

text \<open>The manager of a process that is alone on the databases during the call is a granter.\<close>

interpretation players: granter manager_credited "local_grant (E\<lparr>eBetween := id\<rparr>)" manager_live
  by (rule local_grant_granter) simp

section \<open>A small game process\<close>

definition demo_env :: call_env where
  "demo_env = \<lparr>eGet = Done, eAdm = Admitted, eNow = 5, eSave = Done, eLoad = Done, eBetween = id, eOrd1 = id, eOrd2 = id\<rparr>"

text \<open>Two roles on one database: role 7 has gold to spend, role 8 sells.\<close>

definition market_db :: pgdb where
  "market_db = empty_db\<lparr>roles := Map.empty(
     7 \<mapsto> \<lparr>rAccountID = 1, rZoneID = 1, rName = ''b'', rLevel = 1, rSnapshot = json_Marshal ((demo_snap 1 1)\<lparr>snGold := 10\<rparr>), rVersion = 1, rOwnerEpoch = 1\<rparr>,
     8 \<mapsto> \<lparr>rAccountID = 2, rZoneID = 1, rName = ''s'', rLevel = 1, rSnapshot = json_Marshal ((demo_snap 1 1)\<lparr>snBag := Some (Map.empty(''gem'' \<mapsto> 1))\<rparr>), rVersion = 1, rOwnerEpoch = 1\<rparr>)\<rparr>"

definition market :: manager where
  "market = NewManager (Some \<lparr>pools = (\<lambda>_. market_db), npools = 1\<rparr>) ''sync'' 0 1 demo_actor"

lemma market_live: "manager_live market"
  by (simp add: manager_live_def market_def manager_ok_New) (simp add: NewManager_def)

lemmas market_simps = local_grant_def manager_ApplyGrant_def manager_Get_def manager_Owns_def Owns_def market_def NewManager_def
  RoleRepo_Acquire_def RoleRepo_SaveIdempotent_def on_pool_eq role_db_def poolFor_def indexForRole_def market_db_def empty_db_def
  Repo_Acquire_def decodeRoleSnapshot_def json_Marshal_def json_Unmarshal_def row_columns_def zero_snapshot_def or_keep_def nonnil_def
  demo_snap_def New_def skill_FromSnapshot_def quest_FromSnapshot_def on_actor_def ApplyGrant_def Invoke_def mailbox_Call_def touch_def
  grant_task_def applyBundleUnsafe_def demo_env_def Repo_SaveIdempotent_def update_role_def dropIfStale_def

lemma demo_env_benign: "benign (eBetween demo_env)"
  by (simp add: demo_env_def)

end
