(* ===== verification/Auction.thy ===== *)
theory Auction
  imports Player_Grants
begin

text \<open>
  The auction house: the table \<open>auction_listings\<close> (\<^verbatim>\<open>pkg/repo/auction.go\<close>) and the sagas that move items
  and gold (\<^verbatim>\<open>services/game/internal/auction/service.go\<close>). The table is a list in id order. A saga is a
  sequence of separate calls; each may fail or lose its reply, so the sagas take the outcome of every
  call. Grants go to the player manager of this process or, for the seller, through the router to the
  process that owns the seller.
\<close>

section \<open>The table\<close>

definition AuctionOpen :: int where "AuctionOpen = 0"
definition AuctionSold :: int where "AuctionSold = 1"
definition AuctionCancel :: int where "AuctionCancel = 2"
definition AuctionPending :: int where "AuctionPending = 3"
definition AuctionReserved :: int where "AuctionReserved = 4"

lemmas auction_status_defs = AuctionOpen_def AuctionSold_def AuctionCancel_def AuctionPending_def AuctionReserved_def

record auction_listing =
  lID :: int
  lSeller :: int
  lItem :: string
  lQty :: int
  lPrice :: int
  lStatus :: int
  lBuyer :: int
  lKey :: "string option"

text \<open>\<open>lBuyer\<close> is 0 for a NULL buyer, which no comparison with a buyer id matches.\<close>

record auction_db =
  listings :: "auction_listing list"
  listing_seq :: int

definition empty_auction :: auction_db where
  "empty_auction = \<lparr>listings = [], listing_seq = 1\<rparr>"

definition find_listing :: "int \<Rightarrow> auction_db \<Rightarrow> auction_listing option" where
  "find_listing i db = find (\<lambda>l. lID l = i) (listings db)"

definition update_listing :: "(auction_listing \<Rightarrow> bool) \<Rightarrow> (auction_listing \<Rightarrow> auction_listing) \<Rightarrow> auction_db \<Rightarrow> auction_db" where
  "update_listing c f db = db\<lparr>listings := map (\<lambda>l. if c l then f l else l) (listings db)\<rparr>"

definition GetOrCreatePending :: "outcome \<Rightarrow> string \<Rightarrow> auction_listing \<Rightarrow> auction_db \<Rightarrow> auction_listing res \<times> auction_db" where
  "GetOrCreatePending oc requestKey l db = store_call oc db
     (case find (\<lambda>x. lKey x = Some requestKey) (listings db) of
        Some x \<Rightarrow> (Inr x, db\<lparr>listing_seq := listing_seq db + 1\<rparr>)
      | None \<Rightarrow>
          let x = l\<lparr>lID := listing_seq db, lStatus := AuctionPending, lBuyer := 0, lKey := Some requestKey\<rparr>
          in (Inr x, db\<lparr>listings := listings db @ [x], listing_seq := listing_seq db + 1\<rparr>))"

definition Activate :: "outcome \<Rightarrow> int \<Rightarrow> int \<Rightarrow> auction_db \<Rightarrow> unit res \<times> auction_db" where
  "Activate oc i sellerRoleID db = store_call oc db
     (let c = (\<lambda>l. lID l = i \<and> lSeller l = sellerRoleID \<and> (lStatus l = AuctionPending \<or> lStatus l = AuctionOpen)) in
      if \<exists>l \<in> set (listings db). c l then (Inr (), update_listing c (\<lambda>l. l\<lparr>lStatus := AuctionOpen\<rparr>) db)
      else (Inl ErrNoRows, db))"

definition Reserve :: "outcome \<Rightarrow> int \<Rightarrow> int \<Rightarrow> auction_db \<Rightarrow> auction_listing res \<times> auction_db" where
  "Reserve oc i buyerRoleID db = store_call oc db
     (let c = (\<lambda>l. lID l = i \<and> (lStatus l = AuctionOpen \<or> lStatus l = AuctionReserved \<and> lBuyer l = buyerRoleID));
          f = (\<lambda>l. l\<lparr>lStatus := AuctionReserved, lBuyer := buyerRoleID\<rparr>) in
      case find c (listings db) of
        None \<Rightarrow> (Inl ErrNoRows, db)
      | Some l \<Rightarrow> (Inr (f l), update_listing c f db))"

definition ReleaseReservation :: "outcome \<Rightarrow> int \<Rightarrow> int \<Rightarrow> auction_db \<Rightarrow> unit res \<times> auction_db" where
  "ReleaseReservation oc i buyerRoleID db = store_call oc db
     (Inr (), update_listing (\<lambda>l. lID l = i \<and> lBuyer l = buyerRoleID \<and> lStatus l = AuctionReserved)
        (\<lambda>l. l\<lparr>lStatus := AuctionOpen, lBuyer := 0\<rparr>) db)"

definition auction_Create :: "outcome \<Rightarrow> auction_listing \<Rightarrow> auction_db \<Rightarrow> int res \<times> auction_db" where
  "auction_Create oc l db = store_call oc db
     (Inr (listing_seq db),
      db\<lparr>listings := listings db @ [l\<lparr>lID := listing_seq db, lStatus := AuctionOpen, lBuyer := 0, lKey := None\<rparr>],
         listing_seq := listing_seq db + 1\<rparr>)"

definition auction_Get :: "outcome \<Rightarrow> int \<Rightarrow> auction_db \<Rightarrow> auction_listing res \<times> auction_db" where
  "auction_Get oc i db = store_call oc db
     (case find_listing i db of None \<Rightarrow> (Inl ErrNoRows, db) | Some l \<Rightarrow> (Inr l, db))"

definition ListOpen :: "outcome \<Rightarrow> int \<Rightarrow> auction_db \<Rightarrow> auction_listing list res \<times> auction_db" where
  "ListOpen oc limit db = store_call oc db
     (let limit = nat (if limit \<le> 0 then 50 else limit)
      in (Inr (take limit (rev (filter (\<lambda>l. lStatus l = AuctionOpen) (listings db)))), db))"

definition MarkSold :: "outcome \<Rightarrow> int \<Rightarrow> int \<Rightarrow> auction_db \<Rightarrow> unit res \<times> auction_db" where
  "MarkSold oc i buyerRoleID db = store_call oc db
     (let c = (\<lambda>l. lID l = i \<and> (lStatus l = AuctionReserved \<or> lStatus l = AuctionSold) \<and> lBuyer l = buyerRoleID) in
      if \<exists>l \<in> set (listings db). c l then (Inr (), update_listing c (\<lambda>l. l\<lparr>lStatus := AuctionSold, lBuyer := buyerRoleID\<rparr>) db)
      else (Inl ErrNoRows, db))"

section \<open>The service\<close>

record listing =
  ID :: int
  SellerRoleID :: int
  ItemID :: string
  Qty :: int
  Price :: int

record auction_svc =
  svcRepo :: "auction_db option"
  svcMem :: "listing list"
  svcNextID :: int

definition to_listing :: "auction_listing \<Rightarrow> listing" where
  "to_listing l = \<lparr>ID = lID l, SellerRoleID = lSeller l, ItemID = lItem l, Qty = lQty l, Price = lPrice l\<rparr>"

definition auction_List :: "outcome \<Rightarrow> int \<Rightarrow> auction_svc \<Rightarrow> listing list res \<times> auction_svc" where
  "auction_List oc limit s =
     (case svcRepo s of
        Some db \<Rightarrow>
          (case ListOpen oc limit db of
             (Inl e, db) \<Rightarrow> (Inl e, s\<lparr>svcRepo := Some db\<rparr>)
           | (Inr rows, db) \<Rightarrow> (Inr (map to_listing rows), s\<lparr>svcRepo := Some db\<rparr>))
      | None \<Rightarrow> (Inr (svcMem s), s))"

definition remove_items :: "string \<Rightarrow> int \<Rightarrow> actor \<Rightarrow> unit res \<times> actor" where
  "remove_items itemID qty pl =
     (case bag_Remove (pInv pl) itemID qty of
        (False, bg) \<Rightarrow> (Inl (ErrMsg ''insufficient items''), pl\<lparr>pInv := bg\<rparr>)
      | (True, bg) \<Rightarrow> (Inr (), pl\<lparr>pInv := bg\<rparr>))"

definition new_listing :: "int \<Rightarrow> string \<Rightarrow> int \<Rightarrow> int \<Rightarrow> auction_listing" where
  "new_listing sellerRoleID itemID qty price =
     \<lparr>lID = 0, lSeller = sellerRoleID, lItem = itemID, lQty = qty, lPrice = price, lStatus = AuctionOpen, lBuyer = 0, lKey = None\<rparr>"

text \<open>The part of \<open>CreateWithKey\<close> that runs with a database.\<close>

definition create_repo :: "outcome \<Rightarrow> call_env \<Rightarrow> outcome \<Rightarrow> int \<Rightarrow> string \<Rightarrow> int \<Rightarrow> int \<Rightarrow> string
    \<Rightarrow> auction_db \<times> manager \<Rightarrow> listing res \<times> auction_db \<times> manager" where
  "create_repo oc1 E oc2 sellerRoleID itemID qty price requestKey s =
     (let (db, m) = s in
      if requestKey = [] then (Inl (ErrMsg ''request_id required''), db, m)
      else case GetOrCreatePending oc1 requestKey (new_listing sellerRoleID itemID qty price) db of
        (Inl e, db) \<Rightarrow> (Inl e, db, m)
      | (Inr p, db) \<Rightarrow>
          if lSeller p \<noteq> sellerRoleID \<or> lItem p \<noteq> itemID \<or> lQty p \<noteq> qty \<or> lPrice p \<noteq> price
          then (Inl (ErrMsg ''request_id already used with different listing''), db, m)
          else if lStatus p = AuctionOpen then (Inr (to_listing p), db, m)
          else if lStatus p \<noteq> AuctionPending then (Inl (ErrMsg ''listing cannot be activated''), db, m)
          else case local_grant E sellerRoleID \<lparr>bGold = 0, bItems = [(itemID, i32 (- qty))]\<rparr> (''auction:escrow:'' @ FormatInt (lID p)) m of
            (Some e, m) \<Rightarrow> (Inl e, db, m)
          | (None, m) \<Rightarrow>
              (case Activate oc2 (lID p) sellerRoleID db of
                 (Inl e, db) \<Rightarrow> (Inl e, db, m)
               | (Inr _, db) \<Rightarrow> (Inr (to_listing p), db, m)))"

definition CreateWithKey :: "outcome \<Rightarrow> call_env \<Rightarrow> outcome \<Rightarrow> int \<Rightarrow> string \<Rightarrow> int \<Rightarrow> int \<Rightarrow> string
    \<Rightarrow> auction_svc \<times> manager \<Rightarrow> listing res \<times> auction_svc \<times> manager" where
  "CreateWithKey oc1 E oc2 sellerRoleID itemID qty price requestKey s =
     (let (svc, m) = s in
      if sellerRoleID \<le> 0 \<or> itemID = [] \<or> qty \<le> 0 \<or> price \<le> 0 then (Inl (ErrMsg ''invalid listing''), svc, m)
      else case svcRepo svc of
        Some db \<Rightarrow>
          let (r, db, m) = create_repo oc1 E oc2 sellerRoleID itemID qty price requestKey (db, m)
          in (r, svc\<lparr>svcRepo := Some db\<rparr>, m)
      | None \<Rightarrow>
          (case WithPlayerSaved (eGet E) (eAdm E) (eSave E) (eNow E) sellerRoleID (remove_items itemID qty) m of
             (Inl e, m) \<Rightarrow> (Inl e, svc, m)
           | (Inr _, m) \<Rightarrow>
               let n = i64 (svcNextID svc + 1);
                   l = \<lparr>ID = n, SellerRoleID = sellerRoleID, ItemID = itemID, Qty = qty, Price = price\<rparr>
               in (Inr l, svc\<lparr>svcNextID := n, svcMem := svcMem svc @ [l]\<rparr>, m)))"

definition auction_service_Create :: "outcome \<Rightarrow> call_env \<Rightarrow> outcome \<Rightarrow> int \<Rightarrow> string \<Rightarrow> int \<Rightarrow> int
    \<Rightarrow> auction_svc \<times> manager \<Rightarrow> listing res \<times> auction_svc \<times> manager" where
  "auction_service_Create oc1 E oc2 sellerRoleID itemID qty price = CreateWithKey oc1 E oc2 sellerRoleID itemID qty price []"

text \<open>
  The part of \<open>Buy\<close> that runs with a database, one call after the other. \<open>Eb\<close> and \<open>seller\<close> are the calls
  that charge the buyer and pay the seller; \<open>ocs\<close> are the outcomes of the four table calls.
\<close>

record buy_ocs =
  oGet :: outcome
  oReserve :: outcome
  oRelease :: outcome
  oMark :: outcome

definition buyer_source :: "auction_listing \<Rightarrow> string" where
  "buyer_source l = ''auction:buyer:'' @ FormatInt (lID l)"

definition seller_source :: "auction_listing \<Rightarrow> string" where
  "seller_source l = ''auction:seller:'' @ FormatInt (lID l)"

definition buyer_bundle :: "auction_listing \<Rightarrow> grant_bundle" where
  "buyer_bundle l = \<lparr>bGold = i64 (- lPrice l), bItems = [(lItem l, lQty l)]\<rparr>"

definition seller_bundle :: "auction_listing \<Rightarrow> grant_bundle" where
  "seller_bundle l = \<lparr>bGold = lPrice l, bItems = []\<rparr>"

definition buy_repo :: "buy_ocs \<Rightarrow> granter_fn \<Rightarrow> granter_fn \<Rightarrow> int \<Rightarrow> int \<Rightarrow> auction_db \<times> manager \<Rightarrow> listing res \<times> auction_db \<times> manager" where
  "buy_repo ocs charge pay buyerRoleID listingID s =
     (let (db, m) = s in
      case auction_Get (oGet ocs) listingID db of
        (Inl _, db) \<Rightarrow> (Inl (ErrMsg ''listing not found''), db, m)
      | (Inr l, db) \<Rightarrow>
          if lStatus l = AuctionSold \<and> lBuyer l = buyerRoleID then (Inr (to_listing l), db, m)
          else if lStatus l \<noteq> AuctionOpen \<and> \<not> (lStatus l = AuctionReserved \<and> lBuyer l = buyerRoleID)
          then (Inl (ErrMsg ''listing not available''), db, m)
          else if lSeller l = buyerRoleID then (Inl (ErrMsg ''cannot buy own listing''), db, m)
          else case Reserve (oReserve ocs) listingID buyerRoleID db of
            (Inl _, db) \<Rightarrow> (Inl (ErrMsg ''listing not available''), db, m)
          | (Inr l, db) \<Rightarrow>
              (case charge buyerRoleID (buyer_bundle l) (buyer_source l) m of
                 (Some e, m) \<Rightarrow>
                   if e = ErrInsufficientGold then
                     (case ReleaseReservation (oRelease ocs) (lID l) buyerRoleID db of
                        (Inl _, db) \<Rightarrow> (Inl (ErrMsg ''release failed reservation''), db, m)
                      | (Inr _, db) \<Rightarrow> (Inl e, db, m))
                   else (Inl e, db, m)
               | (None, m) \<Rightarrow>
                   (case pay (lSeller l) (seller_bundle l) (seller_source l) m of
                      (Some e, m) \<Rightarrow> (Inl e, db, m)
                    | (None, m) \<Rightarrow>
                        (case MarkSold (oMark ocs) listingID buyerRoleID db of
                           (Inl e, db) \<Rightarrow> (Inl e, db, m)
                         | (Inr _, db) \<Rightarrow> (Inr (to_listing l), db, m)))))"

text \<open>The part of \<open>Buy\<close> that runs in memory; errors of the two saves and of the seller's credit are ignored.\<close>

definition spend_and_take :: "listing \<Rightarrow> actor \<Rightarrow> bool res \<times> actor" where
  "spend_and_take l buyer =
     (case SpendGold (Price l) buyer of
        (False, buyer) \<Rightarrow> (Inr False, buyer)
      | (True, buyer) \<Rightarrow> (Inr True, buyer\<lparr>pInv := bag_Add (pInv buyer) (ItemID l) (Qty l)\<rparr>))"

definition buy_mem :: "call_env \<Rightarrow> call_env \<Rightarrow> call_env \<Rightarrow> call_env \<Rightarrow> int \<Rightarrow> int \<Rightarrow> auction_svc \<times> manager \<Rightarrow> listing res \<times> auction_svc \<times> manager" where
  "buy_mem E1 E2 E3 E4 buyerRoleID listingID s =
     (let (svc, m) = s in
      case find (\<lambda>l. ID l = listingID) (svcMem svc) of
        None \<Rightarrow> (Inl (ErrMsg ''listing not found''), svc, m)
      | Some l \<Rightarrow>
          if SellerRoleID l = buyerRoleID then (Inl (ErrMsg ''cannot buy own listing''), svc, m)
          else case WithPlayer (eGet E1) (eAdm E1) (eNow E1) buyerRoleID (spend_and_take l) m of
            (Inl e, m) \<Rightarrow> (Inl e, svc, m)
          | (Inr paid, m) \<Rightarrow>
              if \<not> paid then (Inl (ErrMsg ''insufficient gold''), svc, m)
              else
                let m = snd (SaveNow (eGet E2) (eAdm E2) (eSave E2) (eNow E2) buyerRoleID m);
                    m = snd (WithPlayer (eGet E3) (eAdm E3) (eNow E3) (SellerRoleID l) (\<lambda>a. (Inr (), AddGold (Price l) a)) m);
                    m = snd (SaveNow (eGet E4) (eAdm E4) (eSave E4) (eNow E4) (SellerRoleID l) m)
                in (Inr l, svc\<lparr>svcMem := remove1 l (svcMem svc)\<rparr>, m))"

definition Buy :: "buy_ocs \<Rightarrow> call_env \<Rightarrow> call_env \<Rightarrow> call_env \<Rightarrow> call_env \<Rightarrow> granter_fn option \<Rightarrow> int \<Rightarrow> int
    \<Rightarrow> auction_svc \<times> manager \<Rightarrow> listing res \<times> auction_svc \<times> manager" where
  "Buy ocs E1 E2 E3 E4 rt buyerRoleID listingID s =
     (let (svc, m) = s in
      if buyerRoleID \<le> 0 \<or> listingID \<le> 0 then (Inl (ErrMsg ''invalid purchase''), svc, m)
      else case svcRepo svc of
        Some db \<Rightarrow>
          let pay = (case rt of None \<Rightarrow> local_grant E2 | Some g \<Rightarrow> g);
              (r, db, m) = buy_repo ocs (local_grant E1) pay buyerRoleID listingID (db, m)
          in (r, svc\<lparr>svcRepo := Some db\<rparr>, m)
      | None \<Rightarrow> buy_mem E1 E2 E3 E4 buyerRoleID listingID s)"

section \<open>Histories of the table\<close>

text \<open>All statements that any process can run on the table, in commit order.\<close>

datatype auction_op =
    AGetOrCreate outcome string auction_listing
  | ACreate outcome auction_listing
  | AActivate outcome int int
  | AReserve outcome int int
  | ARelease outcome int int
  | AMarkSold outcome int int

fun auction_step :: "auction_op \<Rightarrow> auction_db \<Rightarrow> auction_db" where
  "auction_step (AGetOrCreate oc k l) db = snd (GetOrCreatePending oc k l db)"
| "auction_step (ACreate oc l) db = snd (auction_Create oc l db)"
| "auction_step (AActivate oc i s) db = snd (Activate oc i s db)"
| "auction_step (AReserve oc i b) db = snd (Reserve oc i b db)"
| "auction_step (ARelease oc i b) db = snd (ReleaseReservation oc i b db)"
| "auction_step (AMarkSold oc i b) db = snd (MarkSold oc i b db)"

definition auction_run :: "auction_op list \<Rightarrow> auction_db \<Rightarrow> auction_db" where
  "auction_run ops db = foldl (\<lambda>db op. auction_step op db) db ops"

lemma auction_run_simps [simp]:
  "auction_run [] db = db" "auction_run (op # ops) db = auction_run ops (auction_step op db)"
  by (simp_all add: auction_run_def)

text \<open>What a statement does to one row: the states and transitions of a listing.\<close>

fun listing_next :: "auction_op \<Rightarrow> auction_listing \<Rightarrow> auction_listing" where
  "listing_next (AActivate oc i s) l =
     (if oc \<noteq> Failed \<and> lID l = i \<and> lSeller l = s \<and> (lStatus l = AuctionPending \<or> lStatus l = AuctionOpen)
      then l\<lparr>lStatus := AuctionOpen\<rparr> else l)"
| "listing_next (AReserve oc i b) l =
     (if oc \<noteq> Failed \<and> lID l = i \<and> (lStatus l = AuctionOpen \<or> lStatus l = AuctionReserved \<and> lBuyer l = b)
      then l\<lparr>lStatus := AuctionReserved, lBuyer := b\<rparr> else l)"
| "listing_next (ARelease oc i b) l =
     (if oc \<noteq> Failed \<and> lID l = i \<and> lBuyer l = b \<and> lStatus l = AuctionReserved
      then l\<lparr>lStatus := AuctionOpen, lBuyer := 0\<rparr> else l)"
| "listing_next (AMarkSold oc i b) l =
     (if oc \<noteq> Failed \<and> lID l = i \<and> (lStatus l = AuctionReserved \<or> lStatus l = AuctionSold) \<and> lBuyer l = b
      then l\<lparr>lStatus := AuctionSold, lBuyer := b\<rparr> else l)"
| "listing_next _ l = l"

definition auction_ok :: "auction_db \<Rightarrow> bool" where
  "auction_ok db \<longleftrightarrow> distinct (map lID (listings db)) \<and> (\<forall>l \<in> set (listings db). lID l < listing_seq db)"

lemma listing_next_core [simp]:
  "lID (listing_next op l) = lID l" "lSeller (listing_next op l) = lSeller l" "lItem (listing_next op l) = lItem l"
  "lQty (listing_next op l) = lQty l" "lPrice (listing_next op l) = lPrice l" "lKey (listing_next op l) = lKey l"
  by (cases op; simp)+

lemma listing_next_new [simp]:
  "map (listing_next (AGetOrCreate a k c)) xs = xs" "map (listing_next (ACreate a c)) xs = xs"
  by (simp_all add: map_idI)

lemma auction_step_rows:
  "\<exists>new. listings (auction_step op db) = map (listing_next op) (listings db) @ new \<and>
     (\<forall>l \<in> set new. lID l = listing_seq db \<and> lStatus l \<noteq> AuctionSold) \<and> length new \<le> 1 \<and>
     listing_seq (auction_step op db) \<ge> listing_seq db + int (length new)"
proof (cases op)
  case (AGetOrCreate oc k l)
  then show ?thesis
    by (cases "find (\<lambda>x. lKey x = Some k) (listings db)")
      (auto simp: GetOrCreatePending_def store_call_state Let_def auction_status_defs)
next
  case (ACreate oc l)
  then show ?thesis by (auto simp: auction_Create_def store_call_state auction_status_defs)
next
  case (AActivate oc i s)
  then show ?thesis
    by (auto simp: Activate_def store_call_state update_listing_def Let_def intro!: map_cong map_idI [symmetric])
next
  case (AReserve oc i b)
  then show ?thesis
    by (auto simp: Reserve_def store_call_state update_listing_def Let_def find_None_iff
        intro!: map_cong map_idI [symmetric] split: option.splits)
next
  case (ARelease oc i b)
  then show ?thesis
    by (auto simp: ReleaseReservation_def store_call_state update_listing_def Let_def intro!: map_cong map_idI [symmetric])
next
  case (AMarkSold oc i b)
  then show ?thesis
    by (auto simp: MarkSold_def store_call_state update_listing_def Let_def intro!: map_cong map_idI [symmetric])
qed

lemma auction_step_ok: "auction_ok db \<Longrightarrow> auction_ok (auction_step op db)"
proof -
  assume ok: "auction_ok db"
  obtain new where n: "listings (auction_step op db) = map (listing_next op) (listings db) @ new"
    "\<forall>l \<in> set new. lID l = listing_seq db \<and> lStatus l \<noteq> AuctionSold" "length new \<le> 1"
    "listing_seq (auction_step op db) \<ge> listing_seq db + int (length new)"
    using auction_step_rows by blast
  have "distinct (map lID new)" using n(3) by (cases new) auto
  moreover have "set (map lID (listings db)) \<inter> set (map lID new) = {}" using ok n(2) by (fastforce simp: auction_ok_def)
  moreover have "map lID (map (listing_next op) (listings db)) = map lID (listings db)" by simp
  ultimately have "distinct (map lID (listings (auction_step op db)))"
    using ok n(1) by (simp only: map_append distinct_append auction_ok_def simp_thms)
  moreover have "\<forall>l \<in> set (listings (auction_step op db)). lID l < listing_seq (auction_step op db)"
    using ok n by (cases new) (fastforce simp: auction_ok_def)+
  ultimately show ?thesis by (simp add: auction_ok_def)
qed

lemma auction_step_find:
  "find_listing i db = Some l \<Longrightarrow> find_listing i (auction_step op db) = Some (listing_next op l)"
proof -
  assume f: "find_listing i db = Some l"
  obtain new where n: "listings (auction_step op db) = map (listing_next op) (listings db) @ new"
    using auction_step_rows by blast
  show ?thesis
    unfolding find_listing_def n
    by (rule find_append_Some) (use f find_map_key [of lID "listing_next op" i "listings db"] in \<open>simp add: find_listing_def\<close>)
qed

lemma auction_run_sold:
  "find_listing i db = Some l \<Longrightarrow> lStatus l = AuctionSold \<Longrightarrow>
   \<exists>l'. find_listing i (auction_run ops db) = Some l' \<and> lStatus l' = AuctionSold \<and> lBuyer l' = lBuyer l"
proof (induction ops arbitrary: db l)
  case (Cons op ops)
  have "lStatus (listing_next op l) = AuctionSold \<and> lBuyer (listing_next op l) = lBuyer l"
    using Cons.prems(2) by (cases op) (auto simp: auction_status_defs)
  with Cons.IH [OF auction_step_find [OF Cons.prems(1), of op]] show ?case by simp
qed simp

lemma MarkSold_Inr:
  assumes "MarkSold oc i b db = (Inr u, db')" and "auction_ok db"
  shows "\<exists>l. find_listing i db' = Some l \<and> lStatus l = AuctionSold \<and> lBuyer l = b \<and>
    (\<exists>l0. find_listing i db = Some l0 \<and> l = listing_next (AMarkSold oc i b) l0 \<and>
       (lStatus l0 = AuctionReserved \<or> lStatus l0 = AuctionSold) \<and> lBuyer l0 = b)"
proof -
  have db': "db' = auction_step (AMarkSold oc i b) db" using assms(1) by simp
  obtain l0 where l0: "l0 \<in> set (listings db)" "lID l0 = i" "lStatus l0 = AuctionReserved \<or> lStatus l0 = AuctionSold" "lBuyer l0 = b"
    and oc: "oc = Done"
    using assms(1) by (auto simp: MarkSold_def store_call_Inr Let_def split: if_splits)
  have "distinct (map lID (listings db))" using assms(2) by (simp add: auction_ok_def)
  then have f: "find_listing i db = Some l0" unfolding find_listing_def using l0 by (simp add: find_key_mem)
  from auction_step_find [OF f, of "AMarkSold oc i b"] f l0 oc show ?thesis unfolding db' by auto
qed

lemma Reserve_Inr:
  assumes "Reserve oc i b db = (Inr l, db')" and "auction_ok db"
  shows "find_listing i db' = Some l \<and> lStatus l = AuctionReserved \<and> lBuyer l = b \<and> lID l = i \<and>
    (\<exists>l0. find_listing i db = Some l0 \<and> l = listing_next (AReserve oc i b) l0 \<and>
       (lStatus l0 = AuctionOpen \<or> lStatus l0 = AuctionReserved \<and> lBuyer l0 = b))"
proof -
  have db': "db' = auction_step (AReserve oc i b) db" using assms(1) by simp
  obtain l0 where fnd: "find (\<lambda>l. lID l = i \<and> (lStatus l = AuctionOpen \<or> lStatus l = AuctionReserved \<and> lBuyer l = b)) (listings db) = Some l0"
    and l: "l = l0\<lparr>lStatus := AuctionReserved, lBuyer := b\<rparr>" and oc: "oc = Done"
    using assms(1) by (auto simp: Reserve_def store_call_Inr Let_def split: option.splits)
  have l0: "l0 \<in> set (listings db)" "lID l0 = i" "lStatus l0 = AuctionOpen \<or> lStatus l0 = AuctionReserved \<and> lBuyer l0 = b"
    using find_Some_mem [OF fnd] by auto
  have "distinct (map lID (listings db))" using assms(2) by (simp add: auction_ok_def)
  then have f: "find_listing i db = Some l0" unfolding find_listing_def using l0 by (simp add: find_key_mem)
  from auction_step_find [OF f, of "AReserve oc i b"] f l0 oc l show ?thesis unfolding db' by auto
qed

section \<open>Items and gold follow the state of the listing\<close>

definition escrow_source :: "auction_listing \<Rightarrow> string" where
  "escrow_source l = ''auction:escrow:'' @ FormatInt (lID l)"

text \<open>
  The invariant of the sagas: a listing created under a request key that has left the pending state
  has its item in escrow, and a sold listing has charged its buyer and paid its seller.
\<close>

definition backed :: "manager \<Rightarrow> auction_listing \<Rightarrow> bool" where
  "backed m l \<longleftrightarrow>
     (lKey l \<noteq> None \<and> lStatus l \<noteq> AuctionPending \<longrightarrow> manager_credited m (lSeller l, escrow_source l) \<noteq> None) \<and>
     (lStatus l = AuctionSold \<longrightarrow>
        manager_credited m (lBuyer l, buyer_source l) \<noteq> None \<and> manager_credited m (lSeller l, seller_source l) \<noteq> None)"

definition auction_inv :: "auction_db \<Rightarrow> manager \<Rightarrow> bool" where
  "auction_inv db m \<longleftrightarrow> auction_ok db \<and> (\<forall>l \<in> set (listings db). backed m l)"

definition credits_grow :: "manager \<Rightarrow> manager \<Rightarrow> bool" where
  "credits_grow m m' \<longleftrightarrow> (\<forall>k. manager_credited m k \<noteq> None \<longrightarrow> manager_credited m' k \<noteq> None)"

lemma credits_grow_refl [simp]: "credits_grow m m"
  by (simp add: credits_grow_def)

lemma credits_grow_trans: "credits_grow a b \<Longrightarrow> credits_grow b c \<Longrightarrow> credits_grow a c"
  by (simp add: credits_grow_def)

lemma backed_mono: "backed m l \<Longrightarrow> credits_grow m m' \<Longrightarrow> backed m' l"
  unfolding backed_def credits_grow_def by blast

lemma granter_grows: "granter manager_credited g manager_live \<Longrightarrow> manager_live m \<Longrightarrow> g r b src m = (x, m') \<Longrightarrow> credits_grow m m'"
  using granter.grant_keeps unfolding credits_grow_def by fastforce

text \<open>When a statement keeps the invariant: activation needs the escrow, a sale needs both grants.\<close>

fun op_allowed :: "auction_op \<Rightarrow> auction_db \<Rightarrow> manager \<Rightarrow> bool" where
  "op_allowed (AActivate oc i s) db m =
     (\<forall>l \<in> set (listings db). lID l = i \<and> lSeller l = s \<longrightarrow> manager_credited m (lSeller l, escrow_source l) \<noteq> None)"
| "op_allowed (AMarkSold oc i b) db m =
     (\<forall>l \<in> set (listings db). lID l = i \<and> lBuyer l = b \<and> lStatus l \<noteq> AuctionOpen \<longrightarrow>
        manager_credited m (b, buyer_source l) \<noteq> None \<and> manager_credited m (lSeller l, seller_source l) \<noteq> None)"
| "op_allowed (ACreate oc l) db m = True"
| "op_allowed (AGetOrCreate oc k l) db m = True"
| "op_allowed (AReserve oc i b) db m = True"
| "op_allowed (ARelease oc i b) db m = True"

lemma sources_core [simp]:
  "escrow_source (listing_next op l) = escrow_source l" "buyer_source (listing_next op l) = buyer_source l"
  "seller_source (listing_next op l) = seller_source l"
  by (simp_all add: escrow_source_def buyer_source_def seller_source_def)

lemma backed_next:
  assumes "backed m l" and "l \<in> set (listings db)" and "op_allowed op db m"
  shows "backed m (listing_next op l)"
proof (cases op)
  case (AActivate oc i s)
  then show ?thesis using assms by (auto simp: backed_def escrow_source_def auction_status_defs)
next
  case (AMarkSold oc i b)
  then show ?thesis using assms by (auto simp: backed_def escrow_source_def buyer_source_def seller_source_def auction_status_defs)
qed (use assms in \<open>auto simp: backed_def escrow_source_def auction_status_defs\<close>)

lemma new_rows_pending:
  assumes "l \<in> set (listings (auction_step op db))" and "l \<notin> listing_next op ` set (listings db)"
  shows "backed m l"
proof (cases op)
  case (AGetOrCreate oc k x)
  then have "lStatus l = AuctionPending"
    using assms by (cases "find (\<lambda>x. lKey x = Some k) (listings db)")
      (auto simp: GetOrCreatePending_def store_call_state Let_def image_iff split: if_splits)
  then show ?thesis by (simp add: backed_def auction_status_defs)
next
  case (ACreate oc x)
  then have "lStatus l = AuctionOpen" "lKey l = None"
    using assms by (auto simp: auction_Create_def store_call_state image_iff split: if_splits)
  then show ?thesis by (simp add: backed_def auction_status_defs)
next
  case (AReserve oc i b)
  then show ?thesis using assms
    by (auto simp: Reserve_def store_call_state update_listing_def Let_def find_None_iff image_iff split: option.splits if_splits)
next
  case (AActivate oc i b)
  then show ?thesis using assms
    by (auto simp: Activate_def store_call_state update_listing_def Let_def image_iff split: if_splits)
next
  case (ARelease oc i b)
  then show ?thesis using assms
    by (auto simp: ReleaseReservation_def store_call_state update_listing_def Let_def image_iff split: if_splits)
next
  case (AMarkSold oc i b)
  then show ?thesis using assms
    by (auto simp: MarkSold_def store_call_state update_listing_def Let_def image_iff split: if_splits)
qed

lemma auction_inv_step:
  assumes "auction_inv db m" and "credits_grow m m'" and "op_allowed op db m'"
  shows "auction_inv (auction_step op db) m'"
proof -
  have "backed m' l" if l: "l \<in> set (listings (auction_step op db))" for l
  proof (cases "l \<in> listing_next op ` set (listings db)")
    case True
    then obtain l0 where "l = listing_next op l0" "l0 \<in> set (listings db)" by auto
    then show ?thesis using assms backed_next backed_mono by (auto simp: auction_inv_def)
  next
    case False
    from new_rows_pending [OF l False] show ?thesis .
  qed
  then show ?thesis using assms(1) auction_step_ok by (auto simp: auction_inv_def)
qed

lemma auction_inv_grow: "auction_inv db m \<Longrightarrow> credits_grow m m' \<Longrightarrow> auction_inv db m'"
  by (auto simp: auction_inv_def intro: backed_mono)

section \<open>The purchase saga\<close>

lemma auction_Get_same: "auction_Get oc i db = (x, db') \<Longrightarrow> db' = db \<and> (\<forall>l. x = Inr l \<longrightarrow> find_listing i db = Some l)"
  by (cases oc) (auto simp: auction_Get_def split: option.splits)

lemma source_nonempty [simp]: "buyer_source l \<noteq> []" "seller_source l \<noteq> []" "escrow_source l \<noteq> []"
  by (simp_all add: buyer_source_def seller_source_def escrow_source_def)

lemma find_listing_unique:
  "auction_ok db \<Longrightarrow> find_listing i db = Some l \<Longrightarrow> x \<in> set (listings db) \<Longrightarrow> lID x = i \<Longrightarrow> x = l"
  unfolding auction_ok_def find_listing_def by (metis find_key_mem option.inject)

lemma to_listing_next [simp]: "to_listing (listing_next op l) = to_listing l"
  by (simp add: to_listing_def)

text \<open>After the reservation: charge, pay, mark.\<close>

lemma settle_inv:
  assumes "granter manager_credited charge manager_live" and "granter manager_credited pay manager_live"
    and "manager_live m" and "auction_inv db m" and "Reserve oc i buyer db = (Inr l, db1)"
    and "charge buyer (buyer_bundle l) (buyer_source l) m = (None, m1)"
    and "pay (lSeller l) (seller_bundle l) (seller_source l) m1 = (None, m2)"
  shows "auction_inv (snd (MarkSold oc' i buyer db1)) m2 \<and> credits_grow m m2 \<and> manager_live m2 \<and>
    (\<forall>u. fst (MarkSold oc' i buyer db1) = Inr u \<longrightarrow> (\<exists>row. find_listing i (snd (MarkSold oc' i buyer db1)) = Some row \<and>
       lStatus row = AuctionSold \<and> lBuyer row = buyer \<and> to_listing row = to_listing l))"
proof -
  have live1: "manager_live m1" using granter.grant_live [OF assms(1,3,6)] .
  have live2: "manager_live m2" using granter.grant_live [OF assms(2) live1 assms(7)] .
  have g1: "credits_grow m m1" by (rule granter_grows [OF assms(1,3,6)])
  have g2: "credits_grow m1 m2" by (rule granter_grows [OF assms(2) live1 assms(7)])
  have c1: "manager_credited m2 (buyer, buyer_source l) \<noteq> None"
    using granter.grant_credits [OF assms(1,3) _ assms(6)] g2 by (simp add: credits_grow_def)
  have c2: "manager_credited m2 (lSeller l, seller_source l) \<noteq> None"
    using granter.grant_credits [OF assms(2) live1 _ assms(7)] by simp
  have ok: "auction_ok db" using assms(4) by (simp add: auction_inv_def)
  have db1: "db1 = auction_step (AReserve oc i buyer) db" using assms(5) by simp
  have inv1: "auction_inv db1 m" unfolding db1 by (rule auction_inv_step [OF assms(4)]) simp_all
  have f: "find_listing i db1 = Some l" using Reserve_Inr [OF assms(5) ok] by blast
  have ok1: "auction_ok db1" using inv1 by (simp add: auction_inv_def)
  have "op_allowed (AMarkSold oc' i buyer) db1 m2"
    using find_listing_unique [OF ok1 f] c1 c2 by auto
  from auction_inv_step [OF inv1 credits_grow_trans [OF g1 g2] this]
  have "auction_inv (snd (MarkSold oc' i buyer db1)) m2" by simp
  moreover have "\<exists>row. find_listing i (snd (MarkSold oc' i buyer db1)) = Some row \<and>
       lStatus row = AuctionSold \<and> lBuyer row = buyer \<and> to_listing row = to_listing l"
    if "fst (MarkSold oc' i buyer db1) = Inr u" for u
  proof -
    have "MarkSold oc' i buyer db1 = (Inr u, snd (MarkSold oc' i buyer db1))" using that by (simp add: prod_eq_iff)
    from MarkSold_Inr [OF this ok1] f show ?thesis by (auto simp del: listing_next.simps)
  qed
  ultimately show ?thesis using credits_grow_trans [OF g1 g2] live2 by blast
qed

lemma buy_repo_inv:
  assumes "granter manager_credited charge manager_live" and "granter manager_credited pay manager_live"
    and "manager_live m" and "auction_inv db m" and "buy_repo ocs charge pay buyer i (db, m) = (r, db', m')"
  shows "auction_inv db' m' \<and> credits_grow m m' \<and> manager_live m' \<and>
    (\<forall>x. r = Inr x \<longrightarrow> (\<exists>row. find_listing i db' = Some row \<and> lStatus row = AuctionSold \<and> lBuyer row = buyer \<and> to_listing row = x))"
proof -
  obtain g0 db0 where g: "auction_Get (oGet ocs) i db = (g0, db0)" by fastforce
  have db0: "db0 = db" and found: "\<And>l. g0 = Inr l \<Longrightarrow> find_listing i db = Some l" using auction_Get_same [OF g] by auto
  show ?thesis
  proof (cases g0)
    case (Inl e)
    then show ?thesis using assms(3-5) g db0 by (auto simp: buy_repo_def)
  next
    case (Inr l0)
    show ?thesis
    proof (cases "lStatus l0 = AuctionSold \<and> lBuyer l0 = buyer")
      case True
      then show ?thesis using assms(3-5) g db0 Inr found by (auto simp: buy_repo_def)
    next
      case open_l: False
      obtain rv db1 where rv: "Reserve (oReserve ocs) i buyer db = (rv, db1)" by fastforce
      have db1: "db1 = auction_step (AReserve (oReserve ocs) i buyer) db" using rv by simp
      have inv1: "auction_inv db1 m" unfolding db1 by (rule auction_inv_step [OF assms(4)]) simp_all
      show ?thesis
      proof (cases rv)
        case (Inl e)
        then show ?thesis using assms(3-5) g db0 Inr open_l rv inv1
          by (auto simp: buy_repo_def Let_def split: if_splits)
      next
        case rl: (Inr l)
        obtain x m1 where ch: "charge buyer (buyer_bundle l) (buyer_source l) m = (x, m1)" by fastforce
        have live1: "manager_live m1" using granter.grant_live [OF assms(1,3) ch] .
        have g1: "credits_grow m m1" by (rule granter_grows [OF assms(1,3) ch])
        have inv2: "auction_inv db1 m1" by (rule auction_inv_grow [OF inv1 g1])
        have inv3: "auction_inv (snd (ReleaseReservation oc (lID l) buyer db1)) m1" for oc
          using auction_inv_step [OF inv2, of m1 "ARelease oc (lID l) buyer"] by simp
        show ?thesis
        proof (cases x)
          case (Some e)
          then show ?thesis using assms(3-5) g db0 Inr open_l rv rl ch live1 g1 inv2 inv3 [of "oRelease ocs"]
            by (auto simp: buy_repo_def Let_def split: if_splits prod.splits sum.splits)
        next
          case None
          obtain y m2 where py: "pay (lSeller l) (seller_bundle l) (seller_source l) m1 = (y, m2)" by fastforce
          have live2: "manager_live m2" using granter.grant_live [OF assms(2) live1 py] .
          have g2: "credits_grow m1 m2" by (rule granter_grows [OF assms(2) live1 py])
          show ?thesis
          proof (cases y)
            case (Some e)
            then show ?thesis
              using assms(3-5) g db0 Inr open_l rv rl ch None py live2 auction_inv_grow [OF inv2 g2]
                credits_grow_trans [OF g1 g2] inv1
              by (auto simp: buy_repo_def Let_def split: if_splits)
          next
            case yn: None
            have rv': "Reserve (oReserve ocs) i buyer db = (Inr l, db1)" using rv rl by simp
            note st = settle_inv [OF assms(1-4) rv' ch [unfolded None] py [unfolded yn], of "oMark ocs"]
            show ?thesis
              using assms(3-5) g db0 Inr open_l rv rl ch None py yn st inv1
              by (auto simp: buy_repo_def Let_def split: if_splits prod.splits sum.splits)
          qed
        qed
      qed
    qed
  qed
qed

section \<open>Properties of the auction house\<close>

text \<open>
  A listing has at most one buyer. Whatever statements all processes run in between, two
  successful sales of the same listing name the same buyer, and a sold listing stays sold to that
  buyer for ever.
\<close>

theorem listing_sold_once:
  assumes "auction_ok db" and "MarkSold oc i b1 db = (Inr u, db1)"
  shows "(\<exists>l. find_listing i (auction_run ops db1) = Some l \<and> lStatus l = AuctionSold \<and> lBuyer l = b1) \<and>
    (MarkSold oc' i b2 (auction_run ops db1) = (Inr u', db2) \<longrightarrow> b2 = b1)"
proof -
  have db1: "db1 = auction_step (AMarkSold oc i b1) db" using assms(2) by simp
  have ok1: "auction_ok db1" unfolding db1 by (rule auction_step_ok [OF assms(1)])
  have ok2: "auction_ok (auction_run ops db1)"
    using ok1 by (induction ops arbitrary: db1) (auto simp: auction_step_ok)
  obtain l where "find_listing i db1 = Some l" "lStatus l = AuctionSold" "lBuyer l = b1"
    using MarkSold_Inr [OF assms(2,1)] by blast
  then obtain l2 where l2: "find_listing i (auction_run ops db1) = Some l2" "lStatus l2 = AuctionSold" "lBuyer l2 = b1"
    using auction_run_sold by blast
  moreover have "b2 = b1" if "MarkSold oc' i b2 (auction_run ops db1) = (Inr u', db2)"
    using MarkSold_Inr [OF that ok2] l2 by auto
  ultimately show ?thesis by blast
qed

definition not_released :: "int \<Rightarrow> int \<Rightarrow> auction_op list \<Rightarrow> bool" where
  "not_released i b ops \<longleftrightarrow> (\<forall>oc. ARelease oc i b \<notin> set ops)"

text \<open>
  A reservation is exclusive. After one buyer has reserved a listing, and until that buyer's
  reservation is released, no other buyer can reserve it or have it marked as sold.
\<close>

theorem reservation_exclusive:
  assumes "auction_ok db" and "Reserve oc i b1 db = (Inr l, db1)" and "not_released i b1 ops" and "b2 \<noteq> b1"
  shows "fst (Reserve Done i b2 (auction_run ops db1)) = Inl ErrNoRows \<and>
    fst (MarkSold Done i b2 (auction_run ops db1)) = Inl ErrNoRows"
proof -
  have db1: "db1 = auction_step (AReserve oc i b1) db" using assms(2) by simp
  have ok1: "auction_ok db1" unfolding db1 by (rule auction_step_ok [OF assms(1)])
  have ok2: "auction_ok (auction_run ops db1)"
    using ok1 by (induction ops arbitrary: db1) (auto simp: auction_step_ok)
  have held: "\<exists>l'. find_listing i (auction_run ops d) = Some l' \<and> lStatus l' \<in> {AuctionReserved, AuctionSold} \<and> lBuyer l' = b1"
    if "find_listing i d = Some l0" "lStatus l0 \<in> {AuctionReserved, AuctionSold}" "lBuyer l0 = b1" for d l0
    using that assms(3)
  proof (induction ops arbitrary: d l0)
    case (Cons op ops)
    have "lID l0 = i" using Cons.prems(1) find_Some_mem by (fastforce simp: find_listing_def)
    then have "lStatus (listing_next op l0) \<in> {AuctionReserved, AuctionSold} \<and> lBuyer (listing_next op l0) = b1"
      using Cons.prems(2-4) by (cases op) (auto simp: auction_status_defs not_released_def)
    moreover have "not_released i b1 ops" using Cons.prems(4) by (simp add: not_released_def)
    ultimately show ?case using Cons.IH [OF auction_step_find [OF Cons.prems(1), of op]] by simp
  qed auto
  obtain l' where l': "find_listing i (auction_run ops db1) = Some l'" "lStatus l' \<in> {AuctionReserved, AuctionSold}" "lBuyer l' = b1"
    using held [of db1 l] Reserve_Inr [OF assms(2,1)] by auto
  have u: "x = l'" if "x \<in> set (listings (auction_run ops db1))" "lID x = i" for x
    using find_listing_unique [OF ok2 l'(1) that] .
  have "find (\<lambda>l. lID l = i \<and> (lStatus l = AuctionOpen \<or> lStatus l = AuctionReserved \<and> lBuyer l = b2)) (listings (auction_run ops db1)) = None"
    unfolding find_None_iff using u l' assms(4) by (auto simp: auction_status_defs)
  then show ?thesis using u l' assms(4) by (auto simp: Reserve_def MarkSold_def Let_def)
qed


lemma create_repo_inv:
  assumes "benign (eBetween E)" and "manager_live m" and "auction_inv db m"
    and "create_repo oc1 E oc2 seller item qty price key (db, m) = (r, db', m')"
  shows "auction_inv db' m' \<and> credits_grow m m' \<and>
    (\<forall>x. r = Inr x \<longrightarrow> SellerRoleID x = seller \<and> ItemID x = item \<and> Qty x = qty \<and> Price x = price)"
proof (cases "key = []")
  case True
  then show ?thesis using assms(3,4) by (auto simp: create_repo_def)
next
  case False
  obtain p0 db1 where gp: "GetOrCreatePending oc1 key (new_listing seller item qty price) db = (p0, db1)" by fastforce
  have db1: "db1 = auction_step (AGetOrCreate oc1 key (new_listing seller item qty price)) db" using gp by simp
  have inv1: "auction_inv db1 m" unfolding db1 by (rule auction_inv_step [OF assms(3)]) simp_all
  show ?thesis
  proof (cases p0)
    case (Inl e)
    then show ?thesis using assms(4) False gp inv1 by (auto simp: create_repo_def)
  next
    case (Inr p)
    let ?src = "''auction:escrow:'' @ FormatInt (lID p)"
    obtain x m1 where lg: "local_grant E seller \<lparr>bGold = 0, bItems = [(item, i32 (- qty))]\<rparr> ?src m = (x, m1)" by fastforce
    note gr = local_grant_granter [OF assms(1)]
    have g1: "credits_grow m m1" by (rule granter_grows [OF gr assms(2) lg])
    have inv2: "auction_inv db1 m1" by (rule auction_inv_grow [OF inv1 g1])
    have act: "auction_inv (snd (Activate oc2 (lID p) seller db1)) m1" if "x = None"
    proof -
      have "manager_credited m1 (seller, ?src) \<noteq> None"
        using granter.grant_credits [OF gr assms(2) _ lg [unfolded that]] by simp
      then have "op_allowed (AActivate oc2 (lID p) seller) db1 m1" by (auto simp: escrow_source_def)
      from auction_inv_step [OF inv2 credits_grow_refl this] show ?thesis by simp
    qed
    show ?thesis
      using assms(4) False gp Inr lg inv1 inv2 g1 act
      by (auto simp: create_repo_def Let_def to_listing_def split: if_splits option.splits prod.splits sum.splits)
  qed
qed

text \<open>
  Listed means escrowed. Whatever calls of a creation fail, the invariant of the auction house
  holds afterwards: in particular a listing that buyers can see has taken the seller's item. A
  creation that reports success returns the requested listing.
\<close>

theorem creation_escrows:
  assumes "svcRepo svc = Some db" and "auction_inv db m" and "manager_live m" and "benign (eBetween E)"
    and "CreateWithKey oc1 E oc2 seller item qty price key (svc, m) = (r, svc', m')"
  shows "\<exists>db'. svcRepo svc' = Some db' \<and> auction_inv db' m' \<and> credits_grow m m' \<and>
    (\<forall>x. r = Inr x \<longrightarrow> SellerRoleID x = seller \<and> ItemID x = item \<and> Qty x = qty \<and> Price x = price)"
proof (cases "seller \<le> 0 \<or> item = [] \<or> qty \<le> 0 \<or> price \<le> 0")
  case True
  then show ?thesis using assms by (auto simp: CreateWithKey_def)
next
  case False
  obtain x db' m1 where run: "create_repo oc1 E oc2 seller item qty price key (db, m) = (x, db', m1)" by (rule prod_cases3)
  have "r = x" "svc' = svc\<lparr>svcRepo := Some db'\<rparr>" "m' = m1"
    using assms(1,5) False run by (auto simp: CreateWithKey_def)
  with create_repo_inv [OF assms(4,3,2) run] show ?thesis by auto
qed

section \<open>Retries after a partial failure\<close>

text \<open>
  \<open>ApplyGrant\<close> checks the balance before it looks for the source in the ledger, so a retry of a charge
  that was already booked can fail for lack of funds.
\<close>

lemma poor_grant_fails:
  assumes "0 < r" and "manager_Owns m r" and "gPlayers m r = Some q" and "\<not> pClosed (gHeap m q)"
    and "eAdm E = Admitted" and "gRoles m \<noteq> None"
    and "\<And>o1 o2 p. pGold p = pGold (gHeap m q) \<Longrightarrow> pInv p = pInv (gHeap m q) \<Longrightarrow> o1 = eOrd1 E (bItems b) \<Longrightarrow>
      applyBundleUnsafe o1 o2 b p = (Some e, p)" and "e \<noteq> ErrStaleRole"
  shows "local_grant E r b src m = (Some e, m\<lparr>gHeap := (gHeap m)(q := touch (eNow E) (gHeap m q))\<rparr>)"
proof -
  have "grant_task (eSave E) (eLoad E) (eBetween E) (eOrd1 E (bItems b)) (eOrd2 E (bItems b)) b src (touch (eNow E) (gHeap m q), gRoles m)
      = (Inl e, touch (eNow E) (gHeap m q), gRoles m)"
    using assms(6) assms(7) [of "touch (eNow E) (gHeap m q)"] by (auto simp: grant_task_def Let_def touch_def)
  then show ?thesis
    using assms(1-5,8)
    by (simp add: local_grant_def manager_ApplyGrant_def manager_Get_cached ApplyGrant_def on_actor_def Invoke_def mailbox_Call_def
        dropIfStale_def touch_def)
qed

text \<open>
  A buyer who was charged and got the item, but whose purchase failed later (the seller's process was
  down), retries without enough gold left: the retry fails, and the listing is open again although
  the item has already been handed out once.
\<close>

lemma paid_retry_reopens_listing:
  assumes "auction_ok db" and "find_listing i db = Some l" and "lStatus l = AuctionReserved" and "lBuyer l = b" and "lSeller l \<noteq> b"
    and "0 < b" and "0 < i" and "0 < lPrice l" and "lPrice l < 2 ^ 63" and "pGold (gHeap m q) < lPrice l"
    and "manager_Owns m b" and "gPlayers m b = Some q" and "\<not> pClosed (gHeap m q)" and "eAdm E = Admitted" and "gRoles m \<noteq> None"
    and "manager_credited m (b, buyer_source l) = Some (buyer_bundle l)"
  shows "\<exists>db' m'. buy_repo \<lparr>oGet = Done, oReserve = Done, oRelease = Done, oMark = Done\<rparr> (local_grant E) pay b i (db, m)
      = (Inl ErrInsufficientGold, db', m') \<and>
    find_listing i db' = Some (l\<lparr>lStatus := AuctionOpen, lBuyer := 0\<rparr>) \<and>
    manager_credited m' (b, buyer_source l) = Some (buyer_bundle l)"
proof -
  define db1 where "db1 = auction_step (AReserve Done i b) db"
  define db2 where "db2 = auction_step (ARelease Done i b) db1"
  let ?m = "m\<lparr>gHeap := (gHeap m)(q := touch (eNow E) (gHeap m q))\<rparr>"
  have i: "lID l = i" using assms(2) find_Some_mem by (fastforce simp: find_listing_def)
  have lset: "l \<in> set (listings db)" using assms(2) find_Some_mem by (fastforce simp: find_listing_def)
  have same: "l\<lparr>lStatus := AuctionReserved, lBuyer := b\<rparr> = l" using assms(3,4) by simp
  have uniq: "x \<in> set (listings db) \<Longrightarrow> lID x = i \<Longrightarrow> x = l" for x by (rule find_listing_unique [OF assms(1,2)])
  have rs: "Reserve Done i b db = (Inr l, db1)"
  proof -
    have "find (\<lambda>l. lID l = i \<and> (lStatus l = AuctionOpen \<or> lStatus l = AuctionReserved \<and> lBuyer l = b)) (listings db) \<noteq> None"
      using lset i assms(3,4) by (auto simp: find_None_iff)
    then obtain x where x: "find (\<lambda>l. lID l = i \<and> (lStatus l = AuctionOpen \<or> lStatus l = AuctionReserved \<and> lBuyer l = b)) (listings db) = Some x"
      by auto
    from find_Some_mem [OF x] uniq have "x = l" by auto
    with x same show ?thesis by (simp add: Reserve_def Let_def db1_def)
  qed
  have neg: "i64 (- lPrice l) = - lPrice l" "i64 (lPrice l) = lPrice l" using assms(8,9) by (auto intro!: i64_id simp: in_i64_def)
  have poor: "applyBundleUnsafe o1 o2 (buyer_bundle l) p = (Some ErrInsufficientGold, p)" if "pGold p = pGold (gHeap m q)" for o1 o2 p
    using that assms(8,10) neg by (simp add: applyBundleUnsafe_def buyer_bundle_def)
  have ch: "local_grant E b (buyer_bundle l) (buyer_source l) m = (Some ErrInsufficientGold, ?m)"
    by (rule poor_grant_fails) (use assms poor in auto)
  have rel: "ReleaseReservation Done (lID l) b db1 = (Inr (), db2)" by (simp add: ReleaseReservation_def i db2_def)
  have "find_listing i db2 = Some (listing_next (ARelease Done i b) (listing_next (AReserve Done i b) l))"
    unfolding db1_def db2_def by (intro auction_step_find assms(2))
  then have "find_listing i db2 = Some (l\<lparr>lStatus := AuctionOpen, lBuyer := 0\<rparr>)" using assms(3,4) i by simp
  moreover have "buy_repo \<lparr>oGet = Done, oReserve = Done, oRelease = Done, oMark = Done\<rparr> (local_grant E) pay b i (db, m)
      = (Inl ErrInsufficientGold, db2, ?m)"
    using assms(2-5) rs ch rel by (simp add: buy_repo_def auction_Get_def auction_status_defs)
  moreover have "manager_credited ?m (b, buyer_source l) = Some (buyer_bundle l)"
    using assms(16) by (simp add: manager_credited_def)
  ultimately show ?thesis by blast
qed

text \<open>
  Likewise a seller whose item went into escrow, but whose listing could not be activated, cannot
  retry with the same request: the bag no longer covers the amount, and the listing stays pending.
\<close>

lemma escrowed_retry_stuck:
  assumes "find (\<lambda>x. lKey x = Some key) (listings db) = Some p" and "lStatus p = AuctionPending" and "key \<noteq> []"
    and "0 < lSeller p" and "0 < lQty p" and "lQty p < 2 ^ 31" and "gget (pInv (gHeap m q)) (lItem p) < lQty p"
    and "manager_Owns m (lSeller p)" and "gPlayers m (lSeller p) = Some q" and "\<not> pClosed (gHeap m q)" and "eAdm E = Admitted"
    and "gRoles m \<noteq> None" and "eOrd1 E = id"
  shows "\<exists>db' m'. create_repo Done E Done (lSeller p) (lItem p) (lQty p) (lPrice p) key (db, m)
      = (Inl (ErrInsufficientItem (lItem p)), db', m') \<and> listings db' = listings db"
proof -
  let ?b = "\<lparr>bGold = 0, bItems = [(lItem p, i32 (- lQty p))]\<rparr>"
  let ?m = "m\<lparr>gHeap := (gHeap m)(q := touch (eNow E) (gHeap m q))\<rparr>"
  have neg: "i32 (- lQty p) = - lQty p" "i32 (lQty p) = lQty p" using assms(5,6) by (auto intro!: i32_id simp: in_i32_def)
  have poor: "applyBundleUnsafe (eOrd1 E (bItems ?b)) o2 ?b x = (Some (ErrInsufficientItem (lItem p)), x)" if "pInv x = pInv (gHeap m q)" for o2 x
    using that assms(5,7,13) neg by (simp add: applyBundleUnsafe_def)
  have "local_grant E (lSeller p) ?b (''auction:escrow:'' @ FormatInt (lID p)) m = (Some (ErrInsufficientItem (lItem p)), ?m)"
    by (rule poor_grant_fails) (use assms poor in auto)
  then show ?thesis using assms(1-3)
    by (simp add: create_repo_def GetOrCreatePending_def auction_status_defs)
qed

section \<open>The properties at concrete inputs\<close>

definition demo_listing :: auction_listing where
  "demo_listing = (new_listing 8 ''gem'' 1 5)\<lparr>lID := 1\<rparr>"

definition demo_auction :: auction_db where
  "demo_auction = \<lparr>listings = [demo_listing], listing_seq = 2\<rparr>"

lemma demo_auction_ok: "auction_ok demo_auction"
  by (simp add: auction_ok_def demo_auction_def demo_listing_def new_listing_def)

lemma demo_Reserve:
  "Reserve Done 1 7 demo_auction = (Inr (demo_listing\<lparr>lStatus := AuctionReserved, lBuyer := 7\<rparr>),
     \<lparr>listings = [demo_listing\<lparr>lStatus := AuctionReserved, lBuyer := 7\<rparr>], listing_seq = 2\<rparr>)"
  by (simp add: Reserve_def demo_auction_def demo_listing_def new_listing_def update_listing_def)

theorem listing_sold_once_witness:
  "\<exists>l. find_listing 1 (auction_run [AReserve Done 1 9]
      (snd (MarkSold Done 1 7 \<lparr>listings = [demo_listing\<lparr>lStatus := AuctionReserved, lBuyer := 7\<rparr>], listing_seq = 2\<rparr>))) = Some l \<and>
     lStatus l = AuctionSold \<and> lBuyer l = 7"
proof -
  let ?db = "\<lparr>listings = [demo_listing\<lparr>lStatus := AuctionReserved, lBuyer := 7\<rparr>], listing_seq = 2\<rparr>"
  have ok: "auction_ok ?db" by (simp add: auction_ok_def demo_listing_def)
  have "MarkSold Done 1 7 ?db = (Inr (), snd (MarkSold Done 1 7 ?db))" by (simp add: MarkSold_def demo_listing_def)
  from listing_sold_once [OF ok this] show ?thesis by blast
qed

theorem reservation_exclusive_witness:
  "fst (Reserve Done 1 9 (auction_run [] \<lparr>listings = [demo_listing\<lparr>lStatus := AuctionReserved, lBuyer := 7\<rparr>], listing_seq = 2\<rparr>)) = Inl ErrNoRows"
  using reservation_exclusive [OF demo_auction_ok demo_Reserve, of "[]" 9] by (simp add: not_released_def)

lemma demo_auction_inv: "auction_inv demo_auction market"
  by (simp add: auction_inv_def demo_auction_ok) (simp add: demo_auction_def demo_listing_def new_listing_def backed_def auction_status_defs)

lemma demo_purchase:
  "fst (Buy \<lparr>oGet = Done, oReserve = Done, oRelease = Done, oMark = Done\<rparr> demo_env demo_env demo_env demo_env (Some (local_grant demo_env)) 7 1
     (\<lparr>svcRepo = Some demo_auction, svcMem = [], svcNextID = 0\<rparr>, market)) = Inr (to_listing demo_listing)"
  by (simp add: Buy_def buy_repo_def auction_Get_def find_listing_def demo_auction_def demo_listing_def new_listing_def auction_status_defs
      Reserve_def update_listing_def MarkSold_def buyer_bundle_def seller_bundle_def buyer_source_def seller_source_def to_listing_def
      market_simps i64_def i32_def)


theorem creation_escrows_witness:
  "\<exists>db'. svcRepo (fst (snd (CreateWithKey Done demo_env Done 8 ''gem'' 1 5 ''k1'' (\<lparr>svcRepo = Some empty_auction, svcMem = [], svcNextID = 0\<rparr>, market)))) = Some db' \<and>
     auction_inv db' (snd (snd (CreateWithKey Done demo_env Done 8 ''gem'' 1 5 ''k1'' (\<lparr>svcRepo = Some empty_auction, svcMem = [], svcNextID = 0\<rparr>, market))))"
proof -
  let ?svc = "\<lparr>svcRepo = Some empty_auction, svcMem = [], svcNextID = 0\<rparr>"
  obtain r svc' m' where run: "CreateWithKey Done demo_env Done 8 ''gem'' 1 5 ''k1'' (?svc, market) = (r, svc', m')" by (rule prod_cases3)
  have inv: "auction_inv empty_auction market" by (simp add: auction_inv_def auction_ok_def empty_auction_def)
  have "\<exists>db'. svcRepo svc' = Some db' \<and> auction_inv db' m' \<and> credits_grow market m' \<and>
      (\<forall>x. r = Inr x \<longrightarrow> SellerRoleID x = 8 \<and> ItemID x = ''gem'' \<and> Qty x = 1 \<and> Price x = 5)"
    by (rule creation_escrows [OF _ inv market_live demo_env_benign run]) simp
  with run show ?thesis by auto
qed

end
