(* ===== verification/Redis_Store.thy ===== *)
theory Redis_Store
  imports Go_Strings
begin

text \<open>
  The part of Redis that the services use: string keys with an expiry, read at a point in time, and
  the conversion of Go durations (nanoseconds) to the milliseconds that Redis keeps. A key is live up
  to and including the millisecond of its expiry. The clocks of the services and of Redis are one clock.
\<close>

type_synonym 'v redis = "string \<Rightarrow> ('v \<times> int option) option"

definition millis :: "int \<Rightarrow> int" where
  "millis t = t div 1000000"

text \<open>How the client sends a positive expiry: at least one millisecond.\<close>

definition ttl_ms :: "int \<Rightarrow> int" where
  "ttl_ms d = (if d < 1000000 then 1 else millis d)"

fun entry_live :: "int \<Rightarrow> 'v \<times> int option \<Rightarrow> bool" where
  "entry_live now (v, None) = True"
| "entry_live now (v, Some w) = (millis now \<le> w)"

definition redis_GET :: "int \<Rightarrow> string \<Rightarrow> 'v redis \<Rightarrow> 'v option" where
  "redis_GET now k s = (case s k of None \<Rightarrow> None | Some e \<Rightarrow> if entry_live now e then Some (fst e) else None)"

definition redis_SET :: "int \<Rightarrow> string \<Rightarrow> 'v \<Rightarrow> int option \<Rightarrow> 'v redis \<Rightarrow> 'v redis" where
  "redis_SET now k v ttl s = s(k \<mapsto> (v, map_option (\<lambda>d. millis now + d) ttl))"

definition redis_SETNX :: "int \<Rightarrow> string \<Rightarrow> 'v \<Rightarrow> int option \<Rightarrow> 'v redis \<Rightarrow> bool \<times> 'v redis" where
  "redis_SETNX now k v ttl s =
     (if redis_GET now k s = None then (True, redis_SET now k v ttl s) else (False, s))"

definition redis_DEL :: "string \<Rightarrow> 'v redis \<Rightarrow> 'v redis" where
  "redis_DEL k s = s(k := None)"

definition redis_PEXPIRE :: "int \<Rightarrow> string \<Rightarrow> int \<Rightarrow> 'v redis \<Rightarrow> 'v redis" where
  "redis_PEXPIRE now k d s =
     (case redis_GET now k s of
        None \<Rightarrow> s
      | Some v \<Rightarrow> if d \<le> 0 then redis_DEL k s else redis_SET now k v (Some d) s)"

lemma redis_GET_SET [simp]:
  "redis_GET now' k' (redis_SET now k v ttl s)
     = (if k' = k then (if (case ttl of None \<Rightarrow> True | Some d \<Rightarrow> millis now' \<le> millis now + d) then Some v else None)
        else redis_GET now' k' s)"
  by (cases ttl) (simp_all add: redis_GET_def redis_SET_def)

lemma redis_GET_DEL [simp]: "redis_GET now k' (redis_DEL k s) = (if k' = k then None else redis_GET now k' s)"
  by (simp add: redis_GET_def redis_DEL_def)

lemma redis_GET_PEXPIRE_other: "k' \<noteq> k \<Longrightarrow> redis_GET now' k' (redis_PEXPIRE now k d s) = redis_GET now' k' s"
  by (simp add: redis_PEXPIRE_def split: option.splits)

lemma millis_mono: "a \<le> b \<Longrightarrow> millis a \<le> millis b"
  by (simp add: millis_def zdiv_mono1)

lemma millis_add: "millis (a + 1000000 * k) = millis a + k"
  by (simp add: millis_def)

text \<open>What a write-once key promises: until it expires, later attempts fail and leave it alone.\<close>

lemma SETNX_once:
  assumes "redis_SETNX now k v (Some d) s = (True, s')" and "millis now' \<le> millis now + d"
  shows "redis_SETNX now' k v' ttl' s' = (False, s')"
  using assms by (auto simp: redis_SETNX_def split: if_splits)

lemma SETNX_other:
  assumes "redis_SETNX now k v ttl s = (b, s')" and "k' \<noteq> k"
  shows "redis_GET now' k' s' = redis_GET now' k' s"
  using assms by (auto simp: redis_SETNX_def split: if_splits)

end
