(* ===== verification/Sessions.thy ===== *)
theory Sessions
  imports Redis_Store Json_Values
begin

text \<open>
  Identity: login sessions (\<^verbatim>\<open>pkg/session\<close>), the middleware that binds a request to the role of its
  session, the shared-secret check of internal endpoints (\<^verbatim>\<open>pkg/internalauth\<close>), and the presence record
  that says on which Gate connection a role is (\<^verbatim>\<open>pkg/presence\<close>). A value in Redis is the record whose
  JSON encoding the program stores; \<^const>\<open>None\<close> in its place is a value that does not decode. Times and
  durations are in nanoseconds.
\<close>

section \<open>HTTP replies\<close>

text \<open>
  \<open>HttpError\<close> is \<^verbatim>\<open>http.Error\<close> with a status, \<open>Reply c\<close> a JSON reply with status 200 and a nonzero code,
  \<open>ReplyOK\<close> the reply with code 0 and its data, \<open>Unauthorized\<close> the JSON reply with status 401, and \<open>Aborted\<close>
  a handler that panics, or a connection closed without an answer.
\<close>

datatype 'a reply = HttpError int | Reply int | ReplyOK 'a | Unauthorized | Aborted

text \<open>
  The outermost wrapper of every HTTP server (\<^verbatim>\<open>pkg/app/prometheus.go\<close>): a panic becomes status 500.
\<close>

fun request_boundary :: "'a reply \<Rightarrow> 'a reply" where
  "request_boundary Aborted = HttpError 500"
| "request_boundary (HttpError n) = HttpError n"
| "request_boundary (Reply n) = Reply n"
| "request_boundary (ReplyOK a) = ReplyOK a"
| "request_boundary Unauthorized = Unauthorized"

definition withRequestBoundary :: "('s \<Rightarrow> 'a reply \<times> 's) \<Rightarrow> 's \<Rightarrow> 'a reply \<times> 's" where
  "withRequestBoundary next s = map_prod request_boundary id (next s)"

lemma request_boundary_ReplyOK [simp]: "request_boundary r = ReplyOK a \<longleftrightarrow> r = ReplyOK a" "request_boundary r \<noteq> Aborted"
  by (cases r; simp)+

section \<open>Internal endpoints\<close>

definition internal_HTTPMiddleware :: "string \<Rightarrow> string \<Rightarrow> ('s \<Rightarrow> 'a reply \<times> 's) \<Rightarrow> 's \<Rightarrow> 'a reply \<times> 's" where
  "internal_HTTPMiddleware secret header next s =
     (if secret = [] then next s else if header \<noteq> secret then (HttpError 403, s) else next s)"

text \<open>The header of an outgoing request; the empty string is an absent header.\<close>

definition SetHTTP :: "string \<Rightarrow> string" where
  "SetHTTP secret = secret"

text \<open>The interceptor of the gRPC server; the metadata values are in order.\<close>

definition UnaryServerInterceptor :: "string \<Rightarrow> string list \<Rightarrow> ('s \<Rightarrow> 'a res \<times> 's) \<Rightarrow> 's \<Rightarrow> 'a res \<times> 's" where
  "UnaryServerInterceptor secret vals handler s =
     (if secret = [] then handler s
      else let got = (case vals of [] \<Rightarrow> [] | v # _ \<Rightarrow> v)
           in if got \<noteq> secret then (Inl (ErrMsg ''invalid internal token''), s) else handler s)"

definition WithOutgoing :: "string \<Rightarrow> string list \<Rightarrow> string list" where
  "WithOutgoing secret md = (if secret = [] then md else md @ [secret])"

section \<open>Login sessions\<close>

record session_info =
  siRoleID :: int
  siZoneID :: int

definition session_key :: "string \<Rightarrow> string" where
  "session_key token = ''session:'' @ token"

definition validToken :: "string \<Rightarrow> bool" where
  "validToken token \<longleftrightarrow> 16 \<le> length token \<and> length token \<le> 128"

definition day :: int where "day = 24 * 3600 * 1000000000"

type_synonym session_store = "session_info option redis"

definition session_Save :: "outcome \<Rightarrow> int \<Rightarrow> string \<Rightarrow> session_info \<Rightarrow> int \<Rightarrow> session_store option \<Rightarrow> unit res \<times> session_store option" where
  "session_Save oc now token info ttl rdb =
     (case rdb of
        None \<Rightarrow> (Inl (ErrMsg ''invalid session''), rdb)
      | Some s \<Rightarrow>
          if \<not> validToken token \<or> siRoleID info \<le> 0 then (Inl (ErrMsg ''invalid session''), rdb)
          else let ttl = (if ttl \<le> 0 then day else ttl)
               in store_call oc rdb (Inr (), Some (redis_SET now (session_key token) (Some info) (Some (ttl_ms ttl)) s)))"

definition session_Load :: "outcome \<Rightarrow> int \<Rightarrow> string \<Rightarrow> session_store option \<Rightarrow> session_info res" where
  "session_Load oc now token rdb =
     (case rdb of
        None \<Rightarrow> Inl (ErrMsg ''invalid session'')
      | Some s \<Rightarrow>
          if \<not> validToken token then Inl (ErrMsg ''invalid session'')
          else if oc \<noteq> Done then Inl ErrStore
          else case redis_GET now (session_key token) s of
            None \<Rightarrow> Inl (ErrMsg ''session not found'')
          | Some None \<Rightarrow> Inl (ErrMsg ''json'')
          | Some (Some info) \<Rightarrow> if siRoleID info = 0 then Inl (ErrMsg ''invalid session'') else Inr info)"

section \<open>The session middleware\<close>

record auth_headers =
  hAuthorization :: string
  hSession :: string

definition tokenFromRequest :: "auth_headers \<Rightarrow> string" where
  "tokenFromRequest h =
     (let v = TrimSpace (hAuthorization h); n = length ''Bearer ''
      in if v \<noteq> [] \<and> n < length v \<and> EqualFold (take n v) ''Bearer '' then TrimSpace (drop n v)
         else TrimSpace (hSession h))"

definition session_HTTPMiddleware :: "outcome \<Rightarrow> int \<Rightarrow> session_store option \<Rightarrow> auth_headers
    \<Rightarrow> (session_info \<Rightarrow> 's \<Rightarrow> 'a reply \<times> 's) \<Rightarrow> 's \<Rightarrow> 'a reply \<times> 's" where
  "session_HTTPMiddleware oc now rdb h next s =
     (if rdb = None then (Unauthorized, s)
      else let token = tokenFromRequest h
           in if token = [] then (Unauthorized, s)
              else case session_Load oc now token rdb of
                     Inl e \<Rightarrow> (Unauthorized, s)
                   | Inr info \<Rightarrow> next info s)"

section \<open>Presence\<close>

record presence =
  prRoleID :: int
  prZoneID :: int
  prShardID :: int
  prGateID :: string
  prGateAddr :: string
  prGateHTTP :: string
  prSessionID :: string
  prLoginAt :: int

definition no_presence :: presence where
  "no_presence = \<lparr>prRoleID = 0, prZoneID = 0, prShardID = 0, prGateID = [], prGateAddr = [], prGateHTTP = [],
     prSessionID = [], prLoginAt = 0\<rparr>"

type_synonym presence_store = "presence option redis"

definition presence_key :: "int \<Rightarrow> string" where
  "presence_key roleID = ''ng:presence:'' @ FormatInt roleID"

text \<open>The three scripts; each runs atomically. An expiry that is not positive is an error of \<^verbatim>\<open>SET\<close>.\<close>

definition storeScript :: "int \<Rightarrow> string \<Rightarrow> presence \<Rightarrow> int \<Rightarrow> presence_store \<Rightarrow> presence option option res \<times> presence_store" where
  "storeScript now k rec d s =
     (if d \<le> 0 then (Inl ErrStore, s) else (Inr (redis_GET now k s), redis_SET now k (Some rec) (Some d) s))"

definition removeScript :: "int \<Rightarrow> string \<Rightarrow> string \<Rightarrow> presence_store \<Rightarrow> int res \<times> presence_store" where
  "removeScript now k sessionID s =
     (case redis_GET now k s of
        None \<Rightarrow> (Inr 0, s)
      | Some None \<Rightarrow> (Inl ErrStore, s)
      | Some (Some v) \<Rightarrow> if prSessionID v \<noteq> sessionID then (Inr (- 1), s) else (Inr 1, redis_DEL k s))"

definition renewScript :: "int \<Rightarrow> string \<Rightarrow> string \<Rightarrow> int \<Rightarrow> presence_store \<Rightarrow> int res \<times> presence_store" where
  "renewScript now k sessionID d s =
     (case redis_GET now k s of
        None \<Rightarrow> (Inr 0, s)
      | Some None \<Rightarrow> (Inl ErrStore, s)
      | Some (Some v) \<Rightarrow> if prSessionID v \<noteq> sessionID then (Inr (- 1), s) else (Inr 1, redis_PEXPIRE now k d s))"

definition presence_Store :: "outcome \<Rightarrow> int \<Rightarrow> presence \<Rightarrow> int \<Rightarrow> presence_store \<Rightarrow> presence res \<times> presence_store" where
  "presence_Store oc now rec ttl s =
     (let ttl = (if ttl \<le> 0 then day else ttl);
          rec = (if prLoginAt rec = 0 then rec\<lparr>prLoginAt := now div 1000000000\<rparr> else rec)
      in if prSessionID rec = [] then (Inl (ErrMsg ''presence session_id required''), s)
         else case store_call oc s (storeScript now (presence_key (prRoleID rec)) rec (millis ttl) s) of
                (Inl e, s) \<Rightarrow> (Inl e, s)
              | (Inr None, s) \<Rightarrow> (Inr no_presence, s)
              | (Inr (Some None), s) \<Rightarrow> (Inl (ErrMsg ''json''), s)
              | (Inr (Some (Some old)), s) \<Rightarrow> (Inr old, s))"

definition presence_Load :: "outcome \<Rightarrow> int \<Rightarrow> int \<Rightarrow> presence_store \<Rightarrow> presence res" where
  "presence_Load oc now roleID s =
     (if oc \<noteq> Done then Inl ErrStore
      else case redis_GET now (presence_key roleID) s of
        None \<Rightarrow> Inl (ErrMsg ''offline'')
      | Some None \<Rightarrow> Inl (ErrMsg ''json'')
      | Some (Some rec) \<Rightarrow> Inr rec)"

definition presence_Remove :: "outcome \<Rightarrow> int \<Rightarrow> int \<Rightarrow> string \<Rightarrow> presence_store \<Rightarrow> unit res \<times> presence_store" where
  "presence_Remove oc now roleID sessionID s =
     (case store_call oc s (removeScript now (presence_key roleID) sessionID s) of
        (Inl e, s) \<Rightarrow> (Inl e, s)
      | (Inr n, s) \<Rightarrow> (if n < 0 then Inl ErrStaleSession else Inr (), s))"

definition presence_Renew :: "outcome \<Rightarrow> int \<Rightarrow> int \<Rightarrow> string \<Rightarrow> int \<Rightarrow> presence_store \<Rightarrow> unit res \<times> presence_store" where
  "presence_Renew oc now roleID sessionID ttl s =
     (let ttl = (if ttl \<le> 0 then day else ttl)
      in case store_call oc s (renewScript now (presence_key roleID) sessionID (millis ttl) s) of
           (Inl e, s) \<Rightarrow> (Inl e, s)
         | (Inr n, s) \<Rightarrow> (if n \<le> 0 then Inl ErrStaleSession else Inr (), s))"

definition ShardOnlineKey :: "int \<Rightarrow> int \<Rightarrow> string" where
  "ShardOnlineKey zoneID shardID = ''ng:online:z'' @ FormatInt zoneID @ '':shard:'' @ FormatInt shardID"


section \<open>Histories of sessions\<close>

text \<open>Logins in order: outcome, time, token, identity and lifetime of each \<open>session_Save\<close>.\<close>

record login =
  lgOutcome :: outcome
  lgNow :: int
  lgToken :: string
  lgInfo :: session_info
  lgTTL :: int

definition login_step :: "login \<Rightarrow> session_store option \<Rightarrow> session_store option" where
  "login_step l rdb = snd (session_Save (lgOutcome l) (lgNow l) (lgToken l) (lgInfo l) (lgTTL l) rdb)"

definition logins :: "login list \<Rightarrow> session_store option" where
  "logins ls = foldl (\<lambda>rdb l. login_step l rdb) (Some Map.empty) ls"

definition login_counts :: "string \<Rightarrow> login \<Rightarrow> bool" where
  "login_counts token l \<longleftrightarrow> lgToken l = token \<and> validToken token \<and> 0 < siRoleID (lgInfo l) \<and> lgOutcome l \<noteq> Failed"

definition lifetime :: "login \<Rightarrow> int" where
  "lifetime l = ttl_ms (if lgTTL l \<le> 0 then day else lgTTL l)"

lemma logins_snoc: "logins (ls @ [l]) = login_step l (logins ls)"
  by (simp add: logins_def)

lemma session_key_inj [simp]: "session_key a = session_key b \<longleftrightarrow> a = b"
  by (simp add: session_key_def)

lemma login_step_entry:
  "login_step l (Some s) = Some (if login_counts (lgToken l) l
     then s(session_key (lgToken l) \<mapsto> (Some (lgInfo l), Some (millis (lgNow l) + lifetime l))) else s)"
  by (cases "lgOutcome l")
    (simp_all add: login_step_def session_Save_def login_counts_def lifetime_def redis_SET_def Let_def)

lemma logins_entry:
  "\<exists>s. logins ls = Some s \<and>
    s (session_key token) = (case filter (login_counts token) ls of [] \<Rightarrow> None
       | _ \<Rightarrow> let l = last (filter (login_counts token) ls) in Some (Some (lgInfo l), Some (millis (lgNow l) + lifetime l)))"
proof (induction ls rule: rev_induct)
  case Nil
  then show ?case by (simp add: logins_def)
next
  case (snoc l ls)
  then obtain s where s: "logins ls = Some s" and e: "s (session_key token) = (case filter (login_counts token) ls of [] \<Rightarrow> None
       | _ \<Rightarrow> let l = last (filter (login_counts token) ls) in Some (Some (lgInfo l), Some (millis (lgNow l) + lifetime l)))" by blast
  have "login_counts (lgToken l) l \<and> lgToken l = token \<longleftrightarrow> login_counts token l" by (auto simp: login_counts_def)
  then show ?case
    using e by (auto simp: logins_snoc s login_step_entry Let_def split: list.splits)
qed

text \<open>
  C12. A request acts as a role only through a login of that role. Whatever logins happened, in any
  order and with any faults, the session middleware runs the handler exactly when the request's token
  is well formed and the last login recorded under it is still alive, and it then passes on the
  identity of that login, which is a positive role id; in every other case the answer is 401 and the
  state is untouched.
\<close>

theorem session_identity:
  "session_HTTPMiddleware Done now (logins ls) h next s =
     (let token = tokenFromRequest h; mine = filter (login_counts token) ls in
      if token \<noteq> [] \<and> mine \<noteq> [] \<and> millis now \<le> millis (lgNow (last mine)) + lifetime (last mine)
      then next (lgInfo (last mine)) s else (Unauthorized, s))
   \<and> (\<forall>l \<in> set (filter (login_counts (tokenFromRequest h)) ls). 0 < siRoleID (lgInfo l) \<and> validToken (tokenFromRequest h))"
proof -
  let ?token = "tokenFromRequest h"
  let ?mine = "filter (login_counts ?token) ls"
  obtain st where st: "logins ls = Some st" and e: "st (session_key ?token) = (case ?mine of [] \<Rightarrow> None
       | _ \<Rightarrow> let l = last ?mine in Some (Some (lgInfo l), Some (millis (lgNow l) + lifetime l)))"
    using logins_entry by blast
  have valid: "0 < siRoleID (lgInfo l) \<and> validToken ?token" if "l \<in> set ?mine" for l
    using that by (auto simp: login_counts_def)
  have "session_Load Done now ?token (Some st) =
      (if ?mine \<noteq> [] \<and> millis now \<le> millis (lgNow (last ?mine)) + lifetime (last ?mine) then Inr (lgInfo (last ?mine))
       else if validToken ?token then Inl (ErrMsg ''session not found'') else Inl (ErrMsg ''invalid session''))"
  proof (cases ?mine)
    case Nil
    then show ?thesis using e by (simp add: session_Load_def redis_GET_def)
  next
    case (Cons a list)
    then have "last ?mine \<in> set ?mine" by (metis last_in_set list.discI)
    with valid have "validToken ?token" "siRoleID (lgInfo (last ?mine)) \<noteq> 0" by fastforce+
    then show ?thesis using e Cons by (simp add: session_Load_def redis_GET_def Let_def)
  qed
  then show ?thesis using valid by (auto simp: session_HTTPMiddleware_def st Let_def)
qed

theorem session_identity_witness:
  "session_HTTPMiddleware Done 0
     (logins [\<lparr>lgOutcome = Done, lgNow = 0, lgToken = ''tk_0123456789abcdef'', lgInfo = \<lparr>siRoleID = 7, siZoneID = 1\<rparr>, lgTTL = 0\<rparr>])
     \<lparr>hAuthorization = [], hSession = ''tk_0123456789abcdef''\<rparr> (\<lambda>info s. (ReplyOK (siRoleID info), s)) () = (ReplyOK 7, ())"
proof -
  let ?l = "\<lparr>lgOutcome = Done, lgNow = 0, lgToken = ''tk_0123456789abcdef'', lgInfo = \<lparr>siRoleID = 7, siZoneID = 1\<rparr>, lgTTL = 0\<rparr>"
  have tok: "tokenFromRequest \<lparr>hAuthorization = [], hSession = ''tk_0123456789abcdef''\<rparr> = ''tk_0123456789abcdef''"
    by (simp add: tokenFromRequest_def TrimSpace_plain plain_def space_codes_def)
  show ?thesis
    using session_identity [of 0 "[?l]" "\<lparr>hAuthorization = [], hSession = ''tk_0123456789abcdef''\<rparr>" "\<lambda>info s. (ReplyOK (siRoleID info), s)" "()"]
    unfolding tok by (simp add: login_counts_def validToken_def lifetime_def ttl_ms_def millis_def day_def)
qed

section \<open>Histories of presence\<close>

datatype presence_op =
    PStore outcome int presence int
  | PRemove outcome int int string
  | PRenew outcome int int string int

fun presence_step :: "presence_op \<Rightarrow> presence_store \<Rightarrow> presence_store" where
  "presence_step (PStore oc now rec ttl) s = snd (presence_Store oc now rec ttl s)"
| "presence_step (PRemove oc now r sid) s = snd (presence_Remove oc now r sid s)"
| "presence_step (PRenew oc now r sid ttl) s = snd (presence_Renew oc now r sid ttl s)"

definition presence_run :: "presence_op list \<Rightarrow> presence_store \<Rightarrow> presence_store" where
  "presence_run ops s = foldl (\<lambda>s op. presence_step op s) s ops"

text \<open>Operations that are not a newer login of the role and do not come from the session that holds it.\<close>

fun foreign :: "int \<Rightarrow> string \<Rightarrow> presence_op \<Rightarrow> bool" where
  "foreign r sid (PStore oc now rec ttl) = (prRoleID rec \<noteq> r)"
| "foreign r sid (PRemove oc now r' sid') = (r' \<noteq> r \<or> sid' \<noteq> sid)"
| "foreign r sid (PRenew oc now r' sid' ttl) = (r' \<noteq> r \<or> sid' \<noteq> sid)"

lemma presence_key_inj [simp]: "presence_key a = presence_key b \<longleftrightarrow> a = b"
  by (simp add: presence_key_def)

lemmas presence_defs = presence_Store_def presence_Remove_def presence_Renew_def storeScript_def removeScript_def
  renewScript_def redis_SET_def redis_DEL_def redis_PEXPIRE_def redis_GET_def

lemma foreign_keeps:
  assumes "s (presence_key r) = Some (Some rec, w)" and "prSessionID rec = sid" and "foreign r sid op"
  shows "presence_step op s (presence_key r) = Some (Some rec, w)"
  using assms by (cases op) (auto simp: presence_defs store_call_def Let_def split: outcome.splits option.splits if_splits)

lemma foreign_run_keeps:
  assumes "s (presence_key r) = Some (Some rec, w)" and "prSessionID rec = sid" and "\<forall>op \<in> set ops. foreign r sid op"
  shows "presence_run ops s (presence_key r) = Some (Some rec, w)"
  using assms by (induction ops arbitrary: s) (auto simp: presence_run_def foreign_keeps)

text \<open>
  C13. The latest login owns the presence of a role. Once a login has stored its record, no sequence
  of renewals and removals by older connections (and nothing that concerns other roles) changes or
  extends it: until it expires, looking the role up yields the new connection, and an older
  connection that tries to renew or remove it is told that it is stale. The connection itself can
  remove it.
\<close>

theorem latest_login_owns_presence:
  assumes "presence_Store Done now rec ttl s = (Inr old, s1)" and "prLoginAt rec \<noteq> 0"
    and "\<forall>op \<in> set ops. foreign (prRoleID rec) (prSessionID rec) op"
    and "s2 = presence_run ops s1" and "millis now' \<le> millis now + millis (if ttl \<le> 0 then day else ttl)" and "sid \<noteq> prSessionID rec"
  shows "presence_Load Done now' (prRoleID rec) s2 = Inr rec \<and>
    fst (presence_Renew Done now' (prRoleID rec) sid d s2) = Inl ErrStaleSession \<and>
    presence_Remove Done now' (prRoleID rec) sid s2 = (Inl ErrStaleSession, s2) \<and>
    presence_Load Done now'' (prRoleID rec) (snd (presence_Remove Done now' (prRoleID rec) (prSessionID rec) s2)) = Inl (ErrMsg ''offline'')"
proof -
  have "s1 (presence_key (prRoleID rec)) = Some (Some rec, Some (millis now + millis (if ttl \<le> 0 then day else ttl)))"
    using assms(1,2) by (auto simp: presence_Store_def storeScript_def Let_def redis_SET_def split: if_splits option.splits)
  from foreign_run_keeps [of s1, OF this refl assms(3)]
  have e: "s2 (presence_key (prRoleID rec)) = Some (Some rec, Some (millis now + millis (if ttl \<le> 0 then day else ttl)))"
    by (simp add: assms(4))
  then have g: "redis_GET now' (presence_key (prRoleID rec)) s2 = Some (Some rec)"
    using assms(5) by (simp add: redis_GET_def)
  then show ?thesis
    using assms(6) by (simp add: presence_Load_def presence_Renew_def renewScript_def presence_Remove_def removeScript_def)
qed

definition demo_presence :: presence where
  "demo_presence = no_presence\<lparr>prRoleID := 7, prSessionID := ''new'', prLoginAt := 1\<rparr>"

theorem latest_login_owns_presence_witness:
  "presence_Load Done 5 7 (presence_run [PRemove Done 3 7 ''old'', PRenew Lost 4 7 ''old'' 0]
     (snd (presence_Store Done 1 demo_presence 0 Map.empty))) = Inr demo_presence"
proof -
  let ?s1 = "snd (presence_Store Done 1 demo_presence 0 Map.empty)"
  have st: "presence_Store Done 1 demo_presence 0 Map.empty = (Inr no_presence, ?s1)"
    by (simp add: presence_Store_def demo_presence_def storeScript_def day_def millis_def redis_GET_def)
  show ?thesis
    using latest_login_owns_presence [OF st, of "[PRemove Done 3 7 ''old'', PRenew Lost 4 7 ''old'' 0]" _ 5 "''old''"]
    by (simp add: demo_presence_def day_def millis_def)
qed

end
