(* ===== verification/Game_Client.thy ===== *)
theory Game_Client
  imports Player_Grants Sessions
begin

text \<open>
  The grant endpoint of a game process (\<^verbatim>\<open>handleGrant\<close> in \<^verbatim>\<open>services/game/internal/server.go\<close>) and the client
  through which the other services reach it (\<^verbatim>\<open>pkg/client/game.go\<close>). The client finds the process that
  owns the role, sends the bundle as JSON and reads the reply; the request may never arrive, and the
  reply may be lost.
\<close>

section \<open>The endpoint\<close>

definition grant_shape :: "(string \<times> json) list" where
  "grant_shape = [(''role_id'', JNum 64), (''gold'', JNum 64), (''items'', JObj []), (''source'', JStr []), (''items_raw'', JStr [])]"

text \<open>\<^verbatim>\<open>b.Items[k] += v\<close> for every parsed item; \<^const>\<open>None\<close> when the map is nil and the write panics.\<close>

definition merge_items :: "(string \<times> int) list option \<Rightarrow> (string \<times> int) list \<Rightarrow> (string \<times> int) list option option" where
  "merge_items items parsed =
     (if parsed = [] then Some items
      else case items of
             None \<Rightarrow> None
           | Some m \<Rightarrow> Some (Some (foldl (\<lambda>m kv. add_item (fst kv) (snd kv) m) m parsed)))"

record grant_result =
  grDuplicate :: bool
  grGold :: int
  grBag :: inventory

definition handleGrant :: "call_env \<Rightarrow> body \<Rightarrow> manager \<Rightarrow> grant_result reply \<times> manager" where
  "handleGrant E p m =
     (let roleID = json_int64 ''role_id'' p; raw = json_string ''items_raw'' p; source = json_string ''source'' p in
      if \<not> json_valid grant_shape p then (HttpError 400, m)
      else if roleID = 0 then (HttpError 400, m)
      else case (if raw \<noteq> [] then Parse raw else Inr empty_bundle) of
        Inl _ \<Rightarrow> (HttpError 400, m)
      | Inr parsed \<Rightarrow>
          (case merge_items (json_items ''items'' p) (bItems parsed) of
             None \<Rightarrow> (Aborted, m)
           | Some items \<Rightarrow>
               let b = \<lparr>bGold = i64 (json_int64 ''gold'' p + bGold parsed), bItems = (case items of None \<Rightarrow> [] | Some its \<Rightarrow> its)\<rparr> in
               if source = [] then (HttpError 400, m)
               else case manager_ApplyGrant (eGet E) (eAdm E) (eNow E) (eSave E) (eLoad E) (eBetween E)
                           (eOrd1 E (bItems b)) (eOrd2 E (bItems b)) roleID b source m of
                      (Inl _, m) \<Rightarrow> (HttpError 500, m)
                    | (Inr (q, applied), m) \<Rightarrow>
                        let pl = gHeap m q;
                            snap = (if pClosed pl then zero_snapshot else snapshotUnsafe pl)
                        in (ReplyOK \<lparr>grDuplicate = \<not> applied, grGold = snGold snap,
                              grBag = (case snBag snap of None \<Rightarrow> Map.empty | Some bg \<Rightarrow> bg)\<rparr>, m)))"

section \<open>The client\<close>

record game_client =
  cResolver :: bool
  cZoneID :: int
  cShardCount :: int
  cSecret :: string
  cStrict :: bool

text \<open>\<open>resolve\<close> is the answer of service discovery for a service name and a zone: the base URL, if an instance is found.\<close>

definition baseURLForRole :: "(string \<Rightarrow> int \<Rightarrow> string option) \<Rightarrow> game_client \<Rightarrow> int \<Rightarrow> string" where
  "baseURLForRole resolve c roleID =
     (let fallback = (if cZoneID c = 2 then ''http://127.0.0.1:9110'' else ''http://127.0.0.1:9100'') in
      if \<not> cResolver c then fallback
      else let name = (if 0 < cShardCount c then ServiceName (ForRole roleID (cShardCount c)) else ''game'')
           in case resolve name (cZoneID c) of
                Some base \<Rightarrow> base
              | None \<Rightarrow> if cStrict c then [] else fallback)"

definition grant_body :: "int \<Rightarrow> grant_bundle \<Rightarrow> string \<Rightarrow> body" where
  "grant_body roleID b source =
     Some (JObj [(''gold'', JNum (bGold b)), (''items'', JObj (map (\<lambda>kv. (fst kv, JNum (snd kv))) (bItems b))),
                 (''role_id'', JNum roleID), (''source'', JStr source)])"

fun grant_error :: "grant_result reply \<Rightarrow> err option" where
  "grant_error (ReplyOK _) = None"
| "grant_error (HttpError n) = Some (ErrMsg ''game grant status'')"
| "grant_error Unauthorized = Some (ErrMsg ''game grant status'')"
| "grant_error (Reply n) = Some (ErrMsg ''game grant code'')"
| "grant_error Aborted = Some (ErrMsg ''EOF'')"

text \<open>\<open>serve\<close> is the server at a base URL: it gets the authentication header and the body.\<close>

definition client_Grant :: "(string \<Rightarrow> int \<Rightarrow> string option) \<Rightarrow> game_client \<Rightarrow> outcome \<Rightarrow> (string \<Rightarrow> string \<Rightarrow> body \<Rightarrow> 'w \<Rightarrow> grant_result reply \<times> 'w)
    \<Rightarrow> int \<Rightarrow> grant_bundle \<Rightarrow> string \<Rightarrow> 'w \<Rightarrow> err option \<times> 'w" where
  "client_Grant resolve c oc serve roleID b source w =
     (let base = baseURLForRole resolve c roleID in
      if base = [] then (Some (ErrMsg ''game shard unavailable''), w)
      else case oc of
        Failed \<Rightarrow> (Some ErrStore, w)
      | Lost \<Rightarrow> (Some ErrStore, snd (serve base (SetHTTP (cSecret c)) (grant_body roleID b source) w))
      | Done \<Rightarrow> (let (r, w) = serve base (SetHTTP (cSecret c)) (grant_body roleID b source) w in (grant_error r, w)))"

definition GrantItems :: "(int \<Rightarrow> grant_bundle \<Rightarrow> string \<Rightarrow> 'w \<Rightarrow> err option \<times> 'w) \<Rightarrow> int \<Rightarrow> string \<Rightarrow> string \<Rightarrow> 'w \<Rightarrow> err option \<times> 'w" where
  "GrantItems grant roleID items source w =
     (case Parse items of
        Inl e \<Rightarrow> (Some e, w)
      | Inr b \<Rightarrow> grant roleID b source w)"

text \<open>The process behind every base URL, guarded by the shared secret.\<close>

definition game_serve :: "string \<Rightarrow> call_env \<Rightarrow> string \<Rightarrow> string \<Rightarrow> body \<Rightarrow> manager \<Rightarrow> grant_result reply \<times> manager" where
  "game_serve secret E base header p = withRequestBoundary (internal_HTTPMiddleware secret header (handleGrant E p))"


section \<open>What the endpoint receives\<close>

lemma update_new: "k \<notin> fst ` set m \<Longrightarrow> AList.update k v m = m @ [(k, v)]"
  by (induction m) auto

lemma items_decode:
  assumes "distinct (map fst (m @ kvs))" and "list_all (\<lambda>kv. in_i32 (snd kv)) kvs"
  shows "foldl (\<lambda>m kv. AList.update (fst kv) (keep_int in_i32 0 (snd kv)) m) m (map (\<lambda>kv. (fst kv, JNum (snd kv))) kvs) = m @ kvs"
  using assms by (induction kvs arbitrary: m) (auto simp: update_new image_iff)

definition wire_ok :: "int \<Rightarrow> grant_bundle \<Rightarrow> bool" where
  "wire_ok r b \<longleftrightarrow> in_i64 r \<and> in_i64 (bGold b) \<and> list_all (\<lambda>kv. in_i32 (snd kv)) (bItems b)"

lemmas body_defs = read_field_def Json_Values.fields_def same_key_def lower_char_def

lemma grant_body_valid: "json_valid grant_shape (grant_body r b src) \<longleftrightarrow> wire_ok r b"
  by (auto simp: json_valid_def grant_shape_def grant_body_def wire_ok_def same_key_def lower_char_def list_all_iff)

lemma grant_body_reads:
  assumes "wire_ok r b" and "bundle_wf b"
  shows "json_int64 ''role_id'' (grant_body r b src) = r" "json_int64 ''gold'' (grant_body r b src) = bGold b"
    "json_string ''source'' (grant_body r b src) = src" "json_string ''items_raw'' (grant_body r b src) = []"
    "json_items ''items'' (grant_body r b src) = Some (bItems b)"
  using assms items_decode [of "[]" "bItems b"]
  by (simp_all add: json_int64_def json_string_def json_items_def grant_body_def body_defs wire_ok_def keep_items_def bundle_wf_def)

lemma grant_body_reads_any:
  "in_i64 r \<Longrightarrow> json_int64 ''role_id'' (grant_body r b src) = r" "json_string ''source'' (grant_body r b src) = src"
  "json_string ''items_raw'' (grant_body r b src) = []"
  by (simp_all add: json_int64_def json_string_def grant_body_def body_defs)

text \<open>The bundle that the endpoint reads from a client's body.\<close>

definition received :: "int \<Rightarrow> grant_bundle \<Rightarrow> string \<Rightarrow> grant_bundle" where
  "received r b src =
     \<lparr>bGold = json_int64 ''gold'' (grant_body r b src),
      bItems = (case json_items ''items'' (grant_body r b src) of None \<Rightarrow> [] | Some its \<Rightarrow> its)\<rparr>"

lemma received_id: "wire_ok r b \<Longrightarrow> bundle_wf b \<Longrightarrow> received r b src = b"
  by (simp add: received_def grant_body_reads)

lemma handleGrant_body:
  "handleGrant E (grant_body r b src) m = (x, m') \<Longrightarrow>
     (m' = m \<and> grant_error x \<noteq> None) \<or>
     wire_ok r b \<and> src \<noteq> [] \<and> local_grant E r (received r b src) src m = (if grant_error x = None then None else fst (local_grant E r (received r b src) src m), m')
      \<and> (grant_error x = None \<longleftrightarrow> fst (local_grant E r (received r b src) src m) = None)"
  by (auto simp: handleGrant_def Let_def grant_body_valid grant_body_reads_any merge_items_def empty_bundle_def local_grant_def
      received_def wire_ok_def json_int64_range split: if_splits prod.splits sum.splits)

section \<open>The client is a granter\<close>

lemma grant_error_boundary [simp]: "grant_error (request_boundary r) = None \<longleftrightarrow> grant_error r = None"
  by (cases r) simp_all

lemma game_serve_grant:
  assumes "game_serve secret E base header (grant_body r b src) m = (x, m')"
  shows "(m' = m \<and> grant_error x \<noteq> None) \<or>
     wire_ok r b \<and> src \<noteq> [] \<and> (\<exists>y. local_grant E r (received r b src) src m = (y, m') \<and> (grant_error x = None \<longleftrightarrow> y = None))"
proof -
  obtain y m1 where h: "handleGrant E (grant_body r b src) m = (y, m1)" by fastforce
  have "m' = m \<and> grant_error x \<noteq> None \<or> m' = m1 \<and> (grant_error x = None \<longleftrightarrow> grant_error y = None)"
    using assms h by (auto simp: game_serve_def withRequestBoundary_def internal_HTTPMiddleware_def simp del: not_None_eq split: if_splits)
  then show ?thesis using handleGrant_body [OF h] by (metis surj_pair fst_conv)
qed

lemma client_Grant_cases:
  assumes "client_Grant resolve c oc (game_serve secret E) r b src m = (x, m')"
  shows "(m' = m \<and> x \<noteq> None) \<or>
     wire_ok r b \<and> src \<noteq> [] \<and> (\<exists>y. local_grant E r (received r b src) src m = (y, m') \<and> (x = None \<longrightarrow> y = None))"
proof (cases "baseURLForRole resolve c r = [] \<or> oc = Failed")
  case True
  then show ?thesis using assms by (auto simp: client_Grant_def Let_def split: outcome.splits if_splits)
next
  case False
  obtain z m1 where s: "game_serve secret E (baseURLForRole resolve c r) (SetHTTP (cSecret c)) (grant_body r b src) m = (z, m1)" by fastforce
  then have "m' = m1" "x = None \<longrightarrow> grant_error z = None" "oc = Done \<longrightarrow> x = grant_error z" "oc = Lost \<longrightarrow> x = Some ErrStore"
    using assms False by (auto simp: client_Grant_def Let_def split: outcome.splits)
  then show ?thesis using game_serve_grant [OF s] False by (cases oc) auto
qed

lemma client_Grant_ledger:
  assumes "client_Grant resolve c oc (game_serve secret E) r b src m = (x, m')" and "manager_live m" and "benign (eBetween E)"
  shows "manager_live m' \<and> (\<forall>k cr. manager_credited m k = Some cr \<longrightarrow> manager_credited m' k = Some cr) \<and>
    (\<forall>k cr. bundle_wf b \<and> manager_credited m k = None \<and> manager_credited m' k = Some cr \<longrightarrow> k = (r, src) \<and> cr = b) \<and>
    (x = None \<and> src \<noteq> [] \<longrightarrow> manager_credited m' (r, src) \<noteq> None)"
  using client_Grant_cases [OF assms(1)]
proof
  assume "m' = m \<and> x \<noteq> None"
  then show ?thesis using assms(2) by auto
next
  assume "wire_ok r b \<and> src \<noteq> [] \<and> (\<exists>y. local_grant E r (received r b src) src m = (y, m') \<and> (x = None \<longrightarrow> y = None))"
  then obtain y where y: "wire_ok r b" "local_grant E r (received r b src) src m = (y, m')" "x = None \<longrightarrow> y = None" by blast
  show ?thesis using local_grant_ledger [OF y(2) assms(2,3)] y(1,3) received_id by metis
qed

lemma client_Grant_granter:
  "benign (eBetween E) \<Longrightarrow> granter manager_credited (client_Grant resolve c oc (game_serve secret E)) manager_live"
  by unfold_locales (use client_Grant_ledger in blast)+

interpretation remote: granter manager_credited "client_Grant resolve c oc (game_serve secret (E\<lparr>eBetween := id\<rparr>))" manager_live
  by (rule client_Grant_granter) simp

text \<open>
  The endpoint writes the items of \<open>items_raw\<close> into a map that is nil when the request has no \<open>items\<close>:
  such a request panics, and the caller sees status 500.
\<close>

lemma items_raw_without_items_panics:
  "fst (handleGrant E (Some (JObj [(''role_id'', JNum 7), (''source'', JStr ''gm''), (''items_raw'', JStr ''gold:1,potion:1'')])) m) = Aborted"
proof -
  have p: "Parse ''gold:1,potion:1'' = Inr \<lparr>bGold = 1, bItems = [(''potion'', 1)]\<rparr>"
    using Parse_show_tokens [of "[(''gold'', 1), (''potion'', 1)]"]
    by (simp add: show_token_def FormatInt_def nat_digits.simps digit_char_def token_ok_def plain_def
        space_codes_def in_i64_def in_i32_def credit_def empty_bundle_def)
  show ?thesis
    by (simp add: handleGrant_def json_valid_def grant_shape_def json_int64_def json_string_def json_items_def body_defs
        in_i64_def p merge_items_def)
qed

text \<open>
  C14. A reward that a service sends to a game process is credited at most once under its source, and
  exactly as it was written. However the request or its reply gets lost and however often the service
  repeats it: once a call has reported success the economy ledger has an entry for the role and the
  source, the entry holds the bundle that the reward string denotes unless the source had an entry
  before, no other entry appears, and no call removes or changes an entry.
\<close>

theorem GrantItems_credits:
  assumes "manager_live m" and "benign (eBetween E)" and "Parse items = Inr b" and "src \<noteq> []"
    and "GrantItems (client_Grant resolve c oc (game_serve secret E)) r items src m = (x, m')"
  shows "manager_live m' \<and>
    (x = None \<longrightarrow> manager_credited m' (r, src) = (case manager_credited m (r, src) of None \<Rightarrow> Some b | Some cr \<Rightarrow> Some cr)) \<and>
    (\<forall>k cr. manager_credited m k = Some cr \<longrightarrow> manager_credited m' k = Some cr) \<and>
    (\<forall>k cr. manager_credited m k = None \<and> manager_credited m' k = Some cr \<longrightarrow> k = (r, src) \<and> cr = b)"
proof -
  have g: "granter manager_credited (client_Grant resolve c oc (game_serve secret E)) manager_live"
    by (rule client_Grant_granter [OF assms(2)])
  have run: "client_Grant resolve c oc (game_serve secret E) r b src m = (x, m')"
    using assms(3,5) by (simp add: GrantItems_def)
  have wf: "bundle_wf b" by (rule Parse_wf [OF assms(3)])
  show ?thesis
    using granter.grant_live [OF g assms(1) run] granter.grant_once [OF g assms(1,4) _ wf] run
      granter.grant_keeps [OF g assms(1) run] granter.grant_only [OF g assms(1) wf run] by blast
qed


definition demo_client :: game_client where
  "demo_client = \<lparr>cResolver = False, cZoneID = 1, cShardCount = 0, cSecret = ''s'', cStrict = True\<rparr>"

lemma Parse_potion: "Parse ''potion:1'' = Inr \<lparr>bGold = 0, bItems = [(''potion'', 1)]\<rparr>"
  using Parse_show_tokens [of "[(''potion'', 1)]"]
  by (simp add: show_token_def FormatInt_def nat_digits.simps digit_char_def token_ok_def plain_def
      space_codes_def in_i64_def i32_def credit_def empty_bundle_def)

lemma market_no_credit: "manager_credited market k = None"
  by (simp add: manager_credited_def market_def NewManager_def market_db_def role_db_def poolFor_def empty_db_def)

definition demo_grant :: "int \<Rightarrow> grant_bundle \<Rightarrow> string \<Rightarrow> manager \<Rightarrow> err option \<times> manager" where
  "demo_grant = client_Grant (\<lambda>_ _. None) demo_client Done (game_serve ''s'' demo_env)"

lemma demo_GrantItems: "fst (GrantItems demo_grant 7 ''potion:1'' ''mail:1'' market) = None"
proof -
  let ?b = "\<lparr>bGold = 0, bItems = [(''potion'', 1)]\<rparr>"
  have "wire_ok 7 ?b" "bundle_wf ?b" by (simp_all add: wire_ok_def bundle_wf_def in_i64_def in_i32_def)
  then show ?thesis
    by (simp add: GrantItems_def Parse_potion demo_grant_def client_Grant_def baseURLForRole_def demo_client_def game_serve_def withRequestBoundary_def internal_HTTPMiddleware_def SetHTTP_def
        handleGrant_def grant_body_valid grant_body_reads merge_items_def empty_bundle_def Let_def market_simps i64_def i32_def)
qed

theorem GrantItems_credits_witness:
  "\<exists>m'. GrantItems demo_grant 7 ''potion:1'' ''mail:1'' market = (None, m') \<and>
     manager_credited m' (7, ''mail:1'') = Some \<lparr>bGold = 0, bItems = [(''potion'', 1)]\<rparr>"
proof -
  obtain m' where run: "GrantItems demo_grant 7 ''potion:1'' ''mail:1'' market = (None, m')"
    using demo_GrantItems by (metis prod.collapse)
  from GrantItems_credits [OF market_live demo_env_benign Parse_potion _ run [unfolded demo_grant_def]] run show ?thesis
    by (simp add: market_no_credit)
qed

end
