(* ===== verification/Go_Net.thy ===== *)
theory Go_Net
  imports Go_Strings
begin

text \<open>
  The parts of Go's \<^verbatim>\<open>net\<close>, \<^verbatim>\<open>strings\<close> and \<^verbatim>\<open>strconv\<close> packages that configuration and discovery use:
  splitting and joining \<open>host:port\<close>, recognising IP addresses, parsing booleans and lower-casing.
\<close>

section \<open>Positions of bytes\<close>

definition IndexByte :: "string \<Rightarrow> char \<Rightarrow> nat option" where
  "IndexByte s c = (if c \<in> set s then Some (length (takeWhile (\<lambda>x. x \<noteq> c) s)) else None)"

definition LastIndexByte :: "string \<Rightarrow> char \<Rightarrow> nat option" where
  "LastIndexByte s c = (if c \<in> set s then Some (length s - Suc (length (takeWhile (\<lambda>x. x \<noteq> c) (rev s)))) else None)"

lemma LastIndexByte_append: "c \<notin> set t \<Longrightarrow> LastIndexByte (s @ c # t) c = Some (length s)"
proof -
  assume "c \<notin> set t"
  then have "takeWhile (\<lambda>x. x \<noteq> c) (rev t @ [c] @ rev s) = rev t"
    by (subst takeWhile_append2) auto
  then show ?thesis by (simp add: LastIndexByte_def)
qed

lemma IndexByte_append: "c \<notin> set s \<Longrightarrow> IndexByte (s @ c # t) c = Some (length s)"
  by (simp add: IndexByte_def) (subst takeWhile_append2; auto)

section \<open>Host and port\<close>

text \<open>\<^verbatim>\<open>net.SplitHostPort\<close>; every error is \<^const>\<open>None\<close>.\<close>

definition SplitHostPort :: "string \<Rightarrow> (string \<times> string) option" where
  "SplitHostPort hostport =
     (case LastIndexByte hostport CHR '':'' of
        None \<Rightarrow> None
      | Some i \<Rightarrow>
          let checked = (\<lambda>host j k.
            if CHR ''['' \<in> set (drop j hostport) \<or> CHR '']'' \<in> set (drop k hostport) then None
            else Some (host, drop (i + 1) hostport))
          in if hostport ! 0 = CHR ''[''
             then (case IndexByte hostport CHR '']'' of
                     None \<Rightarrow> None
                   | Some e \<Rightarrow> if e + 1 = i then checked (take (e - 1) (drop 1 hostport)) 1 (e + 1) else None)
             else let host = take i hostport in if CHR '':'' \<in> set host then None else checked host 0 0)"

definition JoinHostPort :: "string \<Rightarrow> string \<Rightarrow> string" where
  "JoinHostPort host port =
     (if CHR '':'' \<in> set host then ''['' @ host @ '']:'' @ port else host @ '':'' @ port)"

text \<open>The round trip, for hosts with and without colons.\<close>

lemma SplitHostPort_Join:
  assumes "CHR ''['' \<notin> set host" and "CHR '']'' \<notin> set host"
    and "CHR '':'' \<notin> set port" and "CHR ''['' \<notin> set port" and "CHR '']'' \<notin> set port"
  shows "SplitHostPort (JoinHostPort host port) = Some (host, port)"
proof (cases "CHR '':'' \<in> set host")
  case True
  let ?s = "CHR ''['' # host @ CHR '']'' # CHR '':'' # port"
  have "LastIndexByte ?s CHR '':'' = Some (length host + 2)"
    using LastIndexByte_append [OF assms(3), of "CHR ''['' # host @ [CHR '']'']"] by simp
  moreover have "IndexByte ?s CHR '']'' = Some (length host + 1)"
    using IndexByte_append [of "CHR '']''" "CHR ''['' # host"] assms(2) by simp
  ultimately show ?thesis
    using True assms by (simp add: SplitHostPort_def JoinHostPort_def Let_def)
next
  case False
  let ?s = "host @ CHR '':'' # port"
  have l: "LastIndexByte ?s CHR '':'' = Some (length host)" by (rule LastIndexByte_append [OF assms(3)])
  have "?s ! 0 \<noteq> CHR ''[''" using assms(1) by (cases host) auto
  then show ?thesis
    using False assms l by (simp add: SplitHostPort_def JoinHostPort_def Let_def)
qed

section \<open>IP addresses\<close>

text \<open>One decimal field of an IPv4 address: digits, no leading zero, at most 255.\<close>

definition ipv4_field :: "string \<Rightarrow> bool" where
  "ipv4_field f \<longleftrightarrow> (f = ''0'' \<or> (f \<noteq> [] \<and> hd f \<noteq> CHR ''0'')) \<and>
     (case parse_digits 0 f of None \<Rightarrow> False | Some n \<Rightarrow> n \<le> 255)"

definition parseIPv4 :: "string \<Rightarrow> bool" where
  "parseIPv4 s \<longleftrightarrow> (let fs = Split CHR ''.'' s in length fs = 4 \<and> list_all ipv4_field fs)"

definition hex_digit :: "char \<Rightarrow> bool" where
  "hex_digit c \<longleftrightarrow> c \<in> set ''0123456789abcdefABCDEF''"

text \<open>
  The loop of \<^verbatim>\<open>netip.parseIPv6\<close>. \<open>i\<close> counts the bytes read so far and \<open>dots\<close> says whether the ellipsis
  was seen; the loop ends when sixteen bytes are read. The end result is checked by \<open>ipv6_end\<close>.
\<close>

definition ipv6_end :: "nat \<Rightarrow> bool \<Rightarrow> string \<Rightarrow> bool" where
  "ipv6_end i dots s \<longleftrightarrow> s = [] \<and> (if i < 16 then dots else \<not> dots)"

function ipv6_loop :: "nat \<Rightarrow> bool \<Rightarrow> string \<Rightarrow> bool" where
  "ipv6_loop i dots s =
     (if \<not> i < 16 then ipv6_end i dots s
      else let off = length (takeWhile hex_digit s); rest = drop off s in
        if off = 0 \<or> 4 < off then False
        else case rest of
          [] \<Rightarrow> ipv6_end (i + 2) dots []
        | c # rest \<Rightarrow>
            if c = CHR ''.'' then (if \<not> dots \<and> i \<noteq> 12 then False else if i + 4 > 16 then False
                                   else parseIPv4 s \<and> ipv6_end (i + 4) dots [])
            else if c \<noteq> CHR '':'' then False
            else case rest of
              [] \<Rightarrow> False
            | d # more \<Rightarrow>
                if d = CHR '':'' then
                  (if dots then False
                   else if more = [] then ipv6_end (i + 2) True [] else ipv6_loop (i + 2) True more)
                else ipv6_loop (i + 2) dots (d # more))"
  by pat_completeness auto
termination by (relation "measure (\<lambda>(i, _). 16 - i)") auto

declare ipv6_loop.simps [simp del]

definition parseIPv6 :: "string \<Rightarrow> bool" where
  "parseIPv6 s = (if HasPrefix s ''::'' then (if drop 2 s = [] then True else ipv6_loop 0 True (drop 2 s)) else ipv6_loop 0 False s)"

text \<open>
  Whether \<^verbatim>\<open>net.ParseIP\<close> accepts: the first dot or colon decides between the two forms, and an
  address with a zone is refused.
\<close>

definition ParseIP :: "string \<Rightarrow> bool" where
  "ParseIP s \<longleftrightarrow> CHR ''%'' \<notin> set s \<and>
     (case dropWhile (\<lambda>c. c \<noteq> CHR ''.'' \<and> c \<noteq> CHR '':'') s of
        [] \<Rightarrow> False
      | c # _ \<Rightarrow> if c = CHR ''.'' then parseIPv4 s else parseIPv6 s)"

text \<open>An address contains no brackets, so it can be joined with a port and split again.\<close>

definition ip_char :: "char \<Rightarrow> bool" where
  "ip_char c \<longleftrightarrow> hex_digit c \<or> c = CHR ''.'' \<or> c = CHR '':''"

lemma digit_val_hex: "digit_val c = Some d \<Longrightarrow> hex_digit c"
proof -
  assume "digit_val c = Some d"
  then have "c \<in> fst ` set (zip ''0123456789'' [0, 1, 2, 3, 4, 5, 6, 7, 8, 9::nat])"
    unfolding digit_val_def by (metis fst_conv image_eqI map_of_SomeD)
  then show ?thesis by (auto simp: hex_digit_def)
qed

lemma parse_digits_hex: "parse_digits acc f = Some n \<Longrightarrow> c \<in> set f \<Longrightarrow> hex_digit c"
  by (induction f arbitrary: acc) (auto split: option.splits dest: digit_val_hex)

lemma Split_chars: "c \<in> set s \<Longrightarrow> c = sep \<or> (\<exists>f \<in> set (Split sep s). c \<in> set f)"
proof (induction s)
  case Nil
  then show ?case by simp
next
  case (Cons a s)
  obtain p ps where "Split sep s = p # ps" by (meson Split_nonempty neq_Nil_conv)
  with Cons show ?case by auto
qed

lemma parseIPv4_chars: "parseIPv4 s \<Longrightarrow> c \<in> set s \<Longrightarrow> ip_char c"
  using Split_chars [of c s "CHR ''.''"] parse_digits_hex
  by (fastforce simp: parseIPv4_def Let_def list_all_iff ipv4_field_def ip_char_def split: option.splits)

lemma ipv6_loop_chars: "ipv6_loop i dots s \<Longrightarrow> c \<in> set s \<Longrightarrow> ip_char c"
proof (induction i dots s rule: ipv6_loop.induct)
  case (1 i dots s)
  let ?off = "length (takeWhile hex_digit s)"
  have s: "s = takeWhile hex_digit s @ drop ?off s" by (metis takeWhile_dropWhile_id dropWhile_eq_drop)
  have hex: "hex_digit x" if "x \<in> set (takeWhile hex_digit s)" for x using that by (auto dest: set_takeWhileD)
  show ?case
  proof (cases "i < 16")
    case False
    then show ?thesis using "1.prems" by (subst (asm) ipv6_loop.simps) (simp add: ipv6_end_def)
  next
    case i: True
    have off: "\<not> (?off = 0 \<or> 4 < ?off)" using "1.prems"(1) i by (subst (asm) ipv6_loop.simps) (auto simp: Let_def split: if_splits)
    from "1.prems"(2) s consider "c \<in> set (takeWhile hex_digit s)" | "c \<in> set (drop ?off s)" by (metis Un_iff set_append)
    then show ?thesis
    proof cases
      case 1
      then show ?thesis using hex by (simp add: ip_char_def)
    next
      case 2
      then obtain x rest where r: "drop ?off s = x # rest" by (cases "drop ?off s") auto
      note step = "1.prems"(1) [unfolded ipv6_loop.simps [of i dots s] Let_def]
      show ?thesis
      proof (cases "x = CHR ''.''")
        case True
        then have "parseIPv4 s" using step i off r by (auto split: if_splits)
        then show ?thesis using parseIPv4_chars "1.prems"(2) by blast
      next
        case False
        then obtain d more where x: "x = CHR '':''" "rest = d # more"
          using step i off r by (cases rest) (auto split: if_splits)
        then have c: "c = CHR '':'' \<or> c = d \<or> c \<in> set more" using 2 r by auto
        show ?thesis
        proof (cases "d = CHR '':''")
          case True
          then have "\<not> dots" "more = [] \<or> ipv6_loop (i + 2) True more" using step i off r x by (auto split: if_splits)
          then show ?thesis
            using c True "1.IH"(1) [OF _ refl refl _ r False _ x(2) True] i off x
            by (cases "more = []") (auto simp: ip_char_def)
        next
          case False
          then have "ipv6_loop (i + 2) dots (d # more)" using step i off r x by (auto split: if_splits)
          then show ?thesis
            using c "1.IH"(2) [OF _ refl refl _ r _ _ x(2) False] i off x by (auto simp: ip_char_def)
        qed
      qed
    qed
  qed
qed

lemma ParseIP_chars:
  assumes "ParseIP s" and "c \<in> set s"
  shows "ip_char c"
proof -
  from assms(1) consider "parseIPv4 s" | "parseIPv6 s"
    by (auto simp: ParseIP_def split: list.splits if_splits)
  then show ?thesis
  proof cases
    case 1
    then show ?thesis using parseIPv4_chars assms(2) by blast
  next
    case 2
    show ?thesis
    proof (cases "HasPrefix s ''::''")
      case True
      then have "s = ''::'' @ drop 2 s" by (metis HasPrefix_def append_take_drop_id length_Cons list.size(3) numeral_2_eq_2)
      then have "c = CHR '':'' \<or> c \<in> set (drop 2 s)" using assms(2) by (metis Un_iff empty_iff empty_set set_ConsD set_append)
      then show ?thesis using 2 True ipv6_loop_chars by (auto simp: parseIPv6_def ip_char_def split: if_splits)
    next
      case False
      then show ?thesis using 2 ipv6_loop_chars assms(2) by (simp add: parseIPv6_def)
    qed
  qed
qed

lemma ParseIP_no_bracket: "ParseIP s \<Longrightarrow> CHR ''['' \<notin> set s \<and> CHR '']'' \<notin> set s"
  using ParseIP_chars [of s "CHR ''[''"] ParseIP_chars [of s "CHR '']''"] by (auto simp: ip_char_def hex_digit_def)

section \<open>Other conversions\<close>

text \<open>\<^verbatim>\<open>strconv.ParseBool\<close>.\<close>

definition ParseBool :: "string \<Rightarrow> bool option" where
  "ParseBool s =
     (if s \<in> set [''1'', ''t'', ''T'', ''TRUE'', ''true'', ''True''] then Some True
      else if s \<in> set [''0'', ''f'', ''F'', ''FALSE'', ''false'', ''False''] then Some False else None)"

text \<open>
  \<^verbatim>\<open>strings.ToLower\<close>, as far as a comparison with an ASCII string can see: the two characters outside
  ASCII whose lower case is an ASCII letter are U+0130 (i with a dot) and U+212A (the Kelvin sign).
\<close>

fun ToLower :: "string \<Rightarrow> string" where
  "ToLower [] = []"
| "ToLower (c # s) =
     (if c = CHR 0xC4 \<and> HasPrefix s [CHR 0xB0] then CHR ''i'' # ToLower (drop 1 s)
      else if c = CHR 0xE2 \<and> HasPrefix s [CHR 0x84, CHR 0xAA] then CHR ''k'' # ToLower (drop 2 s)
      else lower_char c # ToLower s)"

end
