(* ===== verification/Config.thy ===== *)
theory Config
  imports Go_Net Shard_Routing "HOL-Library.Char_ord"
begin

text \<open>
  Configuration of a process (\<^verbatim>\<open>pkg/config/config.go\<close>): the structure that the YAML file fills, the
  environment variables that override it, the defaults of its accessors and the checks of \<^verbatim>\<open>Validate\<close>.
  The YAML decoder is a library: its result is the argument \<open>parsed\<close> of \<open>config_Load\<close>. An environment
  is a function from names to values, the empty string for an unset variable, as \<^verbatim>\<open>os.Getenv\<close> has it.
  Durations are in nanoseconds, as \<^verbatim>\<open>time.Duration\<close>, and wrap at 64 bits.
\<close>

section \<open>The structure\<close>

record infra_config =
  ifRedis :: string
  ifRedisCluster :: "string list"
  ifPostgres :: string
  ifPostgresShards :: "string list"
  ifNATS :: string

record discovery_config =
  dcEnabled :: bool
  dcTTLSec :: int
  dcHeartbeat :: int

record internal_tls =
  tlEnabled :: bool
  tlCAFile :: string
  tlCertFile :: string
  tlKeyFile :: string
  tlServerName :: string

record payment_config =
  pcCurrency :: string
  pcProducts :: "(string \<times> int) list"
  pcMaxSkewSec :: int
  pcWebhookSecret :: string

record rank_config =
  rcCap :: int
  rcTrimIntervalSec :: int

record scale_config =
  scShardID :: int
  scShardCount :: int
  scMaxCCU :: int
  scSaveMode :: string
  scSaveIntervalSec :: int
  scSaveConcurrency :: int

record gate_config =
  gcGameTransport :: string
  gcGamePoolSize :: int
  gcReadTimeoutSec :: int
  gcWriteTimeoutSec :: int
  gcForwardTimeoutMs :: int
  gcAcceptors :: int
  gcMsgRatePerSec :: int

record observability_config =
  obTracingEnabled :: bool
  obOTLPEndpoint :: string
  obPrometheus :: bool

record service_config =
  sInternalTLS :: internal_tls
  sEnvironment :: string
  sName :: string
  sType :: string
  sHTTPAddr :: string
  sGRPCAddr :: string
  sTCPAddr :: string
  sAdvertiseHTTPAddr :: string
  sAdvertiseTCPAddr :: string
  sAdvertiseGRPCAddr :: string
  sZoneID :: int
  sZoneMode :: string
  sMaxConnPerIP :: int
  sInfra :: infra_config
  sDiscovery :: discovery_config
  sObservability :: observability_config
  sCrossZoneMatch :: bool
  sLogLevel :: string
  sScale :: scale_config
  sGate :: gate_config
  sInternalSecret :: string
  sRank :: rank_config
  sPayment :: payment_config

section \<open>Accessors with defaults\<close>

definition second :: int where "second = 1000000000"
definition millisecond :: int where "millisecond = 1000000"

definition seconds_or :: "int \<Rightarrow> int \<Rightarrow> int" where
  "seconds_or def n = (if n \<le> 0 then def * second else i64 (n * second))"

definition discovery_TTL :: "discovery_config \<Rightarrow> int" where
  "discovery_TTL d = seconds_or 15 (dcTTLSec d)"

definition HeartbeatInterval :: "discovery_config \<Rightarrow> int" where
  "HeartbeatInterval d = seconds_or 5 (dcHeartbeat d)"

definition MaxSkew :: "payment_config \<Rightarrow> int" where
  "MaxSkew c = (if pcMaxSkewSec c \<le> 0 then 300 * 1000000000 else i64 (pcMaxSkewSec c * 1000000000))"

definition CurrencyCode :: "payment_config \<Rightarrow> string" where
  "CurrencyCode c = (let currency = TrimSpace (pcCurrency c) in if currency = [] then ''CNY'' else ToUpper currency)"

definition Production :: "service_config \<Rightarrow> bool" where
  "Production s \<longleftrightarrow> EqualFold (sEnvironment s) ''production''"

definition RankCap :: "rank_config \<Rightarrow> int" where
  "RankCap r = (if rcCap r \<le> 0 then 10000 else rcCap r)"

definition TrimInterval :: "rank_config \<Rightarrow> int" where
  "TrimInterval r = seconds_or 60 (rcTrimIntervalSec r)"

definition SaveInterval :: "scale_config \<Rightarrow> int" where
  "SaveInterval s = seconds_or 10 (scSaveIntervalSec s)"

definition MsgRate :: "gate_config \<Rightarrow> int" where
  "MsgRate g = gcMsgRatePerSec g"

definition ReadTimeout :: "gate_config \<Rightarrow> int" where
  "ReadTimeout g = seconds_or 60 (gcReadTimeoutSec g)"

definition WriteTimeout :: "gate_config \<Rightarrow> int" where
  "WriteTimeout g = seconds_or 5 (gcWriteTimeoutSec g)"

definition ForwardTimeout :: "gate_config \<Rightarrow> int" where
  "ForwardTimeout g = (if gcForwardTimeoutMs g \<le> 0 then 3 * second else i64 (gcForwardTimeoutMs g * millisecond))"

definition AcceptorCount :: "gate_config \<Rightarrow> int" where
  "AcceptorCount g = (if gcAcceptors g \<le> 0 then 1 else gcAcceptors g)"

section \<open>Validation\<close>

definition validCurrencyCode :: "string \<Rightarrow> bool" where
  "validCurrencyCode currency \<longleftrightarrow>
     length currency = 3 \<and> list_all (\<lambda>ch. CHR ''A'' \<le> ch \<and> ch \<le> CHR ''Z'') currency"

definition usesGRPC :: "service_config \<Rightarrow> bool" where
  "usesGRPC s \<longleftrightarrow> (sType s = ''game'' \<and> sGRPCAddr s \<noteq> []) \<or> (sType s = ''gate'' \<and> gcGameTransport (sGate s) = ''grpc'')"

text \<open>The loop over the advertised addresses: the first bad one is the error.\<close>

fun check_advertised :: "string list \<Rightarrow> err option" where
  "check_advertised [] = None"
| "check_advertised (addr # rest) =
     (if addr = [] then check_advertised rest
      else case SplitHostPort addr of
        None \<Rightarrow> Some (ErrMsg ''invalid advertise address'')
      | Some (host, _) \<Rightarrow>
          if host = ''127.0.0.1'' \<or> host = ''localhost'' then Some (ErrMsg ''loopback advertise address is forbidden in production'')
          else check_advertised rest)"

definition validate_production :: "service_config \<Rightarrow> err option" where
  "validate_production s =
     (if sInternalSecret s = [] then Some (ErrMsg ''internal_secret is required in production'')
      else if ifRedis (sInfra s) = [] \<and> ifRedisCluster (sInfra s) = [] then Some (ErrMsg ''redis is required in production'')
      else if sType s \<in> set [''login'', ''game'', ''mail'', ''social'', ''activity'', ''pay'']
              \<and> ifPostgres (sInfra s) = [] \<and> ifPostgresShards (sInfra s) = [] then Some (ErrMsg ''postgres is required'')
      else if sType s = ''pay'' \<and> pcWebhookSecret (sPayment s) = [] then Some (ErrMsg ''payment.webhook_secret is required in production'')
      else if sType s = ''pay'' \<and> \<not> validCurrencyCode (CurrencyCode (sPayment s)) then Some (ErrMsg ''payment.currency'')
      else if usesGRPC s \<and> \<not> tlEnabled (sInternalTLS s) then Some (ErrMsg ''internal_tls.enabled is required for production gRPC'')
      else if usesGRPC s \<and> (tlCAFile (sInternalTLS s) = [] \<or> tlCertFile (sInternalTLS s) = [] \<or> tlKeyFile (sInternalTLS s) = [])
        then Some (ErrMsg ''internal_tls files'')
      else if usesGRPC s \<and> sType s = ''gate'' \<and> tlServerName (sInternalTLS s) = [] then Some (ErrMsg ''internal_tls.server_name'')
      else check_advertised [sAdvertiseHTTPAddr s, sAdvertiseGRPCAddr s])"

definition Validate :: "service_config \<Rightarrow> err option" where
  "Validate s =
     (if ToLower (sEnvironment s) \<notin> set [[], ''development'', ''test'', ''production''] then Some (ErrMsg ''environment'')
      else if sName s = [] \<or> sType s = [] then Some (ErrMsg ''name and type are required'')
      else if scShardCount (sScale s) < 0 then Some (ErrMsg ''scale.shard_count must be >= 0'')
      else if 0 < scShardCount (sScale s) \<and> (scShardID (sScale s) < 0 \<or> scShardCount (sScale s) \<le> scShardID (sScale s))
        then Some (ErrMsg ''scale.shard_id out of range'')
      else if scSaveMode (sScale s) \<notin> set [[], ''sync'', ''async''] then Some (ErrMsg ''scale.save_mode'')
      else if gcGameTransport (sGate s) \<notin> set [[], ''http_pool'', ''grpc''] then Some (ErrMsg ''gate.game_transport'')
      else if list_ex (\<lambda>addr. addr \<noteq> [] \<and> CHR '':'' \<notin> set addr) [sAdvertiseHTTPAddr s, sAdvertiseTCPAddr s, sAdvertiseGRPCAddr s]
        then Some (ErrMsg ''must be host:port'')
      else if Production s then validate_production s else None)"

section \<open>Environment overrides\<close>

type_synonym environment = "string \<Rightarrow> string"

text \<open>\<^verbatim>\<open>strconv.Atoi\<close> on a 64-bit platform.\<close>

definition Atoi :: "string \<Rightarrow> int res" where
  "Atoi v = (case ParseInt 64 v of (n, None) \<Rightarrow> Inr n | (_, Some _) \<Rightarrow> Inl (ErrMsg ''strconv''))"

definition splitCSV :: "string \<Rightarrow> string list" where
  "splitCSV s = filter (\<lambda>t. t \<noteq> []) (map TrimSpace (Split CHR '','' s))"

definition replaceHost :: "string \<Rightarrow> string \<Rightarrow> string" where
  "replaceHost addr host = (case SplitHostPort addr of None \<Rightarrow> addr | Some (_, port) \<Rightarrow> JoinHostPort host port)"

definition shardIDFromEnv :: "environment \<Rightarrow> (int \<times> bool) res" where
  "shardIDFromEnv env =
     (if env ''NG_SHARD_ID'' \<noteq> []
      then (case Atoi (env ''NG_SHARD_ID'') of Inl e \<Rightarrow> Inl e | Inr n \<Rightarrow> Inr (i32 n, True))
      else let pod = env ''POD_NAME'' in
        case LastIndexByte pod CHR ''-'' of
          None \<Rightarrow> Inr (0, False)
        | Some idx \<Rightarrow>
            if idx + 1 < length pod
            then (case Atoi (drop (idx + 1) pod) of Inl _ \<Rightarrow> Inr (0, False) | Inr n \<Rightarrow> Inr (i32 n, True))
            else Inr (0, False))"

text \<open>A variable that is set replaces a string.\<close>

definition override :: "environment \<Rightarrow> string \<Rightarrow> string \<Rightarrow> string" where
  "override env name old = (if env name = [] then old else env name)"

definition override_list :: "environment \<Rightarrow> string \<Rightarrow> string list \<Rightarrow> string list" where
  "override_list env name old = (if env name = [] then old else splitCSV (env name))"

text \<open>A variable that is set must be a number; it is truncated to 32 bits.\<close>

definition override_int32 :: "environment \<Rightarrow> string \<Rightarrow> int \<Rightarrow> int res" where
  "override_int32 env name old =
     (if env name = [] then Inr old else case Atoi (env name) of Inl e \<Rightarrow> Inl e | Inr n \<Rightarrow> Inr (i32 n))"

definition override_bool :: "environment \<Rightarrow> string \<Rightarrow> bool \<Rightarrow> bool res" where
  "override_bool env name old =
     (if env name = [] then Inr old else case ParseBool (env name) of None \<Rightarrow> Inl (ErrMsg ''strconv'') | Some b \<Rightarrow> Inr b)"

definition override_addresses :: "environment \<Rightarrow> service_config \<Rightarrow> service_config" where
  "override_addresses env svc = svc
     \<lparr>sHTTPAddr := override env ''NG_HTTP_ADDR'' (sHTTPAddr svc),
      sTCPAddr := override env ''NG_TCP_ADDR'' (sTCPAddr svc),
      sGRPCAddr := override env ''NG_GRPC_ADDR'' (sGRPCAddr svc),
      sAdvertiseHTTPAddr := override env ''NG_ADVERTISE_HTTP_ADDR'' (sAdvertiseHTTPAddr svc),
      sAdvertiseTCPAddr := override env ''NG_ADVERTISE_TCP_ADDR'' (sAdvertiseTCPAddr svc),
      sAdvertiseGRPCAddr := override env ''NG_ADVERTISE_GRPC_ADDR'' (sAdvertiseGRPCAddr svc)\<rparr>"

definition override_scale :: "environment \<Rightarrow> service_config \<Rightarrow> service_config res" where
  "override_scale env svc =
     (case override_int32 env ''NG_SHARD_COUNT'' (scShardCount (sScale svc)) of
        Inl e \<Rightarrow> Inl e
      | Inr count \<Rightarrow>
          case shardIDFromEnv env of
            Inl e \<Rightarrow> Inl e
          | Inr (i, ok) \<Rightarrow>
              Inr (svc\<lparr>sScale := (sScale svc)\<lparr>scShardCount := count, scShardID := (if ok then i else scShardID (sScale svc))\<rparr>\<rparr>))"

definition override_infra :: "environment \<Rightarrow> service_config \<Rightarrow> service_config res" where
  "override_infra env svc =
     (case override_bool env ''NG_INTERNAL_TLS_ENABLED'' (tlEnabled (sInternalTLS svc)) of
        Inl e \<Rightarrow> Inl e
      | Inr enabled \<Rightarrow> Inr (svc
         \<lparr>sInfra := (sInfra svc)
            \<lparr>ifRedis := override env ''NG_REDIS'' (ifRedis (sInfra svc)),
             ifRedisCluster := override_list env ''NG_REDIS_CLUSTER'' (ifRedisCluster (sInfra svc)),
             ifNATS := override env ''NG_NATS'' (ifNATS (sInfra svc)),
             ifPostgres := override env ''NG_POSTGRES'' (ifPostgres (sInfra svc)),
             ifPostgresShards := override_list env ''NG_POSTGRES_SHARDS'' (ifPostgresShards (sInfra svc))\<rparr>,
          sInternalSecret := override env ''NG_INTERNAL_SECRET'' (sInternalSecret svc),
          sInternalTLS := (sInternalTLS svc)
            \<lparr>tlEnabled := enabled,
             tlCAFile := override env ''NG_INTERNAL_TLS_CA_FILE'' (tlCAFile (sInternalTLS svc)),
             tlCertFile := override env ''NG_INTERNAL_TLS_CERT_FILE'' (tlCertFile (sInternalTLS svc)),
             tlKeyFile := override env ''NG_INTERNAL_TLS_KEY_FILE'' (tlKeyFile (sInternalTLS svc)),
             tlServerName := override env ''NG_INTERNAL_TLS_SERVER_NAME'' (tlServerName (sInternalTLS svc))\<rparr>,
          sPayment := (sPayment svc)
            \<lparr>pcWebhookSecret := override env ''NG_PAYMENT_WEBHOOK_SECRET'' (pcWebhookSecret (sPayment svc)),
             pcCurrency := (if env ''NG_PAYMENT_CURRENCY'' = [] then pcCurrency (sPayment svc)
                            else ToUpper (env ''NG_PAYMENT_CURRENCY''))\<rparr>\<rparr>))"

definition override_pod_ip :: "environment \<Rightarrow> service_config \<Rightarrow> service_config res" where
  "override_pod_ip env svc =
     (let podIP = env ''POD_IP'' in
      if podIP = [] then Inr svc
      else if \<not> ParseIP podIP then Inl (ErrMsg ''POD_IP is not an IP address'')
      else Inr (svc
        \<lparr>sAdvertiseHTTPAddr := (if sAdvertiseHTTPAddr svc = [] \<and> sHTTPAddr svc \<noteq> [] then replaceHost (sHTTPAddr svc) podIP else sAdvertiseHTTPAddr svc),
         sAdvertiseGRPCAddr := (if sAdvertiseGRPCAddr svc = [] \<and> sGRPCAddr svc \<noteq> [] then replaceHost (sGRPCAddr svc) podIP else sAdvertiseGRPCAddr svc)\<rparr>))"

definition applyEnvOverrides :: "environment \<Rightarrow> service_config \<Rightarrow> service_config res" where
  "applyEnvOverrides env svc =
     (let svc = svc\<lparr>sEnvironment := override env ''NG_ENVIRONMENT'' (sEnvironment svc), sName := override env ''NG_NAME'' (sName svc)\<rparr> in
      case override_int32 env ''NG_ZONE_ID'' (sZoneID svc) of
        Inl e \<Rightarrow> Inl e
      | Inr zone \<Rightarrow>
          case override_scale env (override_addresses env (svc\<lparr>sZoneID := zone\<rparr>)) of
            Inl e \<Rightarrow> Inl e
          | Inr svc \<Rightarrow>
              case override_infra env svc of
                Inl e \<Rightarrow> Inl e
              | Inr svc \<Rightarrow> override_pod_ip env svc)"

definition config_Load :: "environment \<Rightarrow> service_config res \<Rightarrow> service_config res" where
  "config_Load env parsed =
     (case parsed of
        Inl e \<Rightarrow> Inl e
      | Inr svc \<Rightarrow>
          case applyEnvOverrides env svc of
            Inl e \<Rightarrow> Inl e
          | Inr svc \<Rightarrow> case Validate svc of Some e \<Rightarrow> Inl e | None \<Rightarrow> Inr svc)"

section \<open>Capacity planning\<close>

definition GateConnPerNode :: int where "GateConnPerNode = 15000"
definition GameCCUPerShard :: int where "GameCCUPerShard = 2000"

definition GateNodesForCCU :: "int \<Rightarrow> int" where
  "GateNodesForCCU ccu =
     (if ccu \<le> 0 then 1
      else let n = go_quot (i32 (i32 (ccu + GateConnPerNode) - 1)) GateConnPerNode in if n < 1 then 1 else n)"

definition GameShardsForCCU :: "int \<Rightarrow> int" where
  "GameShardsForCCU ccu =
     (if ccu \<le> 0 then 1
      else let n = go_quot (i32 (i32 (ccu + GameCCUPerShard) - 1)) GameCCUPerShard in if n < 1 then 1 else n)"

section \<open>What a loaded configuration satisfies\<close>

lemma Atoi_FormatInt: "in_i64 n \<Longrightarrow> Atoi (FormatInt n) = Inr n"
  by (simp add: Atoi_def ParseInt_FormatInt_64)

lemma override_pod_ip_fields:
  "override_pod_ip env svc = Inr cfg \<Longrightarrow> sEnvironment cfg = sEnvironment svc \<and> sScale cfg = sScale svc"
  by (auto simp: override_pod_ip_def Let_def split: if_splits)

lemma override_infra_fields:
  "override_infra env svc = Inr cfg \<Longrightarrow> sEnvironment cfg = sEnvironment svc \<and> sScale cfg = sScale svc"
  by (auto simp: override_infra_def split: sum.splits)

lemma override_scale_fields:
  assumes "override_scale env svc = Inr cfg"
  shows "sEnvironment cfg = sEnvironment svc"
    and "override_int32 env ''NG_SHARD_COUNT'' (scShardCount (sScale svc)) = Inr (scShardCount (sScale cfg))"
    and "\<exists>i ok. shardIDFromEnv env = Inr (i, ok) \<and> scShardID (sScale cfg) = (if ok then i else scShardID (sScale svc))"
proof -
  obtain count i ok where c: "override_int32 env ''NG_SHARD_COUNT'' (scShardCount (sScale svc)) = Inr count"
    and i: "shardIDFromEnv env = Inr (i, ok)"
    using assms unfolding override_scale_def by (cases "shardIDFromEnv env") (auto split: sum.splits)
  have "cfg = svc\<lparr>sScale := (sScale svc)\<lparr>scShardCount := count, scShardID := (if ok then i else scShardID (sScale svc))\<rparr>\<rparr>"
    using assms unfolding override_scale_def c i by simp
  then show "sEnvironment cfg = sEnvironment svc"
    "override_int32 env ''NG_SHARD_COUNT'' (scShardCount (sScale svc)) = Inr (scShardCount (sScale cfg))"
    "\<exists>i ok. shardIDFromEnv env = Inr (i, ok) \<and> scShardID (sScale cfg) = (if ok then i else scShardID (sScale svc))"
    using c i by auto
qed

lemma applyEnvOverrides_fields:
  assumes "applyEnvOverrides env svc = Inr cfg"
  shows "sEnvironment cfg = override env ''NG_ENVIRONMENT'' (sEnvironment svc)"
    and "override_int32 env ''NG_SHARD_COUNT'' (scShardCount (sScale svc)) = Inr (scShardCount (sScale cfg))"
    and "\<exists>i ok. shardIDFromEnv env = Inr (i, ok) \<and> scShardID (sScale cfg) = (if ok then i else scShardID (sScale svc))"
proof -
  let ?svc = "svc\<lparr>sEnvironment := override env ''NG_ENVIRONMENT'' (sEnvironment svc), sName := override env ''NG_NAME'' (sName svc)\<rparr>"
  obtain zone svc1 svc2 where s1: "override_scale env (override_addresses env (?svc\<lparr>sZoneID := zone\<rparr>)) = Inr svc1"
    and s2: "override_infra env svc1 = Inr svc2" and s3: "override_pod_ip env svc2 = Inr cfg"
    using assms unfolding applyEnvOverrides_def Let_def by (auto split: sum.splits)
  have a: "sScale (override_addresses env (?svc\<lparr>sZoneID := zone\<rparr>)) = sScale svc"
    "sEnvironment (override_addresses env (?svc\<lparr>sZoneID := zone\<rparr>)) = override env ''NG_ENVIRONMENT'' (sEnvironment svc)"
    by (simp_all add: override_addresses_def)
  have c: "sScale cfg = sScale svc1" "sEnvironment cfg = sEnvironment svc1"
    using override_infra_fields [OF s2] override_pod_ip_fields [OF s3] by simp_all
  show "sEnvironment cfg = override env ''NG_ENVIRONMENT'' (sEnvironment svc)"
    "override_int32 env ''NG_SHARD_COUNT'' (scShardCount (sScale svc)) = Inr (scShardCount (sScale cfg))"
    "\<exists>i ok. shardIDFromEnv env = Inr (i, ok) \<and> scShardID (sScale cfg) = (if ok then i else scShardID (sScale svc))"
    using override_scale_fields [OF s1] unfolding a c by blast+
qed

lemma config_Load_Inr:
  assumes "config_Load env parsed = Inr cfg"
  obtains svc where "parsed = Inr svc" "applyEnvOverrides env svc = Inr cfg" "Validate cfg = None"
  using assms by (auto simp: config_Load_def split: sum.splits option.splits)

lemma Validate_shard: "Validate cfg = None \<Longrightarrow> 0 < scShardCount (sScale cfg)
    \<Longrightarrow> 0 \<le> scShardID (sScale cfg) \<and> scShardID (sScale cfg) < scShardCount (sScale cfg)"
  by (auto simp: Validate_def split: if_splits)

lemma Validate_production: "Validate cfg = None \<Longrightarrow> Production cfg \<Longrightarrow> validate_production cfg = None"
  by (simp add: Validate_def split: if_splits)

lemma check_advertised_None:
  "check_advertised addrs = None \<longleftrightarrow>
     (\<forall>addr \<in> set addrs. addr \<noteq> [] \<longrightarrow> (\<exists>host port. SplitHostPort addr = Some (host, port) \<and> host \<noteq> ''127.0.0.1'' \<and> host \<noteq> ''localhost''))"
  by (induction addrs) (auto split: option.splits)

text \<open>
  A process that starts in production fails closed. Whatever the file and the environment say, when
  loading succeeds and the environment is production, then the internal endpoints have a secret,
  Redis is configured, the services with tables have PostgreSQL, the pay service has a callback secret
  and a currency of three capital letters, gRPC runs under mutual TLS, and no advertised HTTP or gRPC
  address is malformed or on the loopback host; and the environment variable, when set, decides
  whether the process is in production.
\<close>

theorem production_fails_closed:
  assumes "config_Load env parsed = Inr cfg" and "Production cfg"
  shows "sInternalSecret cfg \<noteq> [] \<and> (ifRedis (sInfra cfg) \<noteq> [] \<or> ifRedisCluster (sInfra cfg) \<noteq> [])
    \<and> (sType cfg \<in> {''login'', ''game'', ''mail'', ''social'', ''activity'', ''pay''} \<longrightarrow> ifPostgres (sInfra cfg) \<noteq> [] \<or> ifPostgresShards (sInfra cfg) \<noteq> [])
    \<and> (sType cfg = ''pay'' \<longrightarrow> pcWebhookSecret (sPayment cfg) \<noteq> [] \<and> validCurrencyCode (CurrencyCode (sPayment cfg)))
    \<and> (usesGRPC cfg \<longrightarrow> tlEnabled (sInternalTLS cfg) \<and> tlCAFile (sInternalTLS cfg) \<noteq> [] \<and> tlCertFile (sInternalTLS cfg) \<noteq> [] \<and> tlKeyFile (sInternalTLS cfg) \<noteq> [])
    \<and> (\<forall>addr \<in> {sAdvertiseHTTPAddr cfg, sAdvertiseGRPCAddr cfg}. addr \<noteq> [] \<longrightarrow>
         (\<exists>host port. SplitHostPort addr = Some (host, port) \<and> host \<noteq> ''127.0.0.1'' \<and> host \<noteq> ''localhost''))
    \<and> (env ''NG_ENVIRONMENT'' \<noteq> [] \<longrightarrow> EqualFold (env ''NG_ENVIRONMENT'') ''production'')"
proof -
  obtain svc where a: "applyEnvOverrides env svc = Inr cfg" and v: "Validate cfg = None"
    using config_Load_Inr [OF assms(1)] by metis
  have p: "validate_production cfg = None" by (rule Validate_production [OF v assms(2)])
  then have "check_advertised [sAdvertiseHTTPAddr cfg, sAdvertiseGRPCAddr cfg] = None"
    by (simp only: validate_production_def option.distinct split: if_splits)
  then have adv: "\<forall>addr \<in> {sAdvertiseHTTPAddr cfg, sAdvertiseGRPCAddr cfg}. addr \<noteq> [] \<longrightarrow>
         (\<exists>host port. SplitHostPort addr = Some (host, port) \<and> host \<noteq> ''127.0.0.1'' \<and> host \<noteq> ''localhost'')"
    unfolding check_advertised_None by simp
  have "env ''NG_ENVIRONMENT'' \<noteq> [] \<longrightarrow> EqualFold (env ''NG_ENVIRONMENT'') ''production''"
    using assms(2) applyEnvOverrides_fields(1) [OF a] by (auto simp: Production_def override_def)
  with p adv show ?thesis by (auto simp: validate_production_def split: if_splits)
qed

definition zero_config :: service_config where
  "zero_config = \<lparr>sInternalTLS = \<lparr>tlEnabled = False, tlCAFile = [], tlCertFile = [], tlKeyFile = [], tlServerName = []\<rparr>,
     sEnvironment = [], sName = ''g'', sType = ''game'', sHTTPAddr = '':9100'', sGRPCAddr = [], sTCPAddr = [],
     sAdvertiseHTTPAddr = [], sAdvertiseTCPAddr = [], sAdvertiseGRPCAddr = [], sZoneID = 1, sZoneMode = [], sMaxConnPerIP = 0,
     sInfra = \<lparr>ifRedis = [], ifRedisCluster = [], ifPostgres = [], ifPostgresShards = [], ifNATS = []\<rparr>,
     sDiscovery = \<lparr>dcEnabled = False, dcTTLSec = 0, dcHeartbeat = 0\<rparr>,
     sObservability = \<lparr>obTracingEnabled = False, obOTLPEndpoint = [], obPrometheus = False\<rparr>,
     sCrossZoneMatch = False, sLogLevel = [],
     sScale = \<lparr>scShardID = 0, scShardCount = 0, scMaxCCU = 0, scSaveMode = [], scSaveIntervalSec = 0, scSaveConcurrency = 0\<rparr>,
     sGate = \<lparr>gcGameTransport = [], gcGamePoolSize = 0, gcReadTimeoutSec = 0, gcWriteTimeoutSec = 0, gcForwardTimeoutMs = 0,
       gcAcceptors = 0, gcMsgRatePerSec = 0\<rparr>,
     sInternalSecret = [], sRank = \<lparr>rcCap = 0, rcTrimIntervalSec = 0\<rparr>,
     sPayment = \<lparr>pcCurrency = [], pcProducts = [], pcMaxSkewSec = 0, pcWebhookSecret = []\<rparr>\<rparr>"

definition prod_env :: environment where
  "prod_env name = (if name = ''NG_ENVIRONMENT'' then ''production'' else if name = ''NG_INTERNAL_SECRET'' then ''s3''
     else if name = ''NG_REDIS'' then ''r:1'' else if name = ''NG_POSTGRES'' then ''p'' else [])"

lemmas config_simps = config_Load_def applyEnvOverrides_def override_scale_def override_infra_def override_pod_ip_def
  override_addresses_def override_int32_def override_bool_def override_list_def override_def shardIDFromEnv_def
  LastIndexByte_def Let_def

lemmas validate_simps = Validate_def validate_production_def usesGRPC_def Production_def EqualFold_def lower_char_def HasPrefix_def

definition prod_cfg :: service_config where
  "prod_cfg = zero_config\<lparr>sEnvironment := ''production'', sInternalSecret := ''s3'',
     sInfra := (sInfra zero_config)\<lparr>ifRedis := ''r:1'', ifPostgres := ''p''\<rparr>\<rparr>"

lemma prod_cfg_production: "Production prod_cfg"
  by (simp add: Production_def prod_cfg_def EqualFold_def)

lemma prod_cfg_valid: "Validate prod_cfg = None"
  by (simp add: validate_simps prod_cfg_def zero_config_def)

lemma prod_cfg_load: "config_Load prod_env (Inr zero_config) = Inr prod_cfg"
proof -
  have "applyEnvOverrides prod_env zero_config = Inr prod_cfg"
    by (simp add: config_simps prod_env_def prod_cfg_def zero_config_def)
  then show ?thesis by (simp add: config_Load_def prod_cfg_valid)
qed

theorem production_fails_closed_witness: "sInternalSecret prod_cfg \<noteq> []"
  using production_fails_closed [OF prod_cfg_load prod_cfg_production] by blast

text \<open>
  The environment check lower-cases its argument in Unicode and the production test folds it: the
  dotted capital I passes the first as an i and not the second, so such a name is accepted and
  switches the production checks off.
\<close>

lemma odd_production_name:
  "Validate (zero_config\<lparr>sEnvironment := ''product'' @ [CHR 0xC4, CHR 0xB0] @ ''on''\<rparr>) = None
   \<and> \<not> Production (zero_config\<lparr>sEnvironment := ''product'' @ [CHR 0xC4, CHR 0xB0] @ ''on''\<rparr>)"
  by (simp add: validate_simps zero_config_def)

text \<open>A shard number outside 32 bits is truncated instead of refused.\<close>

lemma shard_id_truncated:
  "shardIDFromEnv (\<lambda>name. if name = ''NG_SHARD_ID'' then ''4294967297'' else []) = Inr (1, True)"
  by (simp add: shardIDFromEnv_def Atoi_def ParseInt_def parse_magnitude_def digit_val_def i32_def)

section \<open>A set of pods\<close>

text \<open>The ordinal of a pod name is its shard number.\<close>

lemma shardIDFromEnv_pod:
  assumes "env ''NG_SHARD_ID'' = []" and "env ''POD_NAME'' = base @ ''-'' @ FormatInt i" and "0 \<le> i" and "in_i32 i"
  shows "shardIDFromEnv env = Inr (i, True)"
proof -
  have "CHR ''-'' \<notin> set (FormatInt i)" using assms(3) nat_digits_not by (simp add: FormatInt_def)
  then have "LastIndexByte (env ''POD_NAME'') CHR ''-'' = Some (length base)"
    using LastIndexByte_append [of "CHR ''-''" "FormatInt i" base] assms(2) by simp
  moreover have "Atoi (FormatInt i) = Inr i" by (rule Atoi_FormatInt [OF in_i32_in_i64 [OF assms(4)]])
  ultimately show ?thesis using assms by (simp add: shardIDFromEnv_def)
qed

definition pod_env :: "environment \<Rightarrow> string \<Rightarrow> int \<Rightarrow> int \<Rightarrow> environment" where
  "pod_env common base n i = common(''NG_SHARD_ID'' := [], ''NG_SHARD_COUNT'' := FormatInt n, ''POD_NAME'' := base @ ''-'' @ FormatInt i)"

lemma pod_config:
  assumes "config_Load (pod_env common base n i) parsed = Inr cfg" and "0 \<le> i" and "in_i32 i" and "in_i32 n"
  shows "scShardID (sScale cfg) = i \<and> scShardCount (sScale cfg) = n"
proof -
  let ?env = "pod_env common base n i"
  obtain svc where a: "applyEnvOverrides ?env svc = Inr cfg" using config_Load_Inr [OF assms(1)] by metis
  have "shardIDFromEnv ?env = Inr (i, True)"
    by (rule shardIDFromEnv_pod [where base = base]) (use assms in \<open>simp_all add: pod_env_def\<close>)
  moreover have "override_int32 ?env ''NG_SHARD_COUNT'' (scShardCount (sScale svc)) = Inr n"
    using assms(4) by (simp add: override_int32_def pod_env_def Atoi_FormatInt in_i32_in_i64)
  ultimately show ?thesis using applyEnvOverrides_fields(2,3) [OF a] by auto
qed

end
