(* ===== verification/Payment.thy ===== *)
theory Payment
  imports Game_Client Config
begin

text \<open>
  Payments: the table \<open>orders\<close> (\<^verbatim>\<open>pkg/repo/pay.go\<close>), the pay service (\<^verbatim>\<open>services/pay/internal/server.go\<close>)
  and the check of a provider's callback (\<^verbatim>\<open>pkg/payment/webhook.go\<close>). The table is a list in order of
  creation. Rewards are granted through the game client, any granter here. A handler makes several
  calls; between two of them other handlers, also of other processes, may run: the handlers take what
  happens there as functions on the world. \<open>configured\<close> says whether the service has a database.
\<close>

section \<open>The table\<close>

definition OrderStatusPending :: int where "OrderStatusPending = 0"
definition OrderStatusPaid :: int where "OrderStatusPaid = 1"

text \<open>\<open>oTxn\<close> is empty for a NULL transaction id.\<close>

record order =
  odID :: string
  oRoleID :: int
  oProductID :: string
  oAmount :: int
  oCurrency :: string
  oStatus :: int
  oDelivered :: bool
  oTxn :: string

type_synonym pay_db = "order list"

definition find_order :: "string \<Rightarrow> pay_db \<Rightarrow> order option" where
  "find_order i db = find (\<lambda>x. odID x = i) db"

definition update_order :: "(order \<Rightarrow> bool) \<Rightarrow> (order \<Rightarrow> order) \<Rightarrow> pay_db \<Rightarrow> pay_db" where
  "update_order c f db = map (\<lambda>x. if c x then f x else x) db"

definition CreateOrder :: "outcome \<Rightarrow> order \<Rightarrow> pay_db \<Rightarrow> unit res \<times> pay_db" where
  "CreateOrder oc x db = store_call oc db
     (if find_order (odID x) db \<noteq> None then (Inl ErrStore, db)
      else (Inr (), db @ [x\<lparr>oDelivered := False, oTxn := []\<rparr>]))"

definition pay_Get :: "outcome \<Rightarrow> string \<Rightarrow> pay_db \<Rightarrow> order res" where
  "pay_Get oc orderID db =
     (if oc \<noteq> Done then Inl ErrStore
      else case find_order orderID db of None \<Rightarrow> Inl ErrNoRows | Some x \<Rightarrow> Inr x)"

definition MarkPaid :: "outcome \<Rightarrow> outcome \<Rightarrow> string \<Rightarrow> int \<Rightarrow> pay_db \<Rightarrow> (order \<times> bool) res \<times> pay_db" where
  "MarkPaid oc oc2 orderID status db =
     (let c = (\<lambda>x. odID x = orderID \<and> oStatus x \<noteq> OrderStatusPaid) in
      case store_call oc db
        (case find c db of
           None \<Rightarrow> (Inl ErrNoRows, db)
         | Some x \<Rightarrow> (Inr (x\<lparr>oStatus := status, oTxn := []\<rparr>), update_order c (\<lambda>x. x\<lparr>oStatus := status\<rparr>) db)) of
        (Inl e, db) \<Rightarrow>
          (if e = ErrNoRows then (map_sum id (\<lambda>x. (x, False)) (pay_Get oc2 orderID db), db) else (Inl e, db))
      | (Inr x, db) \<Rightarrow> (Inr (x, True), db))"

text \<open>The transaction id is unique among the orders that have one.\<close>

definition MarkPaidVerified :: "outcome \<Rightarrow> string \<Rightarrow> string \<Rightarrow> string \<Rightarrow> string \<Rightarrow> int \<Rightarrow> int \<Rightarrow> pay_db \<Rightarrow> (order \<times> bool) res \<times> pay_db" where
  "MarkPaidVerified oc orderID txn productID currency amount status db =
     (if status \<noteq> OrderStatusPaid \<or> txn = [] then (Inl (ErrMsg ''invalid paid notification''), db)
      else store_call oc db
        (case find_order orderID db of
           None \<Rightarrow> (Inl ErrNoRows, db)
         | Some x \<Rightarrow>
             if oProductID x \<noteq> productID \<or> oAmount x \<noteq> amount \<or> oCurrency x \<noteq> currency
             then (Inl (ErrMsg ''payment attributes do not match order''), db)
             else if oTxn x \<noteq> [] \<and> oTxn x \<noteq> txn
             then (Inl (ErrMsg ''order already bound to another provider transaction''), db)
             else if \<exists>x' \<in> set db. odID x' \<noteq> orderID \<and> oTxn x' = txn then (Inl ErrStore, db)
             else (Inr (x\<lparr>oStatus := OrderStatusPaid, oTxn := txn\<rparr>, oStatus x \<noteq> OrderStatusPaid),
                   update_order (\<lambda>x. odID x = orderID) (\<lambda>x. x\<lparr>oStatus := OrderStatusPaid, oTxn := txn\<rparr>) db)))"

definition MarkDelivered :: "outcome \<Rightarrow> string \<Rightarrow> pay_db \<Rightarrow> unit res \<times> pay_db" where
  "MarkDelivered oc orderID db = store_call oc db
     (let c = (\<lambda>x. odID x = orderID \<and> oStatus x = OrderStatusPaid) in
      if \<exists>x \<in> set db. c x then (Inr (), update_order c (\<lambda>x. x\<lparr>oDelivered := True\<rparr>) db)
      else (Inl (ErrMsg ''paid order not found''), db))"

definition ListUndeliveredPaid :: "outcome \<Rightarrow> int \<Rightarrow> pay_db \<Rightarrow> order list res" where
  "ListUndeliveredPaid oc limit db =
     (if oc \<noteq> Done then Inl ErrStore
      else let limit = (if limit \<le> 0 then 50 else limit)
           in Inr (take (nat limit) (filter (\<lambda>x. oStatus x = OrderStatusPaid \<and> \<not> oDelivered x) db)))"

record ReconcileSummary =
  rsTotal :: int
  rsPending :: int
  rsPaid :: int
  rsDelivered :: int
  rsUndeliveredPaid :: int
  rsAmountTotal :: int
  rsAmountPaid :: int

definition count_rows :: "(order \<Rightarrow> bool) \<Rightarrow> pay_db \<Rightarrow> int" where
  "count_rows c db = int (length (filter c db))"

definition Reconcile :: "outcome \<Rightarrow> pay_db \<Rightarrow> ReconcileSummary res" where
  "Reconcile oc db =
     (if oc \<noteq> Done then Inl ErrStore
      else let paid = (\<lambda>x. oStatus x = OrderStatusPaid) in
        Inr \<lparr>rsTotal = int (length db), rsPending = count_rows (\<lambda>x. oStatus x = 0) db, rsPaid = count_rows paid db,
             rsDelivered = count_rows oDelivered db, rsUndeliveredPaid = count_rows (\<lambda>x. paid x \<and> \<not> oDelivered x) db,
             rsAmountTotal = sum_list (map oAmount db), rsAmountPaid = sum_list (map oAmount (filter paid db))\<rparr>)"

section \<open>The service\<close>

definition productRewards :: "(string \<times> string) list" where
  "productRewards = [(''coin_pack'', ''gold:1000''), (''starter'', ''gold:500,potion:5''), (''diamond'', ''gold:200,gem:10'')]"

definition defaultProductPrices :: "(string \<times> int) list" where
  "defaultProductPrices = [(''coin_pack'', 100), (''starter'', 600), (''diamond'', 300)]"

definition reward_of :: "string \<Rightarrow> string" where
  "reward_of productID = (case map_of productRewards productID of None \<Rightarrow> [] | Some s \<Rightarrow> s)"

definition productPrice :: "payment_config \<Rightarrow> string \<Rightarrow> int" where
  "productPrice c productID =
     (let price = gget (map_of (pcProducts c)) productID
      in if 0 < price then price else gget (map_of defaultProductPrices) productID)"

text \<open>\<open>rnd\<close> is what \<^verbatim>\<open>rand.Read\<close> yields: twelve bytes, or an error.\<close>

definition newOrderID :: "nat list option \<Rightarrow> int \<Rightarrow> string res" where
  "newOrderID rnd roleID =
     (case rnd of
        None \<Rightarrow> Inl (ErrMsg ''rand'')
      | Some bs \<Rightarrow> Inr (''ord_'' @ FormatInt roleID @ ''_'' @ hex_encode bs))"

definition deliveryLock :: "string \<Rightarrow> nat" where
  "deliveryLock orderID = unat (fnv32a orderID) mod 64"

type_synonym 'w pay_world = "pay_db \<times> 'w"
type_synonym 'w grant_fn = "int \<Rightarrow> grant_bundle \<Rightarrow> string \<Rightarrow> 'w \<Rightarrow> err option \<times> 'w"

record order_reply =
  orID :: string
  orAmount :: int
  orCurrency :: string

definition handleCreate :: "payment_config \<Rightarrow> nat list option \<Rightarrow> outcome \<Rightarrow> session_info \<Rightarrow> body \<Rightarrow> pay_db option \<Rightarrow> order_reply reply \<times> pay_db option" where
  "handleCreate cfg rnd oc info p pay =
     (if \<not> json_valid [(''product_id'', JStr [])] p then (Reply 1001, pay)
      else let productID = json_string ''product_id'' p; roleID = siRoleID info; amount = productPrice cfg productID in
        if roleID \<le> 0 \<or> amount \<le> 0 \<or> reward_of productID = [] then (Reply 1001, pay)
        else case pay of
          None \<Rightarrow> (HttpError 503, pay)
        | Some db \<Rightarrow>
            (case newOrderID rnd roleID of
               Inl _ \<Rightarrow> (HttpError 500, pay)
             | Inr orderID \<Rightarrow>
                 (case CreateOrder oc \<lparr>odID = orderID, oRoleID = roleID, oProductID = productID, oAmount = amount,
                         oCurrency = CurrencyCode cfg, oStatus = OrderStatusPending, oDelivered = False, oTxn = []\<rparr> db of
                    (Inl _, db) \<Rightarrow> (HttpError 500, Some db)
                  | (Inr _, db) \<Rightarrow> (ReplyOK \<lparr>orID = orderID, orAmount = amount, orCurrency = CurrencyCode cfg\<rparr>, Some db))))"

definition order_reward :: "order \<Rightarrow> string" where
  "order_reward x =
     (let reward = reward_of (oProductID x) in if reward = [] then ''gold:'' @ FormatInt (i32 (oAmount x * 10)) else reward)"

text \<open>What one delivery meets: what happens after the grant, the outcome of the update.\<close>

definition deliver :: "'w grant_fn \<Rightarrow> ('w pay_world \<Rightarrow> 'w pay_world) \<Rightarrow> outcome \<Rightarrow> order \<Rightarrow> string \<Rightarrow> 'w pay_world \<Rightarrow> err option \<times> 'w pay_world" where
  "deliver g between oc order orderID s =
     (let (db, w) = s in
      case GrantItems g (oRoleID order) (order_reward order) (''pay:'' @ orderID) w of
        (Some e, w) \<Rightarrow> (Some e, db, w)
      | (None, w) \<Rightarrow>
          let (db, w) = between (db, w) in
          case MarkDelivered oc orderID db of
            (Inl _, db) \<Rightarrow> (Some (ErrMsg ''mark order delivered''), db, w)
          | (Inr _, db) \<Rightarrow> (None, db, w))"

definition notify_shape :: "(string \<times> json) list" where
  "notify_shape = [(''order_id'', JStr []), (''role_id'', JNum 64), (''product_id'', JStr []), (''amount'', JNum 32),
     (''currency'', JStr []), (''status'', JNum 32), (''provider_transaction_id'', JStr [])]"

definition handleNotify :: "bool \<Rightarrow> 'w grant_fn \<Rightarrow> ('w pay_world \<Rightarrow> 'w pay_world) \<Rightarrow> ('w pay_world \<Rightarrow> 'w pay_world) \<Rightarrow> outcome \<Rightarrow> outcome \<Rightarrow> body
    \<Rightarrow> 'w pay_world \<Rightarrow> unit reply \<times> 'w pay_world" where
  "handleNotify configured g between1 between2 oc1 oc2 p s =
     (if \<not> json_valid notify_shape p then (Reply 1001, s)
      else let orderID = json_string ''order_id'' p; txn = json_string ''provider_transaction_id'' p;
               status = json_int32 ''status'' p; roleID = json_int64 ''role_id'' p in
        if status \<noteq> OrderStatusPaid then (ReplyOK (), s)
        else if orderID = [] \<or> txn = [] then (Reply 1001, s)
        else if \<not> configured then (HttpError 503, s)
        else let (db, w) = s in
          case MarkPaidVerified oc1 orderID txn (json_string ''product_id'' p) (ToUpper (TrimSpace (json_string ''currency'' p)))
                 (json_int32 ''amount'' p) status db of
            (Inl _, db) \<Rightarrow> (Reply 1003, db, w)
          | (Inr (order, _), db) \<Rightarrow>
              if oDelivered order then (ReplyOK (), db, w)
              else if oStatus order \<noteq> OrderStatusPaid then (ReplyOK (), db, w)
              else if roleID \<noteq> 0 \<and> roleID \<noteq> oRoleID order then (Reply 1001, db, w)
              else case deliver g between2 oc2 order orderID (between1 (db, w)) of
                     (Some _, s) \<Rightarrow> (Reply 5000, s)
                   | (None, s) \<Rightarrow> (ReplyOK (), s))"

text \<open>One order of the retry loop; \<open>between1\<close> is what happened since the previous one.\<close>

record 'w retry_env =
  reGrant :: "'w grant_fn"
  reBefore :: "'w pay_world \<Rightarrow> 'w pay_world"
  reRead :: "'w pay_world \<Rightarrow> 'w pay_world"
  reAfter :: "'w pay_world \<Rightarrow> 'w pay_world"
  reGetOc :: outcome
  reMarkOc :: outcome

definition retry_order :: "'w retry_env \<Rightarrow> order \<Rightarrow> 'w pay_world \<Rightarrow> err option \<times> 'w pay_world" where
  "retry_order E x s =
     (let s = reBefore E s in
      case pay_Get (reGetOc E) (odID x) (fst s) of
        Inl e \<Rightarrow> (Some e, s)
      | Inr current \<Rightarrow>
          if oStatus current = OrderStatusPaid \<and> \<not> oDelivered current
          then deliver (reGrant E) (reAfter E) (reMarkOc E) current (odID current) (reRead E s)
          else (None, s))"

fun retry_loop :: "(nat \<Rightarrow> 'w retry_env) \<Rightarrow> order list \<Rightarrow> int \<times> int \<Rightarrow> 'w pay_world \<Rightarrow> (int \<times> int) \<times> 'w pay_world" where
  "retry_loop E [] (ok, fail) s = ((ok, fail), s)"
| "retry_loop E (x # os) (ok, fail) s =
     (case retry_order (E (length os)) x s of
        (Some _, s) \<Rightarrow> retry_loop E os (ok, fail + 1) s
      | (None, s) \<Rightarrow> retry_loop E os (ok + 1, fail) s)"

definition handleRetry :: "bool \<Rightarrow> outcome \<Rightarrow> (nat \<Rightarrow> 'w retry_env) \<Rightarrow> 'w pay_world \<Rightarrow> (int \<times> int) reply \<times> 'w pay_world" where
  "handleRetry configured oc E s =
     (if \<not> configured then (ReplyOK (0, 0), s)
      else case ListUndeliveredPaid oc 50 (fst s) of
        Inl _ \<Rightarrow> (HttpError 500, s)
      | Inr list \<Rightarrow> let (n, s) = retry_loop E list (0, 0) s in (ReplyOK n, s))"

definition handleReconcile :: "outcome \<Rightarrow> pay_db option \<Rightarrow> ReconcileSummary reply" where
  "handleReconcile oc pay =
     (case pay of
        None \<Rightarrow> ReplyOK \<lparr>rsTotal = 0, rsPending = 0, rsPaid = 0, rsDelivered = 0, rsUndeliveredPaid = 0, rsAmountTotal = 0, rsAmountPaid = 0\<rparr>
      | Some db \<Rightarrow> (case Reconcile oc db of Inl _ \<Rightarrow> HttpError 500 | Inr s \<Rightarrow> ReplyOK s))"


section \<open>Rewards\<close>

lemma Parse_gold: "in_i64 n \<Longrightarrow> Parse (''gold:'' @ FormatInt n) = Inr \<lparr>bGold = n, bItems = []\<rparr>"
  using Parse_show_tokens [of "[(''gold'', n)]"]
  by (simp add: show_token_def token_ok_def plain_def space_codes_def credit_def empty_bundle_def)

lemma Parse_products:
  "Parse ''gold:1000'' = Inr \<lparr>bGold = 1000, bItems = []\<rparr>"
  "Parse ''gold:500,potion:5'' = Inr \<lparr>bGold = 500, bItems = [(''potion'', 5)]\<rparr>"
  "Parse ''gold:200,gem:10'' = Inr \<lparr>bGold = 200, bItems = [(''gem'', 10)]\<rparr>"
  using Parse_show_tokens [of "[(''gold'', 1000)]"] Parse_show_tokens [of "[(''gold'', 500), (''potion'', 5)]"]
    Parse_show_tokens [of "[(''gold'', 200), (''gem'', 10)]"]
  by (simp_all add: show_token_def FormatInt_def nat_digits.simps digit_char_def token_ok_def plain_def
      space_codes_def in_i64_def in_i32_def credit_def empty_bundle_def)

definition reward_bundle :: "order \<Rightarrow> grant_bundle" where
  "reward_bundle x = (case Parse (order_reward x) of Inl _ \<Rightarrow> empty_bundle | Inr b \<Rightarrow> b)"

lemma Parse_order_reward: "Parse (order_reward x) = Inr (reward_bundle x)"
proof -
  have "\<exists>b. Parse (order_reward x) = Inr b"
    using in_i32_in_i64 [OF in_i32_i32, of "oAmount x * 10"]
    by (auto simp: order_reward_def reward_of_def productRewards_def Parse_products Parse_gold [simplified])
  then show ?thesis by (auto simp: reward_bundle_def)
qed

lemma reward_bundle_state [simp]:
  "reward_bundle (x\<lparr>oDelivered := d\<rparr>) = reward_bundle x" "reward_bundle (x\<lparr>oStatus := st\<rparr>) = reward_bundle x"
  "reward_bundle (x\<lparr>oTxn := txn\<rparr>) = reward_bundle x"
  by (simp_all add: reward_bundle_def order_reward_def Let_def)

lemma reward_bundle_wf: "bundle_wf (reward_bundle x)"
  using Parse_wf [OF Parse_order_reward] .

section \<open>The invariant of the payment system\<close>

text \<open>
  A delivered order is paid and its reward is in the ledger; a paid order has a transaction; no two
  orders share a transaction; and the ledger has an entry of a payment only for a paid order, with
  that order's role and reward.
\<close>

definition pay_source :: "string \<Rightarrow> string" where
  "pay_source i = ''pay:'' @ i"

definition order_ok :: "('w \<Rightarrow> int \<times> string \<Rightarrow> grant_bundle option) \<Rightarrow> 'w \<Rightarrow> order \<Rightarrow> bool" where
  "order_ok credited w x \<longleftrightarrow>
     (oDelivered x \<longrightarrow> oStatus x = OrderStatusPaid \<and> credited w (oRoleID x, pay_source (odID x)) = Some (reward_bundle x)) \<and>
     (oStatus x = OrderStatusPaid \<longrightarrow> oTxn x \<noteq> [])"

definition backed_by :: "pay_db \<Rightarrow> int \<Rightarrow> string \<Rightarrow> grant_bundle \<Rightarrow> bool" where
  "backed_by db r i c \<longleftrightarrow> (\<exists>x \<in> set db. odID x = i \<and> oRoleID x = r \<and> oStatus x = OrderStatusPaid \<and> c = reward_bundle x)"

fun pay_inv :: "('w \<Rightarrow> int \<times> string \<Rightarrow> grant_bundle option) \<Rightarrow> ('w \<Rightarrow> bool) \<Rightarrow> 'w pay_world \<Rightarrow> bool" where
  "pay_inv credited live (db, w) \<longleftrightarrow>
     live w \<and> distinct (map odID db) \<and> (\<forall>x \<in> set db. order_ok credited w x) \<and>
     (\<forall>x \<in> set db. \<forall>y \<in> set db. oTxn x = oTxn y \<and> oTxn x \<noteq> [] \<longrightarrow> odID x = odID y) \<and>
     (\<forall>r i c. credited w (r, pay_source i) = Some c \<longrightarrow> backed_by db r i c)"

declare pay_inv.simps [simp del]

lemma pay_invD:
  assumes "pay_inv credited live (db, w)"
  shows "live w" and "x \<in> set db \<Longrightarrow> order_ok credited w x"
    and "x \<in> set db \<Longrightarrow> y \<in> set db \<Longrightarrow> oTxn x = oTxn y \<Longrightarrow> oTxn x \<noteq> [] \<Longrightarrow> odID x = odID y"
    and "credited w (r, pay_source i) = Some c \<Longrightarrow> backed_by db r i c" and "distinct (map odID db)"
  using assms unfolding pay_inv.simps by blast+

lemma pay_invI:
  assumes "live w" and "distinct (map odID db)" and "\<And>x. x \<in> set db \<Longrightarrow> order_ok credited w x"
    and "\<And>x y. x \<in> set db \<Longrightarrow> y \<in> set db \<Longrightarrow> oTxn x = oTxn y \<Longrightarrow> oTxn x \<noteq> [] \<Longrightarrow> odID x = odID y"
    and "\<And>r i c. credited w (r, pay_source i) = Some c \<Longrightarrow> backed_by db r i c"
  shows "pay_inv credited live (db, w)"
  using assms unfolding pay_inv.simps by blast

text \<open>What never goes back: an order keeps its attributes, stays paid under its transaction and stays delivered; ledger entries stay.\<close>

definition order_le :: "order \<Rightarrow> order \<Rightarrow> bool" where
  "order_le x y \<longleftrightarrow>
     odID y = odID x \<and> oRoleID y = oRoleID x \<and> oProductID y = oProductID x \<and> oAmount y = oAmount x \<and> oCurrency y = oCurrency x \<and>
     (oStatus x = OrderStatusPaid \<longrightarrow> oStatus y = OrderStatusPaid) \<and> (oTxn x \<noteq> [] \<longrightarrow> oTxn y = oTxn x) \<and> (oDelivered x \<longrightarrow> oDelivered y)"

fun pay_grows :: "('w \<Rightarrow> int \<times> string \<Rightarrow> grant_bundle option) \<Rightarrow> 'w pay_world \<Rightarrow> 'w pay_world \<Rightarrow> bool" where
  "pay_grows credited (db, w) (db', w') \<longleftrightarrow>
     (\<forall>x \<in> set db. \<exists>y \<in> set db'. order_le x y) \<and> (\<forall>k c. credited w k = Some c \<longrightarrow> credited w' k = Some c)"

lemma order_le_refl [simp]: "order_le x x"
  by (simp add: order_le_def)

lemma order_le_trans: "order_le x y \<Longrightarrow> order_le y z \<Longrightarrow> order_le x z"
  by (auto simp: order_le_def)

lemma order_le_reward: "order_le x y \<Longrightarrow> reward_bundle y = reward_bundle x"
  by (auto simp: order_le_def reward_bundle_def order_reward_def Let_def)

lemma pay_grows_refl [simp]: "pay_grows credited s s"
  by (cases s) (auto intro: order_le_refl)

lemma pay_grows_trans: "pay_grows credited s t \<Longrightarrow> pay_grows credited t u \<Longrightarrow> pay_grows credited s u"
  by (cases s; cases t; cases u) (simp, meson order_le_trans)

declare pay_grows.simps [simp del]

text \<open>Interference that a handler tolerates between two of its calls.\<close>

definition pay_rely :: "('w \<Rightarrow> int \<times> string \<Rightarrow> grant_bundle option) \<Rightarrow> ('w \<Rightarrow> bool) \<Rightarrow> ('w pay_world \<Rightarrow> 'w pay_world) \<Rightarrow> bool" where
  "pay_rely credited live f \<longleftrightarrow> (\<forall>s. pay_inv credited live s \<longrightarrow> pay_inv credited live (f s) \<and> pay_grows credited s (f s))"

lemma update_order_ids [simp]: "(\<And>x. odID (f x) = odID x) \<Longrightarrow> map odID (update_order c f db) = map odID db"
  by (simp add: update_order_def)

lemma find_order_mem: "distinct (map odID db) \<Longrightarrow> find_order i db = Some x \<longleftrightarrow> x \<in> set db \<and> odID x = i"
  by (simp add: find_order_def find_key_mem)

lemma same_order: "distinct (map odID db) \<Longrightarrow> x \<in> set db \<Longrightarrow> y \<in> set db \<Longrightarrow> odID x = odID y \<Longrightarrow> x = y"
  by (auto simp: distinct_map dest: inj_onD)

text \<open>An update of single rows keeps the invariant if it keeps each row good, the ledger backed and the transactions apart.\<close>

lemma update_order_inv:
  assumes "pay_inv credited live (db, w)"
    and "\<And>x. x \<in> set db \<Longrightarrow> c x \<Longrightarrow> order_le x (f x) \<and> order_ok credited w (f x)"
    and "\<And>x y. x \<in> set db \<Longrightarrow> c x \<Longrightarrow> y \<in> set db \<Longrightarrow> oTxn (f x) \<noteq> [] \<Longrightarrow> oTxn y = oTxn (f x) \<Longrightarrow> odID y = odID x"
    and "\<And>x y. x \<in> set db \<Longrightarrow> y \<in> set db \<Longrightarrow> c x \<Longrightarrow> c y \<Longrightarrow> odID x = odID y"
  shows "pay_inv credited live (update_order c f db, w) \<and> pay_grows credited (db, w) (update_order c f db, w)"
proof -
  let ?u = "\<lambda>x. if c x then f x else x"
  have le: "order_le x (?u x)" if "x \<in> set db" for x using assms(2) [OF that] by simp
  have ids: "map odID (update_order c f db) = map odID db"
    using le by (auto simp: update_order_def order_le_def)
  have backed: "backed_by db r i b \<Longrightarrow> backed_by (update_order c f db) r i b" for r i b
    unfolding backed_by_def update_order_def
  proof (elim bexE)
    fix x assume x: "x \<in> set db" "odID x = i \<and> oRoleID x = r \<and> oStatus x = OrderStatusPaid \<and> b = reward_bundle x"
    from le [OF x(1)] order_le_reward [OF le [OF x(1)]] x
    have "?u x \<in> set (map ?u db) \<and> odID (?u x) = i \<and> oRoleID (?u x) = r \<and> oStatus (?u x) = OrderStatusPaid \<and> b = reward_bundle (?u x)"
      by (auto simp: order_le_def)
    then show "\<exists>x \<in> set (map ?u db). odID x = i \<and> oRoleID x = r \<and> oStatus x = OrderStatusPaid \<and> b = reward_bundle x" by blast
  qed
  have apart: "odID (?u x) = odID (?u y)"
    if xy: "x \<in> set db" "y \<in> set db" and t: "oTxn (?u x) = oTxn (?u y)" "oTxn (?u x) \<noteq> []" for x y
  proof -
    note old = pay_invD(3) [OF assms(1)]
    have "odID x = odID y"
    proof (cases "c x")
      case x: True
      show ?thesis
      proof (cases "c y")
        case True
        then show ?thesis by (rule assms(4) [OF xy x])
      next
        case False
        with x t have "oTxn (f x) \<noteq> []" "oTxn y = oTxn (f x)" by simp_all
        from assms(3) [OF xy(1) x xy(2) this] show ?thesis by simp
      qed
    next
      case x: False
      show ?thesis
      proof (cases "c y")
        case True
        with x t have "oTxn (f y) \<noteq> []" "oTxn x = oTxn (f y)" by simp_all
        from assms(3) [OF xy(2) True xy(1) this] show ?thesis .
      next
        case False
        with x t have "oTxn x = oTxn y" "oTxn x \<noteq> []" by simp_all
        then show ?thesis by (rule old [OF xy])
      qed
    qed
    with le [OF xy(1)] le [OF xy(2)] show ?thesis by (simp add: order_le_def)
  qed
  have ok: "\<forall>x \<in> set (update_order c f db). order_ok credited w x"
    using pay_invD(2) [OF assms(1)] assms(2) by (auto simp: update_order_def)
  have sep: "odID x = odID y"
    if xy: "x \<in> set (update_order c f db)" "y \<in> set (update_order c f db)" and t: "oTxn x = oTxn y" "oTxn x \<noteq> []" for x y
  proof -
    obtain a where a: "x = ?u a" "a \<in> set db" using xy(1) unfolding update_order_def set_map by (rule imageE)
    obtain b where b: "y = ?u b" "b \<in> set db" using xy(2) unfolding update_order_def set_map by (rule imageE)
    show ?thesis unfolding a(1) b(1) by (rule apart [OF a(2) b(2) t [unfolded a(1) b(1)]])
  qed
  have "pay_inv credited live (update_order c f db, w)"
  proof (rule pay_invI)
    show "live w" by (rule pay_invD(1) [OF assms(1)])
    show "distinct (map odID (update_order c f db))" unfolding ids by (rule pay_invD(5) [OF assms(1)])
    show "order_ok credited w x" if "x \<in> set (update_order c f db)" for x using ok that by blast
    show "odID x = odID y" if "x \<in> set (update_order c f db)" "y \<in> set (update_order c f db)" "oTxn x = oTxn y" "oTxn x \<noteq> []" for x y
      by (rule sep [OF that])
    show "backed_by (update_order c f db) r i b" if "credited w (r, pay_source i) = Some b" for r i b
      by (rule backed [OF pay_invD(4) [OF assms(1) that]])
  qed
  moreover have "\<forall>x \<in> set db. \<exists>y \<in> set (update_order c f db). order_le x y"
    unfolding update_order_def set_map by (rule ballI, rule bexI, rule le, assumption, erule imageI)
  ultimately show ?thesis by (simp add: pay_grows.simps)
qed


lemma row_unique: "pay_inv credited live (db, w) \<Longrightarrow> x \<in> set db \<Longrightarrow> y \<in> set db \<Longrightarrow> odID x = odID y \<Longrightarrow> x = y"
  by (rule same_order [OF pay_invD(5)])

lemma CreateOrder_inv:
  assumes "pay_inv credited live (db, w)" and "CreateOrder oc x db = (r, db')" and "oStatus x \<noteq> OrderStatusPaid"
  shows "pay_inv credited live (db', w) \<and> pay_grows credited (db, w) (db', w)"
proof (cases "db' = db")
  case True
  then show ?thesis using assms(1) by simp
next
  case False
  define y where "y = x\<lparr>oDelivered := False, oTxn := []\<rparr>"
  have db': "db' = db @ [y]" and fresh: "find_order (odID x) db = None"
    using assms(2) False by (auto simp: CreateOrder_def store_call_def y_def split: outcome.splits if_splits)
  have y: "odID y = odID x" "order_ok credited w y" "oTxn y = []" using assms(3) by (simp_all add: y_def order_ok_def)
  have "odID x \<notin> odID ` set db" using fresh by (auto simp: find_order_def dest: find_None_mem)
  then have ids: "distinct (map odID db')" using pay_invD(5) [OF assms(1)] y by (auto simp: db')
  have backed: "backed_by db r i c \<Longrightarrow> backed_by db' r i c" for r i c by (auto simp: backed_by_def db')
  have "pay_inv credited live (db', w)"
  proof (rule pay_invI)
    fix a b assume "a \<in> set db'" "b \<in> set db'" "oTxn a = oTxn b" "oTxn a \<noteq> []"
    then show "odID a = odID b" using pay_invD(3) [OF assms(1), of a b] y(3) by (auto simp: db')
  qed (use ids y(2) pay_invD(1,2,4) [OF assms(1)] backed in \<open>auto simp: db'\<close>)
  moreover have "\<forall>x \<in> set db. \<exists>z \<in> set db'. order_le x z" by (simp add: db') (meson order_le_refl)
  ultimately show ?thesis by (simp add: pay_grows.simps)
qed

text \<open>What \<open>MarkPaidVerified\<close> does when it does anything.\<close>

lemma MarkPaidVerified_change:
  assumes "MarkPaidVerified oc i txn pid cur amt st db = (r, db')"
  shows "(db' = db \<and> isl r) \<or>
    (\<exists>x. find_order i db = Some x \<and> txn \<noteq> [] \<and> oProductID x = pid \<and> oAmount x = amt \<and> oCurrency x = cur \<and>
       (oTxn x = [] \<or> oTxn x = txn) \<and> \<not> (\<exists>y \<in> set db. odID y \<noteq> i \<and> oTxn y = txn) \<and>
       db' = update_order (\<lambda>z. odID z = i) (\<lambda>z. z\<lparr>oStatus := OrderStatusPaid, oTxn := txn\<rparr>) db \<and>
       (isl r \<or> r = Inr (x\<lparr>oStatus := OrderStatusPaid, oTxn := txn\<rparr>, oStatus x \<noteq> OrderStatusPaid)))"
proof (cases "st \<noteq> OrderStatusPaid \<or> txn = [] \<or> find_order i db = None")
  case True
  then show ?thesis using assms by (cases oc) (auto simp: MarkPaidVerified_def split: if_splits)
next
  case False
  then obtain x where x: "find_order i db = Some x" by blast
  let ?bad = "oProductID x \<noteq> pid \<or> oAmount x \<noteq> amt \<or> oCurrency x \<noteq> cur \<or> (oTxn x \<noteq> [] \<and> oTxn x \<noteq> txn) \<or>
    (\<exists>y \<in> set db. odID y \<noteq> i \<and> oTxn y = txn)"
  let ?ok = "(Inr (x\<lparr>oStatus := OrderStatusPaid, oTxn := txn\<rparr>, oStatus x \<noteq> OrderStatusPaid),
    update_order (\<lambda>z. odID z = i) (\<lambda>z. z\<lparr>oStatus := OrderStatusPaid, oTxn := txn\<rparr>) db)"
  define R where "R = (if oProductID x \<noteq> pid \<or> oAmount x \<noteq> amt \<or> oCurrency x \<noteq> cur then (Inl (ErrMsg ''payment attributes do not match order''), db)
    else if oTxn x \<noteq> [] \<and> oTxn x \<noteq> txn then (Inl (ErrMsg ''order already bound to another provider transaction''), db)
    else if \<exists>y \<in> set db. odID y \<noteq> i \<and> oTxn y = txn then (Inl ErrStore, db) else ?ok)"
  have run: "store_call oc db R = (r, db')"
    using assms False by (simp add: MarkPaidVerified_def x R_def)
  have bad: "\<exists>e. R = (Inl e, db)" if ?bad using that by (auto simp: R_def)
  show ?thesis
  proof (cases ?bad)
    case True
    from bad [OF this] show ?thesis using run by (cases oc) auto
  next
    case nb: False
    then have "R = ?ok" by (simp add: R_def)
    with run have "store_call oc db ?ok = (r, db')" by simp
    from store_call_change [OF this] have "(db' = db \<and> isl r) \<or> db' = snd ?ok \<and> (isl r \<or> r = fst ?ok)" by auto
    then show ?thesis using nb x False by (metis fst_conv snd_conv)
  qed
qed

lemma MarkPaidVerified_inv:
  assumes "pay_inv credited live (db, w)" and "MarkPaidVerified oc i txn pid cur amt st db = (r, db')"
  shows "pay_inv credited live (db', w) \<and> pay_grows credited (db, w) (db', w) \<and>
    (\<forall>x n. r = Inr (x, n) \<longrightarrow> x \<in> set db' \<and> odID x = i \<and> oStatus x = OrderStatusPaid \<and> oTxn x = txn \<and> txn \<noteq> [] \<and>
       oProductID x = pid \<and> oAmount x = amt \<and> oCurrency x = cur)"
  using MarkPaidVerified_change [OF assms(2)]
proof (rule disjE)
  assume "db' = db \<and> isl r"
  then show ?thesis using assms(1) by auto
next
  let ?f = "\<lambda>z. z\<lparr>oStatus := OrderStatusPaid, oTxn := txn\<rparr>"
  assume "\<exists>x. find_order i db = Some x \<and> txn \<noteq> [] \<and> oProductID x = pid \<and> oAmount x = amt \<and> oCurrency x = cur \<and>
       (oTxn x = [] \<or> oTxn x = txn) \<and> \<not> (\<exists>y \<in> set db. odID y \<noteq> i \<and> oTxn y = txn) \<and>
       db' = update_order (\<lambda>z. odID z = i) ?f db \<and> (isl r \<or> r = Inr (?f x, oStatus x \<noteq> OrderStatusPaid))"
  then obtain x where x: "find_order i db = Some x" "txn \<noteq> []" "oProductID x = pid" "oAmount x = amt" "oCurrency x = cur"
    and tx: "oTxn x = [] \<or> oTxn x = txn" "\<not> (\<exists>y \<in> set db. odID y \<noteq> i \<and> oTxn y = txn)"
    and db': "db' = update_order (\<lambda>z. odID z = i) ?f db"
    and r: "isl r \<or> r = Inr (?f x, oStatus x \<noteq> OrderStatusPaid)" by blast
  have mem: "x \<in> set db" "odID x = i" using x(1) find_order_mem [OF pay_invD(5) [OF assms(1)]] by auto
  have rows: "y = x" if "y \<in> set db" "odID y = i" for y using row_unique [OF assms(1) that(1) mem(1)] that mem by simp
  have "pay_inv credited live (db', w) \<and> pay_grows credited (db, w) (db', w)" unfolding db'
  proof (rule update_order_inv [OF assms(1)])
    fix y assume y: "y \<in> set db" "odID y = i"
    then have "y = x" by (rule rows)
    then show "order_le y (?f y) \<and> order_ok credited w (?f y)"
      using pay_invD(2) [OF assms(1) y(1)] x(2) tx(1) order_le_reward [of y "?f y"]
      by (auto simp: order_le_def order_ok_def reward_bundle_def order_reward_def)
  next
    fix y z assume "y \<in> set db" "odID y = i" "z \<in> set db" "oTxn (?f y) \<noteq> []" "oTxn z = oTxn (?f y)"
    then show "odID z = odID y" using tx(2) by auto
  qed auto
  moreover have "?f x \<in> set db'" using mem by (auto simp: db' update_order_def)
  ultimately show ?thesis using x(2-5) r mem by auto
qed

lemma MarkDelivered_inv:
  assumes "pay_inv credited live (db, w)" and "MarkDelivered oc i db = (r, db')"
    and "x \<in> set db" and "odID x = i" and "oStatus x = OrderStatusPaid" and "credited w (oRoleID x, pay_source i) = Some (reward_bundle x)"
  shows "pay_inv credited live (db', w) \<and> pay_grows credited (db, w) (db', w) \<and>
    (r = Inr () \<longrightarrow> (\<exists>y \<in> set db'. odID y = i \<and> oDelivered y))"
proof (cases "db' = db \<and> (\<exists>e. r = Inl e)")
  case True
  then show ?thesis using assms(1) by auto
next
  case False
  let ?c = "\<lambda>z. odID z = i \<and> oStatus z = OrderStatusPaid" and ?f = "\<lambda>z. z\<lparr>oDelivered := True\<rparr>"
  have db': "db' = update_order ?c ?f db"
    using assms(2) False by (auto simp: MarkDelivered_def Let_def store_call_def split: outcome.splits if_splits)
  have "pay_inv credited live (db', w) \<and> pay_grows credited (db, w) (db', w)" unfolding db'
  proof (rule update_order_inv [OF assms(1)])
    fix y assume y: "y \<in> set db" "odID y = i \<and> oStatus y = OrderStatusPaid"
    then have "y = x" using row_unique [OF assms(1) y(1) assms(3)] assms(4) by simp
    then show "order_le y (?f y) \<and> order_ok credited w (?f y)"
      using pay_invD(2) [OF assms(1) y(1)] y(2) assms(6) order_le_reward [of y "?f y"]
      by (auto simp: order_le_def order_ok_def reward_bundle_def order_reward_def)
  next
    fix y z assume yz: "y \<in> set db" "odID y = i \<and> oStatus y = OrderStatusPaid" "z \<in> set db" "oTxn (?f y) \<noteq> []" "oTxn z = oTxn (?f y)"
    then show "odID z = odID y" using pay_invD(3) [OF assms(1) yz(3,1)] by simp
  qed auto
  moreover have "?f x \<in> set db'" using assms(3,4,5) by (auto simp: db' update_order_def)
  moreover have "odID (?f x) = i" "oDelivered (?f x)" using assms(4) by simp_all
  ultimately show ?thesis by blast
qed


text \<open>What the ledger of a larger world still guarantees.\<close>

lemma order_ok_mono:
  "order_ok credited w x \<Longrightarrow> (\<And>k c. credited w k = Some c \<Longrightarrow> credited w' k = Some c) \<Longrightarrow> order_ok credited w' x"
  by (auto simp: order_ok_def)

section \<open>Handlers against any granter\<close>

context granter
begin

text \<open>A grant for a paid order of the table.\<close>

lemma grant_order_inv:
  assumes "pay_inv credited live (db, w)" and "x \<in> set db" and "odID x = i" and "oStatus x = OrderStatusPaid"
    and "grant (oRoleID x) (reward_bundle x) (pay_source i) w = (e, w')"
  shows "pay_inv credited live (db, w') \<and> pay_grows credited (db, w) (db, w') \<and>
    (e = None \<longrightarrow> credited w' (oRoleID x, pay_source i) = Some (reward_bundle x))"
proof -
  note live = pay_invD(1) [OF assms(1)]
  note keeps = grant_keeps [OF live assms(5)] and only = grant_only [OF live reward_bundle_wf assms(5)]
  have backed: "backed_by db r j c" if c: "credited w' (r, pay_source j) = Some c" for r j c
  proof (cases "credited w (r, pay_source j)")
    case None
    from only [OF this c] assms(2-4) show ?thesis by (auto simp: backed_by_def pay_source_def)
  next
    case (Some d)
    with keeps [OF Some] c pay_invD(4) [OF assms(1) Some] show ?thesis by simp
  qed
  have "pay_inv credited live (db, w')"
  proof (rule pay_invI)
    show "live w'" by (rule grant_live [OF live assms(5)])
    show "order_ok credited w' y" if "y \<in> set db" for y
      using order_ok_mono [OF pay_invD(2) [OF assms(1) that] keeps] .
    show "odID y = odID z" if "y \<in> set db" "z \<in> set db" "oTxn y = oTxn z" "oTxn y \<noteq> []" for y z
      by (rule pay_invD(3) [OF assms(1) that])
  qed (use backed pay_invD(5) [OF assms(1)] in blast)+
  moreover have "pay_grows credited (db, w) (db, w')"
    unfolding pay_grows.simps using keeps order_le_refl by blast
  moreover have "credited w' (oRoleID x, pay_source i) = Some (reward_bundle x)" if ok: "e = None"
  proof -
    obtain c where c: "credited w' (oRoleID x, pay_source i) = Some c"
      using grant_credits [OF live _ assms(5) [unfolded ok]] by (auto simp: pay_source_def)
    from backed [OF this] obtain y where y: "y \<in> set db" "odID y = i" "c = reward_bundle y" unfolding backed_by_def by blast
    with row_unique [OF assms(1) y(1) assms(2)] assms(3) c show ?thesis by simp
  qed
  ultimately show ?thesis by blast
qed

lemma deliver_inv:
  assumes "pay_inv credited live s" and "pay_rely credited live between" and "deliver grant between oc x i s = (e, s')"
    and "\<exists>y \<in> set (fst s). order_le x y" and "odID x = i" and "oStatus x = OrderStatusPaid"
  shows "pay_inv credited live s' \<and> pay_grows credited s s' \<and> (e = None \<longrightarrow> (\<exists>y \<in> set (fst s'). odID y = i \<and> oDelivered y))"
proof -
  obtain db w where s: "s = (db, w)" by fastforce
  obtain y where y: "y \<in> set db" "order_le x y" using assms(4) s by auto
  have yi: "odID y = i" "oStatus y = OrderStatusPaid" "oRoleID y = oRoleID x" "reward_bundle y = reward_bundle x"
    using y(2) assms(5,6) order_le_reward [OF y(2)] by (auto simp: order_le_def)
  obtain g w1 where g: "grant (oRoleID y) (reward_bundle y) (pay_source i) w = (g, w1)" by fastforce
  note G = grant_order_inv [OF assms(1) [unfolded s] y(1) yi(1,2) g]
  have gi: "GrantItems grant (oRoleID x) (order_reward x) (''pay:'' @ i) w = (g, w1)"
    using g yi by (simp add: GrantItems_def Parse_order_reward pay_source_def)
  show ?thesis
  proof (cases g)
    case (Some e')
    then show ?thesis using assms(3) gi G by (auto simp: deliver_def s)
  next
    case None
    obtain db2 w2 where b: "between (db, w1) = (db2, w2)" by fastforce
    have i2: "pay_inv credited live (db2, w2)" "pay_grows credited (db, w1) (db2, w2)"
      using assms(2) G b unfolding pay_rely_def by metis+
    then obtain z where z: "z \<in> set db2" "order_le y z" using y(1) unfolding pay_grows.simps by blast
    have zi: "odID z = i" "oStatus z = OrderStatusPaid" using z(2) yi by (auto simp: order_le_def)
    have "credited w2 (oRoleID z, pay_source i) = Some (reward_bundle z)"
      using G None i2(2) z(2) order_le_reward [OF z(2)] unfolding pay_grows.simps by (auto simp: order_le_def)
    moreover obtain r db3 where m: "MarkDelivered oc i db2 = (r, db3)" by fastforce
    ultimately have M: "pay_inv credited live (db3, w2)" "pay_grows credited (db2, w2) (db3, w2)"
        "r = Inr () \<longrightarrow> (\<exists>y \<in> set db3. odID y = i \<and> oDelivered y)"
      using MarkDelivered_inv [OF i2(1) m z(1) zi] by auto
    have s': "s' = (db3, w2)" "e = None \<longrightarrow> r = Inr ()"
      using assms(3) gi None b m by (auto simp: deliver_def s split: sum.splits)
    have "pay_grows credited s s'"
      using pay_grows_trans [OF pay_grows_trans [OF _ i2(2)] M(2)] G unfolding s s' by blast
    then show ?thesis using M s' by auto
  qed
qed

lemma handleNotify_inv:
  assumes "pay_inv credited live s" and "pay_rely credited live b1" and "pay_rely credited live b2"
    and "handleNotify configured grant b1 b2 oc1 oc2 p s = (r, s')"
  shows "pay_inv credited live s' \<and> pay_grows credited s s'"
proof -
  obtain db w where s: "s = (db, w)" by fastforce
  let ?i = "json_string ''order_id'' p"
  obtain v db1 where mk: "MarkPaidVerified oc1 ?i (json_string ''provider_transaction_id'' p) (json_string ''product_id'' p)
      (ToUpper (TrimSpace (json_string ''currency'' p))) (json_int32 ''amount'' p) (json_int32 ''status'' p) db = (v, db1)" by fastforce
  note M = MarkPaidVerified_inv [OF assms(1) [unfolded s] mk]
  consider (same) "s' = s" | (marked) "s' = (db1, w)"
    | (delivers) x n e where "v = Inr (x, n)" "deliver grant b2 oc2 x ?i (b1 (db1, w)) = (e, s')" "oStatus x = OrderStatusPaid"
    using assms(4) mk by (auto simp: handleNotify_def s Let_def split: if_splits sum.splits prod.splits option.splits)
  then show ?thesis
  proof cases
    case same
    then show ?thesis using assms(1) by simp
  next
    case marked
    then show ?thesis using M by (simp add: s)
  next
    case delivers
    have x: "x \<in> set db1" "odID x = ?i" using M delivers(1) by auto
    have b: "pay_inv credited live (b1 (db1, w))" "pay_grows credited (db1, w) (b1 (db1, w))"
      using assms(2) M unfolding pay_rely_def by blast+
    have "\<exists>y \<in> set (fst (b1 (db1, w))). order_le x y"
      using b(2) x(1) by (cases "b1 (db1, w)") (auto simp: pay_grows.simps)
    from deliver_inv [OF b(1) assms(3) delivers(2) this x(2) delivers(3)]
    show ?thesis using M pay_grows_trans b(2) s by metis
  qed
qed

lemma retry_order_inv:
  assumes "pay_inv credited live s" and "reGrant E = grant" and "pay_rely credited live (reBefore E)"
    and "pay_rely credited live (reRead E)" and "pay_rely credited live (reAfter E)" and "retry_order E x s = (e, s')"
  shows "pay_inv credited live s' \<and> pay_grows credited s s'"
proof -
  let ?s = "reBefore E s"
  have b: "pay_inv credited live ?s" "pay_grows credited s ?s" using assms(1,3) unfolding pay_rely_def by blast+
  have rd: "pay_inv credited live (reRead E ?s)" "pay_grows credited ?s (reRead E ?s)" using b(1) assms(4) unfolding pay_rely_def by blast+
  consider (same) "s' = ?s"
    | (delivers) y where "find_order (odID x) (fst ?s) = Some y" "oStatus y = OrderStatusPaid"
        "deliver grant (reAfter E) (reMarkOc E) y (odID y) (reRead E ?s) = (e, s')"
    using assms(2,6) by (auto simp: retry_order_def pay_Get_def Let_def split: if_splits sum.splits option.splits)
  then show ?thesis
  proof cases
    case same
    then show ?thesis using b by simp
  next
    case delivers
    have "y \<in> set (fst ?s)" using delivers(1) find_Some_mem by (fastforce simp: find_order_def)
    then have "\<exists>z \<in> set (fst (reRead E ?s)). order_le y z"
      using rd(2) by (cases ?s; cases "reRead E ?s") (auto simp: pay_grows.simps)
    from deliver_inv [OF rd(1) assms(5) delivers(3) this refl delivers(2)]
    show ?thesis using pay_grows_trans [OF b(2) pay_grows_trans [OF rd(2)]] by blast
  qed
qed

end


section \<open>The whole service\<close>

text \<open>
  One step of the payment system: a handler of some process, with interference between its calls, or
  a step of the rest of the program that credits nothing under a payment source. \<open>G\<close> are the granters
  in use.
\<close>

definition other_step :: "('w \<Rightarrow> int \<times> string \<Rightarrow> grant_bundle option) \<Rightarrow> ('w \<Rightarrow> bool) \<Rightarrow> 'w \<Rightarrow> 'w \<Rightarrow> bool" where
  "other_step credited live w w' \<longleftrightarrow>
     live w' \<and> (\<forall>k c. credited w k = Some c \<longrightarrow> credited w' k = Some c) \<and>
     (\<forall>r i c. credited w (r, pay_source i) = None \<longrightarrow> credited w' (r, pay_source i) \<noteq> Some c)"

inductive pay_step :: "('w \<Rightarrow> int \<times> string \<Rightarrow> grant_bundle option) \<Rightarrow> ('w \<Rightarrow> bool) \<Rightarrow> 'w grant_fn set \<Rightarrow> 'w pay_world \<Rightarrow> 'w pay_world \<Rightarrow> bool"
  for credited live G where
  Create: "handleCreate cfg rnd oc info p (Some db) = (r, Some db') \<Longrightarrow> pay_step credited live G (db, w) (db', w)"
| Notify: "\<lbrakk>g \<in> G; pay_rely credited live b1; pay_rely credited live b2; handleNotify configured g b1 b2 oc1 oc2 p s = (r, s')\<rbrakk>
    \<Longrightarrow> pay_step credited live G s s'"
| Retry: "\<lbrakk>\<forall>i. reGrant (E i) \<in> G \<and> pay_rely credited live (reBefore (E i)) \<and> pay_rely credited live (reRead (E i)) \<and> pay_rely credited live (reAfter (E i));
    handleRetry configured oc E s = (r', s')\<rbrakk> \<Longrightarrow> pay_step credited live G s s'"
| Other: "other_step credited live w w' \<Longrightarrow> pay_step credited live G (db, w) (db, w')"

lemma retry_loop_inv:
  assumes "\<And>i. granter credited (reGrant (E i)) live \<and> pay_rely credited live (reBefore (E i)) \<and> pay_rely credited live (reRead (E i)) \<and> pay_rely credited live (reAfter (E i))"
    and "pay_inv credited live s" and "retry_loop E xs n s = (n', s')"
  shows "pay_inv credited live s' \<and> pay_grows credited s s'"
  using assms(2,3)
proof (induction xs arbitrary: n s)
  case Nil
  then show ?case by (cases n) simp
next
  case (Cons x xs)
  obtain e s1 where r: "retry_order (E (length xs)) x s = (e, s1)" by (meson surj_pair)
  have "granter credited (reGrant (E (length xs))) live" using assms(1) by blast
  from granter.retry_order_inv [OF this Cons.prems(1) refl _ _ _ r]
  have s1: "pay_inv credited live s1" "pay_grows credited s s1" using assms(1) by blast+
  obtain n1 where "retry_loop E xs n1 s1 = (n', s')"
    using Cons.prems(2) r by (cases n) (auto split: option.splits)
  from Cons.IH [OF s1(1) this] show ?case using pay_grows_trans [OF s1(2)] by blast
qed

lemma handleCreate_inv:
  assumes "pay_inv credited live (db, w)" and "handleCreate cfg rnd oc info p (Some db) = (r, Some db')"
  shows "pay_inv credited live (db', w) \<and> pay_grows credited (db, w) (db', w)"
proof (cases "db' = db")
  case True
  then show ?thesis using assms(1) by simp
next
  case False
  then obtain x u where "CreateOrder oc x db = (u, db')" "oStatus x \<noteq> OrderStatusPaid"
    using assms(2) by (auto simp: handleCreate_def Let_def OrderStatusPending_def OrderStatusPaid_def split: if_splits sum.splits prod.splits) 
  then show ?thesis by (rule CreateOrder_inv [OF assms(1)])
qed

lemma other_step_inv:
  assumes "pay_inv credited live (db, w)" and "other_step credited live w w'"
  shows "pay_inv credited live (db, w') \<and> pay_grows credited (db, w) (db, w')"
proof -
  have keeps: "credited w k = Some c \<Longrightarrow> credited w' k = Some c" for k c using assms(2) unfolding other_step_def by blast
  have backed: "backed_by db r i c" if "credited w' (r, pay_source i) = Some c" for r i c
    using that pay_invD(4) [OF assms(1)] keeps assms(2) unfolding other_step_def by (metis option.exhaust option.inject)
  have "pay_inv credited live (db, w')"
  proof (rule pay_invI)
    show "live w'" using assms(2) by (simp add: other_step_def)
    show "order_ok credited w' y" if "y \<in> set db" for y using order_ok_mono [OF pay_invD(2) [OF assms(1) that] keeps] .
    show "odID y = odID z" if "y \<in> set db" "z \<in> set db" "oTxn y = oTxn z" "oTxn y \<noteq> []" for y z
      by (rule pay_invD(3) [OF assms(1) that])
  qed (use backed pay_invD(5) [OF assms(1)] in blast)+
  then show ?thesis using keeps order_le_refl unfolding pay_grows.simps by blast
qed

lemma pay_step_inv:
  assumes "pay_step credited live G s s'" and "\<And>g. g \<in> G \<Longrightarrow> granter credited g live" and "pay_inv credited live s"
  shows "pay_inv credited live s' \<and> pay_grows credited s s'"
  using assms(1,3)
proof cases
  case (Create cfg rnd oc info p db r db' w)
  then show ?thesis using handleCreate_inv assms(3) by metis
next
  case (Notify g b1 b2 configured oc1 oc2 p r)
  show ?thesis by (rule granter.handleNotify_inv [OF assms(2) [OF Notify(1)] assms(3) Notify(2-4)])
next
  case (Retry E configured oc r')
  have g: "granter credited (reGrant (E i)) live \<and> pay_rely credited live (reBefore (E i)) \<and> pay_rely credited live (reRead (E i)) \<and> pay_rely credited live (reAfter (E i))" for i
    using Retry(1) assms(2) by blast
  from Retry(2) have "s' = s \<or> (\<exists>xs n. retry_loop E xs (0, 0) s = (n, s'))"
    by (auto simp: handleRetry_def ListUndeliveredPaid_def Let_def split: if_splits sum.splits prod.splits)
  then show ?thesis
  proof
    assume "\<exists>xs n. retry_loop E xs (0, 0) s = (n, s')"
    then obtain xs n where "retry_loop E xs (0, 0) s = (n, s')" by blast
    from retry_loop_inv [of credited E live, OF g assms(3) this] show ?thesis .
  qed (use assms(3) in simp)
next
  case (Other w w' db)
  then show ?thesis using other_step_inv assms(3) by metis
qed

lemma pay_steps_inv:
  assumes "(pay_step credited live G)\<^sup>*\<^sup>* s s'" and "\<And>g. g \<in> G \<Longrightarrow> granter credited g live" and "pay_inv credited live s"
  shows "pay_inv credited live s' \<and> pay_grows credited s s'"
  using assms(1)
proof (induction rule: rtranclp_induct)
  case base
  then show ?case using assms(3) by simp
next
  case (step t u)
  with pay_step_inv [OF step(2) assms(2)] pay_grows_trans show ?case by blast
qed

text \<open>Interference by the steps themselves is allowed: a handler tolerates all other handlers.\<close>

lemma pay_steps_rely:
  assumes "\<And>g. g \<in> G \<Longrightarrow> granter credited g live" and "\<And>s. (pay_step credited live G)\<^sup>*\<^sup>* s (f s)"
  shows "pay_rely credited live f"
  unfolding pay_rely_def using pay_steps_inv [OF assms(2) assms(1)] by blast


section \<open>Properties of payments\<close>

text \<open>The granters of the deployed program: clients of game processes.\<close>

definition game_grants :: "manager grant_fn set" where
  "game_grants = {client_Grant resolve c oc (game_serve secret E) | resolve c oc secret E. benign (eBetween E)}"

lemma game_grants_granter: "g \<in> game_grants \<Longrightarrow> granter manager_credited g manager_live"
  using client_Grant_granter by (auto simp: game_grants_def)

text \<open>
  C15. Delivered means paid and credited, and only paid orders are credited. Whatever handlers run, on
  any processes, interleaved in any way and with any lost requests and replies: afterwards every
  delivered order is paid under a provider transaction and its role has exactly the reward of its
  product in the ledger under the order's source (one entry, hence once); every ledger entry under a
  payment source belongs to a paid order of that role and holds that order's reward; and no order
  ever loses its attributes, its payment, its transaction or its delivery.
\<close>

theorem payments_settle:
  assumes "pay_inv manager_credited manager_live (db, m)"
    and "(pay_step manager_credited manager_live game_grants)\<^sup>*\<^sup>* (db, m) (db', m')"
  shows "(\<forall>x \<in> set db'. oDelivered x \<longrightarrow> oStatus x = OrderStatusPaid \<and> oTxn x \<noteq> [] \<and>
      manager_credited m' (oRoleID x, pay_source (odID x)) = Some (reward_bundle x)) \<and>
    (\<forall>r i c. manager_credited m' (r, pay_source i) = Some c \<longrightarrow>
      (\<exists>x \<in> set db'. odID x = i \<and> oRoleID x = r \<and> oStatus x = OrderStatusPaid \<and> c = reward_bundle x)) \<and>
    (\<forall>x \<in> set db. \<exists>y \<in> set db'. order_le x y)"
proof -
  have i: "pay_inv manager_credited manager_live (db', m')" "pay_grows manager_credited (db, m) (db', m')"
    using pay_steps_inv [OF assms(2) game_grants_granter assms(1)] by blast+
  show ?thesis
    using pay_invD(2) [OF i(1)] pay_invD(4) [OF i(1)] i(2) unfolding order_ok_def backed_by_def pay_grows.simps by blast
qed

text \<open>
  C16. A provider transaction pays for one order, and an order is paid by one transaction. After a
  verified payment, and after any further steps of the system, a notification that succeeds with the
  same transaction names the same order, and one that succeeds for the same order names the same
  transaction; a successful notification agreed with the order on product, amount and currency.
\<close>

theorem transaction_pays_one_order:
  assumes "pay_inv manager_credited manager_live (db, m)"
    and "MarkPaidVerified oc i txn pid cur amt st db = (Inr (x, n), db1)"
    and "(pay_step manager_credited manager_live game_grants)\<^sup>*\<^sup>* (db1, m) (db2, m2)"
    and "MarkPaidVerified oc' i' txn' pid' cur' amt' st' db2 = (Inr (y, n'), db3)"
  shows "(txn' = txn \<longleftrightarrow> i' = i) \<and> oProductID x = pid \<and> oAmount x = amt \<and> oCurrency x = cur \<and> (i' = i \<longrightarrow> oRoleID y = oRoleID x \<and> \<not> n')"
proof -
  note M1 = MarkPaidVerified_inv [OF assms(1,2)]
  have i2: "pay_inv manager_credited manager_live (db2, m2)" "pay_grows manager_credited (db1, m) (db2, m2)"
    using pay_steps_inv [OF assms(3) game_grants_granter] M1 by blast+
  note M2 = MarkPaidVerified_inv [OF i2(1) assms(4)]
  have x: "x \<in> set db1" "odID x = i" "oTxn x = txn" "txn \<noteq> []" "oStatus x = OrderStatusPaid" using M1 by auto
  obtain z where z: "z \<in> set db2" "order_le x z" using i2(2) x(1) unfolding pay_grows.simps by blast
  obtain z' where z': "find_order i' db2 = Some z'" "oTxn z' = [] \<or> oTxn z' = txn'" "\<not> (\<exists>y \<in> set db2. odID y \<noteq> i' \<and> oTxn y = txn')"
      "txn' \<noteq> []" "y = z'\<lparr>oStatus := OrderStatusPaid, oTxn := txn'\<rparr>" "n' = (oStatus z' \<noteq> OrderStatusPaid)"
    using MarkPaidVerified_change [OF assms(4)] by auto
  have zi: "odID z = i" "oTxn z = txn" "oRoleID z = oRoleID x" "oStatus z = OrderStatusPaid" using z(2) x by (auto simp: order_le_def)
  have same: "z' = z" if "i' = i"
  proof -
    have "z' \<in> set db2" "odID z' = i'" using z'(1) find_order_mem [OF pay_invD(5) [OF i2(1)]] by auto
    then show ?thesis using row_unique [OF i2(1) _ z(1)] zi(1) that by simp
  qed
  have "txn' = txn \<longleftrightarrow> i' = i" using z'(2,3,4) z(1) zi(1,2) same x(4) by metis
  then show ?thesis using M1 same zi z'(5,6) by auto
qed

text \<open>
  The sweep that repairs missed deliveries. \<open>sweep_env\<close> is a run of the loop without faults and without interference.
\<close>

definition sweep_env :: "'w grant_fn \<Rightarrow> nat \<Rightarrow> 'w retry_env" where
  "sweep_env g n = \<lparr>reGrant = g, reBefore = id, reRead = id, reAfter = id, reGetOc = Done, reMarkOc = Done\<rparr>"

definition undelivered :: "order \<Rightarrow> bool" where
  "undelivered x \<longleftrightarrow> oStatus x = OrderStatusPaid \<and> \<not> oDelivered x"

definition mark_ids :: "string set \<Rightarrow> pay_db \<Rightarrow> pay_db" where
  "mark_ids S db = update_order (\<lambda>x. odID x \<in> S) (\<lambda>x. x\<lparr>oDelivered := True\<rparr>) db"

lemma mark_ids_ids [simp]: "map odID (mark_ids S db) = map odID db"
  by (simp add: mark_ids_def update_order_def)

lemma mark_ids_mark_ids [simp]: "mark_ids S (mark_ids T db) = mark_ids (S \<union> T) db"
  by (simp add: mark_ids_def update_order_def)

lemma mark_ids_empty [simp]: "mark_ids {} db = db"
  by (simp add: mark_ids_def update_order_def)

lemma mark_ids_Cons: "mark_ids S (x # db) = (if odID x \<in> S then x\<lparr>oDelivered := True\<rparr> else x) # mark_ids S db"
  by (simp add: mark_ids_def update_order_def)

lemma undelivered_delivered [simp]: "\<not> undelivered (x\<lparr>oDelivered := True\<rparr>)"
  by (simp add: undelivered_def)

lemma MarkDelivered_mark_ids:
  assumes "distinct (map odID db)" and "x \<in> set db" and "oStatus x = OrderStatusPaid"
  shows "MarkDelivered Done (odID x) db = (Inr (), mark_ids {odID x} db)"
proof -
  have "(odID y = odID x \<and> oStatus y = OrderStatusPaid) = (odID y \<in> {odID x})" if "y \<in> set db" for y
    using same_order [OF assms(1,2) that] assms(3) by auto
  then show ?thesis using assms(2,3) by (auto simp: MarkDelivered_def Let_def mark_ids_def update_order_def)
qed

lemma undelivered_mark_ids:
  "distinct (map odID db) \<Longrightarrow>
   filter undelivered (mark_ids (odID ` set (take n (filter undelivered db))) db) = drop n (filter undelivered db)"
proof (induction db arbitrary: n)
  case (Cons x db)
  have out: "odID x \<notin> odID ` set (take k (filter undelivered db))" for k
    using Cons.prems by (auto dest!: in_set_takeD)
  have rest: "mark_ids (insert (odID x) S) db = mark_ids S db" for S
  proof -
    have "odID y \<noteq> odID x" if "y \<in> set db" for y using distinct_head_key [OF Cons.prems that] .
    then show ?thesis by (simp add: mark_ids_def update_order_def)
  qed
  have IH: "filter undelivered (mark_ids (odID ` set (take k (filter undelivered db))) db) = drop k (filter undelivered db)" for k
    using Cons by simp
  show ?case
  proof (cases "undelivered x")
    case True
    then show ?thesis
    proof (cases n)
      case (Suc k)
      then show ?thesis using True IH [of k] rest by (simp add: mark_ids_Cons)
    qed simp
  next
    case False
    then show ?thesis using IH [of n] out [of n] by (simp add: mark_ids_Cons)
  qed
qed (simp add: mark_ids_def update_order_def)


lemma retry_order_sweep:
  assumes "granter credited g live" and "live w" and "distinct (map odID db)" and "x \<in> set db" and "undelivered x"
    and "\<And>w. live w \<Longrightarrow> fst (g (oRoleID x) (reward_bundle x) (pay_source (odID x)) w) = None"
  shows "\<exists>w'. live w' \<and> retry_order (sweep_env g n) x (db, w) = (None, mark_ids {odID x} db, w')"
proof -
  obtain w' where g: "g (oRoleID x) (reward_bundle x) (pay_source (odID x)) w = (None, w')"
    using assms(6) [OF assms(2)] by (metis prod.collapse)
  have "find_order (odID x) db = Some x" using assms(3,4) by (simp add: find_order_mem)
  then have "retry_order (sweep_env g n) x (db, w) = (None, mark_ids {odID x} db, w')"
    using assms(5) g MarkDelivered_mark_ids [OF assms(3,4)]
    by (simp add: retry_order_def sweep_env_def pay_Get_def undelivered_def deliver_def GrantItems_def Parse_order_reward pay_source_def)
  then show ?thesis using granter.grant_live [OF assms(1,2) g] by blast
qed

lemma retry_loop_sweep:
  assumes "granter credited g live" and "live w" and "distinct (map odID db)" and "distinct (map odID xs)"
    and "set xs \<subseteq> set db" and "\<forall>x \<in> set xs. undelivered x"
    and "\<And>x w. x \<in> set db \<Longrightarrow> live w \<Longrightarrow> fst (g (oRoleID x) (reward_bundle x) (pay_source (odID x)) w) = None"
  shows "\<exists>w'. retry_loop (sweep_env g) xs (ok, fail) (db, w) = ((ok + int (length xs), fail), mark_ids (odID ` set xs) db, w')"
  using assms(2-7)
proof (induction xs arbitrary: db w ok)
  case (Cons x xs)
  have xi: "x \<in> set db" "undelivered x" using Cons.prems(4,5) by auto
  obtain w1 where w1: "live w1" "retry_order (sweep_env g (length xs)) x (db, w) = (None, mark_ids {odID x} db, w1)"
    using retry_order_sweep [OF assms(1) Cons.prems(1,2) xi Cons.prems(6) [OF xi(1)]] by blast
  have other: "y \<in> set (mark_ids {odID x} db)" if "y \<in> set xs" for y
  proof -
    have "y \<in> set db" "odID y \<noteq> odID x" using Cons.prems(4) that distinct_head_key [OF Cons.prems(3) that] by auto
    then show ?thesis by (auto simp: mark_ids_def update_order_def)
  qed
  have "\<exists>w'. retry_loop (sweep_env g) xs (ok + 1, fail) (mark_ids {odID x} db, w1)
      = ((ok + 1 + int (length xs), fail), mark_ids (odID ` set xs) (mark_ids {odID x} db), w')"
  proof (rule Cons.IH [OF w1(1)])
    show "fst (g (oRoleID y) (reward_bundle y) (pay_source (odID y)) w) = None" if y: "y \<in> set (mark_ids {odID x} db)" and l: "live w" for y w
    proof -
      obtain z where "z \<in> set db" "odID y = odID z" "oRoleID y = oRoleID z" "reward_bundle y = reward_bundle z"
        using y by (auto simp: mark_ids_def update_order_def split: if_splits)
      then show ?thesis using Cons.prems(6) [OF _ l] by metis
    qed
  qed (use Cons.prems other in auto)
  then show ?case using w1(2) by (auto simp: algebra_simps)
qed simp



section \<open>A small shop\<close>

definition demo_order :: order where
  "demo_order = \<lparr>odID = ''o1'', oRoleID = 7, oProductID = ''coin_pack'', oAmount = 100, oCurrency = ''CNY'',
     oStatus = OrderStatusPending, oDelivered = False, oTxn = []\<rparr>"

definition demo_notify :: body where
  "demo_notify = Some (JObj [(''order_id'', JStr ''o1''), (''product_id'', JStr ''coin_pack''), (''amount'', JNum 100),
     (''currency'', JStr ''CNY''), (''status'', JNum 1), (''provider_transaction_id'', JStr ''t1'')])"

lemma demo_grant_game: "demo_grant \<in> game_grants"
  unfolding game_grants_def demo_grant_def using demo_env_benign by blast

lemma demo_shop_inv: "pay_inv manager_credited manager_live ([demo_order], market)"
  by (rule pay_invI) (simp_all add: market_live market_no_credit order_ok_def demo_order_def OrderStatusPaid_def OrderStatusPending_def)

lemma demo_reward: "reward_bundle demo_order = \<lparr>bGold = 1000, bItems = []\<rparr>"
  by (simp add: reward_bundle_def order_reward_def reward_of_def productRewards_def demo_order_def Parse_products)

lemma demo_grant_succeeds: "fst (demo_grant 7 \<lparr>bGold = 1000, bItems = []\<rparr> ''pay:o1'' market) = None"
proof -
  have ok: "wire_ok 7 \<lparr>bGold = 1000, bItems = []\<rparr>" "bundle_wf \<lparr>bGold = 1000, bItems = []\<rparr>"
    by (simp_all add: wire_ok_def bundle_wf_def in_i64_def)
  then show ?thesis
    by (simp add: demo_grant_def client_Grant_def baseURLForRole_def demo_client_def game_serve_def withRequestBoundary_def internal_HTTPMiddleware_def SetHTTP_def
        handleGrant_def grant_body_valid grant_body_reads merge_items_def empty_bundle_def Let_def market_simps i64_def i32_def)
qed

lemma demo_MarkPaidVerified:
  "MarkPaidVerified Done ''o1'' ''t1'' ''coin_pack'' ''CNY'' 100 1 [demo_order]
     = (Inr (demo_order\<lparr>oStatus := 1, oTxn := ''t1''\<rparr>, True), [demo_order\<lparr>oStatus := 1, oTxn := ''t1''\<rparr>])"
  by (simp add: MarkPaidVerified_def find_order_def demo_order_def update_order_def OrderStatusPaid_def OrderStatusPending_def)

lemma demo_notify_delivers:
  "\<exists>m'. handleNotify True demo_grant id id Done Done demo_notify ([demo_order], market)
     = (ReplyOK (), [demo_order\<lparr>oStatus := 1, oTxn := ''t1'', oDelivered := True\<rparr>], m')"
proof -
  obtain m' where g: "demo_grant 7 \<lparr>bGold = 1000, bItems = []\<rparr> ''pay:o1'' market = (None, m')"
    using demo_grant_succeeds by (metis prod.collapse)
  have cur: "ToUpper (TrimSpace ''CNY'') = ''CNY''"
    by (simp add: TrimSpace_plain plain_def space_codes_def ToUpper_def upper_ascii_def)
  have rd: "json_valid notify_shape demo_notify" "json_string ''order_id'' demo_notify = ''o1''"
    "json_string ''provider_transaction_id'' demo_notify = ''t1''" "json_int32 ''status'' demo_notify = 1" "json_int64 ''role_id'' demo_notify = 0"
    "json_string ''product_id'' demo_notify = ''coin_pack''" "json_string ''currency'' demo_notify = ''CNY''" "json_int32 ''amount'' demo_notify = 100"
    by (simp_all add: json_valid_def notify_shape_def demo_notify_def json_int64_def json_int32_def json_string_def body_defs in_i32_def)
  let ?x = "demo_order\<lparr>oStatus := 1, oTxn := ''t1''\<rparr>"
  have "oDelivered demo_order = False" "oRoleID demo_order = 7" by (simp_all add: demo_order_def)
  then have n: "handleNotify True demo_grant id id Done Done demo_notify ([demo_order], market)
      = (case deliver demo_grant id Done ?x ''o1'' ([?x], market) of (Some _, s) \<Rightarrow> (Reply 5000, s) | (None, s) \<Rightarrow> (ReplyOK (), s))"
    by (simp add: handleNotify_def rd cur demo_MarkPaidVerified OrderStatusPaid_def)
  show ?thesis unfolding n
    using g by (simp add: deliver_def GrantItems_def demo_order_def OrderStatusPaid_def
        order_reward_def reward_of_def productRewards_def Parse_products MarkDelivered_def update_order_def)
qed

theorem payments_settle_witness:
  "\<exists>m'. (pay_step manager_credited manager_live game_grants)\<^sup>*\<^sup>* ([demo_order], market)
       ([demo_order\<lparr>oStatus := 1, oTxn := ''t1'', oDelivered := True\<rparr>], m') \<and>
     manager_credited m' (7, ''pay:o1'') = Some \<lparr>bGold = 1000, bItems = []\<rparr>"
proof -
  obtain m' where n: "handleNotify True demo_grant id id Done Done demo_notify ([demo_order], market)
     = (ReplyOK (), [demo_order\<lparr>oStatus := 1, oTxn := ''t1'', oDelivered := True\<rparr>], m')" using demo_notify_delivers by blast
  have "pay_rely manager_credited manager_live id" by (simp add: pay_rely_def)
  from pay_step.Notify [OF demo_grant_game this this n]
  have step: "(pay_step manager_credited manager_live game_grants)\<^sup>*\<^sup>* ([demo_order], market)
       ([demo_order\<lparr>oStatus := 1, oTxn := ''t1'', oDelivered := True\<rparr>], m')" by (rule r_into_rtranclp)
  have "reward_bundle (demo_order\<lparr>oStatus := 1, oTxn := ''t1'', oDelivered := True\<rparr>) = \<lparr>bGold = 1000, bItems = []\<rparr>"
    using demo_reward by simp
  then show ?thesis
    using payments_settle [OF demo_shop_inv step] step by (auto simp: demo_order_def pay_source_def)
qed

theorem transaction_pays_one_order_witness:
  "fst (MarkPaidVerified Done ''o1'' ''t1'' ''coin_pack'' ''CNY'' 100 1 [demo_order\<lparr>oStatus := 1, oTxn := ''t1''\<rparr>])
     = Inr (demo_order\<lparr>oStatus := 1, oTxn := ''t1''\<rparr>, False)"
proof -
  let ?x = "demo_order\<lparr>oStatus := 1, oTxn := ''t1''\<rparr>"
  have again: "\<exists>n. MarkPaidVerified Done ''o1'' ''t1'' ''coin_pack'' ''CNY'' 100 1 [?x] = (Inr (?x, n), [?x])"
    by (auto simp: MarkPaidVerified_def find_order_def demo_order_def update_order_def OrderStatusPaid_def)
  then obtain n where n: "MarkPaidVerified Done ''o1'' ''t1'' ''coin_pack'' ''CNY'' 100 1 [?x] = (Inr (?x, n), [?x])" by blast
  from transaction_pays_one_order [OF demo_shop_inv demo_MarkPaidVerified rtranclp.rtrancl_refl n] n show ?thesis by simp
qed

text \<open>A ledger alone is a granter that accepts every reward.\<close>

definition ledger_grant :: "(int \<times> string \<rightharpoonup> grant_bundle) grant_fn" where
  "ledger_grant r b src w = (None, if w (r, src) = None then w((r, src) \<mapsto> b) else w)"

lemma ledger_granter: "granter (\<lambda>w. w) ledger_grant (\<lambda>_. True)"
  by unfold_locales (auto simp: ledger_grant_def split: if_splits)


end
