(* ===== verification/Webhook.thy ===== *)
theory Webhook
  imports Payment
begin

text \<open>
  The guard of the payment callback (\<^verbatim>\<open>pkg/payment/webhook.go\<close>): freshness of the timestamp, the
  signature over timestamp, nonce and body, and a nonce that can be used once. HMAC-SHA256 and SHA-256
  are library code: \<open>hmac\<close> (of a secret and a message, a list of bytes) and \<open>sha\<close> (printed in
  hexadecimal) are parameters. Times are in nanoseconds.
\<close>

section \<open>Hexadecimal\<close>

definition hex_val :: "char \<Rightarrow> nat option" where
  "hex_val c = map_of (zip ''0123456789abcdefABCDEF'' [0, 1, 2, 3, 4, 5, 6, 7, 8, 9, 10, 11, 12, 13, 14, 15, 10, 11, 12, 13, 14, 15]) c"

fun hex_decode :: "string \<Rightarrow> nat list option" where
  "hex_decode [] = Some []"
| "hex_decode [c] = None"
| "hex_decode (a # b # s) =
     (case (hex_val a, hex_val b, hex_decode s) of
        (Some x, Some y, Some bs) \<Rightarrow> Some ((16 * x + y) # bs)
      | _ \<Rightarrow> None)"

lemma less_16_cases:
  "(d :: nat) < 16 \<Longrightarrow> d = 0 \<or> d = 1 \<or> d = 2 \<or> d = 3 \<or> d = 4 \<or> d = 5 \<or> d = 6 \<or> d = 7 \<or> d = 8 \<or> d = 9 \<or>
     d = 10 \<or> d = 11 \<or> d = 12 \<or> d = 13 \<or> d = 14 \<or> d = 15"
  by arith

lemma hex_val_char [simp]: "d < 16 \<Longrightarrow> hex_val (hex_char d) = Some d"
  by (drule less_16_cases) (auto simp: hex_val_def hex_char_def)

lemma hex_decode_encode: "\<forall>b \<in> set bs. b < 256 \<Longrightarrow> hex_decode (hex_encode bs) = Some bs"
  by (induction bs) (auto simp: hex_encode_def)

section \<open>The guard\<close>

definition sign_message :: "string \<Rightarrow> string \<Rightarrow> string \<Rightarrow> string" where
  "sign_message timestamp nonce body = timestamp @ [CHR 0x0A] @ nonce @ [CHR 0x0A] @ body"

definition Sign :: "(string \<Rightarrow> string \<Rightarrow> nat list) \<Rightarrow> string \<Rightarrow> string \<Rightarrow> string \<Rightarrow> string \<Rightarrow> string" where
  "Sign hmac secret timestamp nonce body = hex_encode (hmac secret (sign_message timestamp nonce body))"

record webhook_req =
  wTimestamp :: string
  wNonce :: string
  wSignature :: string
  wBody :: string
  wReadOK :: bool

text \<open>\<^verbatim>\<open>time.Since\<close> saturates at the ends of the 64-bit range.\<close>

definition since :: "int \<Rightarrow> int \<Rightarrow> int" where
  "since now unix = max (- (2 ^ 63)) (min (2 ^ 63 - 1) (now - unix * 1000000000))"

definition replayKey :: "(string \<Rightarrow> string) \<Rightarrow> string \<Rightarrow> string" where
  "replayKey sha nonce = ''ng:pay:{webhook}:nonce:'' @ sha nonce"

definition effective_skew :: "int \<Rightarrow> int" where
  "effective_skew maxSkew = (if maxSkew \<le> 0 then 300 * 1000000000 else maxSkew)"

definition VerifyWebhook :: "(string \<Rightarrow> string \<Rightarrow> nat list) \<Rightarrow> (string \<Rightarrow> string) \<Rightarrow> string \<Rightarrow> int \<Rightarrow> outcome \<Rightarrow> int \<Rightarrow> webhook_req
    \<Rightarrow> (string \<Rightarrow> 's \<Rightarrow> 'a reply \<times> 's) \<Rightarrow> string redis option \<times> 's \<Rightarrow> 'a reply \<times> string redis option \<times> 's" where
  "VerifyWebhook hmac sha secret maxSkew oc now req next st =
     (let (rdb, s) = st; timestamp = TrimSpace (wTimestamp req); nonce = TrimSpace (wNonce req);
          signature = TrimSpace (wSignature req); skew = effective_skew maxSkew in
      if secret = [] then (HttpError 503, st)
      else if 20 < length timestamp \<or> nonce = [] \<or> 128 < length nonce \<or> length signature \<noteq> 64 then (HttpError 401, st)
      else case ParseInt 64 timestamp of
        (unix, Some _) \<Rightarrow> (HttpError 401, st)
      | (unix, None) \<Rightarrow>
          if since now unix < - skew \<or> skew < since now unix then (HttpError 401, st)
          else if \<not> wReadOK req then (HttpError 400, st)
          else let body = take (2 ^ 20) (wBody req) in
            case hex_decode (Sign hmac secret timestamp nonce body) of
              None \<Rightarrow> (HttpError 401, st)
            | Some expected \<Rightarrow>
                if hex_decode signature \<noteq> Some expected then (HttpError 401, st)
                else case rdb of
                  None \<Rightarrow> (HttpError 503, st)
                | Some r \<Rightarrow>
                    let (ok, r) = store_call oc r (map_prod Inr id (redis_SETNX now (replayKey sha nonce) timestamp (Some (ttl_ms (i64 (2 * skew)))) r))
                    in case ok of
                         Inl _ \<Rightarrow> (HttpError 503, Some r, s)
                       | Inr False \<Rightarrow> (HttpError 409, Some r, s)
                       | Inr True \<Rightarrow> (let (a, s) = next body s in (a, Some r, s)))"


section \<open>What is signed\<close>

text \<open>Timestamp and nonce cannot run into each other or into the body as long as they hold no newline.\<close>

lemma sign_message_inj:
  assumes "sign_message t n b = sign_message t' n' b'"
    and "CHR 0x0A \<notin> set t" and "CHR 0x0A \<notin> set n" and "CHR 0x0A \<notin> set t'" and "CHR 0x0A \<notin> set n'"
  shows "t = t' \<and> n = n' \<and> b = b'"
proof -
  have split: "xs = xs' \<and> ys = ys'" if "xs @ c # ys = xs' @ c # ys'" "c \<notin> set xs" "c \<notin> set xs'" for xs xs' ys ys' and c :: char
    using that
  proof (induction xs arbitrary: xs')
    case Nil
    then show ?case by (cases xs') auto
  next
    case (Cons x xs)
    then show ?case by (cases xs') auto
  qed
  from assms(1) have e: "t @ CHR 0x0A # (n @ CHR 0x0A # b) = t' @ CHR 0x0A # (n' @ CHR 0x0A # b')" by (simp add: sign_message_def)
  from split [OF e assms(2,4)] split [of n "CHR 0x0A" b n' b'] assms(3,5) show ?thesis by blast
qed

section \<open>Histories of callbacks\<close>

text \<open>A callback as the service meets it: the time, the request and the outcome of the Redis call.\<close>

record callback =
  cbNow :: int
  cbReq :: webhook_req
  cbOc :: outcome

text \<open>The guard alone, with a handler that records that it got and with which body.\<close>

definition admit :: "(string \<Rightarrow> string \<Rightarrow> nat list) \<Rightarrow> (string \<Rightarrow> string) \<Rightarrow> string \<Rightarrow> int \<Rightarrow> callback \<Rightarrow> string redis \<Rightarrow> string option \<times> string redis" where
  "admit hmac sha secret maxSkew cb r =
     (let (_, rdb, got) = VerifyWebhook hmac sha secret maxSkew (cbOc cb) (cbNow cb) (cbReq cb) (\<lambda>body _. (ReplyOK (), Some body)) (Some r, None)
      in (got, case rdb of None \<Rightarrow> r | Some r \<Rightarrow> r))"

definition callbacks :: "(string \<Rightarrow> string \<Rightarrow> nat list) \<Rightarrow> (string \<Rightarrow> string) \<Rightarrow> string \<Rightarrow> int \<Rightarrow> callback list \<Rightarrow> string redis \<Rightarrow> string redis" where
  "callbacks hmac sha secret maxSkew cbs r = foldl (\<lambda>r cb. snd (admit hmac sha secret maxSkew cb r)) r cbs"

definition nonce_key :: "(string \<Rightarrow> string) \<Rightarrow> callback \<Rightarrow> string" where
  "nonce_key sha cb = replayKey sha (TrimSpace (wNonce (cbReq cb)))"

definition nonce_ttl :: "int \<Rightarrow> int" where
  "nonce_ttl maxSkew = ttl_ms (i64 (2 * effective_skew maxSkew))"

text \<open>Either the guard leaves Redis alone and refuses, or all checks passed and the nonce decides.\<close>

lemma admit_cases:
  assumes "admit hmac sha secret maxSkew cb r = (got, r')"
  obtains (refused) "got = None" "r' = r"
    | (checked) unix where "ParseInt 64 (TrimSpace (wTimestamp (cbReq cb))) = (unix, None)"
        "- effective_skew maxSkew \<le> since (cbNow cb) unix" "since (cbNow cb) unix \<le> effective_skew maxSkew"
        "hex_decode (TrimSpace (wSignature (cbReq cb))) = hex_decode (Sign hmac secret (TrimSpace (wTimestamp (cbReq cb))) (TrimSpace (wNonce (cbReq cb))) (take (2 ^ 20) (wBody (cbReq cb))))"
        "r' = (if cbOc cb = Failed then r else snd (redis_SETNX (cbNow cb) (nonce_key sha cb) (TrimSpace (wTimestamp (cbReq cb))) (Some (nonce_ttl maxSkew)) r))"
        "got = (if cbOc cb = Done \<and> fst (redis_SETNX (cbNow cb) (nonce_key sha cb) (TrimSpace (wTimestamp (cbReq cb))) (Some (nonce_ttl maxSkew)) r)
                then Some (take (2 ^ 20) (wBody (cbReq cb))) else None)"
proof -
  let ?ts = "TrimSpace (wTimestamp (cbReq cb))"
  obtain unix pe where p: "ParseInt 64 ?ts = (unix, pe)" by fastforce
  obtain ok r1 where sx: "redis_SETNX (cbNow cb) (nonce_key sha cb) ?ts (Some (nonce_ttl maxSkew)) r = (ok, r1)" by fastforce
  show thesis
    using assms that p sx
    unfolding admit_def VerifyWebhook_def Let_def nonce_key_def nonce_ttl_def
    by (cases "cbOc cb"; cases pe; cases ok) (auto split: if_splits option.splits)
qed


text \<open>The skew is a positive whole number of milliseconds (the configuration gives seconds) and doubling it does not overflow.\<close>

definition skew_ok :: "int \<Rightarrow> bool" where
  "skew_ok maxSkew \<longleftrightarrow> effective_skew maxSkew mod 1000000 = 0 \<and> 2 * effective_skew maxSkew < 2 ^ 63"

lemma effective_skew_pos: "0 < effective_skew maxSkew"
  by (simp add: effective_skew_def)

lemma nonce_ttl_eq:
  assumes "skew_ok maxSkew"
  shows "2 * effective_skew maxSkew = 1000000 * nonce_ttl maxSkew"
proof -
  let ?s = "effective_skew maxSkew"
  have "i64 (2 * ?s) = 2 * ?s" using assms effective_skew_pos [of maxSkew] by (intro i64_id) (simp add: in_i64_def skew_ok_def)
  moreover obtain q where q: "?s = 1000000 * q" using assms by (auto simp: skew_ok_def mod_eq_0_iff_dvd dvd_def)
  moreover have "0 < q" using q effective_skew_pos [of maxSkew] by simp
  moreover have "1000000 * q * 2 div 1000000 = q * 2" by simp
  ultimately show ?thesis by (simp add: nonce_ttl_def ttl_ms_def millis_def mult.commute)
qed

lemma since_exact:
  assumes "skew_ok maxSkew" and "- effective_skew maxSkew \<le> since now unix" and "since now unix \<le> effective_skew maxSkew"
  shows "since now unix = now - unix * 1000000000"
  using assms by (auto simp: since_def skew_ok_def min_def max_def split: if_splits)

lemma admit_keeps_nonce:
  assumes "r k = Some (v, Some w)" and "millis (cbNow cb) \<le> w"
  shows "snd (admit hmac sha secret maxSkew cb r) k = Some (v, Some w)"
proof -
  obtain got r' where a: "admit hmac sha secret maxSkew cb r = (got, r')" by fastforce
  then show ?thesis
  proof (cases rule: admit_cases)
    case refused
    then show ?thesis using assms a by simp
  next
    case (checked unix)
    then show ?thesis using assms a by (auto simp: redis_SETNX_def redis_SET_def redis_GET_def)
  qed
qed

lemma callbacks_keep_nonce:
  assumes "r k = Some (v, Some w)" and "\<forall>cb \<in> set cbs. millis (cbNow cb) \<le> w"
  shows "callbacks hmac sha secret maxSkew cbs r k = Some (v, Some w)"
  using assms by (induction cbs arbitrary: r) (auto simp: callbacks_def admit_keeps_nonce)

text \<open>
  C18. A payment callback is authentic, fresh and runs at most once. A callback that reaches the
  handler carries the provider's signature over exactly the timestamp, the nonce and the body that the
  handler sees, and its timestamp is within the permitted skew of the service's clock. After that, no
  later callback with the same timestamp and nonce reaches the handler, however long one waits and
  whatever other callbacks arrive in between: while the timestamp is fresh the nonce is remembered,
  and when the nonce is forgotten the timestamp is stale.
\<close>

theorem webhook_no_replay:
  assumes hmac_bytes: "\<And>k msg b. b \<in> set (hmac k msg) \<Longrightarrow> b < 256"
    and "skew_ok maxSkew" and "admit hmac sha secret maxSkew cb r = (Some body, r1)"
    and "sorted (map cbNow (cb # cbs @ [cb']))"
    and "TrimSpace (wNonce (cbReq cb')) = TrimSpace (wNonce (cbReq cb))"
    and "TrimSpace (wTimestamp (cbReq cb')) = TrimSpace (wTimestamp (cbReq cb))"
  shows "(\<exists>unix. ParseInt 64 (TrimSpace (wTimestamp (cbReq cb))) = (unix, None) \<and> \<bar>cbNow cb - unix * 1000000000\<bar> \<le> effective_skew maxSkew) \<and>
    hex_decode (TrimSpace (wSignature (cbReq cb))) = Some (hmac secret (sign_message (TrimSpace (wTimestamp (cbReq cb))) (TrimSpace (wNonce (cbReq cb))) body)) \<and>
    fst (admit hmac sha secret maxSkew cb' (callbacks hmac sha secret maxSkew cbs r1)) = None"
  using assms(3)
proof (cases rule: admit_cases)
  case (checked unix)
  let ?w = "millis (cbNow cb) + nonce_ttl maxSkew"
  have body: "body = take (2 ^ 20) (wBody (cbReq cb))" using checked(6) by (simp split: if_splits)
  have sig: "hex_decode (TrimSpace (wSignature (cbReq cb))) = Some (hmac secret (sign_message (TrimSpace (wTimestamp (cbReq cb))) (TrimSpace (wNonce (cbReq cb))) body))"
    using checked(4) hex_decode_encode hmac_bytes by (simp add: Sign_def body)
  note exact1 = since_exact [OF assms(2) checked(2,3)]
  have entry: "\<exists>v. r1 (nonce_key sha cb) = Some (v, Some ?w)"
    using checked(5,6) by (auto simp: redis_SETNX_def redis_SET_def split: if_splits)
  have "fst (admit hmac sha secret maxSkew cb' (callbacks hmac sha secret maxSkew cbs r1)) = None"
  proof -
    obtain got r2 where a: "admit hmac sha secret maxSkew cb' (callbacks hmac sha secret maxSkew cbs r1) = (got, r2)" by fastforce
    then show ?thesis
    proof (cases rule: admit_cases)
      case refused
      then show ?thesis using a by simp
    next
      case c2: (checked unix')
      have "unix' = unix" using c2(1) checked(1) assms(6) by simp
      then have "cbNow cb' \<le> cbNow cb + 2 * effective_skew maxSkew"
        using since_exact [OF assms(2) c2(2,3)] exact1 checked(2) c2(3) by simp
      then have late: "millis (cbNow cb') \<le> ?w"
        using nonce_ttl_eq [OF assms(2)] millis_mono [of "cbNow cb'" "cbNow cb + 1000000 * nonce_ttl maxSkew"] by (simp add: millis_add)
      have "\<forall>x \<in> set cbs. millis (cbNow x) \<le> ?w"
        using assms(4) late by (auto simp: sorted_append intro: order_trans [OF millis_mono])
      with entry callbacks_keep_nonce obtain v where "callbacks hmac sha secret maxSkew cbs r1 (nonce_key sha cb) = Some (v, Some ?w)" by blast
      moreover have "nonce_key sha cb' = nonce_key sha cb" using assms(5) by (simp add: nonce_key_def)
      ultimately show ?thesis using a c2(6) late by (simp add: redis_SETNX_def redis_GET_def)
    qed
  qed
  then show ?thesis using checked(1-3) exact1 sig by auto
qed simp

definition demo_hmac :: "string \<Rightarrow> string \<Rightarrow> nat list" where
  "demo_hmac secret msg = replicate 32 7"

definition demo_callback :: "int \<Rightarrow> callback" where
  "demo_callback t = \<lparr>cbNow = t, cbReq = \<lparr>wTimestamp = ''0'', wNonce = ''n1'', wSignature = hex_encode (replicate 32 7), wBody = ''x'', wReadOK = True\<rparr>, cbOc = Done\<rparr>"

lemma demo_trim: "TrimSpace ''0'' = ''0''" "TrimSpace ''n1'' = ''n1''" "TrimSpace (hex_encode (replicate 32 7)) = hex_encode (replicate 32 7)"
  by (simp_all add: TrimSpace_plain plain_def space_codes_def hex_encode_def hex_char_def)

lemma demo_admit: "fst (admit demo_hmac id ''k'' 0 (demo_callback 1) Map.empty) = Some ''x''"
proof -
  have d: "hex_decode (hex_encode (replicate 32 7)) = Some (replicate 32 7)" by (rule hex_decode_encode) simp
  have l: "length (hex_encode (replicate 32 7)) = 64" by (simp add: hex_encode_def length_concat sum_list_replicate)
  show ?thesis
    by (simp add: admit_def VerifyWebhook_def demo_callback_def demo_trim Sign_def demo_hmac_def d l ParseInt_def parse_magnitude_def digit_val_def
        since_def effective_skew_def redis_SETNX_def redis_GET_def)
qed

theorem webhook_no_replay_witness:
  "fst (admit demo_hmac id ''k'' 0 (demo_callback 700000000000) (callbacks demo_hmac id ''k'' 0 [demo_callback 5] (snd (admit demo_hmac id ''k'' 0 (demo_callback 1) Map.empty)))) = None"
proof -
  have a: "admit demo_hmac id ''k'' 0 (demo_callback 1) Map.empty = (Some ''x'', snd (admit demo_hmac id ''k'' 0 (demo_callback 1) Map.empty))"
    using demo_admit by (metis prod.collapse)
  have hb: "\<And>k msg b. b \<in> set (demo_hmac k msg) \<Longrightarrow> b < 256" by (simp add: demo_hmac_def)
  have sk: "skew_ok 0" by (simp add: skew_ok_def effective_skew_def)
  show ?thesis
    using webhook_no_replay [OF hb sk a, where cbs = "[demo_callback 5]" and cb' = "demo_callback 700000000000"] by (simp add: demo_callback_def)
qed

end
