(* ===== verification/Mail_Service.thy ===== *)
theory Mail_Service
  imports Game_Client
begin

text \<open>
  Mail: the tables \<open>mails\<close> and \<open>event_inbox\<close> (\<^verbatim>\<open>pkg/repo/mail.go\<close>) and the mail service
  (\<^verbatim>\<open>services/mail/internal/server.go\<close>), which keeps its mails in memory when it has no database. A mail's
  attachment is a reward string; claiming it grants it to the recipient under the source \<open>mail:<id>\<close>.
  Rows are in id order; the creation time is left out (nothing reads it). Handlers that make several calls
  take what happens between two calls as functions on the world. The push to a recipient who is
  online is the second component of what a store operation returns.
\<close>

section \<open>The tables\<close>

record mail =
  mlID :: int
  mlRoleID :: int
  mlTitle :: string
  mlContent :: string
  mlItems :: string
  mlRead :: bool
  mlClaimed :: bool

record mail_db =
  mails :: "mail list"
  mail_seq :: int
  inbox :: "string set"

definition insert_mail :: "mail \<Rightarrow> mail_db \<Rightarrow> mail_db" where
  "insert_mail m db = db\<lparr>mails := mails db @ [m\<lparr>mlID := mail_seq db, mlRead := False, mlClaimed := False\<rparr>], mail_seq := mail_seq db + 1\<rparr>"

definition InsertEvent :: "outcome \<Rightarrow> string \<Rightarrow> mail \<Rightarrow> mail_db \<Rightarrow> bool res \<times> mail_db" where
  "InsertEvent oc eventID m db = store_call oc db
     (if eventID \<in> inbox db then (Inr False, db)
      else (Inr True, (insert_mail m db)\<lparr>inbox := insert eventID (inbox db)\<rparr>))"

definition mail_Insert :: "outcome \<Rightarrow> mail \<Rightarrow> mail_db \<Rightarrow> unit res \<times> mail_db" where
  "mail_Insert oc m db = store_call oc db (Inr (), insert_mail m db)"

definition mail_List :: "outcome \<Rightarrow> int \<Rightarrow> int \<Rightarrow> mail_db \<Rightarrow> mail list res" where
  "mail_List oc roleID limit db =
     (if oc \<noteq> Done then Inl ErrStore
      else let limit = (if limit \<le> 0 then 50 else limit)
           in Inr (take (nat limit) (rev (filter (\<lambda>m. mlRoleID m = roleID) (mails db)))))"

definition mail_Get :: "outcome \<Rightarrow> int \<Rightarrow> int \<Rightarrow> mail_db \<Rightarrow> mail res" where
  "mail_Get oc mailID roleID db =
     (if oc \<noteq> Done then Inl ErrStore
      else case find (\<lambda>m. mlID m = mailID \<and> mlRoleID m = roleID) (mails db) of None \<Rightarrow> Inl ErrNoRows | Some m \<Rightarrow> Inr m)"

definition ListUnclaimed :: "outcome \<Rightarrow> int \<Rightarrow> int \<Rightarrow> mail_db \<Rightarrow> mail list res" where
  "ListUnclaimed oc roleID limit db =
     (if oc \<noteq> Done then Inl ErrStore
      else let limit = (if limit \<le> 0 then 50 else limit)
           in Inr (take (nat limit) (filter (\<lambda>m. mlRoleID m = roleID \<and> \<not> mlClaimed m \<and> mlItems m \<noteq> []) (mails db))))"

definition update_mails :: "(mail \<Rightarrow> bool) \<Rightarrow> (mail \<Rightarrow> mail) \<Rightarrow> mail_db \<Rightarrow> mail_db" where
  "update_mails c f db = db\<lparr>mails := map (\<lambda>m. if c m then f m else m) (mails db)\<rparr>"

definition set_claimed :: "mail \<Rightarrow> mail" where "set_claimed m = m\<lparr>mlClaimed := True\<rparr>"
definition set_read :: "mail \<Rightarrow> mail" where "set_read m = m\<lparr>mlRead := True\<rparr>"

definition MarkClaimedBatch :: "outcome \<Rightarrow> int list \<Rightarrow> mail_db \<Rightarrow> unit res \<times> mail_db" where
  "MarkClaimedBatch oc ids db =
     (if ids = [] then (Inr (), db)
      else store_call oc db (Inr (), update_mails (\<lambda>m. mlID m \<in> set ids) set_claimed db))"

definition MarkClaimed :: "outcome \<Rightarrow> int \<Rightarrow> mail_db \<Rightarrow> unit res \<times> mail_db" where
  "MarkClaimed oc mailID db = store_call oc db (Inr (), update_mails (\<lambda>m. mlID m = mailID) set_claimed db)"

definition MarkRead :: "outcome \<Rightarrow> int \<Rightarrow> int \<Rightarrow> mail_db \<Rightarrow> unit res \<times> mail_db" where
  "MarkRead oc mailID roleID db = store_call oc db (Inr (), update_mails (\<lambda>m. mlID m = mailID \<and> mlRoleID m = roleID) set_read db)"

definition MarkReadAll :: "outcome \<Rightarrow> int \<Rightarrow> mail_db \<Rightarrow> int res \<times> mail_db" where
  "MarkReadAll oc roleID db =
     (let c = (\<lambda>m. mlRoleID m = roleID \<and> \<not> mlRead m)
      in store_call oc db (Inr (int (length (filter c (mails db)))), update_mails c set_read db))"

definition count_mails :: "(mail \<Rightarrow> bool) \<Rightarrow> mail list \<Rightarrow> int" where
  "count_mails c ms = int (length (filter c ms))"

definition CountUnreadUnclaimed :: "outcome \<Rightarrow> int \<Rightarrow> mail_db \<Rightarrow> (int \<times> int) res" where
  "CountUnreadUnclaimed oc roleID db =
     (if oc \<noteq> Done then Inl ErrStore
      else Inr (count_mails (\<lambda>m. mlRoleID m = roleID \<and> \<not> mlRead m) (mails db),
                count_mails (\<lambda>m. mlRoleID m = roleID \<and> \<not> mlClaimed m \<and> mlItems m \<noteq> []) (mails db)))"

section \<open>The service\<close>

record mail_srv =
  sMail :: "mail_db option"
  sMem :: "int \<Rightarrow> mail list"
  sNextMemID :: int

record mail_req =
  mrRoleID :: int
  mrTitle :: string
  mrContent :: string
  mrItems :: string

definition mail_of :: "mail_req \<Rightarrow> mail" where
  "mail_of q = \<lparr>mlID = 0, mlRoleID = mrRoleID q, mlTitle = mrTitle q, mlContent = mrContent q, mlItems = mrItems q, mlRead = False, mlClaimed = False\<rparr>"

type_synonym push = "(int \<times> string) option"

definition mail_store :: "outcome \<Rightarrow> mail_req \<Rightarrow> mail_srv \<Rightarrow> (unit res \<times> push) \<times> mail_srv" where
  "mail_store oc q s =
     (case sMail s of
        Some db \<Rightarrow>
          (case mail_Insert oc (mail_of q) db of
             (Inl e, db) \<Rightarrow> ((Inl e, None), s\<lparr>sMail := Some db\<rparr>)
           | (Inr _, db) \<Rightarrow> ((Inr (), Some (mrRoleID q, mrTitle q)), s\<lparr>sMail := Some db\<rparr>))
      | None \<Rightarrow>
          let i = i64 (sNextMemID s + 1)
          in ((Inr (), Some (mrRoleID q, mrTitle q)),
              s\<lparr>sNextMemID := i, sMem := (sMem s)(mrRoleID q := sMem s (mrRoleID q) @ [(mail_of q)\<lparr>mlID := i\<rparr>])\<rparr>))"

definition storeEvent :: "outcome \<Rightarrow> string \<Rightarrow> mail_req \<Rightarrow> mail_srv \<Rightarrow> (unit res \<times> push) \<times> mail_srv" where
  "storeEvent oc eventID q s =
     (case sMail s of
        None \<Rightarrow> mail_store oc q s
      | Some db \<Rightarrow>
          (case InsertEvent oc eventID (mail_of q) db of
             (Inl e, db) \<Rightarrow> ((Inl e, None), s\<lparr>sMail := Some db\<rparr>)
           | (Inr inserted, db) \<Rightarrow> ((Inr (), if inserted then Some (mrRoleID q, mrTitle q) else None), s\<lparr>sMail := Some db\<rparr>)))"

definition getMail :: "outcome \<Rightarrow> int \<Rightarrow> int \<Rightarrow> mail_srv \<Rightarrow> mail res" where
  "getMail oc mailID roleID s =
     (case sMail s of
        Some db \<Rightarrow> mail_Get oc mailID roleID db
      | None \<Rightarrow> (case find (\<lambda>m. mlID m = mailID) (sMem s roleID) of None \<Rightarrow> Inl (ErrMsg ''not found'') | Some m \<Rightarrow> Inr m))"

text \<open>The loop that sets a flag on the first mail with an id in a list.\<close>

fun flag_first :: "(mail \<Rightarrow> mail) \<Rightarrow> int \<Rightarrow> mail list \<Rightarrow> mail list option" where
  "flag_first f i [] = None"
| "flag_first f i (m # ms) = (if mlID m = i then Some (f m # ms) else map_option ((#) m) (flag_first f i ms))"

definition mem_flag :: "(mail \<Rightarrow> mail) \<Rightarrow> int \<Rightarrow> int \<Rightarrow> mail_srv \<Rightarrow> unit res \<times> mail_srv" where
  "mem_flag f mailID roleID s =
     (case flag_first f mailID (sMem s roleID) of
        None \<Rightarrow> (Inl (ErrMsg ''not found''), s)
      | Some ms \<Rightarrow> (Inr (), s\<lparr>sMem := (sMem s)(roleID := ms)\<rparr>))"

definition on_mail_db :: "(mail_db \<Rightarrow> 'a \<times> mail_db) \<Rightarrow> mail_db \<Rightarrow> mail_srv \<Rightarrow> 'a \<times> mail_srv" where
  "on_mail_db f db s = (let (r, db) = f db in (r, s\<lparr>sMail := Some db\<rparr>))"

definition markClaimed :: "outcome \<Rightarrow> int \<Rightarrow> int \<Rightarrow> mail_srv \<Rightarrow> unit res \<times> mail_srv" where
  "markClaimed oc mailID roleID s =
     (case sMail s of Some db \<Rightarrow> on_mail_db (MarkClaimed oc mailID) db s | None \<Rightarrow> mem_flag set_claimed mailID roleID s)"

definition markRead :: "outcome \<Rightarrow> int \<Rightarrow> int \<Rightarrow> mail_srv \<Rightarrow> unit res \<times> mail_srv" where
  "markRead oc mailID roleID s =
     (case sMail s of Some db \<Rightarrow> on_mail_db (MarkRead oc mailID roleID) db s | None \<Rightarrow> mem_flag set_read mailID roleID s)"

definition markReadAll :: "outcome \<Rightarrow> int \<Rightarrow> mail_srv \<Rightarrow> int res \<times> mail_srv" where
  "markReadAll oc roleID s =
     (case sMail s of
        Some db \<Rightarrow> on_mail_db (MarkReadAll oc roleID) db s
      | None \<Rightarrow> (Inr (count_mails (\<lambda>m. \<not> mlRead m) (sMem s roleID)), s\<lparr>sMem := (sMem s)(roleID := map set_read (sMem s roleID))\<rparr>))"

definition countUnread :: "outcome \<Rightarrow> int \<Rightarrow> mail_srv \<Rightarrow> (int \<times> int) res" where
  "countUnread oc roleID s =
     (case sMail s of
        Some db \<Rightarrow> CountUnreadUnclaimed oc roleID db
      | None \<Rightarrow> Inr (count_mails (\<lambda>m. \<not> mlRead m) (sMem s roleID), count_mails (\<lambda>m. \<not> mlClaimed m \<and> mlItems m \<noteq> []) (sMem s roleID)))"

type_synonym 'w mail_world = "mail_srv \<times> 'w"
type_synonym 'w mail_granter = "int \<Rightarrow> grant_bundle \<Rightarrow> string \<Rightarrow> 'w \<Rightarrow> err option \<times> 'w"

definition mail_source :: "int \<Rightarrow> string" where
  "mail_source i = ''mail:'' @ FormatInt i"

text \<open>The loop of \<open>claimAll\<close> over the rows read from the database: the ids to mark, and the two counts.\<close>

fun claim_rows :: "(nat \<Rightarrow> 'w mail_granter) \<Rightarrow> int \<Rightarrow> mail list \<Rightarrow> 'w \<Rightarrow> (int list \<times> int \<times> int) \<times> 'w" where
  "claim_rows g roleID [] w = (([], 0, 0), w)"
| "claim_rows g roleID (m # ms) w =
     (if mlItems m = [] then
        let ((ids, c, f), w) = claim_rows g roleID ms w in ((mlID m # ids, c, f), w)
      else case GrantItems (g (length ms)) roleID (mlItems m) (mail_source (mlID m)) w of
        (Some _, w) \<Rightarrow> (let ((ids, c, f), w) = claim_rows g roleID ms w in ((ids, c, f + 1), w))
      | (None, w) \<Rightarrow> (let ((ids, c, f), w) = claim_rows g roleID ms w in ((mlID m # ids, c + 1, f), w)))"

text \<open>The same loop over the list in memory, which it marks as it goes.\<close>

fun claim_mem :: "(nat \<Rightarrow> 'w mail_granter) \<Rightarrow> int \<Rightarrow> mail list \<Rightarrow> 'w \<Rightarrow> (mail list \<times> int \<times> int) \<times> 'w" where
  "claim_mem g roleID [] w = (([], 0, 0), w)"
| "claim_mem g roleID (m # ms) w =
     (if mlClaimed m \<or> mlItems m = [] then
        let ((ms', c, f), w) = claim_mem g roleID ms w in ((m # ms', c, f), w)
      else case GrantItems (g (length ms)) roleID (mlItems m) (mail_source (mlID m)) w of
        (Some _, w) \<Rightarrow> (let ((ms', c, f), w) = claim_mem g roleID ms w in ((m # ms', c, f + 1), w))
      | (None, w) \<Rightarrow> (let ((ms', c, f), w) = claim_mem g roleID ms w in ((set_claimed m # ms', c + 1, f), w)))"

definition claimAll :: "(nat \<Rightarrow> 'w mail_granter) \<Rightarrow> ('w mail_world \<Rightarrow> 'w mail_world) \<Rightarrow> outcome \<Rightarrow> outcome \<Rightarrow> int
    \<Rightarrow> 'w mail_world \<Rightarrow> (int \<times> int) res \<times> 'w mail_world" where
  "claimAll g between oc1 oc2 roleID st =
     (let (s, w) = st in
      case sMail s of
        Some db \<Rightarrow>
          (case ListUnclaimed oc1 roleID 50 db of
             Inl e \<Rightarrow> (Inl e, s, w)
           | Inr ms \<Rightarrow>
               let ((ids, claimed, failed), w) = claim_rows g roleID ms w in
               if ids = [] then (Inr (claimed, failed), s, w)
               else
                 let (s, w) = between (s, w) in
                 case sMail s of
                   None \<Rightarrow> (Inr (claimed, failed), s, w)
                 | Some db \<Rightarrow>
                     (case on_mail_db (MarkClaimedBatch oc2 ids) db s of
                        (Inl e, s) \<Rightarrow> (Inl e, s, w)
                      | (Inr _, s) \<Rightarrow> (Inr (claimed, failed), s, w)))
      | None \<Rightarrow>
          let ((ms, claimed, failed), w) = claim_mem g roleID (sMem s roleID) w
          in (Inr (claimed, failed), s\<lparr>sMem := (sMem s)(roleID := ms)\<rparr>, w))"

section \<open>The handlers\<close>

definition send_shape :: "(string \<times> json) list" where
  "send_shape = [(''role_id'', JNum 64), (''title'', JStr []), (''content'', JStr []), (''items'', JStr [])]"

definition decode_send :: "body \<Rightarrow> mail_req" where
  "decode_send p = \<lparr>mrRoleID = json_int64 ''role_id'' p, mrTitle = json_string ''title'' p,
     mrContent = json_string ''content'' p, mrItems = json_string ''items'' p\<rparr>"

definition handleSend :: "outcome \<Rightarrow> body \<Rightarrow> mail_srv \<Rightarrow> (unit reply \<times> push) \<times> mail_srv" where
  "handleSend oc p s =
     (if \<not> json_valid send_shape p then ((Reply 1001, None), s)
      else case mail_store oc (decode_send p) s of
        ((Inl _, pu), s) \<Rightarrow> ((HttpError 500, pu), s)
      | ((Inr _, pu), s) \<Rightarrow> ((ReplyOK (), pu), s))"

definition handleList :: "outcome \<Rightarrow> session_info \<Rightarrow> mail_srv \<Rightarrow> mail list reply" where
  "handleList oc info s =
     (case sMail s of
        Some db \<Rightarrow> (case mail_List oc (siRoleID info) 50 db of Inl _ \<Rightarrow> HttpError 500 | Inr ms \<Rightarrow> ReplyOK ms)
      | None \<Rightarrow> ReplyOK (sMem s (siRoleID info)))"

text \<open>\<open>between1\<close> runs after the mail was read, \<open>between2\<close> after the grant.\<close>

definition handleClaim :: "'w mail_granter \<Rightarrow> ('w mail_world \<Rightarrow> 'w mail_world) \<Rightarrow> ('w mail_world \<Rightarrow> 'w mail_world) \<Rightarrow> outcome \<Rightarrow> outcome
    \<Rightarrow> session_info \<Rightarrow> body \<Rightarrow> 'w mail_world \<Rightarrow> string reply \<times> 'w mail_world" where
  "handleClaim g between1 between2 oc1 oc2 info p st =
     (if \<not> json_valid [(''mail_id'', JNum 64)] p then (Reply 1001, st)
      else let mailID = json_int64 ''mail_id'' p; roleID = siRoleID info in
        case getMail oc1 mailID roleID (fst st) of
          Inl _ \<Rightarrow> (Reply 1003, st)
        | Inr m \<Rightarrow>
            if mlClaimed m then (Reply 1002, st)
            else
              let (s, w) = between1 st;
                  (e, w) = (if mlItems m \<noteq> [] then GrantItems g roleID (mlItems m) (mail_source (mlID m)) w else (None, w))
              in case e of
                   Some _ \<Rightarrow> (Reply 5000, s, w)
                 | None \<Rightarrow>
                     let (s, w) = between2 (s, w) in
                     case markClaimed oc2 mailID roleID s of
                       (Inl _, s) \<Rightarrow> (HttpError 500, s, w)
                     | (Inr _, s) \<Rightarrow> (ReplyOK (mlItems m), s, w))"

definition handleClaimAll :: "(nat \<Rightarrow> 'w mail_granter) \<Rightarrow> ('w mail_world \<Rightarrow> 'w mail_world) \<Rightarrow> outcome \<Rightarrow> outcome \<Rightarrow> session_info
    \<Rightarrow> 'w mail_world \<Rightarrow> (int \<times> int) reply \<times> 'w mail_world" where
  "handleClaimAll g between oc1 oc2 info st =
     (case claimAll g between oc1 oc2 (siRoleID info) st of
        (Inl _, st) \<Rightarrow> (HttpError 500, st)
      | (Inr n, st) \<Rightarrow> (ReplyOK n, st))"

definition handleRead :: "outcome \<Rightarrow> session_info \<Rightarrow> body \<Rightarrow> mail_srv \<Rightarrow> unit reply \<times> mail_srv" where
  "handleRead oc info p s =
     (if \<not> json_valid [(''mail_id'', JNum 64)] p then (Reply 1001, s)
      else case markRead oc (json_int64 ''mail_id'' p) (siRoleID info) s of
        (Inl _, s) \<Rightarrow> (Reply 1003, s)
      | (Inr _, s) \<Rightarrow> (ReplyOK (), s))"

definition handleReadAll :: "outcome \<Rightarrow> session_info \<Rightarrow> mail_srv \<Rightarrow> int reply \<times> mail_srv" where
  "handleReadAll oc info s =
     (case markReadAll oc (siRoleID info) s of
        (Inl _, s) \<Rightarrow> (HttpError 500, s)
      | (Inr n, s) \<Rightarrow> (ReplyOK n, s))"

definition handleUnread :: "outcome \<Rightarrow> session_info \<Rightarrow> mail_srv \<Rightarrow> (int \<times> int) reply" where
  "handleUnread oc info s =
     (case countUnread oc (siRoleID info) s of Inl _ \<Rightarrow> HttpError 500 | Inr n \<Rightarrow> ReplyOK n)"


section \<open>The invariant of the mail system\<close>

text \<open>
  With a database: a claimed mail with an attachment has its reward in the ledger, and a ledger
  entry under a mail source belongs to the recipient of that mail and holds its attachment.
\<close>

definition claim_ok :: "('w \<Rightarrow> int \<times> string \<Rightarrow> grant_bundle option) \<Rightarrow> 'w \<Rightarrow> mail \<Rightarrow> bool" where
  "claim_ok credited w m \<longleftrightarrow>
     (mlItems m \<noteq> [] \<longrightarrow> (\<exists>b. Parse (mlItems m) = Inr b \<and> credited w (mlRoleID m, mail_source (mlID m)) = Some b))"

definition mail_backs :: "mail list \<Rightarrow> int \<Rightarrow> int \<Rightarrow> grant_bundle \<Rightarrow> bool" where
  "mail_backs xs r i c \<longleftrightarrow> (\<exists>m \<in> set xs. mlID m = i \<and> mlRoleID m = r \<and> Parse (mlItems m) = Inr c)"

definition ids_ok :: "mail_db \<Rightarrow> bool" where
  "ids_ok db \<longleftrightarrow> distinct (map mlID (mails db)) \<and> (\<forall>m \<in> set (mails db). mlID m < mail_seq db)"

definition mail_db_inv :: "('w \<Rightarrow> int \<times> string \<Rightarrow> grant_bundle option) \<Rightarrow> ('w \<Rightarrow> bool) \<Rightarrow> mail_db \<Rightarrow> 'w \<Rightarrow> bool" where
  "mail_db_inv credited live db w \<longleftrightarrow>
     live w \<and> ids_ok db \<and> (\<forall>m \<in> set (mails db). mlClaimed m \<longrightarrow> claim_ok credited w m) \<and>
     (\<forall>r i c. credited w (r, mail_source i) = Some c \<longrightarrow> mail_backs (mails db) r i c)"

definition mail_inv :: "('w \<Rightarrow> int \<times> string \<Rightarrow> grant_bundle option) \<Rightarrow> ('w \<Rightarrow> bool) \<Rightarrow> 'w mail_world \<Rightarrow> bool" where
  "mail_inv credited live st \<longleftrightarrow> (\<exists>db. sMail (fst st) = Some db \<and> mail_db_inv credited live db (snd st))"

definition mail_le :: "mail \<Rightarrow> mail \<Rightarrow> bool" where
  "mail_le m m' \<longleftrightarrow> mlID m' = mlID m \<and> mlRoleID m' = mlRoleID m \<and> mlTitle m' = mlTitle m \<and> mlContent m' = mlContent m \<and>
     mlItems m' = mlItems m \<and> (mlRead m \<longrightarrow> mlRead m') \<and> (mlClaimed m \<longrightarrow> mlClaimed m')"

definition srv_mails :: "mail_srv \<Rightarrow> mail list" where
  "srv_mails s = (case sMail s of None \<Rightarrow> [] | Some db \<Rightarrow> mails db)"

definition mail_grows :: "('w \<Rightarrow> int \<times> string \<Rightarrow> grant_bundle option) \<Rightarrow> 'w mail_world \<Rightarrow> 'w mail_world \<Rightarrow> bool" where
  "mail_grows credited st st' \<longleftrightarrow>
     (\<forall>m \<in> set (srv_mails (fst st)). \<exists>m' \<in> set (srv_mails (fst st')). mail_le m m') \<and>
     (\<forall>k c. credited (snd st) k = Some c \<longrightarrow> credited (snd st') k = Some c)"

definition mail_rely :: "('w \<Rightarrow> int \<times> string \<Rightarrow> grant_bundle option) \<Rightarrow> ('w \<Rightarrow> bool) \<Rightarrow> ('w mail_world \<Rightarrow> 'w mail_world) \<Rightarrow> bool" where
  "mail_rely credited live f \<longleftrightarrow> (\<forall>st. mail_inv credited live st \<longrightarrow> mail_inv credited live (f st) \<and> mail_grows credited st (f st))"

lemma mail_le_refl [simp]: "mail_le m m"
  by (simp add: mail_le_def)

lemma mail_le_trans: "mail_le a b \<Longrightarrow> mail_le b c \<Longrightarrow> mail_le a c"
  by (auto simp: mail_le_def)

lemma mail_grows_refl [simp]: "mail_grows credited st st"
  by (auto simp: mail_grows_def intro: mail_le_refl)

lemma mail_grows_trans: "mail_grows credited a b \<Longrightarrow> mail_grows credited b c \<Longrightarrow> mail_grows credited a c"
  unfolding mail_grows_def by (meson mail_le_trans)

lemma mail_le_flags [simp]: "mail_le m (set_claimed m)" "mail_le m (set_read m)"
  by (simp_all add: mail_le_def set_claimed_def set_read_def)

lemma claim_ok_le: "mail_le m m' \<Longrightarrow> claim_ok credited w m' \<longleftrightarrow> claim_ok credited w m"
  by (simp add: claim_ok_def mail_le_def)

lemma claim_ok_mono: "claim_ok credited w m \<Longrightarrow> (\<And>k c. credited w k = Some c \<Longrightarrow> credited w' k = Some c) \<Longrightarrow> claim_ok credited w' m"
  unfolding claim_ok_def by blast

lemma update_mails_mem:
  assumes "\<And>m. mail_le m (f m)" and "m' \<in> set (mails (update_mails c f db))"
  obtains m where "m \<in> set (mails db)" "mail_le m m'" "m' = (if c m then f m else m)"
  using assms by (auto simp: update_mails_def split: if_splits)

lemma update_mails_le:
  assumes "\<And>m. mail_le m (f m)" and "m \<in> set (mails db)"
  shows "\<exists>m' \<in> set (mails (update_mails c f db)). mail_le m m'"
proof -
  have "(if c m then f m else m) \<in> set (mails (update_mails c f db))" using assms(2) by (simp add: update_mails_def)
  moreover have "mail_le m (if c m then f m else m)" using assms(1) by simp
  ultimately show ?thesis by blast
qed

lemma update_mails_ids:
  assumes "\<And>m. mail_le m (f m)" and "ids_ok db"
  shows "ids_ok (update_mails c f db)"
proof -
  have "map mlID (mails (update_mails c f db)) = map mlID (mails db)"
    using assms(1) by (simp add: update_mails_def mail_le_def)
  moreover from this have "mlID ` set (mails (update_mails c f db)) = mlID ` set (mails db)" by (metis list.set_map)
  moreover have "mail_seq (update_mails c f db) = mail_seq db" by (simp add: update_mails_def)
  ultimately show ?thesis using assms(2) unfolding ids_ok_def by (metis (no_types, opaque_lifting) image_iff)
qed

text \<open>Setting flags keeps the invariant if the mails that become claimed have been granted.\<close>

lemma update_mails_inv:
  assumes "mail_db_inv credited live db w" and "\<And>m. mail_le m (f m)"
    and "\<And>m. m \<in> set (mails db) \<Longrightarrow> c m \<Longrightarrow> mlClaimed (f m) \<Longrightarrow> claim_ok credited w m"
  shows "mail_db_inv credited live (update_mails c f db) w"
proof -
  have "mlClaimed m' \<longrightarrow> claim_ok credited w m'" if x: "m' \<in> set (mails (update_mails c f db))" for m'
  proof -
    obtain m where m: "m \<in> set (mails db)" "mail_le m m'" "m' = (if c m then f m else m)"
      by (rule update_mails_mem [OF assms(2) x])
    show ?thesis using assms(1,3) m claim_ok_le [OF m(2), of credited w] by (cases "c m") (auto simp: mail_db_inv_def)
  qed
  moreover have "mail_backs (mails (update_mails c f db)) r i b" if bk: "mail_backs (mails db) r i b" for r i b
  proof -
    obtain m where m: "m \<in> set (mails db)" "mlID m = i" "mlRoleID m = r" "Parse (mlItems m) = Inr b" using bk unfolding mail_backs_def by blast
    from update_mails_le [OF assms(2) m(1)] obtain m' where "m' \<in> set (mails (update_mails c f db))" "mail_le m m'" by blast
    with m show ?thesis by (auto simp: mail_backs_def mail_le_def)
  qed
  ultimately show ?thesis using assms(1) update_mails_ids [OF assms(2)] unfolding mail_db_inv_def by blast
qed

lemma insert_mail_inv:
  assumes "mail_db_inv credited live db w"
  shows "mail_db_inv credited live ((insert_mail m db)\<lparr>inbox := I\<rparr>) w" "mail_db_inv credited live (insert_mail m db) w"
proof -
  have "ids_ok (insert_mail m db)"
    using assms by (auto simp: mail_db_inv_def ids_ok_def insert_mail_def)
  moreover have "mail_backs (mails db) r i b \<Longrightarrow> mail_backs (mails (insert_mail m db)) r i b" for r i b
    by (auto simp: mail_backs_def insert_mail_def)
  ultimately show i: "mail_db_inv credited live (insert_mail m db) w"
    using assms by (auto simp: mail_db_inv_def insert_mail_def)
  then show "mail_db_inv credited live ((insert_mail m db)\<lparr>inbox := I\<rparr>) w"
    by (simp add: mail_db_inv_def ids_ok_def)
qed


lemma mail_invE:
  assumes "mail_inv credited live st"
  obtains db where "sMail (fst st) = Some db" "mail_db_inv credited live db (snd st)"
  using assms by (auto simp: mail_inv_def)

lemma mail_unique:
  "mail_db_inv credited live db w \<Longrightarrow> x \<in> set (mails db) \<Longrightarrow> y \<in> set (mails db) \<Longrightarrow> mlID x = mlID y \<Longrightarrow> x = y"
  by (auto simp: mail_db_inv_def ids_ok_def distinct_map dest: inj_onD)

text \<open>A statement on the table as a step of the service.\<close>

lemma db_step_inv:
  assumes "sMail s = Some db" and "mail_db_inv credited live db' w" and "\<And>m. m \<in> set (mails db) \<Longrightarrow> \<exists>m' \<in> set (mails db'). mail_le m m'"
  shows "mail_inv credited live (s\<lparr>sMail := Some db'\<rparr>, w) \<and> mail_grows credited (s, w) (s\<lparr>sMail := Some db'\<rparr>, w)"
  using assms by (auto simp: mail_inv_def mail_grows_def srv_mails_def)

lemma update_step_inv:
  assumes "sMail s = Some db" and "mail_db_inv credited live db w" and "\<And>m. mail_le m (f m)"
    and "\<And>m. m \<in> set (mails db) \<Longrightarrow> c m \<Longrightarrow> mlClaimed (f m) \<Longrightarrow> claim_ok credited w m"
  shows "mail_inv credited live (s\<lparr>sMail := Some (update_mails c f db)\<rparr>, w) \<and> mail_grows credited (s, w) (s\<lparr>sMail := Some (update_mails c f db)\<rparr>, w)"
proof (rule db_step_inv [OF assms(1)])
  show "mail_db_inv credited live (update_mails c f db) w" by (rule update_mails_inv [OF assms(2-4)])
qed (rule update_mails_le [OF assms(3)])

lemma insert_step_inv:
  assumes "sMail s = Some db" and "mail_db_inv credited live db w"
  shows "mail_inv credited live (s\<lparr>sMail := Some ((insert_mail m db)\<lparr>inbox := I\<rparr>)\<rparr>, w) \<and>
    mail_grows credited (s, w) (s\<lparr>sMail := Some ((insert_mail m db)\<lparr>inbox := I\<rparr>)\<rparr>, w)"
  by (rule db_step_inv [OF assms(1) insert_mail_inv(1) [OF assms(2)]]) (auto simp: insert_mail_def intro: mail_le_refl)

lemma mail_inv_self: "sMail s = Some db \<Longrightarrow> mail_db_inv credited live db w \<Longrightarrow> mail_inv credited live (s\<lparr>sMail := Some db\<rparr>, w)"
  by (simp add: mail_inv_def)

lemma sMail_same [simp]: "sMail s = Some db \<Longrightarrow> s\<lparr>sMail := Some db\<rparr> = s"
  by (cases s) simp

text \<open>Each operation of the service with a database, whatever its outcome.\<close>

lemma storeEvent_inv:
  assumes "mail_inv credited live (s, w)" and "storeEvent oc i q s = (r, s')"
  shows "mail_inv credited live (s', w) \<and> mail_grows credited (s, w) (s', w)"
proof -
  obtain db where db: "sMail s = Some db" "mail_db_inv credited live db w" using mail_invE [OF assms(1)] by auto
  have "s' = s \<or> s' = s\<lparr>sMail := Some ((insert_mail (mail_of q) db)\<lparr>inbox := insert i (inbox db)\<rparr>)\<rparr>"
    using assms(2) db(1) by (cases oc) (auto simp: storeEvent_def InsertEvent_def split: if_splits)
  then show ?thesis using insert_step_inv [OF db] assms(1) by auto
qed

lemma mail_store_inv:
  assumes "mail_inv credited live (s, w)" and "mail_store oc q s = (r, s')"
  shows "mail_inv credited live (s', w) \<and> mail_grows credited (s, w) (s', w)"
proof -
  obtain db where db: "sMail s = Some db" "mail_db_inv credited live db w" using mail_invE [OF assms(1)] by auto
  have e: "(insert_mail (mail_of q) db)\<lparr>inbox := inbox db\<rparr> = insert_mail (mail_of q) db" by (simp add: insert_mail_def)
  have "s' = s \<or> s' = s\<lparr>sMail := Some (insert_mail (mail_of q) db)\<rparr>"
    using assms(2) db(1) by (cases oc) (auto simp: mail_store_def mail_Insert_def)
  then show ?thesis using insert_step_inv [OF db, where m = "mail_of q" and I = "inbox db"] assms(1) unfolding e by auto
qed

lemma update_call_inv:
  assumes "sMail s = Some db" and "mail_db_inv credited live db w" and "\<And>m. mail_le m (f m)"
    and "\<And>m. m \<in> set (mails db) \<Longrightarrow> c m \<Longrightarrow> mlClaimed (f m) \<Longrightarrow> claim_ok credited w m"
    and "F db = store_call oc db (Inr v, update_mails c f db)" and "on_mail_db F db s = (r, s')"
  shows "mail_inv credited live (s', w) \<and> mail_grows credited (s, w) (s', w)"
proof -
  have "s' = s \<or> s' = s\<lparr>sMail := Some (update_mails c f db)\<rparr>"
    using assms(1,5,6) by (cases oc) (auto simp: on_mail_db_def)
  moreover have "mail_inv credited live (s, w)" using assms(1,2) by (simp add: mail_inv_def)
  ultimately show ?thesis using update_step_inv [OF assms(1-4)] by auto
qed

lemma read_claimed: "m \<in> set (mails db) \<Longrightarrow> mlClaimed (set_read m) \<Longrightarrow> mail_db_inv credited live db w \<Longrightarrow> claim_ok credited w m"
  by (simp add: set_read_def mail_db_inv_def)

lemma markRead_inv:
  assumes "mail_inv credited live (s, w)" and "markRead oc i role s = (r, s')"
  shows "mail_inv credited live (s', w) \<and> mail_grows credited (s, w) (s', w)"
proof -
  obtain db where db: "sMail s = Some db" "mail_db_inv credited live db w" using mail_invE [OF assms(1)] by auto
  have run: "on_mail_db (MarkRead oc i role) db s = (r, s')" using assms(2) db(1) by (simp add: markRead_def)
  show ?thesis by (rule update_call_inv [OF db mail_le_flags(2) _ MarkRead_def run]) (rule read_claimed [OF _ _ db(2)])
qed

lemma markReadAll_inv:
  assumes "mail_inv credited live (s, w)" and "markReadAll oc role s = (r, s')"
  shows "mail_inv credited live (s', w) \<and> mail_grows credited (s, w) (s', w)"
proof -
  obtain db where db: "sMail s = Some db" "mail_db_inv credited live db w" using mail_invE [OF assms(1)] by auto
  have run: "on_mail_db (MarkReadAll oc role) db s = (r, s')" using assms(2) db(1) by (simp add: markReadAll_def)
  show ?thesis
    by (rule update_call_inv [OF db mail_le_flags(2) _ MarkReadAll_def [unfolded Let_def] run]) (rule read_claimed [OF _ _ db(2)])
qed

section \<open>Claims against any granter\<close>

context granter
begin

lemma grant_mail_inv:
  assumes "mail_db_inv credited live db w" and "m \<in> set (mails db)" and "mlItems m \<noteq> []"
    and "GrantItems grant (mlRoleID m) (mlItems m) (mail_source (mlID m)) w = (e, w')"
  shows "mail_db_inv credited live db w' \<and> (\<forall>k c. credited w k = Some c \<longrightarrow> credited w' k = Some c) \<and> (e = None \<longrightarrow> claim_ok credited w' m)"
proof (cases "Parse (mlItems m)")
  case (Inl err)
  then show ?thesis using assms(1,4) by (auto simp: GrantItems_def)
next
  case (Inr b)
  have run: "grant (mlRoleID m) b (mail_source (mlID m)) w = (e, w')" using assms(4) Inr by (simp add: GrantItems_def)
  have live: "live w" using assms(1) by (simp add: mail_db_inv_def)
  note keeps = grant_keeps [OF live run] and only = grant_only [OF live Parse_wf [OF Inr] run]
  have src: "mail_source i = mail_source j \<longleftrightarrow> i = j" for i j by (simp add: mail_source_def)
  have backs: "mail_backs (mails db) r i c" if c: "credited w' (r, mail_source i) = Some c" for r i c
  proof (cases "credited w (r, mail_source i)")
    case None
    from only [OF this c] assms(2) Inr show ?thesis by (auto simp: mail_backs_def src)
  next
    case (Some d)
    with keeps [OF Some] c assms(1) show ?thesis by (auto simp: mail_db_inv_def)
  qed
  have "claim_ok credited w' m" if ok: "e = None"
  proof -
    obtain c where c: "credited w' (mlRoleID m, mail_source (mlID m)) = Some c"
      using grant_credits [OF live _ run [unfolded ok]] by (auto simp: mail_source_def)
    from backs [OF c] obtain m' where m': "m' \<in> set (mails db)" "mlID m' = mlID m" "Parse (mlItems m') = Inr c" unfolding mail_backs_def by blast
    have "m' = m" by (rule mail_unique [OF assms(1) m'(1) assms(2) m'(2)])
    then show ?thesis using c m'(3) by (simp add: claim_ok_def)
  qed
  moreover have "mail_db_inv credited live db w'"
  proof -
    have "claim_ok credited w x \<Longrightarrow> claim_ok credited w' x" for x by (rule claim_ok_mono) (use keeps in blast)+
    then show ?thesis using assms(1) grant_live [OF live run] backs unfolding mail_db_inv_def by blast
  qed
  ultimately show ?thesis using keeps by blast
qed

lemma handleClaim_inv:
  assumes "mail_inv credited live st" and "mail_rely credited live b1" and "mail_rely credited live b2"
    and "handleClaim grant b1 b2 oc1 oc2 info p st = (r, st')"
  shows "mail_inv credited live st' \<and> mail_grows credited st st'"
proof -
  let ?i = "json_int64 ''mail_id'' p" and ?role = "siRoleID info"
  obtain s w where st: "b1 st = (s, w)" by fastforce
  have b: "mail_inv credited live (s, w)" "mail_grows credited st (s, w)" using assms(1,2) st unfolding mail_rely_def by metis+
  consider (same) "st' = st"
    | (claims) m e w1 where "getMail oc1 ?i ?role (fst st) = Inr m"
        "(if mlItems m \<noteq> [] then GrantItems grant ?role (mlItems m) (mail_source (mlID m)) w else (None, w)) = (e, w1)"
        "(case e of Some _ \<Rightarrow> (Reply 5000, s, w1) | None \<Rightarrow> let (s, w) = b2 (s, w1) in
           case markClaimed oc2 ?i ?role s of (Inl _, s) \<Rightarrow> (HttpError 500, s, w) | (Inr _, s) \<Rightarrow> (ReplyOK (mlItems m), s, w)) = (r, st')"
    using assms(4) st by (auto simp: handleClaim_def Let_def split: if_splits sum.splits prod.splits)
  then show ?thesis
  proof cases
    case same
    then show ?thesis using assms(1) by simp
  next
    case (claims m e w1)
    obtain db0 where db0: "sMail (fst st) = Some db0" using mail_invE [OF assms(1)] by auto
    have m: "m \<in> set (mails db0)" "mlID m = ?i" "mlRoleID m = ?role"
      using claims(1) db0 by (auto simp: getMail_def mail_Get_def dest!: find_Some_mem split: if_splits option.splits)
    obtain db where db: "sMail s = Some db" "mail_db_inv credited live db w" using mail_invE [OF b(1)] by auto
    obtain m1 where m1: "m1 \<in> set (mails db)" "mail_le m m1"
      using b(2) m(1) db0 db(1) by (auto simp: mail_grows_def srv_mails_def)
    have m1i: "mlID m1 = mlID m" "mlRoleID m1 = ?role" "mlItems m1 = mlItems m" using m1(2) m(3) by (auto simp: mail_le_def)
    have G: "mail_db_inv credited live db w1" "\<forall>k c. credited w k = Some c \<longrightarrow> credited w1 k = Some c" "e = None \<longrightarrow> claim_ok credited w1 m1"
      using claims(2) grant_mail_inv [OF db(2) m1(1)] m1i db(2) by (auto simp: claim_ok_def split: if_splits)
    have g: "mail_inv credited live (s, w1)" "mail_grows credited (s, w) (s, w1)"
      using G(1,2) db(1) by (auto simp: mail_inv_def mail_grows_def intro: mail_le_refl)
    show ?thesis
    proof (cases e)
      case (Some err)
      then show ?thesis using claims(3) g(1) mail_grows_trans [OF b(2) g(2)] by auto
    next
      case None
      obtain s2 w2 where b2: "b2 (s, w1) = (s2, w2)" by fastforce
      have i2: "mail_inv credited live (s2, w2)" "mail_grows credited (s, w1) (s2, w2)" using assms(3) g(1) b2 unfolding mail_rely_def by metis+
      obtain db2 where db2: "sMail s2 = Some db2" "mail_db_inv credited live db2 w2" using mail_invE [OF i2(1)] by auto
      obtain m2 where m2: "m2 \<in> set (mails db2)" "mail_le m1 m2" using i2(2) m1(1) db(1) db2(1) by (auto simp: mail_grows_def srv_mails_def)
      have "claim_ok credited w2 m1" using G(3) None i2(2) by (auto simp: mail_grows_def intro: claim_ok_mono)
      then have ok: "claim_ok credited w2 x" if "x \<in> set (mails db2)" "mlID x = ?i" for x
      proof -
        have "mlID m2 = mlID x" using that(2) m2(2) m1i(1) m(2) by (simp add: mail_le_def)
        then have "m2 = x" by (rule mail_unique [OF db2(2) m2(1) that(1)])
        then show ?thesis using \<open>claim_ok credited w2 m1\<close> claim_ok_le [OF m2(2), of credited w2] by simp
      qed
      obtain v s3 where mk: "markClaimed oc2 ?i ?role s2 = (v, s3)" by fastforce
      then have run: "on_mail_db (MarkClaimed oc2 ?i) db2 s2 = (v, s3)" using db2(1) by (simp add: markClaimed_def)
      have "mail_inv credited live (s3, w2) \<and> mail_grows credited (s2, w2) (s3, w2)"
        by (rule update_call_inv [OF db2 mail_le_flags(1) _ MarkClaimed_def run]) (rule ok)
      moreover have "st' = (s3, w2)" using claims(3) None b2 mk by (auto split: sum.splits)
      ultimately show ?thesis using mail_grows_trans b(2) g(2) i2(2) by blast
    qed
  qed
qed

end

lemma claim_rows_inv:
  assumes "\<And>i. granter credited (g i) live" and "mail_db_inv credited live db w"
    and "set xs \<subseteq> set (mails db)" and "\<forall>m \<in> set xs. mlRoleID m = role" and "claim_rows g role xs w = ((ids, c, f), w')"
  shows "mail_db_inv credited live db w' \<and> (\<forall>k b. credited w k = Some b \<longrightarrow> credited w' k = Some b) \<and>
    (\<forall>i \<in> set ids. \<exists>m \<in> set xs. mlID m = i \<and> claim_ok credited w' m)"
  using assms(2-5)
proof (induction xs arbitrary: w ids c f w')
  case Nil
  then show ?case by simp
next
  case (Cons m xs)
  obtain e w1 where e: "(if mlItems m = [] then (None, w) else GrantItems (g (length xs)) role (mlItems m) (mail_source (mlID m)) w) = (e, w1)" by fastforce
  have m: "m \<in> set (mails db)" "mlRoleID m = role" using Cons.prems(2,3) by auto
  have G: "mail_db_inv credited live db w1" "\<forall>k b. credited w k = Some b \<longrightarrow> credited w1 k = Some b" "e = None \<longrightarrow> claim_ok credited w1 m"
    using e granter.grant_mail_inv [OF assms(1) Cons.prems(1) m(1)] m(2) Cons.prems(1) by (auto simp: claim_ok_def split: if_splits)
  obtain ids1 c1 f1 w2 where rec: "claim_rows g role xs w1 = ((ids1, c1, f1), w2)" by (metis prod.exhaust)
  have IH: "mail_db_inv credited live db w2" "\<forall>k b. credited w1 k = Some b \<longrightarrow> credited w2 k = Some b"
      "\<forall>i \<in> set ids1. \<exists>m \<in> set xs. mlID m = i \<and> claim_ok credited w2 m"
    using Cons.IH [OF G(1) _ _ rec] Cons.prems(2,3) by auto
  have "w' = w2" "ids = (if e = None then mlID m # ids1 else ids1)"
    using Cons.prems(4) e rec by (auto split: if_splits option.splits prod.splits)
  moreover have "claim_ok credited w1 m \<Longrightarrow> claim_ok credited w2 m" using IH(2) by (auto intro: claim_ok_mono)
  ultimately show ?case using IH G by auto
qed

lemma claimAll_inv:
  assumes "\<And>i. granter credited (g i) live" and "mail_inv credited live st" and "mail_rely credited live between"
    and "claimAll g between oc1 oc2 role st = (r, st')"
  shows "mail_inv credited live st' \<and> mail_grows credited st st'"
proof -
  obtain s w where st: "st = (s, w)" by fastforce
  obtain db where db: "sMail s = Some db" "mail_db_inv credited live db w" using mail_invE [OF assms(2)] st by auto
  show ?thesis
  proof (cases "ListUnclaimed oc1 role 50 db")
    case (Inl e)
    then show ?thesis using assms(2,4) db(1) st by (auto simp: claimAll_def)
  next
    case (Inr xs)
    have xs: "set xs \<subseteq> set (mails db)" "\<forall>m \<in> set xs. mlRoleID m = role"
      using Inr by (auto simp: ListUnclaimed_def dest!: in_set_takeD split: if_splits)
    obtain ids c f w1 where cr: "claim_rows g role xs w = ((ids, c, f), w1)" by (metis prod.exhaust)
    note C = claim_rows_inv [OF assms(1) db(2) xs cr]
    have g: "mail_inv credited live (s, w1)" "mail_grows credited (s, w) (s, w1)"
      using C db(1) by (auto simp: mail_inv_def mail_grows_def intro: mail_le_refl)
    obtain s2 w2 where b: "between (s, w1) = (s2, w2)" by fastforce
    have i2: "mail_inv credited live (s2, w2)" "mail_grows credited (s, w1) (s2, w2)" using assms(3) g(1) b unfolding mail_rely_def by metis+
    obtain db2 where db2: "sMail s2 = Some db2" "mail_db_inv credited live db2 w2" using mail_invE [OF i2(1)] by auto
    have ok: "claim_ok credited w2 x" if x: "x \<in> set (mails db2)" "mlID x \<in> set ids" for x
    proof -
      obtain m where m: "m \<in> set (mails db)" "mlID m = mlID x" "claim_ok credited w1 m" using C x(2) xs(1) by blast
      obtain m2 where m2: "m2 \<in> set (mails db2)" "mail_le m m2" using i2(2) m(1) db(1) db2(1) by (auto simp: mail_grows_def srv_mails_def)
      have "mlID m2 = mlID x" using m2(2) m(2) by (simp add: mail_le_def)
      then have "m2 = x" by (rule mail_unique [OF db2(2) m2(1) x(1)])
      moreover have "claim_ok credited w2 m" using m(3) i2(2) by (auto simp: mail_grows_def intro: claim_ok_mono)
      ultimately show ?thesis using claim_ok_le [OF m2(2), of credited w2] by simp
    qed
    show ?thesis
    proof (cases "ids = []")
      case True
      then show ?thesis using assms(4) st db(1) Inr cr g by (auto simp: claimAll_def)
    next
      case False
      obtain v s3 where run: "on_mail_db (MarkClaimedBatch oc2 ids) db2 s2 = (v, s3)" by fastforce
      have F: "MarkClaimedBatch oc2 ids db2 = store_call oc2 db2 (Inr (), update_mails (\<lambda>m. mlID m \<in> set ids) set_claimed db2)"
        using False by (simp add: MarkClaimedBatch_def)
      have "mail_inv credited live (s3, w2) \<and> mail_grows credited (s2, w2) (s3, w2)"
        by (rule update_call_inv [OF db2 mail_le_flags(1) _ F run]) (rule ok)
      moreover have "st' = (s3, w2)" using assms(4) st db(1) Inr cr False b db2(1) run by (auto simp: claimAll_def split: sum.splits)
      ultimately show ?thesis using mail_grows_trans g(2) i2(2) st by blast
    qed
  qed
qed


section \<open>The whole service\<close>

text \<open>Steps of the mail system: its handlers, redelivered events, and steps of other services that credit nothing under a mail source.\<close>

inductive mail_step :: "('w \<Rightarrow> int \<times> string \<Rightarrow> grant_bundle option) \<Rightarrow> ('w \<Rightarrow> bool) \<Rightarrow> 'w mail_granter set \<Rightarrow> 'w mail_world \<Rightarrow> 'w mail_world \<Rightarrow> bool"
  for credited live G where
  Send: "handleSend oc p s = (r, s') \<Longrightarrow> mail_step credited live G (s, w) (s', w)"
| Event: "storeEvent oc i q s = (r, s') \<Longrightarrow> mail_step credited live G (s, w) (s', w)"
| Claim: "\<lbrakk>g \<in> G; mail_rely credited live b1; mail_rely credited live b2; handleClaim g b1 b2 oc1 oc2 info p st = (r', st')\<rbrakk>
    \<Longrightarrow> mail_step credited live G st st'"
| ClaimAll: "\<lbrakk>range gs \<subseteq> G; mail_rely credited live b1; handleClaimAll gs b1 oc1 oc2 info st = (r'', st')\<rbrakk> \<Longrightarrow> mail_step credited live G st st'"
| Read: "handleRead oc info p s = (ru, s') \<Longrightarrow> mail_step credited live G (s, w) (s', w)"
| ReadAll: "handleReadAll oc info s = (rn, s') \<Longrightarrow> mail_step credited live G (s, w) (s', w)"
| Other: "\<lbrakk>live w'; \<forall>k c. credited w k = Some c \<longrightarrow> credited w' k = Some c;
    \<forall>r i. credited w (r, mail_source i) = None \<longrightarrow> credited w' (r, mail_source i) = None\<rbrakk> \<Longrightarrow> mail_step credited live G (s, w) (s, w')"

lemma other_mail_inv:
  assumes "mail_inv credited live (s, w)" and "live w'" and "\<forall>k c. credited w k = Some c \<longrightarrow> credited w' k = Some c"
    and "\<forall>r i. credited w (r, mail_source i) = None \<longrightarrow> credited w' (r, mail_source i) = None"
  shows "mail_inv credited live (s, w') \<and> mail_grows credited (s, w) (s, w')"
proof -
  obtain db where db: "sMail s = Some db" "mail_db_inv credited live db w" using mail_invE [OF assms(1)] by auto
  have "credited w (r, mail_source i) = Some c" if "credited w' (r, mail_source i) = Some c" for r i c
    using that assms(3,4) by (metis option.exhaust option.inject)
  moreover have "claim_ok credited w m \<Longrightarrow> claim_ok credited w' m" for m using assms(3) by (auto intro: claim_ok_mono)
  ultimately have "mail_db_inv credited live db w'" using db(2) assms(2) unfolding mail_db_inv_def by blast
  then show ?thesis using db(1) assms(3) by (auto simp: mail_inv_def mail_grows_def intro: mail_le_refl)
qed

lemma mail_step_inv:
  assumes "mail_step credited live G st st'" and "\<And>g. g \<in> G \<Longrightarrow> granter credited g live" and "mail_inv credited live st"
  shows "mail_inv credited live st' \<and> mail_grows credited st st'"
  using assms(1,3)
proof cases
  case (Send oc p s r s' w)
  have "s' = s \<or> (\<exists>q v. mail_store oc q s = (v, s'))" using Send(3) by (auto simp: handleSend_def split: if_splits prod.splits sum.splits)
  then show ?thesis using mail_store_inv [OF assms(3) [unfolded Send(1)]] assms(3) unfolding Send(1,2) by auto
next
  case (Event oc i q s r s' w)
  from storeEvent_inv [OF assms(3) [unfolded Event(1)] Event(3)] show ?thesis unfolding Event(1,2) .
next
  case (Claim g b1 b2 oc1 oc2 info p r')
  show ?thesis by (rule granter.handleClaim_inv [OF assms(2) [OF Claim(1)] assms(3) Claim(2-4)])
next
  case (ClaimAll gs b1 oc1 oc2 info r'')
  have g: "granter credited (gs i) live" for i using ClaimAll(1) assms(2) by blast
  obtain v where "claimAll gs b1 oc1 oc2 (siRoleID info) st = (v, st')"
    using ClaimAll(3) by (auto simp: handleClaimAll_def split: prod.splits sum.splits)
  from claimAll_inv [OF g assms(3) ClaimAll(2) this] show ?thesis .
next
  case (Read oc info p s ru s' w)
  have "s' = s \<or> (\<exists>i v. markRead oc i (siRoleID info) s = (v, s'))" using Read(3) by (auto simp: handleRead_def split: if_splits prod.splits sum.splits)
  then show ?thesis using markRead_inv [OF assms(3) [unfolded Read(1)]] assms(3) unfolding Read(1,2) by auto
next
  case (ReadAll oc info s rn s' w)
  obtain v where "markReadAll oc (siRoleID info) s = (v, s')" using ReadAll(3) by (auto simp: handleReadAll_def split: prod.splits sum.splits)
  from markReadAll_inv [OF assms(3) [unfolded ReadAll(1)] this] show ?thesis unfolding ReadAll(1,2) .
next
  case (Other w' w s)
  from other_mail_inv [OF assms(3) [unfolded Other(1)] Other(3-5)] show ?thesis unfolding Other(1,2) .
qed

lemma mail_steps_inv:
  assumes "(mail_step credited live G)\<^sup>*\<^sup>* st st'" and "\<And>g. g \<in> G \<Longrightarrow> granter credited g live" and "mail_inv credited live st"
  shows "mail_inv credited live st' \<and> mail_grows credited st st'"
  using assms(1)
proof (induction rule: rtranclp_induct)
  case base
  then show ?case using assms(3) by simp
next
  case (step t u)
  with mail_step_inv [OF step(2) assms(2)] mail_grows_trans show ?case by blast
qed

section \<open>Properties of mail\<close>

text \<open>
  C19. Claimed means granted, and an attachment is granted once and only to its recipient. Whatever
  handlers run in whatever interleaving, with any lost requests and replies, redelivered events and
  repeated claims: afterwards every claimed mail with an attachment has the reward that the attachment
  denotes in the ledger of its recipient under the mail's source; every ledger entry under a mail
  source is the attachment of the mail with that id, addressed to that role; and no mail disappears,
  changes its content or becomes unread or unclaimed again.
\<close>

theorem mail_claims_settle:
  assumes "mail_inv manager_credited manager_live (s, m)"
    and "(mail_step manager_credited manager_live {client_Grant resolve c oc (game_serve secret E) | resolve c oc secret E. benign (eBetween E)})\<^sup>*\<^sup>* (s, m) (s', m')"
  shows "(\<forall>x \<in> set (srv_mails s'). mlClaimed x \<and> mlItems x \<noteq> [] \<longrightarrow>
      (\<exists>b. Parse (mlItems x) = Inr b \<and> manager_credited m' (mlRoleID x, mail_source (mlID x)) = Some b)) \<and>
    (\<forall>r i b. manager_credited m' (r, mail_source i) = Some b \<longrightarrow>
      (\<exists>x \<in> set (srv_mails s'). mlID x = i \<and> mlRoleID x = r \<and> Parse (mlItems x) = Inr b)) \<and>
    (\<forall>x \<in> set (srv_mails s). \<exists>y \<in> set (srv_mails s'). mail_le x y)"
proof -
  let ?G = "{client_Grant resolve c oc (game_serve secret E) | resolve c oc secret E. benign (eBetween E)}"
  have "g \<in> ?G \<Longrightarrow> granter manager_credited g manager_live" for g using client_Grant_granter by auto
  from mail_steps_inv [OF assms(2) this assms(1)]
  have i: "mail_inv manager_credited manager_live (s', m')" "mail_grows manager_credited (s, m) (s', m')" by blast+
  obtain db where db: "sMail s' = Some db" "mail_db_inv manager_credited manager_live db m'" using mail_invE [OF i(1)] by auto
  have "srv_mails s' = mails db" using db(1) by (simp add: srv_mails_def)
  then show ?thesis using db(2) i(2) unfolding mail_db_inv_def claim_ok_def mail_backs_def mail_grows_def by fastforce
qed

text \<open>Deliveries of mail events in order: outcome, event id and request.\<close>

definition deliver_events :: "(outcome \<times> string \<times> mail_req) list \<Rightarrow> mail_srv \<Rightarrow> mail_srv" where
  "deliver_events es s = foldl (\<lambda>s (oc, i, q). snd (storeEvent oc i q s)) s es"

lemma storeEvent_db:
  assumes "sMail s = Some db"
  shows "\<exists>db'. sMail (snd (storeEvent oc i q s)) = Some db' \<and>
    (oc = Failed \<or> i \<in> inbox db \<longrightarrow> db' = db) \<and>
    (oc \<noteq> Failed \<and> i \<notin> inbox db \<longrightarrow> inbox db' = insert i (inbox db) \<and> mails db' = mails db @ [(mail_of q)\<lparr>mlID := mail_seq db\<rparr>])"
  using assms by (cases oc) (auto simp: storeEvent_def InsertEvent_def insert_mail_def mail_of_def)

text \<open>
  A mail event is stored exactly once. The broker delivers an event again until it is acknowledged,
  and any delivery may fail before or after it took effect. Over any sequence of deliveries the table
  gains exactly one row per event id that took effect for the first time, no earlier row is touched,
  and a delivery that reports success belongs to an event that has been stored, so that acknowledging
  it loses nothing.
\<close>

theorem mail_event_stored_once:
  assumes "sMail s = Some db" and "finite (inbox db)"
  shows "\<exists>db' new. sMail (deliver_events es s) = Some db' \<and> mails db' = mails db @ new \<and>
    length new = card (inbox db' - inbox db) \<and> inbox db \<subseteq> inbox db' \<and> finite (inbox db') \<and>
    inbox db' \<subseteq> inbox db \<union> (\<lambda>e. fst (snd e)) ` {e \<in> set es. fst e \<noteq> Failed} \<and>
    (\<forall>e \<in> set es. fst e = Done \<longrightarrow> fst (snd e) \<in> inbox db')"
proof (induction es rule: rev_induct)
  case Nil
  then show ?case using assms by (simp add: deliver_events_def)
next
  case (snoc e es)
  obtain oc i q where e: "e = (oc, i, q)" by (rule prod_cases3)
  from snoc obtain db1 new where d1: "sMail (deliver_events es s) = Some db1" "mails db1 = mails db @ new"
      "length new = card (inbox db1 - inbox db)" "inbox db \<subseteq> inbox db1" "finite (inbox db1)"
      "inbox db1 \<subseteq> inbox db \<union> (\<lambda>e. fst (snd e)) ` {e \<in> set es. fst e \<noteq> Failed}" "\<forall>e \<in> set es. fst e = Done \<longrightarrow> fst (snd e) \<in> inbox db1" by blast
  have step: "deliver_events (es @ [e]) s = snd (storeEvent oc i q (deliver_events es s))" by (simp add: deliver_events_def e)
  obtain db2 where d2: "sMail (deliver_events (es @ [e]) s) = Some db2" "oc = Failed \<or> i \<in> inbox db1 \<longrightarrow> db2 = db1"
      "oc \<noteq> Failed \<and> i \<notin> inbox db1 \<longrightarrow> inbox db2 = insert i (inbox db1) \<and> mails db2 = mails db1 @ [(mail_of q)\<lparr>mlID := mail_seq db1\<rparr>]"
    using storeEvent_db [OF d1(1), of oc i q] unfolding step by blast
  show ?case
  proof (cases "oc = Failed \<or> i \<in> inbox db1")
    case True
    then show ?thesis using d1 d2 e by (intro exI [of _ db2] exI [of _ new]) auto
  next
    case False
    have "inbox db2 - inbox db = insert i (inbox db1 - inbox db)" using False d2 d1(4) by auto
    moreover have "card (insert i (inbox db1 - inbox db)) = Suc (card (inbox db1 - inbox db))" using False d1(5) by simp
    moreover have "i \<in> (\<lambda>e. fst (snd e)) ` {x \<in> set (es @ [e]). fst x \<noteq> Failed}" using False e by (intro image_eqI [of _ _ e]) auto
    ultimately show ?thesis using False d1 d2 e
      by (intro exI [of _ db2] exI [of _ "new @ [(mail_of q)\<lparr>mlID := mail_seq db1\<rparr>]"]) auto
  qed
qed


lemma update_mails_other: "x \<in> set (mails db) \<Longrightarrow> \<not> c x \<Longrightarrow> x \<in> set (mails (update_mails c f db))"
  by (auto simp: update_mails_def)

text \<open>
  A player reaches only his own mails. The list shows nothing but mails addressed to the role of
  the session; an attempt to claim another role's mail is answered as if the mail did not exist and
  changes nothing; and no mail of another role is changed by the session's reads, whatever mail id
  the request names.
\<close>

theorem mail_isolation:
  assumes "sMail s = Some db" and "ids_ok db" and "x \<in> set (mails db)" and "mlRoleID x \<noteq> siRoleID info"
    and "json_valid [(''mail_id'', JNum 64)] p" and "json_int64 ''mail_id'' p = mlID x"
  shows "(\<forall>xs. handleList oc info s = ReplyOK xs \<longrightarrow> (\<forall>y \<in> set xs. mlRoleID y = siRoleID info)) \<and>
    handleClaim g b1 b2 oc oc2 info p (s, w) = (Reply 1003, s, w) \<and>
    x \<in> set (srv_mails (snd (handleRead oc info p s))) \<and>
    x \<in> set (srv_mails (snd (handleReadAll oc info s)))"
proof (intro conjI allI impI)
  fix xs assume "handleList oc info s = ReplyOK xs"
  then show "\<forall>y \<in> set xs. mlRoleID y = siRoleID info"
    using assms(1) by (auto simp: handleList_def mail_List_def Let_def dest!: in_set_takeD split: if_splits)
next
  have "find (\<lambda>m. mlID m = mlID x \<and> mlRoleID m = siRoleID info) (mails db) = None"
    unfolding find_None_iff using assms(2-4) by (auto simp: ids_ok_def distinct_map dest: inj_onD)
  then have "\<exists>e. getMail oc (mlID x) (siRoleID info) s = Inl e" using assms(1) by (simp add: getMail_def mail_Get_def)
  then show "handleClaim g b1 b2 oc oc2 info p (s, w) = (Reply 1003, s, w)"
    using assms(5,6) by (auto simp: handleClaim_def)
next
  have "x \<in> set (mails (update_mails (\<lambda>m. mlID m = mlID x \<and> mlRoleID m = siRoleID info) set_read db))"
    using assms(3,4) by (intro update_mails_other) auto
  then show "x \<in> set (srv_mails (snd (handleRead oc info p s)))"
    using assms by (cases oc) (simp_all add: handleRead_def markRead_def on_mail_db_def MarkRead_def srv_mails_def)
next
  have "x \<in> set (mails (update_mails (\<lambda>m. mlRoleID m = siRoleID info \<and> \<not> mlRead m) set_read db))"
    using assms(3,4) by (intro update_mails_other) auto
  then show "x \<in> set (srv_mails (snd (handleReadAll oc info s)))"
    using assms by (cases oc) (simp_all add: handleReadAll_def markReadAll_def on_mail_db_def MarkReadAll_def srv_mails_def Let_def)
qed

section \<open>A small post office\<close>

definition demo_mail :: mail where
  "demo_mail = \<lparr>mlID = 1, mlRoleID = 7, mlTitle = ''hi'', mlContent = [], mlItems = ''potion:1'', mlRead = False, mlClaimed = False\<rparr>"

definition demo_mail_srv :: mail_srv where
  "demo_mail_srv = \<lparr>sMail = Some \<lparr>mails = [demo_mail], mail_seq = 2, inbox = {}\<rparr>, sMem = (\<lambda>_. []), sNextMemID = 0\<rparr>"

definition demo_claim :: body where
  "demo_claim = Some (JObj [(''mail_id'', JNum 1)])"

lemma demo_claim_reads: "json_valid [(''mail_id'', JNum 64)] demo_claim" "json_int64 ''mail_id'' demo_claim = 1"
  by (simp_all add: json_valid_def demo_claim_def json_int64_def body_defs in_i64_def)

lemma demo_mail_inv: "mail_inv manager_credited manager_live (demo_mail_srv, market)"
  by (simp add: mail_inv_def demo_mail_srv_def mail_db_inv_def market_live market_no_credit ids_ok_def demo_mail_def)

lemma demo_claimed:
  "\<exists>m'. handleClaim demo_grant id id Done Done \<lparr>siRoleID = 7, siZoneID = 1\<rparr> demo_claim (demo_mail_srv, market)
     = (ReplyOK ''potion:1'', demo_mail_srv\<lparr>sMail := Some \<lparr>mails = [set_claimed demo_mail], mail_seq = 2, inbox = {}\<rparr>\<rparr>, m')"
proof -
  obtain m' where run: "GrantItems demo_grant 7 ''potion:1'' ''mail:1'' market = (None, m')"
    using demo_GrantItems by (metis prod.collapse)
  have src: "mail_source 1 = ''mail:1''" by (simp add: mail_source_def FormatInt_def nat_digits.simps digit_char_def)
  show ?thesis
    by (simp add: handleClaim_def demo_claim_reads getMail_def demo_mail_srv_def mail_Get_def demo_mail_def src run markClaimed_def
        on_mail_db_def MarkClaimed_def update_mails_def)
qed

theorem mail_claims_settle_witness:
  "\<exists>s' m'. handleClaim demo_grant id id Done Done \<lparr>siRoleID = 7, siZoneID = 1\<rparr> demo_claim (demo_mail_srv, market) = (ReplyOK ''potion:1'', s', m') \<and>
     manager_credited m' (7, mail_source 1) = Some \<lparr>bGold = 0, bItems = [(''potion'', 1)]\<rparr>"
proof -
  let ?G = "{client_Grant resolve c oc (game_serve secret E) | resolve c oc secret E. benign (eBetween E)}"
  let ?s = "demo_mail_srv\<lparr>sMail := Some \<lparr>mails = [set_claimed demo_mail], mail_seq = 2, inbox = {}\<rparr>\<rparr>"
  obtain m' where run: "handleClaim demo_grant id id Done Done \<lparr>siRoleID = 7, siZoneID = 1\<rparr> demo_claim (demo_mail_srv, market) = (ReplyOK ''potion:1'', ?s, m')"
    using demo_claimed by blast
  have "mail_rely manager_credited manager_live id" by (simp add: mail_rely_def)
  moreover have "demo_grant \<in> ?G" unfolding demo_grant_def using demo_env_benign by blast
  ultimately have "mail_step manager_credited manager_live ?G (demo_mail_srv, market) (?s, m')" using run by (blast intro: mail_step.Claim)
  then have "(mail_step manager_credited manager_live ?G)\<^sup>*\<^sup>* (demo_mail_srv, market) (?s, m')" by (rule r_into_rtranclp)
  from mail_claims_settle [OF demo_mail_inv this] run show ?thesis
    by (simp add: srv_mails_def set_claimed_def demo_mail_def Parse_potion)
qed

theorem mail_event_stored_once_witness:
  "\<exists>db' new. sMail (deliver_events [(Lost, ''e1'', \<lparr>mrRoleID = 7, mrTitle = [], mrContent = [], mrItems = []\<rparr>),
      (Done, ''e1'', \<lparr>mrRoleID = 7, mrTitle = [], mrContent = [], mrItems = []\<rparr>)] demo_mail_srv) = Some db' \<and> mails db' = [demo_mail] @ new \<and> length new = 1"
proof -
  let ?q = "\<lparr>mrRoleID = 7, mrTitle = [], mrContent = [], mrItems = []\<rparr>"
  have s: "sMail demo_mail_srv = Some \<lparr>mails = [demo_mail], mail_seq = 2, inbox = {}\<rparr>" by (simp add: demo_mail_srv_def)
  let ?es = "[(Lost, ''e1'', ?q), (Done, ''e1'', ?q)]"
  obtain db' new where d: "sMail (deliver_events ?es demo_mail_srv) = Some db'" "mails db' = [demo_mail] @ new"
      "length new = card (inbox db')" "inbox db' \<subseteq> (\<lambda>e. fst (snd e)) ` {e \<in> set ?es. fst e \<noteq> Failed}" "''e1'' \<in> inbox db'"
    using mail_event_stored_once [OF s, of ?es] by fastforce
  moreover have "(\<lambda>e. fst (snd e)) ` {e \<in> set ?es. fst e \<noteq> Failed} \<subseteq> {''e1''}" by auto
  ultimately have "inbox db' = {''e1''}" by blast
  with d show ?thesis by simp
qed

theorem mail_isolation_witness:
  "handleClaim demo_grant id id Done Done \<lparr>siRoleID = 8, siZoneID = 1\<rparr> demo_claim (demo_mail_srv, market) = (Reply 1003, demo_mail_srv, market)"
  using mail_isolation [where s = demo_mail_srv and db = "\<lparr>mails = [demo_mail], mail_seq = 2, inbox = {}\<rparr>" and x = demo_mail
      and info = "\<lparr>siRoleID = 8, siZoneID = 1\<rparr>" and p = demo_claim and g = demo_grant and ?b1.0 = id and ?b2.0 = id and oc = Done and ?oc2.0 = Done and w = market]
  by (simp add: demo_mail_srv_def demo_mail_def ids_ok_def demo_claim_reads)

end
