(* ===== verification/Discovery.thy ===== *)
theory Discovery
  imports Config Redis_Store
begin

text \<open>
  Service discovery: zones (\<^verbatim>\<open>pkg/zone\<close>), the instance a process registers (\<^verbatim>\<open>pkg/discovery/instance.go\<close>),
  the registry of instances in Redis (\<^verbatim>\<open>registry.go\<close>) and the caching resolver in front of it
  (\<^verbatim>\<open>resolver.go\<close>). The registry keeps one key per instance, with the lease as its expiry, and one index
  set per service and zone. Each command of a pipeline has its own outcome. The order of a Redis set,
  the shuffle and the answer of a health probe are arguments.
\<close>

section \<open>Zones\<close>

text \<open>The catalogue; the display names are the UTF-8 encodings of the source.\<close>

definition Catalog :: "(int \<times> string) list" where
  "Catalog =
     (let prefix = [CHR 0xE6, CHR 0x9C, CHR 0x8D, CHR 0xE5, CHR 0x8A, CHR 0xA1, CHR 0xE5, CHR 0x99, CHR 0xA8]
      in [(1, prefix @ ''1''), (2, prefix @ ''2'')])"

definition zone_Name :: "int \<Rightarrow> string" where
  "zone_Name zid = (case map_of Catalog zid of None \<Rightarrow> ''zone'' | Some name \<Rightarrow> name)"

section \<open>Instances\<close>

record service_instance =
  inID :: string
  inName :: string
  inZoneID :: int
  inHTTPAddr :: string
  inTCPAddr :: string
  inGRPCAddr :: string

definition PublishAddr :: "string \<Rightarrow> string" where
  "PublishAddr listenAddr =
     (if listenAddr = [] then []
      else case SplitHostPort listenAddr of
        None \<Rightarrow> listenAddr
      | Some (host, port) \<Rightarrow>
          JoinHostPort (if host = [] \<or> host = ''0.0.0.0'' \<or> host = ''::'' then ''127.0.0.1'' else host) port)"

definition AdvertiseAddr :: "string \<Rightarrow> string \<Rightarrow> string" where
  "AdvertiseAddr listen advertise = (if advertise \<noteq> [] then advertise else PublishAddr listen)"

definition instanceID :: "int \<Rightarrow> service_config \<Rightarrow> string" where
  "instanceID pid cfg =
     (let addr = AdvertiseAddr (sHTTPAddr cfg) (sAdvertiseHTTPAddr cfg);
          addr = (if addr = [] then AdvertiseAddr (sTCPAddr cfg) (sAdvertiseTCPAddr cfg) else addr)
      in sType cfg @ ''-z'' @ FormatInt (sZoneID cfg) @ ''-'' @ addr @ ''-'' @ FormatInt pid)"

definition InstanceFromConfig :: "int \<Rightarrow> service_config \<Rightarrow> service_instance" where
  "InstanceFromConfig pid cfg =
     \<lparr>inID = instanceID pid cfg,
      inName = (if 0 < scShardCount (sScale cfg) \<and> sType cfg = ''game'' then ServiceName (scShardID (sScale cfg)) else sType cfg),
      inZoneID = sZoneID cfg,
      inHTTPAddr = AdvertiseAddr (sHTTPAddr cfg) (sAdvertiseHTTPAddr cfg),
      inTCPAddr = (if sTCPAddr cfg = [] then [] else AdvertiseAddr (sTCPAddr cfg) (sAdvertiseTCPAddr cfg)),
      inGRPCAddr = (if sGRPCAddr cfg = [] then [] else AdvertiseAddr (sGRPCAddr cfg) (sAdvertiseGRPCAddr cfg))\<rparr>"

definition HTTPBase :: "service_instance \<Rightarrow> string" where
  "HTTPBase i = (if inHTTPAddr i = [] then [] else ''http://'' @ inHTTPAddr i)"

section \<open>The registry\<close>

record registry =
  dInst :: "service_instance option redis"
  dIdx :: "string \<Rightarrow> string list"
  dTTL :: int
  dPicker :: "string \<Rightarrow> int"

definition NewRegistry :: "int \<Rightarrow> registry" where
  "NewRegistry ttl = \<lparr>dInst = Map.empty, dIdx = (\<lambda>_. []), dTTL = (if ttl \<le> 0 then 15 * second else ttl), dPicker = (\<lambda>_. 0)\<rparr>"

definition indexKey :: "string \<Rightarrow> int \<Rightarrow> string" where
  "indexKey name zoneID = ''ng:disc:idx:'' @ name @ '':'' @ FormatInt zoneID"

definition instKey :: "string \<Rightarrow> string" where
  "instKey iid = ''ng:disc:inst:'' @ iid"

definition SADD :: "string \<Rightarrow> string \<Rightarrow> (string \<Rightarrow> string list) \<Rightarrow> (string \<Rightarrow> string list)" where
  "SADD key member idx = idx(key := (if member \<in> set (idx key) then idx key else idx key @ [member]))"

definition SREM :: "string \<Rightarrow> string list \<Rightarrow> (string \<Rightarrow> string list) \<Rightarrow> (string \<Rightarrow> string list)" where
  "SREM key members idx = idx(key := filter (\<lambda>m. m \<notin> set members) (idx key))"

text \<open>A pipeline of two commands; an error of either is the error of the pipeline.\<close>

definition pipeline2 :: "outcome \<Rightarrow> outcome \<Rightarrow> ('s \<Rightarrow> 's) \<Rightarrow> ('s \<Rightarrow> 's) \<Rightarrow> 's \<Rightarrow> unit res \<times> 's" where
  "pipeline2 oc1 oc2 c1 c2 s =
     ((if oc1 = Done \<and> oc2 = Done then Inr () else Inl ErrStore),
      (let s = (if oc1 = Failed then s else c1 s) in if oc2 = Failed then s else c2 s))"

definition put_instance :: "int \<Rightarrow> service_instance \<Rightarrow> registry \<Rightarrow> registry" where
  "put_instance now inst r = r\<lparr>dInst := redis_SET now (instKey (inID inst)) (Some inst) (Some (ttl_ms (dTTL r))) (dInst r)\<rparr>"

definition index_instance :: "service_instance \<Rightarrow> registry \<Rightarrow> registry" where
  "index_instance inst r = r\<lparr>dIdx := SADD (indexKey (inName inst) (inZoneID inst)) (inID inst) (dIdx r)\<rparr>"

definition Renew :: "outcome \<Rightarrow> outcome \<Rightarrow> int \<Rightarrow> service_instance \<Rightarrow> registry \<Rightarrow> unit res \<times> registry" where
  "Renew oc1 oc2 now inst r = pipeline2 oc1 oc2 (put_instance now inst) (index_instance inst) r"

definition Register :: "outcome \<Rightarrow> outcome \<Rightarrow> int \<Rightarrow> service_instance \<Rightarrow> registry \<Rightarrow> unit res \<times> registry" where
  "Register oc1 oc2 now inst r =
     (if inID inst = [] \<or> inName inst = [] then (Inl (ErrMsg ''instance id and name required''), r)
      else pipeline2 oc1 oc2 (put_instance now inst) (index_instance inst) r)"

definition Deregister :: "outcome \<Rightarrow> outcome \<Rightarrow> service_instance \<Rightarrow> registry \<Rightarrow> unit res \<times> registry" where
  "Deregister oc1 oc2 inst r =
     pipeline2 oc1 oc2 (\<lambda>r. r\<lparr>dInst := redis_DEL (instKey (inID inst)) (dInst r)\<rparr>)
       (\<lambda>r. r\<lparr>dIdx := SREM (indexKey (inName inst) (inZoneID inst)) [inID inst] (dIdx r)\<rparr>) r"

text \<open>
  The loop of \<^verbatim>\<open>Discover\<close> over the replies: the live instances, the stale ids, or the first error.
  \<open>oc\<close> gives the outcome of the read of each id.
\<close>

fun collect :: "(string \<Rightarrow> outcome) \<Rightarrow> int \<Rightarrow> registry \<Rightarrow> string list \<Rightarrow> (service_instance list \<times> string list) res" where
  "collect oc now r [] = Inr ([], [])"
| "collect oc now r (iid # ids) =
     (if oc iid \<noteq> Done then Inl ErrStore
      else case redis_GET now (instKey iid) (dInst r) of
        Some (Some inst) \<Rightarrow> (case collect oc now r ids of Inl e \<Rightarrow> Inl e | Inr (out, stale) \<Rightarrow> Inr (inst # out, stale))
      | _ \<Rightarrow> (case collect oc now r ids of Inl e \<Rightarrow> Inl e | Inr (out, stale) \<Rightarrow> Inr (out, iid # stale)))"

definition Discover :: "outcome \<Rightarrow> (string \<Rightarrow> outcome) \<Rightarrow> outcome \<Rightarrow> int \<Rightarrow> string \<Rightarrow> int \<Rightarrow> registry \<Rightarrow> service_instance list res \<times> registry" where
  "Discover oc1 oc2 oc3 now name zoneID r =
     (if oc1 \<noteq> Done then (Inl ErrStore, r)
      else let ids = dIdx r (indexKey name zoneID) in
        if ids = [] then (Inl (ErrMsg ''no instances''), r)
        else case collect oc2 now r ids of
          Inl e \<Rightarrow> (Inl e, r)
        | Inr (out, stale) \<Rightarrow>
            let r = (if stale = [] \<or> oc3 = Failed then r else r\<lparr>dIdx := SREM (indexKey name zoneID) stale (dIdx r)\<rparr>)
            in (if out = [] then Inl (ErrMsg ''no live instances'') else Inr out, r))"

text \<open>The outcomes of one \<open>Discover\<close>.\<close>

type_synonym disc_faults = "outcome \<times> (string \<Rightarrow> outcome) \<times> outcome"

definition discover :: "disc_faults \<Rightarrow> int \<Rightarrow> string \<Rightarrow> int \<Rightarrow> registry \<Rightarrow> service_instance list res \<times> registry" where
  "discover f now name zoneID r = Discover (fst f) (fst (snd f)) (snd (snd f)) now name zoneID r"

definition Pick :: "disc_faults \<Rightarrow> int \<Rightarrow> string \<Rightarrow> int \<Rightarrow> registry \<Rightarrow> service_instance res \<times> registry" where
  "Pick f now name zoneID r =
     (case discover f now name zoneID r of
        (Inl e, r) \<Rightarrow> (Inl e, r)
      | (Inr insts, r) \<Rightarrow>
          let key = name @ '':'' @ FormatInt zoneID; n = dPicker r key
          in (Inr (insts ! nat (n mod int (length insts))), r\<lparr>dPicker := (dPicker r)(key := (n + 1) mod 2 ^ 64)\<rparr>))"

definition healthy :: "(string \<Rightarrow> bool) \<Rightarrow> service_instance \<Rightarrow> bool" where
  "healthy probe inst = (if inHTTPAddr inst = [] then inTCPAddr inst \<noteq> [] else probe (HTTPBase inst @ ''/health''))"

definition first_healthy :: "(string \<Rightarrow> bool) \<Rightarrow> service_instance list \<Rightarrow> service_instance res" where
  "first_healthy probe insts = (case find (healthy probe) insts of None \<Rightarrow> Inl (ErrMsg ''no healthy instances'') | Some i \<Rightarrow> Inr i)"

definition PickHealthy :: "disc_faults \<Rightarrow> (service_instance list \<Rightarrow> service_instance list) \<Rightarrow> (string \<Rightarrow> bool)
    \<Rightarrow> int \<Rightarrow> string \<Rightarrow> int \<Rightarrow> registry \<Rightarrow> service_instance res \<times> registry" where
  "PickHealthy f shuffle probe now name zoneID r =
     (case discover f now name zoneID r of
        (Inl e, r) \<Rightarrow> (Inl e, r)
      | (Inr insts, r) \<Rightarrow> (first_healthy probe (shuffle insts), r))"

fun discover_zones :: "(int \<Rightarrow> disc_faults) \<Rightarrow> int \<Rightarrow> string \<Rightarrow> int list \<Rightarrow> registry \<Rightarrow> service_instance list \<times> registry" where
  "discover_zones f now name [] r = ([], r)"
| "discover_zones f now name (z # zs) r =
     (case discover (f z) now name z r of
        (Inl _, r) \<Rightarrow> discover_zones f now name zs r
      | (Inr insts, r) \<Rightarrow> let (out, r) = discover_zones f now name zs r in (insts @ out, r))"

definition DiscoverAll :: "(int \<Rightarrow> disc_faults) \<Rightarrow> int \<Rightarrow> string \<Rightarrow> registry \<Rightarrow> service_instance list res \<times> registry" where
  "DiscoverAll f now name r =
     (let (out, r) = discover_zones f now name (map fst Catalog) r
      in (if out = [] then Inl (ErrMsg ''no instances'') else Inr out, r))"

definition PickHealthyGlobal :: "(int \<Rightarrow> disc_faults) \<Rightarrow> (service_instance list \<Rightarrow> service_instance list) \<Rightarrow> (string \<Rightarrow> bool)
    \<Rightarrow> int \<Rightarrow> string \<Rightarrow> registry \<Rightarrow> service_instance res \<times> registry" where
  "PickHealthyGlobal f shuffle probe now name r =
     (case DiscoverAll f now name r of
        (Inl e, r) \<Rightarrow> (Inl e, r)
      | (Inr insts, r) \<Rightarrow> (first_healthy probe (shuffle insts), r))"

section \<open>The resolver\<close>

record cache_entry =
  ceInst :: service_instance
  ceExp :: int
  ceOk :: bool

record resolver =
  rvTTL :: int
  rvCache :: "string \<Rightarrow> cache_entry option"

definition NewResolver :: "int \<Rightarrow> resolver" where
  "NewResolver ttl = \<lparr>rvTTL = (if ttl \<le> 0 then 2 * second else ttl), rvCache = Map.empty\<rparr>"

text \<open>\<^verbatim>\<open>itoa\<close>: the negation of the least 32-bit number is itself, so no digit is produced for it.\<close>

fun itoa_digits :: "nat \<Rightarrow> string" where
  "itoa_digits v = (if v = 0 then [] else itoa_digits (v div 10) @ [digit_char (v mod 10)])"

declare itoa_digits.simps [simp del]

definition itoa :: "int \<Rightarrow> string" where
  "itoa v =
     (if v = 0 then ''0''
      else let neg = v < 0; v = (if neg then i32 (- v) else v); digits = (if 0 < v then itoa_digits (nat v) else [])
           in if neg then CHR ''-'' # digits else digits)"

definition cacheKey :: "string \<Rightarrow> int \<Rightarrow> string" where
  "cacheKey name zoneID = name @ '':'' @ itoa zoneID"

definition cacheKeyGlobal :: "string \<Rightarrow> string" where
  "cacheKeyGlobal name = name @ '':global''"

definition cached :: "int \<Rightarrow> string \<Rightarrow> resolver \<Rightarrow> service_instance option" where
  "cached now key rv =
     (case rvCache rv key of None \<Rightarrow> None | Some e \<Rightarrow> if ceOk e \<and> now < ceExp e then Some (ceInst e) else None)"

text \<open>
  \<^verbatim>\<open>resolve\<close>: \<open>pick\<close> is the refresh, which may change the registry; \<open>now\<close> is the time of the two looks at
  the cache and \<open>now'\<close> the time after the refresh.
\<close>

definition resolve :: "int \<Rightarrow> int \<Rightarrow> string \<Rightarrow> ('s \<Rightarrow> service_instance res \<times> 's) \<Rightarrow> resolver \<times> 's \<Rightarrow> service_instance option \<times> resolver \<times> 's" where
  "resolve now now' key pick s =
     (let (rv, reg) = s in
      case cached now key rv of
        Some inst \<Rightarrow> (Some inst, rv, reg)
      | None \<Rightarrow>
          case pick reg of
            (Inl _, reg) \<Rightarrow>
              (case rvCache rv key of
                 Some e \<Rightarrow> (if ceOk e then Some (ceInst e) else None, rv, reg)
               | None \<Rightarrow> (None, rv, reg))
          | (Inr inst, reg) \<Rightarrow>
              (Some inst, rv\<lparr>rvCache := (rvCache rv)(key \<mapsto> \<lparr>ceInst = inst, ceExp = now' + rvTTL rv, ceOk = True\<rparr>)\<rparr>, reg))"

text \<open>The resolver and the registry, or \<^const>\<open>None\<close> when either is nil.\<close>

definition Resolve :: "disc_faults \<Rightarrow> (service_instance list \<Rightarrow> service_instance list) \<Rightarrow> (string \<Rightarrow> bool) \<Rightarrow> int \<Rightarrow> int
    \<Rightarrow> string \<Rightarrow> int \<Rightarrow> (resolver \<times> registry) option \<Rightarrow> service_instance option \<times> (resolver \<times> registry) option" where
  "Resolve f shuffle probe now now' name zoneID s =
     (case s of
        None \<Rightarrow> (None, None)
      | Some s \<Rightarrow> let (x, s) = resolve now now' (cacheKey name zoneID) (PickHealthy f shuffle probe now name zoneID) s in (x, Some s))"

definition ResolveGlobal :: "(int \<Rightarrow> disc_faults) \<Rightarrow> (service_instance list \<Rightarrow> service_instance list) \<Rightarrow> (string \<Rightarrow> bool) \<Rightarrow> int \<Rightarrow> int
    \<Rightarrow> string \<Rightarrow> (resolver \<times> registry) option \<Rightarrow> service_instance option \<times> (resolver \<times> registry) option" where
  "ResolveGlobal f shuffle probe now now' name s =
     (case s of
        None \<Rightarrow> (None, None)
      | Some s \<Rightarrow> let (x, s) = resolve now now' (cacheKeyGlobal name) (PickHealthyGlobal f shuffle probe now name) s in (x, Some s))"

section \<open>Histories of the registry\<close>

datatype disc_op =
    DRegister outcome outcome int service_instance
  | DRenew outcome outcome int service_instance
  | DDeregister outcome outcome service_instance
  | DDiscover disc_faults int string int

fun disc_step :: "registry \<Rightarrow> disc_op \<Rightarrow> registry" where
  "disc_step r (DRegister oc1 oc2 now inst) = snd (Register oc1 oc2 now inst r)"
| "disc_step r (DRenew oc1 oc2 now inst) = snd (Renew oc1 oc2 now inst r)"
| "disc_step r (DDeregister oc1 oc2 inst) = snd (Deregister oc1 oc2 inst r)"
| "disc_step r (DDiscover f now name zoneID) = snd (discover f now name zoneID r)"

definition disc_run :: "disc_op list \<Rightarrow> registry \<Rightarrow> registry" where
  "disc_run ops r = foldl disc_step r ops"

text \<open>The instance and time of a write that reached the instance key.\<close>

fun lease_write :: "disc_op \<Rightarrow> (service_instance \<times> int) option" where
  "lease_write (DRegister oc1 oc2 now inst) = (if oc1 = Failed \<or> inID inst = [] \<or> inName inst = [] then None else Some (inst, now))"
| "lease_write (DRenew oc1 oc2 now inst) = (if oc1 = Failed then None else Some (inst, now))"
| "lease_write _ = None"

text \<open>An operation that leaves alone a lease of instance \<open>iid\<close> that runs until the millisecond \<open>w\<close>.\<close>

fun leaves_alone :: "string \<Rightarrow> int \<Rightarrow> disc_op \<Rightarrow> bool" where
  "leaves_alone iid w (DRegister oc1 oc2 now inst) = (inID inst \<noteq> iid)"
| "leaves_alone iid w (DRenew oc1 oc2 now inst) = (inID inst \<noteq> iid)"
| "leaves_alone iid w (DDeregister oc1 oc2 inst) = (inID inst \<noteq> iid)"
| "leaves_alone iid w (DDiscover f now name zoneID) = (millis now \<le> w)"

definition leased :: "service_instance \<Rightarrow> int \<Rightarrow> registry \<Rightarrow> bool" where
  "leased inst w r \<longleftrightarrow> dInst r (instKey (inID inst)) = Some (Some inst, Some w)
     \<and> inID inst \<in> set (dIdx r (indexKey (inName inst) (inZoneID inst)))"

lemma instKey_inj [simp]: "instKey a = instKey b \<longleftrightarrow> a = b"
  by (simp add: instKey_def)

lemma set_SADD: "set (SADD key m idx key') = (if key' = key then insert m (set (idx key)) else set (idx key'))"
  by (auto simp: SADD_def)

lemma set_SREM: "set (SREM key ms idx key') = (if key' = key then set (idx key) - set ms else set (idx key'))"
  by (auto simp: SREM_def)

lemma collect_Done:
  "\<exists>out stale. collect (\<lambda>_. Done) now r ids = Inr (out, stale) \<and>
     set out = {inst. \<exists>iid \<in> set ids. redis_GET now (instKey iid) (dInst r) = Some (Some inst)}"
proof (induction ids)
  case Nil
  then show ?case by simp
next
  case (Cons iid ids)
  then obtain out stale where "collect (\<lambda>_. Done) now r ids = Inr (out, stale)"
    "set out = {inst. \<exists>iid \<in> set ids. redis_GET now (instKey iid) (dInst r) = Some (Some inst)}" by blast
  then show ?case by (auto split: option.splits)
qed

lemma collect_stale:
  "collect oc now r ids = Inr (out, stale) \<Longrightarrow> iid \<in> set stale \<Longrightarrow> \<forall>inst. redis_GET now (instKey iid) (dInst r) \<noteq> Some (Some inst)"
  by (induction ids arbitrary: out stale) (auto split: if_splits option.splits sum.splits)

lemma discover_dInst: "dInst (snd (discover f now name zoneID r)) = dInst r"
  by (auto simp: discover_def Discover_def Let_def split: sum.splits)

lemma discover_keeps:
  assumes "redis_GET now (instKey iid) (dInst r) = Some (Some inst)" and "iid \<in> set (dIdx r key)"
  shows "iid \<in> set (dIdx (snd (discover f now name zoneID r)) key)"
  using assms collect_stale
  by (fastforce simp: discover_def Discover_def Let_def set_SREM split: sum.splits)

lemma leased_step:
  assumes "leased inst w r" and "leaves_alone (inID inst) w op"
  shows "leased inst w (disc_step r op)"
proof (cases op)
  case (DDiscover f now name zoneID)
  then have "redis_GET now (instKey (inID inst)) (dInst r) = Some (Some inst)"
    using assms by (simp add: leased_def redis_GET_def)
  then show ?thesis
    using assms(1) DDiscover by (simp add: leased_def discover_dInst discover_keeps)
qed (use assms in \<open>auto simp: leased_def Register_def Renew_def Deregister_def pipeline2_def put_instance_def index_instance_def
      redis_SET_def redis_DEL_def set_SADD set_SREM Let_def\<close>)

lemma leased_run: "leased inst w r \<Longrightarrow> list_all (leaves_alone (inID inst) w) ops \<Longrightarrow> leased inst w (disc_run ops r)"
  by (induction ops arbitrary: r) (simp_all add: disc_run_def leased_step)

lemma disc_step_TTL [simp]: "dTTL (disc_step r op) = dTTL r"
  by (cases op) (auto simp: Register_def Renew_def Deregister_def pipeline2_def put_instance_def index_instance_def
      discover_def Discover_def Let_def split: sum.splits)

lemma disc_run_TTL [simp]: "dTTL (disc_run ops r) = dTTL r"
  by (induction ops arbitrary: r) (simp_all add: disc_run_def)

lemma step_leases:
  assumes "dInst (disc_step r op) key = Some e"
  shows "dInst r key = Some e \<or> (\<exists>inst t. lease_write op = Some (inst, t) \<and> e = (Some inst, Some (millis t + ttl_ms (dTTL r))))"
  using assms
  by (cases op) (auto simp: Register_def Renew_def Deregister_def pipeline2_def put_instance_def index_instance_def
      redis_SET_def redis_DEL_def discover_dInst Let_def split: if_splits)

lemma run_leases:
  "dInst (disc_run ops (NewRegistry ttl)) key = Some e \<Longrightarrow>
     \<exists>op \<in> set ops. \<exists>inst t. lease_write op = Some (inst, t) \<and> e = (Some inst, Some (millis t + ttl_ms (dTTL (NewRegistry ttl))))"
proof (induction ops rule: rev_induct)
  case Nil
  then show ?case by (simp add: disc_run_def NewRegistry_def)
next
  case (snoc op ops)
  let ?r = "disc_run ops (NewRegistry ttl)"
  have "dInst (disc_step ?r op) key = Some e" using snoc.prems by (simp add: disc_run_def)
  from step_leases [OF this] snoc.IH show ?case by auto
qed


definition demo_instance :: service_instance where
  "demo_instance = \<lparr>inID = ''a'', inName = ''game'', inZoneID = 1, inHTTPAddr = ''h:1'', inTCPAddr = [], inGRPCAddr = []\<rparr>"


section \<open>Pods and shards\<close>


definition demo_pods :: "int \<Rightarrow> service_config" where
  "demo_pods i = zero_config\<lparr>sScale := (sScale zero_config)\<lparr>scShardID := i, scShardCount := 2\<rparr>\<rparr>"

lemma demo_pods_load: "i = 0 \<or> i = 1 \<Longrightarrow> config_Load (pod_env (\<lambda>_. []) ''game'' 2 i) (Inr zero_config) = Inr (demo_pods i)"
proof -
  assume i: "i = 0 \<or> i = 1"
  let ?env = "pod_env (\<lambda>_. []) ''game'' 2 i"
  have "shardIDFromEnv ?env = Inr (i, True)"
    by (rule shardIDFromEnv_pod [where base = "''game''"]) (use i in \<open>auto simp: pod_env_def in_i32_def\<close>)
  moreover have "override_int32 ?env ''NG_SHARD_COUNT'' 0 = Inr 2"
    by (simp add: override_int32_def pod_env_def Atoi_FormatInt in_i64_def in_i32_def)
  ultimately show ?thesis
    using i by (auto simp: config_Load_def applyEnvOverrides_def override_scale_def override_infra_def override_pod_ip_def
        override_addresses_def override_bool_def override_list_def override_def override_int32_def Let_def
        zero_config_def demo_pods_def pod_env_def validate_simps)
qed


section \<open>Addresses\<close>

text \<open>
  The production check looks at the configured advertise addresses only. A process without one
  registers the loopback host for a wildcard listen address, in production too.
\<close>

lemma production_registers_loopback:
  "config_Load prod_env (Inr zero_config) = Inr prod_cfg \<and> Production prod_cfg
   \<and> inHTTPAddr (InstanceFromConfig 1 prod_cfg) = ''127.0.0.1:9100''"
proof -
  have "PublishAddr '':9100'' = ''127.0.0.1:9100''"
    by (simp add: PublishAddr_def SplitHostPort_def JoinHostPort_def LastIndexByte_def)
  moreover have "sHTTPAddr prod_cfg = '':9100''" "sAdvertiseHTTPAddr prod_cfg = []"
    by (simp_all add: prod_cfg_def zero_config_def)
  ultimately show ?thesis
    by (simp add: prod_cfg_load prod_cfg_production InstanceFromConfig_def AdvertiseAddr_def)
qed

lemma itoa_least: "itoa (- (2 ^ 31)) = ''-''"
  by (simp add: itoa_def i32_def)

lemma itoa_digits_nat: "0 < n \<Longrightarrow> itoa_digits n = nat_digits n"
proof (induction n rule: nat_digits_induct)
  case (small n)
  then show ?case by (subst itoa_digits.simps) (simp add: nat_digits_small itoa_digits.simps [of 0])
next
  case (big n)
  then show ?case by (subst itoa_digits.simps) (simp add: nat_digits_big)
qed

lemma itoa_FormatInt: "in_i32 v \<Longrightarrow> v \<noteq> - (2 ^ 31) \<Longrightarrow> itoa v = FormatInt v"
  by (cases v "0::int" rule: linorder_cases)
    (simp_all add: itoa_def FormatInt_def in_i32_def itoa_digits_nat nat_digits_small digit_char_def)

lemma cacheKey_not_global: "cacheKey name zoneID \<noteq> cacheKeyGlobal name'"
proof -
  have dig: "set (itoa_digits n) \<subseteq> set ''0123456789''" for n
  proof (cases "n = 0")
    case False
    then show ?thesis using nat_digits_chars [of _ n] by (fastforce simp: itoa_digits_nat digit_char_def dest!: less_10_cases)
  qed (simp add: itoa_digits.simps)
  have "last (cacheKey name zoneID) \<noteq> CHR ''l''"
    using dig [of "nat zoneID"] dig [of "nat (i32 (- zoneID))"]
    by (cases "itoa zoneID = []") (auto simp: cacheKey_def itoa_def Let_def split: if_splits dest!: last_in_set)
  then show ?thesis by (auto simp: cacheKeyGlobal_def)
qed

end
