(* ===== verification/Sorted_Sets.thy ===== *)
theory Sorted_Sets
  imports Redis_Store "HOL-Library.AList" "HOL-Library.Char_ord" "HOL-Library.List_Lexorder" "HOL-Library.Product_Lexorder"
begin

text \<open>
  Redis sorted sets as the services use them: members with scores, kept in order of score and, for
  equal scores, of the bytes of the member. Scores are IEEE doubles; every score the program writes
  is a conversion of an integer or a sum of such, so it is a whole number and is kept as an \<^typ>\<open>int\<close>
  that \<open>f64\<close> rounds to 53 significant bits.
\<close>

section \<open>Whole numbers as doubles\<close>

fun bit_count :: "nat \<Rightarrow> nat" where
  "bit_count n = (if n = 0 then 0 else Suc (bit_count (n div 2)))"

declare bit_count.simps [simp del]

text \<open>Round to nearest, ties to even.\<close>

definition round_bits :: "nat \<Rightarrow> nat \<Rightarrow> nat" where
  "round_bits k n =
     (let q = n div 2 ^ k; r = n mod 2 ^ k
      in (if 2 * r > 2 ^ k \<or> (2 * r = 2 ^ k \<and> odd q) then q + 1 else q) * 2 ^ k)"

definition f64 :: "int \<Rightarrow> int" where
  "f64 x = (if \<bar>x\<bar> \<le> 2 ^ 53 then x
     else let n = nat \<bar>x\<bar> in sgn x * int (round_bits (bit_count n - 53) n))"

lemma f64_small: "\<bar>x\<bar> \<le> 2 ^ 53 \<Longrightarrow> f64 x = x"
  by (simp add: f64_def)

section \<open>Commands\<close>

type_synonym zset = "(string \<times> int) list"

definition ZINCRBY :: "int \<Rightarrow> string \<Rightarrow> zset \<Rightarrow> zset" where
  "ZINCRBY d k z = AList.update k (f64 ((case map_of z k of None \<Rightarrow> 0 | Some s \<Rightarrow> s) + d)) z"

text \<open>\<^verbatim>\<open>ZADD\<close> with the option \<^verbatim>\<open>GT\<close>: a new member is added, an old one only moves up.\<close>

definition ZADD_GT :: "int \<Rightarrow> string \<Rightarrow> zset \<Rightarrow> zset" where
  "ZADD_GT v k z = (case map_of z k of
       None \<Rightarrow> AList.update k v z
     | Some s \<Rightarrow> if s < v then AList.update k v z else z)"

definition zentries :: "zset \<Rightarrow> (int \<times> string) list" where
  "zentries z = map (\<lambda>(k, s). (s, k)) z"

definition zorder :: "zset \<Rightarrow> (int \<times> string) list" where
  "zorder z = sort (zentries z)"

text \<open>\<^verbatim>\<open>ZREVRANGE key 0 (n - 1) WITHSCORES\<close>.\<close>

definition ZREVRANGE :: "nat \<Rightarrow> zset \<Rightarrow> (int \<times> string) list" where
  "ZREVRANGE n z = take n (rev (zorder z))"

text \<open>\<^verbatim>\<open>ZREMRANGEBYRANK key 0 stop\<close>; a negative rank counts from the end.\<close>

definition ZREMRANGEBYRANK :: "int \<Rightarrow> zset \<Rightarrow> zset" where
  "ZREMRANGEBYRANK stop z =
     (let last = (if stop < 0 then int (length z) + stop else stop)
      in map (\<lambda>(s, k). (k, s)) (drop (nat (last + 1)) (zorder z)))"

definition zset_ok :: "zset \<Rightarrow> bool" where
  "zset_ok z \<longleftrightarrow> distinct (map fst z)"

lemma zset_ok_Nil [simp]: "zset_ok []"
  by (simp add: zset_ok_def)

lemma zset_ok_update [simp]: "zset_ok z \<Longrightarrow> zset_ok (AList.update k v z)"
  by (simp add: zset_ok_def distinct_update)

lemma zset_ok_ZINCRBY [simp]: "zset_ok z \<Longrightarrow> zset_ok (ZINCRBY d k z)"
  by (simp add: ZINCRBY_def)

lemma zset_ok_ZADD_GT [simp]: "zset_ok z \<Longrightarrow> zset_ok (ZADD_GT v k z)"
  by (simp add: ZADD_GT_def split: option.split)

lemma map_of_ZADD_GT:
  "map_of (ZADD_GT v k z) = (map_of z)(k \<mapsto> (case map_of z k of None \<Rightarrow> v | Some s \<Rightarrow> max s v))"
  by (auto simp: ZADD_GT_def update_conv' fun_eq_iff max_def split: option.split)

lemma set_zentries: "zset_ok z \<Longrightarrow> (s, k) \<in> set (zentries z) \<longleftrightarrow> map_of z k = Some s"
  by (force simp: zentries_def zset_ok_def)

lemma distinct_zentries: "zset_ok z \<Longrightarrow> distinct (zentries z)"
  unfolding zset_ok_def zentries_def by (induction z) force+

lemma zorder_entries: "zset_ok z \<Longrightarrow> zorder z = sorted_list_of_set (set (zentries z))"
  by (simp add: zorder_def sorted_list_of_set_sort_remdups distinct_remdups_id distinct_zentries)

lemma length_zorder [simp]: "length (zorder z) = length z"
  by (simp add: zorder_def zentries_def)

text \<open>A set of entries in which every member has one score gives back the entries it came from.\<close>

lemma zentries_flip [simp]: "zentries (map (\<lambda>(s, k). (k, s)) es) = es"
  by (simp add: zentries_def case_prod_unfold comp_def)

lemma zset_ok_trim [simp]: "zset_ok z \<Longrightarrow> zset_ok (ZREMRANGEBYRANK stop z)"
proof -
  assume z: "zset_ok z"
  have "inj_on snd (set (zentries z))"
    by (rule inj_onI) (use set_zentries [OF z] in force)
  then have "distinct (map snd (zorder z))"
    using distinct_zentries [OF z] by (simp add: distinct_map zorder_def)
  then show ?thesis
    by (simp add: zset_ok_def ZREMRANGEBYRANK_def Let_def case_prod_unfold comp_def flip: drop_map)
qed

section \<open>The greatest elements of a finite set\<close>

definition above :: "'a::linorder set \<Rightarrow> 'a \<Rightarrow> 'a set" where
  "above S x = {y \<in> S. x < y}"

definition tops :: "nat \<Rightarrow> 'a::linorder set \<Rightarrow> 'a set" where
  "tops n S = {x \<in> S. card (above S x) < n}"

definition descending :: "'a::linorder set \<Rightarrow> 'a list" where
  "descending S = rev (sorted_list_of_set S)"

lemma tops_subset: "tops n S \<subseteq> S"
  by (auto simp: tops_def)

lemma above_nth:
  assumes "finite S" and "i < card S"
  shows "above S (descending S ! i) = set (take i (descending S))"
proof -
  let ?xs = "descending S"
  have len: "length ?xs = card S" and S: "set ?xs = S" using assms(1) by (simp_all add: descending_def)
  have dec: "sorted_wrt (>) ?xs" by (simp add: descending_def sorted_wrt_rev)
  then have lt: "\<And>i j. i < j \<Longrightarrow> j < card S \<Longrightarrow> ?xs ! j < ?xs ! i" using len by (simp add: sorted_wrt_iff_nth_less)
  have "?xs ! i < ?xs ! j \<longleftrightarrow> j < i" if "j < card S" for j
    using lt [of i j] lt [of j i] that assms(2) by (cases i j rule: linorder_cases) auto
  moreover have "set (take n ?xs) = nth ?xs ` {0..<n}" if "n \<le> card S" for n
    using nth_image [of n ?xs] that len by simp
  from this [of i] this [of "card S"] have "set (take i ?xs) = nth ?xs ` {0..<i}" "y \<in> S \<longleftrightarrow> y \<in> nth ?xs ` {0..<card S}" for y
    using assms(2) S len by simp_all
  ultimately show ?thesis using assms(2) by (auto simp: above_def)
qed

lemma card_above_nth: "finite S \<Longrightarrow> i < card S \<Longrightarrow> card (above S (descending S ! i)) = i"
  by (subst above_nth) (auto simp: distinct_card descending_def min_def)

lemma set_take_descending:
  assumes "finite S"
  shows "set (take n (descending S)) = tops n S"
proof -
  have len: "length (descending S) = card S" and S: "set (descending S) = S" using assms by (simp_all add: descending_def)
  show ?thesis
  proof (intro set_eqI iffI)
    fix x assume "x \<in> set (take n (descending S))"
    then obtain i where i: "i < n" "i < card S" "x = descending S ! i" by (auto simp: in_set_conv_nth len)
    moreover have "x \<in> S" using i nth_mem [of i "descending S"] len S by simp
    ultimately show "x \<in> tops n S" using card_above_nth [OF assms, of i] by (simp add: tops_def)
  next
    fix x assume x: "x \<in> tops n S"
    then obtain i where i: "i < card S" "x = descending S ! i"
      using S len by (metis in_set_conv_nth subsetD tops_subset)
    then have "i < n" using x card_above_nth [OF assms, of i] by (simp add: tops_def)
    with i show "x \<in> set (take n (descending S))" by (auto simp: in_set_conv_nth len)
  qed
qed

lemma card_tops: "finite S \<Longrightarrow> card (tops n S) = min n (card S)"
  by (simp add: set_take_descending [symmetric] distinct_card descending_def)

lemma tops_above:
  assumes "finite S" and "n \<le> card (above S x)" and "y \<in> tops n S"
  shows "x < y"
proof (rule ccontr)
  assume "\<not> x < y"
  then have "above S x \<subseteq> above S y" by (auto simp: above_def)
  then have "card (above S x) \<le> card (above S y)" using assms(1) by (intro card_mono) (auto simp: above_def)
  with assms show False by (auto simp: tops_def)
qed

lemma card_above_tops:
  assumes "finite S" and "n \<le> card (above S x)"
  shows "card (above (tops n S) x) = n"
proof -
  have "above (tops n S) x = tops n S" using tops_above [OF assms] by (auto simp: above_def)
  moreover have "n \<le> card S" using assms(2) card_mono [OF assms(1), of "above S x"] by (auto simp: above_def)
  ultimately show ?thesis using card_tops [OF assms(1)] by simp
qed

lemma take_descending: "finite S \<Longrightarrow> take n (descending S) = descending (tops n S)"
proof -
  assume S: "finite S"
  then have fin: "finite (tops n S)" by (meson finite_subset tops_subset)
  have "sorted (rev (take n (descending S)))" "distinct (rev (take n (descending S)))"
    by (simp_all add: descending_def rev_take sorted_wrt_drop)
  moreover have "set (rev (take n (descending S))) = tops n S" using set_take_descending [OF S] by simp
  ultimately have "sorted_list_of_set (tops n S) = rev (take n (descending S))"
    using fin by (metis sorted_list_of_set.idem_if_sorted_distinct)
  then show ?thesis by (simp add: descending_def)
qed

lemma same_tops:
  assumes "tops n S = tops n T" and "finite S" and "finite T" and "m \<le> n"
  shows "take m (descending S) = take m (descending T)"
  using take_descending [OF assms(2), of n] take_descending [OF assms(3), of n] assms(1,4)
  by (metis min.absorb1 take_take)

lemma ZREVRANGE_descending: "zset_ok z \<Longrightarrow> ZREVRANGE n z = take n (descending (set (zentries z)))"
  by (simp add: ZREVRANGE_def zorder_entries descending_def)

lemma trim_entries:
  assumes "zset_ok z"
  shows "set (zentries (ZREMRANGEBYRANK (- int cap - 1) z)) = tops cap (set (zentries z))"
proof -
  have "drop (length z - cap) (zorder z) = rev (take cap (rev (zorder z)))" by (simp add: take_rev)
  moreover have "nat (int (length z) + (- int cap - 1) + 1) = length z - cap" by simp
  ultimately show ?thesis
    using set_take_descending [of "set (zentries z)" cap] assms
    by (simp add: ZREMRANGEBYRANK_def Let_def zorder_entries descending_def)
qed

section \<open>Trimming a board that only grows\<close>

text \<open>
  \<open>best\<close> is what every member reached, \<open>z\<close> the board that is trimmed to \<open>cap\<close> entries now and then. A
  member whose best is missing from the board has at least \<open>cap\<close> entries of the board above it.
\<close>

definition trimmed :: "nat \<Rightarrow> zset \<Rightarrow> zset \<Rightarrow> bool" where
  "trimmed cap best z \<longleftrightarrow> zset_ok best \<and> zset_ok z \<and>
     (\<forall>k s. map_of z k = Some s \<longrightarrow> (\<exists>b. map_of best k = Some b \<and> s \<le> b)) \<and>
     (\<forall>k b. map_of best k = Some b \<longrightarrow> map_of z k = Some b \<or> cap \<le> card (above (set (zentries z)) (b, k)))"

lemma trimmed_Nil [simp]: "trimmed cap [] []"
  by (simp add: trimmed_def)

lemma card_above_keys:
  assumes "zset_ok z" and "zset_ok z'" and "\<And>k s. k \<noteq> snd x \<or> s \<noteq> fst x \<Longrightarrow> map_of z k = Some s \<Longrightarrow> \<exists>s'. map_of z' k = Some s' \<and> s \<le> s'"
  shows "card (above (set (zentries z)) x) \<le> card (above (set (zentries z')) x)"
proof -
  have inj: "inj_on snd (above (set (zentries y)) x)" if "zset_ok y" for y
    by (rule inj_onI) (use set_zentries [OF that] in \<open>force simp: above_def\<close>)
  have "snd ` above (set (zentries z)) x \<subseteq> snd ` above (set (zentries z')) x"
  proof
    fix k assume "k \<in> snd ` above (set (zentries z)) x"
    then obtain s where s: "map_of z k = Some s" "x < (s, k)" by (force simp: above_def set_zentries [OF assms(1)])
    then have "k \<noteq> snd x \<or> s \<noteq> fst x" by (cases x) auto
    then obtain s' where "map_of z' k = Some s'" "s \<le> s'" using assms(3) s(1) by blast
    moreover from this have "x < (s', k)" using s(2) by (cases x) auto
    ultimately show "k \<in> snd ` above (set (zentries z')) x"
      by (force simp: above_def set_zentries [OF assms(2)] image_iff)
  qed
  then have "card (snd ` above (set (zentries z)) x) \<le> card (snd ` above (set (zentries z')) x)"
    by (rule card_mono [rotated]) (simp add: above_def)
  then show ?thesis using inj [OF assms(1)] inj [OF assms(2)] by (simp add: card_image)
qed

lemma trimmed_write:
  assumes "trimmed cap best z"
  shows "trimmed cap (ZADD_GT v k best) (ZADD_GT v k z)"
proof -
  note t = assms [unfolded trimmed_def]
  let ?z = "ZADD_GT v k z" and ?best = "ZADD_GT v k best"
  have mono: "card (above (set (zentries z)) x) \<le> card (above (set (zentries ?z)) x)" for x
    using t by (intro card_above_keys) (auto simp: map_of_ZADD_GT split: option.splits)
  have "map_of ?z k' = Some b \<or> cap \<le> card (above (set (zentries ?z)) (b, k'))" if b: "map_of ?best k' = Some b" for k' b
  proof (cases "k' = k")
    case False
    then show ?thesis using t b mono [of "(b, k')"] by (force simp: map_of_ZADD_GT)
  next
    case True
    show ?thesis
    proof (cases "map_of best k")
      case None
      then have "map_of z k = None" using t by (metis not_None_eq)
      then show ?thesis using b True None by (simp add: map_of_ZADD_GT)
    next
      case (Some c)
      then have bc: "b = max c v" using b True by (simp add: map_of_ZADD_GT)
      from t Some consider "map_of z k = Some c" | "cap \<le> card (above (set (zentries z)) (c, k))" by blast
      then show ?thesis
      proof cases
        case 1
        then show ?thesis using bc True by (simp add: map_of_ZADD_GT)
      next
        case 2
        have le: "s \<le> c" if "map_of z k = Some s" for s using t Some that by fastforce
        show ?thesis
        proof (cases "c < v")
          case True
          then show ?thesis using bc \<open>k' = k\<close> le by (auto simp: map_of_ZADD_GT max_def split: option.splits)
        next
          case False
          then show ?thesis using bc 2 mono [of "(c, k)"] \<open>k' = k\<close> by (simp add: max_def)
        qed
      qed
    qed
  qed
  moreover have "\<exists>b. map_of ?best k' = Some b \<and> s \<le> b" if "map_of ?z k' = Some s" for k' s
    using that t by (cases "k' = k") (fastforce simp: map_of_ZADD_GT split: option.splits)+
  ultimately show ?thesis using t by (simp add: trimmed_def)
qed

lemma trimmed_trim:
  assumes "trimmed cap best z"
  shows "trimmed cap best (ZREMRANGEBYRANK (- int cap - 1) z)"
proof -
  note t = assms [unfolded trimmed_def]
  let ?z = "ZREMRANGEBYRANK (- int cap - 1) z" and ?E = "set (zentries z)"
  have ok: "zset_ok z" "zset_ok ?z" using t by simp_all
  have E: "set (zentries ?z) = tops cap ?E" by (rule trim_entries [OF ok(1)])
  have keep: "map_of ?z k = Some s \<longleftrightarrow> map_of z k = Some s \<and> card (above ?E (s, k)) < cap" for k s
    using E set_zentries [OF ok(1), of s k] set_zentries [OF ok(2), of s k] by (auto simp: tops_def)
  have full: "card (above (set (zentries ?z)) x) = cap" if "cap \<le> card (above ?E x)" for x
    unfolding E using that by (intro card_above_tops) simp_all
  have "map_of ?z k = Some b \<or> cap \<le> card (above (set (zentries ?z)) (b, k))" if "map_of best k = Some b" for k b
    using t that keep [of k b] full [of "(b, k)"] by (metis le_refl not_less)
  then show ?thesis using t ok keep unfolding trimmed_def by metis
qed

lemma trimmed_top:
  assumes "trimmed cap best z" and "n \<le> cap"
  shows "ZREVRANGE n z = ZREVRANGE n best"
proof -
  note t = assms(1) [unfolded trimmed_def]
  have ok: "zset_ok z" "zset_ok best" using t by simp_all
  let ?Z = "set (zentries z)" and ?B = "set (zentries best)"
  have le: "card (above ?Z x) \<le> card (above ?B x)" for x
    using t by (intro card_above_keys) blast+
  have sub: "tops cap ?B \<subseteq> tops cap ?Z"
  proof
    fix x assume x: "x \<in> tops cap ?B"
    obtain b k where [simp]: "x = (b, k)" by fastforce
    have "card (above ?Z x) < cap" using x le [of x] by (simp add: tops_def)
    moreover have "map_of best k = Some b" using x set_zentries [OF ok(2)] by (simp add: tops_def)
    ultimately show "x \<in> tops cap ?Z" using t set_zentries [OF ok(1), of b k] by (fastforce simp: tops_def)
  qed
  have "x \<in> tops cap ?B" if x: "x \<in> tops cap ?Z" for x
  proof -
    obtain s k where [simp]: "x = (s, k)" by fastforce
    have s: "map_of z k = Some s" and c: "card (above ?Z (s, k)) < cap" using x set_zentries [OF ok(1)] by (simp_all add: tops_def)
    then obtain b where b: "map_of best k = Some b" "s \<le> b" using t by blast
    have "above ?Z (b, k) \<subseteq> above ?Z (s, k)" using b(2) by (auto simp: above_def)
    then have "card (above ?Z (b, k)) \<le> card (above ?Z (s, k))" by (intro card_mono) (auto simp: above_def)
    then have "map_of z k = Some b" using t b(1) c by fastforce
    then have "x \<in> ?B" using b(1) s set_zentries [OF ok(2)] by simp
    moreover have "card (above ?B x) < cap"
    proof (rule ccontr)
      assume "\<not> card (above ?B x) < cap"
      then have "card (above (tops cap ?B) x) = cap" by (intro card_above_tops) simp_all
      moreover have "above (tops cap ?B) x \<subseteq> above ?Z x" using sub by (auto simp: above_def tops_def)
      then have "card (above (tops cap ?B) x) \<le> card (above ?Z x)" by (intro card_mono) (auto simp: above_def)
      ultimately show False using c by simp
    qed
    ultimately show ?thesis by (simp add: tops_def)
  qed
  with sub have "tops cap ?Z = tops cap ?B" by blast
  then show ?thesis
    unfolding ZREVRANGE_descending [OF ok(1)] ZREVRANGE_descending [OF ok(2)] by (rule same_tops [OF _ _ _ assms(2)]) simp_all
qed

end
