(* ===== verification/Rank_Service.thy ===== *)
theory Rank_Service
  imports Sorted_Sets Sessions Config
begin

text \<open>
  The rank service (\<^verbatim>\<open>services/rank/internal/server.go\<close>, keys in \<^verbatim>\<open>pkg/rankkey\<close>): scores arrive as events
  of the message stream or as requests, and are written to the board of the zone and to the global
  board; a background loop trims the boards to their capacity.
\<close>

definition rank_Zone :: "int \<Rightarrow> string \<Rightarrow> string" where
  "rank_Zone zoneID board = ''rank:zone:'' @ FormatInt zoneID @ '':'' @ board"

definition rank_Global :: "string \<Rightarrow> string" where
  "rank_Global board = ''rank:global:'' @ board"

definition rank_Member :: "int \<Rightarrow> int \<Rightarrow> string" where
  "rank_Member zoneID roleID = ''z'' @ FormatInt zoneID @ '':'' @ FormatInt roleID"

definition rank_Legacy :: "string \<Rightarrow> string" where
  "rank_Legacy board = ''rank:'' @ board"

record rank_request =
  rqZoneId :: int
  rqRoleId :: int
  rqScore :: int
  rqBoard :: string

record rank_srv =
  rkCfg :: service_config
  rkKeys :: "string list"
  rkSets :: "string \<Rightarrow> zset"

definition zadd :: "string \<Rightarrow> int \<Rightarrow> string \<Rightarrow> rank_srv \<Rightarrow> rank_srv" where
  "zadd key score member s = s\<lparr>rkSets := (rkSets s)(key := ZADD_GT score member (rkSets s key))\<rparr>"

definition store_key :: "string \<Rightarrow> rank_srv \<Rightarrow> rank_srv" where
  "store_key key s = s\<lparr>rkKeys := List.insert key (rkKeys s)\<rparr>"

definition score_member :: "rank_request \<Rightarrow> string" where
  "score_member req = (if 0 < rqZoneId req then rank_Member (rqZoneId req) (rqRoleId req) else FormatInt (rqRoleId req))"

definition score_zone :: "service_config \<Rightarrow> rank_request \<Rightarrow> int" where
  "score_zone cfg req = (if rqZoneId req = 0 then sZoneID cfg else rqZoneId req)"

definition writeScore :: "outcome \<Rightarrow> outcome \<Rightarrow> rank_request \<Rightarrow> rank_srv \<Rightarrow> err option \<times> rank_srv" where
  "writeScore oc1 oc2 req s =
     (let member = score_member req; score = f64 (rqScore req);
          zoneKey = rank_Zone (score_zone (rkCfg s) req) (rqBoard req); globalKey = rank_Global (rqBoard req)
      in case store_call oc1 s (Inr (), zadd zoneKey score member s) of
           (Inl e, s) \<Rightarrow> (Some e, s)
         | (Inr _, s) \<Rightarrow>
             case store_call oc2 s (Inr (), zadd globalKey score member s) of
               (Inl e, s) \<Rightarrow> (Some e, s)
             | (Inr _, s) \<Rightarrow> (None, store_key globalKey (store_key zoneKey s)))"

text \<open>One round of \<^verbatim>\<open>trimLoop\<close>; \<open>oc\<close> is the outcome of the command for each key.\<close>

definition trim_key :: "(string \<Rightarrow> outcome) \<Rightarrow> rank_srv \<Rightarrow> string \<Rightarrow> rank_srv" where
  "trim_key oc s key =
     (if oc key = Failed then s
      else s\<lparr>rkSets := (rkSets s)(key := ZREMRANGEBYRANK (- RankCap (sRank (rkCfg s)) - 1) (rkSets s key))\<rparr>)"

definition trim_round :: "(string \<Rightarrow> outcome) \<Rightarrow> rank_srv \<Rightarrow> rank_srv" where
  "trim_round oc s = foldl (trim_key oc) s (rkKeys s)"

text \<open>The subscription: an event that does not decode is an error, and so is redelivered.\<close>

definition rank_body :: "body \<Rightarrow> rank_request option" where
  "rank_body p =
     (if json_valid [(''zone_id'', JNum 32), (''role_id'', JNum 64), (''score'', JNum 64), (''board'', JStr [])] p
      then Some \<lparr>rqZoneId = json_int32 ''zone_id'' p, rqRoleId = json_int64 ''role_id'' p, rqScore = json_int64 ''score'' p,
                 rqBoard = json_string ''board'' p\<rparr>
      else None)"

definition rank_event :: "outcome \<Rightarrow> outcome \<Rightarrow> body \<Rightarrow> rank_srv \<Rightarrow> err option \<times> rank_srv" where
  "rank_event oc1 oc2 data s =
     (case rank_body data of None \<Rightarrow> (Some (ErrMsg ''json''), s) | Some req \<Rightarrow> writeScore oc1 oc2 req s)"

definition handleUpdate :: "outcome \<Rightarrow> outcome \<Rightarrow> body \<Rightarrow> rank_srv \<Rightarrow> unit reply \<times> rank_srv" where
  "handleUpdate oc1 oc2 p s =
     (case rank_body p of
        None \<Rightarrow> (HttpError 400, s)
      | Some req \<Rightarrow>
          let req = (if rqZoneId req = 0 then req\<lparr>rqZoneId := sZoneID (rkCfg s)\<rparr> else req) in
          if rqRoleId req \<le> 0 \<or> rqBoard req = [] then (HttpError 400, s)
          else case writeScore oc1 oc2 req s of (Some e, s) \<Rightarrow> (HttpError 503, s) | (None, s) \<Rightarrow> (ReplyOK (), s))"

text \<open>The boards; the parameters are those of the query string, the empty string when absent.\<close>

definition handleTop :: "outcome \<Rightarrow> string \<Rightarrow> string \<Rightarrow> rank_srv \<Rightarrow> (int \<times> (int \<times> string) list) reply" where
  "handleTop oc board zone_id s =
     (let board = (if board = [] then ''dungeon'' else board);
          zoneID = fst (ParseInt 32 zone_id);
          zoneID = (if zoneID = 0 then sZoneID (rkCfg s) else zoneID)
      in if oc \<noteq> Done then HttpError 503
         else ReplyOK (zoneID, ZREVRANGE 10 (rkSets s (rank_Zone (i32 zoneID) board))))"

definition handleGlobalTop :: "outcome \<Rightarrow> string \<Rightarrow> rank_srv \<Rightarrow> (int \<times> string) list reply" where
  "handleGlobalTop oc board s =
     (let board = (if board = [] then ''dungeon'' else board)
      in if oc \<noteq> Done then HttpError 503 else ReplyOK (ZREVRANGE 20 (rkSets s (rank_Global board))))"

section \<open>The boards are exact\<close>

datatype rank_op = RWrite outcome outcome rank_request | RTrim "string \<Rightarrow> outcome"

fun rank_step :: "rank_srv \<Rightarrow> rank_op \<Rightarrow> rank_srv" where
  "rank_step s (RWrite oc1 oc2 req) = snd (writeScore oc1 oc2 req s)"
| "rank_step s (RTrim oc) = trim_round oc s"

definition rank_run :: "rank_op list \<Rightarrow> rank_srv \<Rightarrow> rank_srv" where
  "rank_run ops s = foldl rank_step s ops"

definition NewRank :: "service_config \<Rightarrow> rank_srv" where
  "NewRank cfg = \<lparr>rkCfg = cfg, rkKeys = [], rkSets = (\<lambda>_. [])\<rparr>"

text \<open>The reference: every member with the best score that reached the board, never trimmed.\<close>

fun reaches :: "service_config \<Rightarrow> string \<Rightarrow> rank_op \<Rightarrow> bool" where
  "reaches cfg key (RWrite oc1 oc2 req) \<longleftrightarrow>
     (oc1 \<noteq> Failed \<and> key = rank_Zone (score_zone cfg req) (rqBoard req)) \<or>
     (oc1 = Done \<and> oc2 \<noteq> Failed \<and> key = rank_Global (rqBoard req))"
| "reaches cfg key (RTrim oc) \<longleftrightarrow> False"

fun best_step :: "zset \<Rightarrow> rank_op \<Rightarrow> zset" where
  "best_step z (RWrite oc1 oc2 req) = ZADD_GT (f64 (rqScore req)) (score_member req) z"
| "best_step z (RTrim oc) = z"

definition best_board :: "service_config \<Rightarrow> string \<Rightarrow> rank_op list \<Rightarrow> zset" where
  "best_board cfg key ops = foldl best_step [] (filter (reaches cfg key) ops)"

lemma best_board_snoc:
  "best_board cfg key (ops @ [op]) = (if reaches cfg key op then best_step (best_board cfg key ops) op else best_board cfg key ops)"
  by (simp add: best_board_def)

lemma zone_not_global [simp]: "rank_Zone z b \<noteq> rank_Global b'" "rank_Global b' \<noteq> rank_Zone z b"
  by (simp_all add: rank_Zone_def rank_Global_def)

lemma rkCfg_trim_keys [simp]: "rkCfg (foldl (trim_key oc) s keys) = rkCfg s"
  by (induction keys arbitrary: s) (simp_all add: trim_key_def)

lemma rkCfg_step [simp]: "rkCfg (rank_step s op) = rkCfg s"
  by (cases op) (auto simp: trim_round_def writeScore_def store_call_def zadd_def store_key_def Let_def split: outcome.splits)

lemma rkCfg_run [simp]: "rkCfg (rank_run ops (NewRank cfg)) = cfg"
  by (induction ops rule: rev_induct) (simp_all add: rank_run_def NewRank_def)

lemma trimmed_trim_keys:
  assumes "trimmed (nat (RankCap (sRank (rkCfg s)))) best (rkSets s key)"
  shows "trimmed (nat (RankCap (sRank (rkCfg s)))) best (rkSets (foldl (trim_key oc) s keys) key)"
  using assms
proof (induction keys arbitrary: s)
  case Nil
  then show ?case by simp
next
  case (Cons k keys)
  let ?cap = "RankCap (sRank (rkCfg s))"
  have "0 \<le> ?cap" by (simp add: RankCap_def)
  then have "trimmed (nat ?cap) best (rkSets (trim_key oc s k) key)"
    using Cons.prems trimmed_trim [of "nat ?cap" best "rkSets s key"] by (auto simp: trim_key_def)
  moreover have "rkCfg (trim_key oc s k) = rkCfg s" by (simp add: trim_key_def)
  ultimately show ?case using Cons.IH [of "trim_key oc s k"] by simp
qed

lemma rank_write_sets:
  "rkSets (rank_step s (RWrite oc1 oc2 req)) key =
     (if reaches (rkCfg s) key (RWrite oc1 oc2 req) then best_step (rkSets s key) (RWrite oc1 oc2 req) else rkSets s key)"
  by (cases oc1; cases oc2) (auto simp: writeScore_def zadd_def store_key_def Let_def)

lemma board_trimmed: "trimmed (nat (RankCap (sRank cfg))) (best_board cfg key ops) (rkSets (rank_run ops (NewRank cfg)) key)"
proof (induction ops rule: rev_induct)
  case Nil
  then show ?case by (simp add: rank_run_def NewRank_def best_board_def)
next
  case (snoc op ops)
  let ?s = "rank_run ops (NewRank cfg)"
  have run: "rank_run (ops @ [op]) (NewRank cfg) = rank_step ?s op" by (simp add: rank_run_def)
  show ?case
  proof (cases op)
    case (RWrite oc1 oc2 req)
    show ?thesis
      using snoc trimmed_write rank_write_sets [of ?s oc1 oc2 req key]
      by (simp add: run [unfolded RWrite] RWrite best_board_snoc del: rank_step.simps reaches.simps)
  next
    case (RTrim oc)
    then show ?thesis
      using snoc trimmed_trim_keys [of ?s] by (simp add: run [unfolded RTrim] best_board_def trim_round_def)
  qed
qed

text \<open>
  C23. The leaderboards are exact. After any history of score updates, repeated, reordered or partly
  failed, and of trimming rounds in between, the lists that are served are the first entries of the
  reference board that keeps every member with its best score and is never trimmed: trimming is
  invisible whenever the capacity is at least the length of the list.
\<close>

theorem leaderboards_exact:
  assumes "20 \<le> RankCap (sRank cfg)"
  shows "handleGlobalTop Done board (rank_run ops (NewRank cfg))
      = ReplyOK (ZREVRANGE 20 (best_board cfg (rank_Global (if board = [] then ''dungeon'' else board)) ops))
    \<and> (\<exists>zone. handleTop Done board zone_id (rank_run ops (NewRank cfg))
      = ReplyOK (zone, ZREVRANGE 10 (best_board cfg (rank_Zone (i32 zone) (if board = [] then ''dungeon'' else board)) ops)))"
proof -
  have top: "ZREVRANGE n (rkSets (rank_run ops (NewRank cfg)) key) = ZREVRANGE n (best_board cfg key ops)" if "n \<le> 20" for n key
    using assms that by (intro trimmed_top [OF board_trimmed]) simp
  show ?thesis by (auto simp: handleGlobalTop_def handleTop_def Let_def top)
qed

text \<open>The reference board holds the maximum of the scores that were written for a member.\<close>

fun score_of :: "service_config \<Rightarrow> string \<Rightarrow> string \<Rightarrow> rank_op \<Rightarrow> int list" where
  "score_of cfg key k (RWrite oc1 oc2 req) =
     (if reaches cfg key (RWrite oc1 oc2 req) \<and> score_member req = k then [f64 (rqScore req)] else [])"
| "score_of cfg key k (RTrim oc) = []"

lemma best_board_max:
  "map_of (best_board cfg key ops) k =
     (let scores = concat (map (score_of cfg key k) ops) in if scores = [] then None else Some (Max (set scores)))"
proof (induction ops rule: rev_induct)
  case Nil
  then show ?case by (simp add: best_board_def)
next
  case (snoc op ops)
  let ?scores = "concat (map (score_of cfg key k) ops)"
  show ?case
  proof (cases "score_of cfg key k op")
    case Nil
    then have "map_of (best_board cfg key (ops @ [op])) k = map_of (best_board cfg key ops) k"
      by (cases op) (auto simp: best_board_snoc map_of_ZADD_GT split: if_splits)
    then show ?thesis using snoc Nil by simp
  next
    case (Cons v vs)
    then obtain oc1 oc2 req where op: "op = RWrite oc1 oc2 req" "reaches cfg key op" "score_member req = k" "v = f64 (rqScore req)" "vs = []"
      by (cases op) (auto split: if_splits)
    have "map_of (best_board cfg key (ops @ [op])) k = Some (case map_of (best_board cfg key ops) k of None \<Rightarrow> v | Some s \<Rightarrow> max s v)"
      unfolding op(4) using op by (simp add: best_board_snoc map_of_ZADD_GT del: reaches.simps)
    then show ?thesis using snoc Cons op(5) by (cases "?scores = []") (auto simp: Let_def max.commute)
  qed
qed

definition small_cfg :: service_config where
  "small_cfg = zero_config\<lparr>sRank := \<lparr>rcCap = 20, rcTrimIntervalSec = 0\<rparr>\<rparr>"

theorem leaderboards_exact_witness:
  "handleGlobalTop Done [] (rank_run [RWrite Done Done \<lparr>rqZoneId = 1, rqRoleId = 7, rqScore = 5, rqBoard = ''dungeon''\<rparr>,
       RTrim (\<lambda>_. Done), RWrite Done Lost \<lparr>rqZoneId = 1, rqRoleId = 7, rqScore = 3, rqBoard = ''dungeon''\<rparr>] (NewRank small_cfg))
     = ReplyOK [(5, ''z1:7'')]"
proof -
  have "20 \<le> RankCap (sRank small_cfg)" by (simp add: small_cfg_def RankCap_def)
  from leaderboards_exact [OF this, of "[]" "[RWrite Done Done \<lparr>rqZoneId = 1, rqRoleId = 7, rqScore = 5, rqBoard = ''dungeon''\<rparr>,
       RTrim (\<lambda>_. Done), RWrite Done Lost \<lparr>rqZoneId = 1, rqRoleId = 7, rqScore = 3, rqBoard = ''dungeon''\<rparr>]" "[]"]
  show ?thesis
    by (simp add: best_board_def ZREVRANGE_def zorder_def zentries_def ZADD_GT_def f64_def score_member_def rank_Member_def
        FormatInt_def nat_digits_small digit_char_def)
qed

end
