(* ===== verification/World_Events.thy ===== *)
theory World_Events
  imports Sorted_Sets
begin

text \<open>
  The shared activities of the game service: the world boss (\<^verbatim>\<open>services/game/internal/worldboss\<close>), the
  guild war (\<^verbatim>\<open>guildwar\<close>) and guild membership (\<^verbatim>\<open>guild\<close>, table access in \<^verbatim>\<open>pkg/repo/guild.go\<close>). A
  client that is nil in the source is \<^const>\<open>None\<close> here.
\<close>

section \<open>The world boss\<close>

definition defaultHP :: int where "defaultHP = 100000"

text \<open>The two keys: the health as text of a whole number, absent before the first use, and the board.\<close>

record boss_store =
  bHP :: "int option"
  bDamage :: zset

record boss_state =
  bsHP :: int
  bsMaxHP :: int
  bsTop :: "(int \<times> string) list"

text \<open>The script; numbers stay below 2 to the 53 in it, since the health does and the damage is cut to it.\<close>

definition attackScript :: "int \<Rightarrow> int \<Rightarrow> string \<Rightarrow> boss_store \<Rightarrow> int res \<times> boss_store" where
  "attackScript maxHP damage member s =
     (let hp = (case bHP s of None \<Rightarrow> maxHP | Some hp \<Rightarrow> hp);
          dmg = f64 damage;
          dmg = (if dmg > hp then hp else dmg);
          dmg = (if dmg < 0 then 0 else dmg);
          newhp = hp - dmg;
          s = s\<lparr>bHP := Some newhp\<rparr>
      in (Inr newhp, if dmg > 0 then s\<lparr>bDamage := ZINCRBY dmg member (bDamage s)\<rparr> else s))"

definition boss_State :: "outcome \<Rightarrow> outcome \<Rightarrow> outcome \<Rightarrow> boss_store option \<Rightarrow> boss_state res \<times> boss_store option" where
  "boss_State oc1 oc2 oc3 rdb =
     (case rdb of
        None \<Rightarrow> (Inr \<lparr>bsHP = defaultHP, bsMaxHP = defaultHP, bsTop = []\<rparr>, None)
      | Some s \<Rightarrow>
          if oc1 \<noteq> Done then (Inl ErrStore, Some s)
          else let (hp, s) = (case bHP s of
                 None \<Rightarrow> (defaultHP, if oc2 = Failed then s else s\<lparr>bHP := Some defaultHP\<rparr>)
               | Some hp \<Rightarrow> (if hp < 0 then 0 else hp, s))
               in (Inr \<lparr>bsHP = hp, bsMaxHP = defaultHP, bsTop = (if oc3 = Done then ZREVRANGE 5 (bDamage s) else [])\<rparr>, Some s))"

definition boss_member :: "int \<Rightarrow> int \<Rightarrow> string" where
  "boss_member zoneID roleID = ''z'' @ FormatInt zoneID @ '':'' @ FormatInt roleID"

definition boss_Attack :: "outcome \<Rightarrow> outcome \<Rightarrow> outcome \<Rightarrow> outcome \<Rightarrow> int \<Rightarrow> int \<Rightarrow> int \<Rightarrow> boss_store option \<Rightarrow> boss_state res \<times> boss_store option" where
  "boss_Attack oc oc1 oc2 oc3 roleID zoneID damage rdb =
     (let damage = (if damage \<le> 0 then 100 else damage) in
      case rdb of
        None \<Rightarrow> (Inr \<lparr>bsHP = 0, bsMaxHP = defaultHP, bsTop = []\<rparr>, None)
      | Some s \<Rightarrow>
          case store_call oc s (attackScript defaultHP damage (boss_member zoneID roleID) s) of
            (Inl e, s) \<Rightarrow> (Inl e, Some s)
          | (Inr _, s) \<Rightarrow> boss_State oc1 oc2 oc3 (Some s))"

text \<open>
  \<^verbatim>\<open>Reset\<close> sends two commands in a pipeline that is not a transaction: \<open>mid\<close> is what others do between
  them.
\<close>

definition boss_Reset :: "outcome \<Rightarrow> outcome \<Rightarrow> (boss_store \<Rightarrow> boss_store) \<Rightarrow> boss_store option \<Rightarrow> unit res \<times> boss_store option" where
  "boss_Reset oc1 oc2 mid rdb =
     (case rdb of
        None \<Rightarrow> (Inr (), None)
      | Some s \<Rightarrow>
          let s = mid (if oc1 = Failed then s else s\<lparr>bHP := Some defaultHP\<rparr>);
              s = (if oc2 = Failed then s else s\<lparr>bDamage := []\<rparr>)
          in (if oc1 = Done \<and> oc2 = Done then Inr () else Inl ErrStore, Some s))"

subsection \<open>Damage is accounted for\<close>

datatype boss_op =
    BAttack outcome outcome outcome outcome int int int
  | BState outcome outcome outcome
  | BSetHP
  | BDelDamage

fun boss_step :: "boss_store option \<Rightarrow> boss_op \<Rightarrow> boss_store option" where
  "boss_step rdb (BAttack oc oc1 oc2 oc3 roleID zoneID damage) = snd (boss_Attack oc oc1 oc2 oc3 roleID zoneID damage rdb)"
| "boss_step rdb (BState oc1 oc2 oc3) = snd (boss_State oc1 oc2 oc3 rdb)"
| "boss_step rdb BSetHP = snd (boss_Reset Lost Failed id rdb)"
| "boss_step rdb BDelDamage = snd (boss_Reset Failed Lost id rdb)"

definition boss_run :: "boss_op list \<Rightarrow> boss_store option \<Rightarrow> boss_store option" where
  "boss_run ops rdb = foldl boss_step rdb ops"

fun fights :: "boss_op \<Rightarrow> bool" where
  "fights (BAttack _ _ _ _ _ _ _) = True"
| "fights (BState _ _ _) = True"
| "fights _ = False"

definition boss_hp :: "boss_store \<Rightarrow> int" where
  "boss_hp s = (case bHP s of None \<Rightarrow> defaultHP | Some hp \<Rightarrow> hp)"

definition total_damage :: "boss_store \<Rightarrow> int" where
  "total_damage s = sum_list (map snd (bDamage s))"

definition hp_ok :: "boss_store \<Rightarrow> bool" where
  "hp_ok s \<longleftrightarrow> 0 \<le> boss_hp s \<and> boss_hp s \<le> defaultHP"

definition conserved :: "boss_store \<Rightarrow> bool" where
  "conserved s \<longleftrightarrow> hp_ok s \<and> zset_ok (bDamage s) \<and> (\<forall>e \<in> set (bDamage s). 0 \<le> snd e) \<and> boss_hp s + total_damage s = defaultHP"

lemma f64_nonneg: "0 \<le> x \<Longrightarrow> 0 \<le> f64 x"
  by (simp add: f64_def Let_def)

lemma sum_update:
  "distinct (map fst z) \<Longrightarrow> sum_list (map snd (AList.update k v z)) = sum_list (map snd z) - (case map_of z k of None \<Rightarrow> 0 | Some s \<Rightarrow> s) + (v::int)"
proof (induction z)
  case Nil
  then show ?case by simp
next
  case (Cons e z)
  then show ?case by (cases e) (auto split: option.splits)
qed

lemma attack_hp:
  assumes "attackScript defaultHP damage member s = (x, s')" and "hp_ok s"
  shows "hp_ok s' \<and> boss_hp s' = boss_hp s - max 0 (min (boss_hp s) (f64 damage)) \<and> x = Inr (boss_hp s')"
  using assms by (auto simp: attackScript_def Let_def hp_ok_def boss_hp_def defaultHP_def split: if_splits option.splits)

lemma total_nonneg: "\<forall>e \<in> set z. 0 \<le> snd e \<Longrightarrow> (0::int) \<le> sum_list (map snd z)"
  by (rule sum_list_nonneg) auto

lemma score_le_total:
  "\<forall>e \<in> set z. 0 \<le> snd e \<Longrightarrow> map_of z k = Some v \<Longrightarrow> 0 \<le> v \<and> v \<le> (sum_list (map snd z) :: int)"
proof (induction z)
  case (Cons e z)
  then show ?case using total_nonneg [of z] by (auto split: if_splits)
qed simp

lemma attack_conserved:
  assumes "attackScript defaultHP damage member s = (x, s')" and c: "conserved s"
  shows "conserved s'"
proof -
  let ?dmg = "max 0 (min (boss_hp s) (f64 damage))"
  let ?old = "case map_of (bDamage s) member of None \<Rightarrow> 0 | Some v \<Rightarrow> v"
  note hp = attack_hp [OF assms(1)]
  have hpok: "hp_ok s" and tot: "boss_hp s + total_damage s = defaultHP" and z: "zset_ok (bDamage s)"
    and pos: "\<forall>e \<in> set (bDamage s). 0 \<le> snd e" using c by (simp_all add: conserved_def)
  have old: "0 \<le> ?old" "?old \<le> total_damage s"
    using score_le_total [OF pos, of member] total_nonneg [OF pos]
    by (auto simp: total_damage_def split: option.splits)
  have d: "0 \<le> ?dmg" "?old + ?dmg \<le> defaultHP" using old tot hpok by (auto simp: hp_ok_def)
  have s': "bDamage s' = (if 0 < ?dmg then ZINCRBY ?dmg member (bDamage s) else bDamage s)"
    using assms(1) by (auto simp: attackScript_def Let_def boss_hp_def split: option.splits if_splits)
  have f: "f64 (?old + ?dmg) = ?old + ?dmg" using d old by (intro f64_small) (simp add: defaultHP_def)
  have "sum_list (map snd (bDamage s')) = sum_list (map snd (bDamage s)) + ?dmg"
    using z d f sum_update [of "bDamage s" member "?old + ?dmg"] by (auto simp: s' ZINCRBY_def zset_ok_def)
  moreover have "\<forall>e \<in> set (bDamage s'). 0 \<le> snd e"
  proof
    fix e assume e: "e \<in> set (bDamage s')"
    show "0 \<le> snd e"
    proof (cases "0 < ?dmg")
      case True
      then have "e \<in> set (AList.update member (?old + ?dmg) (bDamage s))" using e f by (simp add: s' ZINCRBY_def)
      moreover have "distinct (map fst (AList.update member (?old + ?dmg) (bDamage s)))" using z by (simp add: zset_ok_def distinct_update)
      ultimately have "map_of (AList.update member (?old + ?dmg) (bDamage s)) (fst e) = Some (snd e)" by simp
      then have "snd e = ?old + ?dmg \<or> map_of (bDamage s) (fst e) = Some (snd e)" by (auto simp: update_conv' split: if_splits)
      then show ?thesis using old d score_le_total [OF pos] by fastforce
    qed (use e pos s' in simp)
  qed
  moreover have "zset_ok (bDamage s')" using z by (simp add: s')
  ultimately show ?thesis using hp [OF hpok] tot by (simp add: conserved_def total_damage_def)
qed

lemma boss_State_store:
  "snd (boss_State oc1 oc2 oc3 (Some s)) \<in> {Some s, Some (s\<lparr>bHP := Some (boss_hp s)\<rparr>)}"
  by (auto simp: boss_State_def Let_def boss_hp_def split: option.splits)

lemma boss_State_keeps:
  "P s \<Longrightarrow> P (s\<lparr>bHP := Some (boss_hp s)\<rparr>) \<Longrightarrow> \<exists>s'. snd (boss_State oc1 oc2 oc3 (Some s)) = Some s' \<and> P s'"
  using boss_State_store [of oc1 oc2 oc3 s] by auto

lemma boss_State_ok:
  "hp_ok s \<Longrightarrow> \<exists>s'. snd (boss_State oc1 oc2 oc3 (Some s)) = Some s' \<and> hp_ok s'"
  "conserved s \<Longrightarrow> \<exists>s'. snd (boss_State oc1 oc2 oc3 (Some s)) = Some s' \<and> conserved s'"
  by (rule boss_State_keeps [of hp_ok s]; simp add: hp_ok_def boss_hp_def)
    (rule boss_State_keeps [of conserved s]; simp add: conserved_def hp_ok_def boss_hp_def total_damage_def)

lemma boss_Attack_ok:
  assumes "\<And>x s'. attackScript defaultHP (if damage \<le> 0 then 100 else damage) (boss_member zoneID roleID) s = (x, s') \<Longrightarrow> P s'"
    and "\<And>s. P s \<Longrightarrow> \<exists>s'. snd (boss_State oc1 oc2 oc3 (Some s)) = Some s' \<and> P s'" and "P s"
  shows "\<exists>s'. snd (boss_Attack oc oc1 oc2 oc3 roleID zoneID damage (Some s)) = Some s' \<and> P s'"
proof -
  obtain x s' where a: "attackScript defaultHP (if damage \<le> 0 then 100 else damage) (boss_member zoneID roleID) s = (x, s')" by fastforce
  have "P s'" by (rule assms(1) [OF a])
  moreover have "\<exists>v. x = Inr v" using a by (auto simp: attackScript_def Let_def)
  ultimately show ?thesis using assms(2) [of s'] assms(3) a by (cases oc) (auto simp: boss_Attack_def Let_def)
qed

lemma hp_ok_step: "hp_ok s \<Longrightarrow> \<exists>s'. boss_step (Some s) op = Some s' \<and> hp_ok s'"
proof (cases op)
  case (BAttack oc oc1 oc2 oc3 roleID zoneID damage)
  assume "hp_ok s"
  then show ?thesis unfolding BAttack boss_step.simps by (intro boss_Attack_ok boss_State_ok) (use attack_hp in blast)+
next
  case (BState oc1 oc2 oc3)
  assume "hp_ok s"
  then show ?thesis by (simp add: BState boss_State_ok)
qed (simp_all add: boss_Reset_def hp_ok_def boss_hp_def defaultHP_def)

lemma conserved_step: "conserved s \<Longrightarrow> fights op \<Longrightarrow> \<exists>s'. boss_step (Some s) op = Some s' \<and> conserved s'"
proof (cases op)
  case (BAttack oc oc1 oc2 oc3 roleID zoneID damage)
  assume "conserved s"
  then show ?thesis unfolding BAttack boss_step.simps by (intro boss_Attack_ok boss_State_ok) (use attack_conserved in blast)+
qed (auto simp: boss_State_ok)

lemma hp_ok_run: "hp_ok s \<Longrightarrow> \<exists>s'. boss_run ops (Some s) = Some s' \<and> hp_ok s'"
proof (induction ops arbitrary: s)
  case (Cons op ops)
  then show ?case using hp_ok_step [of s op] by (auto simp: boss_run_def)
qed (simp add: boss_run_def)

lemma conserved_run: "conserved s \<Longrightarrow> list_all fights ops \<Longrightarrow> \<exists>s'. boss_run ops (Some s) = Some s' \<and> conserved s'"
proof (induction ops arbitrary: s)
  case (Cons op ops)
  then show ?case using conserved_step [of s op] by (auto simp: boss_run_def)
qed (simp add: boss_run_def)

text \<open>
  C24. The boss takes exactly the damage that the board records. Over any history of attacks, queries
  and halves of resets, from any number of processes and with any faults, the health stays between zero
  and its maximum. After a complete reset, however the history before it ended, every sequence of attacks and
  queries keeps health plus recorded damage equal to the maximum: no overkill is credited and no hit
  is lost.
\<close>

theorem boss_damage_conserved:
  assumes "list_all fights fight"
  shows "\<exists>s s'. boss_run pre (Some \<lparr>bHP = None, bDamage = []\<rparr>) = Some s \<and> hp_ok s
    \<and> boss_run (pre @ [BSetHP, BDelDamage] @ fight) (Some \<lparr>bHP = None, bDamage = []\<rparr>) = Some s'
    \<and> hp_ok s' \<and> boss_hp s' + total_damage s' = defaultHP"
proof -
  have "hp_ok \<lparr>bHP = None, bDamage = []\<rparr>" by (simp add: hp_ok_def boss_hp_def defaultHP_def)
  then obtain s where s: "boss_run pre (Some \<lparr>bHP = None, bDamage = []\<rparr>) = Some s" "hp_ok s" using hp_ok_run by blast
  have fresh: "boss_run [BSetHP, BDelDamage] (Some s) = Some \<lparr>bHP = Some defaultHP, bDamage = []\<rparr>"
    by (simp add: boss_run_def boss_Reset_def)
  have "conserved \<lparr>bHP = Some defaultHP, bDamage = []\<rparr>"
    by (simp add: conserved_def hp_ok_def boss_hp_def total_damage_def defaultHP_def)
  then obtain s' where "boss_run fight (Some \<lparr>bHP = Some defaultHP, bDamage = []\<rparr>) = Some s'" "conserved s'"
    using conserved_run assms by blast
  with s fresh show ?thesis by (auto simp: boss_run_def conserved_def)
qed

theorem boss_damage_conserved_witness:
  "\<exists>s'. boss_run ([BSetHP] @ [BSetHP, BDelDamage] @ [BAttack Done Done Done Done 7 1 500, BAttack Lost Done Done Done 8 2 200000])
      (Some \<lparr>bHP = None, bDamage = []\<rparr>) = Some s' \<and> boss_hp s' + total_damage s' = defaultHP"
  using boss_damage_conserved [of "[BAttack Done Done Done Done 7 1 500, BAttack Lost Done Done Done 8 2 200000]" "[BSetHP]"] by auto

text \<open>A reset that an attack slips into loses that attack's damage from the board.\<close>

lemma interleaved_reset_loses_damage:
  "snd (boss_Reset Done Done (\<lambda>s. snd (attackScript defaultHP 500 ''z1:7'' s)) (Some \<lparr>bHP = Some 0, bDamage = []\<rparr>))
     = Some \<lparr>bHP = Some 99500, bDamage = []\<rparr>"
  by (simp add: boss_Reset_def attackScript_def defaultHP_def f64_def)

section \<open>The guild war\<close>

record war_state =
  wsSeason :: int
  wsTop :: "(int \<times> int) list"

text \<open>The two keys of Redis: the season as a number, absent at first, and the scores by guild.\<close>

record war_store =
  wSeason :: "int option"
  wScores :: zset

text \<open>The fallback in memory: season 0 is unset; the map is a list of entries, \<open>ord\<close> its iteration order.\<close>

record war_mem =
  wmSeason :: int
  wmScores :: "(int \<times> int) list"

datatype war_svc = WarRedis war_store | WarMemory war_mem

definition resetScript :: "war_store \<Rightarrow> int res \<times> war_store" where
  "resetScript s =
     (let season = (case wSeason s of None \<Rightarrow> 0 | Some n \<Rightarrow> n) + 1
      in (Inr season, \<lparr>wSeason = Some season, wScores = []\<rparr>))"

definition memoryState :: "((int \<times> int) list \<Rightarrow> (int \<times> int) list) \<Rightarrow> war_mem \<Rightarrow> war_state" where
  "memoryState ord m =
     \<lparr>wsSeason = (if 0 < wmSeason m then wmSeason m else 1), wsTop = map (\<lambda>(gid, sc). (gid, f64 sc)) (ord (wmScores m))\<rparr>"

definition war_State :: "outcome \<Rightarrow> outcome \<Rightarrow> ((int \<times> int) list \<Rightarrow> (int \<times> int) list) \<Rightarrow> war_svc \<Rightarrow> war_state res" where
  "war_State oc1 oc2 ord svc =
     (case svc of
        WarMemory m \<Rightarrow> Inr (memoryState ord m)
      | WarRedis s \<Rightarrow>
          if oc2 \<noteq> Done then Inl ErrStore
          else Inr \<lparr>wsSeason = (if oc1 = Done then case wSeason s of None \<Rightarrow> 1 | Some n \<Rightarrow> n else 1),
                    wsTop = map (\<lambda>(sc, member). (fst (ParseInt 64 member), sc)) (ZREVRANGE 10 (wScores s))\<rparr>)"

definition war_Attack :: "outcome \<Rightarrow> outcome \<Rightarrow> outcome \<Rightarrow> outcome \<Rightarrow> ((int \<times> int) list \<Rightarrow> (int \<times> int) list)
    \<Rightarrow> int \<Rightarrow> int \<Rightarrow> war_svc \<Rightarrow> war_state res \<times> war_svc" where
  "war_Attack oc1 oc2 oc3 oc4 ord guildID damage svc =
     (if guildID \<le> 0 then (Inl (ErrMsg ''guild_id required''), svc)
      else let damage = (if damage \<le> 0 then 100 else damage) in
        case svc of
          WarMemory m \<Rightarrow>
            let m = (if wmSeason m = 0 then m\<lparr>wmSeason := 1\<rparr> else m);
                m = m\<lparr>wmScores := AList.update guildID (i64 (gget (map_of (wmScores m)) guildID + damage)) (wmScores m)\<rparr>
            in (Inr (memoryState ord m), WarMemory m)
        | WarRedis s \<Rightarrow>
            let s = (if oc1 = Failed \<or> wSeason s \<noteq> None then s else s\<lparr>wSeason := Some 1\<rparr>) in
            (case store_call oc2 s (Inr (), s\<lparr>wScores := ZINCRBY (f64 damage) (FormatInt guildID) (wScores s)\<rparr>) of
               (Inl e, s) \<Rightarrow> (Inl e, WarRedis s)
             | (Inr _, s) \<Rightarrow> (war_State oc3 oc4 ord (WarRedis s), WarRedis s)))"

definition ResetSeason :: "outcome \<Rightarrow> war_svc \<Rightarrow> war_state res \<times> war_svc" where
  "ResetSeason oc svc =
     (case svc of
        WarMemory m \<Rightarrow>
          let season = i64 ((if wmSeason m = 0 then 1 else wmSeason m) + 1)
          in (Inr \<lparr>wsSeason = season, wsTop = []\<rparr>, WarMemory \<lparr>wmSeason = season, wmScores = []\<rparr>)
      | WarRedis s \<Rightarrow>
          (case store_call oc s (resetScript s) of
             (Inl e, s) \<Rightarrow> (Inl e, WarRedis s)
           | (Inr season, s) \<Rightarrow> (Inr \<lparr>wsSeason = season, wsTop = []\<rparr>, WarRedis s)))"

subsection \<open>Seasons\<close>

text \<open>What a season's scores are: per guild the sum of its attacks since the last reset.\<close>

datatype war_op = WAttack outcome outcome outcome outcome int int | WReset outcome

fun war_step :: "war_svc \<Rightarrow> war_op \<Rightarrow> war_svc" where
  "war_step svc (WAttack oc1 oc2 oc3 oc4 guildID damage) = snd (war_Attack oc1 oc2 oc3 oc4 id guildID damage svc)"
| "war_step svc (WReset oc) = snd (ResetSeason oc svc)"

fun war_score :: "int \<Rightarrow> int \<Rightarrow> war_op \<Rightarrow> int" where
  "war_score gid acc (WAttack oc1 oc2 oc3 oc4 guildID damage) =
     (if guildID = gid \<and> 0 < gid \<and> oc2 \<noteq> Failed then acc + (if damage \<le> 0 then 100 else damage) else acc)"
| "war_score gid acc (WReset oc) = (if oc = Failed then acc else 0)"

definition redis_score :: "int \<Rightarrow> war_store \<Rightarrow> int" where
  "redis_score gid s = (case map_of (wScores s) (FormatInt gid) of None \<Rightarrow> 0 | Some sc \<Rightarrow> sc)"

lemma war_score_nonneg: "0 \<le> acc \<Longrightarrow> 0 \<le> foldl (war_score gid) acc ops"
proof (induction ops arbitrary: acc)
  case (Cons op ops)
  then show ?case by (cases op) auto
qed simp

lemma war_step_redis:
  "\<exists>s'. war_step (WarRedis s) op = WarRedis s' \<and>
     (\<bar>war_score gid (redis_score gid s) op\<bar> \<le> 2 ^ 53 \<and> 0 \<le> redis_score gid s \<longrightarrow> redis_score gid s' = war_score gid (redis_score gid s) op)"
proof (cases op)
  case (WAttack oc1 oc2 oc3 oc4 guildID damage)
  have f: "f64 d = d \<and> f64 (r + d) = r + d" if "0 \<le> r" "0 \<le> d" "\<bar>r + d\<bar> \<le> 2 ^ 53" for r d :: int
    using that by (simp add: f64_small)
  show ?thesis
    using f [of "redis_score gid s" "if damage \<le> 0 then 100 else damage"] unfolding WAttack
    by (cases oc2) (auto simp: war_Attack_def Let_def redis_score_def ZINCRBY_def update_conv')
next
  case (WReset oc)
  then show ?thesis by (cases oc) (auto simp: ResetSeason_def resetScript_def redis_score_def Let_def)
qed

text \<open>
  On a store that nobody used, the state already shows season 1 and the reset sets season 1 again: the
  season does not advance, while in memory it does.
\<close>

lemma fresh_reset_keeps_season:
  "war_State Done Done id (WarRedis \<lparr>wSeason = None, wScores = []\<rparr>) = Inr \<lparr>wsSeason = 1, wsTop = []\<rparr>
   \<and> fst (ResetSeason Done (WarRedis \<lparr>wSeason = None, wScores = []\<rparr>)) = Inr \<lparr>wsSeason = 1, wsTop = []\<rparr>
   \<and> fst (ResetSeason Done (WarMemory \<lparr>wmSeason = 0, wmScores = []\<rparr>)) = Inr \<lparr>wsSeason = 2, wsTop = []\<rparr>"
  by (simp add: war_State_def ResetSeason_def resetScript_def ZREVRANGE_def zorder_def zentries_def i64_def)

section \<open>Guilds\<close>

record guild_row =
  gdID :: int
  gdZoneID :: int
  gdName :: string

record guild_db =
  gdbGuilds :: "guild_row list"
  gdbMembers :: "(int \<times> int) list"

record guild_view =
  gvID :: int
  gvName :: string
  gvMembers :: "int list"

definition guild_Get :: "outcome \<Rightarrow> int \<Rightarrow> guild_db \<Rightarrow> guild_row res" where
  "guild_Get oc guildID db =
     (if oc \<noteq> Done then Inl ErrStore
      else case find (\<lambda>g. gdID g = guildID) (gdbGuilds db) of None \<Rightarrow> Inl ErrNoRows | Some g \<Rightarrow> Inr g)"

definition ListMembers :: "outcome \<Rightarrow> int \<Rightarrow> guild_db \<Rightarrow> int list res" where
  "ListMembers oc guildID db =
     (if oc \<noteq> Done then Inl ErrStore else Inr (map snd (filter (\<lambda>m. fst m = guildID) (gdbMembers db))))"

text \<open>A member of a guild that does not exist violates the foreign key; a pair that is there is left alone.\<close>

definition guild_repo_Join :: "outcome \<Rightarrow> int \<Rightarrow> int \<Rightarrow> guild_db \<Rightarrow> unit res \<times> guild_db" where
  "guild_repo_Join oc guildID roleID db =
     store_call oc db
       (if find (\<lambda>g. gdID g = guildID) (gdbGuilds db) = None then (Inl ErrStore, db)
        else (Inr (), if (guildID, roleID) \<in> set (gdbMembers db) then db else db\<lparr>gdbMembers := gdbMembers db @ [(guildID, roleID)]\<rparr>))"

definition no_guild :: guild_row where "no_guild = \<lparr>gdID = 0, gdZoneID = 0, gdName = []\<rparr>"

text \<open>\<^verbatim>\<open>LIMIT 1\<close> without an order: \<open>ord\<close> is the order in which the database produces the rows.\<close>

definition RoleGuild :: "outcome \<Rightarrow> (guild_row list \<Rightarrow> guild_row list) \<Rightarrow> int \<Rightarrow> guild_db \<Rightarrow> guild_row res" where
  "RoleGuild oc ord roleID db =
     (if oc \<noteq> Done then Inl ErrStore
      else case ord (filter (\<lambda>g. (gdID g, roleID) \<in> set (gdbMembers db)) (gdbGuilds db)) of [] \<Rightarrow> Inr no_guild | g # _ \<Rightarrow> Inr g)"

datatype guild_svc = GuildRepo guild_db | GuildMemory "int \<Rightarrow> guild_view option"

definition guild_New :: "guild_db option \<Rightarrow> guild_svc" where
  "guild_New r = (case r of Some db \<Rightarrow> GuildRepo db | None \<Rightarrow> GuildMemory [1 \<mapsto> \<lparr>gvID = 1, gvName = ''default_guild'', gvMembers = []\<rparr>])"

definition appendUnique :: "int list \<Rightarrow> int \<Rightarrow> int list" where
  "appendUnique xs x = (if x \<in> set xs then xs else xs @ [x])"

definition cloneGuild :: "guild_view \<Rightarrow> guild_view" where
  "cloneGuild g = \<lparr>gvID = gvID g, gvName = gvName g, gvMembers = gvMembers g\<rparr>"

definition guild_Join :: "outcome \<Rightarrow> outcome \<Rightarrow> outcome \<Rightarrow> int \<Rightarrow> int \<Rightarrow> guild_svc \<Rightarrow> guild_view res \<times> guild_svc" where
  "guild_Join oc1 oc2 oc3 roleID guildID svc =
     (case svc of
        GuildRepo db \<Rightarrow>
          (case guild_Get oc1 guildID db of
             Inl _ \<Rightarrow> (Inl (ErrMsg ''guild not found''), svc)
           | Inr g \<Rightarrow>
               (case guild_repo_Join oc2 guildID roleID db of
                  (Inl e, db) \<Rightarrow> (Inl e, GuildRepo db)
                | (Inr _, db) \<Rightarrow>
                    (Inr \<lparr>gvID = gdID g, gvName = gdName g,
                          gvMembers = (case ListMembers oc3 guildID db of Inl _ \<Rightarrow> [] | Inr ms \<Rightarrow> ms)\<rparr>, GuildRepo db)))
      | GuildMemory mem \<Rightarrow>
          (case mem guildID of
             None \<Rightarrow> (Inl (ErrMsg ''guild not found''), svc)
           | Some g \<Rightarrow>
               let g = g\<lparr>gvMembers := appendUnique (gvMembers g) roleID\<rparr> in (Inr (cloneGuild g), GuildMemory (mem(guildID \<mapsto> g)))))"

definition guild_Info :: "outcome \<Rightarrow> outcome \<Rightarrow> int \<Rightarrow> guild_svc \<Rightarrow> guild_view res" where
  "guild_Info oc1 oc2 guildID svc =
     (case svc of
        GuildRepo db \<Rightarrow>
          (case guild_Get oc1 guildID db of
             Inl _ \<Rightarrow> Inl (ErrMsg ''guild not found'')
           | Inr g \<Rightarrow> Inr \<lparr>gvID = gdID g, gvName = gdName g,
                gvMembers = (case ListMembers oc2 guildID db of Inl _ \<Rightarrow> [] | Inr ms \<Rightarrow> ms)\<rparr>)
      | GuildMemory mem \<Rightarrow>
          (case mem guildID of None \<Rightarrow> Inl (ErrMsg ''guild not found'') | Some g \<Rightarrow> Inr (cloneGuild g)))"

text \<open>What both ways of keeping guilds promise to the handlers.\<close>

locale membership =
  fixes join :: "int \<Rightarrow> int \<Rightarrow> 's \<Rightarrow> guild_view res \<times> 's" and info :: "int \<Rightarrow> 's \<Rightarrow> guild_view res" and ok :: "'s \<Rightarrow> bool"
  assumes join_ok: "ok s \<Longrightarrow> join r g s = (x, s') \<Longrightarrow> ok s'"
    and join_info: "ok s \<Longrightarrow> join r g s = (Inr v, s') \<Longrightarrow> info g s' = Inr v"
    and join_adds: "ok s \<Longrightarrow> join r g s = (Inr v, s') \<Longrightarrow> info g s = Inr u \<Longrightarrow> set (gvMembers v) = insert r (set (gvMembers u))"
    and join_other: "ok s \<Longrightarrow> join r g s = (x, s') \<Longrightarrow> g' \<noteq> g \<Longrightarrow> info g' s' = info g' s"
    and join_found: "ok s \<Longrightarrow> (\<exists>v s'. join r g s = (Inr v, s')) \<longleftrightarrow> (\<exists>u. info g s = Inr u)"
    and join_refused: "ok s \<Longrightarrow> join r g s = (Inl e, s') \<Longrightarrow> s' = s"
    and info_id: "ok s \<Longrightarrow> info g s = Inr v \<Longrightarrow> gvID v = g \<and> distinct (gvMembers v)"
begin

lemma info_after_join:
  assumes "ok s" and "join r g s = (x, s')" and "info g' s = Inr u"
  shows "\<exists>v. info g' s' = Inr v \<and> distinct (gvMembers v) \<and> set (gvMembers v) = set (gvMembers u) \<union> (if g' = g then {r} else {})"
proof (cases "g' = g")
  case False
  then have "info g' s' = Inr u" using join_other assms by metis
  moreover from this have "distinct (gvMembers u)" using info_id join_ok assms by blast
  ultimately show ?thesis using False by simp
next
  case True
  then obtain v where x: "x = Inr v" using join_found [OF assms(1), of r g] assms(2,3) by auto
  then have i: "info g s' = Inr v" using join_info assms by blast
  then have "distinct (gvMembers v)" using info_id join_ok assms by blast
  moreover have "set (gvMembers v) = insert r (set (gvMembers u))" using join_adds assms x True by blast
  ultimately show ?thesis using i True by auto
qed

lemma members_exact:
  "ok s \<Longrightarrow> info g s = Inr u \<Longrightarrow>
   \<exists>v. info g (foldl (\<lambda>s (r, g). snd (join r g s)) s reqs) = Inr v \<and> distinct (gvMembers v) \<and> gvID v = g
     \<and> set (gvMembers v) = set (gvMembers u) \<union> {r. (r, g) \<in> set reqs}"
proof (induction reqs arbitrary: s u)
  case Nil
  then show ?case using info_id by auto
next
  case (Cons req reqs)
  obtain r g' where req: "req = (r, g')" by fastforce
  obtain x s' where j: "join r g' s = (x, s')" by fastforce
  obtain w where w: "info g s' = Inr w" "set (gvMembers w) = set (gvMembers u) \<union> (if g = g' then {r} else {})"
    using info_after_join [OF Cons.prems(1) j Cons.prems(2)] by blast
  have "ok s'" using join_ok Cons.prems(1) j by blast
  from Cons.IH [OF this w(1)] show ?case using w(2) by (auto simp: req j split: if_splits)
qed

end

definition guild_ok :: "guild_svc \<Rightarrow> bool" where
  "guild_ok svc \<longleftrightarrow>
     (case svc of
        GuildRepo db \<Rightarrow> distinct (gdbMembers db)
      | GuildMemory mem \<Rightarrow> (\<forall>g v. mem g = Some v \<longrightarrow> gvID v = g \<and> distinct (gvMembers v)))"

lemma distinct_members: "distinct ms \<Longrightarrow> distinct (map snd (filter (\<lambda>m. fst m = (g::int)) (ms :: (int \<times> int) list)))"
  by (induction ms) force+

lemmas guild_defs = guild_Join_def guild_Info_def guild_Get_def ListMembers_def guild_repo_Join_def guild_ok_def appendUnique_def
  cloneGuild_def Let_def

interpretation guilds: membership "guild_Join Done Done Done" "guild_Info Done Done" guild_ok
proof unfold_locales
  fix s s' and r g g' :: int and x and u v :: guild_view and e
  assume ok: "guild_ok s"
  show "guild_Join Done Done Done r g s = (x, s') \<Longrightarrow> guild_ok s'"
    using ok by (cases s) (auto simp: guild_defs split: option.splits)
  show "guild_Join Done Done Done r g s = (Inr v, s') \<Longrightarrow> guild_Info Done Done g s' = Inr v"
    using ok by (cases s) (auto simp: guild_defs split: option.splits)
  show "guild_Join Done Done Done r g s = (Inr v, s') \<Longrightarrow> guild_Info Done Done g s = Inr u
      \<Longrightarrow> set (gvMembers v) = insert r (set (gvMembers u))"
    by (cases s) (force simp: guild_defs split: option.splits if_splits)+
  show "guild_Join Done Done Done r g s = (x, s') \<Longrightarrow> g' \<noteq> g \<Longrightarrow> guild_Info Done Done g' s' = guild_Info Done Done g' s"
    by (cases s) (auto simp: guild_defs split: option.splits)
  show "(\<exists>v s'. guild_Join Done Done Done r g s = (Inr v, s')) \<longleftrightarrow> (\<exists>u. guild_Info Done Done g s = Inr u)"
    by (cases s) (auto simp: guild_defs split: option.splits)
  show "guild_Join Done Done Done r g s = (Inl e, s') \<Longrightarrow> s' = s"
    by (cases s) (auto simp: guild_defs split: option.splits)
  show "guild_Info Done Done g s = Inr v \<Longrightarrow> gvID v = g \<and> distinct (gvMembers v)"
    using ok by (cases s) (auto simp: guild_defs distinct_members find_Some_iff split: option.splits)
qed

text \<open>
  Guild membership is a set, in the database and in memory. After any sequence of requests to
  join, also repeated ones and ones for guilds that do not exist, the members shown for a guild are
  those it had and the roles that asked to join it, each once, and no other guild changes.
\<close>

theorem guild_members_exact:
  assumes "guild_ok svc" and "guild_Info Done Done g svc = Inr u"
  shows "\<exists>v. guild_Info Done Done g (foldl (\<lambda>s (r, g). snd (guild_Join Done Done Done r g s)) svc reqs) = Inr v
     \<and> distinct (gvMembers v) \<and> gvID v = g \<and> set (gvMembers v) = set (gvMembers u) \<union> {r. (r, g) \<in> set reqs}"
  using assms by (rule guilds.members_exact)

theorem guild_members_exact_witness:
  "\<exists>v. guild_Info Done Done 1 (foldl (\<lambda>s (r, g). snd (guild_Join Done Done Done r g s)) (guild_New None) [(7, 1), (8, 5), (7, 1)]) = Inr v
     \<and> set (gvMembers v) = {7}"
proof -
  have ok: "guild_ok (guild_New None)" by (simp add: guild_New_def guild_ok_def)
  have i: "guild_Info Done Done 1 (guild_New None) = Inr \<lparr>gvID = 1, gvName = ''default_guild'', gvMembers = []\<rparr>"
    by (simp add: guild_New_def guild_Info_def cloneGuild_def)
  have "{r. (r, 1::int) \<in> set [(7, 1), (8, 5), (7, 1)]} = {7::int}" by auto
  then show ?thesis using guild_members_exact [OF ok i, of "[(7, 1), (8, 5), (7, 1)]"] by auto
qed

end
