(* ===== verification/Game_Server.thy ===== *)
theory Game_Server
  imports Game_Client Auction World_Events Rank_Service
begin

text \<open>
  The entry points of the game service (\<^verbatim>\<open>services/game/internal/server.go\<close> and \<^verbatim>\<open>grpcserver.go\<close>) over the
  components: player messages by HTTP and by gRPC, logout, dungeon, guilds, world boss, guild war and
  auctions. Every handler is a function of the server; a request carries its decoded body. The order
  and the outcomes of the calls to the stores are in the arguments.
\<close>

record game_srv =
  gsCfg :: service_config
  gsPlayers :: manager
  gsGuilds :: guild_svc
  gsWar :: war_svc
  gsBoss :: "boss_store option"
  gsAuction :: auction_svc

section \<open>Players\<close>

text \<open>\<^verbatim>\<open>strconv.ParseUint\<close> in base 10: no sign; the value with a range error is the largest number.\<close>

definition ParseUint :: "nat \<Rightarrow> string \<Rightarrow> int \<times> num_err option" where
  "ParseUint bits s =
     (if s = [] then (0, Some ErrSyntax)
      else case parse_digits 0 s of
        None \<Rightarrow> (0, Some ErrSyntax)
      | Some n \<Rightarrow> if 2 ^ bits \<le> int n then (2 ^ bits - 1, Some ErrRange) else (int n, None))"

text \<open>Outcomes and time of one call on a player: the load, the admission, the save.\<close>

record player_call =
  cGet :: outcome
  cAdm :: admission
  cSave :: outcome
  cNow :: int

definition handlePlayerLogout :: "player_call \<Rightarrow> body \<Rightarrow> game_srv \<Rightarrow> unit reply \<times> game_srv" where
  "handlePlayerLogout c p s =
     (if \<not> json_valid [(''role_id'', JNum 64)] p \<or> json_int64 ''role_id'' p = 0 then (HttpError 400, s)
      else case Logout (cAdm c) (cSave c) (json_int64 ''role_id'' p) (gsPlayers s) of
        (Inl _, m) \<Rightarrow> (HttpError 503, s\<lparr>gsPlayers := m\<rparr>)
      | (Inr _, m) \<Rightarrow> (ReplyOK (), s\<lparr>gsPlayers := m\<rparr>))"

text \<open>The three headers and the body; \<open>read_ok\<close> says whether the body could be read.\<close>

definition handlePlayerMsg :: "player_call \<Rightarrow> string \<Rightarrow> string \<Rightarrow> string \<Rightarrow> bool \<Rightarrow> body \<Rightarrow> game_srv \<Rightarrow> Player_Actor.reply reply \<times> game_srv" where
  "handlePlayerMsg c hRole hCmd hAct read_ok p s =
     (let role = fst (ParseInt 64 hRole) in
      if role = 0 then (HttpError 400, s)
      else let cmd64 = fst (ParseUint 16 hCmd); act64 = fst (ParseUint 16 hAct) in
        if \<not> read_ok then (HttpError 400, s)
        else case HandleMsg (cGet c) (cAdm c) (cSave c) (cNow c) role (word_of_int cmd64) (word_of_int act64) p (gsPlayers s) of
          (Inl _, m) \<Rightarrow> (HttpError 500, s\<lparr>gsPlayers := m\<rparr>)
        | (Inr r, m) \<Rightarrow> (ReplyOK r, s\<lparr>gsPlayers := m\<rparr>))"

text \<open>The gRPC request: the numbers are 32-bit unsigned on the wire.\<close>

definition Forward :: "player_call \<Rightarrow> int \<Rightarrow> int \<Rightarrow> int \<Rightarrow> body \<Rightarrow> game_srv \<Rightarrow> Player_Actor.reply res \<times> game_srv" where
  "Forward c roleId cmd act p s =
     (if cmd > 65535 \<or> act > 65535 then (Inl (ErrMsg ''protocol command out of range''), s)
      else case HandleMsg (cGet c) (cAdm c) (cSave c) (cNow c) roleId (word_of_int cmd) (word_of_int act) p (gsPlayers s) of
        (Inl e, m) \<Rightarrow> (Inl e, s\<lparr>gsPlayers := m\<rparr>)
      | (Inr r, m) \<Rightarrow> (Inr r, s\<lparr>gsPlayers := m\<rparr>))"

section \<open>Dungeon\<close>

text \<open>\<^verbatim>\<open>json.Marshal\<close> of the request: zero fields are omitted; the strings here need no escapes.\<close>

fun json_text :: "json \<Rightarrow> string" where
  "json_text (JNum n) = FormatInt n"
| "json_text (JStr s) = [CHR 0x22] @ s @ [CHR 0x22]"
| "json_text (JBool b) = (if b then ''true'' else ''false'')"
| "json_text JNull = ''null''"
| "json_text (JArr _) = []"
| "json_text (JObj _) = []"

fun json_members :: "(string \<times> json) list \<Rightarrow> string" where
  "json_members [] = []"
| "json_members [(k, v)] = [CHR 0x22] @ k @ [CHR 0x22] @ '':'' @ json_text v"
| "json_members ((k, v) # kvs) = [CHR 0x22] @ k @ [CHR 0x22] @ '':'' @ json_text v @ '','' @ json_members kvs"

definition rank_members :: "rank_request \<Rightarrow> (string \<times> json) list" where
  "rank_members req =
     (if rqZoneId req = 0 then [] else [(''zone_id'', JNum (rqZoneId req))]) @
     (if rqRoleId req = 0 then [] else [(''role_id'', JNum (rqRoleId req))]) @
     (if rqScore req = 0 then [] else [(''score'', JNum (rqScore req))]) @
     (if rqBoard req = [] then [] else [(''board'', JStr (rqBoard req))])"

definition pass_event :: "int \<Rightarrow> int \<Rightarrow> int \<Rightarrow> outbox_event" where
  "pass_event zoneID roleID level =
     \<lparr>EventID = ''rank:dungeon:'' @ FormatInt roleID @ '':'' @ FormatInt level,
      Subject = ''rank.update'', AggregateID = FormatInt roleID, AggregateVersion = 0,
      Payload = ''{'' @ json_members (rank_members \<lparr>rqZoneId = zoneID, rqRoleId = roleID, rqScore = level, rqBoard = ''dungeon''\<rparr>) @ ''}''\<rparr>"

text \<open>The mutation that the handler passes to the manager.\<close>

definition pass_fn :: "int \<Rightarrow> int \<Rightarrow> actor \<Rightarrow> outbox_event res \<times> actor" where
  "pass_fn zoneID roleID pl =
     (let ((level, gold), pl) = dungeon_Pass pl;
          pl = pl\<lparr>pQuests := snd (quest_AddProgress (pQuests pl) ''main_1'' 1)\<rparr>
      in (Inr (pass_event zoneID roleID level), pl))"

text \<open>
  The result that the closure leaves behind is the level and the gold of the actor after the pass, which
  the save does not change.
\<close>

definition handleDungeonPass :: "player_call \<Rightarrow> body \<Rightarrow> game_srv \<Rightarrow> (int \<times> int) reply \<times> game_srv" where
  "handleDungeonPass c p s =
     (let roleID = json_int64 ''role_id'' p in
      if roleID = 0 then (HttpError 400, s)
      else case WithPlayerOutbox (cGet c) (cAdm c) (cSave c) (cNow c) roleID (pass_fn (sZoneID (gsCfg s)) roleID) (gsPlayers s) of
        (Inl _, m) \<Rightarrow> (HttpError 500, s\<lparr>gsPlayers := m\<rparr>)
      | (Inr _, m) \<Rightarrow>
          let result = (case gPlayers m roleID of None \<Rightarrow> (0, 0) | Some q \<Rightarrow> (pLevel (gHeap m q), pGold (gHeap m q)))
          in (ReplyOK result, s\<lparr>gsPlayers := m\<rparr>))"

section \<open>Guilds\<close>

definition handleGuildJoin :: "outcome \<times> outcome \<times> outcome \<Rightarrow> player_call \<Rightarrow> body \<Rightarrow> game_srv \<Rightarrow> (int \<times> string) reply \<times> game_srv" where
  "handleGuildJoin ocs c p s =
     (let (oc1, oc2, oc3) = ocs; roleID = json_int64 ''role_id'' p; guildID = json_int64 ''guild_id'' p;
          guildID = (if guildID = 0 then 1 else guildID)
      in case guild_Join oc1 oc2 oc3 roleID guildID (gsGuilds s) of
           (Inl _, gs) \<Rightarrow> (Reply 1003, s\<lparr>gsGuilds := gs\<rparr>)
         | (Inr g, gs) \<Rightarrow>
             (case WithPlayerSaved (cGet c) (cAdm c) (cSave c) (cNow c) roleID (\<lambda>pl. (Inr (), SetGuild (gvID g) pl)) (gsPlayers s) of
                (Inl _, m) \<Rightarrow> (HttpError 500, s\<lparr>gsGuilds := gs, gsPlayers := m\<rparr>)
              | (Inr _, m) \<Rightarrow> (ReplyOK (gvID g, gvName g), s\<lparr>gsGuilds := gs, gsPlayers := m\<rparr>)))"

definition handleGuildInfo :: "outcome \<Rightarrow> outcome \<Rightarrow> game_srv \<Rightarrow> guild_view reply" where
  "handleGuildInfo oc1 oc2 s = (case guild_Info oc1 oc2 1 (gsGuilds s) of Inl _ \<Rightarrow> Reply 1003 | Inr g \<Rightarrow> ReplyOK g)"

section \<open>World boss and guild war\<close>

definition handleWorldBossState :: "outcome \<Rightarrow> outcome \<Rightarrow> outcome \<Rightarrow> game_srv \<Rightarrow> boss_state reply \<times> game_srv" where
  "handleWorldBossState oc1 oc2 oc3 s =
     (case boss_State oc1 oc2 oc3 (gsBoss s) of
        (Inl _, b) \<Rightarrow> (HttpError 500, s\<lparr>gsBoss := b\<rparr>)
      | (Inr st, b) \<Rightarrow> (ReplyOK st, s\<lparr>gsBoss := b\<rparr>))"

definition handleWorldBossAttack :: "outcome \<Rightarrow> outcome \<Rightarrow> outcome \<Rightarrow> outcome \<Rightarrow> player_call \<Rightarrow> body \<Rightarrow> game_srv \<Rightarrow> boss_state reply \<times> game_srv" where
  "handleWorldBossAttack oc oc1 oc2 oc3 c p s =
     (let roleID = json_int64 ''role_id'' p; damage = json_int64 ''damage'' p in
      case boss_Attack oc oc1 oc2 oc3 roleID (sZoneID (gsCfg s)) damage (gsBoss s) of
        (Inl _, b) \<Rightarrow> (HttpError 500, s\<lparr>gsBoss := b\<rparr>)
      | (Inr st, b) \<Rightarrow>
          let s = s\<lparr>gsBoss := b\<rparr> in
          if roleID > 0
          then (case WithPlayerSaved (cGet c) (cAdm c) (cSave c) (cNow c) roleID (\<lambda>pl. (Inr (), AddGold 10 pl)) (gsPlayers s) of
                  (Inl _, m) \<Rightarrow> (HttpError 500, s\<lparr>gsPlayers := m\<rparr>)
                | (Inr _, m) \<Rightarrow> (ReplyOK st, s\<lparr>gsPlayers := m\<rparr>))
          else (ReplyOK st, s))"

definition handleGuildWarState :: "outcome \<Rightarrow> outcome \<Rightarrow> ((int \<times> int) list \<Rightarrow> (int \<times> int) list) \<Rightarrow> game_srv \<Rightarrow> war_state reply" where
  "handleGuildWarState oc1 oc2 ord s = (case war_State oc1 oc2 ord (gsWar s) of Inl _ \<Rightarrow> HttpError 500 | Inr st \<Rightarrow> ReplyOK st)"

definition handleGuildWarAttack :: "outcome \<Rightarrow> outcome \<Rightarrow> outcome \<Rightarrow> outcome \<Rightarrow> ((int \<times> int) list \<Rightarrow> (int \<times> int) list) \<Rightarrow> body
    \<Rightarrow> game_srv \<Rightarrow> war_state reply \<times> game_srv" where
  "handleGuildWarAttack oc1 oc2 oc3 oc4 ord p s =
     (let guildID = json_int64 ''guild_id'' p; guildID = (if guildID = 0 then 1 else guildID)
      in case war_Attack oc1 oc2 oc3 oc4 ord guildID (json_int64 ''damage'' p) (gsWar s) of
           (Inl _, w) \<Rightarrow> (Reply 1003, s\<lparr>gsWar := w\<rparr>)
         | (Inr st, w) \<Rightarrow> (ReplyOK st, s\<lparr>gsWar := w\<rparr>))"

definition handleGuildWarReset :: "outcome \<Rightarrow> string \<Rightarrow> game_srv \<Rightarrow> war_state reply \<times> game_srv" where
  "handleGuildWarReset oc meth s =
     (if meth \<noteq> ''POST'' then (HttpError 405, s)
      else case ResetSeason oc (gsWar s) of
        (Inl _, w) \<Rightarrow> (HttpError 500, s\<lparr>gsWar := w\<rparr>)
      | (Inr st, w) \<Rightarrow> (ReplyOK st, s\<lparr>gsWar := w\<rparr>))"

text \<open>The state after the reset is read with its error ignored: the zero value then has the maximum set.\<close>

definition handleWorldBossReset :: "outcome \<Rightarrow> outcome \<Rightarrow> (boss_store \<Rightarrow> boss_store) \<Rightarrow> outcome \<Rightarrow> outcome \<Rightarrow> outcome \<Rightarrow> string
    \<Rightarrow> game_srv \<Rightarrow> boss_state reply \<times> game_srv" where
  "handleWorldBossReset oc1 oc2 mid oc3 oc4 oc5 meth s =
     (if meth \<noteq> ''POST'' then (HttpError 405, s)
      else case boss_Reset oc1 oc2 mid (gsBoss s) of
        (Inl _, b) \<Rightarrow> (HttpError 500, s\<lparr>gsBoss := b\<rparr>)
      | (Inr _, b) \<Rightarrow>
          let (r, b) = boss_State oc3 oc4 oc5 b
          in (ReplyOK (case r of Inr st \<Rightarrow> st | Inl _ \<Rightarrow> \<lparr>bsHP = 0, bsMaxHP = defaultHP, bsTop = []\<rparr>), s\<lparr>gsBoss := b\<rparr>))"

section \<open>Auctions\<close>

definition handleAuctionList :: "outcome \<Rightarrow> game_srv \<Rightarrow> listing list reply \<times> game_srv" where
  "handleAuctionList oc s =
     (case auction_List oc 50 (gsAuction s) of
        (Inl _, a) \<Rightarrow> (HttpError 500, s\<lparr>gsAuction := a\<rparr>)
      | (Inr l, a) \<Rightarrow> (ReplyOK l, s\<lparr>gsAuction := a\<rparr>))"

definition handleAuctionCreate :: "outcome \<Rightarrow> call_env \<Rightarrow> outcome \<Rightarrow> body \<Rightarrow> game_srv \<Rightarrow> listing reply \<times> game_srv" where
  "handleAuctionCreate oc1 E oc2 p s =
     (if \<not> json_valid [(''role_id'', JNum 64), (''item_id'', JStr []), (''qty'', JNum 32), (''price'', JNum 64), (''request_id'', JStr [])] p
      then (Reply 1001, s)
      else case CreateWithKey oc1 E oc2 (json_int64 ''role_id'' p) (json_string ''item_id'' p) (json_int32 ''qty'' p) (json_int64 ''price'' p)
                  (json_string ''request_id'' p) (gsAuction s, gsPlayers s) of
        (Inl _, a, m) \<Rightarrow> (Reply 1003, s\<lparr>gsAuction := a, gsPlayers := m\<rparr>)
      | (Inr l, a, m) \<Rightarrow> (ReplyOK l, s\<lparr>gsAuction := a, gsPlayers := m\<rparr>))"

definition handleAuctionBuy :: "buy_ocs \<Rightarrow> call_env \<Rightarrow> call_env \<Rightarrow> call_env \<Rightarrow> call_env \<Rightarrow> granter_fn option \<Rightarrow> body
    \<Rightarrow> game_srv \<Rightarrow> listing reply \<times> game_srv" where
  "handleAuctionBuy ocs E1 E2 E3 E4 rt p s =
     (if \<not> json_valid [(''role_id'', JNum 64), (''listing_id'', JNum 64)] p then (Reply 1001, s)
      else case Buy ocs E1 E2 E3 E4 rt (json_int64 ''role_id'' p) (json_int64 ''listing_id'' p) (gsAuction s, gsPlayers s) of
        (Inl _, a, m) \<Rightarrow> (Reply 1003, s\<lparr>gsAuction := a, gsPlayers := m\<rparr>)
      | (Inr l, a, m) \<Rightarrow> (ReplyOK l, s\<lparr>gsAuction := a, gsPlayers := m\<rparr>))"

section \<open>The two transports agree\<close>

lemma ParseUint_FormatInt: "0 \<le> n \<Longrightarrow> n < 2 ^ bits \<Longrightarrow> ParseUint bits (FormatInt n) = (n, None)"
  by (simp add: ParseUint_def FormatInt_def parse_digits_nat_digits)

lemma HandleMsg_zero: "HandleMsg ocg adm oc now 0 cmd act p m = (x, m') \<Longrightarrow> m' = m \<and> isl x"
  by (auto simp: HandleMsg_def manager_Get_def)

text \<open>
  A player message has the same effect by HTTP and by gRPC. For every role id, every command and
  action of the protocol, every body and every pattern of faults, the HTTP endpoint with the headers
  that Gate writes and the gRPC method leave the same state; one answers with a reply exactly when the
  other does, and then with the same one.
\<close>

theorem transports_agree:
  assumes "in_i64 role" and "0 \<le> cmd" and "cmd \<le> 65535" and "0 \<le> act" and "act \<le> 65535"
  shows "\<exists>h g s'. handlePlayerMsg c (FormatInt role) (FormatInt cmd) (FormatInt act) True p s = (h, s')
    \<and> Forward c role cmd act p s = (g, s') \<and> (\<forall>r. h = ReplyOK r \<longleftrightarrow> g = Inr r)"
proof -
  have u: "ParseUint 16 (FormatInt cmd) = (cmd, None)" "ParseUint 16 (FormatInt act) = (act, None)"
    using assms by (simp_all add: ParseUint_FormatInt)
  obtain x m where h: "HandleMsg (cGet c) (cAdm c) (cSave c) (cNow c) role (word_of_int cmd) (word_of_int act) p (gsPlayers s) = (x, m)"
    by fastforce
  show ?thesis
  proof (cases "role = 0")
    case True
    then have "m = gsPlayers s" "isl x" using h HandleMsg_zero by metis+
    then show ?thesis using True assms h by (cases x) (auto simp: handlePlayerMsg_def Forward_def ParseInt_FormatInt_64)
  next
    case False
    then show ?thesis
      using assms h u by (cases x) (auto simp: handlePlayerMsg_def Forward_def ParseInt_FormatInt_64)
  qed
qed

text \<open>
  Outside the protocol's range they differ: the HTTP endpoint ignores the range error and uses the
  largest number, the gRPC method refuses.
\<close>

lemma transports_differ_out_of_range:
  "fst (Forward c 7 65536 1 p s) = Inl (ErrMsg ''protocol command out of range'') \<and> fst (ParseUint 16 ''65536'') = 65535"
  by (simp add: Forward_def ParseUint_def digit_val_def)

section \<open>Passing a dungeon\<close>

definition passed :: "actor \<Rightarrow> actor \<Rightarrow> bool" where
  "passed a b \<longleftrightarrow> pLevel b = i32 (pLevel a + 1) \<and> pGold b = i64 (pGold a + 50) \<and> pInv b = bag_Add (pInv a) ''potion'' 1
     \<and> pQuests b = snd (quest_AddProgress (pQuests a) ''main_1'' 1) \<and> pSkills b = pSkills a \<and> pGuildID b = pGuildID a"

lemma pass_fn_eq:
  "pass_fn z r a = (Inr (pass_event z r (pLevel (snd (pass_fn z r a)))), snd (pass_fn z r a)) \<and> passed a (snd (pass_fn z r a))
     \<and> same_shell a (snd (pass_fn z r a))"
  by (simp add: pass_fn_def passed_def dungeon_Pass_def LevelUp_def AddGold_def goldPerPass_def same_shell_def Let_def)

lemma pass_fn_mutation: "mutation (pass_fn z r)"
  using pass_fn_eq by (simp add: mutation_def)

lemma pass_task:
  assumes "outbox_task oc now (pass_fn z r) (a, Some rp) = (Inr u, a', st)"
  shows "\<exists>rp'. st = Some rp' \<and> persisted a' rp' \<and> passed a a'
    \<and> EventID (pass_event z r (pLevel a')) \<in> EventID ` oEvent ` set (outbox (role_db rp' (pID a)))"
proof -
  obtain b where b: "pass_fn z r a = (Inr (pass_event z r (pLevel b)), b)" "passed a b" "same_shell a b" using pass_fn_eq by metis
  then have "saveWithOutboxUnsafe oc now (pass_event z r (pLevel b)) (b, Some rp) = (None, a', st)"
    using assms by (auto simp: outbox_task_def Let_def split: option.splits prod.splits)
  from saveWithOutboxUnsafe_persisted [OF this] b show ?thesis by (auto simp: passed_def same_shell_def)
qed

text \<open>
  C25. Passing a dungeon is one transaction with its announcement. When the endpoint answers with success
  on a process with a database, the player gained one level, fifty gold and one potion, exactly that is
  in the role's row, and the event that announces the new level to the rank service is in the outbox
  of the same database; the reply shows the stored level and gold. When it answers with an error, the
  player is as before.
\<close>

theorem dungeon_pass_transactional:
  assumes "manager_Get (cGet c) (cNow c) (json_int64 ''role_id'' p) (gsPlayers s) = (Inr q, m1)" and "gRoles m1 \<noteq> None"
    and "pID (gHeap m1 q) = json_int64 ''role_id'' p"
    and "handleDungeonPass c p s = (x, s')"
  shows "(\<forall>r. x = ReplyOK r \<longrightarrow> (\<exists>rp' b. b = gHeap (gsPlayers s') q \<and> gPlayers (gsPlayers s') (json_int64 ''role_id'' p) = Some q
      \<and> gRoles (gsPlayers s') = Some rp' \<and> passed (gHeap m1 q) b \<and> persisted b rp' \<and> r = (pLevel b, pGold b)
      \<and> EventID (pass_event (sZoneID (gsCfg s)) (pID b) (pLevel b)) \<in> EventID ` oEvent ` set (outbox (role_db rp' (pID b)))))
    \<and> ((\<forall>r. x \<noteq> ReplyOK r) \<longrightarrow> snapshotUnsafe (gHeap (gsPlayers s') q) = snapshotUnsafe (gHeap m1 q))"
proof -
  let ?r = "json_int64 ''role_id'' p" and ?z = "sZoneID (gsCfg s)"
  let ?fn = "pass_fn ?z ?r"
  obtain w m' where w: "WithPlayerOutbox (cGet c) (cAdm c) (cSave c) (cNow c) ?r ?fn (gsPlayers s) = (w, m')" by fastforce
  note tt = outbox_task_transactional [OF pass_fn_mutation]
  have pos: "0 < ?r" "gPlayers m1 ?r = Some q" using manager_Get_Inr [OF assms(1)] by auto
  have s': "s' = s\<lparr>gsPlayers := m'\<rparr>" using assms(4) w pos by (auto simp: handleDungeonPass_def Let_def split: sum.splits)
  show ?thesis
  proof (cases w)
    case (Inl e)
    then have "with_task (cGet c) (cAdm c) (cNow c) ?r (outbox_task (cSave c) (cNow c) ?fn) (gsPlayers s) = (Inl e, m')"
      using w by (simp add: with_task_eqs)
    then have "snapshotUnsafe (gHeap m' q) = snapshotUnsafe (gHeap m1 q)"
      using transactional_task.refused_unchanged [OF tt _ assms(1)] by blast
    moreover have "x = HttpError 500" using assms(4) w Inl pos by (simp add: handleDungeonPass_def)
    ultimately show ?thesis using s' by simp
  next
    case (Inr u)
    obtain rp where rp: "gRoles m1 = Some rp" using assms(2) by blast
    let ?a = "touch (cNow c) (gHeap m1 q)"
    obtain y a' st where iv: "Invoke (cAdm c) (cNow c) (outbox_task (cSave c) (cNow c) ?fn) (gHeap m1 q, Some rp) = (y, a', st)"
      by (rule prod_cases3)
    have m': "y = Inr u" "gHeap m' q = a'" "gRoles m' = st" "gPlayers m' ?r = Some q"
      using w Inr assms(1) iv rp pos
      by (auto simp: WithPlayerOutbox_def on_actor_def dropIfStale_def split: sum.splits)
    have task: "outbox_task (cSave c) (cNow c) ?fn (?a, Some rp) = (Inr u, a', st)"
      using iv m'(1) by (auto simp: Invoke_def mailbox_Call_def split: if_splits admission.splits)
    obtain rp' where pt: "st = Some rp'" "persisted a' rp'" "passed ?a a'"
      "EventID (pass_event ?z ?r (pLevel a')) \<in> EventID ` oEvent ` set (outbox (role_db rp' (pID ?a)))"
      using pass_task [OF task] by blast
    have "passed (gHeap m1 q) a'" using pt(3) by (simp add: passed_def touch_def)
    moreover have "pID a' = ?r" "pID ?a = ?r"
      using transactional_task.keeps_shell [OF tt task] assms(3) by (simp_all add: same_shell_def touch_def)
    moreover have "x = ReplyOK (pLevel a', pGold a')"
      using assms(4) w Inr pos m' by (simp add: handleDungeonPass_def Let_def)
    ultimately show ?thesis using pt m' s' by simp
  qed
qed

definition demo_server :: game_srv where
  "demo_server = \<lparr>gsCfg = zero_config, gsPlayers = demo_manager, gsGuilds = guild_New None,
     gsWar = WarMemory \<lparr>wmSeason = 0, wmScores = []\<rparr>, gsBoss = None,
     gsAuction = \<lparr>svcRepo = None, svcMem = [], svcNextID = 0\<rparr>\<rparr>"

definition demo_call :: player_call where
  "demo_call = \<lparr>cGet = Done, cAdm = Admitted, cSave = Done, cNow = 5\<rparr>"

lemma demo_pass: "\<exists>s'. handleDungeonPass demo_call (Some (JObj [(''role_id'', JNum 7)])) demo_server = (ReplyOK (2, 50), s')"
  by (simp add: handleDungeonPass_def demo_server_def demo_call_def json_int64_def read_field_def Json_Values.fields_def same_key_def
      in_i64_def WithPlayerOutbox_def saver_Remove_def on_actor_def Invoke_def mailbox_Call_def touch_def outbox_task_def
      pass_fn_def dungeon_Pass_def LevelUp_def AddGold_def goldPerPass_def saveWithOutboxUnsafe_def pass_event_def
      RoleRepo_SaveWithOutbox_def Repo_SaveWithOutbox_def insert_outbox_def quest_AddProgress_def dropIfStale_def New_def i32_def i64_def demo_manager_simps)

theorem dungeon_pass_transactional_witness:
  "passed (gHeap demo_loaded 0) (gHeap (gsPlayers (snd (handleDungeonPass demo_call (Some (JObj [(''role_id'', JNum 7)])) demo_server))) 0)"
proof -
  let ?p = "Some (JObj [(''role_id'', JNum 7)])"
  have r: "json_int64 ''role_id'' ?p = 7"
    by (simp add: json_int64_def read_field_def Json_Values.fields_def same_key_def in_i64_def)
  have g: "manager_Get (cGet demo_call) (cNow demo_call) (json_int64 ''role_id'' ?p) (gsPlayers demo_server) = (Inr 0, demo_loaded)"
    using demo_Get by (simp add: r demo_call_def demo_server_def)
  have l: "gRoles demo_loaded \<noteq> None" "pID (gHeap demo_loaded 0) = json_int64 ''role_id'' ?p"
    by (simp_all add: r demo_loaded_def demo_manager_simps New_def)
  obtain s' where "handleDungeonPass demo_call ?p demo_server = (ReplyOK (2, 50), s')" using demo_pass by blast
  from dungeon_pass_transactional [OF g l this] this show ?thesis by auto
qed

theorem transports_agree_witness:
  "snd (handlePlayerMsg demo_call ''7'' ''2'' ''1'' True None demo_server) = snd (Forward demo_call 7 2 1 None demo_server)"
proof -
  have "FormatInt 7 = ''7''" "FormatInt 2 = ''2''" "FormatInt 1 = ''1''"
    by (simp_all add: FormatInt_def nat_digits_small digit_char_def)
  moreover have "in_i64 7" by (simp add: in_i64_def)
  ultimately show ?thesis using transports_agree [of 7 2 1 demo_call None demo_server] by auto
qed

text \<open>
  Joining a guild records the membership before the role is looked at: a request for no role, or for
  one that this process does not own, fails and leaves the member behind.
\<close>

lemma guild_join_not_rolled_back:
  "\<exists>s'. handleGuildJoin (Done, Done, Done) demo_call (Some (JObj [])) demo_server = (HttpError 500, s')
     \<and> guild_Info Done Done 1 (gsGuilds s') = Inr \<lparr>gvID = 1, gvName = ''default_guild'', gvMembers = [0]\<rparr>"
  by (simp add: handleGuildJoin_def demo_server_def demo_call_def json_int64_def read_field_def Json_Values.fields_def guild_Join_def
      guild_New_def appendUnique_def cloneGuild_def guild_Info_def WithPlayerSaved_def manager_Get_def Let_def)

end
