(* ===== verification/Battle_Service.thy ===== *)
theory Battle_Service
  imports Sessions Config
begin

text \<open>
  The battle service (\<^verbatim>\<open>services/battle/internal/server.go\<close>): rooms with their members and the results that
  the members report. With Redis, a room and the hash of its results are two keys with their own
  expiry; without, rooms are kept in memory and cleaned up. \<open>rnd\<close> is what the random source yields:
  sixteen bytes, or an error.
\<close>

record battle_result =
  brRoomId :: string
  brRoleId :: int
  brWin :: bool
  brScore :: int

record battle_room =
  rmID :: string
  rmMembers :: "int list"
  rmCreated :: int

record battle_redis =
  btRooms :: "battle_room option redis"
  btResults :: "(int \<times> battle_result) list redis"

record battle_srv =
  btRedis :: "battle_redis option"
  btMem :: "string \<Rightarrow> (battle_room \<times> (int \<times> battle_result) list) option"

definition battle_roomTTL :: int where "battle_roomTTL = 30 * 60 * second"

definition battleRoomKey :: "string \<Rightarrow> string" where
  "battleRoomKey roomID = ''ng:battle:{'' @ roomID @ ''}:room''"

definition battleResultsKey :: "string \<Rightarrow> string" where
  "battleResultsKey roomID = ''ng:battle:{'' @ roomID @ ''}:results''"

definition newRoomID :: "nat list option \<Rightarrow> string res" where
  "newRoomID rnd = (case rnd of None \<Rightarrow> Inl (ErrMsg ''rand'') | Some bs \<Rightarrow> Inr (''br_'' @ hex_encode bs))"

definition battle_cleanupRooms :: "int \<Rightarrow> battle_srv \<Rightarrow> battle_srv" where
  "battle_cleanupRooms now s =
     s\<lparr>btMem := (\<lambda>i. case btMem s i of None \<Rightarrow> None | Some (rm, rs) \<Rightarrow> if rmCreated rm < now - battle_roomTTL then None else Some (rm, rs))\<rparr>"

definition battle_handleCreate :: "outcome \<Rightarrow> nat list option \<Rightarrow> int \<Rightarrow> body \<Rightarrow> battle_srv \<Rightarrow> string reply \<times> battle_srv" where
  "battle_handleCreate oc rnd now p s =
     (let members = json_int64s ''members'' p in
      if \<not> json_valid [(''members'', JArr [])] p \<or> length members < 2 then (Reply 1001, s)
      else case newRoomID rnd of
        Inl _ \<Rightarrow> (HttpError 500, s)
      | Inr roomID \<Rightarrow>
          let rm = \<lparr>rmID = roomID, rmMembers = members, rmCreated = now\<rparr> in
          case btRedis s of
            Some db \<Rightarrow>
              (case store_call oc db (Inr (), db\<lparr>btRooms := redis_SET now (battleRoomKey roomID) (Some rm) (Some (ttl_ms battle_roomTTL)) (btRooms db)\<rparr>) of
                 (Inl _, db) \<Rightarrow> (HttpError 503, s\<lparr>btRedis := Some db\<rparr>)
               | (Inr _, db) \<Rightarrow> (ReplyOK roomID, s\<lparr>btRedis := Some db\<rparr>))
          | None \<Rightarrow> (ReplyOK roomID, s\<lparr>btMem := (btMem s)(roomID \<mapsto> (rm, []))\<rparr>))"

definition battle_getRoom :: "outcome \<Rightarrow> int \<Rightarrow> string \<Rightarrow> battle_srv \<Rightarrow> battle_room res" where
  "battle_getRoom oc now roomID s =
     (case btRedis s of
        Some db \<Rightarrow>
          if oc \<noteq> Done then Inl ErrStore
          else (case redis_GET now (battleRoomKey roomID) (btRooms db) of
            None \<Rightarrow> Inl ErrNoRows
          | Some None \<Rightarrow> Inl (ErrMsg ''json'')
          | Some (Some rm) \<Rightarrow> Inr rm)
      | None \<Rightarrow> (case btMem s roomID of None \<Rightarrow> Inl (ErrMsg ''room not found'') | Some (rm, _) \<Rightarrow> Inr rm))"

definition containsRole :: "int list \<Rightarrow> int \<Rightarrow> bool" where
  "containsRole members roleID \<longleftrightarrow> roleID \<in> set members"

text \<open>The results as the handler shows them, keyed by the role inside each result.\<close>

definition room_results :: "outcome \<Rightarrow> int \<Rightarrow> string \<Rightarrow> battle_srv \<Rightarrow> int \<Rightarrow> battle_result option" where
  "room_results oc now roomID s =
     (case btRedis s of
        Some db \<Rightarrow>
          if oc \<noteq> Done then Map.empty
          else map_of (case redis_GET now (battleResultsKey roomID) (btResults db) of None \<Rightarrow> [] | Some rs \<Rightarrow> map (\<lambda>(_, r). (brRoleId r, r)) rs)
      | None \<Rightarrow> (case btMem s roomID of None \<Rightarrow> Map.empty | Some (_, rs) \<Rightarrow> map_of rs))"

definition handleGet :: "outcome \<Rightarrow> outcome \<Rightarrow> int \<Rightarrow> string \<Rightarrow> battle_srv \<Rightarrow> (int list \<times> (int \<Rightarrow> battle_result option)) reply" where
  "handleGet oc1 oc2 now roomID s =
     (case battle_getRoom oc1 now roomID s of
        Inl _ \<Rightarrow> Reply 1003
      | Inr rm \<Rightarrow> ReplyOK (rmMembers rm, room_results oc2 now roomID s))"

text \<open>
  \<^verbatim>\<open>HSET\<close> keeps the expiry of the key; the second command of the pipeline sets it. Expired entries are gone.
\<close>

definition HSET :: "int \<Rightarrow> string \<Rightarrow> int \<Rightarrow> battle_result \<Rightarrow> (int \<times> battle_result) list redis \<Rightarrow> (int \<times> battle_result) list redis" where
  "HSET now k f v s =
     (case redis_GET now k s of
        None \<Rightarrow> redis_SET now k [(f, v)] None s
      | Some rs \<Rightarrow> s(k := map_option (\<lambda>e. (AList.update f v rs, snd e)) (s k)))"

definition settle_redis :: "outcome \<Rightarrow> outcome \<Rightarrow> int \<Rightarrow> battle_result \<Rightarrow> battle_redis \<Rightarrow> unit res \<times> battle_redis" where
  "settle_redis oc1 oc2 now req db =
     (let k = battleResultsKey (brRoomId req);
          h = (if oc1 = Failed then btResults db else HSET now k (brRoleId req) req (btResults db));
          h = (if oc2 = Failed then h else redis_PEXPIRE now k (ttl_ms battle_roomTTL) h)
      in (if oc1 = Done \<and> oc2 = Done then Inr () else Inl ErrStore, db\<lparr>btResults := h\<rparr>))"

text \<open>The number of results only feeds a log line. The reply code is 0, 1001, 1002 or 1003.\<close>

definition handleSettle :: "outcome \<Rightarrow> outcome \<Rightarrow> outcome \<Rightarrow> int \<Rightarrow> body \<Rightarrow> battle_srv \<Rightarrow> unit reply \<times> battle_srv" where
  "handleSettle oc oc1 oc2 now p s =
     (if \<not> json_valid [(''room_id'', JStr []), (''role_id'', JNum 64), (''win'', JBool True), (''score'', JNum 32)] p then (Reply 1001, s)
      else let req = \<lparr>brRoomId = json_string ''room_id'' p, brRoleId = json_int64 ''role_id'' p,
                      brWin = json_bool ''win'' p, brScore = json_int32 ''score'' p\<rparr> in
        case battle_getRoom oc now (brRoomId req) s of
          Inl _ \<Rightarrow> (Reply 1003, s)
        | Inr rm \<Rightarrow>
            if \<not> containsRole (rmMembers rm) (brRoleId req) then (Reply 1002, s)
            else case btRedis s of
              Some db \<Rightarrow>
                (case settle_redis oc1 oc2 now req db of
                   (Inl _, db) \<Rightarrow> (HttpError 503, s\<lparr>btRedis := Some db\<rparr>)
                 | (Inr _, db) \<Rightarrow> (ReplyOK (), s\<lparr>btRedis := Some db\<rparr>))
            | None \<Rightarrow>
                (ReplyOK (), s\<lparr>btMem := (btMem s)(brRoomId req :=
                   map_option (\<lambda>(rm, rs). (rm, AList.update (brRoleId req) req rs)) (btMem s (brRoomId req)))\<rparr>))"

section \<open>Results belong to members\<close>

definition results_ok :: "(int \<times> battle_result) list \<Rightarrow> bool" where
  "results_ok rs \<longleftrightarrow> distinct (map fst rs) \<and> (\<forall>(r, x) \<in> set rs. brRoleId x = r)"

definition battle_ok :: "battle_srv \<Rightarrow> bool" where
  "battle_ok s \<longleftrightarrow>
     (case btRedis s of
        Some db \<Rightarrow> (\<forall>k e. btResults db k = Some e \<longrightarrow> results_ok (fst e))
      | None \<Rightarrow> (\<forall>i rm rs. btMem s i = Some (rm, rs) \<longrightarrow> results_ok rs))"

lemma results_ok_update: "results_ok rs \<Longrightarrow> brRoleId x = r \<Longrightarrow> results_ok (AList.update r x rs)"
  by (fastforce simp: results_ok_def distinct_update update_entries split: if_splits)

lemma results_keyed: "results_ok rs \<Longrightarrow> map_of (map (\<lambda>(_, r). (brRoleId r, r)) rs) = map_of rs"
proof -
  assume "results_ok rs"
  then have "map (\<lambda>(_, r). (brRoleId r, r)) rs = rs" by (auto simp: results_ok_def intro!: map_idI)
  then show ?thesis by simp
qed

lemma battleResultsKey_inj [simp]: "battleResultsKey a = battleResultsKey b \<longleftrightarrow> a = b"
  by (simp add: battleResultsKey_def)

lemma HSET_GET: "redis_GET now k (HSET now k f v s) = Some (AList.update f v (case redis_GET now k s of None \<Rightarrow> [] | Some rs \<Rightarrow> rs))"
  by (cases "redis_GET now k s") (auto simp: HSET_def redis_SET_def redis_GET_def entry_live.simps split: option.splits if_splits elim: entry_live.elims)

lemma PEXPIRE_GET_now: "0 < d \<Longrightarrow> redis_GET now k (redis_PEXPIRE now k d s) = redis_GET now k s"
  by (cases "redis_GET now k s") (simp_all add: redis_PEXPIRE_def)

lemma HSET_other: "k' \<noteq> k \<Longrightarrow> HSET now k f v s k' = s k'"
  by (simp add: HSET_def redis_SET_def split: option.splits)

lemma PEXPIRE_other: "k' \<noteq> k \<Longrightarrow> redis_PEXPIRE now k d s k' = s k'"
  by (simp add: redis_PEXPIRE_def redis_SET_def redis_DEL_def split: option.splits)

lemma battle_roomTTL_pos: "0 < ttl_ms battle_roomTTL"
  by (simp add: ttl_ms_def battle_roomTTL_def second_def millis_def)

lemma settle_redis_results:
  assumes "settle_redis Done Done now req db = (x, db')"
    and "\<forall>k e. btResults db k = Some e \<longrightarrow> results_ok (fst e)"
  shows "x = Inr () \<and> btRooms db' = btRooms db
    \<and> redis_GET now (battleResultsKey (brRoomId req)) (btResults db')
        = Some (AList.update (brRoleId req) req (case redis_GET now (battleResultsKey (brRoomId req)) (btResults db) of None \<Rightarrow> [] | Some rs \<Rightarrow> rs))
    \<and> (\<forall>k. k \<noteq> battleResultsKey (brRoomId req) \<longrightarrow> btResults db' k = btResults db k)"
  using assms battle_roomTTL_pos by (auto simp: settle_redis_def Let_def PEXPIRE_GET_now HSET_GET HSET_other PEXPIRE_other)

lemma live_results_ok:
  "battle_ok s \<Longrightarrow> btRedis s = Some db \<Longrightarrow> results_ok (case redis_GET now k (btResults db) of None \<Rightarrow> [] | Some rs \<Rightarrow> rs)"
proof -
  assume s: "battle_ok s" "btRedis s = Some db"
  show ?thesis
  proof (cases "redis_GET now k (btResults db)")
    case None
    then show ?thesis by (simp add: results_ok_def)
  next
    case (Some rs)
    then obtain e where "btResults db k = Some e" "rs = fst e" by (auto simp: redis_GET_def split: option.splits if_splits)
    then show ?thesis using s Some by (cases e) (auto simp: battle_ok_def)
  qed
qed

text \<open>
  A battle room collects the results of its members. A result that is acknowledged comes from a
  member of the room, replaces an earlier one of the same member and nothing else; a request that is
  answered with an error code changes nothing, and no request touches another room.
\<close>

theorem battle_results_of_members:
  assumes "battle_ok s" and "handleSettle Done Done Done now p s = (x, s')"
  shows "(x = ReplyOK () \<and> (\<exists>rm. battle_getRoom Done now (json_string ''room_id'' p) s = Inr rm
          \<and> battle_getRoom Done now (json_string ''room_id'' p) s' = Inr rm \<and> json_int64 ''role_id'' p \<in> set (rmMembers rm))
        \<and> room_results Done now (json_string ''room_id'' p) s' = (room_results Done now (json_string ''room_id'' p) s)(json_int64 ''role_id'' p \<mapsto>
            \<lparr>brRoomId = json_string ''room_id'' p, brRoleId = json_int64 ''role_id'' p, brWin = json_bool ''win'' p, brScore = json_int32 ''score'' p\<rparr>)
        \<and> (\<forall>other now'. other \<noteq> json_string ''room_id'' p \<longrightarrow> room_results Done now' other s' = room_results Done now' other s)
     \<or> (\<exists>c. x = Reply c) \<and> s' = s)"
proof -
  let ?room = "json_string ''room_id'' p" and ?role = "json_int64 ''role_id'' p"
  let ?req = "\<lparr>brRoomId = ?room, brRoleId = ?role, brWin = json_bool ''win'' p, brScore = json_int32 ''score'' p\<rparr>"
  show ?thesis
  proof (cases "\<exists>rm. battle_getRoom Done now ?room s = Inr rm \<and> ?role \<in> set (rmMembers rm) \<and>
      json_valid [(''room_id'', JStr []), (''role_id'', JNum 64), (''win'', JBool True), (''score'', JNum 32)] p")
    case False
    then show ?thesis using assms(2) by (auto simp: handleSettle_def Let_def containsRole_def split: if_splits sum.splits)
  next
    case True
    then obtain rm where rm: "battle_getRoom Done now ?room s = Inr rm" "?role \<in> set (rmMembers rm)"
      and v: "json_valid [(''room_id'', JStr []), (''role_id'', JNum 64), (''win'', JBool True), (''score'', JNum 32)] p" by blast
    show ?thesis
    proof (cases "btRedis s")
      case (Some db)
      let ?rs = "case redis_GET now (battleResultsKey ?room) (btResults db) of None \<Rightarrow> [] | Some rs \<Rightarrow> rs"
      have rok: "\<forall>k e. btResults db k = Some e \<longrightarrow> results_ok (fst e)" using assms(1) Some by (simp add: battle_ok_def)
      obtain y db' where sr: "settle_redis Done Done now ?req db = (y, db')" by fastforce
      note r = settle_redis_results [OF sr rok]
      have x: "x = ReplyOK ()" "s' = s\<lparr>btRedis := Some db'\<rparr>"
        using assms(2) rm v Some sr r by (auto simp: handleSettle_def Let_def containsRole_def)
      have ok: "results_ok ?rs" by (rule live_results_ok [OF assms(1) Some])
      have "room_results Done now ?room s' = (room_results Done now ?room s)(?role \<mapsto> ?req)"
        using r Some x ok results_keyed [OF ok] results_keyed [OF results_ok_update [OF ok, of ?req ?role]]
        by (auto simp: room_results_def update_conv' split: option.splits)
      moreover have "battle_getRoom Done now ?room s' = Inr rm" using rm r Some x by (simp add: battle_getRoom_def)
      moreover have "room_results Done now' other s' = room_results Done now' other s" if "other \<noteq> ?room" for other now'
        using r Some x that by (simp add: room_results_def redis_GET_def)
      ultimately show ?thesis using x rm by auto
    next
      case None
      then have x: "x = ReplyOK ()" "s' = s\<lparr>btMem := (btMem s)(?room := map_option (\<lambda>(rm, rs). (rm, AList.update ?role ?req rs)) (btMem s ?room))\<rparr>"
        using assms(2) rm v by (auto simp: handleSettle_def Let_def containsRole_def)
      then show ?thesis
        using None rm by (auto simp: battle_getRoom_def room_results_def update_conv' split: option.splits)
    qed
  qed
qed

definition demo_battle :: battle_srv where
  "demo_battle = \<lparr>btRedis = Some \<lparr>btRooms = [battleRoomKey ''r'' \<mapsto> (Some \<lparr>rmID = ''r'', rmMembers = [7, 8], rmCreated = 0\<rparr>, Some 10)],
     btResults = Map.empty\<rparr>, btMem = Map.empty\<rparr>"

definition demo_result :: body where
  "demo_result = Some (JObj [(''room_id'', JStr ''r''), (''role_id'', JNum 7), (''win'', JBool True), (''score'', JNum 3)])"

theorem battle_results_of_members_witness:
  "\<exists>s'. handleSettle Done Done Done 0 demo_result demo_battle = (ReplyOK (), s')
     \<and> room_results Done 0 ''r'' s' 7 = Some \<lparr>brRoomId = ''r'', brRoleId = 7, brWin = True, brScore = 3\<rparr>"
proof -
  have f: "json_string ''room_id'' demo_result = ''r''" "json_int64 ''role_id'' demo_result = 7" "json_bool ''win'' demo_result = True"
    "json_int32 ''score'' demo_result = 3"
    by (simp_all add: demo_result_def json_string_def json_int64_def json_bool_def json_int32_def read_field_def Json_Values.fields_def
        same_key_def lower_char_def in_i64_def in_i32_def)
  have ok: "battle_ok demo_battle" by (simp add: battle_ok_def demo_battle_def)
  obtain s' where s': "handleSettle Done Done Done 0 demo_result demo_battle = (ReplyOK (), s')"
  proof -
    have "json_valid [(''room_id'', JStr []), (''role_id'', JNum 64), (''win'', JBool True), (''score'', JNum 32)] demo_result"
      by (simp add: json_valid_def demo_result_def same_key_def lower_char_def in_i64_def in_i32_def)
    then have "\<exists>s'. handleSettle Done Done Done 0 demo_result demo_battle = (ReplyOK (), s')"
      by (simp add: handleSettle_def f battle_getRoom_def demo_battle_def redis_GET_def millis_def containsRole_def settle_redis_def Let_def)
    then show ?thesis using that by blast
  qed
  from battle_results_of_members [OF ok s'] s' show ?thesis by (auto simp: f)
qed

end
