(* ===== verification/Matchmaking.thy ===== *)
theory Matchmaking
  imports Battle_Service Discovery
begin

text \<open>
  The match service (\<^verbatim>\<open>services/match/internal\<close>): the waiting queues of \<^verbatim>\<open>crosspool.go\<close> and the handlers of
  \<^verbatim>\<open>server.go\<close>. A queue is a Redis list per scope and mode, or a slice in memory per mode without Redis.
  When two players are together, a battle room is created through the battle service, which is an
  interface here; its failure puts the players back.
\<close>

section \<open>The shared queue\<close>

record queue_entry =
  qeZoneID :: int
  qeRoleID :: int
  qeRaw :: string

definition poolKey :: "string \<Rightarrow> int \<Rightarrow> string" where
  "poolKey scope mode = ''ng:match:{'' @ scope @ '':'' @ FormatInt mode @ ''}:pool''"

definition MemberKey :: "int \<Rightarrow> int \<Rightarrow> string" where
  "MemberKey zoneID roleID = ''z'' @ FormatInt zoneID @ '':'' @ FormatInt roleID"

definition ParseMember :: "string \<Rightarrow> queue_entry res" where
  "ParseMember raw =
     (if \<not> HasPrefix raw ''z'' then Inl (ErrMsg ''invalid member'')
      else case SplitN2 CHR '':'' raw of
        [a, b] \<Rightarrow>
          (case ParseInt 32 (TrimPrefix a ''z'') of
             (_, Some _) \<Rightarrow> Inl (ErrMsg ''strconv'')
           | (zoneID, None) \<Rightarrow>
               (case ParseInt 64 b of
                  (_, Some _) \<Rightarrow> Inl (ErrMsg ''strconv'')
                | (roleID, None) \<Rightarrow> Inr \<lparr>qeZoneID = i32 zoneID, qeRoleID = roleID, qeRaw = raw\<rparr>))
      | _ \<Rightarrow> Inl (ErrMsg ''invalid member''))"

text \<open>\<^verbatim>\<open>LREM\<close> of all occurrences followed by \<^verbatim>\<open>RPUSH\<close>.\<close>

definition move_to_back :: "string \<Rightarrow> string list \<Rightarrow> string list" where
  "move_to_back m q = filter (\<lambda>x. x \<noteq> m) q @ [m]"

definition joinScript :: "string \<Rightarrow> nat \<Rightarrow> string list \<Rightarrow> string list \<times> string list" where
  "joinScript member need q =
     (let q = move_to_back member q in if need \<le> length q then (take need q, drop need q) else ([], q))"

record match_room =
  mrMembers :: "int list"
  mrRoomID :: string
  mrState :: string
  mrCreated :: int

record match_redis =
  mqLists :: "string \<Rightarrow> string list"
  mqRooms :: "match_room option redis"
  mqTickets :: "string redis"

fun parse_members :: "string list \<Rightarrow> queue_entry list res" where
  "parse_members [] = Inr []"
| "parse_members (raw # rest) =
     (case ParseMember raw of
        Inl e \<Rightarrow> Inl e
      | Inr e \<Rightarrow> (case parse_members rest of Inl e \<Rightarrow> Inl e | Inr es \<Rightarrow> Inr (e # es)))"

definition pool_Join :: "outcome \<Rightarrow> string \<Rightarrow> int \<Rightarrow> int \<Rightarrow> int \<Rightarrow> nat \<Rightarrow> match_redis option \<Rightarrow> queue_entry list res \<times> match_redis option" where
  "pool_Join oc scope mode zoneID roleID need rdb =
     (case rdb of
        None \<Rightarrow> (Inl (ErrMsg ''redis required for cross-zone match''), None)
      | Some s \<Rightarrow>
          let key = poolKey scope mode; (out, q) = joinScript (MemberKey zoneID roleID) need (mqLists s key) in
          case store_call oc s (Inr out, s\<lparr>mqLists := (mqLists s)(key := q)\<rparr>) of
            (Inl e, s) \<Rightarrow> (Inl e, Some s)
          | (Inr res, s) \<Rightarrow> (parse_members res, Some s))"

definition Requeue :: "outcome \<Rightarrow> string \<Rightarrow> int \<Rightarrow> queue_entry list \<Rightarrow> match_redis option \<Rightarrow> unit res \<times> match_redis option" where
  "Requeue oc scope mode entries rdb =
     (case rdb of
        None \<Rightarrow> (Inl (ErrMsg ''redis required for match compensation''), None)
      | Some s \<Rightarrow>
          let key = poolKey scope mode;
              (x, s) = store_call oc s (Inr (), s\<lparr>mqLists := (mqLists s)(key := foldl (\<lambda>q e. move_to_back (qeRaw e) q) (mqLists s key) entries)\<rparr>)
          in (x, Some s))"

definition QueueSize :: "outcome \<Rightarrow> string \<Rightarrow> int \<Rightarrow> match_redis option \<Rightarrow> int res" where
  "QueueSize oc scope mode rdb =
     (case rdb of
        None \<Rightarrow> Inr 0
      | Some s \<Rightarrow> if oc \<noteq> Done then Inl ErrStore else Inr (int (length (mqLists s (poolKey scope mode)))))"

section \<open>The server\<close>

definition playersPerMatch :: nat where "playersPerMatch = 2"
definition match_roomTTL :: int where "match_roomTTL = 10 * 60 * second"

record match_srv =
  mtCfg :: service_config
  mtRedis :: "match_redis option"
  mtPools :: "int \<Rightarrow> int list"
  mtRooms :: "string \<Rightarrow> match_room option"

definition cleanupRooms :: "int \<Rightarrow> match_srv \<Rightarrow> match_srv" where
  "cleanupRooms now s =
     s\<lparr>mtRooms := (\<lambda>i. case mtRooms s i of None \<Rightarrow> None | Some rm \<Rightarrow> if mrCreated rm < now - match_roomTTL then None else Some rm)\<rparr>"

definition room_key :: "string \<Rightarrow> string" where "room_key matchID = ''ng:match:room:'' @ matchID"
definition ticket_key :: "int \<Rightarrow> string" where "ticket_key roleID = ''ng:match:ticket:'' @ FormatInt roleID"

text \<open>The pipeline of \<^verbatim>\<open>putRoom\<close>: one outcome for the room and one for each ticket.\<close>

definition put_tickets :: "(int \<Rightarrow> outcome) \<Rightarrow> int \<Rightarrow> string \<Rightarrow> int list \<Rightarrow> string redis \<Rightarrow> string redis" where
  "put_tickets oc now matchID members t =
     foldl (\<lambda>t r. if oc r = Failed then t else redis_SET now (ticket_key r) matchID (Some (ttl_ms match_roomTTL)) t) t members"

definition putRoom :: "outcome \<Rightarrow> (int \<Rightarrow> outcome) \<Rightarrow> int \<Rightarrow> string \<Rightarrow> int list \<Rightarrow> string \<Rightarrow> string \<Rightarrow> match_srv \<Rightarrow> unit res \<times> match_srv" where
  "putRoom oc oct now matchID members state battleRoomID s =
     (let entry = \<lparr>mrMembers = members, mrRoomID = battleRoomID, mrState = state, mrCreated = now\<rparr> in
      case mtRedis s of
        Some db \<Rightarrow>
          let db = (if oc = Failed then db else db\<lparr>mqRooms := redis_SET now (room_key matchID) (Some entry) (Some (ttl_ms match_roomTTL)) (mqRooms db)\<rparr>);
              db = db\<lparr>mqTickets := put_tickets oct now matchID members (mqTickets db)\<rparr>
          in (if oc = Done \<and> list_all (\<lambda>r. oct r = Done) members then Inr () else Inl ErrStore, s\<lparr>mtRedis := Some db\<rparr>)
      | None \<Rightarrow> (Inr (), s\<lparr>mtRooms := (mtRooms s)(matchID \<mapsto> entry)\<rparr>))"

definition deleteRoom :: "outcome \<Rightarrow> (int \<Rightarrow> outcome) \<Rightarrow> string \<Rightarrow> int list \<Rightarrow> match_srv \<Rightarrow> match_srv" where
  "deleteRoom oc oct matchID members s =
     (case mtRedis s of
        Some db \<Rightarrow>
          let db = (if oc = Failed then db else db\<lparr>mqRooms := redis_DEL (room_key matchID) (mqRooms db)\<rparr>);
              db = db\<lparr>mqTickets := foldl (\<lambda>t r. if oct r = Failed then t else redis_DEL (ticket_key r) t) (mqTickets db) members\<rparr>
          in s\<lparr>mtRedis := Some db\<rparr>
      | None \<Rightarrow> s\<lparr>mtRooms := (mtRooms s)(matchID := None)\<rparr>)"

definition getRoom :: "outcome \<Rightarrow> int \<Rightarrow> string \<Rightarrow> match_srv \<Rightarrow> match_room option res" where
  "getRoom oc now matchID s =
     (case mtRedis s of
        Some db \<Rightarrow>
          if oc \<noteq> Done then Inl ErrStore
          else (case redis_GET now (room_key matchID) (mqRooms db) of
            None \<Rightarrow> Inl ErrNoRows
          | Some None \<Rightarrow> Inl (ErrMsg ''json'')
          | Some (Some rm) \<Rightarrow> Inr (Some rm))
      | None \<Rightarrow> Inr (mtRooms s matchID))"

definition newMatchID :: "nat list option \<Rightarrow> string \<Rightarrow> string res" where
  "newMatchID rnd prefix = (case rnd of None \<Rightarrow> Inl (ErrMsg ''rand'') | Some bs \<Rightarrow> Inr (prefix @ ''_'' @ hex_encode bs))"

text \<open>The two resolutions are what the resolver answers, \<^const>\<open>None\<close> when there is none.\<close>

definition battleURL :: "bool \<Rightarrow> service_instance option \<Rightarrow> service_instance option \<Rightarrow> service_config \<Rightarrow> string" where
  "battleURL has_resolver global local cfg =
     (if has_resolver \<and> dcEnabled (sDiscovery cfg) \<and> global \<noteq> None then HTTPBase (the global)
      else if has_resolver \<and> dcEnabled (sDiscovery cfg) \<and> local \<noteq> None then HTTPBase (the local)
      else if Production cfg then [] else ''http://127.0.0.1:9300'')"

definition members_body :: "int list \<Rightarrow> body" where
  "members_body members = Some (JObj [(''members'', JArr (map JNum members))])"

text \<open>
  The request to the battle service: \<open>serve\<close> is what answers at a base address, given the header and
  the body; \<open>oc\<close> says whether the request and the reply arrive.
\<close>

definition createBattleRoom :: "string \<Rightarrow> string \<Rightarrow> outcome \<Rightarrow> (string \<Rightarrow> string \<Rightarrow> body \<Rightarrow> 'w \<Rightarrow> string reply \<times> 'w) \<Rightarrow> int list \<Rightarrow> 'w \<Rightarrow> string res \<times> 'w" where
  "createBattleRoom base secret oc serve members w =
     (if base = [] then (Inl (ErrMsg ''battle service unavailable''), w)
      else let (resp, w') = serve base (SetHTTP secret) (members_body members) w in
        store_call oc w
          ((case resp of
              ReplyOK roomID \<Rightarrow> if roomID = [] then Inl (ErrMsg ''battle rejected room creation'') else Inr roomID
            | _ \<Rightarrow> Inl (ErrMsg ''battle''))
           , w'))"

record match_response =
  rsCode :: int
  rsMatchId :: string
  rsRoomId :: string

text \<open>Outcomes of one join: the script, the room records, the battle call and the compensation.\<close>

record match_faults =
  mfJoin :: outcome
  mfRandom :: "nat list option"
  mfPut1 :: outcome
  mfTickets1 :: "int \<Rightarrow> outcome"
  mfDel :: outcome
  mfDelTickets :: "int \<Rightarrow> outcome"
  mfRequeue :: outcome
  mfPut2 :: outcome
  mfTickets2 :: "int \<Rightarrow> outcome"

definition failed_response :: match_response where
  "failed_response = \<lparr>rsCode = 5000, rsMatchId = ''error'', rsRoomId = []\<rparr>"

definition requeue_srv :: "outcome \<Rightarrow> string \<Rightarrow> int \<Rightarrow> queue_entry list \<Rightarrow> match_srv \<Rightarrow> match_srv" where
  "requeue_srv oc scope mode entries s = s\<lparr>mtRedis := snd (Requeue oc scope mode entries (mtRedis s))\<rparr>"

definition handleCrossJoin :: "match_faults \<Rightarrow> (int list \<Rightarrow> 'w \<Rightarrow> string res \<times> 'w) \<Rightarrow> int \<Rightarrow> int \<Rightarrow> int \<Rightarrow> int \<Rightarrow> string
    \<Rightarrow> match_srv \<times> 'w \<Rightarrow> match_response \<times> match_srv \<times> 'w" where
  "handleCrossJoin f create now mode zoneID roleID scope st =
     (let (s, w) = st in
      case pool_Join (mfJoin f) scope mode zoneID roleID playersPerMatch (mtRedis s) of
        (Inl _, rdb) \<Rightarrow> (failed_response, s\<lparr>mtRedis := rdb\<rparr>, w)
      | (Inr matched, rdb) \<Rightarrow>
          let s = s\<lparr>mtRedis := rdb\<rparr> in
          if length matched < playersPerMatch then (\<lparr>rsCode = 0, rsMatchId = ''wait_'' @ FormatInt roleID, rsRoomId = []\<rparr>, s, w)
          else let roleIDs = map qeRoleID matched in
            case newMatchID (mfRandom f) ''cx'' of
              Inl _ \<Rightarrow> (failed_response, requeue_srv (mfRequeue f) scope mode matched s, w)
            | Inr matchID \<Rightarrow>
                (case putRoom (mfPut1 f) (mfTickets1 f) now matchID roleIDs ''RESERVED'' [] s of
                   (Inl _, s) \<Rightarrow> (failed_response, requeue_srv (mfRequeue f) scope mode matched s, w)
                 | (Inr _, s) \<Rightarrow>
                     (case create roleIDs w of
                        (Inl _, w) \<Rightarrow>
                          (failed_response,
                           requeue_srv (mfRequeue f) scope mode matched (deleteRoom (mfDel f) (mfDelTickets f) matchID roleIDs s), w)
                      | (Inr roomID, w) \<Rightarrow>
                          (case putRoom (mfPut2 f) (mfTickets2 f) now matchID roleIDs ''ROOM_CREATED'' roomID s of
                             (Inl _, s) \<Rightarrow> (failed_response, s, w)
                           | (Inr _, s) \<Rightarrow> (\<lparr>rsCode = 0, rsMatchId = matchID, rsRoomId = roomID\<rparr>, s, w)))))"

definition appendUnique :: "int list \<Rightarrow> int \<Rightarrow> int list" where
  "appendUnique pool x = (if x \<in> set pool then pool else pool @ [x])"

definition handleLocalJoin :: "match_faults \<Rightarrow> (int list \<Rightarrow> 'w \<Rightarrow> string res \<times> 'w) \<Rightarrow> int \<Rightarrow> int \<Rightarrow> int \<Rightarrow> int
    \<Rightarrow> match_srv \<times> 'w \<Rightarrow> match_response \<times> match_srv \<times> 'w" where
  "handleLocalJoin f create now mode zoneID roleID st =
     (let (s, w) = st in
      if mtRedis s \<noteq> None then handleCrossJoin f create now mode zoneID roleID (''zone:'' @ FormatInt zoneID) st
      else let pool = appendUnique (mtPools s mode) roleID in
        if length pool < playersPerMatch
        then (\<lparr>rsCode = 0, rsMatchId = ''wait_'' @ FormatInt roleID, rsRoomId = []\<rparr>, s\<lparr>mtPools := (mtPools s)(mode := pool)\<rparr>, w)
        else let members = take playersPerMatch pool; s = s\<lparr>mtPools := (mtPools s)(mode := drop playersPerMatch pool)\<rparr> in
          case newMatchID (mfRandom f) ''m'' of
            Inl _ \<Rightarrow> (failed_response, s, w)
          | Inr matchID \<Rightarrow>
              let s = snd (putRoom (mfPut1 f) (mfTickets1 f) now matchID members ''RESERVED'' [] s) in
              (case create members w of
                 (Inl _, w) \<Rightarrow> (failed_response, s, w)
               | (Inr roomID, w) \<Rightarrow>
                   (case putRoom (mfPut2 f) (mfTickets2 f) now matchID members ''ROOM_CREATED'' roomID s of
                      (Inl _, s) \<Rightarrow> (failed_response, s, w)
                    | (Inr _, s) \<Rightarrow> (\<lparr>rsCode = 0, rsMatchId = matchID, rsRoomId = roomID\<rparr>, s, w))))"

definition handleJoin :: "match_faults \<Rightarrow> (int list \<Rightarrow> 'w \<Rightarrow> string res \<times> 'w) \<Rightarrow> int \<Rightarrow> session_info \<Rightarrow> body
    \<Rightarrow> match_srv \<times> 'w \<Rightarrow> match_response \<times> match_srv \<times> 'w" where
  "handleJoin f create now info p st =
     (if \<not> json_valid [(''role_id'', JNum 64), (''mode'', JNum 32), (''zone_id'', JNum 32)] p
      then (\<lparr>rsCode = 1001, rsMatchId = ''error'', rsRoomId = []\<rparr>, st)
      else let cfg = mtCfg (fst st); mode = json_int32 ''mode'' p; roleID = siRoleID info;
               zoneID = (if siZoneID info \<le> 0 then sZoneID cfg else siZoneID info)
           in if sCrossZoneMatch cfg then handleCrossJoin f create now mode zoneID roleID ''global'' st
              else handleLocalJoin f create now mode zoneID roleID st)"

definition roomHasRole :: "match_room \<Rightarrow> int \<Rightarrow> bool" where
  "roomHasRole rm roleID \<longleftrightarrow> roleID \<in> set (mrMembers rm)"

definition handleRoom :: "outcome \<Rightarrow> outcome \<Rightarrow> int \<Rightarrow> session_info \<Rightarrow> string \<Rightarrow> match_srv \<Rightarrow> (string \<times> match_room) reply" where
  "handleRoom oc1 oc2 now info match_id s =
     (let roleID = siRoleID info; waiting = HasPrefix match_id ''wait_'' \<and> mtRedis s \<noteq> None in
      if waiting \<and> fst (ParseInt 64 (TrimPrefix match_id ''wait_'')) \<noteq> roleID then HttpError 403
      else let matchID = (if waiting \<and> oc1 = Done
             then (case redis_GET now (ticket_key roleID) (mqTickets (the (mtRedis s))) of None \<Rightarrow> match_id | Some actual \<Rightarrow> actual)
             else match_id)
           in case getRoom oc2 now matchID s of
                Inl _ \<Rightarrow> Reply 1003
              | Inr None \<Rightarrow> Reply 1003
              | Inr (Some rm) \<Rightarrow> if \<not> roomHasRole rm roleID then HttpError 403 else ReplyOK (matchID, rm))"

definition handleQueue :: "outcome \<Rightarrow> session_info \<Rightarrow> match_srv \<Rightarrow> (bool \<times> int) reply" where
  "handleQueue oc info s =
     (if mtRedis s \<noteq> None
      then (let scope = (if sCrossZoneMatch (mtCfg s) then ''global'' else ''zone:'' @ FormatInt (siZoneID info))
            in case QueueSize oc scope 0 (mtRedis s) of Inl _ \<Rightarrow> HttpError 500 | Inr n \<Rightarrow> ReplyOK (True, n))
      else ReplyOK (False, int (length (mtPools s 0))))"

section \<open>Queue members\<close>

lemma FormatInt_no_z: "CHR '':'' \<notin> set (''z'' @ FormatInt n)"
  by (simp add: FormatInt_not)

lemma ParseMember_MemberKey:
  assumes "in_i32 z" and "in_i64 r"
  shows "ParseMember (MemberKey z r) = Inr \<lparr>qeZoneID = z, qeRoleID = r, qeRaw = MemberKey z r\<rparr>"
proof -
  have "SplitN2 CHR '':'' (MemberKey z r) = [''z'' @ FormatInt z, FormatInt r]"
    unfolding MemberKey_def using SplitN2_append_sep [OF FormatInt_no_z, of z "FormatInt r"] by simp
  moreover have "TrimPrefix (''z'' @ FormatInt z) ''z'' = FormatInt z" by (rule TrimPrefix_append)
  moreover have "HasPrefix (MemberKey z r) ''z''" by (simp add: MemberKey_def HasPrefix_def)
  ultimately show ?thesis using assms by (simp add: ParseMember_def ParseInt_FormatInt_32 ParseInt_FormatInt_64)
qed

text \<open>
  The queue encoding is a bijection: a member read back from the queue is the zone and the role
  that were put in, so two players never share an entry, and whatever string is accepted as a member
  denotes a zone and a role within their ranges.
\<close>

theorem member_roundtrip:
  "(in_i32 z \<and> in_i64 r \<longrightarrow> ParseMember (MemberKey z r) = Inr \<lparr>qeZoneID = z, qeRoleID = r, qeRaw = MemberKey z r\<rparr>)
   \<and> (in_i32 z \<and> in_i64 r \<and> in_i32 z' \<and> in_i64 r' \<and> MemberKey z r = MemberKey z' r' \<longrightarrow> z = z' \<and> r = r')
   \<and> (\<forall>e. ParseMember raw = Inr e \<longrightarrow> qeRaw e = raw \<and> in_i32 (qeZoneID e) \<and> in_i64 (qeRoleID e))"
proof (intro conjI impI allI)
  assume "in_i32 z \<and> in_i64 r"
  then show "ParseMember (MemberKey z r) = Inr \<lparr>qeZoneID = z, qeRoleID = r, qeRaw = MemberKey z r\<rparr>"
    by (simp add: ParseMember_MemberKey)
next
  assume a: "in_i32 z \<and> in_i64 r \<and> in_i32 z' \<and> in_i64 r' \<and> MemberKey z r = MemberKey z' r'"
  then have "ParseMember (MemberKey z r) = Inr \<lparr>qeZoneID = z, qeRoleID = r, qeRaw = MemberKey z r\<rparr>"
    and "ParseMember (MemberKey z' r') = Inr \<lparr>qeZoneID = z', qeRoleID = r', qeRaw = MemberKey z' r'\<rparr>"
    by (blast intro: ParseMember_MemberKey)+
  with a have "\<lparr>qeZoneID = z, qeRoleID = r, qeRaw = MemberKey z r\<rparr> = \<lparr>qeZoneID = z', qeRoleID = r', qeRaw = MemberKey z' r'\<rparr>"
    by (metis sum.inject(2))
  then show "z = z'" "r = r'" by simp_all
next
  fix e assume e: "ParseMember raw = Inr e"
  then obtain zoneID roleID b where "e = \<lparr>qeZoneID = i32 zoneID, qeRoleID = roleID, qeRaw = raw\<rparr>" "ParseInt 64 b = (roleID, None)"
    by (auto simp: ParseMember_def split: if_splits list.splits prod.splits option.splits)
  then show "qeRaw e = raw" "in_i32 (qeZoneID e)" "in_i64 (qeRoleID e)"
    using ParseInt_range [of 64 b roleID] by (simp_all add: in_i64_def)
qed

theorem member_roundtrip_witness: "ParseMember (MemberKey 2 10002) = Inr \<lparr>qeZoneID = 2, qeRoleID = 10002, qeRaw = ''z2:10002''\<rparr>"
proof -
  have "MemberKey 2 10002 = ''z2:10002''"
    by (simp add: MemberKey_def FormatInt_def nat_digits_small nat_digits_big digit_char_def)
  then show ?thesis using member_roundtrip [of 2 10002] by (simp add: in_i32_def in_i64_def)
qed

definition waiting_ok :: "string list \<Rightarrow> bool" where
  "waiting_ok q \<longleftrightarrow> distinct q \<and> (\<forall>m \<in> set q. \<exists>z r. in_i32 z \<and> in_i64 r \<and> m = MemberKey z r)"

lemma set_move_to_back [simp]: "set (move_to_back m q) = insert m (set q)"
  by (auto simp: move_to_back_def)

lemma waiting_ok_move: "waiting_ok q \<Longrightarrow> in_i32 z \<Longrightarrow> in_i64 r \<Longrightarrow> waiting_ok (move_to_back (MemberKey z r) q)"
  by (auto simp: waiting_ok_def move_to_back_def)

lemma waiting_ok_sub: "waiting_ok q \<Longrightarrow> set p \<subseteq> set q \<Longrightarrow> distinct p \<Longrightarrow> waiting_ok p"
  by (auto simp: waiting_ok_def)

lemma waiting_ok_distinct: "waiting_ok q \<Longrightarrow> distinct q"
  by (simp add: waiting_ok_def)

lemma parse_members_ok:
  "waiting_ok ms \<Longrightarrow> \<exists>es. parse_members ms = Inr es \<and> map qeRaw es = ms \<and> list_all (\<lambda>e. in_i64 (qeRoleID e)) es \<and> length es = length ms"
proof (induction ms)
  case (Cons m ms)
  then obtain z r where "in_i32 z" "in_i64 r" "m = MemberKey z r" by (auto simp: waiting_ok_def)
  with Cons show ?case by (auto simp: waiting_ok_def ParseMember_MemberKey)
qed simp

lemma requeue_set: "set (foldl (\<lambda>q e. move_to_back (qeRaw e) q) q es) = set q \<union> set (map qeRaw es)"
  by (induction es arbitrary: q) auto

lemma requeue_ok: "waiting_ok q \<Longrightarrow> waiting_ok (map qeRaw es) \<Longrightarrow> waiting_ok (foldl (\<lambda>q e. move_to_back (qeRaw e) q) q es)"
proof (induction es arbitrary: q)
  case (Cons e es)
  obtain z r where "in_i32 z" "in_i64 r" "qeRaw e = MemberKey z r" using Cons.prems(2) by (auto simp: waiting_ok_def)
  then have "waiting_ok (move_to_back (qeRaw e) q)" using waiting_ok_move [OF Cons.prems(1)] by simp
  moreover have "waiting_ok (map qeRaw es)" using Cons.prems(2) by (rule waiting_ok_sub) (use waiting_ok_distinct [OF Cons.prems(2)] in auto)
  ultimately show ?case using Cons.IH by simp
qed simp

lemma putRoom_lists:
  "mtRedis s = Some db \<Longrightarrow> \<exists>db'. mtRedis (snd (putRoom oc oct now i ms st rid s)) = Some db' \<and> mqLists db' = mqLists db"
  by (simp add: putRoom_def Let_def)

lemma deleteRoom_lists:
  "mtRedis s = Some db \<Longrightarrow> \<exists>db'. mtRedis (deleteRoom oc oct i ms s) = Some db' \<and> mqLists db' = mqLists db"
  by (simp add: deleteRoom_def Let_def)

lemma requeue_lists:
  "mtRedis s = Some db \<Longrightarrow> \<exists>db'. mtRedis (requeue_srv Done scope mode es s) = Some db' \<and>
     mqLists db' = (mqLists db)(poolKey scope mode := foldl (\<lambda>q e. move_to_back (qeRaw e) q) (mqLists db (poolKey scope mode)) es)"
  by (simp add: requeue_srv_def Requeue_def Let_def)

section \<open>The battle service as an interface\<close>

text \<open>What the match service relies on: a room that was created holds the members it was created for.\<close>

locale room_provider =
  fixes create :: "int list \<Rightarrow> 'w \<Rightarrow> string res \<times> 'w" and members_of :: "string \<Rightarrow> 'w \<Rightarrow> int list option"
  assumes create_ok: "2 \<le> length ms \<Longrightarrow> list_all in_i64 ms \<Longrightarrow> create ms w = (Inr roomID, w') \<Longrightarrow> members_of roomID w' = Some ms"
begin

lemma cross_join:
  assumes db: "mtRedis s = Some db" and ok: "waiting_ok (mqLists db (poolKey scope mode))" and z: "in_i32 zoneID" and r: "in_i64 roleID"
    and f: "mfJoin f = Done" "mfRequeue f = Done"
    and h: "handleCrossJoin f create now mode zoneID roleID scope (s, w) = (resp, s', w')"
  shows "\<exists>db'. mtRedis s' = Some db' \<and> waiting_ok (mqLists db' (poolKey scope mode))
    \<and> (\<forall>k. k \<noteq> poolKey scope mode \<longrightarrow> mqLists db' k = mqLists db k)
    \<and> (set (mqLists db' (poolKey scope mode)) = insert (MemberKey zoneID roleID) (set (mqLists db (poolKey scope mode)))
       \<or> (\<exists>ms. length ms = 2 \<and> distinct ms \<and> (\<exists>es roomID. parse_members ms = Inr es \<and> members_of roomID w' = Some (map qeRoleID es))
            \<and> set ms \<union> set (mqLists db' (poolKey scope mode)) = insert (MemberKey zoneID roleID) (set (mqLists db (poolKey scope mode)))
            \<and> set ms \<inter> set (mqLists db' (poolKey scope mode)) = {}))"
proof -
  let ?k = "poolKey scope mode"
  let ?q = "move_to_back (MemberKey zoneID roleID) (mqLists db ?k)"
  have qok: "waiting_ok ?q" by (rule waiting_ok_move [OF ok z r])
  show ?thesis
  proof (cases "2 \<le> length ?q")
    case False
    then have "resp = \<lparr>rsCode = 0, rsMatchId = ''wait_'' @ FormatInt roleID, rsRoomId = []\<rparr>" "s' = s\<lparr>mtRedis := Some (db\<lparr>mqLists := (mqLists db)(?k := ?q)\<rparr>)\<rparr>"
      using h by (simp_all add: handleCrossJoin_def pool_Join_def db f joinScript_def playersPerMatch_def Let_def)
    then show ?thesis using qok by simp
  next
    case True
    let ?ms = "take 2 ?q" and ?rest = "drop 2 ?q"
    have msok: "waiting_ok ?ms" and restok: "waiting_ok ?rest"
      using qok by (auto intro: waiting_ok_sub [of ?q] dest: in_set_takeD in_set_dropD simp: waiting_ok_distinct simp del: set_move_to_back)
    obtain es where es: "parse_members ?ms = Inr es" "map qeRaw es = ?ms" "list_all (\<lambda>e. in_i64 (qeRoleID e)) es" "length es = 2"
      using parse_members_ok [OF msok] True by auto
    have dist: "distinct (?ms @ ?rest)" using qok by (simp add: waiting_ok_def)
    have split: "set ?ms \<union> set ?rest = insert (MemberKey zoneID roleID) (set (mqLists db ?k))"
      using set_append [of ?ms ?rest] by (simp del: set_append)
    define s1 where "s1 = s\<lparr>mtRedis := Some (db\<lparr>mqLists := (mqLists db)(?k := ?rest)\<rparr>)\<rparr>"
    have restored: "\<exists>db'. mtRedis (requeue_srv Done scope mode es t) = Some db' \<and> waiting_ok (mqLists db' ?k) \<and>
        (\<forall>k. k \<noteq> ?k \<longrightarrow> mqLists db' k = mqLists db k) \<and> set (mqLists db' ?k) = insert (MemberKey zoneID roleID) (set (mqLists db ?k))"
      if t: "mtRedis t = Some db1" "mqLists db1 = (mqLists db)(?k := ?rest)" for t db1
    proof -
      obtain db' where "mtRedis (requeue_srv Done scope mode es t) = Some db'"
        "mqLists db' = (mqLists db1)(?k := foldl (\<lambda>q e. move_to_back (qeRaw e) q) (mqLists db1 ?k) es)" using requeue_lists [OF t(1)] by blast
      moreover have "set (foldl (\<lambda>q e. move_to_back (qeRaw e) q) ?rest es) = insert (MemberKey zoneID roleID) (set (mqLists db ?k))"
        unfolding requeue_set es(2) using split by auto
      moreover have "waiting_ok (foldl (\<lambda>q e. move_to_back (qeRaw e) q) ?rest es)" by (rule requeue_ok [OF restok]) (simp only: es(2) msok)
      ultimately show ?thesis using t(2) by simp
    qed
    have s1: "mtRedis s1 = Some (db\<lparr>mqLists := (mqLists db)(?k := ?rest)\<rparr>)" by (simp add: s1_def)
    have l1: "mqLists (db\<lparr>mqLists := (mqLists db)(?k := ?rest)\<rparr>) = (mqLists db)(?k := ?rest)" by simp
    note h' = h [unfolded handleCrossJoin_def pool_Join_def joinScript_def playersPerMatch_def Let_def prod.case db option.case if_P [OF True]
        f store_call_simps sum.case es(1) es(4), folded s1_def]
    show ?thesis
    proof (cases "newMatchID (mfRandom f) ''cx''")
      case (Inl e)
      then have "s' = requeue_srv Done scope mode es s1" using h' by simp
      then show ?thesis using restored [OF s1 l1] by blast
    next
      case (Inr i)
      obtain x1 s2 where p1: "putRoom (mfPut1 f) (mfTickets1 f) now i (map qeRoleID es) ''RESERVED'' [] s1 = (x1, s2)" by fastforce
      obtain db2 where s2: "mtRedis s2 = Some db2" "mqLists db2 = (mqLists db)(?k := ?rest)"
        using putRoom_lists [OF s1] p1 by (metis match_redis.select_convs(1) match_redis.surjective match_redis.update_convs(1) snd_conv)
      obtain x2 w2 where c: "create (map qeRoleID es) w = (x2, w2)" by fastforce
      show ?thesis
      proof (cases "(\<exists>e. x1 = Inl e) \<or> (\<exists>e. x2 = Inl e)")
        case True
        then obtain t db1 where "s' = requeue_srv Done scope mode es t" "mtRedis t = Some db1" "mqLists db1 = (mqLists db)(?k := ?rest)"
          using h' Inr p1 c s2 deleteRoom_lists [OF s2(1), of "mfDel f" "mfDelTickets f" i "map qeRoleID es"] by (auto split: sum.splits)
        then show ?thesis using restored by blast
      next
        case False
        then obtain roomID where x: "x1 = Inr ()" "x2 = Inr roomID" by (metis (full_types) old.unit.exhaust sum.exhaust)
        obtain x3 s3 where p3: "putRoom (mfPut2 f) (mfTickets2 f) now i (map qeRoleID es) ''ROOM_CREATED'' roomID s2 = (x3, s3)" by fastforce
        then obtain db3 where s3: "mtRedis s3 = Some db3" "mqLists db3 = (mqLists db)(?k := ?rest)"
          using putRoom_lists [OF s2(1)] s2(2) by (metis snd_conv)
        have "s' = s3" "w' = w2" using h' Inr p1 c x p3 by (auto split: sum.splits)
        moreover have "members_of roomID w2 = Some (map qeRoleID es)"
          by (rule create_ok [OF _ _ c [unfolded x]]) (use es in \<open>simp_all add: list_all_iff\<close>)
        then have "\<exists>es roomID. parse_members ?ms = Inr es \<and> members_of roomID w2 = Some (map qeRoleID es)" using es(1) by blast
        moreover have "length ?ms = 2" using \<open>2 \<le> length ?q\<close> by simp
        moreover have "distinct ?ms" "set ?ms \<inter> set ?rest = {}" using dist unfolding distinct_append by blast+
        ultimately show ?thesis using s3 restok split by (intro exI [of _ db3]) (auto intro!: exI [of _ ?ms])
      qed
    qed
  qed
qed

end

text \<open>The battle service behind its middleware, called over HTTP, provides rooms.\<close>

definition battle_create :: "string \<Rightarrow> string \<Rightarrow> outcome \<Rightarrow> string \<Rightarrow> outcome \<Rightarrow> nat list option \<Rightarrow> int \<Rightarrow> int list \<Rightarrow> battle_srv \<Rightarrow> string res \<times> battle_srv" where
  "battle_create base secret oc bsecret ocb rnd now =
     createBattleRoom base secret oc (\<lambda>_ header p. internal_HTTPMiddleware bsecret header (battle_handleCreate ocb rnd now p))"

definition battle_members :: "int \<Rightarrow> string \<Rightarrow> battle_srv \<Rightarrow> int list option" where
  "battle_members now roomID w = (case battle_getRoom Done now roomID w of Inl _ \<Rightarrow> None | Inr rm \<Rightarrow> Some (rmMembers rm))"

lemma members_body_decodes: "list_all in_i64 ms \<Longrightarrow> json_int64s ''members'' (members_body ms) = ms"
  by (auto simp: json_int64s_def read_field_def Json_Values.fields_def same_key_def members_body_def list_all_iff intro!: map_idI)

lemma battle_handleCreate_ok:
  assumes "battle_handleCreate oc rnd now p s = (ReplyOK roomID, s')"
  shows "battle_members now roomID s' = Some (json_int64s ''members'' p)"
  using assms battle_roomTTL_pos
  by (auto simp: battle_handleCreate_def Let_def battle_members_def battle_getRoom_def store_call_def
      split: if_splits sum.splits option.splits outcome.splits)

interpretation battle_rooms: room_provider "battle_create base secret oc bsecret ocb rnd now" "battle_members now"
proof
  fix ms w roomID w'
  assume ms: "list_all in_i64 ms" and c: "battle_create base secret oc bsecret ocb rnd now ms w = (Inr roomID, w')"
  then have "battle_handleCreate ocb rnd now (members_body ms) w = (ReplyOK roomID, w')"
    by (auto simp: battle_create_def createBattleRoom_def internal_HTTPMiddleware_def store_call_Inr Let_def
        split: if_splits prod.splits reply.splits)
  from battle_handleCreate_ok [OF this] show "battle_members now roomID w' = Some ms" by (simp add: members_body_decodes [OF ms])
qed


definition calm :: match_faults where
  "calm = \<lparr>mfJoin = Done, mfRandom = Some [5], mfPut1 = Done, mfTickets1 = (\<lambda>_. Done), mfDel = Done, mfDelTickets = (\<lambda>_. Done),
     mfRequeue = Done, mfPut2 = Done, mfTickets2 = (\<lambda>_. Done)\<rparr>"

definition demo_match :: "string list \<Rightarrow> match_srv" where
  "demo_match q = \<lparr>mtCfg = zero_config, mtRedis = Some \<lparr>mqLists = (\<lambda>_. q), mqRooms = Map.empty, mqTickets = Map.empty\<rparr>,
     mtPools = (\<lambda>_. []), mtRooms = Map.empty\<rparr>"


text \<open>
  After a compensation two players wait. The next one who joins makes these two leave and is told their
  match and room as his own, while he stays in the queue.
\<close>

lemma joiner_told_foreign_match:
  "\<exists>s' db'. handleCrossJoin calm (\<lambda>ms w. (Inr ''br'', w)) 0 0 1 9 ''global'' (demo_match [MemberKey 1 7, MemberKey 1 8], ())
       = (\<lparr>rsCode = 0, rsMatchId = ''cx_05'', rsRoomId = ''br''\<rparr>, s', ()) \<and> mtRedis s' = Some db'
     \<and> mqLists db' (poolKey ''global'' 0) = [MemberKey 1 9]
     \<and> handleRoom Done Done 0 \<lparr>siRoleID = 9, siZoneID = 1\<rparr> ''cx_05'' s' = HttpError 403"
proof -
  have n: "in_i32 1" "in_i64 7" "in_i64 8" "in_i64 9" by (simp_all add: in_i32_def in_i64_def)
  have "MemberKey 1 7 \<noteq> MemberKey 1 9" "MemberKey 1 8 \<noteq> MemberKey 1 9" by (simp_all add: MemberKey_def)
  then have q: "move_to_back (MemberKey 1 9) [MemberKey 1 7, MemberKey 1 8] = [MemberKey 1 7, MemberKey 1 8, MemberKey 1 9]"
    by (simp add: move_to_back_def)
  have i: "newMatchID (Some [5]) ''cx'' = Inr ''cx_05''" by (simp add: newMatchID_def hex_encode_def hex_char_def)
  show ?thesis
    by (simp add: handleCrossJoin_def pool_Join_def demo_match_def joinScript_def playersPerMatch_def q n ParseMember_MemberKey i calm_def putRoom_def
        handleRoom_def HasPrefix_def getRoom_def roomHasRole_def match_roomTTL_def second_def ttl_ms_def millis_def Let_def)
qed

text \<open>A room is shown to its members only.\<close>

lemma room_shown_to_members: "handleRoom oc1 oc2 now info i s = ReplyOK (j, rm) \<Longrightarrow> siRoleID info \<in> set (mrMembers rm)"
  by (auto simp: handleRoom_def Let_def roomHasRole_def split: if_splits sum.splits option.splits)

text \<open>Without Redis, players whose room cannot be created are neither waiting nor in a room.\<close>

lemma local_join_drops_players:
  "\<exists>s'. handleLocalJoin calm (\<lambda>ms w. (Inl ErrStore, w)) 0 0 1 8 ((demo_match [])\<lparr>mtRedis := None, mtPools := (\<lambda>_. [7])\<rparr>, ())
       = (failed_response, s', ()) \<and> mtPools s' 0 = []"
  by (simp add: handleLocalJoin_def appendUnique_def playersPerMatch_def demo_match_def calm_def newMatchID_def putRoom_def)

end
