(* ===== verification/Gate_Forward.thy ===== *)
theory Gate_Forward
  imports Game_Server Discovery Wire_Protocol
begin

text \<open>
  How the Gate reaches the game processes: the choice of the target
  (\<^verbatim>\<open>gameTarget\<close> and \<^verbatim>\<open>fallbackTarget\<close> in \<^verbatim>\<open>services/gate/internal/server.go\<close>), the two implementations of the
  \<^verbatim>\<open>Forwarder\<close> interface (\<^verbatim>\<open>pkg/gateforward\<close>) and the logout call (\<^verbatim>\<open>pkg/client/game.go\<close>). The game processes
  are a map from addresses to servers. The locale \<open>forwarder\<close> is the contract of the interface; both
  implementations are instances of it.
\<close>

type_synonym fleet = "string \<Rightarrow> game_srv"

text \<open>The payload of a frame that the Gate sends: JSON of its own, the reply of a game process, or pushed text.\<close>

datatype payload = JsonBody json | GameBody Player_Actor.reply | RawBody string

section \<open>The endpoints behind the addresses\<close>

definition at_target :: "string \<Rightarrow> (game_srv \<Rightarrow> 'a \<times> game_srv) \<Rightarrow> fleet \<Rightarrow> 'a \<times> fleet" where
  "at_target target f w = (let (x, g) = f (w target) in (x, w(target := g)))"

definition post_msg :: "player_call \<Rightarrow> string \<Rightarrow> string \<Rightarrow> string \<Rightarrow> string \<Rightarrow> string \<Rightarrow> body \<Rightarrow> fleet \<Rightarrow> Player_Actor.reply reply \<times> fleet" where
  "post_msg c target header hRole hCmd hAct p =
     at_target target (\<lambda>g. internal_HTTPMiddleware (sInternalSecret (gsCfg g)) header (handlePlayerMsg c hRole hCmd hAct True p) g)"

definition call_forward :: "player_call \<Rightarrow> string \<Rightarrow> string list \<Rightarrow> int \<Rightarrow> int \<Rightarrow> int \<Rightarrow> body \<Rightarrow> fleet \<Rightarrow> Player_Actor.reply res \<times> fleet" where
  "call_forward c target md roleID cmd act p =
     at_target target (\<lambda>g. UnaryServerInterceptor (sInternalSecret (gsCfg g)) md (Forward c roleID cmd act p) g)"

definition post_logout :: "player_call \<Rightarrow> string \<Rightarrow> string \<Rightarrow> body \<Rightarrow> fleet \<Rightarrow> unit reply \<times> fleet" where
  "post_logout c target header p =
     at_target target (\<lambda>g. internal_HTTPMiddleware (sInternalSecret (gsCfg g)) header (handlePlayerLogout c p) g)"

section \<open>The two forwarders\<close>

text \<open>A status outside 200..299 is an error; otherwise the body of the reply is the payload.\<close>

fun game_payload :: "Player_Actor.reply reply \<Rightarrow> payload res" where
  "game_payload (ReplyOK r) = Inr (GameBody r)"
| "game_payload (Reply n) = Inr (JsonBody (JObj [(''code'', JNum n)]))"
| "game_payload (HttpError n) = Inl (ErrMsg ''game returned status'')"
| "game_payload Unauthorized = Inl (ErrMsg ''game returned status'')"
| "game_payload Aborted = Inl (ErrMsg ''EOF'')"

definition http_Forward :: "string \<Rightarrow> outcome \<Rightarrow> player_call \<Rightarrow> string \<Rightarrow> int \<Rightarrow> int \<Rightarrow> 16 word \<Rightarrow> 16 word \<Rightarrow> body \<Rightarrow> fleet \<Rightarrow> payload res \<times> fleet" where
  "http_Forward secret oc c target roleID zoneID cmd act p w =
     (let (r, w') = post_msg c target (SetHTTP secret) (FormatInt roleID) (FormatInt (uint cmd)) (FormatInt (uint act)) p w
      in case oc of Failed \<Rightarrow> (Inl ErrStore, w) | Lost \<Rightarrow> (Inl ErrStore, w') | Done \<Rightarrow> (game_payload r, w'))"

definition grpc_Forward :: "string \<Rightarrow> outcome \<Rightarrow> player_call \<Rightarrow> string \<Rightarrow> int \<Rightarrow> int \<Rightarrow> 16 word \<Rightarrow> 16 word \<Rightarrow> body \<Rightarrow> fleet \<Rightarrow> payload res \<times> fleet" where
  "grpc_Forward secret oc c target roleID zoneID cmd act p w =
     (if target = [] then (Inl (ErrMsg ''empty grpc target''), w)
      else let (r, w') = call_forward c target (WithOutgoing secret []) roleID (uint cmd) (uint act) p w
      in case oc of Failed \<Rightarrow> (Inl ErrStore, w) | Lost \<Rightarrow> (Inl ErrStore, w') | Done \<Rightarrow> (map_sum id GameBody r, w'))"

section \<open>The contract of a forwarder\<close>

text \<open>The effect of one player message on the process at an address, and its reply.\<close>

definition message_at :: "player_call \<Rightarrow> string \<Rightarrow> int \<Rightarrow> 16 word \<Rightarrow> 16 word \<Rightarrow> body \<Rightarrow> fleet \<Rightarrow> Player_Actor.reply res \<times> fleet" where
  "message_at c target roleID cmd act p w =
     (let (r, m) = HandleMsg (cGet c) (cAdm c) (cSave c) (cNow c) roleID cmd act p (gsPlayers (w target))
      in (r, w(target := (w target)\<lparr>gsPlayers := m\<rparr>)))"

locale forwarder =
  fixes forward :: "outcome \<Rightarrow> player_call \<Rightarrow> string \<Rightarrow> int \<Rightarrow> int \<Rightarrow> 16 word \<Rightarrow> 16 word \<Rightarrow> body \<Rightarrow> fleet \<Rightarrow> payload res \<times> fleet"
  assumes handled: "in_i64 roleID \<Longrightarrow> forward oc c target roleID zoneID cmd act p w = (x, w') \<Longrightarrow>
      (\<exists>e. x = Inl e) \<and> w' = w \<or>
      w' = snd (message_at c target roleID cmd act p w) \<and> (\<forall>b. x = Inr b \<longrightarrow> (\<exists>r. b = GameBody r \<and> fst (message_at c target roleID cmd act p w) = Inr r))"
begin

lemma answer:
  assumes "in_i64 roleID" and "forward oc c target roleID zoneID cmd act p w = (Inr b, w')"
  shows "\<exists>r. b = GameBody r \<and> message_at c target roleID cmd act p w = (Inr r, w')"
  using handled [OF assms] by (metis Inl_Inr_False prod.collapse)

lemma effect:
  assumes "in_i64 roleID"
  shows "snd (forward oc c target roleID zoneID cmd act p w) \<in> {w, snd (message_at c target roleID cmd act p w)}"
  using handled [OF assms, of oc c target zoneID cmd act p w] by (metis insertI1 insertI2 prod.collapse)

end

lemma fleet_same: "w(target := (w target)\<lparr>gsPlayers := gsPlayers (w target)\<rparr>) = (w :: fleet)"
  by simp

lemma handlePlayerMsg_headers:
  assumes "in_i64 roleID" and "HandleMsg (cGet c) (cAdm c) (cSave c) (cNow c) roleID cmd act p (gsPlayers g) = (r, m)"
  shows "handlePlayerMsg c (FormatInt roleID) (FormatInt (uint cmd)) (FormatInt (uint act)) True p g =
    (case r of Inr v \<Rightarrow> ReplyOK v | Inl _ \<Rightarrow> if roleID = 0 then HttpError 400 else HttpError 500, g\<lparr>gsPlayers := m\<rparr>)"
proof -
  have u: "ParseUint 16 (FormatInt (uint a)) = (uint a, None)" for a :: "16 word"
    using uint_lt2p [of a] by (simp add: ParseUint_FormatInt)
  show ?thesis
  proof (cases "roleID = 0")
    case True
    then have "m = gsPlayers g" "isl r" using assms(2) HandleMsg_zero by metis+
    then show ?thesis using True by (cases r) (auto simp: handlePlayerMsg_def ParseInt_FormatInt_64 in_i64_def)
  next
    case False
    then show ?thesis using assms by (simp add: handlePlayerMsg_def u ParseInt_FormatInt_64 Let_def split: sum.split)
  qed
qed

lemma Forward_words:
  assumes "HandleMsg (cGet c) (cAdm c) (cSave c) (cNow c) roleID cmd act p (gsPlayers g) = (r, m)"
  shows "Forward c roleID (uint cmd) (uint act) p g = (r, g\<lparr>gsPlayers := m\<rparr>)"
proof -
  have "\<not> 65535 < uint a" for a :: "16 word" using uint_lt2p [of a] by simp
  then show ?thesis using assms by (simp add: Forward_def split: sum.split)
qed

interpretation http_pool: forwarder "http_Forward secret"
proof
  fix roleID oc c target zoneID cmd act p w x w'
  assume r: "in_i64 roleID" and f: "http_Forward secret oc c target roleID zoneID cmd act p w = (x, w')"
  obtain y m where h: "HandleMsg (cGet c) (cAdm c) (cSave c) (cNow c) roleID cmd act p (gsPlayers (w target)) = (y, m)" by fastforce
  show "(\<exists>e. x = Inl e) \<and> w' = w \<or>
      w' = snd (message_at c target roleID cmd act p w) \<and> (\<forall>b. x = Inr b \<longrightarrow> (\<exists>r. b = GameBody r \<and> fst (message_at c target roleID cmd act p w) = Inr r))"
    using f h handlePlayerMsg_headers [OF r h]
    by (auto simp: http_Forward_def post_msg_def at_target_def internal_HTTPMiddleware_def message_at_def SetHTTP_def
        split: outcome.splits sum.splits if_splits)
qed

interpretation grpc_pool: forwarder "grpc_Forward secret"
proof
  fix roleID oc c target zoneID cmd act p w x w'
  assume r: "in_i64 roleID" and f: "grpc_Forward secret oc c target roleID zoneID cmd act p w = (x, w')"
  obtain y m where h: "HandleMsg (cGet c) (cAdm c) (cSave c) (cNow c) roleID cmd act p (gsPlayers (w target)) = (y, m)" by fastforce
  show "(\<exists>e. x = Inl e) \<and> w' = w \<or>
      w' = snd (message_at c target roleID cmd act p w) \<and> (\<forall>b. x = Inr b \<longrightarrow> (\<exists>r. b = GameBody r \<and> fst (message_at c target roleID cmd act p w) = Inr r))"
    using f h Forward_words [OF h]
    by (cases y) (auto simp: grpc_Forward_def call_forward_def at_target_def UnaryServerInterceptor_def message_at_def Let_def
        split: outcome.splits list.splits if_splits)
qed

section \<open>Targets\<close>

definition fallbackTarget :: "string \<Rightarrow> int \<Rightarrow> string" where
  "fallbackTarget transport zoneID =
     (if transport = ''grpc'' then (if zoneID = 2 then ''127.0.0.1:9160'' else ''127.0.0.1:9150'')
      else if zoneID = 2 then ''http://127.0.0.1:9110'' else ''http://127.0.0.1:9100'')"

text \<open>\<open>lookup\<close> is the lookup of the resolver for a service name and a zone.\<close>

definition gameTarget :: "(string \<Rightarrow> int \<Rightarrow> 'd \<Rightarrow> service_instance option \<times> 'd) \<Rightarrow> service_config \<Rightarrow> string \<Rightarrow> int \<Rightarrow> int \<Rightarrow> 'd \<Rightarrow> string \<times> 'd" where
  "gameTarget lookup cfg transport roleID zoneID d =
     (let zoneID = (if zoneID = 0 then sZoneID cfg else zoneID);
          name = (if 0 < scShardCount (sScale cfg) then ServiceName (ForRole roleID (scShardCount (sScale cfg))) else ''game'');
          (found, d) = (if dcEnabled (sDiscovery cfg) then lookup name zoneID d else (None, d))
      in (case found of
            Some inst \<Rightarrow> if transport = ''grpc'' then inGRPCAddr inst else HTTPBase inst
          | None \<Rightarrow> if Production cfg then [] else fallbackTarget transport zoneID, d))"

section \<open>Logout\<close>

definition logout_body :: "int \<Rightarrow> body" where
  "logout_body roleID = Some (JObj [(''role_id'', JNum roleID)])"

definition client_Logout :: "(string \<Rightarrow> int \<Rightarrow> string option) \<Rightarrow> game_client \<Rightarrow> outcome \<Rightarrow> player_call \<Rightarrow> int \<Rightarrow> fleet \<Rightarrow> err option \<times> fleet" where
  "client_Logout bases cl oc c roleID w =
     (let base = baseURLForRole bases cl roleID in
      if base = [] then (Some (ErrMsg ''game shard unavailable''), w)
      else let (r, w') = post_logout c base (SetHTTP (cSecret cl)) (logout_body roleID) w in
        case oc of
          Failed \<Rightarrow> (Some ErrStore, w)
        | Lost \<Rightarrow> (Some ErrStore, w')
        | Done \<Rightarrow> (case r of ReplyOK _ \<Rightarrow> None | Reply _ \<Rightarrow> None | _ \<Rightarrow> Some (ErrMsg ''game logout status''), w'))"

lemma client_Logout_effect:
  assumes "in_i64 roleID"
  shows "\<exists>target. snd (client_Logout bases cl oc c roleID w) \<in> {w, w(target := (w target)\<lparr>gsPlayers := snd (Logout (cAdm c) (cSave c) roleID (gsPlayers (w target)))\<rparr>)}"
proof -
  have b: "json_int64 ''role_id'' (logout_body roleID) = roleID"
    using assms by (simp add: logout_body_def json_int64_def body_defs)
  have "snd (post_logout c t h (logout_body roleID) w) \<in> {w, w(t := (w t)\<lparr>gsPlayers := snd (Logout (cAdm c) (cSave c) roleID (gsPlayers (w t)))\<rparr>)}" for t h
    by (auto simp: post_logout_def at_target_def internal_HTTPMiddleware_def handlePlayerLogout_def b split: prod.splits sum.splits)
  then show ?thesis
    by (auto simp: client_Logout_def Let_def split: prod.split outcome.split) (metis insertE singletonD snd_conv)+
qed

end
