(* ===== verification/Gate_Server.thy ===== *)
theory Gate_Server
  imports Gate_Forward
begin

text \<open>
  The Gate (\<^verbatim>\<open>services/gate/internal/server.go\<close> and \<^verbatim>\<open>limiter.go\<close>): client connections, their login, the
  table of the connections of the roles, and the push and kick endpoints. A connection is served by two
  goroutines, the reader that fills a channel of eight frames and the loop that answers them; other
  connections run between any two steps of either. The model has one function per step, on a heap of
  connections, and \<open>gate_step\<close> composes them. The payload of a request frame is its JSON value.
\<close>

section \<open>The limiter of connections per address\<close>

record limiter =
  lmCount :: "string \<Rightarrow> int"
  lmMax :: int

definition newConnLimiter :: "int \<Rightarrow> limiter" where
  "newConnLimiter n = \<lparr>lmCount = (\<lambda>_. 0), lmMax = (if n \<le> 0 then 32 else n)\<rparr>"

definition addr_host :: "string \<Rightarrow> string" where
  "addr_host addr = (case SplitHostPort addr of None \<Rightarrow> addr | Some (host, _) \<Rightarrow> host)"

definition limiter_acquire :: "string \<Rightarrow> limiter \<Rightarrow> bool \<times> limiter" where
  "limiter_acquire addr l =
     (let host = addr_host addr in
      if lmMax l \<le> lmCount l host then (False, l)
      else (True, l\<lparr>lmCount := (lmCount l)(host := lmCount l host + 1)\<rparr>))"

text \<open>A missing key reads as zero, so deleting the key of a count of zero changes nothing that is read.\<close>

definition limiter_release :: "string \<Rightarrow> limiter \<Rightarrow> limiter" where
  "limiter_release addr l =
     (let host = addr_host addr in
      if 0 < lmCount l host then l\<lparr>lmCount := (lmCount l)(host := lmCount l host - 1)\<rparr> else l)"

section \<open>State\<close>

record 'b gframe =
  gfCmd :: "16 word"
  gfAct :: "16 word"
  gfBody :: 'b

type_synonym request = "body gframe"
type_synonym response = "payload gframe"

record conn_state =
  stRoleID :: int
  stZoneID :: int
  stSessionID :: string
  stAuthed :: bool
  stNextRenew :: int

text \<open>
  Where the loop of a connection is: waiting for a frame, about to write a response (with the value of
  \<^verbatim>\<open>authed\<close> before the request), leaving the loop, and in the deferred cleanup before the removal of the
  presence record, before the logout, or done.
\<close>

datatype phase = Serving | Replying response bool | Quitting | Leaving | LoggingOut | Ended

record conn =
  cnAddr :: string
  cnOpen :: bool
  cnReading :: bool
  cnQueue :: "request list"
  cnWinStart :: "int option"
  cnWinCount :: int
  cnSt :: conn_state
  cnSessionID :: string
  cnPhase :: phase
  cnOut :: "response list"

record gate_srv =
  gtCfg :: service_config
  gtTransport :: string
  gtInst :: string
  gtHTTP :: string
  gtClient :: game_client
  gtSessions :: session_store
  gtPresence :: presence_store
  gtDisc :: "(resolver \<times> registry) option"
  gtLimiter :: limiter
  gtConns :: "int \<Rightarrow> nat option"
  gtHeap :: "nat \<Rightarrow> conn"
  gtNext :: nat
  gtKicks :: "presence list"
  gtGame :: fleet

text \<open>Clock, random source and outcomes of the calls of one step.\<close>

record gate_env =
  geNow :: int
  geLater :: int
  geLoad :: outcome
  gePresence :: outcome
  geRand :: "nat list option"
  geDisc :: disc_faults
  geShuffle :: "service_instance list \<Rightarrow> service_instance list"
  geProbe :: "string \<Rightarrow> bool"
  geForward :: outcome
  geCall :: player_call
  geBases :: "string \<Rightarrow> int \<Rightarrow> string option"

definition set_conn :: "nat \<Rightarrow> (conn \<Rightarrow> conn) \<Rightarrow> gate_srv \<Rightarrow> gate_srv" where
  "set_conn c f s = s\<lparr>gtHeap := (gtHeap s)(c := f (gtHeap s c))\<rparr>"

section \<open>Dispatch\<close>

definition presenceRenewInterval :: int where "presenceRenewInterval = 30 * second"

definition reply_frame :: "'a gframe \<Rightarrow> 'b \<Rightarrow> 'b gframe" where
  "reply_frame f b = \<lparr>gfCmd = gfCmd f, gfAct = gfAct f, gfBody = b\<rparr>"

definition errBody :: "int \<Rightarrow> string \<Rightarrow> json" where
  "errBody code msg = JObj [(''code'', JNum code), (''message'', JStr msg)]"

definition errFrame :: "'a gframe \<Rightarrow> int \<Rightarrow> string \<Rightarrow> response" where
  "errFrame f code msg = reply_frame f (JsonBody (errBody code msg))"

definition newConnectionSessionID :: "nat list option \<Rightarrow> string res" where
  "newConnectionSessionID rnd = (case rnd of None \<Rightarrow> Inl (ErrMsg ''rand'') | Some bs \<Rightarrow> Inr (hex_encode bs))"

definition login_record :: "gate_srv \<Rightarrow> session_info \<Rightarrow> string \<Rightarrow> presence" where
  "login_record s info sessionID =
     (let cfg = gtCfg s; zoneID = (if siZoneID info = 0 then sZoneID cfg else siZoneID info);
          shardCount = (if scShardCount (sScale cfg) \<le> 0 then 1 else scShardCount (sScale cfg))
      in \<lparr>prRoleID = siRoleID info, prZoneID = zoneID, prShardID = ForRole (siRoleID info) shardCount, prGateID = gtInst s,
          prGateAddr = AdvertiseAddr (sTCPAddr cfg) (sAdvertiseTCPAddr cfg), prGateHTTP = gtHTTP s,
          prSessionID = sessionID, prLoginAt = 0\<rparr>)"

definition login_token :: "request \<Rightarrow> string" where
  "login_token f = (if json_valid [(''token'', JStr [])] (gfBody f) then json_string ''token'' (gfBody f) else [])"

definition zone_mismatch :: "service_config \<Rightarrow> session_info \<Rightarrow> bool" where
  "zone_mismatch cfg info \<longleftrightarrow> sZoneMode cfg \<noteq> ''hub'' \<and> 0 < sZoneID cfg \<and> 0 < siZoneID info \<and> siZoneID info \<noteq> sZoneID cfg"

text \<open>The record goes to \<open>gtKicks\<close> where the code starts \<^verbatim>\<open>kickPrevious\<close>.\<close>

definition handleLogin :: "gate_env \<Rightarrow> conn_state \<Rightarrow> request \<Rightarrow> gate_srv \<Rightarrow> response \<times> conn_state \<times> gate_srv" where
  "handleLogin E st f s =
     (let token = login_token f; cfg = gtCfg s in
      if stAuthed st then (errFrame f 1001 ''already logged in'', st, s)
      else if token = [] then (errFrame f 1001 ''token required'', st, s)
      else case session_Load (geLoad E) (geNow E) token (Some (gtSessions s)) of
        Inl _ \<Rightarrow> (errFrame f 1002 ''invalid token'', st, s)
      | Inr info \<Rightarrow>
          if zone_mismatch cfg info then (errFrame f 1002 ''zone mismatch'', st, s)
          else case newConnectionSessionID (geRand E) of
            Inl _ \<Rightarrow> (errFrame f 5000 ''failed to create session'', st, s)
          | Inr sessionID \<Rightarrow>
              let rec = login_record s info sessionID in
              case presence_Store (gePresence E) (geNow E) rec day (gtPresence s) of
                (Inl _, ps) \<Rightarrow> (errFrame f 5000 ''presence unavailable'', st, s\<lparr>gtPresence := ps\<rparr>)
              | (Inr previous, ps) \<Rightarrow>
                  (reply_frame f (JsonBody (JObj [(''code'', JNum 0), (''message'', JStr ''gate login ok''), (''zone_id'', JNum (prZoneID rec))])),
                   \<lparr>stRoleID = siRoleID info, stZoneID = prZoneID rec, stSessionID = sessionID, stAuthed = True,
                    stNextRenew = geLater E + presenceRenewInterval\<rparr>,
                   s\<lparr>gtPresence := ps,
                     gtKicks := (if prSessionID previous \<noteq> [] \<and> prSessionID previous \<noteq> sessionID \<and> prGateHTTP previous \<noteq> []
                                    \<and> prGateID previous \<noteq> gtInst s then gtKicks s @ [previous] else gtKicks s)\<rparr>))"

definition find_game :: "gate_env \<Rightarrow> string \<Rightarrow> int \<Rightarrow> (resolver \<times> registry) option \<Rightarrow> service_instance option \<times> (resolver \<times> registry) option" where
  "find_game E = Resolve (geDisc E) (geShuffle E) (geProbe E) (geNow E) (geLater E)"

definition forwarder_of :: "gate_srv \<Rightarrow> outcome \<Rightarrow> player_call \<Rightarrow> string \<Rightarrow> int \<Rightarrow> int \<Rightarrow> 16 word \<Rightarrow> 16 word \<Rightarrow> body \<Rightarrow> fleet \<Rightarrow> payload res \<times> fleet" where
  "forwarder_of s = (if gtTransport s = ''grpc'' then grpc_Forward (sInternalSecret (gtCfg s)) else http_Forward (sInternalSecret (gtCfg s)))"

definition forwardGame :: "gate_env \<Rightarrow> conn_state \<Rightarrow> request \<Rightarrow> gate_srv \<Rightarrow> response \<times> gate_srv" where
  "forwardGame E st f s =
     (let (target, d) = gameTarget (find_game E) (gtCfg s) (gtTransport s) (stRoleID st) (stZoneID st) (gtDisc s); s = s\<lparr>gtDisc := d\<rparr> in
      if target = [] then (errFrame f 5000 ''game unavailable'', s)
      else case forwarder_of s (geForward E) (geCall E) target (stRoleID st) (stZoneID st) (gfCmd f) (gfAct f) (gfBody f) (gtGame s) of
        (Inl _, w) \<Rightarrow> (errFrame f 5000 ''game unavailable'', s\<lparr>gtGame := w\<rparr>)
      | (Inr b, w) \<Rightarrow> (reply_frame f b, s\<lparr>gtGame := w\<rparr>))"

definition pong :: "request \<Rightarrow> response" where
  "pong f = reply_frame f (JsonBody (JObj [(''pong'', JBool True)]))"

definition dispatch :: "gate_env \<Rightarrow> conn_state \<Rightarrow> request \<Rightarrow> gate_srv \<Rightarrow> response \<times> conn_state \<times> gate_srv" where
  "dispatch E st f s =
     (if gfCmd f = CmdPing then
        if stAuthed st \<and> 0 < stRoleID st \<and> stNextRenew st \<le> geNow E then
          (case presence_Renew (gePresence E) (geNow E) (stRoleID st) (stSessionID st) day (gtPresence s) of
             (Inl e, ps) \<Rightarrow>
               if e = ErrStaleSession then (errFrame f 1002 ''session replaced'', st\<lparr>stAuthed := False\<rparr>, s\<lparr>gtPresence := ps\<rparr>)
               else (pong f, st, s\<lparr>gtPresence := ps\<rparr>)
           | (Inr _, ps) \<Rightarrow> (pong f, st\<lparr>stNextRenew := geLater E + presenceRenewInterval\<rparr>, s\<lparr>gtPresence := ps\<rparr>))
        else (pong f, st, s)
      else if gfCmd f = CmdLogin then handleLogin E st f s
      else if gfCmd f = CmdGame then
        if \<not> stAuthed st then (errFrame f 1002 ''not logged in'', st, s)
        else (let (r, s) = forwardGame E st f s in (r, st, s))
      else (errFrame f 1001 ''unsupported command'', st, s))"

section \<open>The steps of a connection\<close>

definition new_conn :: "string \<Rightarrow> conn" where
  "new_conn addr = \<lparr>cnAddr = addr, cnOpen = True, cnReading = True, cnQueue = [], cnWinStart = None, cnWinCount = 0,
     cnSt = \<lparr>stRoleID = 0, stZoneID = 0, stSessionID = [], stAuthed = False, stNextRenew = 0\<rparr>,
     cnSessionID = [], cnPhase = Serving, cnOut = []\<rparr>"

text \<open>One accepted connection: refused over the limit, otherwise a new connection.\<close>

definition accept_conn :: "string \<Rightarrow> gate_srv \<Rightarrow> bool \<times> gate_srv" where
  "accept_conn addr s =
     (case limiter_acquire addr (gtLimiter s) of
        (False, l) \<Rightarrow> (False, s)
      | (True, l) \<Rightarrow> (True, s\<lparr>gtLimiter := l, gtHeap := (gtHeap s)(gtNext s := new_conn addr), gtNext := gtNext s + 1\<rparr>))"

text \<open>
  The reader after it decoded a frame: the window of one second, and the channel. Over the rate, the
  frame that it queues has the same command and action and an error as its body.
\<close>

definition rate_window :: "int \<Rightarrow> conn \<Rightarrow> conn" where
  "rate_window now k =
     (let restart = (case cnWinStart k of None \<Rightarrow> True | Some w \<Rightarrow> second \<le> now - w)
      in k\<lparr>cnWinStart := (if restart then Some now else cnWinStart k), cnWinCount := (if restart then 0 else cnWinCount k) + 1\<rparr>)"

definition read_step :: "int \<Rightarrow> request \<Rightarrow> int \<Rightarrow> conn \<Rightarrow> conn" where
  "read_step now f rate k =
     (if \<not> 0 < rate then k\<lparr>cnQueue := cnQueue k @ [f]\<rparr>
      else let k = rate_window now k in
        k\<lparr>cnQueue := cnQueue k @ [if rate < cnWinCount k then reply_frame f (Some (errBody 1001 ''rate limited'')) else f]\<rparr>)"

definition conn_read :: "nat \<Rightarrow> int \<Rightarrow> request \<Rightarrow> gate_srv \<Rightarrow> gate_srv" where
  "conn_read c now f s = set_conn c (read_step now f (MsgRate (sGate (gtCfg s)))) s"

text \<open>The loop takes a frame and dispatches it.\<close>

definition conn_dispatch :: "nat \<Rightarrow> gate_env \<Rightarrow> request \<Rightarrow> gate_srv \<Rightarrow> gate_srv" where
  "conn_dispatch c E f s =
     (let st = cnSt (gtHeap s c); (resp, st', s') = dispatch E st f s
      in set_conn c (\<lambda>k. k\<lparr>cnQueue := tl (cnQueue k), cnSt := st', cnPhase := Replying resp (stAuthed st)\<rparr>) s')"

text \<open>\<^verbatim>\<open>conns.Swap\<close> after a login, which closes the connection that was there.\<close>

definition conn_register :: "nat \<Rightarrow> gate_srv \<Rightarrow> gate_srv" where
  "conn_register c s =
     (let st = cnSt (gtHeap s c); r = stRoleID st; previous = gtConns s r;
          s = set_conn c (\<lambda>k. k\<lparr>cnSessionID := stSessionID st\<rparr>) s;
          s = s\<lparr>gtConns := (gtConns s)(r \<mapsto> c)\<rparr>
      in case previous of
           None \<Rightarrow> s
         | Some d \<Rightarrow> if d = c then s else set_conn d (\<lambda>k. k\<lparr>cnOpen := False\<rparr>) s)"

definition newly_authed :: "nat \<Rightarrow> bool \<Rightarrow> gate_srv \<Rightarrow> bool" where
  "newly_authed c wasAuthed s \<longleftrightarrow> \<not> wasAuthed \<and> stAuthed (cnSt (gtHeap s c)) \<and> 0 < stRoleID (cnSt (gtHeap s c))"

text \<open>\<^verbatim>\<open>clientConn.write\<close>; \<open>ok\<close> says whether the frame fits and the network takes it.\<close>

definition conn_write :: "nat \<Rightarrow> bool \<Rightarrow> response \<Rightarrow> gate_srv \<Rightarrow> bool \<times> gate_srv" where
  "conn_write c ok f s =
     (if cnOpen (gtHeap s c) \<and> ok then (True, set_conn c (\<lambda>k. k\<lparr>cnOut := cnOut k @ [f]\<rparr>) s) else (False, s))"

definition conn_deliver :: "nat \<Rightarrow> response \<Rightarrow> bool \<Rightarrow> bool \<Rightarrow> gate_srv \<Rightarrow> gate_srv" where
  "conn_deliver c resp wasAuthed ok s =
     (let s = (if newly_authed c wasAuthed s then conn_register c s else s); (written, s) = conn_write c ok resp s
      in set_conn c (\<lambda>k. k\<lparr>cnPhase := (if written then Serving else Quitting)\<rparr>) s)"

text \<open>The deferred cleanup: \<^verbatim>\<open>CompareAndDelete\<close>, the presence record, the logout; then the socket and the limiter.\<close>

definition conn_end :: "nat \<Rightarrow> gate_srv \<Rightarrow> gate_srv" where
  "conn_end c s =
     (let s = set_conn c (\<lambda>k. k\<lparr>cnOpen := False, cnReading := False, cnQueue := [], cnPhase := Ended\<rparr>) s
      in s\<lparr>gtLimiter := limiter_release (cnAddr (gtHeap s c)) (gtLimiter s)\<rparr>)"

definition in_table :: "nat \<Rightarrow> gate_srv \<Rightarrow> bool" where
  "in_table c s \<longleftrightarrow> (let st = cnSt (gtHeap s c) in stAuthed st \<and> 0 < stRoleID st \<and> gtConns s (stRoleID st) = Some c)"

definition conn_detach :: "nat \<Rightarrow> gate_srv \<Rightarrow> gate_srv" where
  "conn_detach c s =
     (if in_table c s
      then set_conn c (\<lambda>k. k\<lparr>cnPhase := Leaving\<rparr>) (s\<lparr>gtConns := (gtConns s)(stRoleID (cnSt (gtHeap s c)) := None)\<rparr>)
      else conn_end c s)"

definition conn_leave :: "nat \<Rightarrow> gate_env \<Rightarrow> gate_srv \<Rightarrow> gate_srv" where
  "conn_leave c E s =
     (let st = cnSt (gtHeap s c) in
      case presence_Remove (gePresence E) (geNow E) (stRoleID st) (stSessionID st) (gtPresence s) of
        (Inl _, ps) \<Rightarrow> conn_end c (s\<lparr>gtPresence := ps\<rparr>)
      | (Inr _, ps) \<Rightarrow> set_conn c (\<lambda>k. k\<lparr>cnPhase := LoggingOut\<rparr>) (s\<lparr>gtPresence := ps\<rparr>))"

definition conn_logout :: "nat \<Rightarrow> gate_env \<Rightarrow> gate_srv \<Rightarrow> gate_srv" where
  "conn_logout c E s =
     conn_end c (s\<lparr>gtGame := snd (client_Logout (geBases E) (gtClient s) (geForward E) (geCall E) (stRoleID (cnSt (gtHeap s c))) (gtGame s))\<rparr>)"

section \<open>The internal endpoints\<close>

definition push_shape :: "(string \<times> json) list" where
  "push_shape = [(''role_id'', JNum 64), (''cmd'', JNum 16), (''act'', JNum 16), (''body'', JStr [])]"

definition text_bytes :: "string \<Rightarrow> byte list" where
  "text_bytes = map (\<lambda>ch. of_nat (of_char ch))"

text \<open>The frame of a push request: without a command it is \<^verbatim>\<open>CmdPush\<close>.\<close>

definition pushed :: "body \<Rightarrow> response" where
  "pushed p = \<lparr>gfCmd = (if json_uint16 ''cmd'' p = 0 then CmdPush else json_uint16 ''cmd'' p), gfAct = json_uint16 ''act'' p,
     gfBody = RawBody (json_string ''body'' p)\<rparr>"

text \<open>The encoder refuses a frame that is too large; \<open>ok\<close> is the network.\<close>

definition handlePush :: "bool \<Rightarrow> bool \<Rightarrow> body \<Rightarrow> gate_srv \<Rightarrow> unit reply \<times> gate_srv" where
  "handlePush is_post ok p s =
     (if \<not> is_post then (HttpError 405, s)
      else if \<not> json_valid push_shape p \<or> json_int64 ''role_id'' p = 0 then (HttpError 400, s)
      else case gtConns s (json_int64 ''role_id'' p) of
          None \<Rightarrow> (Reply 1003, s)
        | Some c \<Rightarrow>
            (case EncodeInto [] \<lparr>Cmd = gfCmd (pushed p), Act = gfAct (pushed p), Body = text_bytes (json_string ''body'' p)\<rparr> of
               Inl _ \<Rightarrow> (Reply 5000, s)
             | Inr _ \<Rightarrow>
                 (case conn_write c ok (pushed p) s of
                    (True, s) \<Rightarrow> (ReplyOK (), s)
                  | (False, s) \<Rightarrow> (Reply 5000, s))))"

definition handleKick :: "body \<Rightarrow> gate_srv \<Rightarrow> unit reply \<times> gate_srv" where
  "handleKick p s =
     (let roleID = json_int64 ''role_id'' p; sessionID = json_string ''session_id'' p in
      if \<not> json_valid [(''role_id'', JNum 64), (''session_id'', JStr [])] p \<or> roleID \<le> 0 \<or> sessionID = [] then (HttpError 400, s)
      else (ReplyOK (), case gtConns s roleID of
         None \<Rightarrow> s
       | Some c \<Rightarrow> if cnSessionID (gtHeap s c) = sessionID then set_conn c (\<lambda>k. k\<lparr>cnOpen := False\<rparr>) s else s))"

text \<open>The request of \<^verbatim>\<open>kickPrevious\<close>: URL, header and body.\<close>

definition kick_body :: "presence \<Rightarrow> body" where
  "kick_body previous = Some (JObj [(''role_id'', JNum (prRoleID previous)), (''session_id'', JStr (prSessionID previous))])"

definition kickPrevious :: "string \<Rightarrow> outcome \<Rightarrow> (string \<Rightarrow> string \<Rightarrow> body \<Rightarrow> 'w \<Rightarrow> 'w) \<Rightarrow> presence \<Rightarrow> 'w \<Rightarrow> 'w" where
  "kickPrevious secret oc post previous w =
     (if oc = Failed then w
      else post (''http://'' @ prGateHTTP previous @ ''/internal/kick'') (SetHTTP secret) (kick_body previous) w)"

definition closeConnections :: "gate_srv \<Rightarrow> gate_srv" where
  "closeConnections s =
     s\<lparr>gtHeap := (\<lambda>c. if \<exists>r. gtConns s r = Some c then (gtHeap s c)\<lparr>cnOpen := False\<rparr> else gtHeap s c)\<rparr>"

section \<open>Effects of the steps\<close>

lemma set_conn_simps [simp]:
  "gtHeap (set_conn c g s) = (gtHeap s)(c := g (gtHeap s c))" "gtConns (set_conn c g s) = gtConns s" "gtNext (set_conn c g s) = gtNext s"
  "gtLimiter (set_conn c g s) = gtLimiter s" "gtCfg (set_conn c g s) = gtCfg s" "gtSessions (set_conn c g s) = gtSessions s"
  "gtPresence (set_conn c g s) = gtPresence s" "gtGame (set_conn c g s) = gtGame s" "gtTransport (set_conn c g s) = gtTransport s"
  by (simp_all add: set_conn_def)

text \<open>What no step of a connection but the accept and the end changes.\<close>

definition same_shell :: "gate_srv \<Rightarrow> gate_srv \<Rightarrow> bool" where
  "same_shell s s' \<longleftrightarrow> gtHeap s' = gtHeap s \<and> gtConns s' = gtConns s \<and> gtNext s' = gtNext s \<and> gtLimiter s' = gtLimiter s
     \<and> gtCfg s' = gtCfg s \<and> gtSessions s' = gtSessions s \<and> gtTransport s' = gtTransport s"

lemma forwardGame_shell: "forwardGame E st f s = (r, s') \<Longrightarrow> same_shell s s' \<and> gtPresence s' = gtPresence s"
  by (auto simp: forwardGame_def same_shell_def Let_def split: prod.splits sum.splits if_splits)

lemma handleLogin_shell: "handleLogin E st f s = (r, st', s') \<Longrightarrow> same_shell s s' \<and> gtGame s' = gtGame s"
  by (auto simp: handleLogin_def same_shell_def Let_def split: prod.splits sum.splits if_splits)

lemma dispatch_shell: "dispatch E st f s = (r, st', s') \<Longrightarrow> same_shell s s'"
  by (auto simp: dispatch_def dest: handleLogin_shell forwardGame_shell split: prod.splits sum.splits if_splits)
    (auto simp: same_shell_def)

text \<open>A connection gets an identity from a session, and keeps it or loses it.\<close>

definition identity_of :: "service_config \<Rightarrow> session_info \<Rightarrow> conn_state \<Rightarrow> bool" where
  "identity_of cfg info st \<longleftrightarrow> \<not> zone_mismatch cfg info \<and> stRoleID st = siRoleID info
     \<and> stZoneID st = (if siZoneID info = 0 then sZoneID cfg else siZoneID info)"

lemma login_record_simps [simp]:
  "prRoleID (login_record s info sid) = siRoleID info" "prSessionID (login_record s info sid) = sid"
  "prZoneID (login_record s info sid) = (if siZoneID info = 0 then sZoneID (gtCfg s) else siZoneID info)"
  by (simp_all add: login_record_def Let_def)

lemma handleLogin_identity:
  assumes "handleLogin E st f s = (r, st', s')" and "stAuthed st'"
  shows "st' = st \<or> (\<exists>info. session_Load (geLoad E) (geNow E) (login_token f) (Some (gtSessions s)) = Inr info \<and> identity_of (gtCfg s) info st')"
proof -
  have "st' = st" if "\<nexists>info. session_Load (geLoad E) (geNow E) (login_token f) (Some (gtSessions s)) = Inr info \<and> \<not> zone_mismatch (gtCfg s) info"
    using that assms(1) by (auto simp: handleLogin_def Let_def split: sum.splits if_splits)
  moreover have "st' = st \<or> identity_of (gtCfg s) info st'" if "session_Load (geLoad E) (geNow E) (login_token f) (Some (gtSessions s)) = Inr info" "\<not> zone_mismatch (gtCfg s) info" for info
    using that assms(1) by (auto simp: handleLogin_def identity_of_def Let_def split: prod.splits sum.splits if_splits)
  ultimately show ?thesis by blast
qed

lemma dispatch_identity:
  assumes "dispatch E st f s = (r, st', s')" and "stAuthed st'"
  shows "stAuthed st \<and> stRoleID st' = stRoleID st \<and> stZoneID st' = stZoneID st \<or>
    gfCmd f = CmdLogin \<and> (\<exists>info. session_Load (geLoad E) (geNow E) (login_token f) (Some (gtSessions s)) = Inr info \<and> identity_of (gtCfg s) info st')"
proof (cases "gfCmd f = CmdLogin")
  case True
  then have "handleLogin E st f s = (r, st', s')" using assms(1) by (simp add: dispatch_def cmd_defs)
  from handleLogin_identity [OF this assms(2)] show ?thesis using True assms(2) by auto
next
  case False
  then show ?thesis using assms by (auto simp: dispatch_def split: prod.splits sum.splits if_splits)
qed

lemma dispatch_role:
  assumes "dispatch E st f s = (r, st', s')"
  shows "stRoleID st' = stRoleID st \<or> (\<exists>info. session_Load (geLoad E) (geNow E) (login_token f) (Some (gtSessions s)) = Inr info \<and> stRoleID st' = siRoleID info)"
proof (cases "stAuthed st'")
  case True
  then show ?thesis using dispatch_identity [OF assms] by (auto simp: identity_of_def)
next
  case False
  then show ?thesis using assms by (auto simp: dispatch_def handleLogin_def Let_def split: prod.splits sum.splits if_splits)
qed

section \<open>What a dispatch does to the game\<close>

text \<open>Whichever transport is configured, the Gate's forwarder satisfies the contract.\<close>

interpretation gate_pool: forwarder "forwarder_of s"
  by (cases "gtTransport s = ''grpc''") (simp_all add: forwarder_of_def http_pool.forwarder_axioms grpc_pool.forwarder_axioms)

lemma forwardGame_effect:
  assumes "forwardGame E st f s = (resp, s')" and "in_i64 (stRoleID st)"
  shows "\<exists>target. let (r, w) = message_at (geCall E) target (stRoleID st) (gfCmd f) (gfAct f) (gfBody f) (gtGame s)
     in gtGame s' \<in> {gtGame s, w} \<and> (\<forall>v. gfBody resp = GameBody v \<longrightarrow> r = Inr v \<and> gtGame s' = w)"
proof -
  let ?t = "gameTarget (find_game E) (gtCfg s) (gtTransport s) (stRoleID st) (stZoneID st) (gtDisc s)"
  obtain target d where t: "?t = (target, d)" by fastforce
  let ?fw = "forwarder_of (s\<lparr>gtDisc := d\<rparr>) (geForward E) (geCall E) target (stRoleID st) (stZoneID st) (gfCmd f) (gfAct f) (gfBody f) (gtGame s)"
  let ?m = "message_at (geCall E) target (stRoleID st) (gfCmd f) (gfAct f) (gfBody f) (gtGame s)"
  obtain x w' where fw: "?fw = (x, w')" by fastforce
  have eff: "w' \<in> {gtGame s, snd ?m}"
    using gate_pool.effect [OF assms(2), of "s\<lparr>gtDisc := d\<rparr>" "geForward E" "geCall E" target "stZoneID st" "gfCmd f" "gfAct f" "gfBody f" "gtGame s"]
    by (simp add: fw)
  have ans: "\<exists>v. b = GameBody v \<and> ?m = (Inr v, w')" if "x = Inr b" for b
    using gate_pool.answer [OF assms(2) fw [unfolded that]] .
  have "gtGame s' \<in> {gtGame s, snd ?m} \<and> (\<forall>v. gfBody resp = GameBody v \<longrightarrow> fst ?m = Inr v \<and> gtGame s' = snd ?m)"
  proof (cases "target = []")
    case True
    then show ?thesis using assms(1) t by (auto simp: forwardGame_def errFrame_def reply_frame_def)
  next
    case False
    show ?thesis
    proof (cases x)
      case (Inl e)
      then show ?thesis using assms(1) t fw eff False by (auto simp: forwardGame_def errFrame_def reply_frame_def)
    next
      case (Inr b)
      then have "resp = reply_frame f b" "gtGame s' = w'" using assms(1) t fw False by (auto simp: forwardGame_def)
      then show ?thesis using ans [OF Inr] by (auto simp: reply_frame_def)
    qed
  qed
  then show ?thesis by (auto simp: case_prod_beta Let_def)
qed

lemma dispatch_game:
  assumes d: "dispatch E st f s = (resp, st', s')" and r: "in_i64 (stRoleID st)" and ch: "gtGame s' \<noteq> gtGame s \<or> (\<exists>v. gfBody resp = GameBody v)"
  shows "gfCmd f = CmdGame \<and> stAuthed st \<and> (\<exists>target. let (r, w) = message_at (geCall E) target (stRoleID st) CmdGame (gfAct f) (gfBody f) (gtGame s)
     in gtGame s' \<in> {gtGame s, w} \<and> (\<forall>v. gfBody resp = GameBody v \<longrightarrow> r = Inr v \<and> gtGame s' = w))"
proof -
  have g: "gfCmd f = CmdGame \<and> stAuthed st"
  proof (rule ccontr)
    assume n: "\<not> (gfCmd f = CmdGame \<and> stAuthed st)"
    have "gtGame s' = gtGame s \<and> (\<forall>v. gfBody resp \<noteq> GameBody v)"
    proof (cases "gfCmd f = CmdLogin")
      case True
      then have h: "handleLogin E st f s = (resp, st', s')" using d by (simp add: dispatch_def cmd_defs)
      then have "gfBody resp \<noteq> GameBody v" for v
        by (auto simp: handleLogin_def errFrame_def reply_frame_def Let_def split: prod.splits sum.splits if_splits)
      then show ?thesis using handleLogin_shell [OF h] by simp
    next
      case False
      then show ?thesis using d n by (auto simp: dispatch_def errFrame_def pong_def reply_frame_def split: prod.splits sum.splits if_splits)
    qed
    then show False using ch by simp
  qed
  then have "forwardGame E st f s = (resp, s')" using d by (auto simp: dispatch_def cmd_defs split: prod.splits)
  from forwardGame_effect [OF this r] g show ?thesis by simp
qed

end
