(* ===== verification/Gate_Connections.thy ===== *)
theory Gate_Connections
  imports Gate_Server
begin

text \<open>
  The Gate as a transition system: any number of connections, each with its reader and its loop, the two
  internal endpoints, and what the rest of the system does between them. The labels record what the
  statements need: the frame that a loop took with the session its token named at that moment, and the
  entries and removals of the connection table. Invariants by rule induction over runs.
\<close>

section \<open>Steps and runs\<close>

datatype gate_label =
    Accepted nat
  | Refused string
  | Took nat gate_env request "session_info res"
  | Registered nat int
  | Detached nat int
  | LoggedOut nat
  | Inner
  | Outside

definition token_session :: "gate_env \<Rightarrow> request \<Rightarrow> gate_srv \<Rightarrow> session_info res" where
  "token_session E f s = session_Load (geLoad E) (geNow E) (login_token f) (Some (gtSessions s))"

inductive gate_step :: "gate_srv \<Rightarrow> gate_label \<Rightarrow> gate_srv \<Rightarrow> bool" where
  accept: "accept_conn addr s = (True, s') \<Longrightarrow> gate_step s (Accepted (gtNext s)) s'"
| refuse: "accept_conn addr s = (False, s') \<Longrightarrow> gate_step s (Refused addr) s'"
| read: "c < gtNext s \<Longrightarrow> cnReading (gtHeap s c) \<Longrightarrow> length (cnQueue (gtHeap s c)) < 8 \<Longrightarrow> gate_step s Inner (conn_read c now f s)"
| read_end: "c < gtNext s \<Longrightarrow> gate_step s Inner (set_conn c (\<lambda>k. k\<lparr>cnReading := False\<rparr>) s)"
| take: "c < gtNext s \<Longrightarrow> cnPhase (gtHeap s c) = Serving \<Longrightarrow> cnQueue (gtHeap s c) = f # fs
    \<Longrightarrow> gate_step s (Took c E f (token_session E f s)) (conn_dispatch c E f s)"
| register: "c < gtNext s \<Longrightarrow> cnPhase (gtHeap s c) = Replying resp was \<Longrightarrow> newly_authed c was s
    \<Longrightarrow> gate_step s (Registered c (stRoleID (cnSt (gtHeap s c)))) (conn_deliver c resp was ok s)"
| deliver: "c < gtNext s \<Longrightarrow> cnPhase (gtHeap s c) = Replying resp was \<Longrightarrow> \<not> newly_authed c was s
    \<Longrightarrow> gate_step s Inner (conn_deliver c resp was ok s)"
| drained: "c < gtNext s \<Longrightarrow> cnPhase (gtHeap s c) = Serving \<Longrightarrow> \<not> cnReading (gtHeap s c) \<Longrightarrow> cnQueue (gtHeap s c) = []
    \<Longrightarrow> gate_step s Inner (set_conn c (\<lambda>k. k\<lparr>cnPhase := Quitting\<rparr>) s)"
| detach: "c < gtNext s \<Longrightarrow> cnPhase (gtHeap s c) = Quitting \<Longrightarrow> in_table c s
    \<Longrightarrow> gate_step s (Detached c (stRoleID (cnSt (gtHeap s c)))) (conn_detach c s)"
| quit: "c < gtNext s \<Longrightarrow> cnPhase (gtHeap s c) = Quitting \<Longrightarrow> \<not> in_table c s \<Longrightarrow> gate_step s Inner (conn_detach c s)"
| leave: "c < gtNext s \<Longrightarrow> cnPhase (gtHeap s c) = Leaving \<Longrightarrow> gate_step s Inner (conn_leave c E s)"
| logout: "c < gtNext s \<Longrightarrow> cnPhase (gtHeap s c) = LoggingOut \<Longrightarrow> gate_step s (LoggedOut c) (conn_logout c E s)"
| push: "gate_step s Inner (snd (handlePush m ok p s))"
| kick: "gate_step s Inner (snd (handleKick p s))"
| stop: "gate_step s Inner (closeConnections s)"
| presence: "gate_step s Outside (s\<lparr>gtPresence := ps\<rparr>)"
| login: "in_i64 (siRoleID (lgInfo l)) \<Longrightarrow> login_step l (Some (gtSessions s)) = Some ss \<Longrightarrow> gate_step s Outside (s\<lparr>gtSessions := ss\<rparr>)"
| others: "gate_step s Outside (s\<lparr>gtGame := w, gtDisc := d\<rparr>)"

inductive gate_run :: "gate_srv \<Rightarrow> gate_label list \<Rightarrow> gate_srv \<Rightarrow> bool" where
  start: "gate_run s [] s"
| step: "gate_run s ls s' \<Longrightarrow> gate_step s' l s'' \<Longrightarrow> gate_run s (ls @ [l]) s''"

definition sessions_ok :: "session_store \<Rightarrow> bool" where
  "sessions_ok ss \<longleftrightarrow> (\<forall>k info w. ss k = Some (Some info, w) \<longrightarrow> in_i64 (siRoleID info))"

text \<open>A Gate that has just started; the stores are as they are.\<close>

definition gate_start :: "gate_srv \<Rightarrow> bool" where
  "gate_start s \<longleftrightarrow> gtConns s = Map.empty \<and> gtNext s = 0 \<and> gtLimiter s = newConnLimiter (sMaxConnPerIP (gtCfg s)) \<and> sessions_ok (gtSessions s)"

section \<open>What the steps leave alone\<close>

lemma same_shell_simps:
  "same_shell s s' \<Longrightarrow> gtHeap s' = gtHeap s" "same_shell s s' \<Longrightarrow> gtConns s' = gtConns s" "same_shell s s' \<Longrightarrow> gtNext s' = gtNext s"
  "same_shell s s' \<Longrightarrow> gtLimiter s' = gtLimiter s" "same_shell s s' \<Longrightarrow> gtCfg s' = gtCfg s" "same_shell s s' \<Longrightarrow> gtSessions s' = gtSessions s"
  by (simp_all add: same_shell_def)

lemma conn_dispatch_shell [simp]:
  "gtConns (conn_dispatch c E f s) = gtConns s" "gtNext (conn_dispatch c E f s) = gtNext s" "gtLimiter (conn_dispatch c E f s) = gtLimiter s"
  "gtCfg (conn_dispatch c E f s) = gtCfg s" "gtSessions (conn_dispatch c E f s) = gtSessions s"
  "gtGame (conn_dispatch c E f s) = gtGame (snd (snd (dispatch E (cnSt (gtHeap s c)) f s)))"
  "gtHeap (conn_dispatch c E f s) = (let (resp, st', _) = dispatch E (cnSt (gtHeap s c)) f s in (gtHeap s)(c := (gtHeap s c)\<lparr>cnQueue := tl (cnQueue (gtHeap s c)),
     cnSt := st', cnPhase := Replying resp (stAuthed (cnSt (gtHeap s c)))\<rparr>))"
proof -
  obtain resp st' s1 where d: "dispatch E (cnSt (gtHeap s c)) f s = (resp, st', s1)" by (metis prod.exhaust)
  note sh = dispatch_shell [OF d, unfolded same_shell_def]
  show "gtConns (conn_dispatch c E f s) = gtConns s" "gtNext (conn_dispatch c E f s) = gtNext s" "gtLimiter (conn_dispatch c E f s) = gtLimiter s"
    "gtCfg (conn_dispatch c E f s) = gtCfg s" "gtSessions (conn_dispatch c E f s) = gtSessions s"
    "gtGame (conn_dispatch c E f s) = gtGame (snd (snd (dispatch E (cnSt (gtHeap s c)) f s)))"
    "gtHeap (conn_dispatch c E f s) = (let (resp, st', _) = dispatch E (cnSt (gtHeap s c)) f s in (gtHeap s)(c := (gtHeap s c)\<lparr>cnQueue := tl (cnQueue (gtHeap s c)),
       cnSt := st', cnPhase := Replying resp (stAuthed (cnSt (gtHeap s c)))\<rparr>))"
    using sh by (simp_all add: conn_dispatch_def d)
qed

lemma conn_register_shell [simp]:
  "gtNext (conn_register c s) = gtNext s" "gtLimiter (conn_register c s) = gtLimiter s" "gtCfg (conn_register c s) = gtCfg s"
  "gtSessions (conn_register c s) = gtSessions s" "gtGame (conn_register c s) = gtGame s"
  "gtConns (conn_register c s) = (gtConns s)(stRoleID (cnSt (gtHeap s c)) \<mapsto> c)"
  by (simp_all add: conn_register_def Let_def split: option.split)

lemma conn_write_shell [simp]:
  "gtNext (snd (conn_write c ok f s)) = gtNext s" "gtLimiter (snd (conn_write c ok f s)) = gtLimiter s" "gtCfg (snd (conn_write c ok f s)) = gtCfg s"
  "gtSessions (snd (conn_write c ok f s)) = gtSessions s" "gtGame (snd (conn_write c ok f s)) = gtGame s" "gtConns (snd (conn_write c ok f s)) = gtConns s"
  by (simp_all add: conn_write_def)

text \<open>The parts of a connection that a write, a close or a registration does not touch.\<close>

definition same_core :: "conn \<Rightarrow> conn \<Rightarrow> bool" where
  "same_core k k' \<longleftrightarrow> cnAddr k' = cnAddr k \<and> cnSt k' = cnSt k \<and> cnPhase k' = cnPhase k"

lemma conn_register_core: "same_core (gtHeap s d) (gtHeap (conn_register c s) d)"
  by (auto simp: conn_register_def Let_def same_core_def split: option.split)

lemma conn_write_core: "same_core (gtHeap s d) (gtHeap (snd (conn_write c ok f s)) d)"
  by (auto simp: conn_write_def same_core_def)

lemma handlePush_cases: "snd (handlePush m ok p s) = s \<or> (\<exists>c. gtConns s (json_int64 ''role_id'' p) = Some c \<and> cnOpen (gtHeap s c) \<and>
    snd (handlePush m ok p s) = set_conn c (\<lambda>k. k\<lparr>cnOut := cnOut k @ [pushed p]\<rparr>) s)"
  by (simp add: handlePush_def conn_write_def split: option.split sum.split)

lemma handleKick_cases: "snd (handleKick p s) = s \<or>
  (\<exists>c. gtConns s (json_int64 ''role_id'' p) = Some c \<and> cnSessionID (gtHeap s c) = json_string ''session_id'' p \<and> snd (handleKick p s) = set_conn c (\<lambda>k. k\<lparr>cnOpen := False\<rparr>) s)"
  by (auto simp: handleKick_def Let_def split: option.splits)

lemma conn_deliver_eq:
  "conn_deliver c resp was ok s =
     (let s1 = (if newly_authed c was s then conn_register c s else s)
      in set_conn c (\<lambda>k. k\<lparr>cnPhase := (if fst (conn_write c ok resp s1) then Serving else Quitting)\<rparr>) (snd (conn_write c ok resp s1)))"
  by (simp add: conn_deliver_def Let_def case_prod_beta)

lemma conn_deliver_shell [simp]:
  "gtNext (conn_deliver c resp was ok s) = gtNext s" "gtLimiter (conn_deliver c resp was ok s) = gtLimiter s" "gtCfg (conn_deliver c resp was ok s) = gtCfg s"
  "gtSessions (conn_deliver c resp was ok s) = gtSessions s" "gtGame (conn_deliver c resp was ok s) = gtGame s"
  "gtConns (conn_deliver c resp was ok s) = (if newly_authed c was s then (gtConns s)(stRoleID (cnSt (gtHeap s c)) \<mapsto> c) else gtConns s)"
  by (simp_all add: conn_deliver_eq Let_def)

lemma conn_deliver_conn:
  "cnAddr (gtHeap (conn_deliver c resp was ok s) d) = cnAddr (gtHeap s d)" "cnSt (gtHeap (conn_deliver c resp was ok s) d) = cnSt (gtHeap s d)"
  "cnPhase (gtHeap (conn_deliver c resp was ok s) d) \<in> (if d = c then {Serving, Quitting} else {cnPhase (gtHeap s d)})"
  using conn_register_core [of s d c] conn_write_core [of _ d c ok resp]
  by (auto simp: conn_deliver_eq Let_def same_core_def)

lemma conn_end_simps [simp]:
  "gtNext (conn_end c s) = gtNext s" "gtCfg (conn_end c s) = gtCfg s" "gtSessions (conn_end c s) = gtSessions s" "gtGame (conn_end c s) = gtGame s"
  "gtConns (conn_end c s) = gtConns s" "gtLimiter (conn_end c s) = limiter_release (cnAddr (gtHeap s c)) (gtLimiter s)"
  "gtHeap (conn_end c s) = (gtHeap s)(c := (gtHeap s c)\<lparr>cnOpen := False, cnReading := False, cnQueue := [], cnPhase := Ended\<rparr>)"
  by (simp_all add: conn_end_def Let_def)

lemma accept_conn_True:
  "accept_conn addr s = (True, s') \<Longrightarrow> gtNext s' = Suc (gtNext s) \<and> gtHeap s' = (gtHeap s)(gtNext s := new_conn addr) \<and> gtConns s' = gtConns s
     \<and> gtCfg s' = gtCfg s \<and> gtSessions s' = gtSessions s \<and> gtGame s' = gtGame s \<and> limiter_acquire addr (gtLimiter s) = (True, gtLimiter s')"
  by (auto simp: accept_conn_def split: prod.splits bool.splits)

lemma accept_conn_False: "accept_conn addr s = (False, s') \<Longrightarrow> s' = s \<and> limiter_acquire addr (gtLimiter s) = (False, gtLimiter s)"
  by (auto simp: accept_conn_def limiter_acquire_def Let_def split: prod.splits bool.splits if_splits)

lemma conn_leave_simps [simp]:
  "gtNext (conn_leave c E s) = gtNext s" "gtCfg (conn_leave c E s) = gtCfg s" "gtSessions (conn_leave c E s) = gtSessions s"
  "gtGame (conn_leave c E s) = gtGame s" "gtConns (conn_leave c E s) = gtConns s"
  by (simp_all add: conn_leave_def Let_def split: prod.split sum.split)

lemma conn_detach_simps [simp]:
  "gtNext (conn_detach c s) = gtNext s" "gtCfg (conn_detach c s) = gtCfg s" "gtSessions (conn_detach c s) = gtSessions s"
  "gtGame (conn_detach c s) = gtGame s"
  "gtConns (conn_detach c s) = (if in_table c s then (gtConns s)(stRoleID (cnSt (gtHeap s c)) := None) else gtConns s)"
  by (simp_all add: conn_detach_def)

lemma conn_logout_simps [simp]:
  "gtNext (conn_logout c E s) = gtNext s" "gtCfg (conn_logout c E s) = gtCfg s" "gtSessions (conn_logout c E s) = gtSessions s"
  "gtConns (conn_logout c E s) = gtConns s"
  by (simp_all add: conn_logout_def)

lemma conn_read_conn:
  "cnSt (gtHeap (conn_read c now f s) d) = cnSt (gtHeap s d)" "cnPhase (gtHeap (conn_read c now f s) d) = cnPhase (gtHeap s d)"
  "cnAddr (gtHeap (conn_read c now f s) d) = cnAddr (gtHeap s d)" "cnOpen (gtHeap (conn_read c now f s) d) = cnOpen (gtHeap s d)"
  by (simp_all add: conn_read_def read_step_def rate_window_def Let_def)

lemma conn_read_simps [simp]:
  "gtNext (conn_read c now f s) = gtNext s" "gtCfg (conn_read c now f s) = gtCfg s" "gtSessions (conn_read c now f s) = gtSessions s"
  "gtConns (conn_read c now f s) = gtConns s" "gtGame (conn_read c now f s) = gtGame s" "gtLimiter (conn_read c now f s) = gtLimiter s"
  by (simp_all add: conn_read_def)

lemma handlePush_simps [simp]:
  "gtNext (snd (handlePush m ok p s)) = gtNext s" "gtCfg (snd (handlePush m ok p s)) = gtCfg s" "gtSessions (snd (handlePush m ok p s)) = gtSessions s"
  "gtConns (snd (handlePush m ok p s)) = gtConns s" "gtGame (snd (handlePush m ok p s)) = gtGame s" "gtLimiter (snd (handlePush m ok p s)) = gtLimiter s"
  using handlePush_cases [of m ok p s] by auto

lemma handleKick_simps [simp]:
  "gtNext (snd (handleKick p s)) = gtNext s" "gtCfg (snd (handleKick p s)) = gtCfg s" "gtSessions (snd (handleKick p s)) = gtSessions s"
  "gtConns (snd (handleKick p s)) = gtConns s" "gtGame (snd (handleKick p s)) = gtGame s" "gtLimiter (snd (handleKick p s)) = gtLimiter s"
  using handleKick_cases [of p s] by auto

lemma handlePush_core: "same_core (gtHeap s d) (gtHeap (snd (handlePush m ok p s)) d)"
  using handlePush_cases [of m ok p s] by (auto simp: same_core_def)

lemma handleKick_core: "same_core (gtHeap s d) (gtHeap (snd (handleKick p s)) d)"
  using handleKick_cases [of p s] by (auto simp: same_core_def)

lemma closeConnections_simps [simp]:
  "gtNext (closeConnections s) = gtNext s" "gtCfg (closeConnections s) = gtCfg s" "gtSessions (closeConnections s) = gtSessions s"
  "gtConns (closeConnections s) = gtConns s" "gtGame (closeConnections s) = gtGame s" "gtLimiter (closeConnections s) = gtLimiter s"
  by (simp_all add: closeConnections_def)

lemma closeConnections_core: "same_core (gtHeap s d) (gtHeap (closeConnections s) d)"
  by (simp add: closeConnections_def same_core_def)

lemmas conn_step_defs = conn_leave_def conn_detach_def conn_logout_def
lemmas conn_core_facts = handlePush_core [unfolded same_core_def] handleKick_core [unfolded same_core_def] closeConnections_core [unfolded same_core_def]
  conn_read_conn conn_deliver_conn(1,2)

lemma step_cfg [simp]: "gate_step s l s' \<Longrightarrow> gtCfg s' = gtCfg s"
  by (cases rule: gate_step.cases) (auto dest: accept_conn_True accept_conn_False)

lemma step_next: "gate_step s l s' \<Longrightarrow> gtNext s \<le> gtNext s'"
  by (cases rule: gate_step.cases) (auto dest: accept_conn_True accept_conn_False)

lemma run_cfg: "gate_run s ls s' \<Longrightarrow> gtCfg s' = gtCfg s"
  by (induction rule: gate_run.induct) auto

text \<open>The connections after a step: the old ones, and the new one of an accept.\<close>

lemma step_new:
  assumes "gate_step s l s'" and "c < gtNext s'" and "\<not> c < gtNext s"
  shows "\<exists>addr. gtHeap s' c = new_conn addr \<and> c = gtNext s \<and> l = Accepted c"
  using assms
proof (cases rule: gate_step.cases)
  case (accept addr)
  from accept_conn_True [OF accept(2)] show ?thesis using assms accept(1) by (auto simp: less_Suc_eq)
qed (auto dest: accept_conn_False)

text \<open>The identity of a connection changes only when its own loop takes a frame.\<close>

lemma step_state:
  assumes "gate_step s l s'" and "c < gtNext s"
  shows "cnSt (gtHeap s' c) = cnSt (gtHeap s c) \<or>
    (\<exists>E f resp s1. l = Took c E f (token_session E f s) \<and> dispatch E (cnSt (gtHeap s c)) f s = (resp, cnSt (gtHeap s' c), s1))"
  using assms
proof (cases rule: gate_step.cases)
  case (take d f fs E)
  then show ?thesis by (cases "d = c") (auto split: prod.splits)
qed (auto simp: conn_core_facts conn_step_defs Let_def dest: accept_conn_True accept_conn_False split: prod.splits sum.splits)

lemma step_addr:
  assumes "gate_step s l s'" and "c < gtNext s"
  shows "cnAddr (gtHeap s' c) = cnAddr (gtHeap s c)"
  using assms
proof (cases rule: gate_step.cases)
  case (take d f fs E)
  then show ?thesis by (auto split: prod.splits)
qed (auto simp: conn_core_facts conn_step_defs Let_def dest: accept_conn_True accept_conn_False split: prod.splits sum.splits)

text \<open>A connection enters its cleanup only through the table.\<close>

lemma step_leaving:
  assumes "gate_step s l s'" and "c < gtNext s" and "cnPhase (gtHeap s' c) \<in> {Leaving, LoggingOut}"
  shows "cnPhase (gtHeap s c) \<in> {Leaving, LoggingOut} \<or> in_table c s"
  using assms
proof (cases rule: gate_step.cases)
  case (take d f fs E)
  then show ?thesis using assms(2,3) by (auto split: prod.splits if_splits)
next
  case (register d resp was ok)
  then show ?thesis using assms(3) conn_deliver_conn(3) [of d resp was ok s c] by (auto split: if_splits)
next
  case (deliver d resp was ok)
  then show ?thesis using assms(3) conn_deliver_conn(3) [of d resp was ok s c] by (auto split: if_splits)
qed (auto simp: conn_core_facts conn_step_defs Let_def dest: accept_conn_True accept_conn_False split: prod.splits sum.splits if_splits)

section \<open>Identity\<close>

definition logged_in_as :: "gate_label list \<Rightarrow> service_config \<Rightarrow> nat \<Rightarrow> conn_state \<Rightarrow> bool" where
  "logged_in_as ls cfg c st \<longleftrightarrow>
     (\<exists>E f info. Took c E f (Inr info) \<in> set ls \<and> gfCmd f = CmdLogin \<and> identity_of cfg info st)"

definition identity_inv :: "gate_label list \<Rightarrow> gate_srv \<Rightarrow> bool" where
  "identity_inv ls s \<longleftrightarrow> sessions_ok (gtSessions s) \<and>
     (\<forall>c < gtNext s. in_i64 (stRoleID (cnSt (gtHeap s c))) \<and>
        (stAuthed (cnSt (gtHeap s c)) \<longrightarrow> logged_in_as ls (gtCfg s) c (cnSt (gtHeap s c))) \<and>
        (cnPhase (gtHeap s c) \<in> {Leaving, LoggingOut} \<longrightarrow> stAuthed (cnSt (gtHeap s c))))"

lemma session_Load_range: "sessions_ok ss \<Longrightarrow> session_Load oc now token (Some ss) = Inr info \<Longrightarrow> in_i64 (siRoleID info)"
  by (auto simp: session_Load_def sessions_ok_def redis_GET_def split: if_splits option.splits) blast

lemma step_sessions:
  assumes "gate_step s l s'" and "sessions_ok (gtSessions s)"
  shows "sessions_ok (gtSessions s')"
  using assms
proof (cases rule: gate_step.cases)
  case (login l ss)
  then show ?thesis using assms(2) by (auto simp: login_step_entry sessions_ok_def split: if_splits) blast
qed (auto dest: accept_conn_True accept_conn_False)

lemma logged_in_as_more: "logged_in_as ls cfg c st \<Longrightarrow> logged_in_as (ls @ [l]) cfg c st"
  by (auto simp: logged_in_as_def)

lemma identity_old:
  assumes st: "gate_step s l s'" and inv: "identity_inv ls s" and c: "c < gtNext s"
  shows "in_i64 (stRoleID (cnSt (gtHeap s' c))) \<and> (stAuthed (cnSt (gtHeap s' c)) \<longrightarrow> logged_in_as (ls @ [l]) (gtCfg s) c (cnSt (gtHeap s' c)))"
proof -
  have old: "in_i64 (stRoleID (cnSt (gtHeap s c)))" "stAuthed (cnSt (gtHeap s c)) \<Longrightarrow> logged_in_as (ls @ [l]) (gtCfg s) c (cnSt (gtHeap s c))"
    and ss: "sessions_ok (gtSessions s)"
    using inv c logged_in_as_more by (auto simp: identity_inv_def)
  from step_state [OF st c] show ?thesis
  proof
    assume "\<exists>E f resp s1. l = Took c E f (token_session E f s) \<and> dispatch E (cnSt (gtHeap s c)) f s = (resp, cnSt (gtHeap s' c), s1)"
    then obtain E f resp s1 where l: "l = Took c E f (token_session E f s)" and d: "dispatch E (cnSt (gtHeap s c)) f s = (resp, cnSt (gtHeap s' c), s1)" by blast
    have "in_i64 (stRoleID (cnSt (gtHeap s' c)))"
      using dispatch_role [OF d] session_Load_range [OF ss] old(1) by metis
    moreover have "logged_in_as (ls @ [l]) (gtCfg s) c (cnSt (gtHeap s' c))" if a: "stAuthed (cnSt (gtHeap s' c))"
      using dispatch_identity [OF d a]
    proof
      assume "stAuthed (cnSt (gtHeap s c)) \<and> stRoleID (cnSt (gtHeap s' c)) = stRoleID (cnSt (gtHeap s c)) \<and> stZoneID (cnSt (gtHeap s' c)) = stZoneID (cnSt (gtHeap s c))"
      then have "logged_in_as (ls @ [l]) (gtCfg s) c (cnSt (gtHeap s c))"
        "identity_of (gtCfg s) info (cnSt (gtHeap s' c)) = identity_of (gtCfg s) info (cnSt (gtHeap s c))" for info
        using old(2) by (simp_all add: identity_of_def)
      then show ?thesis by (simp add: logged_in_as_def)
    next
      assume "gfCmd f = CmdLogin \<and> (\<exists>info. session_Load (geLoad E) (geNow E) (login_token f) (Some (gtSessions s)) = Inr info \<and> identity_of (gtCfg s) info (cnSt (gtHeap s' c)))"
      then show ?thesis unfolding logged_in_as_def l token_session_def by auto blast
    qed
    ultimately show ?thesis by blast
  qed (use old in simp)
qed

lemma identity_step:
  assumes st: "gate_step s l s'" and inv: "identity_inv ls s"
  shows "identity_inv (ls @ [l]) s'"
proof -
  have "stAuthed (cnSt (gtHeap s' c))" if c: "c < gtNext s" and ph: "cnPhase (gtHeap s' c) \<in> {Leaving, LoggingOut}" for c
  proof -
    have a: "stAuthed (cnSt (gtHeap s c))" and ns: "cnPhase (gtHeap s c) \<noteq> Serving \<or> in_table c s"
      using step_leaving [OF st c ph] inv c by (auto simp: identity_inv_def in_table_def Let_def)
    have "cnSt (gtHeap s' c) = cnSt (gtHeap s c)"
    proof (rule ccontr)
      assume "cnSt (gtHeap s' c) \<noteq> cnSt (gtHeap s c)"
      then obtain E f where "l = Took c E f (token_session E f s)" using step_state [OF st c] by blast
      with st ph show False by (cases rule: gate_step.cases) (auto split: prod.splits)
    qed
    then show ?thesis using a by simp
  qed
  then have old: "in_i64 (stRoleID (cnSt (gtHeap s' c))) \<and> (stAuthed (cnSt (gtHeap s' c)) \<longrightarrow> logged_in_as (ls @ [l]) (gtCfg s) c (cnSt (gtHeap s' c)))
      \<and> (cnPhase (gtHeap s' c) \<in> {Leaving, LoggingOut} \<longrightarrow> stAuthed (cnSt (gtHeap s' c)))" if "c < gtNext s" for c
    using identity_old [OF st inv that] that by blast
  have new: "in_i64 (stRoleID (cnSt (gtHeap s' c))) \<and> \<not> stAuthed (cnSt (gtHeap s' c)) \<and> cnPhase (gtHeap s' c) = Serving" if "c < gtNext s'" "\<not> c < gtNext s" for c
    using step_new [OF st that] by (auto simp: new_conn_def in_i64_def)
  have "sessions_ok (gtSessions s')" using step_sessions [OF st] inv by (simp add: identity_inv_def)
  then show ?thesis using old new st unfolding identity_inv_def step_cfg [OF st] by (metis insertE phase.distinct(5,7) singletonD)
qed

lemma identity_run: "gate_run s ls s' \<Longrightarrow> gate_start s \<Longrightarrow> identity_inv ls s'"
proof (induction rule: gate_run.induct)
  case (start s)
  then show ?case by (simp add: identity_inv_def gate_start_def)
qed (auto intro: identity_step)

lemma step_game:
  assumes st: "gate_step s l s'" and "l \<noteq> Outside" and "gtGame s' \<noteq> gtGame s"
  shows "(\<exists>c E f fs. c < gtNext s \<and> l = Took c E f (token_session E f s) \<and> cnQueue (gtHeap s c) = f # fs \<and> s' = conn_dispatch c E f s) \<or>
    (\<exists>c E. c < gtNext s \<and> l = LoggedOut c \<and> cnPhase (gtHeap s c) = LoggingOut \<and> s' = conn_logout c E s)"
  using assms by (cases rule: gate_step.cases) (auto dest: accept_conn_True accept_conn_False)


section \<open>The connection table\<close>

definition serving :: "conn \<Rightarrow> bool" where
  "serving k \<longleftrightarrow> cnOpen k \<and> (case cnPhase k of Serving \<Rightarrow> True | Replying _ _ \<Rightarrow> True | _ \<Rightarrow> False)"

text \<open>The connection that registered last for a role.\<close>

fun registers :: "int \<Rightarrow> gate_label \<Rightarrow> nat option" where
  "registers r (Registered c r') = (if r' = r then Some c else None)"
| "registers r _ = None"

definition last_registered :: "int \<Rightarrow> gate_label list \<Rightarrow> nat option" where
  "last_registered r ls = foldl (\<lambda>acc l. case registers r l of None \<Rightarrow> acc | Some c \<Rightarrow> Some c) None ls"

lemma last_registered_snoc [simp]:
  "last_registered r (ls @ [l]) = (case registers r l of None \<Rightarrow> last_registered r ls | Some c \<Rightarrow> Some c)"
  by (cases "registers r l") (simp_all add: last_registered_def)

definition table_inv :: "gate_label list \<Rightarrow> gate_srv \<Rightarrow> bool" where
  "table_inv ls s \<longleftrightarrow>
     (\<forall>r c. gtConns s r = Some c \<longrightarrow> c < gtNext s \<and> last_registered r ls = Some c) \<and>
     (\<forall>r c. Registered c r \<in> set ls \<longrightarrow> c < gtNext s \<and> (serving (gtHeap s c) \<longrightarrow> gtConns s r = Some c))"

text \<open>No step but a registration brings a connection back to service.\<close>

lemma step_serving:
  assumes st: "gate_step s l s'" and c: "c < gtNext s" and sv: "serving (gtHeap s' c)"
  shows "serving (gtHeap s c)"
  using st
proof (cases rule: gate_step.cases)
  case (take d f fs E)
  then show ?thesis using sv by (auto simp: serving_def split: prod.splits if_splits)
next
  case (register d resp was ok)
  then show ?thesis using sv by (auto simp: serving_def conn_deliver_eq conn_register_def conn_write_def Let_def split: option.splits if_splits)
next
  case (deliver d resp was ok)
  then show ?thesis using sv by (auto simp: serving_def conn_deliver_eq conn_write_def Let_def split: if_splits)
next
  case (push m ok p)
  then show ?thesis using sv handlePush_cases [of m ok p s] by (auto simp: serving_def split: if_splits)
next
  case (kick p)
  then show ?thesis using sv handleKick_cases [of p s] by (auto simp: serving_def split: if_splits)
next
  case (read d now f)
  then show ?thesis using sv by (auto simp: serving_def conn_read_conn)
qed (use c sv in \<open>auto simp: serving_def conn_step_defs closeConnections_def Let_def dest: accept_conn_True accept_conn_False split: prod.splits sum.splits if_splits\<close>)

lemma register_closes:
  assumes "gtConns s (stRoleID (cnSt (gtHeap s c))) = Some d" and "d \<noteq> c" and "newly_authed c was s"
  shows "\<not> cnOpen (gtHeap (conn_deliver c resp was ok s) d)"
  using assms by (simp add: conn_deliver_eq conn_register_def conn_write_def Let_def)

lemma table_same:
  assumes st: "gate_step s l s'" and inv: "table_inv ls s" and "gtConns s' = gtConns s" and "\<And>r. registers r l = None"
  shows "table_inv (ls @ [l]) s'"
proof -
  have "Registered c r \<noteq> l" for c r using assms(4) [of r] by auto
  moreover have "c < gtNext s \<Longrightarrow> c < gtNext s'" for c using step_next [OF st] by simp
  ultimately show ?thesis
    using inv assms(3,4) step_serving [OF st] by (auto simp: table_inv_def)
qed

lemma table_step:
  assumes st: "gate_step s l s'" and inv: "table_inv ls s"
  shows "table_inv (ls @ [l]) s'"
  using st
proof (cases rule: gate_step.cases)
  case (register c resp was ok)
  let ?r = "stRoleID (cnSt (gtHeap s c))"
  have conns: "gtConns s' = (gtConns s)(?r \<mapsto> c)" using register by simp
  have "gtConns s' r = Some d \<Longrightarrow> d < gtNext s' \<and> last_registered r (ls @ [l]) = Some d" for r d
    using register conns inv by (auto simp: table_inv_def split: if_splits)
  moreover have "d < gtNext s' \<and> (serving (gtHeap s' d) \<longrightarrow> gtConns s' r = Some d)" if "Registered d r \<in> set (ls @ [l])" for r d
  proof (cases "r = ?r \<and> d \<noteq> c")
    case True
    then have old: "Registered d r \<in> set ls" using that register by auto
    have "\<not> serving (gtHeap s' d)"
    proof
      assume sv: "serving (gtHeap s' d)"
      then have "gtConns s ?r = Some d" using old inv step_serving [OF st] True by (auto simp: table_inv_def)
      then show False using register_closes [of s c d was resp ok] True register sv by (simp add: serving_def)
    qed
    then show ?thesis using old inv register by (auto simp: table_inv_def)
  next
    case False
    then show ?thesis using that inv register conns step_serving [OF st, of d] by (auto simp: table_inv_def)
  qed
  ultimately show ?thesis unfolding table_inv_def by blast
next
  case (detach c)
  let ?r = "stRoleID (cnSt (gtHeap s c))"
  have conns: "gtConns s' = (gtConns s)(?r := None)" and at: "gtConns s ?r = Some c" using detach by (auto simp: in_table_def Let_def)
  have "gtConns s' r = Some d \<Longrightarrow> d < gtNext s' \<and> last_registered r (ls @ [l]) = Some d" for r d
    using detach conns inv by (auto simp: table_inv_def split: if_splits)
  moreover have "d < gtNext s' \<and> (serving (gtHeap s' d) \<longrightarrow> gtConns s' r = Some d)" if "Registered d r \<in> set (ls @ [l])" for r d
  proof -
    have "d < gtNext s" and sv: "serving (gtHeap s' d) \<Longrightarrow> gtConns s r = Some d"
      using that inv step_serving [OF st] detach by (auto simp: table_inv_def)
    moreover have "\<not> serving (gtHeap s' c)" using detach by (simp add: serving_def conn_detach_def)
    ultimately show ?thesis using conns at detach by auto
  qed
  ultimately show ?thesis unfolding table_inv_def by blast
qed (use table_same [OF st inv] in \<open>auto dest: accept_conn_True accept_conn_False\<close>)

lemma table_run: "gate_run s ls s' \<Longrightarrow> gate_start s \<Longrightarrow> table_inv ls s'"
proof (induction rule: gate_run.induct)
  case (start s)
  then show ?case by (simp add: table_inv_def gate_start_def)
qed (auto intro: table_step)

text \<open>
  C28. A Gate serves at most one connection per role, the newest one. In every run, of all the
  connections that ever registered for a role at most one is still open and served, and it is the one
  that registered last and the one in the table. A push reaches no other connection: it adds the pushed
  frame to the output of that connection or changes nothing. A kick closes that connection only if it
  names its session, and otherwise changes nothing: a late kick cannot end a newer login.
\<close>

theorem newest_connection_serves:
  assumes "gate_start s0" and "gate_run s0 ls s"
  shows "(\<forall>r c. Registered c r \<in> set ls \<and> serving (gtHeap s c) \<longrightarrow> gtConns s r = Some c \<and> last_registered r ls = Some c) \<and>
    (\<forall>m ok p. snd (handlePush m ok p s) = s \<or> (\<exists>c. gtConns s (json_int64 ''role_id'' p) = Some c \<and> last_registered (json_int64 ''role_id'' p) ls = Some c
        \<and> cnOpen (gtHeap s c) \<and> snd (handlePush m ok p s) = set_conn c (\<lambda>k. k\<lparr>cnOut := cnOut k @ [pushed p]\<rparr>) s)) \<and>
    (\<forall>p. snd (handleKick p s) = s \<or> (\<exists>c. gtConns s (json_int64 ''role_id'' p) = Some c \<and> last_registered (json_int64 ''role_id'' p) ls = Some c
        \<and> cnSessionID (gtHeap s c) = json_string ''session_id'' p \<and> snd (handleKick p s) = set_conn c (\<lambda>k. k\<lparr>cnOpen := False\<rparr>) s))"
proof (intro conjI allI impI)
  have inv: "table_inv ls s" by (rule table_run [OF assms(2,1)])
  then show "gtConns s r = Some c" "last_registered r ls = Some c" if "Registered c r \<in> set ls \<and> serving (gtHeap s c)" for r c
    using that by (auto simp: table_inv_def)
  show "snd (handlePush m ok p s) = s \<or> (\<exists>c. gtConns s (json_int64 ''role_id'' p) = Some c \<and> last_registered (json_int64 ''role_id'' p) ls = Some c
      \<and> cnOpen (gtHeap s c) \<and> snd (handlePush m ok p s) = set_conn c (\<lambda>k. k\<lparr>cnOut := cnOut k @ [pushed p]\<rparr>) s)" for m ok p
    using handlePush_cases [of m ok p s] inv by (auto simp: table_inv_def)
  show "snd (handleKick p s) = s \<or> (\<exists>c. gtConns s (json_int64 ''role_id'' p) = Some c \<and> last_registered (json_int64 ''role_id'' p) ls = Some c
      \<and> cnSessionID (gtHeap s c) = json_string ''session_id'' p \<and> snd (handleKick p s) = set_conn c (\<lambda>k. k\<lparr>cnOpen := False\<rparr>) s)" for p
    using handleKick_cases [of p s] inv by (auto simp: table_inv_def)
qed

section \<open>Connections per address\<close>

definition from_host :: "string \<Rightarrow> gate_srv \<Rightarrow> nat set" where
  "from_host host s = {c. c < gtNext s \<and> cnPhase (gtHeap s c) \<noteq> Ended \<and> addr_host (cnAddr (gtHeap s c)) = host}"

definition limiter_inv :: "gate_srv \<Rightarrow> bool" where
  "limiter_inv s \<longleftrightarrow> 0 < lmMax (gtLimiter s) \<and>
     (\<forall>host. lmCount (gtLimiter s) host = int (card (from_host host s)) \<and> int (card (from_host host s)) \<le> lmMax (gtLimiter s))"

lemma finite_from_host [simp]: "finite (from_host host s)"
  by (rule finite_subset [of _ "{..< gtNext s}"]) (auto simp: from_host_def)

lemma limiter_same:
  assumes "limiter_inv s" and "gtLimiter s' = gtLimiter s" and "gtNext s' = gtNext s"
    and "\<And>c. c < gtNext s \<Longrightarrow> cnAddr (gtHeap s' c) = cnAddr (gtHeap s c) \<and> (cnPhase (gtHeap s' c) = Ended \<longleftrightarrow> cnPhase (gtHeap s c) = Ended)"
  shows "limiter_inv s'"
proof -
  have "from_host host s' = from_host host s" for host using assms(3,4) by (auto simp: from_host_def)
  then show ?thesis using assms(1,2) by (simp add: limiter_inv_def)
qed

lemma limiter_ends:
  assumes inv: "limiter_inv s" and c: "c < gtNext s" "cnPhase (gtHeap s c) \<noteq> Ended"
  shows "limiter_inv (conn_end c s)"
proof -
  let ?h = "addr_host (cnAddr (gtHeap s c))"
  have "from_host host (conn_end c s) = (if host = ?h then from_host host s - {c} else from_host host s)" for host
    by (auto simp: from_host_def)
  moreover have "c \<in> from_host ?h s" using c by (simp add: from_host_def)
  then have "0 < card (from_host ?h s)" by (auto simp: card_gt_0_iff)
  moreover have "card (from_host ?h s - {c}) = card (from_host ?h s) - 1" using \<open>c \<in> from_host ?h s\<close> by simp
  moreover have "int (card (from_host ?h s)) \<le> lmMax (gtLimiter s)" using inv by (simp add: limiter_inv_def)
  then have "int (card (from_host ?h s)) - 1 \<le> lmMax (gtLimiter s)" by simp
  ultimately show ?thesis using inv
    by (auto simp: limiter_inv_def limiter_release_def Let_def of_nat_diff)
qed

lemma limiter_accepts:
  assumes inv: "limiter_inv s" and a: "accept_conn addr s = (True, s')"
  shows "limiter_inv s'"
proof -
  let ?h = "addr_host addr"
  note s' = accept_conn_True [OF a]
  have "from_host host s' = (if host = ?h then insert (gtNext s) (from_host host s) else from_host host s)" for host
    using s' by (auto simp: from_host_def new_conn_def)
  moreover have "gtNext s \<notin> from_host ?h s" by (simp add: from_host_def)
  moreover have "gtLimiter s' = (gtLimiter s)\<lparr>lmCount := (lmCount (gtLimiter s))(?h := lmCount (gtLimiter s) ?h + 1)\<rparr>" "lmCount (gtLimiter s) ?h < lmMax (gtLimiter s)"
    using s' by (auto simp: limiter_acquire_def Let_def split: if_splits)
  ultimately show ?thesis using inv by (auto simp: limiter_inv_def)
qed

lemma conn_deliver_ended:
  assumes "cnPhase (gtHeap s c) = Replying resp was"
  shows "cnPhase (gtHeap (conn_deliver c resp was ok s) d) = Ended \<longleftrightarrow> cnPhase (gtHeap s d) = Ended"
  using conn_deliver_conn(3) [of c resp was ok s d] assms by (auto split: if_splits)

lemma limiter_inv_presence [simp]: "limiter_inv (s\<lparr>gtPresence := ps\<rparr>) = limiter_inv s" "limiter_inv (s\<lparr>gtGame := w\<rparr>) = limiter_inv s"
  by (simp_all add: limiter_inv_def from_host_def)

lemma limiter_step:
  assumes st: "gate_step s l s'" and inv: "limiter_inv s"
  shows "limiter_inv s'"
  using st
proof (cases rule: gate_step.cases)
  case (accept addr)
  then show ?thesis using limiter_accepts [OF inv] by simp
next
  case (refuse addr)
  then show ?thesis using accept_conn_False [of addr s s'] inv by simp
next
  case (take c f fs E)
  then show ?thesis by (intro limiter_same [OF inv]) (auto split: prod.splits)
next
  case (register c resp was ok)
  then show ?thesis by (intro limiter_same [OF inv]) (auto simp: conn_deliver_conn conn_deliver_ended)
next
  case (deliver c resp was ok)
  then show ?thesis by (intro limiter_same [OF inv]) (auto simp: conn_deliver_conn conn_deliver_ended)
next
  case (detach c)
  then show ?thesis by (intro limiter_same [OF inv]) (auto simp: conn_detach_def)
next
  case (quit c)
  then show ?thesis using limiter_ends [OF inv] by (simp add: conn_detach_def)
next
  case (leave c E)
  have "limiter_inv (set_conn c (\<lambda>k. k\<lparr>cnPhase := LoggingOut\<rparr>) s)" using leave by (intro limiter_same [OF inv]) auto
  then show ?thesis using leave limiter_ends [of "s\<lparr>gtPresence := ps\<rparr>" c for ps] inv
    by (auto simp: conn_leave_def Let_def split: prod.split sum.split) (simp add: set_conn_def limiter_inv_def from_host_def)
next
  case (logout c E)
  then show ?thesis using limiter_ends [of "s\<lparr>gtGame := w\<rparr>" c for w] inv by (simp add: conn_logout_def)
qed (auto intro!: limiter_same [OF inv] simp: conn_core_facts split: if_splits)

lemma limiter_acquire_max: "limiter_acquire addr l = (b, l') \<Longrightarrow> lmMax l' = lmMax l"
  by (auto simp: limiter_acquire_def Let_def split: if_splits)

text \<open>
  C29. The limiter counts exactly. In every run of a Gate, the counter of an address equals the number of
  accepted connections of that address whose handler has not finished, in whatever order connections
  come, fail and end; it never exceeds the configured limit (32 when none is configured), and a
  connection is refused exactly when its address has that many.
\<close>

theorem connections_bounded:
  assumes "gate_start s0" and "gate_run s0 ls s"
  shows "\<forall>addr. let n = card (from_host (addr_host addr) s); limit = (if sMaxConnPerIP (gtCfg s0) \<le> 0 then 32 else sMaxConnPerIP (gtCfg s0))
    in lmCount (gtLimiter s) (addr_host addr) = int n \<and> int n \<le> limit \<and> (fst (accept_conn addr s) \<longleftrightarrow> int n < limit)"
proof -
  have "limiter_inv s \<and> lmMax (gtLimiter s) = lmMax (newConnLimiter (sMaxConnPerIP (gtCfg s0)))"
    using assms(2,1)
  proof (induction rule: gate_run.induct)
    case (start s)
    then show ?case by (auto simp: gate_start_def limiter_inv_def newConnLimiter_def from_host_def)
  next
    case (step s ls s' l s'')
    have "lmMax (gtLimiter s'') = lmMax (gtLimiter s')"
      using step.hyps(2) by (cases rule: gate_step.cases)
        (auto simp: conn_step_defs limiter_release_def Let_def dest!: accept_conn_True accept_conn_False limiter_acquire_max split: prod.splits sum.splits if_splits)
    then show ?case using step limiter_step by simp
  qed
  then show ?thesis
    by (auto simp: limiter_inv_def newConnLimiter_def accept_conn_def limiter_acquire_def Let_def split: prod.splits if_splits) (auto intro!: antisym)
qed

section \<open>A run\<close>

text \<open>One connection logs in as role 7 and sends a game message; the game process is the one of the demonstrations.\<close>

definition gate_at :: "nat \<Rightarrow> int \<Rightarrow> conn \<Rightarrow> (int \<Rightarrow> nat option) \<Rightarrow> presence_store \<Rightarrow> gate_srv" where
  "gate_at n count k conns ps =
     \<lparr>gtCfg = zero_config, gtTransport = ''http_pool'', gtInst = ''g1'', gtHTTP = ''h1'',
      gtClient = \<lparr>cResolver = False, cZoneID = 1, cShardCount = 0, cSecret = [], cStrict = False\<rparr>,
      gtSessions = [session_key ''tk_0123456789abcdef'' \<mapsto> (Some \<lparr>siRoleID = 7, siZoneID = 1\<rparr>, None)],
      gtPresence = ps, gtDisc = None, gtLimiter = \<lparr>lmCount = (\<lambda>_. 0)(''local'' := count), lmMax = 32\<rparr>, gtConns = conns,
      gtHeap = (\<lambda>_. new_conn []) (0 := k), gtNext = n, gtKicks = [], gtGame = (\<lambda>_. demo_server)\<rparr>"

definition calm_env :: gate_env where
  "calm_env = \<lparr>geNow = 0, geLater = 0, geLoad = Done, gePresence = Done, geRand = Some [1], geDisc = (Done, \<lambda>_. Done, Done), geShuffle = id,
     geProbe = (\<lambda>_. True), geForward = Done, geCall = demo_call, geBases = (\<lambda>_ _. None)\<rparr>"

definition login_frame :: request where
  "login_frame = \<lparr>gfCmd = CmdLogin, gfAct = ActLogin, gfBody = Some (JObj [(''token'', JStr ''tk_0123456789abcdef'')])\<rparr>"

definition game_frame :: request where
  "game_frame = \<lparr>gfCmd = CmdGame, gfAct = ActPlayerData, gfBody = None\<rparr>"

definition logged_in :: conn_state where
  "logged_in = \<lparr>stRoleID = 7, stZoneID = 1, stSessionID = hex_encode [1], stAuthed = True, stNextRenew = presenceRenewInterval\<rparr>"

definition demo_presences :: presence_store where
  "demo_presences = snd (presence_Store Done 0 (login_record (gate_at 1 1 (new_conn ''local'') Map.empty Map.empty) \<lparr>siRoleID = 7, siZoneID = 1\<rparr> (hex_encode [1])) day Map.empty)"

definition login_ok :: response where
  "login_ok = reply_frame login_frame (JsonBody (JObj [(''code'', JNum 0), (''message'', JStr ''gate login ok''), (''zone_id'', JNum 1)]))"

lemma login_record_gate_at: "login_record (gate_at n ct k conns ps) info sid = login_record (gate_at 1 1 (new_conn ''local'') Map.empty Map.empty) info sid"
  by (simp add: login_record_def gate_at_def)

lemma addr_host_local: "addr_host ''local'' = ''local''"
  by (simp add: addr_host_def SplitHostPort_def LastIndexByte_def)

lemma demo_session:
  "session_Load Done 0 (login_token login_frame) (Some (gtSessions (gate_at n ct k conns ps))) = Inr \<lparr>siRoleID = 7, siZoneID = 1\<rparr>"
  by (simp add: session_Load_def login_token_def login_frame_def gate_at_def redis_GET_def validToken_def json_valid_def same_key_def)

lemma demo_store:
  "presence_Store Done 0 (login_record (gate_at n ct k conns ps) \<lparr>siRoleID = 7, siZoneID = 1\<rparr> (hex_encode [1])) day Map.empty = (Inr no_presence, demo_presences)"
  unfolding demo_presences_def login_record_gate_at [of n ct k conns ps]
  by (simp add: presence_Store_def storeScript_def day_def millis_def redis_GET_def Let_def hex_encode_def)

lemma demo_dispatch:
  "dispatch calm_env (cnSt (new_conn ''local'')) login_frame (gate_at 1 1 k Map.empty Map.empty) = (login_ok, logged_in, gate_at 1 1 k Map.empty demo_presences)"
proof -
  have "login_token login_frame \<noteq> []" by (simp add: login_token_def login_frame_def json_valid_def same_key_def)
  moreover have "\<not> zone_mismatch zero_config \<lparr>siRoleID = 7, siZoneID = 1\<rparr>" by (simp add: zone_mismatch_def zero_config_def)
  ultimately show ?thesis
    using demo_session [of 1 1 k Map.empty Map.empty] demo_store [of 1 1 k Map.empty Map.empty]
    by (simp add: dispatch_def handleLogin_def login_frame_def [THEN arg_cong [where f = gfCmd]] cmd_defs calm_env_def new_conn_def newConnectionSessionID_def
        login_ok_def logged_in_def no_presence_def Let_def) (simp add: gate_at_def)
qed

definition demo_conn :: "request list \<Rightarrow> phase \<Rightarrow> response list \<Rightarrow> conn" where
  "demo_conn fs ph out = (new_conn ''local'')\<lparr>cnQueue := fs, cnPhase := ph, cnOut := out, cnSt := logged_in, cnSessionID := hex_encode [1]\<rparr>"

abbreviation demo_gate :: gate_srv where "demo_gate \<equiv> gate_at 0 0 (new_conn ''local'') Map.empty Map.empty"

abbreviation demo_served :: "request list \<Rightarrow> gate_srv" where
  "demo_served fs \<equiv> gate_at 1 1 (demo_conn fs Serving [login_ok]) [7 \<mapsto> 0] demo_presences"

lemma gate_at_heap [simp]:
  "gtHeap (gate_at n ct k conns ps) 0 = k" "gtNext (gate_at n ct k conns ps) = n" "gtConns (gate_at n ct k conns ps) = conns" "gtCfg (gate_at n ct k conns ps) = zero_config"
  "gtGame (gate_at n ct k conns ps) = (\<lambda>_. demo_server)"
  "set_conn 0 g (gate_at n ct k conns ps) = gate_at n ct (g k) conns ps"
  by (simp_all add: gate_at_def set_conn_def)

lemma gate_at_forward [simp]:
  "forwarder_of (gate_at n ct k conns ps) = http_Forward []" "gtDisc (gate_at n ct k conns ps) = None"
  "(gate_at n ct k conns ps)\<lparr>gtDisc := None\<rparr> = gate_at n ct k conns ps" "gtTransport (gate_at n ct k conns ps) = ''http_pool''"
  by (simp_all add: forwarder_of_def gate_at_def zero_config_def)

lemma gate_at_conns: "(gate_at n ct k conns ps)\<lparr>gtConns := conns'\<rparr> = gate_at n ct k conns' ps"
  by (simp add: gate_at_def)

lemma demo_start: "gate_start demo_gate"
  by (auto simp: gate_start_def gate_at_def newConnLimiter_def zero_config_def sessions_ok_def in_i64_def split: if_splits)

lemma demo_accept: "accept_conn ''local'' demo_gate = (True, gate_at 1 1 (new_conn ''local'') Map.empty Map.empty)"
  by (simp add: accept_conn_def limiter_acquire_def addr_host_local Let_def) (simp add: gate_at_def)

lemma demo_rate [simp]: "conn_read 0 now f (gate_at n ct k conns ps) = gate_at n ct (k\<lparr>cnQueue := cnQueue k @ [f]\<rparr>) conns ps"
  by (simp add: conn_read_def read_step_def MsgRate_def zero_config_def)

definition demo_labels :: "gate_label list" where
  "demo_labels = [Accepted 0, Inner, Took 0 calm_env login_frame (Inr \<lparr>siRoleID = 7, siZoneID = 1\<rparr>), Registered 0 7]"

lemma demo_run: "gate_run demo_gate demo_labels (demo_served [])"
proof -
  let ?k0 = "new_conn ''local''"
  let ?k1 = "?k0\<lparr>cnQueue := [login_frame]\<rparr>"
  let ?k2 = "?k0\<lparr>cnSt := logged_in, cnPhase := Replying login_ok False\<rparr>"
  let ?s1 = "gate_at 1 1 ?k1 Map.empty Map.empty" and ?s2 = "gate_at 1 1 ?k2 Map.empty demo_presences"
  have st: "cnSt ?k1 = cnSt ?k0" "\<not> stAuthed (cnSt ?k0)" "cnPhase ?k1 = Serving" "cnQueue ?k0 = []" "cnReading ?k0" "cnOpen ?k0" by (simp_all add: new_conn_def)
  have a: "gate_step demo_gate (Accepted 0) (gate_at 1 1 ?k0 Map.empty Map.empty)"
    using gate_step.accept [OF demo_accept] by simp
  have b: "gate_step (gate_at 1 1 ?k0 Map.empty Map.empty) Inner ?s1"
    using gate_step.read [of 0 "gate_at 1 1 ?k0 Map.empty Map.empty" 0 login_frame] st by simp
  have "conn_dispatch 0 calm_env login_frame ?s1 = ?s2"
    using demo_dispatch [of ?k1] st by (simp add: conn_dispatch_def Let_def) (simp add: new_conn_def)
  moreover have "token_session calm_env login_frame ?s1 = Inr \<lparr>siRoleID = 7, siZoneID = 1\<rparr>"
    using demo_session [of 1 1 ?k1 Map.empty Map.empty] by (simp add: token_session_def calm_env_def)
  ultimately have c: "gate_step ?s1 (Took 0 calm_env login_frame (Inr \<lparr>siRoleID = 7, siZoneID = 1\<rparr>)) ?s2"
    using gate_step.take [of 0 ?s1 login_frame "[]" calm_env] st by simp
  have n: "newly_authed 0 False ?s2" by (simp add: newly_authed_def logged_in_def)
  have "conn_deliver 0 login_ok False True ?s2 = demo_served []"
    using n st by (simp add: conn_deliver_eq conn_register_def conn_write_def gate_at_conns Let_def) (simp add: demo_conn_def new_conn_def logged_in_def)
  then have d: "gate_step ?s2 (Registered 0 7) (demo_served [])"
    using gate_step.register [of 0 ?s2 login_ok False True] n by (simp add: logged_in_def)
  show ?thesis
    using gate_run.step [OF gate_run.step [OF gate_run.step [OF gate_run.step [OF gate_run.start a] b] c] d] by (simp add: demo_labels_def)
qed

lemma demo_run_game: "gate_run demo_gate (demo_labels @ [Inner]) (demo_served [game_frame])"
proof -
  have "gate_step (demo_served []) Inner (demo_served [game_frame])"
    using gate_step.read [of 0 "demo_served []" 0 game_frame] by (simp add: demo_conn_def new_conn_def)
  then show ?thesis by (rule gate_run.step [OF demo_run])
qed

lemma demo_HandleMsg: "\<exists>v m. HandleMsg Done Admitted Done 5 7 CmdGame ActPlayerData None demo_manager = (Inr v, m) \<and> gPlayers m 7 = Some 0"
proof -
  have "\<not> MutatingAct CmdGame ActPlayerData" by (simp add: MutatingAct_def act_defs)
  moreover have "gPlayers demo_loaded 7 = Some 0" "\<not> pClosed (gHeap demo_loaded 0)" by (simp_all add: demo_loaded_def demo_manager_simps New_def)
  ultimately show ?thesis
    by (simp add: HandleMsg_def demo_Get on_actor_def Invoke_def mailbox_Call_def touch_def handle_task_def Handle_def dropIfStale_def Let_def)
qed

lemma demo_target: "gameTarget fd zero_config ''http_pool'' 7 1 d = (''http://127.0.0.1:9100'', d)"
  by (simp add: gameTarget_def zero_config_def Production_def EqualFold_def fallbackTarget_def Let_def)

lemma demo_game_dispatch: "gtGame (conn_dispatch 0 calm_env game_frame (demo_served [game_frame])) \<noteq> gtGame (demo_served [game_frame])"
proof -
  let ?t = "''http://127.0.0.1:9100''" and ?s = "demo_served [game_frame]"
  obtain v m where h: "HandleMsg Done Admitted Done 5 7 CmdGame ActPlayerData None demo_manager = (Inr v, m)" and p: "gPlayers m 7 = Some 0"
    using demo_HandleMsg by blast
  let ?w = "(\<lambda>_. demo_server)(?t := demo_server\<lparr>gsPlayers := m\<rparr>)"
  have "handlePlayerMsg demo_call (FormatInt 7) (FormatInt (uint CmdGame)) (FormatInt (uint ActPlayerData)) True None demo_server = (ReplyOK v, demo_server\<lparr>gsPlayers := m\<rparr>)"
    using handlePlayerMsg_headers [of 7 demo_call CmdGame ActPlayerData None demo_server "Inr v" m] h by (simp add: demo_call_def demo_server_def in_i64_def)
  moreover have "sInternalSecret (gsCfg demo_server) = []" by (simp add: demo_server_def zero_config_def)
  ultimately have fw: "http_Forward [] Done demo_call ?t 7 1 CmdGame ActPlayerData None (\<lambda>_. demo_server) = (Inr (GameBody v), ?w)"
    by (simp add: http_Forward_def post_msg_def at_target_def internal_HTTPMiddleware_def)
  have "forwardGame calm_env logged_in game_frame ?s = (reply_frame game_frame (GameBody v), ?s\<lparr>gtGame := ?w\<rparr>)"
    using fw by (simp add: forwardGame_def logged_in_def game_frame_def calm_env_def demo_target Let_def)
  moreover have "CmdGame \<noteq> CmdPing" "CmdGame \<noteq> CmdLogin" by (simp_all add: cmd_defs)
  moreover have "stAuthed logged_in" "gfCmd game_frame = CmdGame" by (simp_all add: logged_in_def game_frame_def)
  ultimately have "dispatch calm_env logged_in game_frame ?s = (reply_frame game_frame (GameBody v), logged_in, ?s\<lparr>gtGame := ?w\<rparr>)"
    by (simp add: dispatch_def)
  moreover have "?w \<noteq> (\<lambda>_. demo_server)" using p by (auto simp: demo_server_def demo_manager_simps fun_eq_iff)
  ultimately show ?thesis by (simp add: demo_conn_def)
qed


theorem newest_connection_serves_witness: "last_registered 7 demo_labels = Some 0 \<and> serving (gtHeap (demo_served []) 0)"
proof -
  have "serving (gtHeap (demo_served []) 0)" by (simp add: serving_def demo_conn_def new_conn_def)
  then show ?thesis using newest_connection_serves [OF demo_start demo_run] by (simp add: demo_labels_def)
qed

theorem connections_bounded_witness: "card (from_host ''local'' (demo_served [])) = 1"
proof -
  have "lmCount (gtLimiter (demo_served [])) ''local'' = 1" by (simp add: gate_at_def)
  then show ?thesis using connections_bounded [OF demo_start demo_run] addr_host_local by (auto simp: Let_def dest: spec [of _ "''local''"])
qed

section \<open>Where the Gate falls short\<close>

text \<open>
  A login stores the presence record and enters the table in two steps. Two logins of one role that do
  so in opposite orders leave the older session in the table, close the newer connection and strand the
  role: the older session is refused as stale at its next renewal, and the end of the newer connection,
  which is not in the table, does not remove the record.
\<close>

lemma crossed_logins_strand_role:
  fixes s c d now ttl respd respc okd okc
  defines "r \<equiv> stRoleID (cnSt (gtHeap s c))"
  defines "s1 \<equiv> conn_deliver d respd False okd s"
  defines "s2 \<equiv> conn_deliver c respc False okc s1"
  assumes "c \<noteq> d" and "newly_authed c False s" and "newly_authed d False s" and "stRoleID (cnSt (gtHeap s d)) = r"
    and "redis_GET now (presence_key r) (gtPresence s2) = Some (Some rec)" and "prSessionID rec = stSessionID (cnSt (gtHeap s d))"
    and "stSessionID (cnSt (gtHeap s c)) \<noteq> stSessionID (cnSt (gtHeap s d))"
  shows "gtConns s2 r = Some c \<and> \<not> cnOpen (gtHeap s2 d) \<and> conn_detach d s2 = conn_end d s2
    \<and> fst (presence_Renew Done now r (stSessionID (cnSt (gtHeap s c))) ttl (gtPresence s2)) = Inl ErrStaleSession"
proof -
  have st: "cnSt (gtHeap s1 x) = cnSt (gtHeap s x)" "cnSt (gtHeap s2 x) = cnSt (gtHeap s x)" for x
    by (simp_all add: s1_def s2_def conn_deliver_conn)
  have nc: "newly_authed c False s1" using assms(5) by (simp add: newly_authed_def st)
  have c1: "gtConns s1 (stRoleID (cnSt (gtHeap s1 c))) = Some d" using assms(6,7) unfolding st(1) by (simp add: s1_def r_def)
  have c2: "gtConns s2 r = Some c" using nc by (simp add: s2_def st r_def)
  moreover have "\<not> cnOpen (gtHeap s2 d)" using register_closes [OF c1 _ nc] assms(4) by (simp add: s2_def)
  moreover have "\<not> in_table d s2" using c2 assms(4,7) by (simp add: in_table_def st Let_def)
  moreover have "fst (presence_Renew Done now r (stSessionID (cnSt (gtHeap s c))) ttl (gtPresence s2)) = Inl ErrStaleSession"
    using assms(8-10) by (simp add: presence_Renew_def renewScript_def Let_def)
  ultimately show ?thesis by (simp add: conn_detach_def)
qed

text \<open>
  A connection that was told that it is stale is no longer authenticated, so its end skips the table:
  its entry stays, and points to a connection that has ended.
\<close>

lemma stale_entry_stays:
  assumes "gtConns s r = Some c" and "\<not> stAuthed (cnSt (gtHeap s c))"
  shows "gtConns (conn_detach c s) r = Some c \<and> cnPhase (gtHeap (conn_detach c s) c) = Ended"
  using assms by (simp add: conn_detach_def in_table_def Let_def)

text \<open>
  A frame over the rate is not answered with the error but queued with the error as its body, and the
  loop dispatches it like any other: a game frame is still forwarded.
\<close>

lemma rate_limited_frame_is_forwarded:
  assumes "0 < rate" and "rate < cnWinCount (rate_window now k)" and "gfCmd f = CmdGame" and "stAuthed st"
  defines "g \<equiv> last (cnQueue (read_step now f rate k))"
  shows "gfBody g = Some (errBody 1001 ''rate limited'') \<and> fst (dispatch E st g s) = fst (forwardGame E st g s)"
  using assms by (simp add: read_step_def g_def reply_frame_def dispatch_def cmd_defs Let_def split: prod.split)

end
