(* ===== verification/Login_Service.thy ===== *)
theory Login_Service
  imports Player_Actor Discovery Sessions
begin

text \<open>
  The login service (\<^verbatim>\<open>services/login/internal/server.go\<close>) and the account repository
  (\<^verbatim>\<open>pkg/repo/account.go\<close>): accounts registered on first use, one role per account and zone, the limit on
  login attempts and the session that a login creates. The statements of one request run one after the
  other; other requests run between them (\<open>aeBetween\<close>). The password hash (bcrypt), SHA-256 and the Unicode
  tables of \<^verbatim>\<open>strings.ToLower\<close> are parameters.
\<close>

section \<open>Accounts and the role directory\<close>

record account_row =
  acID :: int
  acHash :: string

record dir_role =
  dID :: int
  dAccountID :: int
  dZoneID :: int
  dName :: string
  dLevel :: int
  dShardID :: int

text \<open>The table \<^verbatim>\<open>accounts\<close> by its unique user name with the sequence of its ids, and \<^verbatim>\<open>role_directory\<close>.\<close>

record acct_db =
  adAccounts :: "string \<Rightarrow> account_row option"
  adSeq :: int
  adRoles :: "dir_role list"

text \<open>\<^verbatim>\<open>INSERT ... ON CONFLICT (username) DO NOTHING RETURNING id\<close>: a conflict uses up an id and returns no row.\<close>

definition insert_account :: "string \<Rightarrow> string \<Rightarrow> acct_db \<Rightarrow> int option res \<times> acct_db" where
  "insert_account username hash db =
     (let i = adSeq db + 1; db = db\<lparr>adSeq := i\<rparr> in
      case adAccounts db username of
        Some _ \<Rightarrow> (Inr None, db)
      | None \<Rightarrow> (Inr (Some i), db\<lparr>adAccounts := (adAccounts db)(username \<mapsto> \<lparr>acID = i, acHash = hash\<rparr>)\<rparr>))"

record account_env =
  aeSelect :: outcome
  aeInsert :: outcome
  aeReread :: outcome
  aeBetween :: "acct_db \<Rightarrow> acct_db"

text \<open>
  The row that is read again after a conflict is read into the outer variables, but the error of the
  first read is in the outer \<^verbatim>\<open>err\<close>, which the inner declaration shadows: the call ends with it.
\<close>

definition Authenticate :: "(string \<Rightarrow> string option) \<Rightarrow> (string \<Rightarrow> string \<Rightarrow> bool) \<Rightarrow> account_env \<Rightarrow> string \<Rightarrow> string \<Rightarrow> acct_db \<Rightarrow> int res \<times> acct_db" where
  "Authenticate HashPassword CheckPassword E username password db =
     (if username = [] \<or> password = [] then (Inl (ErrMsg ''username and password required''), db)
      else if aeSelect E \<noteq> Done then (Inl ErrStore, db)
      else case adAccounts db username of
        Some row \<Rightarrow> if CheckPassword (acHash row) password then (Inr (acID row), db) else (Inl (ErrMsg ''invalid password''), db)
      | None \<Rightarrow>
          (case HashPassword password of
             None \<Rightarrow> (Inl (ErrMsg ''bcrypt''), db)
           | Some newHash \<Rightarrow>
               let db = aeBetween E db in
               (case store_call (aeInsert E) db (insert_account username newHash db) of
                  (Inl e, db) \<Rightarrow> (Inl e, db)
                | (Inr (Some i), db) \<Rightarrow> (Inr i, db)
                | (Inr None, db) \<Rightarrow> (if aeReread E \<noteq> Done then Inl ErrStore else Inl ErrNoRows, db))))"

definition role_of :: "int \<Rightarrow> int \<Rightarrow> acct_db \<Rightarrow> dir_role option" where
  "role_of accountID zoneID db = find (\<lambda>r. dAccountID r = accountID \<and> dZoneID r = zoneID) (adRoles db)"

text \<open>A conflict is with the primary key or with one of the two unique constraints of the table.\<close>

definition role_conflict :: "dir_role \<Rightarrow> dir_role \<Rightarrow> bool" where
  "role_conflict a b \<longleftrightarrow> dID a = dID b \<or> dAccountID a = dAccountID b \<and> dZoneID a = dZoneID b \<or> dZoneID a = dZoneID b \<and> dName a = dName b"

definition insert_role :: "dir_role \<Rightarrow> acct_db \<Rightarrow> dir_role option res \<times> acct_db" where
  "insert_role r db =
     (if list_ex (role_conflict r) (adRoles db) then (Inr None, db) else (Inr (Some r), db\<lparr>adRoles := adRoles db @ [r]\<rparr>))"

definition new_role :: "int \<Rightarrow> int \<Rightarrow> string \<Rightarrow> int \<Rightarrow> dir_role" where
  "new_role accountID zoneID username shardCount =
     (let roleID = i64 (accountID * 10000 + zoneID)
      in \<lparr>dID = roleID, dAccountID = accountID, dZoneID = zoneID, dName = take 32 username, dLevel = 1,
          dShardID = ForRole roleID (if shardCount \<le> 0 then 1 else shardCount)\<rparr>)"

definition GetOrCreateRole :: "account_env \<Rightarrow> int \<Rightarrow> int \<Rightarrow> string \<Rightarrow> int \<Rightarrow> acct_db \<Rightarrow> dir_role res \<times> acct_db" where
  "GetOrCreateRole E accountID zoneID username shardCount db =
     (if aeSelect E \<noteq> Done then (Inl ErrStore, db)
      else case role_of accountID zoneID db of
        Some r \<Rightarrow> (Inr r, db)
      | None \<Rightarrow>
          let db = aeBetween E db in
          (case store_call (aeInsert E) db (insert_role (new_role accountID zoneID username shardCount) db) of
             (Inl e, db) \<Rightarrow> (Inl e, db)
           | (Inr (Some r), db) \<Rightarrow> (Inr r, db)
           | (Inr None, db) \<Rightarrow>
               (if aeReread E \<noteq> Done then Inl ErrStore
                else case role_of accountID zoneID db of None \<Rightarrow> Inl (ErrMsg ''role name is already in use'') | Some r \<Rightarrow> Inr r, db)))"

section \<open>The limit on attempts\<close>

definition redis_INCR :: "int \<Rightarrow> string \<Rightarrow> int redis \<Rightarrow> int \<times> int redis" where
  "redis_INCR now k s =
     (case redis_GET now k s of
        None \<Rightarrow> (1, redis_SET now k 1 None s)
      | Some n \<Rightarrow> (n + 1, s(k := map_option (\<lambda>e. (n + 1, snd e)) (s k))))"

definition loginRateScript :: "int \<Rightarrow> string \<Rightarrow> int redis \<Rightarrow> int res \<times> int redis" where
  "loginRateScript now k s =
     (let (count, s) = redis_INCR now k s
      in (Inr count, if count = 1 then redis_PEXPIRE now k 60000 s else s))"

definition loginAttemptsPerMinute :: int where "loginAttemptsPerMinute = 10"

definition loginRateKey :: "(string \<Rightarrow> string) \<Rightarrow> (string \<Rightarrow> nat list) \<Rightarrow> string \<Rightarrow> string" where
  "loginRateKey lower sha256 username =
     (let sum = sha256 (lower (TrimSpace username)) in ''ng:login:rate:{'' @ hex_encode (take 16 sum) @ ''}'')"

definition loginRateLimited :: "(string \<Rightarrow> string) \<Rightarrow> (string \<Rightarrow> nat list) \<Rightarrow> outcome \<Rightarrow> int \<Rightarrow> string \<Rightarrow> int redis option \<Rightarrow> bool res \<times> int redis option" where
  "loginRateLimited lower sha256 oc now username rdb =
     (case rdb of
        None \<Rightarrow> (Inl (ErrMsg ''redis unavailable''), rdb)
      | Some s \<Rightarrow>
          (case store_call oc s (loginRateScript now (loginRateKey lower sha256 username) s) of
             (Inl e, s) \<Rightarrow> (Inl e, Some s)
           | (Inr count, s) \<Rightarrow> (Inr (loginAttemptsPerMinute < count), Some s)))"

section \<open>The service\<close>

record login_srv =
  lsCfg :: service_config
  lsRate :: "int redis option"
  lsSessions :: "session_store option"
  lsAccounts :: "acct_db option"
  lsRoles :: "role_repo option"
  lsDisc :: "(resolver \<times> registry) option"

record login_env =
  leNow :: int
  leRate :: outcome
  leAuth :: account_env
  leRole :: account_env
  leEnsure :: outcome
  leSave :: outcome
  leRand :: "nat list option"
  leDisc :: disc_faults
  leShuffle :: "service_instance list \<Rightarrow> service_instance list"
  leProbe :: "string \<Rightarrow> bool"

record login_request =
  lqUsername :: string
  lqPassword :: string
  lqZoneId :: int

record crypto =
  crHash :: "string \<Rightarrow> string option"
  crCheck :: "string \<Rightarrow> string \<Rightarrow> bool"
  crSHA256 :: "string \<Rightarrow> nat list"
  crLower :: "string \<Rightarrow> string"

definition RoleRepo_Ensure :: "outcome \<Rightarrow> dir_role \<Rightarrow> role_repo \<Rightarrow> unit res \<times> role_repo" where
  "RoleRepo_Ensure oc r = on_pool (dID r) (Repo_Ensure oc (dID r) (dAccountID r) (dZoneID r) (dName r) (dLevel r))"

definition resolveRole :: "crypto \<Rightarrow> login_env \<Rightarrow> login_request \<Rightarrow> login_srv \<Rightarrow> (int \<times> int) res \<times> login_srv" where
  "resolveRole C E req s =
     (let zoneID = lqZoneId req in
      case lsAccounts s of
        None \<Rightarrow> (Inr (10001, zoneID), s)
      | Some db \<Rightarrow>
          (case Authenticate (crHash C) (crCheck C) (leAuth E) (lqUsername req) (lqPassword req) db of
             (Inl e, db) \<Rightarrow> (Inl e, s\<lparr>lsAccounts := Some db\<rparr>)
           | (Inr accountID, db) \<Rightarrow>
               (case GetOrCreateRole (leRole E) accountID zoneID (lqUsername req) (scShardCount (sScale (lsCfg s))) db of
                  (Inl e, db) \<Rightarrow> (Inl e, s\<lparr>lsAccounts := Some db\<rparr>)
                | (Inr role, db) \<Rightarrow>
                    let s = s\<lparr>lsAccounts := Some db\<rparr> in
                    (case lsRoles s of
                       None \<Rightarrow> (Inl (ErrMsg ''role storage unavailable''), s)
                     | Some rp \<Rightarrow>
                         (case RoleRepo_Ensure (leEnsure E) role rp of
                            (Inl e, rp) \<Rightarrow> (Inl e, s\<lparr>lsRoles := Some rp\<rparr>)
                          | (Inr _, rp) \<Rightarrow> (Inr (dID role, zoneID), s\<lparr>lsRoles := Some rp\<rparr>))))))"

definition login_find :: "login_env \<Rightarrow> string \<Rightarrow> int \<Rightarrow> (resolver \<times> registry) option \<Rightarrow> service_instance option \<times> (resolver \<times> registry) option" where
  "login_find E = Resolve (leDisc E) (leShuffle E) (leProbe E) (leNow E) (leNow E)"

definition gateAddr :: "login_env \<Rightarrow> int \<Rightarrow> login_srv \<Rightarrow> string res \<times> login_srv" where
  "gateAddr E zoneID s =
     (let cfg = lsCfg s; zoneID = (if zoneID = 0 then sZoneID cfg else zoneID);
          (found, d) = (if dcEnabled (sDiscovery cfg) then login_find E ''gate'' zoneID (lsDisc s) else (None, lsDisc s));
          s = s\<lparr>lsDisc := d\<rparr>;
          fallback = (if Production cfg then Inl (ErrMsg ''gate unavailable for zone'') else Inr (if zoneID = 2 then ''127.0.0.1:9010'' else ''127.0.0.1:9000''))
      in (case found of Some inst \<Rightarrow> if inTCPAddr inst \<noteq> [] then Inr (inTCPAddr inst) else fallback | None \<Rightarrow> fallback, s))"

definition newToken :: "nat list option \<Rightarrow> string res" where
  "newToken rnd = (case rnd of None \<Rightarrow> Inl (ErrMsg ''rand'') | Some b \<Rightarrow> Inr (''tk_'' @ hex_encode b))"

definition login_shape :: "(string \<times> json) list" where
  "login_shape = [(''username'', JStr []), (''password'', JStr []), (''zone_id'', JNum 32)]"

definition login_request :: "service_config \<Rightarrow> body \<Rightarrow> login_request" where
  "login_request cfg p =
     (let zone = json_int32 ''zone_id'' p
      in \<lparr>lqUsername = json_string ''username'' p, lqPassword = json_string ''password'' p, lqZoneId = (if zone \<le> 0 then sZoneID cfg else zone)\<rparr>)"

definition bad_credentials :: "login_request \<Rightarrow> bool" where
  "bad_credentials req \<longleftrightarrow> lqUsername req = [] \<or> 64 < length (lqUsername req) \<or> lqPassword req = [] \<or> 72 < length (lqPassword req)"

definition login_code :: "err \<Rightarrow> int" where
  "login_code e = (if e = ErrMsg ''invalid password'' then 1002 else 5000)"

text \<open>After the checks: the role, the Gate, the token and the session. The data of a reply are token, role and Gate address.\<close>

definition login_grant :: "crypto \<Rightarrow> login_env \<Rightarrow> login_request \<Rightarrow> login_srv \<Rightarrow> (string \<times> int \<times> string) reply \<times> login_srv" where
  "login_grant C E req s =
     (case resolveRole C E req s of
        (Inl e, s) \<Rightarrow> (Reply (login_code e), s)
      | (Inr (roleID, zoneID), s) \<Rightarrow>
          (case gateAddr E zoneID s of
             (Inl _, s) \<Rightarrow> (Reply 5000, s)
           | (Inr gate, s) \<Rightarrow>
               (case newToken (leRand E) of
                  Inl _ \<Rightarrow> (Reply 5000, s)
                | Inr token \<Rightarrow>
                    (case session_Save (leSave E) (leNow E) token \<lparr>siRoleID = roleID, siZoneID = zoneID\<rparr> day (lsSessions s) of
                       (Inl _, ss) \<Rightarrow> (Reply 5000, s\<lparr>lsSessions := ss\<rparr>)
                     | (Inr _, ss) \<Rightarrow> (ReplyOK (token, roleID, gate), s\<lparr>lsSessions := ss\<rparr>)))))"

text \<open>The reply to a limited attempt is JSON with status 429.\<close>

definition login_handleLogin :: "crypto \<Rightarrow> login_env \<Rightarrow> bool \<Rightarrow> body \<Rightarrow> login_srv \<Rightarrow> (string \<times> int \<times> string) reply \<times> login_srv" where
  "login_handleLogin C E is_post p s =
     (if \<not> is_post then (HttpError 405, s)
      else if \<not> json_valid login_shape p then (Reply 1001, s)
      else let req = login_request (lsCfg s) p in
        if bad_credentials req then (Reply 1001, s)
        else let (limited, rdb) = loginRateLimited (crLower C) (crSHA256 C) (leRate E) (leNow E) (lqUsername req) (lsRate s); s = s\<lparr>lsRate := rdb\<rparr> in
          case limited of
            Inl _ \<Rightarrow> if Production (lsCfg s) then (HttpError 503, s) else login_grant C E req s
          | Inr True \<Rightarrow> (HttpError 429, s)
          | Inr False \<Rightarrow> login_grant C E req s)"

definition handleEnter :: "outcome \<Rightarrow> int \<Rightarrow> bool \<Rightarrow> body \<Rightarrow> login_srv \<Rightarrow> (int \<times> int) reply" where
  "handleEnter oc now is_post p s =
     (if \<not> is_post then HttpError 405
      else if \<not> json_valid [(''token'', JStr [])] p then Reply 1001
      else case session_Load oc now (json_string ''token'' p) (lsSessions s) of
        Inl _ \<Rightarrow> Reply 1002
      | Inr info \<Rightarrow> ReplyOK (siRoleID info, siZoneID info))"

text \<open>The list of zones; with discovery each entry says whether a Gate is found, and its address.\<close>

fun zone_entries :: "(string \<Rightarrow> int \<Rightarrow> 'd \<Rightarrow> service_instance option \<times> 'd) \<Rightarrow> (int \<times> string) list \<Rightarrow> 'd \<Rightarrow> (int \<times> string \<times> string option option) list \<times> 'd" where
  "zone_entries lookup [] d = ([], d)"
| "zone_entries lookup ((i, name) # zs) d =
     (let (found, d) = lookup ''gate'' i d; (rest, d) = zone_entries lookup zs d in ((i, name, Some (map_option inTCPAddr found)) # rest, d))"

definition handleZones :: "login_env \<Rightarrow> login_srv \<Rightarrow> (int \<times> string \<times> string option option) list reply \<times> login_srv" where
  "handleZones E s =
     (if dcEnabled (sDiscovery (lsCfg s))
      then (let (zs, d) = zone_entries (login_find E) Catalog (lsDisc s) in (ReplyOK zs, s\<lparr>lsDisc := d\<rparr>))
      else (ReplyOK (map (\<lambda>(i, name). (i, name, None)) Catalog), s))"

section \<open>Accounts and roles never change hands\<close>

definition acct_ok :: "acct_db \<Rightarrow> bool" where
  "acct_ok db \<longleftrightarrow> (\<forall>u row. adAccounts db u = Some row \<longrightarrow> acID row \<le> adSeq db) \<and>
     (\<forall>u v a b. adAccounts db u = Some a \<longrightarrow> adAccounts db v = Some b \<longrightarrow> acID a = acID b \<longrightarrow> u = v) \<and>
     distinct (map dID (adRoles db))"

definition acct_le :: "acct_db \<Rightarrow> acct_db \<Rightarrow> bool" where
  "acct_le db db' \<longleftrightarrow> adAccounts db \<subseteq>\<^sub>m adAccounts db' \<and> set (adRoles db) \<subseteq> set (adRoles db') \<and> adSeq db \<le> adSeq db'"

lemma acct_le_refl [simp]: "acct_le db db"
  by (simp add: acct_le_def)

lemma acct_le_trans [trans]: "acct_le a b \<Longrightarrow> acct_le b c \<Longrightarrow> acct_le a c"
  by (auto simp: acct_le_def intro: map_le_trans)

text \<open>What other requests may do between two statements.\<close>

definition steady :: "account_env \<Rightarrow> bool" where
  "steady E \<longleftrightarrow> (\<forall>db. acct_ok db \<longrightarrow> acct_ok (aeBetween E db) \<and> acct_le db (aeBetween E db))"

lemma insert_account_ok:
  assumes "acct_ok db" and "insert_account u h db = (x, db')"
  shows "acct_ok db' \<and> acct_le db db' \<and> (\<forall>i. x = Inr (Some i) \<longrightarrow> adAccounts db' u = Some \<lparr>acID = i, acHash = h\<rparr>)"
  using assms by (fastforce simp: insert_account_def acct_ok_def acct_le_def map_le_def Let_def split: option.splits if_splits)

lemma insert_role_ok:
  assumes "acct_ok db" and "insert_role r db = (x, db')"
  shows "acct_ok db' \<and> acct_le db db' \<and> (\<forall>q. x = Inr (Some q) \<longrightarrow> q = r \<and> r \<in> set (adRoles db'))"
  using assms by (auto simp: insert_role_def acct_ok_def acct_le_def list_ex_iff role_conflict_def split: if_splits)

text \<open>A property of the store that both the attempt and its loss keep.\<close>

lemma store_call_cases:
  assumes "store_call oc s r = (x, s')"
  shows "s' \<in> {s, snd r} \<and> (\<forall>v. x = Inr v \<longrightarrow> r = (Inr v, s'))"
  using assms by (cases oc; cases r) auto

lemma Authenticate_ok:
  assumes ok: "acct_ok db" and E: "steady E" and a: "Authenticate H C E u p db = (x, db')"
  shows "acct_ok db' \<and> acct_le db db' \<and>
    (\<forall>i. x = Inr i \<longrightarrow> (\<exists>row. adAccounts db' u = Some row \<and> acID row = i \<and> (C (acHash row) p \<or> H p = Some (acHash row))))"
proof (cases "adAccounts db u")
  case (Some row)
  then show ?thesis using a ok by (auto simp: Authenticate_def split: if_splits)
next
  case None
  let ?db = "aeBetween E db"
  have mid: "acct_ok ?db" "acct_le db ?db" using ok E by (auto simp: steady_def)
  show ?thesis
  proof (cases "u = [] \<or> p = [] \<or> aeSelect E \<noteq> Done \<or> H p = None")
    case True
    then show ?thesis using a ok None by (auto simp: Authenticate_def split: if_splits)
  next
    case False
    then obtain h where h: "H p = Some h" by blast
    obtain y db1 where sc: "store_call (aeInsert E) ?db (insert_account u h ?db) = (y, db1)" by fastforce
    obtain z db2 where ins: "insert_account u h ?db = (z, db2)" by fastforce
    note io = insert_account_ok [OF mid(1) ins]
    have db1: "acct_ok db1" "acct_le db db1" using store_call_cases [OF sc] io mid acct_le_trans by (auto simp: ins)
    have got: "adAccounts db1 u = Some \<lparr>acID = i, acHash = h\<rparr>" if "y = Inr (Some i)" for i
      using store_call_cases [OF sc] io that by (simp add: ins)
    have "db' = db1" "\<forall>i. x = Inr i \<longrightarrow> y = Inr (Some i)"
      using a sc False None h by (auto simp: Authenticate_def Let_def split: sum.splits option.splits if_splits)
    then show ?thesis using db1 got h by auto
  qed
qed

lemma role_of_Some: "role_of a z db = Some r \<Longrightarrow> r \<in> set (adRoles db) \<and> dAccountID r = a \<and> dZoneID r = z"
  by (auto simp: role_of_def find_Some_iff)

lemma GetOrCreateRole_ok:
  assumes ok: "acct_ok db" and E: "steady E" and g: "GetOrCreateRole E a z u n db = (x, db')"
  shows "acct_ok db' \<and> acct_le db db' \<and> (\<forall>r. x = Inr r \<longrightarrow> r \<in> set (adRoles db') \<and> dAccountID r = a \<and> dZoneID r = z)"
proof (cases "aeSelect E \<noteq> Done \<or> role_of a z db \<noteq> None")
  case True
  then show ?thesis using g ok by (auto simp: GetOrCreateRole_def split: if_splits dest: role_of_Some)
next
  case False
  let ?db = "aeBetween E db" and ?r = "new_role a z u n"
  have mid: "acct_ok ?db" "acct_le db ?db" using ok E by (auto simp: steady_def)
  obtain y db1 where sc: "store_call (aeInsert E) ?db (insert_role ?r ?db) = (y, db1)" by fastforce
  obtain w db2 where ins: "insert_role ?r ?db = (w, db2)" by fastforce
  note io = insert_role_ok [OF mid(1) ins]
  have db1: "acct_ok db1" "acct_le db db1" using store_call_cases [OF sc] io mid acct_le_trans by (auto simp: ins)
  have r: "dAccountID ?r = a" "dZoneID ?r = z" by (simp_all add: new_role_def Let_def)
  have got: "q = ?r \<and> ?r \<in> set (adRoles db1)" if "y = Inr (Some q)" for q
    using store_call_cases [OF sc] io that by (simp add: ins)
  have "db' = db1" "\<forall>q. x = Inr q \<longrightarrow> y = Inr (Some q) \<or> role_of a z db1 = Some q"
    using g sc False by (auto simp: GetOrCreateRole_def Let_def split: sum.splits option.splits if_splits)
  then show ?thesis using db1 got r role_of_Some by metis
qed

text \<open>What a successful login leaves behind for good: the account, its password, its role.\<close>

definition owns_role :: "crypto \<Rightarrow> login_request \<Rightarrow> int \<Rightarrow> acct_db \<Rightarrow> bool" where
  "owns_role C req role db \<longleftrightarrow>
     (\<exists>row r. adAccounts db (lqUsername req) = Some row \<and> crCheck C (acHash row) (lqPassword req) \<and>
        r \<in> set (adRoles db) \<and> dID r = role \<and> dAccountID r = acID row \<and> dZoneID r = lqZoneId req)"

lemma owns_role_mono: "owns_role C req role db \<Longrightarrow> acct_le db db' \<Longrightarrow> owns_role C req role db'"
  unfolding owns_role_def acct_le_def by (metis map_le_def domI subsetD)

text \<open>bcrypt: a password matches the hash made from it.\<close>

definition hash_checks :: "crypto \<Rightarrow> bool" where
  "hash_checks C \<longleftrightarrow> (\<forall>p h. crHash C p = Some h \<longrightarrow> crCheck C h p)"

definition steady_login :: "login_env \<Rightarrow> bool" where
  "steady_login E \<longleftrightarrow> steady (leAuth E) \<and> steady (leRole E)"

lemma resolveRole_ok:
  assumes C: "hash_checks C" and E: "steady_login E" and db: "lsAccounts s = Some db" "acct_ok db" and r: "resolveRole C E req s = (x, s')"
  shows "\<exists>db'. lsAccounts s' = Some db' \<and> acct_ok db' \<and> acct_le db db' \<and> lsCfg s' = lsCfg s \<and> lsSessions s' = lsSessions s \<and>
    (\<forall>role zone. x = Inr (role, zone) \<longrightarrow> zone = lqZoneId req \<and> owns_role C req role db')"
proof -
  obtain y db1 where a: "Authenticate (crHash C) (crCheck C) (leAuth E) (lqUsername req) (lqPassword req) db = (y, db1)" by fastforce
  have a1: "acct_ok db1" "acct_le db db1"
    and row: "\<And>i. y = Inr i \<Longrightarrow> \<exists>row. adAccounts db1 (lqUsername req) = Some row \<and> acID row = i \<and> crCheck C (acHash row) (lqPassword req)"
    using Authenticate_ok [OF db(2) _ a] E C by (auto simp: steady_login_def hash_checks_def)
  show ?thesis
  proof (cases y)
    case (Inl e)
    then show ?thesis using r a a1 db by (auto simp: resolveRole_def Let_def)
  next
    case (Inr i)
    obtain z db2 where g: "GetOrCreateRole (leRole E) i (lqZoneId req) (lqUsername req) (scShardCount (sScale (lsCfg s))) db1 = (z, db2)" by fastforce
    have g1: "acct_ok db2" "acct_le db1 db2" and rl: "\<And>q. z = Inr q \<Longrightarrow> q \<in> set (adRoles db2) \<and> dAccountID q = i \<and> dZoneID q = lqZoneId req"
      using GetOrCreateRole_ok [OF a1(1) _ g] E by (auto simp: steady_login_def)
    have le: "acct_le db db2" using a1(2) g1(2) acct_le_trans by blast
    have own: "owns_role C req (dID q) db2" if "z = Inr q" for q
    proof -
      obtain row where "adAccounts db1 (lqUsername req) = Some row" "acID row = i" "crCheck C (acHash row) (lqPassword req)" using row [OF Inr] by blast
      moreover have "adAccounts db2 (lqUsername req) = adAccounts db1 (lqUsername req)" using g1(2) calculation(1) by (metis acct_le_def map_le_def domI)
      ultimately show ?thesis using rl [OF that] by (auto simp: owns_role_def)
    qed
    have "lsAccounts s' = Some db2 \<and> lsCfg s' = lsCfg s \<and> lsSessions s' = lsSessions s" "\<forall>role zone. x = Inr (role, zone) \<longrightarrow> zone = lqZoneId req \<and> (\<exists>q. z = Inr q \<and> dID q = role)"
      using r db(1) a Inr g by (auto simp: resolveRole_def Let_def split: sum.splits option.splits prod.splits)
    then show ?thesis using g1(1) le own by blast
  qed
qed

lemma gateAddr_state: "gateAddr E z s = (x, s') \<Longrightarrow> lsAccounts s' = lsAccounts s \<and> lsCfg s' = lsCfg s \<and> lsSessions s' = lsSessions s"
  by (auto simp: gateAddr_def Let_def split: prod.splits)

lemma login_grant_ok:
  assumes C: "hash_checks C" and E: "steady_login E" and db: "lsAccounts s = Some db" "acct_ok db" and g: "login_grant C E req s = (x, s')"
  shows "\<exists>db'. lsAccounts s' = Some db' \<and> acct_ok db' \<and> acct_le db db' \<and> lsCfg s' = lsCfg s \<and>
    (\<forall>token role gate. x = ReplyOK (token, role, gate) \<longrightarrow> owns_role C req role db' \<and>
       session_Save (leSave E) (leNow E) token \<lparr>siRoleID = role, siZoneID = lqZoneId req\<rparr> day (lsSessions s) = (Inr (), lsSessions s'))"
proof -
  obtain y s1 where r: "resolveRole C E req s = (y, s1)" by fastforce
  obtain db1 where db1: "lsAccounts s1 = Some db1" "acct_ok db1" "acct_le db db1" "lsCfg s1 = lsCfg s" "lsSessions s1 = lsSessions s"
    and own: "\<And>role zone. y = Inr (role, zone) \<Longrightarrow> zone = lqZoneId req \<and> owns_role C req role db1"
    using resolveRole_ok [OF C E db r] by blast
  show ?thesis
  proof (cases y)
    case (Inl e)
    then show ?thesis using g r db1 by (auto simp: login_grant_def)
  next
    case (Inr rz)
    obtain role where rz: "rz = (role, lqZoneId req)" "owns_role C req role db1" using own Inr by (cases rz) auto
    obtain w s2 where ga: "gateAddr E (lqZoneId req) s1 = (w, s2)" by fastforce
    note gs = gateAddr_state [OF ga]
    have "lsAccounts s' = Some db1 \<and> lsCfg s' = lsCfg s" "\<forall>token role' gate. x = ReplyOK (token, role', gate) \<longrightarrow> role' = role \<and>
        session_Save (leSave E) (leNow E) token \<lparr>siRoleID = role, siZoneID = lqZoneId req\<rparr> day (lsSessions s) = (Inr (), lsSessions s')"
      using g r Inr rz ga gs db1 by (auto simp: login_grant_def split: sum.splits prod.splits)
    then show ?thesis using db1 rz(2) by auto
  qed
qed

lemma handleLogin_ok:
  assumes C: "hash_checks C" and E: "steady_login E" and db: "lsAccounts s = Some db" "acct_ok db" and h: "login_handleLogin C E m p s = (x, s')"
  shows "\<exists>db'. lsAccounts s' = Some db' \<and> acct_ok db' \<and> acct_le db db' \<and> lsCfg s' = lsCfg s \<and>
    (\<forall>token role gate. x = ReplyOK (token, role, gate) \<longrightarrow> owns_role C (login_request (lsCfg s) p) role db' \<and>
       session_Save (leSave E) (leNow E) token \<lparr>siRoleID = role, siZoneID = lqZoneId (login_request (lsCfg s) p)\<rparr> day (lsSessions s) = (Inr (), lsSessions s'))"
proof -
  let ?req = "login_request (lsCfg s) p"
  obtain lim rdb where l: "loginRateLimited (crLower C) (crSHA256 C) (leRate E) (leNow E) (lqUsername ?req) (lsRate s) = (lim, rdb)" by fastforce
  let ?s = "s\<lparr>lsRate := rdb\<rparr>"
  have "login_handleLogin C E m p s = login_grant C E ?req ?s \<or> (\<exists>n. login_handleLogin C E m p s \<in> {(HttpError n, s), (Reply n, s), (HttpError n, ?s)})"
    using l by (simp add: login_handleLogin_def Let_def split: sum.split bool.split) blast
  then show ?thesis
  proof
    assume "login_handleLogin C E m p s = login_grant C E ?req ?s"
    then show ?thesis using login_grant_ok [OF C E, of ?s db ?req x s'] db h by fastforce
  qed (use h db in auto)
qed

text \<open>A history of login requests, each with its faults and with what ran between its statements.\<close>

fun login_run :: "crypto \<Rightarrow> (login_env \<times> body) list \<Rightarrow> login_srv \<Rightarrow> (string \<times> int \<times> string) reply list \<times> login_srv" where
  "login_run C [] s = ([], s)"
| "login_run C ((E, p) # qs) s =
     (let (x, s) = login_handleLogin C E True p s; (xs, s) = login_run C qs s in (x # xs, s))"

lemma login_run_ok:
  assumes "hash_checks C" and "\<forall>q \<in> set qs. steady_login (fst q)" and "lsAccounts s = Some db" and "acct_ok db" and "login_run C qs s = (xs, s')"
  shows "\<exists>db'. lsAccounts s' = Some db' \<and> acct_ok db' \<and> acct_le db db' \<and>
    (\<forall>i token role gate. i < length qs \<longrightarrow> xs ! i = ReplyOK (token, role, gate) \<longrightarrow> owns_role C (login_request (lsCfg s) (snd (qs ! i))) role db')"
  using assms
proof (induction qs arbitrary: s db xs s')
  case Nil
  then show ?case by auto
next
  case (Cons q qs)
  obtain E p where q: "q = (E, p)" by (cases q)
  obtain x s1 where h: "login_handleLogin C E True p s = (x, s1)" by fastforce
  obtain ys s2 where r: "login_run C qs s1 = (ys, s2)" by fastforce
  have xs: "xs = x # ys" "s' = s2" using Cons.prems(5) q h r by auto
  have st: "steady_login E" "\<forall>q \<in> set qs. steady_login (fst q)" using Cons.prems(2) q by auto
  obtain db1 where db1: "lsAccounts s1 = Some db1" "acct_ok db1" "acct_le db db1" "lsCfg s1 = lsCfg s"
    and own: "\<And>token role gate. x = ReplyOK (token, role, gate) \<Longrightarrow> owns_role C (login_request (lsCfg s) p) role db1"
    using handleLogin_ok [OF Cons.prems(1) st(1) Cons.prems(3,4) h] by blast
  obtain db2 where db2: "lsAccounts s2 = Some db2" "acct_ok db2" "acct_le db1 db2"
    and later: "\<And>i token role gate. i < length qs \<Longrightarrow> ys ! i = ReplyOK (token, role, gate) \<Longrightarrow> owns_role C (login_request (lsCfg s) (snd (qs ! i))) role db2"
    using Cons.IH [OF Cons.prems(1) st(2) db1(1,2) r] db1(4) by auto
  have "owns_role C (login_request (lsCfg s) (snd ((q # qs) ! i))) role db2"
    if "i < length (q # qs)" "xs ! i = ReplyOK (token, role, gate)" for i token role gate
    using that own owns_role_mono [OF _ db2(3)] later xs q by (cases i) auto
  then show ?case using xs db2 acct_le_trans [OF db1(3) db2(3)] by blast
qed

text \<open>
  C30. A role is reached with one password only. Take any history of login requests, with any faults and
  with any other logins between the statements of each, and any password hash under which a password
  matches its own hash. If two of the requests succeed and get the same role, they named the same user
  and the same zone, and both passwords match the one hash stored for that user: whoever registered the
  account first decides who plays its roles.
\<close>

theorem role_needs_its_password:
  assumes "hash_checks C" and "\<forall>q \<in> set qs. steady_login (fst q)" and "lsAccounts s = Some db" and "acct_ok db" and "login_run C qs s = (xs, s')"
    and "i < length qs" and "j < length qs" and "xs ! i = ReplyOK (t1, role, g1)" and "xs ! j = ReplyOK (t2, role, g2)"
  shows "let a = login_request (lsCfg s) (snd (qs ! i)); b = login_request (lsCfg s) (snd (qs ! j)) in
    lqUsername a = lqUsername b \<and> lqZoneId a = lqZoneId b \<and> 
    (\<exists>db' row. lsAccounts s' = Some db' \<and> adAccounts db' (lqUsername a) = Some row \<and> crCheck C (acHash row) (lqPassword a) \<and> crCheck C (acHash row) (lqPassword b))"
proof -
  let ?a = "login_request (lsCfg s) (snd (qs ! i))" and ?b = "login_request (lsCfg s) (snd (qs ! j))"
  obtain db' where db': "lsAccounts s' = Some db'" and ok: "acct_ok db'" and own: "owns_role C ?a role db'" "owns_role C ?b role db'"
    using login_run_ok [OF assms(1-5)] assms(6-9) by blast
  obtain ra qa rb qb where a: "adAccounts db' (lqUsername ?a) = Some ra" "crCheck C (acHash ra) (lqPassword ?a)" "qa \<in> set (adRoles db')" "dID qa = role" "dAccountID qa = acID ra" "dZoneID qa = lqZoneId ?a"
    and b: "adAccounts db' (lqUsername ?b) = Some rb" "crCheck C (acHash rb) (lqPassword ?b)" "qb \<in> set (adRoles db')" "dID qb = role" "dAccountID qb = acID rb" "dZoneID qb = lqZoneId ?b"
    using own by (auto simp: owns_role_def)
  have q: "qa = qb" using ok a(3,4) b(3,4) by (auto simp: acct_ok_def distinct_map dest: inj_onD)
  then have u: "lqUsername ?a = lqUsername ?b" using ok a b by (auto simp: acct_ok_def)
  then have "ra = rb" using a(1) b(1) by simp
  then show ?thesis using u q a b db' by (auto simp: Let_def)
qed

definition plain_crypto :: crypto where
  "plain_crypto = \<lparr>crHash = Some, crCheck = (=), crSHA256 = (\<lambda>s. map of_char s), crLower = id\<rparr>"

definition quiet_account :: account_env where
  "quiet_account = \<lparr>aeSelect = Done, aeInsert = Done, aeReread = Done, aeBetween = id\<rparr>"

definition quiet_login :: "nat \<Rightarrow> login_env" where
  "quiet_login b = \<lparr>leNow = 0, leRate = Done, leAuth = quiet_account, leRole = quiet_account, leEnsure = Done, leSave = Done,
     leRand = Some (replicate 16 b), leDisc = (Done, \<lambda>_. Done, Done), leShuffle = id, leProbe = (\<lambda>_. True)\<rparr>"

definition demo_login :: login_srv where
  "demo_login = \<lparr>lsCfg = zero_config, lsRate = None, lsSessions = Some Map.empty,
     lsAccounts = Some \<lparr>adAccounts = Map.empty, adSeq = 0, adRoles = []\<rparr>, lsRoles = Some demo_repo, lsDisc = None\<rparr>"

definition demo_credentials :: body where
  "demo_credentials = Some (JObj [(''username'', JStr ''ann''), (''password'', JStr ''pw'')])"

lemma demo_request: "login_request zero_config demo_credentials = \<lparr>lqUsername = ''ann'', lqPassword = ''pw'', lqZoneId = 1\<rparr>" "json_valid login_shape demo_credentials"
  by (simp_all add: login_request_def demo_credentials_def json_string_def json_int32_def read_field_def Json_Values.fields_def same_key_def lower_char_def
      zero_config_def json_valid_def login_shape_def)

lemma steady_quiet: "steady quiet_account"
  by (simp add: steady_def quiet_account_def)

lemma length_hex_encode: "length (hex_encode bs) = 2 * length bs"
  by (induction bs) (simp_all add: hex_encode_def)

lemma demo_role: "new_role 1 1 ''ann'' 0 = \<lparr>dID = 10001, dAccountID = 1, dZoneID = 1, dName = ''ann'', dLevel = 1, dShardID = 0\<rparr>"
  by (simp add: new_role_def ForRole_def go_rem_def i64_def i32_def)

lemma demo_step:
  assumes "lsAccounts s = Some db" and "lsRate s = None" and "lsSessions s = Some ss" and "lsRoles s = Some rp" and "lsCfg s = zero_config"
    and "Authenticate Some (=) quiet_account ''ann'' ''pw'' db = (Inr 1, db1)" and "GetOrCreateRole quiet_account 1 1 ''ann'' 0 db1 = (Inr (new_role 1 1 ''ann'' 0), db2)"
  shows "\<exists>t g s'. login_handleLogin plain_crypto (quiet_login b) True demo_credentials s = (ReplyOK (t, 10001, g), s') \<and>
    lsAccounts s' = Some db2 \<and> lsRate s' = None \<and> (\<exists>ss. lsSessions s' = Some ss) \<and> (\<exists>rp. lsRoles s' = Some rp) \<and> lsCfg s' = zero_config"
proof -
  let ?req = "\<lparr>lqUsername = ''ann'', lqPassword = ''pw'', lqZoneId = 1\<rparr>"
  have z: "\<not> Production zero_config" "\<not> dcEnabled (sDiscovery zero_config)" "scShardCount (sScale zero_config) = 0"
    by (simp_all add: zero_config_def Production_def EqualFold_def)
  have e: "\<exists>rp'. RoleRepo_Ensure Done r rp = (Inr (), rp')" for r
    by (auto simp: RoleRepo_Ensure_def on_pool_eq Repo_Ensure_def split: option.split)
  obtain rp' where rp': "RoleRepo_Ensure Done (new_role 1 1 ''ann'' 0) rp = (Inr (), rp')" using e by blast
  have rr: "resolveRole plain_crypto (quiet_login b) ?req s = (Inr (10001, 1), s\<lparr>lsAccounts := Some db2, lsRoles := Some rp'\<rparr>)"
    using assms z rp' by (simp add: resolveRole_def plain_crypto_def quiet_login_def demo_role Let_def)
  have g: "gateAddr (quiet_login b) 1 s1 = (Inr ''127.0.0.1:9000'', s1)" if "lsCfg s1 = zero_config" for s1 :: login_srv
    using that z by (simp add: gateAddr_def Let_def)
  have "login_grant plain_crypto (quiet_login b) ?req s =
      (ReplyOK (''tk_'' @ hex_encode (replicate 16 b), 10001, ''127.0.0.1:9000''),
       s\<lparr>lsAccounts := Some db2, lsRoles := Some rp', lsSessions := Some (redis_SET 0 (session_key (''tk_'' @ hex_encode (replicate 16 b))) (Some \<lparr>siRoleID = 10001, siZoneID = 1\<rparr>) (Some (ttl_ms day)) ss)\<rparr>)"
    using assms rr g by (simp add: login_grant_def newToken_def quiet_login_def session_Save_def validToken_def length_hex_encode day_def Let_def)
  moreover have "login_handleLogin plain_crypto (quiet_login b) True demo_credentials s = login_grant plain_crypto (quiet_login b) ?req s"
  proof -
    have same: "s\<lparr>lsRate := None\<rparr> = s" using assms(2) by (cases s) simp
    have "login_handleLogin plain_crypto (quiet_login b) True demo_credentials s = login_grant plain_crypto (quiet_login b) ?req (s\<lparr>lsRate := None\<rparr>)"
      using assms(2,5) z demo_request by (simp add: login_handleLogin_def bad_credentials_def loginRateLimited_def)
    then show ?thesis unfolding same .
  qed
  ultimately show ?thesis using assms by simp
qed

theorem role_needs_its_password_witness:
  "\<exists>s' db'. snd (login_run plain_crypto [(quiet_login 1, demo_credentials), (quiet_login 2, demo_credentials)] demo_login) = s' \<and> lsAccounts s' = Some db' \<and>
     map_option acHash (adAccounts db' ''ann'') = Some ''pw''"
proof -
  let ?r = "new_role 1 1 ''ann'' 0"
  let ?db0 = "\<lparr>adAccounts = Map.empty, adSeq = 0, adRoles = []\<rparr>" and ?db1 = "\<lparr>adAccounts = [''ann'' \<mapsto> \<lparr>acID = 1, acHash = ''pw''\<rparr>], adSeq = 1, adRoles = []\<rparr>"
    and ?db2 = "\<lparr>adAccounts = [''ann'' \<mapsto> \<lparr>acID = 1, acHash = ''pw''\<rparr>], adSeq = 1, adRoles = [?r]\<rparr>"
  have a: "Authenticate Some (=) quiet_account ''ann'' ''pw'' ?db0 = (Inr 1, ?db1)" "Authenticate Some (=) quiet_account ''ann'' ''pw'' ?db2 = (Inr 1, ?db2)"
    by (simp_all add: Authenticate_def quiet_account_def insert_account_def Let_def)
  have g: "GetOrCreateRole quiet_account 1 1 ''ann'' 0 ?db1 = (Inr ?r, ?db2)" "GetOrCreateRole quiet_account 1 1 ''ann'' 0 ?db2 = (Inr ?r, ?db2)"
    by (simp_all add: GetOrCreateRole_def quiet_account_def role_of_def insert_role_def demo_role)
  have d0: "lsAccounts demo_login = Some ?db0" "lsRate demo_login = None" "lsSessions demo_login = Some Map.empty" "lsRoles demo_login = Some demo_repo" "lsCfg demo_login = zero_config"
    by (simp_all add: demo_login_def)
  obtain t1 g1 s1 where s1: "login_handleLogin plain_crypto (quiet_login 1) True demo_credentials demo_login = (ReplyOK (t1, 10001, g1), s1)"
      "lsAccounts s1 = Some ?db2" "lsRate s1 = None" "\<exists>ss. lsSessions s1 = Some ss" "\<exists>rp. lsRoles s1 = Some rp" "lsCfg s1 = zero_config"
    using demo_step [OF d0 a(1) g(1), of 1] by blast
  obtain t2 g2 s2 where s2: "login_handleLogin plain_crypto (quiet_login 2) True demo_credentials s1 = (ReplyOK (t2, 10001, g2), s2)"
    using demo_step [OF s1(2,3) _ _ s1(6) a(2) g(2), of _ _ 2] s1(4,5) by blast
  let ?qs = "[(quiet_login 1, demo_credentials), (quiet_login 2, demo_credentials)]"
  have run: "login_run plain_crypto ?qs demo_login = ([ReplyOK (t1, 10001, g1), ReplyOK (t2, 10001, g2)], s2)" using s1(1) s2 by simp
  have st: "\<forall>q \<in> set ?qs. steady_login (fst q)" by (simp add: steady_login_def quiet_login_def steady_quiet)
  have "hash_checks plain_crypto" by (simp add: hash_checks_def plain_crypto_def)
  from role_needs_its_password [OF this st _ _ run, of ?db0 0 1 t1 10001 g1 t2 g2] run show ?thesis
    by (auto simp: demo_login_def acct_ok_def demo_request plain_crypto_def Let_def)
qed

text \<open>
  A request that loses the race to register an account fails although its password is right: the error
  of the first read is returned.
\<close>

lemma lost_registration_race_fails:
  assumes "E = \<lparr>aeSelect = Done, aeInsert = Done, aeReread = Done, aeBetween = (\<lambda>db. snd (insert_account u p db))\<rparr>"
    and "u \<noteq> []" and "p \<noteq> []" and "adAccounts db u = None"
  shows "fst (Authenticate Some (=) E u p db) = Inl ErrNoRows \<and> fst (Authenticate Some (=) E u p (snd (Authenticate Some (=) E u p db))) = Inr (adSeq db + 1)"
  using assms by (simp add: Authenticate_def insert_account_def Let_def)

text \<open>
  The zone comes from the client and is not bounded, so that the ids of two accounts can meet: whoever
  logs in first with account 1 and zone 10001 holds the role id of account 2 in zone 1, and account 2 is
  refused in its own zone from then on.
\<close>

lemma role_ids_collide:
  assumes "GetOrCreateRole quiet_account 1 10001 ''eve'' 1 \<lparr>adAccounts = acc, adSeq = n, adRoles = []\<rparr> = (Inr r, db)"
  shows "fst (GetOrCreateRole quiet_account 2 1 ''ann'' 1 db) = Inl (ErrMsg ''role name is already in use'')"
  using assms by (auto simp: GetOrCreateRole_def quiet_account_def role_of_def insert_role_def new_role_def role_conflict_def Let_def)

section \<open>Attempts in a window\<close>

text \<open>Attempts in order: user name as typed and time.\<close>

fun attempts :: "crypto \<Rightarrow> (string \<times> int) list \<Rightarrow> int redis option \<Rightarrow> bool res list \<times> int redis option" where
  "attempts C [] rdb = ([], rdb)"
| "attempts C ((u, t) # us) rdb =
     (let (b, rdb) = loginRateLimited (crLower C) (crSHA256 C) Done t u rdb; (bs, rdb) = attempts C us rdb in (b # bs, rdb))"

definition rate_key :: "crypto \<Rightarrow> string \<Rightarrow> string" where
  "rate_key C u = loginRateKey (crLower C) (crSHA256 C) u"

lemma first_attempt:
  assumes "redis_GET t (rate_key C u) s = None"
  shows "loginRateLimited (crLower C) (crSHA256 C) Done t u (Some s) = (Inr False, Some (s(rate_key C u \<mapsto> (1, Some (millis t + 60000)))))"
  using assms by (simp add: loginRateLimited_def loginRateScript_def redis_INCR_def rate_key_def redis_PEXPIRE_def loginAttemptsPerMinute_def)
    (simp add: redis_SET_def)

lemma next_attempt:
  assumes "s (rate_key C u) = Some (n, Some w)" and "millis t \<le> w" and "1 \<le> n"
  shows "loginRateLimited (crLower C) (crSHA256 C) Done t u (Some s) = (Inr (10 \<le> n), Some (s(rate_key C u \<mapsto> (n + 1, Some w))))"
  using assms by (auto simp: loginRateLimited_def loginRateScript_def redis_INCR_def rate_key_def redis_GET_def loginAttemptsPerMinute_def)

lemma later_attempts:
  assumes "s k = Some (n, Some w)" and "1 \<le> n" and "\<forall>(u, t) \<in> set us. rate_key C u = k \<and> millis t \<le> w"
  shows "\<exists>s'. attempts C us (Some s) = (map (\<lambda>i. Inr (10 \<le> n + int i)) [0..<length us], Some s') \<and> s' k = Some (n + int (length us), Some w)"
  using assms
proof (induction us arbitrary: s n)
  case (Cons ut us)
  obtain u t where ut: "ut = (u, t)" by (cases ut)
  have k: "rate_key C u = k" "millis t \<le> w" using Cons.prems(3) ut by auto
  let ?s = "s(k \<mapsto> (n + 1, Some w))"
  have one: "loginRateLimited (crLower C) (crSHA256 C) Done t u (Some s) = (Inr (10 \<le> n), Some ?s)"
    using next_attempt [of s C u n w t] Cons.prems k by simp
  obtain s' where s': "attempts C us (Some ?s) = (map (\<lambda>i. Inr (10 \<le> n + 1 + int i)) [0..<length us], Some s')" "s' k = Some (n + 1 + int (length us), Some w)"
    using Cons.IH [of ?s "n + 1"] Cons.prems(2,3) by (simp del: fun_upd_apply) (auto simp: fun_upd_same)
  have "map (\<lambda>i. Inr (10 \<le> n + int i) :: bool res) [0..<length (ut # us)] = Inr (10 \<le> n) # map (\<lambda>i. Inr (10 \<le> n + 1 + int i)) [0..<length us]"
    by (simp add: upt_conv_Cons map_Suc_upt [symmetric] comp_def algebra_simps del: upt_Suc)
  then show ?case using one s' ut by (simp add: algebra_simps del: upt_Suc)
qed simp

text \<open>
  Password guessing is slowed down per account. Take any attempts whose user names have the same key,
  that is, are the same up to letter case and surrounding blanks, however many login servers they reach. If
  no window is open, the first opens one; in the sixty seconds that follow, the first ten attempts in all
  are let through and every later one is refused; and the first attempt after that opens a new window.
\<close>

theorem attempts_limited:
  assumes "redis_GET t0 (rate_key C u0) s = None" and "\<forall>(u, t) \<in> set us. rate_key C u = rate_key C u0 \<and> millis t \<le> millis t0 + 60000"
    and "rate_key C u1 = rate_key C u0" and "millis t0 + 60000 < millis t1"
  shows "\<exists>s'. attempts C ((u0, t0) # us) (Some s) = (map (\<lambda>i. Inr (10 \<le> i)) [0..<Suc (length us)], Some s') \<and>
    fst (loginRateLimited (crLower C) (crSHA256 C) Done t1 u1 (Some s')) = Inr False"
proof -
  let ?k = "rate_key C u0"
  let ?s = "s(?k \<mapsto> (1, Some (millis t0 + 60000)))"
  obtain s' where s': "attempts C us (Some ?s) = (map (\<lambda>i. Inr (10 \<le> 1 + int i)) [0..<length us], Some s')" "s' ?k = Some (1 + int (length us), Some (millis t0 + 60000))"
    using later_attempts [of ?s ?k 1 "millis t0 + 60000" us C] assms(2) by auto
  have m: "map (\<lambda>i. Inr (10 \<le> i) :: bool res) [0..<Suc (length us)] = Inr False # map (\<lambda>i. Inr (10 \<le> 1 + int i)) [0..<length us]"
    by (simp add: upt_conv_Cons map_Suc_upt [symmetric] comp_def del: upt_Suc)
  have "redis_GET t1 (rate_key C u1) s' = None" using s'(2) assms(3,4) by (simp add: redis_GET_def)
  from first_attempt [OF this] show ?thesis using first_attempt [OF assms(1)] s' m by (simp del: upt_Suc)
qed

theorem attempts_limited_witness:
  "last (fst (attempts plain_crypto (replicate 11 (''Ann'', 0)) (Some Map.empty))) = Inr True"
proof -
  have r: "replicate 11 (''Ann'', 0 :: int) = (''Ann'', 0) # replicate 10 (''Ann'', 0)" by (simp add: numeral_eq_Suc)
  have "redis_GET 0 (rate_key plain_crypto ''Ann'') Map.empty = None" by (simp add: redis_GET_def)
  from attempts_limited [OF this, of "replicate 10 (''Ann'', 0)" "''Ann''" "10 ^ 12"] show ?thesis
    unfolding r by (auto simp: millis_def last_map)
qed

end
