(* ===== verification/Event_Queue.thy ===== *)
theory Event_Queue
  imports Json_Values
begin

text \<open>
  Durable consumers of events (\<^verbatim>\<open>SubscribeDurable\<close> and \<^verbatim>\<open>publishDeadLetter\<close> in \<^verbatim>\<open>pkg/mq/nats.go\<close>). JetStream,
  which is not part of the program, delivers a message until it is acknowledged or terminated, and at
  most \<^verbatim>\<open>MaxDeliver\<close> times; the model of a delivery is the callback, and a history of deliveries is a list
  of what went wrong in each. The locale \<open>consumer\<close> is the contract that makes redelivery harmless.
\<close>

definition maxDeliveries :: nat where "maxDeliveries = 10"

record event =
  evID :: string
  evData :: body

text \<open>A message: its subject, its envelope if it decodes, and the delivery count of its metadata.\<close>

record message =
  mgSubject :: string
  mgEvent :: "event option"
  mgDelivered :: "nat option"

record dead_letter =
  dlSubject :: string
  dlReason :: string
  dlDeliveries :: nat

definition publishDeadLetter :: "outcome \<Rightarrow> message \<Rightarrow> string \<Rightarrow> nat \<Rightarrow> dead_letter list \<Rightarrow> unit res \<times> dead_letter list" where
  "publishDeadLetter oc msg reason deliveries dlq =
     store_call oc dlq (Inr (), dlq @ [\<lparr>dlSubject = ''_DLQ.'' @ mgSubject msg, dlReason = reason, dlDeliveries = deliveries\<rparr>])"

datatype verdict = Ack | Term | Nak | Silent

text \<open>The callback: what it tells the broker, the state after the handler and the dead letters.\<close>

definition on_message :: "outcome \<Rightarrow> (event \<Rightarrow> 's \<Rightarrow> unit res \<times> 's) \<Rightarrow> message \<Rightarrow> 's \<times> dead_letter list \<Rightarrow> verdict \<times> 's \<times> dead_letter list" where
  "on_message oc handler msg st =
     (let (s, dlq) = st;
          invalid = (case publishDeadLetter oc msg ''invalid event envelope'' 1 dlq of
                       (Inr _, dlq) \<Rightarrow> (Term, s, dlq) | (Inl _, dlq) \<Rightarrow> (Nak, s, dlq))
      in case mgEvent msg of
           None \<Rightarrow> invalid
         | Some e \<Rightarrow>
             if evID e = [] then invalid
             else (case handler e s of
                     (Inr _, s) \<Rightarrow> (Ack, s, dlq)
                   | (Inl _, s) \<Rightarrow>
                       let deliveries = (case mgDelivered msg of None \<Rightarrow> 1 | Some n \<Rightarrow> n) in
                       if maxDeliveries \<le> deliveries
                       then (case publishDeadLetter oc msg ''handler'' deliveries dlq of
                               (Inr _, dlq) \<Rightarrow> (Term, s, dlq) | (Inl _, dlq) \<Rightarrow> (Silent, s, dlq))
                       else (Nak, s, dlq)))"

section \<open>Redelivery\<close>

text \<open>
  The deliveries of one message, numbered from \<open>n\<close>: the broker stops after an acknowledgement, a
  termination or the last allowed delivery. Each delivery has the fate of its dead letter and the
  handler with its faults; the result is the last verdict, if there was a delivery.
\<close>

fun deliveries :: "(outcome \<times> (event \<Rightarrow> 's \<Rightarrow> unit res \<times> 's)) list \<Rightarrow> nat \<Rightarrow> message \<Rightarrow> 's \<times> dead_letter list \<Rightarrow> verdict option \<times> 's \<times> dead_letter list" where
  "deliveries [] n msg st = (None, st)"
| "deliveries ((oc, h) # fs) n msg st =
     (if maxDeliveries < n then (None, st)
      else case on_message oc h (msg\<lparr>mgDelivered := Some n\<rparr>) st of
        (Ack, st) \<Rightarrow> (Some Ack, st)
      | (Term, st) \<Rightarrow> (Some Term, st)
      | (v, st) \<Rightarrow> (case deliveries fs (n + 1) msg st of (None, st) \<Rightarrow> (Some v, st) | r \<Rightarrow> r))"

section \<open>Consumers that tolerate redelivery\<close>

text \<open>
  \<open>handle f e\<close> processes an event under the faults \<open>f\<close>; \<open>seen\<close> says that the effect of an event is in the
  state, \<open>effect\<close> what the effect is.
\<close>

definition once :: "(event \<Rightarrow> 's \<Rightarrow> bool) \<Rightarrow> (event \<Rightarrow> 's \<Rightarrow> 's) \<Rightarrow> event \<Rightarrow> 's \<Rightarrow> 's \<Rightarrow> bool" where
  "once seen eff e s s' \<longleftrightarrow> s' = s \<or> \<not> seen e s \<and> s' = eff e s"

locale consumer =
  fixes handle :: "'f \<Rightarrow> event \<Rightarrow> 's \<Rightarrow> unit res \<times> 's" and seen :: "event \<Rightarrow> 's \<Rightarrow> bool" and eff :: "event \<Rightarrow> 's \<Rightarrow> 's"
  assumes handle_state: "handle f e s = (x, s') \<Longrightarrow> s' = s \<or> \<not> seen e s \<and> s' = eff e s"
    and handle_done: "handle f e s = (Inr (), s') \<Longrightarrow> seen e s'"
    and eff_seen: "seen e (eff e s)"
begin

lemma once_trans: "once seen eff e s t \<Longrightarrow> once seen eff e t u \<Longrightarrow> once seen eff e s u"
  using eff_seen by (auto simp: once_def)

lemma on_message_once:
  assumes "mgEvent msg = Some e" and "on_message oc (handle f) msg (s, dlq) = (v, s', dlq')"
  shows "once seen eff e s s' \<and> (v = Ack \<longrightarrow> evID e \<noteq> [] \<and> seen e s')"
proof (cases "evID e = []")
  case True
  then show ?thesis using assms by (auto simp: on_message_def once_def Let_def split: prod.splits sum.splits)
next
  case False
  obtain x s1 where h: "handle f e s = (x, s1)" by fastforce
  have "s' = s1" "v = Ack \<longrightarrow> (\<exists>u. x = Inr u)"
    using assms h False by (auto simp: on_message_def Let_def split: sum.splits if_splits option.splits prod.splits)
  then show ?thesis using handle_state [OF h] handle_done [of f e s s1] h False by (auto simp: once_def)
qed

lemma deliveries_once:
  assumes "mgEvent msg = Some e" and "deliveries (map (\<lambda>(oc, f). (oc, handle f)) fs) n msg (s, dlq) = (v, s', dlq')"
  shows "once seen eff e s s' \<and> (v = Some Ack \<longrightarrow> evID e \<noteq> [] \<and> seen e s')"
  using assms(2)
proof (induction fs arbitrary: n s dlq v s' dlq')
  case Nil
  then show ?case by (auto simp: once_def)
next
  case (Cons a fs)
  obtain oc f where a: "a = (oc, f)" by (cases a)
  obtain w s1 dlq1 where m: "on_message oc (handle f) (msg\<lparr>mgDelivered := Some n\<rparr>) (s, dlq) = (w, s1, dlq1)" by (metis prod.exhaust)
  have o1: "once seen eff e s s1" "w = Ack \<longrightarrow> evID e \<noteq> [] \<and> seen e s1"
    using on_message_once [OF _ m] assms(1) by auto
  obtain v2 s2 dlq2 where r: "deliveries (map (\<lambda>(oc, f). (oc, handle f)) fs) (n + 1) msg (s1, dlq1) = (v2, s2, dlq2)" by (metis prod.exhaust)
  have o2: "once seen eff e s1 s2" "v2 = Some Ack \<longrightarrow> evID e \<noteq> [] \<and> seen e s2" using Cons.IH [OF r] by auto
  have s12: "once seen eff e s s2" by (rule once_trans [OF o1(1) o2(1)])
  show ?case using Cons.prems a m r o1 o2 s12
    by (auto simp: once_def split: if_splits verdict.splits option.splits)
qed

end

section \<open>Every event settles\<close>

lemma on_message_verdicts:
  assumes "on_message oc h msg (s, dlq) = (v, s', dlq')" and "mgEvent msg = Some e" and "evID e \<noteq> []" and "mgDelivered msg = Some n"
  shows "(v = Ack \<longrightarrow> h e s = (Inr (), s') \<and> dlq' = dlq) \<and>
    (v = Term \<longrightarrow> maxDeliveries \<le> n \<and> dlq' = dlq @ [\<lparr>dlSubject = ''_DLQ.'' @ mgSubject msg, dlReason = ''handler'', dlDeliveries = n\<rparr>]) \<and>
    (v = Nak \<longrightarrow> n < maxDeliveries) \<and> (v = Silent \<longrightarrow> maxDeliveries \<le> n \<and> oc \<noteq> Done)"
  using assms by (cases oc; cases "h e s") (auto simp: on_message_def publishDeadLetter_def Let_def split: sum.splits if_splits)

lemma deliveries_settle:
  assumes "mgEvent msg = Some e" and "evID e \<noteq> []" and "n \<le> maxDeliveries" and "length fs = maxDeliveries + 1 - n"
    and "deliveries fs n msg (s, dlq) = (v, s', dlq')"
  shows "(v = Some Ack \<and> (\<exists>f \<in> set fs. \<exists>t. snd f e t = (Inr (), s'))) \<or>
    (v = Some Term \<and> \<lparr>dlSubject = ''_DLQ.'' @ mgSubject msg, dlReason = ''handler'', dlDeliveries = maxDeliveries\<rparr> \<in> set dlq') \<or>
    (v = Some Silent \<and> fst (last fs) \<noteq> Done)"
  using assms(3-)
proof (induction fs arbitrary: n s dlq v s' dlq')
  case Nil
  then show ?case by simp
next
  case (Cons a fs)
  obtain oc h where a: "a = (oc, h)" by (cases a)
  let ?m = "msg\<lparr>mgDelivered := Some n\<rparr>"
  obtain w s1 dlq1 where m: "on_message oc h ?m (s, dlq) = (w, s1, dlq1)" by (metis prod.exhaust)
  have vd: "w = Ack \<longrightarrow> h e s = (Inr (), s1)" "w = Term \<longrightarrow> maxDeliveries \<le> n \<and> dlq1 = dlq @ [\<lparr>dlSubject = ''_DLQ.'' @ mgSubject msg, dlReason = ''handler'', dlDeliveries = n\<rparr>]"
      "w = Nak \<longrightarrow> n < maxDeliveries" "w = Silent \<longrightarrow> maxDeliveries \<le> n \<and> oc \<noteq> Done"
    using on_message_verdicts [OF m, of e n] assms(1,2) by auto
  show ?case
  proof (cases w)
    case Ack
    then show ?thesis using Cons.prems a m vd by (auto intro!: exI [of _ s])
  next
    case Term
    then show ?thesis using Cons.prems a m vd by auto
  next
    case Silent
    then have "fs = []" using vd Cons.prems by simp
    then show ?thesis using Silent Cons.prems a m vd by simp
  next
    case Nak
    obtain v2 s2 dlq2 where r: "deliveries fs (n + 1) msg (s1, dlq1) = (v2, s2, dlq2)" by (metis prod.exhaust)
    have ne: "fs \<noteq> []" using Nak vd Cons.prems by auto
    have len: "length fs = maxDeliveries + 1 - (n + 1)" "n + 1 \<le> maxDeliveries" using Nak vd Cons.prems by auto
    note ih = Cons.IH [OF len(2,1) r]
    have "v = v2" "s' = s2" "dlq' = dlq2" using Cons.prems a m Nak r ih by auto
    then show ?thesis using ih ne by auto
  qed
qed

text \<open>
  C31. No event gets stuck. When the broker offers a well-formed event as often as it may, ten times,
  whatever the handler does, the deliveries end in one of three ways: the event was acknowledged and
  its handler had succeeded; it was terminated and is among the dead letters with its count; or the tenth
  delivery failed and so did the publication of its dead letter.
\<close>

theorem event_settles:
  assumes "mgEvent msg = Some e" and "evID e \<noteq> []" and "length fs = maxDeliveries" and "deliveries fs 1 msg (s, dlq) = (v, s', dlq')"
  shows "(v = Some Ack \<and> (\<exists>f \<in> set fs. \<exists>t. snd f e t = (Inr (), s'))) \<or>
    (v = Some Term \<and> \<lparr>dlSubject = ''_DLQ.'' @ mgSubject msg, dlReason = ''handler'', dlDeliveries = 10\<rparr> \<in> set dlq') \<or>
    (v = Some Silent \<and> fst (last fs) \<noteq> Done)"
  using deliveries_settle [OF assms(1,2), of 1 fs s dlq v s' dlq'] assms(3,4) by (simp add: maxDeliveries_def)

definition refusing :: "(outcome \<times> (event \<Rightarrow> unit \<Rightarrow> unit res \<times> unit)) list" where
  "refusing = replicate 10 (Done, \<lambda>e s. (Inl ErrStore, s))"

theorem event_settles_witness:
  "\<exists>dlq'. deliveries refusing 1 \<lparr>mgSubject = ''mail.send'', mgEvent = Some \<lparr>evID = ''e1'', evData = None\<rparr>, mgDelivered = None\<rparr> ((), []) = (Some Term, (), dlq')
     \<and> dlq' \<noteq> []"
proof -
  let ?m = "\<lparr>mgSubject = ''mail.send'', mgEvent = Some \<lparr>evID = ''e1'', evData = None\<rparr>, mgDelivered = None\<rparr>"
  obtain v dlq' where d: "deliveries refusing 1 ?m ((), []) = (v, (), dlq')" by (cases "deliveries refusing 1 ?m ((), [])") auto
  have "fst (last refusing) = Done" "\<forall>f \<in> set refusing. \<forall>t. snd f \<lparr>evID = ''e1'', evData = None\<rparr> t \<noteq> (Inr (), ())"
    by (simp_all add: refusing_def numeral_eq_Suc)
  moreover have "length refusing = maxDeliveries" by (simp add: refusing_def maxDeliveries_def)
  ultimately show ?thesis using event_settles [of ?m "\<lparr>evID = ''e1'', evData = None\<rparr>" refusing "()" "[]" v "()" dlq'] d by auto
qed

text \<open>The third way loses the event: it is neither with the broker nor among the dead letters.\<close>

lemma failed_dead_letter_loses_event:
  assumes "mgEvent msg = Some e" and "evID e \<noteq> []" and "mgDelivered msg = Some 10" and "h e s = (Inl err, s')"
  shows "on_message Failed h msg (s, dlq) = (Silent, s', dlq)"
  using assms by (simp add: on_message_def publishDeadLetter_def maxDeliveries_def)

end
