(* ===== verification/Activity_Service.thy ===== *)
theory Activity_Service
  imports Event_Queue Game_Client
begin

text \<open>
  The activity service (\<^verbatim>\<open>services/activity/internal/server.go\<close>) and its repository
  (\<^verbatim>\<open>pkg/repo/activity.go\<close>): progress that durable events advance, and the reward that a player claims at
  seven. With a database, the table \<^verbatim>\<open>activity_progress\<close> and the inbox of the consumer; without, a bounded
  map in memory. PostgreSQL refuses a sum outside its 32-bit integers, Go's sum wraps.
\<close>

section \<open>The repository\<close>

record activity_state =
  asActivityID :: int
  asProgress :: int
  asClaimed :: bool

record activity_db =
  apRows :: "int \<times> int \<Rightarrow> (int \<times> bool) option"
  apInbox :: "string set"

definition activity_Get :: "outcome \<Rightarrow> int \<Rightarrow> int \<Rightarrow> activity_db \<Rightarrow> activity_state res" where
  "activity_Get oc roleID activityID db =
     (if oc \<noteq> Done then Inl ErrStore
      else Inr (case apRows db (roleID, activityID) of
        None \<Rightarrow> \<lparr>asActivityID = activityID, asProgress = 0, asClaimed = False\<rparr>
      | Some (p, c) \<Rightarrow> \<lparr>asActivityID = activityID, asProgress = p, asClaimed = c\<rparr>))"

text \<open>The upsert; \<^const>\<open>None\<close> is the error of a sum out of range.\<close>

definition add_progress :: "int \<Rightarrow> int \<Rightarrow> int \<Rightarrow> activity_db \<Rightarrow> activity_db option" where
  "add_progress roleID activityID delta db =
     (case apRows db (roleID, activityID) of
        None \<Rightarrow> Some (db\<lparr>apRows := (apRows db)((roleID, activityID) \<mapsto> (delta, False))\<rparr>)
      | Some (p, c) \<Rightarrow>
          if in_i32 (p + delta) then Some (db\<lparr>apRows := (apRows db)((roleID, activityID) \<mapsto> (p + delta, c))\<rparr>) else None)"

definition AddProgress :: "outcome \<Rightarrow> outcome \<Rightarrow> int \<Rightarrow> int \<Rightarrow> int \<Rightarrow> activity_db \<Rightarrow> activity_state res \<times> activity_db" where
  "AddProgress oc oc2 roleID activityID delta db =
     (case store_call oc db (case add_progress roleID activityID delta db of None \<Rightarrow> (Inl ErrStore, db) | Some db \<Rightarrow> (Inr (), db)) of
        (Inl e, db) \<Rightarrow> (Inl e, db)
      | (Inr _, db) \<Rightarrow> (activity_Get oc2 roleID activityID db, db))"

text \<open>The transaction: inbox marker and progress together, or neither. A marker that exists ends it with a read.\<close>

definition AddProgressEvent :: "outcome \<Rightarrow> outcome \<Rightarrow> string \<Rightarrow> int \<Rightarrow> int \<Rightarrow> int \<Rightarrow> activity_db \<Rightarrow> (activity_state \<times> bool) res \<times> activity_db" where
  "AddProgressEvent oc oc2 eventID roleID activityID delta db =
     (if eventID \<in> apInbox db then
        (if oc \<noteq> Done then Inl ErrStore else map_sum id (\<lambda>s. (s, False)) (activity_Get oc2 roleID activityID db), db)
      else store_call oc db
        (case add_progress roleID activityID delta (db\<lparr>apInbox := insert eventID (apInbox db)\<rparr>) of
           None \<Rightarrow> (Inl ErrStore, db)
         | Some db' \<Rightarrow> (map_sum id (\<lambda>s. (s, True)) (activity_Get Done roleID activityID db'), db')))"

text \<open>\<open>between\<close> is what other requests do between the read and the write.\<close>

definition activity_Claim :: "outcome \<Rightarrow> outcome \<Rightarrow> (activity_db \<Rightarrow> activity_db) \<Rightarrow> int \<Rightarrow> int \<Rightarrow> int \<Rightarrow> activity_db \<Rightarrow> activity_state res \<times> activity_db" where
  "activity_Claim oc oc2 between roleID activityID need db =
     (case activity_Get oc roleID activityID db of
        Inl e \<Rightarrow> (Inl e, db)
      | Inr s \<Rightarrow>
          if asClaimed s \<or> asProgress s < need then (Inr s, db)
          else let db = between db in
            store_call oc2 db (Inr (s\<lparr>asClaimed := True\<rparr>),
              db\<lparr>apRows := (apRows db)((roleID, activityID) \<mapsto> (case apRows db (roleID, activityID) of None \<Rightarrow> asProgress s | Some (p, _) \<Rightarrow> p, True))\<rparr>))"

section \<open>The service\<close>

definition maxMemProgressRoles :: nat where "maxMemProgressRoles = 10000"

type_synonym mem_progress = "(int \<times> (int \<Rightarrow> activity_state option)) list"

record activity_srv =
  avRepo :: "activity_db option"
  avMem :: mem_progress

definition no_progress :: activity_state where
  "no_progress = \<lparr>asActivityID = 0, asProgress = 0, asClaimed = False\<rparr>"

text \<open>\<open>victim\<close> is the key that the iteration over the map yields first.\<close>

definition mem_addProgress :: "int \<Rightarrow> int \<Rightarrow> int \<Rightarrow> int \<Rightarrow> mem_progress \<Rightarrow> activity_state \<times> mem_progress" where
  "mem_addProgress victim roleID activityID delta m =
     (let m = (if map_of m roleID = None
               then AList.update roleID Map.empty (if maxMemProgressRoles \<le> length m then AList.delete victim m else m) else m);
          acts = the (map_of m roleID);
          st = (case acts activityID of None \<Rightarrow> no_progress | Some st \<Rightarrow> st);
          st = st\<lparr>asActivityID := activityID, asProgress := i32 (asProgress st + delta)\<rparr>
      in (st, AList.update roleID (acts(activityID \<mapsto> st)) m))"

definition addProgress :: "outcome \<Rightarrow> outcome \<Rightarrow> int \<Rightarrow> int \<Rightarrow> int \<Rightarrow> int \<Rightarrow> activity_srv \<Rightarrow> activity_state res \<times> activity_srv" where
  "addProgress oc oc2 victim roleID activityID delta s =
     (case avRepo s of
        Some db \<Rightarrow> (let (r, db) = AddProgress oc oc2 roleID activityID delta db in (r, s\<lparr>avRepo := Some db\<rparr>))
      | None \<Rightarrow> (let (st, m) = mem_addProgress victim roleID activityID delta (avMem s) in (Inr st, s\<lparr>avMem := m\<rparr>)))"

definition event_shape :: "(string \<times> json) list" where
  "event_shape = [(''role_id'', JNum 64), (''activity_id'', JNum 32), (''delta'', JNum 32)]"

text \<open>The handler of the durable subscription.\<close>

definition activity_event :: "outcome \<times> outcome \<times> int \<Rightarrow> event \<Rightarrow> activity_srv \<Rightarrow> unit res \<times> activity_srv" where
  "activity_event f e s =
     (let (oc, oc2, victim) = f; p = evData e; roleID = json_int64 ''role_id'' p; activityID = json_int32 ''activity_id'' p; delta = json_int32 ''delta'' p in
      if \<not> json_valid event_shape p then (Inl (ErrMsg ''json''), s)
      else case avRepo s of
        Some db \<Rightarrow> (let (r, db) = AddProgressEvent oc oc2 (evID e) roleID activityID delta db in (map_sum id (\<lambda>_. ()) r, s\<lparr>avRepo := Some db\<rparr>))
      | None \<Rightarrow> (let (r, s) = addProgress oc oc2 victim roleID activityID delta s in (map_sum id (\<lambda>_. ()) r, s)))"

definition getState :: "outcome \<Rightarrow> int \<Rightarrow> int \<Rightarrow> activity_srv \<Rightarrow> activity_state res" where
  "getState oc roleID activityID s =
     (case avRepo s of
        Some db \<Rightarrow> activity_Get oc roleID activityID db
      | None \<Rightarrow> Inr (case map_of (avMem s) roleID of
          None \<Rightarrow> \<lparr>asActivityID = activityID, asProgress = 0, asClaimed = False\<rparr>
        | Some acts \<Rightarrow> (case acts activityID of None \<Rightarrow> no_progress | Some st \<Rightarrow> st)))"

definition mem_claim :: "int \<Rightarrow> int \<Rightarrow> int \<Rightarrow> mem_progress \<Rightarrow> activity_state \<times> mem_progress" where
  "mem_claim roleID activityID need m =
     (let st = (case map_of m roleID of
                  None \<Rightarrow> \<lparr>asActivityID = activityID, asProgress = 0, asClaimed = False\<rparr>
                | Some acts \<Rightarrow> (case acts activityID of None \<Rightarrow> no_progress | Some st \<Rightarrow> st)) in
      if need \<le> asProgress st \<and> \<not> asClaimed st then
        let st = st\<lparr>asClaimed := True\<rparr>; acts = (case map_of m roleID of None \<Rightarrow> Map.empty | Some acts \<Rightarrow> acts)
        in (st, AList.update roleID (acts(activityID \<mapsto> st)) m)
      else (st, m))"

definition activity_claim :: "outcome \<Rightarrow> outcome \<Rightarrow> (activity_db \<Rightarrow> activity_db) \<Rightarrow> int \<Rightarrow> int \<Rightarrow> int \<Rightarrow> activity_srv \<Rightarrow> activity_state res \<times> activity_srv" where
  "activity_claim oc oc2 between roleID activityID need s =
     (case avRepo s of
        Some db \<Rightarrow> (let (r, db) = activity_Claim oc oc2 between roleID activityID need db in (r, s\<lparr>avRepo := Some db\<rparr>))
      | None \<Rightarrow> (let (st, m) = mem_claim roleID activityID need (avMem s) in (Inr st, s\<lparr>avMem := m\<rparr>)))"

definition handleProgress :: "outcome \<Rightarrow> session_info \<Rightarrow> string \<Rightarrow> activity_srv \<Rightarrow> (int \<times> bool) reply" where
  "handleProgress oc info activity_id s =
     (case getState oc (siRoleID info) (fst (ParseInt 32 activity_id)) s of
        Inl _ \<Rightarrow> ReplyOK (0, False)
      | Inr st \<Rightarrow> ReplyOK (asProgress st, asClaimed st))"

definition activity_source :: "int \<Rightarrow> int \<Rightarrow> string" where
  "activity_source roleID activityID = ''activity:'' @ FormatInt roleID @ '':'' @ FormatInt activityID"

type_synonym 'w activity_world = "activity_srv \<times> 'w"

text \<open>\<open>b1\<close> is what others do while the reward is granted, \<open>b2\<close> between the two statements of the claim.\<close>

definition activity_handleClaim :: "(int \<Rightarrow> grant_bundle \<Rightarrow> string \<Rightarrow> 'w \<Rightarrow> err option \<times> 'w) \<Rightarrow> ('w activity_world \<Rightarrow> 'w activity_world) \<Rightarrow> (activity_db \<Rightarrow> activity_db)
    \<Rightarrow> outcome \<Rightarrow> outcome \<Rightarrow> outcome \<Rightarrow> session_info \<Rightarrow> body \<Rightarrow> 'w activity_world \<Rightarrow> (bool \<times> string list) reply \<times> 'w activity_world" where
  "activity_handleClaim grant b1 b2 oc1 oc2 oc3 info p st =
     (let activityID = json_int32 ''activity_id'' p; roleID = siRoleID info; (s, w) = st in
      if \<not> json_valid [(''activity_id'', JNum 32)] p \<or> activityID \<le> 0 then (HttpError 400, st)
      else case getState oc1 roleID activityID s of
        Inl _ \<Rightarrow> (HttpError 500, st)
      | Inr current \<Rightarrow>
          let (e, w) = (if \<not> asClaimed current \<and> 7 \<le> asProgress current
                        then GrantItems grant roleID ''gold:100'' (activity_source roleID activityID) w else (None, w));
              (s, w) = b1 (s, w)
          in if e \<noteq> None then (HttpError 503, s, w)
             else case activity_claim oc2 oc3 b2 roleID activityID 7 s of
               (Inl _, s) \<Rightarrow> (HttpError 500, s, w)
             | (Inr cl, s) \<Rightarrow> (ReplyOK (asClaimed cl, if asClaimed cl then [''gold:100''] else []), s, w))"

section \<open>Events count once\<close>

definition event_key :: "event \<Rightarrow> int \<times> int" where
  "event_key e = (json_int64 ''role_id'' (evData e), json_int32 ''activity_id'' (evData e))"

definition event_delta :: "event \<Rightarrow> int \<times> int \<Rightarrow> int" where
  "event_delta e k = (if k = event_key e then json_int32 ''delta'' (evData e) else 0)"

definition progress_of :: "activity_db \<Rightarrow> int \<times> int \<Rightarrow> int" where
  "progress_of db k = (case apRows db k of None \<Rightarrow> 0 | Some (p, _) \<Rightarrow> p)"

definition claimed_in :: "activity_db \<Rightarrow> int \<times> int \<Rightarrow> bool" where
  "claimed_in db k = (case apRows db k of None \<Rightarrow> False | Some (_, c) \<Rightarrow> c)"

text \<open>The subscription on a server with a database, as a handler on the tables.\<close>

definition db_event :: "outcome \<times> outcome \<times> int \<Rightarrow> event \<Rightarrow> activity_db \<Rightarrow> unit res \<times> activity_db" where
  "db_event f e db = (let (r, s) = activity_event f e \<lparr>avRepo = Some db, avMem = []\<rparr> in (r, case avRepo s of None \<Rightarrow> db | Some db \<Rightarrow> db))"

definition with_marker :: "event \<Rightarrow> activity_db \<Rightarrow> activity_db" where
  "with_marker e db = db\<lparr>apInbox := insert (evID e) (apInbox db)\<rparr>"

definition event_effect :: "event \<Rightarrow> activity_db \<Rightarrow> activity_db" where
  "event_effect e db =
     (case add_progress (fst (event_key e)) (snd (event_key e)) (json_int32 ''delta'' (evData e)) (with_marker e db) of
        None \<Rightarrow> with_marker e db | Some db' \<Rightarrow> db')"

lemma add_progress_facts:
  assumes "add_progress r a d db = Some db'"
  shows "apInbox db' = apInbox db" and "progress_of db' k = progress_of db k + (if k = (r, a) then d else 0)" and "claimed_in db' k = claimed_in db k"
  using assms by (auto simp: add_progress_def progress_of_def claimed_in_def split: option.splits if_splits)

lemma with_marker_simps [simp]: "apInbox (with_marker e db) = insert (evID e) (apInbox db)" "apRows (with_marker e db) = apRows db"
    "progress_of (with_marker e db) = progress_of db" "claimed_in (with_marker e db) = claimed_in db"
  by (auto simp: with_marker_def progress_of_def claimed_in_def fun_eq_iff)

lemma event_effect_inbox: "apInbox (event_effect e db) = insert (evID e) (apInbox db)"
  by (auto simp: event_effect_def add_progress_facts split: option.splits)

lemma AddProgressEvent_cases:
  assumes "AddProgressEvent oc oc2 i r a d db = (x, db')"
  shows "db' = db \<and> ((\<exists>y. x = Inr y) \<longrightarrow> i \<in> apInbox db) \<or>
    i \<notin> apInbox db \<and> add_progress r a d (db\<lparr>apInbox := insert i (apInbox db)\<rparr>) = Some db'"
  using assms by (cases oc) (auto simp: AddProgressEvent_def split: if_splits option.splits)

lemma db_event_cases:
  assumes "db_event f e db = (x, db')"
  shows "db' = db \<and> (x = Inr () \<longrightarrow> evID e \<in> apInbox db) \<or>
    evID e \<notin> apInbox db \<and> add_progress (fst (event_key e)) (snd (event_key e)) (json_int32 ''delta'' (evData e)) (with_marker e db) = Some db'"
proof -
  obtain oc oc2 v where f: "f = (oc, oc2, v)" by (cases f)
  show ?thesis
  proof (cases "json_valid event_shape (evData e)")
    case False
    then show ?thesis using assms f by (auto simp: db_event_def activity_event_def)
  next
    case True
    obtain y db1 where y: "AddProgressEvent oc oc2 (evID e) (fst (event_key e)) (snd (event_key e)) (json_int32 ''delta'' (evData e)) db = (y, db1)" by fastforce
    have "db' = db1" "x = map_sum id (\<lambda>_. ()) y"
      using assms f True y by (auto simp: db_event_def activity_event_def event_key_def Let_def)
    then show ?thesis using AddProgressEvent_cases [OF y] by (cases y) (auto simp: with_marker_def)
  qed
qed

interpretation activity: consumer db_event "\<lambda>e db. evID e \<in> apInbox db" event_effect
proof
  show "s' = s \<or> evID e \<notin> apInbox s \<and> s' = event_effect e s" if "db_event f e s = (x, s')" for f e s x s'
    using db_event_cases [OF that] by (auto simp: event_effect_def)
  show "evID e \<in> apInbox s'" if "db_event f e s = (Inr (), s')" for f e s s'
    using db_event_cases [OF that] by (auto dest: add_progress_facts(1))
  show "evID e \<in> apInbox (event_effect e s)" for e s by (simp add: event_effect_inbox)
qed

text \<open>A history of the tables: deliveries and claims; the result has the events whose handler succeeded.\<close>

datatype activity_op = Deliver "outcome \<times> outcome \<times> int" event | ClaimRow outcome outcome int int

fun activity_ops :: "activity_op list \<Rightarrow> activity_db \<Rightarrow> event list \<times> activity_db" where
  "activity_ops [] db = ([], db)"
| "activity_ops (Deliver f e # ops) db =
     (let (x, db) = db_event f e db; (es, db) = activity_ops ops db in (if x = Inr () then e # es else es, db))"
| "activity_ops (ClaimRow oc oc2 r a # ops) db = activity_ops ops (snd (activity_Claim oc oc2 id r a 7 db))"

definition delivered :: "activity_op list \<Rightarrow> event set" where
  "delivered ops = {e. \<exists>f. Deliver f e \<in> set ops}"

lemma activity_Claim_facts:
  "apInbox (snd (activity_Claim oc oc2 id r a n db)) = apInbox db" "progress_of (snd (activity_Claim oc oc2 id r a n db)) k = progress_of db k"
  by (cases oc2; auto simp: activity_Claim_def activity_Get_def progress_of_def Let_def split: option.splits)+

lemma delivered_simps [simp]:
  "delivered [] = {}" "delivered (Deliver f e # ops) = insert e (delivered ops)" "delivered (ClaimRow oc oc2 r a # ops) = delivered ops"
  by (auto simp: delivered_def) (metis prod_cases3)

lemma finite_delivered: "finite (delivered ops)"
proof (induction ops)
  case (Cons x ops)
  then show ?case by (cases x) auto
qed simp

definition counts :: "event set \<Rightarrow> activity_db \<Rightarrow> activity_db \<Rightarrow> bool" where
  "counts c db db' \<longleftrightarrow> finite c \<and> inj_on evID c \<and> apInbox db' = apInbox db \<union> evID ` c \<and> evID ` c \<inter> apInbox db = {} \<and>
     (\<forall>k. progress_of db' k = progress_of db k + (\<Sum>e\<in>c. event_delta e k))"

lemma counts_refl: "apInbox db' = apInbox db \<Longrightarrow> (\<And>k. progress_of db' k = progress_of db k) \<Longrightarrow> counts {} db db'"
  by (simp add: counts_def)

lemma counts_step:
  assumes "evID e \<notin> apInbox db" "add_progress (fst (event_key e)) (snd (event_key e)) (json_int32 ''delta'' (evData e)) (with_marker e db) = Some db1" "counts c db1 db2"
  shows "counts (insert e c) db db2"
proof -
  have "e \<notin> c" "evID e \<notin> evID ` c" using assms add_progress_facts(1) [OF assms(2)] unfolding counts_def by auto
  moreover have "progress_of db1 k = progress_of db k + event_delta e k" for k using add_progress_facts(2) [OF assms(2), of k] by (auto simp: event_delta_def)
  ultimately show ?thesis using assms(1,3) add_progress_facts(1) [OF assms(2)] unfolding counts_def by (auto simp: add.assoc)
qed

lemma counts_claim: "counts c (snd (activity_Claim oc oc2 id r a n db)) db' = counts c db db'"
  by (simp add: counts_def activity_Claim_facts)

lemma activity_ops_count: "\<exists>c \<subseteq> delivered ops. counts c db (snd (activity_ops ops db))"
proof (induction ops arbitrary: db)
  case Nil
  then show ?case by (auto intro: counts_refl)
next
  case (Cons x ops)
  show ?case
  proof (cases x)
    case (Deliver f e)
    obtain v db1 where h: "db_event f e db = (v, db1)" by fastforce
    obtain c where c: "c \<subseteq> delivered ops" "counts c db1 (snd (activity_ops ops db1))" using Cons [of db1] by blast
    have run: "snd (activity_ops (x # ops) db) = snd (activity_ops ops db1)" using Deliver h by (simp split: prod.splits)
    from db_event_cases [OF h] show ?thesis
    proof
      assume "db1 = db \<and> (v = Inr () \<longrightarrow> evID e \<in> apInbox db)"
      then show ?thesis using c Deliver unfolding run by auto
    next
      assume "evID e \<notin> apInbox db \<and> add_progress (fst (event_key e)) (snd (event_key e)) (json_int32 ''delta'' (evData e)) (with_marker e db) = Some db1"
      then have "counts (insert e c) db (snd (activity_ops ops db1))" using counts_step c(2) by blast
      then show ?thesis using c(1) Deliver unfolding run by (intro exI [of _ "insert e c"]) auto
    qed
  next
    case (ClaimRow oc oc2 r a)
    then show ?thesis using Cons [of "snd (activity_Claim oc oc2 id r a 7 db)"] by (simp add: counts_claim)
  qed
qed

lemma activity_ops_inbox: "apInbox db \<subseteq> apInbox (snd (activity_ops ops db))"
  using activity_ops_count [of ops db] by (auto simp: counts_def)

lemma activity_ops_acked: "e \<in> set (fst (activity_ops ops db)) \<Longrightarrow> evID e \<in> apInbox (snd (activity_ops ops db))"
proof (induction ops db rule: activity_ops.induct)
  case (2 f d ops db)
  obtain v db1 where h: "db_event f d db = (v, db1)" by fastforce
  obtain es db2 where r: "activity_ops ops db1 = (es, db2)" by fastforce
  have "evID d \<in> apInbox db1" if "v = Inr ()" using activity.handle_done [of f d db db1] h that by simp
  then show ?case using 2 h r activity_ops_inbox [of db1 ops] by (auto split: if_splits)
qed auto

text \<open>
  C32. Progress counts every event exactly once. Over any history of deliveries and claims, with lost
  requests, lost replies and any number of redeliveries, the progress of every player in every activity
  grows by the sum of the increments of a set of delivered events, no two of them with the same id and
  none with an id that was processed before; that set has every event whose handler reported success,
  or another event with its id, so that acknowledging an event loses nothing.
\<close>

theorem activity_events_counted_once:
  shows "\<exists>c \<subseteq> delivered ops. inj_on evID c \<and> evID ` c \<inter> apInbox db = {} \<and>
    (\<forall>k. progress_of (snd (activity_ops ops db)) k = progress_of db k + (\<Sum>e\<in>c. event_delta e k)) \<and>
    (\<forall>e. e \<in> set (fst (activity_ops ops db)) \<and> evID e \<notin> apInbox db \<longrightarrow> evID e \<in> evID ` c)"
proof -
  obtain c where c: "c \<subseteq> delivered ops" "counts c db (snd (activity_ops ops db))" using activity_ops_count by blast
  show ?thesis using c activity_ops_acked [of _ ops db] unfolding counts_def by (intro exI [of _ c]) auto
qed

definition login_day :: event where
  "login_day = \<lparr>evID = ''e1'', evData = Some (JObj [(''role_id'', JNum 7), (''activity_id'', JNum 1001), (''delta'', JNum 3)])\<rparr>"

definition no_activity :: activity_db where
  "no_activity = \<lparr>apRows = Map.empty, apInbox = {}\<rparr>"

lemma login_day_reads: "json_valid event_shape (evData login_day)" "event_key login_day = (7, 1001)" "json_int32 ''delta'' (evData login_day) = 3"
    "json_int64 ''role_id'' (evData login_day) = 7" "json_int32 ''activity_id'' (evData login_day) = 1001" "evID login_day = ''e1''"
  by (simp_all add: json_valid_def event_shape_def event_key_def login_day_def json_int64_def json_int32_def body_defs in_i64_def in_i32_def)

theorem activity_events_counted_once_witness:
  "progress_of (snd (activity_ops [Deliver (Lost, Done, 0) login_day, Deliver (Done, Done, 0) login_day] no_activity)) (7, 1001) = 3"
proof -
  let ?ops = "[Deliver (Lost, Done, 0) login_day, Deliver (Done, Done, 0) login_day]"
  have acked: "login_day \<in> set (fst (activity_ops ?ops no_activity))"
    by (simp add: db_event_def activity_event_def login_day_reads AddProgressEvent_def no_activity_def add_progress_def activity_Get_def)
  obtain c where c: "c \<subseteq> delivered ?ops" "progress_of (snd (activity_ops ?ops no_activity)) (7, 1001) = progress_of no_activity (7, 1001) + (\<Sum>e\<in>c. event_delta e (7, 1001))"
      "evID login_day \<in> evID ` c"
    using activity_events_counted_once [of ?ops no_activity] acked by (auto simp: no_activity_def)
  have "c = {login_day}" using c(1,3) by auto
  then show ?thesis using c(2) by (simp add: event_delta_def login_day_reads progress_of_def no_activity_def)
qed

section \<open>Claims\<close>

definition activity_reward :: grant_bundle where
  "activity_reward = \<lparr>bGold = 100, bItems = []\<rparr>"

lemma Parse_reward: "Parse ''gold:100'' = Inr activity_reward"
  using Parse_show_tokens [of "[(''gold'', 100)]"]
  by (simp add: activity_reward_def show_token_def FormatInt_def nat_digits.simps digit_char_def token_ok_def plain_def
      space_codes_def in_i64_def i32_def credit_def empty_bundle_def)

lemma activity_source_inj [simp]: "activity_source r a = activity_source r b \<longleftrightarrow> a = b"
  by (simp add: activity_source_def)

text \<open>Claimed means credited, credited means the reward, and only to those who reached seven.\<close>

definition rows_settled :: "('w \<Rightarrow> int \<times> string \<Rightarrow> grant_bundle option) \<Rightarrow> activity_db \<Rightarrow> 'w \<Rightarrow> bool" where
  "rows_settled credited db w \<longleftrightarrow>
     (\<forall>r a. claimed_in db (r, a) \<longrightarrow> credited w (r, activity_source r a) \<noteq> None) \<and>
     (\<forall>r a b. credited w (r, activity_source r a) = Some b \<longrightarrow> b = activity_reward \<and> 7 \<le> progress_of db (r, a))"

definition activity_inv :: "('w \<Rightarrow> int \<times> string \<Rightarrow> grant_bundle option) \<Rightarrow> ('w \<Rightarrow> bool) \<Rightarrow> 'w activity_world \<Rightarrow> bool" where
  "activity_inv credited live st \<longleftrightarrow> (\<exists>db. avRepo (fst st) = Some db \<and> live (snd st) \<and> rows_settled credited db (snd st))"

definition srv_progress :: "activity_srv \<Rightarrow> int \<times> int \<Rightarrow> int" where
  "srv_progress s k = (case avRepo s of None \<Rightarrow> 0 | Some db \<Rightarrow> progress_of db k)"

text \<open>What others may do during a claim of \<open>k\<close>: anything that keeps the invariant and does not bring \<open>k\<close> to seven.\<close>

definition activity_rely :: "('w \<Rightarrow> int \<times> string \<Rightarrow> grant_bundle option) \<Rightarrow> ('w \<Rightarrow> bool) \<Rightarrow> int \<times> int \<Rightarrow> ('w activity_world \<Rightarrow> 'w activity_world) \<Rightarrow> bool" where
  "activity_rely credited live k b \<longleftrightarrow> (\<forall>st. activity_inv credited live st \<longrightarrow> activity_inv credited live (b st) \<and>
     (\<forall>j c. credited (snd st) j = Some c \<longrightarrow> credited (snd (b st)) j = Some c) \<and>
     (srv_progress (fst st) k < 7 \<longrightarrow> srv_progress (fst (b st)) k < 7))"

definition rows_rely :: "('w \<Rightarrow> int \<times> string \<Rightarrow> grant_bundle option) \<Rightarrow> (activity_db \<Rightarrow> activity_db) \<Rightarrow> bool" where
  "rows_rely credited b \<longleftrightarrow> (\<forall>db w. rows_settled credited db w \<longrightarrow> rows_settled credited (b db) w)"

lemma activity_Get_reads:
  "activity_Get oc r a db = Inr s \<Longrightarrow> asClaimed s = claimed_in db (r, a) \<and> asProgress s = progress_of db (r, a)"
  by (auto simp: activity_Get_def claimed_in_def progress_of_def split: if_splits option.splits)

lemma rows_settled_claim:
  assumes "rows_settled credited db w" and "credited w (r, activity_source r a) \<noteq> None"
  shows "rows_settled credited (db\<lparr>apRows := (apRows db)((r, a) \<mapsto> (case apRows db (r, a) of None \<Rightarrow> p | Some (p, _) \<Rightarrow> p, True))\<rparr>) w"
proof -
  let ?db = "db\<lparr>apRows := (apRows db)((r, a) \<mapsto> (case apRows db (r, a) of None \<Rightarrow> p | Some (p, _) \<Rightarrow> p, True))\<rparr>"
  obtain b where "credited w (r, activity_source r a) = Some b" using assms(2) by auto
  then have "7 \<le> progress_of db (r, a)" using assms(1) by (auto simp: rows_settled_def)
  then have row: "apRows db (r, a) \<noteq> None" by (auto simp: progress_of_def split: option.splits)
  have "progress_of ?db k = progress_of db k" for k using row by (auto simp: progress_of_def split: option.splits)
  moreover have "claimed_in ?db k = (claimed_in db k \<or> k = (r, a))" for k by (auto simp: claimed_in_def)
  ultimately show ?thesis using assms by (auto simp: rows_settled_def)
qed

lemma activity_Claim_settled:
  assumes "rows_settled credited db w" and "rows_rely credited b"
    and "progress_of db (r, a) < 7 \<or> credited w (r, activity_source r a) \<noteq> None"
  shows "rows_settled credited (snd (activity_Claim oc oc2 b r a 7 db)) w"
proof (cases "activity_Get oc r a db")
  case (Inl e)
  then show ?thesis using assms(1) by (simp add: activity_Claim_def)
next
  case (Inr s)
  show ?thesis
  proof (cases "asClaimed s \<or> asProgress s < 7")
    case True
    then show ?thesis using assms(1) Inr by (simp add: activity_Claim_def)
  next
    case False
    then have c: "credited w (r, activity_source r a) \<noteq> None" using assms(3) activity_Get_reads [OF Inr] by auto
    have "rows_settled credited (b db) w" using assms(1,2) by (simp add: rows_rely_def)
    note rows_settled_claim [OF this c, of "asProgress s"]
    then show ?thesis using False Inr \<open>rows_settled credited (b db) w\<close> by (cases oc2) (simp_all add: activity_Claim_def Let_def)
  qed
qed

text \<open>Events that count up keep the invariant.\<close>

lemma activity_event_settled:
  assumes "activity_inv credited live (s, w)" and "activity_event f e s = (x, s')" and "0 \<le> json_int32 ''delta'' (evData e)"
  shows "activity_inv credited live (s', w)"
proof -
  obtain db where db: "avRepo s = Some db" "live w" "rows_settled credited db w" using assms(1) by (auto simp: activity_inv_def)
  obtain oc oc2 v where f: "f = (oc, oc2, v)" by (cases f)
  show ?thesis
  proof (cases "json_valid event_shape (evData e)")
    case False
    then show ?thesis using assms(1,2) f by (simp add: activity_event_def)
  next
    case True
    obtain y db1 where y: "AddProgressEvent oc oc2 (evID e) (fst (event_key e)) (snd (event_key e)) (json_int32 ''delta'' (evData e)) db = (y, db1)" by fastforce
    have s': "s' = s\<lparr>avRepo := Some db1\<rparr>" using assms(2) f True y db(1) by (simp add: activity_event_def event_key_def Let_def)
    have "claimed_in db1 k = claimed_in db k \<and> progress_of db k \<le> progress_of db1 k" for k
      using AddProgressEvent_cases [OF y]
    proof
      assume "evID e \<notin> apInbox db \<and> add_progress (fst (event_key e)) (snd (event_key e)) (json_int32 ''delta'' (evData e))
          (db\<lparr>apInbox := insert (evID e) (apInbox db)\<rparr>) = Some db1"
      then have "add_progress (fst (event_key e)) (snd (event_key e)) (json_int32 ''delta'' (evData e)) (with_marker e db) = Some db1" by (simp add: with_marker_def)
      from add_progress_facts(2,3) [OF this, of k] assms(3) show ?thesis by auto
    qed simp
    then have "rows_settled credited db1 w" using db(3) unfolding rows_settled_def by (meson order_trans)
    then show ?thesis using db(2) by (simp add: activity_inv_def s')
  qed
qed

context granter
begin

lemma grant_reward_settled:
  assumes "live w" "rows_settled credited db w" "7 \<le> progress_of db (r, a)" "GrantItems grant r ''gold:100'' (activity_source r a) w = (e, w')"
  shows "live w' \<and> rows_settled credited db w' \<and> (e = None \<longrightarrow> credited w' (r, activity_source r a) \<noteq> None) \<and> (\<forall>j c. credited w j = Some c \<longrightarrow> credited w' j = Some c)"
proof -
  have run: "grant r activity_reward (activity_source r a) w = (e, w')" using assms(4) by (simp add: GrantItems_def Parse_reward)
  note keeps = grant_keeps [OF assms(1) run] and only = grant_only [OF assms(1) Parse_wf [OF Parse_reward] run]
  have "b = activity_reward \<and> 7 \<le> progress_of db (r', a')" if "credited w' (r', activity_source r' a') = Some b" for r' a' b
    using that only [of "(r', activity_source r' a')" b] keeps [of "(r', activity_source r' a')"] assms(2,3)
    by (cases "credited w (r', activity_source r' a')") (auto simp: rows_settled_def)
  moreover have "credited w' (r', activity_source r' a') \<noteq> None" if "claimed_in db (r', a')" for r' a'
    using that assms(2) keeps by (fastforce simp: rows_settled_def)
  ultimately show ?thesis
    using grant_live [OF assms(1) run] grant_credits [OF assms(1) _ , of "activity_source r a" r activity_reward w'] run keeps
    by (auto simp: rows_settled_def activity_source_def)
qed

lemma activity_handleClaim_settled:
  assumes "activity_inv credited live st" and "activity_rely credited live (siRoleID info, json_int32 ''activity_id'' p) b1" and "rows_rely credited b2"
    and "activity_handleClaim grant b1 b2 oc1 oc2 oc3 info p st = (rep, st')"
  shows "activity_inv credited live st'"
proof -
  obtain s w where st: "st = (s, w)" by (cases st)
  obtain db where db: "avRepo s = Some db" "live w" "rows_settled credited db w" using assms(1) st by (auto simp: activity_inv_def)
  let ?r = "siRoleID info" and ?a = "json_int32 ''activity_id'' p"
  let ?src = "(?r, activity_source ?r ?a)"
  show ?thesis
  proof (cases "\<not> json_valid [(''activity_id'', JNum 32)] p \<or> ?a \<le> 0 \<or> (\<exists>e. getState oc1 ?r ?a s = Inl e)")
    case True
    then show ?thesis using assms(1,4) st by (auto simp: activity_handleClaim_def Let_def split: if_splits)
  next
    case False
    then have ok: "json_valid [(''activity_id'', JNum 32)] p" "\<not> ?a \<le> 0" by auto
    from False obtain cur where cur: "getState oc1 ?r ?a s = Inr cur" by (cases "getState oc1 ?r ?a s") auto
    have rd: "asClaimed cur = claimed_in db (?r, ?a)" "asProgress cur = progress_of db (?r, ?a)"
      using activity_Get_reads [of oc1 ?r ?a db cur] cur db(1) by (auto simp: getState_def)
    obtain e w1 where e: "(if \<not> asClaimed cur \<and> 7 \<le> asProgress cur then GrantItems grant ?r ''gold:100'' (activity_source ?r ?a) w else (None, w)) = (e, w1)" by fastforce
    have i1: "live w1" "rows_settled credited db w1" "e = None \<longrightarrow> progress_of db (?r, ?a) < 7 \<or> credited w1 ?src \<noteq> None"
    proof -
      have "credited w ?src \<noteq> None" if "asClaimed cur" using that rd(1) db(3) by (simp add: rows_settled_def)
      then show "live w1" "rows_settled credited db w1" "e = None \<longrightarrow> progress_of db (?r, ?a) < 7 \<or> credited w1 ?src \<noteq> None"
        using grant_reward_settled [OF db(2,3), of ?r ?a e w1] e rd(2) db(2,3) by (cases "\<not> asClaimed cur \<and> 7 \<le> asProgress cur"; auto)+
    qed
    have inv1: "activity_inv credited live (s, w1)" using i1 db(1) by (simp add: activity_inv_def)
    obtain s2 w2 where b: "b1 (s, w1) = (s2, w2)" by fastforce
    have i2: "activity_inv credited live (s2, w2)" "\<forall>j c. credited w1 j = Some c \<longrightarrow> credited w2 j = Some c"
        "srv_progress s (?r, ?a) < 7 \<longrightarrow> srv_progress s2 (?r, ?a) < 7"
      using assms(2) [unfolded activity_rely_def, rule_format, OF inv1] b by auto
    obtain db2 where db2: "avRepo s2 = Some db2" "live w2" "rows_settled credited db2 w2" using i2(1) by (auto simp: activity_inv_def)
    show ?thesis
    proof (cases "e = None")
      case False
      then show ?thesis using assms(4) st cur e b i2(1) ok by (simp add: activity_handleClaim_def Let_def)
    next
      case True
      then have c2: "progress_of db2 (?r, ?a) < 7 \<or> credited w2 ?src \<noteq> None"
        using i1(3) i2(2,3) db(1) db2(1) by (auto simp: srv_progress_def)
      have settled: "rows_settled credited (snd (activity_Claim oc2 oc3 b2 ?r ?a 7 db2)) w2"
        by (rule activity_Claim_settled [where w = w2]) (use db2(3) assms(3) c2 in simp_all)
      obtain y db3 where y: "activity_Claim oc2 oc3 b2 ?r ?a 7 db2 = (y, db3)" by fastforce
      have "st' = (s2\<lparr>avRepo := Some db3\<rparr>, w2)"
        using assms(4) st cur e b y db2(1) True ok by (simp add: activity_handleClaim_def activity_claim_def Let_def split: sum.splits)
      then show ?thesis using settled y db2(2) by (simp add: activity_inv_def)
    qed
  qed
qed

end

section \<open>The whole service\<close>

inductive activity_step :: "('w \<Rightarrow> int \<times> string \<Rightarrow> grant_bundle option) \<Rightarrow> ('w \<Rightarrow> bool) \<Rightarrow> (int \<Rightarrow> grant_bundle \<Rightarrow> string \<Rightarrow> 'w \<Rightarrow> err option \<times> 'w) set
    \<Rightarrow> 'w activity_world \<Rightarrow> 'w activity_world \<Rightarrow> bool" for credited live G where
  Event: "activity_event f e s = (x, s') \<Longrightarrow> 0 \<le> json_int32 ''delta'' (evData e) \<Longrightarrow> activity_step credited live G (s, w) (s', w)"
| Claim: "\<lbrakk>g \<in> G; activity_rely credited live (siRoleID info, json_int32 ''activity_id'' p) b1; rows_rely credited b2;
    activity_handleClaim g b1 b2 oc1 oc2 oc3 info p st = (rep, st')\<rbrakk> \<Longrightarrow> activity_step credited live G st st'"
| Other: "\<lbrakk>live w'; \<forall>k c. credited w k = Some c \<longrightarrow> credited w' k = Some c;
    \<forall>r a. credited w (r, activity_source r a) = None \<longrightarrow> credited w' (r, activity_source r a) = None\<rbrakk> \<Longrightarrow> activity_step credited live G (s, w) (s, w')"

lemma activity_step_inv:
  assumes "activity_step credited live G st st'" and "\<And>g. g \<in> G \<Longrightarrow> granter credited g live" and "activity_inv credited live st"
  shows "activity_inv credited live st'"
  using assms(1,3)
proof cases
  case (Event f e s x s' w)
  from activity_event_settled [OF assms(3) [unfolded Event(1)] Event(3,4)] show ?thesis unfolding Event(2) .
next
  case (Claim g info p b1 b2 oc1 oc2 oc3 r)
  show ?thesis by (rule granter.activity_handleClaim_settled [OF assms(2) [OF Claim(1)] assms(3) Claim(2-4)])
next
  case (Other w' w s)
  have "credited w' (r, activity_source r a) = credited w (r, activity_source r a)" for r a
    using Other(4,5) by (cases "credited w (r, activity_source r a)") auto
  then show ?thesis using assms(3) Other(1-3) by (auto simp: activity_inv_def rows_settled_def)
qed

lemma activity_steps_inv:
  assumes "(activity_step credited live G)\<^sup>*\<^sup>* st st'" and "\<And>g. g \<in> G \<Longrightarrow> granter credited g live" and "activity_inv credited live st"
  shows "activity_inv credited live st'"
  using assms(1,3) by (induction rule: rtranclp_induct) (auto intro: activity_step_inv [OF _ assms(2)])


definition seven_days :: activity_srv where
  "seven_days = \<lparr>avRepo = Some \<lparr>apRows = [(7, 1001) \<mapsto> (7, False)], apInbox = {}\<rparr>, avMem = []\<rparr>"

definition claim_1001 :: body where
  "claim_1001 = Some (JObj [(''activity_id'', JNum 1001)])"

lemma claim_1001_reads: "json_valid [(''activity_id'', JNum 32)] claim_1001" "json_int32 ''activity_id'' claim_1001 = 1001"
  by (simp_all add: json_valid_def claim_1001_def json_int32_def body_defs in_i32_def)

lemma seven_days_granted: "fst (GrantItems demo_grant 7 ''gold:100'' ''activity:7:1001'' market) = None"
proof -
  have "wire_ok 7 activity_reward" "bundle_wf activity_reward" by (simp_all add: activity_reward_def wire_ok_def bundle_wf_def in_i64_def in_i32_def)
  then show ?thesis
    by (simp add: GrantItems_def Parse_reward demo_grant_def client_Grant_def baseURLForRole_def demo_client_def game_serve_def withRequestBoundary_def internal_HTTPMiddleware_def SetHTTP_def
        handleGrant_def grant_body_valid grant_body_reads merge_items_def empty_bundle_def Let_def market_simps i64_def i32_def activity_reward_def)
qed

lemma source_7_1001: "activity_source 7 1001 = ''activity:7:1001''"
  by (simp add: activity_source_def FormatInt_def nat_digits.simps digit_char_def)

lemma demo_claims:
  "\<exists>m'. activity_handleClaim demo_grant id id Done Done Done \<lparr>siRoleID = 7, siZoneID = 1\<rparr> claim_1001 (seven_days, market)
     = (ReplyOK (True, [''gold:100'']), seven_days\<lparr>avRepo := Some \<lparr>apRows = [(7, 1001) \<mapsto> (7, True)], apInbox = {}\<rparr>\<rparr>, m')"
proof -
  obtain m' where "GrantItems demo_grant 7 ''gold:100'' ''activity:7:1001'' market = (None, m')"
    using seven_days_granted by (metis prod.collapse)
  then show ?thesis
    by (simp add: activity_handleClaim_def claim_1001_reads getState_def activity_Get_def seven_days_def activity_claim_def activity_Claim_def source_7_1001)
qed


text \<open>
  In that window the reward is lost: the handler decides on the first read that there is nothing to
  grant, and the claim decides on its own read that seven is reached.
\<close>

lemma claim_races_progress:
  assumes "avRepo s = Some db" and "apRows db (siRoleID info, json_int32 ''activity_id'' p) = Some (6, False)"
    and "json_valid [(''activity_id'', JNum 32)] p" and "0 < json_int32 ''activity_id'' p"
    and "add_progress (siRoleID info) (json_int32 ''activity_id'' p) 1 db = Some db'"
  shows "\<exists>s'. activity_handleClaim grant (\<lambda>(s, w). (s\<lparr>avRepo := Some db'\<rparr>, w)) id Done Done Done info p (s, w) = (ReplyOK (True, [''gold:100'']), s', w)"
  using assms by (auto simp: activity_handleClaim_def getState_def activity_Get_def activity_claim_def activity_Claim_def add_progress_def in_i32_def)

end
