(* ===== verification/Reshard.thy ===== *)
theory Reshard
  imports Hash_Ring Config Role_Repo
begin

text \<open>
  The resharding tool (\<^verbatim>\<open>tools/reshard/main.go\<close>): it copies the rows of \<^verbatim>\<open>roles\<close> whose database changes from
  an old list of databases to a new one. A database is its connection string; the two lists may share
  strings. Every statement may fail or lose its reply, and game processes may write between any two of
  them. The last sections show what the tool keeps and where it falls short.
\<close>

section \<open>Routing\<close>

record routes =
  oldOf :: "int \<Rightarrow> int"
  newOf :: "int \<Rightarrow> int"

text \<open>
  \<^verbatim>\<open>fmt.Sscanf\<close> with \<^verbatim>\<open>%d\<close> on text without leading blanks: a sign, then digits up to the first other byte.
\<close>

definition scan_int :: "string \<Rightarrow> int option" where
  "scan_int s =
     (let (sgn, t) = (case s of c # t \<Rightarrow> if c = CHR ''-'' then (- 1, t) else if c = CHR ''+'' then (1, t) else (1, s) | [] \<Rightarrow> (1, s));
          ds = takeWhile (\<lambda>c. digit_val c \<noteq> None) t
      in if ds = [] then None
         else case ParseInt 64 ((if sgn = (1 :: int) then [] else [CHR ''-'']) @ ds) of (n, None) \<Rightarrow> Some n | (_, Some _) \<Rightarrow> None)"

definition nodeIndex :: "string \<Rightarrow> int" where
  "nodeIndex name =
     (case LastIndexByte name CHR ''-'' of
        None \<Rightarrow> - 1
      | Some i \<Rightarrow> (case scan_int (drop (i + 1) name) of None \<Rightarrow> - 1 | Some n \<Rightarrow> n))"

definition newRouter :: "string \<Rightarrow> int \<Rightarrow> int \<Rightarrow> int \<Rightarrow> routes" where
  "newRouter strategy old newCount reps =
     (if strategy = ''modulus''
      then \<lparr>oldOf = (\<lambda>r. ForRole r (i32 old)), newOf = (\<lambda>r. ForRole r (i32 newCount))\<rparr>
      else let oldRing = RingForShards (i32 old) reps; newRing = RingForShards (i32 newCount) reps
           in \<lparr>oldOf = (\<lambda>r. nodeIndex (Ring_Get oldRing r)), newOf = (\<lambda>r. nodeIndex (Ring_Get newRing r))\<rparr>)"

text \<open>The plan: roles to move, and how many pairs of shards they move between. The result is the printed report.\<close>

definition runPlan :: "routes \<Rightarrow> int \<Rightarrow> int \<Rightarrow> (int \<times> nat \<times> nat) option" where
  "runPlan r start stop =
     (if stop \<le> start then None
      else let moved = filter (\<lambda>i. oldOf r i \<noteq> newOf r i) [start..stop - 1]
           in Some (stop - start, length moved, card ((\<lambda>i. (oldOf r i, newOf r i)) ` set moved)))"

section \<open>Rows\<close>

record move_row =
  mvID :: int
  mvAccountID :: int
  mvZoneID :: int
  mvName :: string
  mvLevel :: int
  mvSnap :: string
  mvVersion :: int
  mvOwnerEpoch :: int
  mvCreatedAt :: int
  mvUpdatedAt :: int

type_synonym databases = "string \<Rightarrow> move_row list"

text \<open>\<^verbatim>\<open>INSERT ... ON CONFLICT (id) DO UPDATE\<close>, which keeps \<^verbatim>\<open>created_at\<close>.\<close>

definition upsert_row :: "move_row \<Rightarrow> move_row list \<Rightarrow> move_row list" where
  "upsert_row x rows =
     (if mvID x \<in> mvID ` set rows
      then map (\<lambda>y. if mvID y = mvID x then x\<lparr>mvCreatedAt := mvCreatedAt y\<rparr> else y) rows
      else rows @ [x])"

definition row_of :: "int \<Rightarrow> move_row list \<Rightarrow> move_row option" where
  "row_of i rows = find (\<lambda>y. mvID y = i) rows"

text \<open>Outcomes of the statements for one row, and what others do before the insert, the check and the delete.\<close>

record row_env =
  weInsert :: outcome
  weVerify :: outcome
  weDelete :: outcome
  weBefore :: "databases \<Rightarrow> databases"
  weBetween :: "databases \<Rightarrow> databases"
  weLast :: "databases \<Rightarrow> databases"

definition copy_of :: "move_row \<Rightarrow> move_row" where
  "copy_of x = x\<lparr>mvOwnerEpoch := mvOwnerEpoch x + 1\<rparr>"

definition same_row :: "move_row \<Rightarrow> move_row \<Rightarrow> bool" where
  "same_row x y \<longleftrightarrow> mvID y = mvID x \<and> mvVersion y = mvVersion x \<and> mvOwnerEpoch y = mvOwnerEpoch x"

definition move_one :: "row_env \<Rightarrow> bool \<Rightarrow> string \<Rightarrow> string \<Rightarrow> move_row \<Rightarrow> databases \<Rightarrow> err option \<times> databases" where
  "move_one E deleteSource pool dst x dbs =
     (let dbs = weBefore E dbs in
      case store_call (weInsert E) dbs (Inr (), dbs(dst := upsert_row (copy_of x) (dbs dst))) of
        (Inl e, dbs) \<Rightarrow> (Some e, dbs)
      | (Inr _, dbs) \<Rightarrow>
          let dbs = weBetween E dbs in
          if weVerify E \<noteq> Done then (Some ErrStore, dbs)
          else case row_of (mvID x) (dbs dst) of
            None \<Rightarrow> (Some ErrNoRows, dbs)
          | Some y \<Rightarrow>
              if mvVersion y \<noteq> mvVersion x \<or> mvOwnerEpoch y \<noteq> mvOwnerEpoch x + 1 \<or> mvSnap y \<noteq> mvSnap x
              then (Some (ErrMsg ''destination differs''), dbs)
              else if \<not> deleteSource then (None, dbs)
              else let dbs = weLast E dbs in
                (case store_call (weDelete E) dbs (Inr (list_ex (same_row x) (dbs pool)), dbs(pool := filter (\<lambda>y. \<not> same_row x y) (dbs pool))) of
                   (Inl e, dbs) \<Rightarrow> (Some e, dbs)
                 | (Inr False, dbs) \<Rightarrow> (Some (ErrMsg ''source changed during copy''), dbs)
                 | (Inr True, dbs) \<Rightarrow> (None, dbs)))"

section \<open>The loops\<close>

text \<open>Indexing a slice with a negative number panics.\<close>

definition dsn_at :: "string list \<Rightarrow> int \<Rightarrow> string option" where
  "dsn_at dsns i = (if 0 \<le> i \<and> i < int (length dsns) then Some (dsns ! nat i) else None)"

definition old_index :: "routes \<Rightarrow> string list \<Rightarrow> int \<Rightarrow> int" where
  "old_index r olds i = go_rem (oldOf r i) (int (length olds))"

definition new_index :: "routes \<Rightarrow> string list \<Rightarrow> int \<Rightarrow> int" where
  "new_index r news i = go_rem (newOf r i) (int (length news))"

fun move_rows :: "(int \<Rightarrow> row_env) \<Rightarrow> bool \<Rightarrow> routes \<Rightarrow> string list \<Rightarrow> string list \<Rightarrow> string \<Rightarrow> move_row list \<Rightarrow> databases \<Rightarrow> err option \<times> databases" where
  "move_rows E del r olds news pool [] dbs = (None, dbs)"
| "move_rows E del r olds news pool (x # xs) dbs =
     (case (dsn_at olds (old_index r olds (mvID x)), dsn_at news (new_index r news (mvID x))) of
        (Some src, Some dst) \<Rightarrow>
          if src = dst then move_rows E del r olds news pool xs dbs
          else (case move_one (E (mvID x)) del pool dst x dbs of
                  (Some e, dbs) \<Rightarrow> (Some e, dbs)
                | (None, dbs) \<Rightarrow> move_rows E del r olds news pool xs dbs)
      | _ \<Rightarrow> (Some ErrPanic, dbs))"

text \<open>
  The batches: with a batch of zero the loop does not advance, with a negative one the slice expression
  panics.
\<close>

partial_function (option) move_batches :: "(int \<Rightarrow> row_env) \<Rightarrow> bool \<Rightarrow> routes \<Rightarrow> string list \<Rightarrow> string list \<Rightarrow> string \<Rightarrow> int \<Rightarrow> move_row list
    \<Rightarrow> databases \<Rightarrow> (err option \<times> databases) option" where
  "move_batches E del r olds news pool batch xs dbs =
     (if xs = [] then Some (None, dbs)
      else if batch < 0 then Some (Some ErrPanic, dbs)
      else case move_rows E del r olds news pool (take (nat batch) xs) dbs of
        (Some e, dbs) \<Rightarrow> Some (Some e, dbs)
      | (None, dbs) \<Rightarrow> move_batches E del r olds news pool batch (drop (nat batch) xs) dbs)"

definition to_move :: "routes \<Rightarrow> string list \<Rightarrow> string list \<Rightarrow> move_row list \<Rightarrow> move_row list" where
  "to_move r olds news = filter (\<lambda>x. old_index r olds (mvID x) \<noteq> new_index r news (mvID x))"

record shard_env =
  heScan :: outcome
  heBefore :: "databases \<Rightarrow> databases"
  heRow :: "int \<Rightarrow> row_env"

fun run_shards :: "(nat \<Rightarrow> shard_env) \<Rightarrow> bool \<Rightarrow> routes \<Rightarrow> string list \<Rightarrow> string list \<Rightarrow> int \<Rightarrow> (nat \<times> string) list \<Rightarrow> databases
    \<Rightarrow> (err option \<times> databases) option" where
  "run_shards E del r olds news batch [] dbs = Some (None, dbs)"
| "run_shards E del r olds news batch ((i, pool) # shards) dbs =
     (let dbs = heBefore (E i) dbs in
      if heScan (E i) \<noteq> Done then Some (Some ErrStore, dbs)
      else case move_batches (heRow (E i)) del r olds news pool batch (to_move r olds news (dbs pool)) dbs of
        None \<Rightarrow> None
      | Some (Some e, dbs) \<Rightarrow> Some (Some e, dbs)
      | Some (None, dbs) \<Rightarrow> run_shards E del r olds news batch shards dbs)"

definition reshard_splitCSV :: "string \<Rightarrow> string list" where
  "reshard_splitCSV s = (if TrimSpace s = [] then [] else filter (\<lambda>t. t \<noteq> []) (map TrimSpace (Split CHR '','' s)))"

definition runExecute :: "bool \<Rightarrow> (nat \<Rightarrow> shard_env) \<Rightarrow> string \<Rightarrow> string \<Rightarrow> routes \<Rightarrow> int \<Rightarrow> bool \<Rightarrow> databases \<Rightarrow> (err option \<times> databases) option" where
  "runExecute connected E pgOld pgNew r batch del dbs =
     (let olds = reshard_splitCSV pgOld; news = reshard_splitCSV pgNew in
      if olds = [] \<or> news = [] then Some (Some (ErrMsg ''execute needs -pg-old and -pg-new''), dbs)
      else if \<not> connected then Some (Some (ErrMsg ''connect''), dbs)
      else run_shards E del r olds news batch (enumerate 0 olds) dbs)"

text \<open>The command: the result is the error of the execution, or the report of the plan.\<close>

record reshard_flags =
  flOld :: int
  flNew :: int
  flStrategy :: string
  flReplicas :: int
  flRangeStart :: int
  flRangeEnd :: int
  flPgOld :: string
  flPgNew :: string
  flExecute :: bool
  flDeleteSource :: bool
  flBatch :: int

definition reshard_main :: "bool \<Rightarrow> (nat \<Rightarrow> shard_env) \<Rightarrow> reshard_flags \<Rightarrow> databases \<Rightarrow> ((err option + (int \<times> nat \<times> nat) option) \<times> databases) option" where
  "reshard_main connected E fl dbs =
     (let r = newRouter (flStrategy fl) (flOld fl) (flNew fl) (flReplicas fl) in
      if flExecute fl then map_option (map_prod Inl id) (runExecute connected E (flPgOld fl) (flPgNew fl) r (flBatch fl) (flDeleteSource fl) dbs)
      else Some (Inr (runPlan r (flRangeStart fl) (flRangeEnd fl)), dbs))"

section \<open>The batches do not matter\<close>

lemma move_rows_append:
  "move_rows E del r olds news pool (xs @ ys) dbs =
     (case move_rows E del r olds news pool xs dbs of (Some e, dbs) \<Rightarrow> (Some e, dbs) | (None, dbs) \<Rightarrow> move_rows E del r olds news pool ys dbs)"
  by (induction xs arbitrary: dbs) (auto split: option.splits prod.splits)

lemma move_batches_rows:
  assumes "0 < batch"
  shows "move_batches E del r olds news pool batch xs dbs = Some (move_rows E del r olds news pool xs dbs)"
proof (induction "length xs" arbitrary: xs dbs rule: less_induct)
  case less
  show ?case
  proof (cases "xs = []")
    case True
    then show ?thesis by (simp add: move_batches.simps)
  next
    case False
    let ?n = "nat batch"
    have shorter: "length (drop ?n xs) < length xs" using False assms by simp
    have "move_rows E del r olds news pool xs dbs = move_rows E del r olds news pool (take ?n xs @ drop ?n xs) dbs" by simp
    then show ?thesis using False assms less [OF shorter]
      by (subst move_batches.simps) (auto simp: move_rows_append simp del: append_take_drop_id split: option.splits prod.splits)
  qed
qed

text \<open>With a batch of zero the tool does not end, whatever there is to move.\<close>

lemma zero_batch_loops:
  assumes "xs \<noteq> []"
  shows "move_batches E del r olds news pool 0 xs dbs = None"
proof (rule ccontr)
  assume "move_batches E del r olds news pool 0 xs dbs \<noteq> None"
  then obtain y where y: "move_batches E del r olds news pool 0 xs dbs = Some y" by blast
  have "0 = (0 :: int) \<longrightarrow> xs = []"
  proof (rule move_batches.raw_induct [where P = "\<lambda>E del r olds news pool b xs dbs y. b = 0 \<longrightarrow> xs = []", OF _ y])
    fix f E del r olds news pool b xs dbs y
    assume ih: "\<And>E del r olds news pool b xs dbs y. f E del r olds news pool b xs dbs = Some y \<Longrightarrow> b = 0 \<longrightarrow> xs = []"
      and eq: "(if xs = [] then Some (None, dbs) else if b < 0 then Some (Some ErrPanic, dbs)
        else case move_rows E del r olds news pool (take (nat b) xs) dbs of
          (Some e, dbs) \<Rightarrow> Some (Some e, dbs) | (None, dbs) \<Rightarrow> f E del r olds news pool b (drop (nat b) xs) dbs) = Some y"
    show "b = 0 \<longrightarrow> xs = []"
    proof
      assume "b = 0"
      then have "xs = [] \<or> f E del r olds news pool 0 xs dbs = Some y" using eq by (simp split: if_splits)
      then show "xs = []" using ih by blast
    qed
  qed
  then show False using assms by simp
qed

section \<open>What the tool keeps\<close>

text \<open>\<open>newer x y\<close>: \<open>y\<close> is a later state of the role, or has the same content (the fencing epoch and the dates aside).\<close>

definition same_content :: "move_row \<Rightarrow> move_row \<Rightarrow> bool" where
  "same_content x y \<longleftrightarrow> mvAccountID y = mvAccountID x \<and> mvZoneID y = mvZoneID x \<and> mvName y = mvName x \<and> mvLevel y = mvLevel x
     \<and> mvSnap y = mvSnap x \<and> mvVersion y = mvVersion x"

definition newer :: "move_row \<Rightarrow> move_row \<Rightarrow> bool" where
  "newer x y \<longleftrightarrow> mvID y = mvID x \<and> (mvVersion x < mvVersion y \<or> same_content x y)"

lemma newer_refl [simp]: "newer x x"
  by (simp add: newer_def same_content_def)

lemma newer_trans: "newer x y \<Longrightarrow> newer y z \<Longrightarrow> newer x z"
  by (auto simp: newer_def same_content_def)

lemma newer_id: "newer x y \<Longrightarrow> mvID y = mvID x"
  by (simp add: newer_def)

lemma newer_copy [simp]: "newer x (copy_of y) = newer x y" "newer x (y\<lparr>mvCreatedAt := c\<rparr>) = newer x y" "mvID (copy_of y) = mvID y"
  by (simp_all add: newer_def same_content_def copy_of_def)

text \<open>The database of a role before and after.\<close>

definition old_home :: "routes \<Rightarrow> string list \<Rightarrow> int \<Rightarrow> string" where
  "old_home r olds i = olds ! nat (old_index r olds i)"

definition new_home :: "routes \<Rightarrow> string list \<Rightarrow> int \<Rightarrow> string" where
  "new_home r news i = news ! nat (new_index r news i)"

text \<open>
  Game processes that still use the old layout: they replace rows of a role in its old database by later
  ones and leave every other row alone.
\<close>

definition others :: "(int \<Rightarrow> string) \<Rightarrow> (databases \<Rightarrow> databases) \<Rightarrow> bool" where
  "others home f \<longleftrightarrow> (\<forall>dbs dsn. \<exists>g. f dbs dsn = map g (dbs dsn) \<and> (\<forall>x \<in> set (dbs dsn). newer x (g x)) \<and> (\<forall>x. home (mvID x) \<noteq> dsn \<longrightarrow> g x = x))"

definition calm_row :: "(int \<Rightarrow> string) \<Rightarrow> row_env \<Rightarrow> bool" where
  "calm_row home E \<longleftrightarrow> others home (weBefore E) \<and> others home (weBetween E) \<and> others home (weLast E)"

definition calm_shard :: "(int \<Rightarrow> string) \<Rightarrow> shard_env \<Rightarrow> bool" where
  "calm_shard home E \<longleftrightarrow> others home (heBefore E) \<and> (\<forall>i. calm_row home (heRow E i))"

text \<open>
  The invariant: ids are unique in a database, every row is a later state of a row of the start and is in one
  of the two databases of its role, and every role is still in one of them.
\<close>

definition reshard_inv :: "(int \<Rightarrow> string) \<Rightarrow> (int \<Rightarrow> string) \<Rightarrow> databases \<Rightarrow> databases \<Rightarrow> bool" where
  "reshard_inv home dest dbs0 dbs \<longleftrightarrow>
     (\<forall>dsn. distinct (map mvID (dbs dsn))) \<and>
     (\<forall>dsn. \<forall>y \<in> set (dbs dsn). dsn \<in> {home (mvID y), dest (mvID y)} \<and> (\<exists>x \<in> set (dbs0 (home (mvID y))). newer x y)) \<and>
     (\<forall>i. \<forall>x \<in> set (dbs0 (home i)). mvID x = i \<longrightarrow> i \<in> mvID ` set (dbs (home i)) \<union> mvID ` set (dbs (dest i)))"

definition placed :: "(int \<Rightarrow> string) \<Rightarrow> databases \<Rightarrow> bool" where
  "placed home dbs \<longleftrightarrow> (\<forall>dsn. distinct (map mvID (dbs dsn)) \<and> (\<forall>y \<in> set (dbs dsn). home (mvID y) = dsn))"

lemma placed_inv: "placed home dbs \<Longrightarrow> reshard_inv home dest dbs dbs"
  unfolding placed_def reshard_inv_def
proof (intro conjI allI ballI impI)
  fix dsn y
  assume "\<forall>dsn. distinct (map mvID (dbs dsn)) \<and> (\<forall>y \<in> set (dbs dsn). home (mvID y) = dsn)" and "y \<in> set (dbs dsn)"
  then show "dsn \<in> {home (mvID y), dest (mvID y)}" "\<exists>x \<in> set (dbs (home (mvID y))). newer x y" by (auto intro: bexI [of _ y])
qed auto

lemma others_ids: "others home f \<Longrightarrow> map mvID (f dbs dsn) = map mvID (dbs dsn)"
proof -
  assume "others home f"
  then obtain g where g: "f dbs dsn = map g (dbs dsn)" "\<forall>x \<in> set (dbs dsn). newer x (g x)" unfolding others_def by blast
  then show ?thesis by (auto simp: newer_id)
qed

lemma others_rows:
  assumes "others home f" and "y \<in> set (f dbs dsn)"
  shows "\<exists>x \<in> set (dbs dsn). newer x y \<and> (home (mvID y) \<noteq> dsn \<longrightarrow> y = x)"
proof -
  obtain g where g: "f dbs dsn = map g (dbs dsn)" "\<forall>x \<in> set (dbs dsn). newer x (g x)" "\<forall>x. home (mvID x) \<noteq> dsn \<longrightarrow> g x = x"
    using assms(1) unfolding others_def by blast
  then show ?thesis using assms(2) newer_id by fastforce
qed

lemma others_keep: "others home f \<Longrightarrow> y \<in> set (dbs dsn) \<Longrightarrow> home (mvID y) \<noteq> dsn \<Longrightarrow> y \<in> set (f dbs dsn)"
  unfolding others_def by (metis image_eqI set_map)

lemma others_inv:
  assumes "others home f" and "reshard_inv home dest dbs0 dbs"
  shows "reshard_inv home dest dbs0 (f dbs)"
proof -
  have ids: "map mvID (f dbs dsn) = map mvID (dbs dsn)" "mvID ` set (f dbs dsn) = mvID ` set (dbs dsn)" for dsn
    using others_ids [OF assms(1)] by (metis set_map)+
  have "dsn \<in> {home (mvID y), dest (mvID y)} \<and> (\<exists>x \<in> set (dbs0 (home (mvID y))). newer x y)" if y: "y \<in> set (f dbs dsn)" for dsn y
  proof -
    obtain x where x: "x \<in> set (dbs dsn)" "newer x y" using others_rows [OF assms(1) y] by blast
    then have "dsn \<in> {home (mvID x), dest (mvID x)}" "\<exists>z \<in> set (dbs0 (home (mvID x))). newer z x" using assms(2) by (auto simp: reshard_inv_def)
    then show ?thesis using newer_id [OF x(2)] newer_trans x(2) by auto
  qed
  then show ?thesis using assms(2) unfolding reshard_inv_def ids by blast
qed

lemma upsert_row_facts:
  "mvID ` set (upsert_row x rows) = insert (mvID x) (mvID ` set rows)"
  "distinct (map mvID rows) \<Longrightarrow> distinct (map mvID (upsert_row x rows))"
  "y \<in> set (upsert_row x rows) \<Longrightarrow> (mvID y \<noteq> mvID x \<and> y \<in> set rows) \<or> (\<exists>c. y = x\<lparr>mvCreatedAt := c\<rparr>)"
proof -
  have ids: "map mvID (map (\<lambda>y. if mvID y = mvID x then x\<lparr>mvCreatedAt := mvCreatedAt y\<rparr> else y) rows) = map mvID rows" by auto
  show "mvID ` set (upsert_row x rows) = insert (mvID x) (mvID ` set rows)"
  proof (cases "mvID x \<in> mvID ` set rows")
    case True
    have "mvID ` set (upsert_row x rows) = set (map mvID (upsert_row x rows))" by simp
    also have "\<dots> = mvID ` set rows" using True ids by (simp only: upsert_row_def if_True set_map)
    finally show ?thesis using True by auto
  qed (simp add: upsert_row_def)
  show "distinct (map mvID rows) \<Longrightarrow> distinct (map mvID (upsert_row x rows))"
    using ids by (cases "mvID x \<in> mvID ` set rows") (simp_all only: upsert_row_def if_True if_False map_append distinct_append, auto)
  show "y \<in> set (upsert_row x rows) \<Longrightarrow> (mvID y \<noteq> mvID x \<and> y \<in> set rows) \<or> (\<exists>c. y = x\<lparr>mvCreatedAt := c\<rparr>)"
    by (auto simp: upsert_row_def split: if_splits intro: exI [of _ "mvCreatedAt x"]) (metis image_eqI)
qed

definition ids_at :: "databases \<Rightarrow> string \<Rightarrow> int set" where
  "ids_at dbs dsn = mvID ` set (dbs dsn)"

text \<open>How the tool moves on: roles do not leave their new database, and do not come back to the old one.\<close>

definition onward :: "(int \<Rightarrow> string) \<Rightarrow> (int \<Rightarrow> string) \<Rightarrow> databases \<Rightarrow> databases \<Rightarrow> bool" where
  "onward home dest dbs dbs' \<longleftrightarrow> (\<forall>i. home i \<noteq> dest i \<longrightarrow> (i \<in> ids_at dbs (dest i) \<longrightarrow> i \<in> ids_at dbs' (dest i)) \<and> (i \<in> ids_at dbs' (home i) \<longrightarrow> i \<in> ids_at dbs (home i)))"

lemma onward_refl [simp]: "onward home dest dbs dbs"
  by (simp add: onward_def)

lemma onward_trans: "onward home dest a b \<Longrightarrow> onward home dest b c \<Longrightarrow> onward home dest a c"
  unfolding onward_def by blast

lemma onward_others: "others home f \<Longrightarrow> onward home dest dbs (f dbs)"
proof -
  assume "others home f"
  then have "ids_at (f dbs) dsn = ids_at dbs dsn" for dsn using others_ids unfolding ids_at_def by (metis set_map)
  then show ?thesis by (simp add: onward_def)
qed

definition tracked :: "(int \<Rightarrow> string) \<Rightarrow> databases \<Rightarrow> move_row \<Rightarrow> bool" where
  "tracked home dbs0 x \<longleftrightarrow> (\<exists>x0 \<in> set (dbs0 (home (mvID x))). newer x0 x)"

lemma upsert_inv:
  assumes "reshard_inv home dest dbs0 dbs" and "tracked home dbs0 x" and "dst = dest (mvID x)" and "home (mvID x) \<noteq> dst"
  shows "reshard_inv home dest dbs0 (dbs(dst := upsert_row (copy_of x) (dbs dst))) \<and> onward home dest dbs (dbs(dst := upsert_row (copy_of x) (dbs dst)))
    \<and> mvID x \<in> ids_at (dbs(dst := upsert_row (copy_of x) (dbs dst))) dst"
proof -
  let ?d = "dbs(dst := upsert_row (copy_of x) (dbs dst))"
  have ids: "ids_at ?d dsn = (if dsn = dst then insert (mvID x) (ids_at dbs dst) else ids_at dbs dsn)" for dsn
    by (simp add: ids_at_def upsert_row_facts(1))
  have "dsn \<in> {home (mvID y), dest (mvID y)} \<and> (\<exists>x \<in> set (dbs0 (home (mvID y))). newer x y)" if y: "y \<in> set (?d dsn)" for dsn y
  proof (cases "y \<in> set (dbs dsn)")
    case True
    then show ?thesis using assms(1) by (simp add: reshard_inv_def)
  next
    case False
    then have "dsn = dst" "y \<in> set (upsert_row (copy_of x) (dbs dst))" using y by (auto split: if_splits)
    then obtain c where "y = (copy_of x)\<lparr>mvCreatedAt := c\<rparr>" using upsert_row_facts(3) False by blast
    then show ?thesis using \<open>dsn = dst\<close> assms(2,3) by (auto simp: tracked_def)
  qed
  moreover have "distinct (map mvID (?d dsn))" for dsn using assms(1) upsert_row_facts(2) by (auto simp: reshard_inv_def)
  moreover have "i \<in> ids_at ?d (home i) \<union> ids_at ?d (dest i)" if "z \<in> set (dbs0 (home i))" "mvID z = i" for i z
  proof -
    have "i \<in> ids_at dbs (home i) \<union> ids_at dbs (dest i)" using assms(1) that unfolding reshard_inv_def ids_at_def by blast
    then show ?thesis unfolding ids by (auto split: if_splits)
  qed
  ultimately have inv: "reshard_inv home dest dbs0 ?d" unfolding reshard_inv_def ids_at_def by blast
  have "onward home dest dbs ?d" using assms(3,4) unfolding onward_def ids by auto
  then show ?thesis using inv ids [of dst] by auto
qed

lemma row_of_Some: "row_of i rows = Some y \<Longrightarrow> y \<in> set rows \<and> mvID y = i"
  unfolding row_of_def using find_Some_iff [of "\<lambda>y. mvID y = i" rows y] by auto

lemma same_id_same_row: "distinct (map mvID rows) \<Longrightarrow> x \<in> set rows \<Longrightarrow> y \<in> set rows \<Longrightarrow> mvID x = mvID y \<Longrightarrow> x = y"
  by (auto simp: distinct_map dest: inj_onD)

lemma delete_inv:
  assumes "reshard_inv home dest dbs0 dbs" and "pool \<in> {home (mvID x), dest (mvID x)}" and "home (mvID x) \<noteq> dest (mvID x)"
    and "y \<in> set (dbs (dest (mvID x)))" and "mvID y = mvID x" and "mvOwnerEpoch y = mvOwnerEpoch x + 1"
  shows "reshard_inv home dest dbs0 (dbs(pool := filter (\<lambda>y. \<not> same_row x y) (dbs pool))) \<and> onward home dest dbs (dbs(pool := filter (\<lambda>y. \<not> same_row x y) (dbs pool)))"
proof (cases "pool = home (mvID x)")
  case False
  then have "\<not> same_row x z" if "z \<in> set (dbs pool)" for z
    using assms that same_id_same_row [of "dbs pool" z y] by (auto simp: reshard_inv_def same_row_def)
  then have "filter (\<lambda>y. \<not> same_row x y) (dbs pool) = dbs pool" by (simp add: filter_id_conv)
  then show ?thesis using assms(1) by simp
next
  case True
  let ?d = "dbs(pool := filter (\<lambda>y. \<not> same_row x y) (dbs pool))"
  have sub: "set (?d dsn) \<subseteq> set (dbs dsn)" for dsn by auto
  have gone: "i = mvID x" if "i \<in> ids_at dbs dsn" "i \<notin> ids_at ?d dsn" for i dsn
    using that by (auto simp: ids_at_def same_row_def split: if_splits)
  have stays: "mvID x \<in> ids_at ?d (dest (mvID x))" using assms(3-5) True by (auto simp: ids_at_def image_iff intro: bexI [of _ y])
  have "distinct (map mvID (?d dsn))" for dsn using assms(1) by (auto simp: reshard_inv_def distinct_map_filter)
  moreover have "i \<in> ids_at ?d (home i) \<union> ids_at ?d (dest i)" if "z \<in> set (dbs0 (home i))" "mvID z = i" for i z
  proof (cases "i = mvID x")
    case False
    have "i \<in> ids_at dbs (home i) \<union> ids_at dbs (dest i)" using assms(1) that unfolding reshard_inv_def ids_at_def by blast
    then show ?thesis using gone False by blast
  qed (use stays in simp)
  ultimately have "reshard_inv home dest dbs0 ?d" using assms(1) sub unfolding reshard_inv_def ids_at_def by (meson subsetD)
  moreover have "i \<in> ids_at ?d dsn \<Longrightarrow> i \<in> ids_at dbs dsn" for i dsn using sub unfolding ids_at_def by blast
  then have "onward home dest dbs ?d" unfolding onward_def using gone stays by metis
  ultimately show ?thesis by blast
qed

lemma move_one_inv:
  assumes inv: "reshard_inv home dest dbs0 dbs" and calm: "calm_row home E" and x: "tracked home dbs0 x"
    and pool: "pool \<in> {home (mvID x), dest (mvID x)}" and ne: "home (mvID x) \<noteq> dest (mvID x)"
    and run: "move_one E del pool (dest (mvID x)) x dbs = (e, dbs')"
  shows "reshard_inv home dest dbs0 dbs' \<and> onward home dest dbs dbs' \<and>
    (e = None \<longrightarrow> mvID x \<in> ids_at dbs' (dest (mvID x)) \<and> (del \<and> pool = home (mvID x) \<longrightarrow> mvID x \<notin> ids_at dbs' (home (mvID x))))"
proof -
  let ?dst = "dest (mvID x)"
  let ?d1 = "weBefore E dbs"
  let ?d2 = "?d1(?dst := upsert_row (copy_of x) (?d1 ?dst))"
  let ?d3 = "weBetween E ?d2"
  let ?dl = "weLast E ?d3"
  let ?d4 = "?dl(pool := filter (\<lambda>y. \<not> same_row x y) (?dl pool))"
  have b: "others home (weBefore E)" "others home (weBetween E)" "others home (weLast E)" using calm by (simp_all add: calm_row_def)
  have i1: "reshard_inv home dest dbs0 ?d1" "onward home dest dbs ?d1" using others_inv [OF b(1) inv] onward_others [OF b(1)] by auto
  have i2: "reshard_inv home dest dbs0 ?d2" "onward home dest ?d1 ?d2" "mvID x \<in> ids_at ?d2 ?dst" using upsert_inv [OF i1(1) x refl ne] by auto
  have i3: "reshard_inv home dest dbs0 ?d3" "onward home dest ?d2 ?d3" using others_inv [OF b(2) i2(1)] onward_others [OF b(2)] by auto
  have il: "reshard_inv home dest dbs0 ?dl" "onward home dest ?d3 ?dl" using others_inv [OF b(3) i3(1)] onward_others [OF b(3)] by auto
  have o2: "onward home dest dbs ?d2" and o3: "onward home dest dbs ?d3" and ol: "onward home dest dbs ?dl" using i1 i2 i3 il onward_trans by blast+
  have at3: "mvID x \<in> ids_at ?d3 ?dst" using i2(3) i3(2) ne unfolding onward_def by blast
  define good :: "move_row \<Rightarrow> bool" where "good y \<longleftrightarrow> mvVersion y = mvVersion x \<and> mvOwnerEpoch y = mvOwnerEpoch x + 1 \<and> mvSnap y = mvSnap x" for y
  have del: "reshard_inv home dest dbs0 ?d4 \<and> onward home dest ?dl ?d4" if y: "row_of (mvID x) (?d3 ?dst) = Some y" "good y" for y
  proof -
    have m: "y \<in> set (?d3 ?dst)" "mvID y = mvID x" using row_of_Some [OF y(1)] by blast+
    then have "y \<in> set (?dl ?dst)" using others_keep [OF b(3)] ne by metis
    then show ?thesis using delete_inv [OF il(1) pool ne] m(2) y(2) unfolding good_def by blast
  qed
  have i4: "reshard_inv home dest dbs0 ?d4" "onward home dest dbs ?d4" if "row_of (mvID x) (?d3 ?dst) = Some y" "good y" for y
    using del [OF that] ol onward_trans by blast+
  have out: "dbs' = ?d1 \<and> e \<noteq> None \<or> dbs' = ?d2 \<and> e \<noteq> None \<or> dbs' = ?d3 \<and> (e = None \<longrightarrow> \<not> del) \<or>
      dbs' = ?dl \<and> e \<noteq> None \<or> dbs' = ?d4 \<and> (\<exists>y. row_of (mvID x) (?d3 ?dst) = Some y \<and> good y) \<and> (e = None \<longrightarrow> list_ex (same_row x) (?dl pool))"
    using run unfolding move_one_def Let_def good_def
    by (cases "weInsert E"; cases "weDelete E") (auto split: if_splits option.splits bool.splits)
  have gone: "mvID x \<notin> ids_at ?d4 (home (mvID x))" if hit: "list_ex (same_row x) (?dl pool)" and src: "pool = home (mvID x)"
  proof -
    obtain z where z: "z \<in> set (?dl pool)" "same_row x z" using hit by (auto simp: list_ex_iff)
    have "same_row x y" if "y \<in> set (?dl pool)" "mvID y = mvID x" for y
    proof -
      have "distinct (map mvID (?dl pool))" using il(1) by (simp add: reshard_inv_def)
      from same_id_same_row [OF this that(1) z(1)] that(2) z(2) show ?thesis by (simp add: same_row_def)
    qed
    then show ?thesis using src by (auto simp: ids_at_def)
  qed
  have at4: "mvID x \<in> ids_at ?d4 ?dst" if "row_of (mvID x) (?d3 ?dst) = Some y" "good y" for y
    using del [OF that] il(2) at3 ne unfolding onward_def by blast
  from out show ?thesis
  proof (elim disjE)
    assume "dbs' = ?d4 \<and> (\<exists>y. row_of (mvID x) (?d3 ?dst) = Some y \<and> good y) \<and> (e = None \<longrightarrow> list_ex (same_row x) (?dl pool))"
    then show ?thesis using i4 gone at4 by blast
  qed (use i1 i2 i3 il o2 o3 ol at3 in auto)
qed

definition routable :: "routes \<Rightarrow> string list \<Rightarrow> string list \<Rightarrow> bool" where
  "routable r olds news \<longleftrightarrow> olds \<noteq> [] \<and> news \<noteq> [] \<and> (\<forall>i. 0 \<le> oldOf r i \<and> 0 \<le> newOf r i)"

lemma routable_dsn:
  assumes "routable r olds news"
  shows "dsn_at olds (old_index r olds i) = Some (old_home r olds i)" "dsn_at news (new_index r news i) = Some (new_home r news i)"
    "old_home r olds i \<in> set olds" "0 \<le> old_index r olds i" "old_index r olds i < int (length olds)" "new_index r news i < int (length news)"
  using assms go_rem_nonneg [of "oldOf r i" "int (length olds)"] go_rem_nonneg [of "newOf r i" "int (length news)"]
  by (auto simp: routable_def dsn_at_def old_home_def new_home_def old_index_def new_index_def nat_less_iff)

definition handled :: "(int \<Rightarrow> string) \<Rightarrow> (int \<Rightarrow> string) \<Rightarrow> bool \<Rightarrow> int \<Rightarrow> databases \<Rightarrow> bool" where
  "handled home dest del i dbs \<longleftrightarrow> i \<in> ids_at dbs (dest i) \<and> (del \<longrightarrow> i \<notin> ids_at dbs (home i))"

lemma handled_onward: "handled home dest del i dbs \<Longrightarrow> onward home dest dbs dbs' \<Longrightarrow> home i \<noteq> dest i \<Longrightarrow> handled home dest del i dbs'"
  unfolding handled_def onward_def by blast

lemma move_rows_inv:
  assumes "routable r olds news" and "home = old_home r olds" and "dest = new_home r news"
    and "reshard_inv home dest dbs0 dbs" and "\<forall>i. calm_row home (E i)" and "\<forall>x \<in> set xs. tracked home dbs0 x \<and> pool \<in> {home (mvID x), dest (mvID x)}"
    and "move_rows E del r olds news pool xs dbs = (e, dbs')"
  shows "reshard_inv home dest dbs0 dbs' \<and> onward home dest dbs dbs' \<and>
    (e = None \<longrightarrow> (\<forall>x \<in> set xs. home (mvID x) = pool \<and> pool \<noteq> dest (mvID x) \<longrightarrow> handled home dest del (mvID x) dbs'))"
  using assms(4-)
proof (induction xs arbitrary: dbs)
  case Nil
  then show ?case by auto
next
  case (Cons x xs)
  let ?i = "mvID x"
  have at: "dsn_at olds (old_index r olds ?i) = Some (home ?i)" "dsn_at news (new_index r news ?i) = Some (dest ?i)"
    using routable_dsn [OF assms(1), of ?i] assms(2,3) by simp_all
  show ?case
  proof (cases "home ?i = dest ?i")
    case True
    then have "move_rows E del r olds news pool xs dbs = (e, dbs')" using Cons.prems(4) at by simp
    from Cons.IH [OF Cons.prems(1,2) _ this] Cons.prems(3) True show ?thesis by auto
  next
    case False
    obtain e1 dbs1 where one: "move_one (E ?i) del pool (dest ?i) x dbs = (e1, dbs1)" by fastforce
    have I: "reshard_inv home dest dbs0 dbs1" "onward home dest dbs dbs1"
        "e1 = None \<longrightarrow> ?i \<in> ids_at dbs1 (dest ?i) \<and> (del \<and> pool = home ?i \<longrightarrow> ?i \<notin> ids_at dbs1 (home ?i))"
      using move_one_inv [OF Cons.prems(1) _ _ _ False one] Cons.prems(2,3) by auto
    show ?thesis
    proof (cases e1)
      case (Some err)
      then have "e = Some err" "dbs' = dbs1" using Cons.prems(4) at False one by auto
      then show ?thesis using I by simp
    next
      case None
      then have run: "move_rows E del r olds news pool xs dbs1 = (e, dbs')" using Cons.prems(4) at False one by simp
      note R = Cons.IH [OF I(1) Cons.prems(2) _ run]
      have inv: "reshard_inv home dest dbs0 dbs'" "onward home dest dbs1 dbs'" and rest: "e = None \<longrightarrow> (\<forall>x \<in> set xs. home (mvID x) = pool \<and> pool \<noteq> dest (mvID x) \<longrightarrow> handled home dest del (mvID x) dbs')"
        using R Cons.prems(3) by auto
      have "handled home dest del ?i dbs1" if "home ?i = pool" using I(3) None that by (simp add: handled_def)
      then have "handled home dest del ?i dbs'" if "home ?i = pool" using handled_onward [OF _ inv(2) False] that by simp
      then show ?thesis using inv rest onward_trans [OF I(2) inv(2)] by auto
    qed
  qed
qed

lemma run_shards_inv:
  assumes "routable r olds news" and "home = old_home r olds" and "dest = new_home r news" and "0 < batch"
    and "reshard_inv home dest dbs0 dbs" and "\<forall>i. calm_shard home (E i)"
    and "run_shards E del r olds news batch shards dbs = y"
  shows "\<exists>e dbs'. y = Some (e, dbs') \<and> reshard_inv home dest dbs0 dbs' \<and> onward home dest dbs dbs' \<and>
    (e = None \<longrightarrow> (\<forall>i x. x \<in> set (dbs0 (home i)) \<and> mvID x = i \<and> home i \<noteq> dest i \<and> old_index r olds i \<noteq> new_index r news i \<and> home i \<in> snd ` set shards
       \<longrightarrow> handled home dest del i dbs'))"
  using assms(5-)
proof (induction shards arbitrary: dbs)
  case Nil
  then show ?case by auto
next
  case (Cons sh shards)
  obtain k pool where sh: "sh = (k, pool)" by (cases sh)
  let ?d1 = "heBefore (E k) dbs"
  have oth: "others home (heBefore (E k))" and calm: "\<forall>i. calm_row home (heRow (E k) i)" using Cons.prems(2) by (simp_all add: calm_shard_def)
  have i1: "reshard_inv home dest dbs0 ?d1" "onward home dest dbs ?d1" using others_inv [OF oth Cons.prems(1)] onward_others [OF oth] by auto
  show ?case
  proof (cases "heScan (E k) = Done")
    case False
    then show ?thesis using Cons.prems(3) sh i1 by (auto simp: Let_def)
  next
    case True
    let ?xs = "to_move r olds news (?d1 pool)"
    obtain e2 dbs2 where mv: "move_rows (heRow (E k)) del r olds news pool ?xs ?d1 = (e2, dbs2)" by fastforce
    have "\<forall>x \<in> set ?xs. tracked home dbs0 x \<and> pool \<in> {home (mvID x), dest (mvID x)}"
      using i1(1) unfolding reshard_inv_def to_move_def tracked_def by auto
    note M = move_rows_inv [OF assms(1-3) i1(1) calm this mv]
    have o2: "onward home dest dbs dbs2" using M i1(2) onward_trans by blast
    show ?thesis
    proof (cases e2)
      case (Some err)
      then show ?thesis using Cons.prems(3) sh True mv M o2 move_batches_rows [OF assms(4)] by (auto simp: Let_def)
    next
      case None
      then have "run_shards E del r olds news batch shards dbs2 = y" using Cons.prems(3) sh True mv move_batches_rows [OF assms(4)] by (simp add: Let_def)
      from Cons.IH [OF _ Cons.prems(2) this] M obtain e dbs' where R: "y = Some (e, dbs')" "reshard_inv home dest dbs0 dbs'" "onward home dest dbs2 dbs'"
          "e = None \<longrightarrow> (\<forall>i x. x \<in> set (dbs0 (home i)) \<and> mvID x = i \<and> home i \<noteq> dest i \<and> old_index r olds i \<noteq> new_index r news i \<and> home i \<in> snd ` set shards
            \<longrightarrow> handled home dest del i dbs')" by blast
      have "handled home dest del i dbs'" if i: "x \<in> set (dbs0 (home i))" "mvID x = i" "home i \<noteq> dest i" "old_index r olds i \<noteq> new_index r news i" "home i = pool" for i x
      proof -
        have "handled home dest del i dbs2"
        proof (cases "i \<in> ids_at ?d1 pool")
          case True
          then obtain z where "z \<in> set (?d1 pool)" "mvID z = i" by (auto simp: ids_at_def)
          then have "z \<in> set ?xs" using i(4) by (simp add: to_move_def)
          then show ?thesis using M None i \<open>mvID z = i\<close> by auto
        next
          case False
          have "i \<in> ids_at ?d1 (home i) \<union> ids_at ?d1 (dest i)" using i1(1) i(1,2) unfolding reshard_inv_def ids_at_def by blast
          then have "handled home dest del i ?d1" using False i(5) by (auto simp: handled_def)
          then show ?thesis using handled_onward M i(3) by blast
        qed
        then show ?thesis using handled_onward R(3) i(3) by blast
      qed
      note here = this
      have img: "home i \<in> snd ` set (sh # shards) \<longleftrightarrow> home i = pool \<or> home i \<in> snd ` set shards" for i using sh by auto
      show ?thesis unfolding img using R here onward_trans [OF o2 R(3)] by blast
    qed
  qed
qed

lemma inv_survivor:
  assumes "placed home dbs0" and "reshard_inv home dest dbs0 dbs" and "x \<in> set (dbs0 dsn)" and "y \<in> set (dbs d)" and "mvID y = mvID x"
  shows "newer x y"
proof -
  have home: "home (mvID x) = dsn" using assms(1,3) by (simp add: placed_def)
  obtain z where z: "z \<in> set (dbs0 dsn)" "newer z y" using assms(2,4,5) home unfolding reshard_inv_def by metis
  have "mvID z = mvID x" using newer_id [OF z(2)] assms(5) by simp
  moreover have "distinct (map mvID (dbs0 dsn))" using assms(1) by (simp add: placed_def)
  ultimately show ?thesis using same_id_same_row z assms(3) by metis
qed


definition demo_role :: move_row where
  "demo_role = \<lparr>mvID = 4, mvAccountID = 1, mvZoneID = 1, mvName = ''ann'', mvLevel = 3, mvSnap = ''{}'', mvVersion = 5, mvOwnerEpoch = 2, mvCreatedAt = 0, mvUpdatedAt = 0\<rparr>"

definition demo_dbs :: databases where
  "demo_dbs = (\<lambda>dsn. if dsn = ''a'' then [demo_role] else [])"

definition quiet_shard :: shard_env where
  "quiet_shard = \<lparr>heScan = Done, heBefore = id, heRow = (\<lambda>_. \<lparr>weInsert = Done, weVerify = Done, weDelete = Done, weBefore = id, weBetween = id, weLast = id\<rparr>)\<rparr>"

abbreviation two_three :: routes where
  "two_three \<equiv> newRouter ''modulus'' 2 3 0"

lemma demo_lists: "reshard_splitCSV ''a,b'' = [''a'', ''b'']" "reshard_splitCSV ''a,b,c'' = [''a'', ''b'', ''c'']" "reshard_splitCSV ''a'' = [''a'']" "reshard_splitCSV ''b'' = [''b'']"
  by (simp_all add: reshard_splitCSV_def TrimSpace_plain plain_def space_codes_def)

lemma two_three_routes: "oldOf two_three i = i mod 2" "newOf two_three i = i mod 3"
  by (simp_all add: newRouter_def i32_def ForRole_mod in_i32_def)

lemma two_three_index: "old_index two_three [''a'', ''b''] i = i mod 2" "new_index two_three [''a'', ''b'', ''c''] i = i mod 3"
  by (simp_all add: old_index_def new_index_def two_three_routes go_rem_nonneg)

lemma quiet_shard_calm: "calm_shard home quiet_shard"
proof -
  have "others home id" unfolding others_def by (metis id_apply list.map_id newer_refl)
  then show ?thesis by (simp add: calm_shard_def calm_row_def quiet_shard_def)
qed


section \<open>Where the tool falls short\<close>

text \<open>
  The rows to move are chosen by comparing positions in the two lists and not databases: with two
  different lists, roles whose position stays are not copied, and the run reports success.
\<close>

lemma same_position_left_behind:
  "runExecute True (\<lambda>_. quiet_shard) ''a'' ''b'' (newRouter ''modulus'' 1 1 0) 500 False demo_dbs = Some (None, demo_dbs)"
proof -
  have "oldOf (newRouter ''modulus'' 1 1 0) i = 0" "newOf (newRouter ''modulus'' 1 1 0) i = 0" for i
    by (simp_all add: newRouter_def i32_def ForRole_mod in_i32_def)
  then have "to_move (newRouter ''modulus'' 1 1 0) [''a''] [''b''] (demo_dbs ''a'') = []"
    by (simp add: to_move_def old_index_def new_index_def go_rem_def)
  then show ?thesis by (simp add: runExecute_def demo_lists quiet_shard_def enumerate_eq_zip move_batches_rows Let_def)
qed

text \<open>
  With \<^verbatim>\<open>-delete-source\<close> and shared databases, a role that moves to a database scanned later is found there
  again; the copy onto itself raises its epoch, the delete does not match, and the run stops.
\<close>

lemma delete_source_stops:
  "map_option fst (runExecute True (\<lambda>_. quiet_shard) ''a,b'' ''a,b,c'' two_three 500 True demo_dbs) = Some (Some (ErrMsg ''source changed during copy''))"
  by (simp add: runExecute_def demo_lists quiet_shard_def enumerate_eq_zip move_batches_rows to_move_def two_three_index demo_dbs_def demo_role_def
      dsn_at_def move_one_def upsert_row_def copy_of_def row_of_def same_row_def Let_def)

text \<open>Running the copy again after the switch to the new layout puts the old state back over the newer one.\<close>

lemma second_run_rolls_back:
  assumes "E = \<lparr>weInsert = Done, weVerify = Done, weDelete = Done, weBefore = id, weBetween = id, weLast = id\<rparr>" and "dbs dst = [y]" and "mvID y = mvID x" and "mvVersion x < mvVersion y"
  shows "\<exists>dbs'. move_one E False pool dst x dbs = (None, dbs') \<and> map mvVersion (dbs' dst) = [mvVersion x]"
  using assms by (simp add: move_one_def upsert_row_def copy_of_def row_of_def Let_def)

text \<open>
  The default strategy places roles by the hash ring, while the role repository routes by the remainder:
  the repository does not find them where the tool puts them.
\<close>

lemma funpow_8: "(f ^^ 8) x = f (f (f (f (f (f (f (f x)))))))"
  by (simp add: eval_nat_numeral)

lemma demo_checksums: "ChecksumIEEE ''2'' = 450215437" "ChecksumIEEE ''game-shard-0#0'' = 3857263551" "ChecksumIEEE ''game-shard-1#0'' = 3828040072"
  by (simp_all add: ChecksumIEEE_def crc_byte_def crc_bit_def funpow_8 of_char_def)

lemma small_numbers: "FormatInt 0 = ''0''" "FormatInt 1 = ''1''" "FormatInt 2 = ''2''"
  by (simp_all add: FormatInt_def nat_digits.simps digit_char_def)

lemma demo_ring_2: "keys (RingForShards 2 1) = [3828040072, 3857263551]" "hashMap (RingForShards 2 1) = [3857263551 \<mapsto> ''game-shard-0'', 3828040072 \<mapsto> ''game-shard-1'']"
proof -
  have "[0..<nat 2] = [0, 1]" by (simp add: numeral_2_eq_2)
  then have "RingForShards 2 1 = Ring_Add (Ring_Add (NewRing 1) [''game-shard-0'']) [''game-shard-1'']"
    unfolding RingForShards_def by (simp only: foldl_Cons foldl_Nil) (simp add: ServiceName_def small_numbers)
  then show "keys (RingForShards 2 1) = [3828040072, 3857263551]" "hashMap (RingForShards 2 1) = [3857263551 \<mapsto> ''game-shard-0'', 3828040072 \<mapsto> ''game-shard-1'']"
    by (simp_all add: Ring_Add_def NewRing_def small_numbers vnode_def demo_checksums)
qed

lemma ring_is_not_runtime: "nodeIndex (Ring_Get (RingForShards 2 1) 2) = 1 \<and> indexForRole 2 2 = 0"
proof -
  have "Ring_Get (RingForShards 2 1) 2 = ''game-shard-1''"
    by (simp add: Ring_Get_def demo_ring_2 small_numbers demo_checksums sort_Search_def search_loop.simps lookup_node_def)
  moreover have "nodeIndex ''game-shard-1'' = 1"
    by (simp add: nodeIndex_def LastIndexByte_def scan_int_def digit_val_def ParseInt_def parse_magnitude_def)
  moreover have "indexForRole 2 2 = 0" by (simp add: indexForRole_def i32_def ForRole_mod in_i32_def)
  ultimately show ?thesis by simp
qed

text \<open>
  Only \<^verbatim>\<open>roles\<close> is copied. The ledger of grants stays behind, so that a grant that was applied before the move
  is applied again by a retry after it.
\<close>

lemma moved_role_granted_again:
  assumes "ledger old (r, src) \<noteq> None" and "src \<noteq> []" and "ledger new (r, src) = None" and "roles new r = Some row"
    and "rVersion row = snVersion s" and "rOwnerEpoch row = snOwnerEpoch s"
  shows "fst (Repo_SaveIdempotent Done r src k s b old) = Inr (snVersion s, False)
    \<and> fst (Repo_SaveIdempotent Done r src k s b new) = Inr (snVersion s + 1, True)"
  using assms by (simp add: Repo_SaveIdempotent_def update_role_def)

end
