(* ===== verification/Migrate.thy ===== *)
theory Migrate
  imports Login_Service "HOL-Library.Multiset"
begin

text \<open>
  The migration tool (\<^verbatim>\<open>tools/migrate/main.go\<close>): versioned scripts applied once to every database, and the
  role directory of the central database rebuilt from the role databases. A script is opaque text; what is
  recorded is which scripts were committed. SHA-256 is a parameter; \<^verbatim>\<open>sort.Slice\<close> leaves the order of equal
  versions open, which the permutation \<open>shuffle\<close> stands for. The advisory lock makes runs on one database
  follow each other.
\<close>

section \<open>Arguments\<close>

definition migrate_splitCSV :: "string \<Rightarrow> string list" where
  "migrate_splitCSV value = filter (\<lambda>t. t \<noteq> []) (map TrimSpace (Split CHR '','' value))"

fun unique_loop :: "string list \<Rightarrow> string list \<Rightarrow> string list" where
  "unique_loop result [] = result"
| "unique_loop result (value # vs) =
     (let value = TrimSpace value in if value = [] \<or> value \<in> set result then unique_loop result vs else unique_loop (result @ [value]) vs)"

definition uniqueDSNs :: "string \<Rightarrow> string \<Rightarrow> string list" where
  "uniqueDSNs central shards = unique_loop [] (central # migrate_splitCSV shards)"

definition envInt :: "environment \<Rightarrow> string \<Rightarrow> int \<Rightarrow> int res" where
  "envInt env name fallback =
     (let value = TrimSpace (env name) in
      if value = [] then Inr fallback
      else case Atoi value of Inl _ \<Rightarrow> Inl ErrPanic | Inr n \<Rightarrow> if n \<le> 0 then Inl ErrPanic else Inr n)"

section \<open>The scripts of a directory\<close>

definition HasSuffix :: "string \<Rightarrow> string \<Rightarrow> bool" where
  "HasSuffix s p \<longleftrightarrow> length p \<le> length s \<and> drop (length s - length p) s = p"

definition TrimSuffix :: "string \<Rightarrow> string \<Rightarrow> string" where
  "TrimSuffix s p = (if HasSuffix s p then take (length s - length p) s else s)"

definition is_migration :: "string \<times> bool \<Rightarrow> bool" where
  "is_migration entry \<longleftrightarrow> (let (name, is_dir) = entry in \<not> is_dir \<and> (name = ''init.sql'' \<or> HasPrefix name ''migrate_'' \<and> HasSuffix name ''.sql''))"

definition migration_version :: "string \<Rightarrow> int res" where
  "migration_version name =
     (if name = ''init.sql'' then Inr 0
      else case Atoi (TrimSuffix (TrimPrefix name ''migrate_v'') ''.sql'') of
        Inl _ \<Rightarrow> Inl (ErrMsg ''must use migrate_vN.sql naming'')
      | Inr n \<Rightarrow> if n \<le> 0 then Inl (ErrMsg ''must use migrate_vN.sql naming'') else Inr n)"

fun collect_migrations :: "(string \<times> bool) list \<Rightarrow> (string \<times> int) list res" where
  "collect_migrations [] = Inr []"
| "collect_migrations (e # es) =
     (if \<not> is_migration e then collect_migrations es
      else case migration_version (fst e) of
        Inl err \<Rightarrow> Inl err
      | Inr v \<Rightarrow> map_sum id (\<lambda>ms. (fst e, v) # ms) (collect_migrations es))"

definition migrationFiles :: "((string \<times> int) list \<Rightarrow> (string \<times> int) list) \<Rightarrow> (string \<times> bool) list res \<Rightarrow> string list res" where
  "migrationFiles shuffle entries =
     (case entries of
        Inl e \<Rightarrow> Inl e
      | Inr es \<Rightarrow> map_sum id (\<lambda>ms. map fst (sort_key snd (shuffle ms))) (collect_migrations es))"

section \<open>One database\<close>

record mig_db =
  mgApplied :: "string \<Rightarrow> string option"
  mgLog :: "(string \<times> string) list"

record file_env =
  feRead :: "string res"
  feQuery :: outcome
  feUpdate :: outcome
  feExec :: outcome
  feCommit :: outcome

text \<open>A transaction that does not reach its commit is rolled back.\<close>

definition apply_file :: "(string \<Rightarrow> string) \<Rightarrow> file_env \<Rightarrow> string \<Rightarrow> mig_db \<Rightarrow> err option \<times> mig_db" where
  "apply_file sha E name db =
     (case feRead E of
        Inl e \<Rightarrow> (Some e, db)
      | Inr sql \<Rightarrow>
          let checksum = sha sql in
          if feQuery E \<noteq> Done then (Some ErrStore, db)
          else case mgApplied db name of
            Some c \<Rightarrow>
              if c = [] then
                (case store_call (feUpdate E) db (Inr (), db\<lparr>mgApplied := (mgApplied db)(name \<mapsto> checksum)\<rparr>) of
                   (Inl e, db) \<Rightarrow> (Some e, db) | (Inr _, db) \<Rightarrow> (None, db))
              else if c \<noteq> checksum then (Some (ErrMsg ''modified after being applied''), db)
              else (None, db)
          | None \<Rightarrow>
              if feExec E \<noteq> Done then (Some (ErrMsg ''apply''), db)
              else (case store_call (feCommit E) db (Inr (), db\<lparr>mgApplied := (mgApplied db)(name \<mapsto> checksum), mgLog := mgLog db @ [(name, sql)]\<rparr>) of
                      (Inl e, db) \<Rightarrow> (Some e, db) | (Inr _, db) \<Rightarrow> (None, db)))"

fun apply_files :: "(string \<Rightarrow> string) \<Rightarrow> (string \<Rightarrow> file_env) \<Rightarrow> string list \<Rightarrow> mig_db \<Rightarrow> err option \<times> mig_db" where
  "apply_files sha E [] db = (None, db)"
| "apply_files sha E (name # names) db =
     (case apply_file sha (E name) name db of
        (Some e, db) \<Rightarrow> (Some e, db)
      | (None, db) \<Rightarrow> apply_files sha E names db)"

text \<open>\<open>opened\<close>: the connection, the lock and the table of migrations succeeded.\<close>

definition run :: "(string \<Rightarrow> string) \<Rightarrow> ((string \<times> int) list \<Rightarrow> (string \<times> int) list) \<Rightarrow> bool \<Rightarrow> (string \<Rightarrow> file_env) \<Rightarrow> (string \<times> bool) list res \<Rightarrow> mig_db \<Rightarrow> err option \<times> mig_db" where
  "run sha shuffle opened E entries db =
     (if \<not> opened then (Some ErrStore, db)
      else case migrationFiles shuffle entries of
        Inl e \<Rightarrow> (Some e, db)
      | Inr names \<Rightarrow> apply_files sha E names db)"

section \<open>The role directory\<close>

definition roleShard :: "int \<Rightarrow> int \<Rightarrow> int" where
  "roleShard roleID shardCount =
     (let shardID = go_rem roleID shardCount in if shardID < 0 then i64 (shardID + shardCount) else shardID)"

text \<open>A row of \<^verbatim>\<open>roles\<close> as the tool reads it; the dates decide nothing and are left out.\<close>

record directoryRole =
  drID :: int
  drAccountID :: int
  drZoneID :: int
  drName :: string
  drLevel :: int

definition dir_of :: "int \<Rightarrow> directoryRole \<Rightarrow> dir_role" where
  "dir_of shardCount x = \<lparr>dID = drID x, dAccountID = drAccountID x, dZoneID = drZoneID x, dName = drName x, dLevel = drLevel x,
     dShardID = roleShard (drID x) shardCount\<rparr>"

text \<open>\<^verbatim>\<open>upsertDirectoryRoleSQL\<close>: a conflict on the id updates the row; a conflict on another constraint is an error.\<close>

definition upsert_dir :: "dir_role \<Rightarrow> dir_role list \<Rightarrow> dir_role list option" where
  "upsert_dir x rows =
     (if list_ex (\<lambda>y. dID y \<noteq> dID x \<and> role_conflict x y) rows then None
      else if dID x \<in> dID ` set rows then Some (map (\<lambda>y. if dID y = dID x then x else y) rows)
      else Some (rows @ [x]))"

fun upsert_all :: "dir_role list \<Rightarrow> dir_role list \<Rightarrow> dir_role list option" where
  "upsert_all [] rows = Some rows"
| "upsert_all (x # xs) rows = (case upsert_dir x rows of None \<Rightarrow> None | Some rows \<Rightarrow> upsert_all xs rows)"

text \<open>A batch is one implicit transaction.\<close>

definition flush_roles :: "outcome \<Rightarrow> int \<Rightarrow> directoryRole list \<Rightarrow> dir_role list \<Rightarrow> err option \<times> dir_role list" where
  "flush_roles oc shardCount pending rows =
     (if pending = [] then (None, rows)
      else case store_call oc rows (case upsert_all (map (dir_of shardCount) pending) rows of None \<Rightarrow> (Inl ErrStore, rows) | Some rows \<Rightarrow> (Inr (), rows)) of
        (Inl e, rows) \<Rightarrow> (Some e, rows)
      | (Inr _, rows) \<Rightarrow> (None, rows))"

definition batchSize :: nat where "batchSize = 500"

text \<open>The scan: \<open>oc n\<close> is the outcome of the \<open>n\<close>-th flush, \<open>ok\<close> the end of the row stream.\<close>

fun sync_rows :: "(nat \<Rightarrow> outcome) \<Rightarrow> bool \<Rightarrow> int \<Rightarrow> nat \<Rightarrow> directoryRole list \<Rightarrow> directoryRole list \<Rightarrow> dir_role list \<Rightarrow> err option \<times> dir_role list" where
  "sync_rows oc ok shardCount n pending [] rows =
     (if \<not> ok then (Some ErrStore, rows) else flush_roles (oc n) shardCount pending rows)"
| "sync_rows oc ok shardCount n pending (x # xs) rows =
     (let pending = pending @ [x] in
      if length pending = batchSize then
        (case flush_roles (oc n) shardCount pending rows of
           (Some e, rows) \<Rightarrow> (Some e, rows)
         | (None, rows) \<Rightarrow> sync_rows oc ok shardCount (n + 1) [] xs rows)
      else sync_rows oc ok shardCount n pending xs rows)"

record source_env =
  soQuery :: outcome
  soFlush :: "nat \<Rightarrow> outcome"
  soEnd :: bool

definition syncRoleShard :: "source_env \<Rightarrow> int \<Rightarrow> directoryRole list \<Rightarrow> dir_role list \<Rightarrow> err option \<times> dir_role list" where
  "syncRoleShard E shardCount source rows =
     (if soQuery E \<noteq> Done then (Some ErrStore, rows) else sync_rows (soFlush E) (soEnd E) shardCount 0 [] source rows)"

fun sync_sources :: "(nat \<Rightarrow> source_env) \<Rightarrow> nat \<Rightarrow> int \<Rightarrow> directoryRole list list \<Rightarrow> dir_role list \<Rightarrow> err option \<times> dir_role list" where
  "sync_sources E i shardCount [] rows = (None, rows)"
| "sync_sources E i shardCount (src # srcs) rows =
     (case syncRoleShard (E i) shardCount src rows of
        (Some e, rows) \<Rightarrow> (Some e, rows)
      | (None, rows) \<Rightarrow> sync_sources E (i + 1) shardCount srcs rows)"

text \<open>The central database is opened and pinged; \<open>sources\<close> are the rows of the role databases in order.\<close>

definition syncRoleDirectory :: "bool \<Rightarrow> (nat \<Rightarrow> source_env) \<Rightarrow> directoryRole list list \<Rightarrow> int \<Rightarrow> dir_role list \<Rightarrow> err option \<times> dir_role list" where
  "syncRoleDirectory opened E sources shardCount rows =
     (if shardCount \<le> 0 then (Some (ErrMsg ''shard count must be positive''), rows)
      else if \<not> opened then (Some ErrStore, rows)
      else sync_sources E 0 shardCount sources rows)"

section \<open>The command\<close>

text \<open>All databases are migrated before the directory of the central one is rebuilt; every error panics.\<close>

record fleet_dbs =
  fdSchema :: "string \<Rightarrow> mig_db"
  fdRoles :: "string \<Rightarrow> directoryRole list"
  fdDirectory :: "string \<Rightarrow> dir_role list"

record main_env =
  maRun :: "string \<Rightarrow> mig_db \<Rightarrow> err option \<times> mig_db"
  maOpened :: bool
  maSources :: "nat \<Rightarrow> source_env"

fun run_all :: "(string \<Rightarrow> mig_db \<Rightarrow> err option \<times> mig_db) \<Rightarrow> string list \<Rightarrow> (string \<Rightarrow> mig_db) \<Rightarrow> err option \<times> (string \<Rightarrow> mig_db)" where
  "run_all f [] dbs = (None, dbs)"
| "run_all f (d # ds) dbs =
     (case f d (dbs d) of
        (Some e, db) \<Rightarrow> (Some e, dbs(d := db))
      | (None, db) \<Rightarrow> run_all f ds (dbs(d := db)))"

definition migrate_main :: "main_env \<Rightarrow> string \<Rightarrow> string \<Rightarrow> int \<Rightarrow> fleet_dbs \<Rightarrow> err option \<times> fleet_dbs" where
  "migrate_main E dsn shards shardCount w =
     (let dsns = uniqueDSNs dsn shards in
      if dsns = [] then (Some ErrPanic, w)
      else case run_all (maRun E) dsns (fdSchema w) of
        (Some _, sch) \<Rightarrow> (Some ErrPanic, w\<lparr>fdSchema := sch\<rparr>)
      | (None, sch) \<Rightarrow>
          let w = w\<lparr>fdSchema := sch\<rparr>;
              centralDSN = (if TrimSpace dsn = [] then hd dsns else TrimSpace dsn);
              roleDSNs = (if migrate_splitCSV shards = [] then [centralDSN] else migrate_splitCSV shards)
          in (case syncRoleDirectory (maOpened E) (maSources E) (map (fdRoles w) roleDSNs) shardCount (fdDirectory w centralDSN) of
                (e, rows) \<Rightarrow> (if e = None then None else Some ErrPanic, w\<lparr>fdDirectory := (fdDirectory w)(centralDSN := rows)\<rparr>)))"

lemma unique_loop_distinct: "distinct result \<Longrightarrow> distinct (unique_loop result vs) \<and> set (unique_loop result vs) = set result \<union> (TrimSpace ` set vs - {[]})"
  by (induction result vs rule: unique_loop.induct) (auto simp: Let_def)

lemma run_all_unchanged: "d \<notin> set ds \<Longrightarrow> snd (run_all f ds dbs) d = dbs d"
  by (induction ds arbitrary: dbs) (auto split: option.splits prod.splits)

lemma run_all_done: "run_all f ds dbs = (None, dbs') \<Longrightarrow> distinct ds \<Longrightarrow> \<forall>d \<in> set ds. f d (dbs d) = (None, dbs' d)"
proof (induction ds arbitrary: dbs)
  case (Cons d ds)
  obtain db where d: "f d (dbs d) = (None, db)" "run_all f ds (dbs(d := db)) = (None, dbs')" using Cons.prems(1) by (auto split: option.splits prod.splits)
  have "dbs' d = db" using run_all_unchanged [of d ds f "dbs(d := db)"] d(2) Cons.prems(2) by simp
  moreover have "\<forall>x \<in> set ds. f x (dbs x) = (None, dbs' x)" using Cons.IH [OF d(2)] Cons.prems(2) by (metis distinct.simps(2) fun_upd_other)
  ultimately show ?case using d(1) by simp
qed simp

text \<open>The directory is touched only after every database was migrated completely.\<close>

lemma directory_after_migrations:
  assumes "migrate_main E dsn shards n w = (e, w')" and "fdDirectory w' \<noteq> fdDirectory w"
  shows "\<forall>d \<in> TrimSpace ` set (dsn # migrate_splitCSV shards) - {[]}. maRun E d (fdSchema w d) = (None, fdSchema w' d)"
proof -
  have un: "distinct (uniqueDSNs dsn shards)" "set (uniqueDSNs dsn shards) = TrimSpace ` set (dsn # migrate_splitCSV shards) - {[]}"
    using unique_loop_distinct [of "[]" "dsn # migrate_splitCSV shards"] by (auto simp: uniqueDSNs_def)
  obtain sch where sch: "run_all (maRun E) (uniqueDSNs dsn shards) (fdSchema w) = (None, sch)"
    using assms by (auto simp: migrate_main_def Let_def split: if_splits prod.splits option.splits)
  then have "fdSchema w' = sch" using assms by (auto simp: migrate_main_def Let_def split: if_splits prod.splits)
  then show ?thesis using run_all_done [OF sch un(1)] un(2) by simp
qed

section \<open>One run\<close>

definition content :: "(string \<Rightarrow> file_env) \<Rightarrow> string \<Rightarrow> string" where
  "content E n = (case feRead (E n) of Inl _ \<Rightarrow> [] | Inr s \<Rightarrow> s)"

definition open_files :: "mig_db \<Rightarrow> string list \<Rightarrow> string list" where
  "open_files db names = filter (\<lambda>n. mgApplied db n = None) names"

lemma apply_file_cases:
  assumes "apply_file sha (E n) n db = (e, db')"
  shows "mgApplied db n = None \<and> mgLog db' = mgLog db @ [(n, content E n)] \<and> mgApplied db' = (mgApplied db)(n \<mapsto> sha (content E n)) \<or>
    mgLog db' = mgLog db \<and> (e = None \<longrightarrow> mgApplied db n \<noteq> None \<and> mgApplied db' n = Some (sha (content E n))) \<and>
      (mgApplied db' = mgApplied db \<or> mgApplied db n = Some [] \<and> mgApplied db' = (mgApplied db)(n \<mapsto> sha (content E n)))"
  using assms by (cases "feUpdate (E n)"; cases "feCommit (E n)")
    (auto simp: apply_file_def content_def Let_def split: sum.splits if_splits option.splits)

text \<open>What a run does: it commits the scripts that are open, in order, up to some point, and all of them if it succeeds.\<close>

definition ran_until :: "(string \<Rightarrow> string) \<Rightarrow> (string \<Rightarrow> string) \<Rightarrow> nat \<Rightarrow> string list \<Rightarrow> mig_db \<Rightarrow> mig_db \<Rightarrow> bool" where
  "ran_until sha src k ns db db' \<longleftrightarrow> k \<le> length ns \<and> mgLog db' = mgLog db @ map (\<lambda>n. (n, src n)) (take k ns) \<and>
     (\<forall>n \<in> set (take k ns). mgApplied db' n = Some (sha (src n))) \<and>
     (\<forall>n. n \<notin> set (take k ns) \<longrightarrow> (mgApplied db' n = None \<longleftrightarrow> mgApplied db n = None) \<and> (\<forall>c. mgApplied db n = Some c \<and> c \<noteq> [] \<longrightarrow> mgApplied db' n = Some c))"

lemma ran_until_Cons:
  assumes "ran_until sha src k (open_files db1 names) db1 db2" and "mgApplied db1 n \<noteq> None" and "n \<notin> set names"
    and "mgApplied db n = None \<and> mgLog db1 = mgLog db @ [(n, src n)] \<and> mgApplied db1 = (mgApplied db)(n \<mapsto> sha (src n)) \<and> sha (src n) \<noteq> [] \<or>
      mgApplied db n \<noteq> None \<and> mgLog db1 = mgLog db \<and> (mgApplied db1 = mgApplied db \<or> mgApplied db n = Some [] \<and> mgApplied db1 = (mgApplied db)(n \<mapsto> sha (src n)))"
  shows "\<exists>k'. ran_until sha src k' (open_files db (n # names)) db db2 \<and> (k = length (open_files db1 names) \<longrightarrow> k' = length (open_files db (n # names)))"
proof -
  have same: "open_files db1 names = open_files db names" using assms(3,4) by (auto simp: open_files_def intro!: filter_cong split: if_splits)
  have out: "n \<notin> set (take k (open_files db names))" using assms(3) by (auto simp: open_files_def dest: in_set_takeD)
  from assms(4) show ?thesis
  proof
    assume a: "mgApplied db n = None \<and> mgLog db1 = mgLog db @ [(n, src n)] \<and> mgApplied db1 = (mgApplied db)(n \<mapsto> sha (src n)) \<and> sha (src n) \<noteq> []"
    then have "open_files db (n # names) = n # open_files db names" by (simp add: open_files_def)
    then show ?thesis using a assms(1) out unfolding same by (intro exI [of _ "Suc k"]) (auto simp: ran_until_def)
  next
    assume a: "mgApplied db n \<noteq> None \<and> mgLog db1 = mgLog db \<and> (mgApplied db1 = mgApplied db \<or> mgApplied db n = Some [] \<and> mgApplied db1 = (mgApplied db)(n \<mapsto> sha (src n)))"
    then have closed: "open_files db (n # names) = open_files db names" by (simp add: open_files_def)
    show ?thesis unfolding closed using a assms(1) out unfolding same by (intro exI [of _ k]) (auto simp: ran_until_def split: if_splits)
  qed
qed

lemma apply_files_spec:
  assumes "apply_files sha E names db = (e, db')" and "distinct names" and "\<forall>s. sha s \<noteq> []"
  shows "\<exists>k. ran_until sha (content E) k (open_files db names) db db' \<and> (e = None \<longrightarrow> k = length (open_files db names))"
  using assms(1,2)
proof (induction names arbitrary: db)
  case Nil
  then show ?case by (auto simp: ran_until_def open_files_def)
next
  case (Cons n names)
  obtain e1 db1 where one: "apply_file sha (E n) n db = (e1, db1)" by fastforce
  note C = apply_file_cases [of sha E n db e1 db1, OF one]
  show ?case
  proof (cases e1)
    case (Some err)
    then have r: "e = Some err" "db' = db1" using Cons.prems(1) one by auto
    from C show ?thesis
    proof
      assume a: "mgApplied db n = None \<and> mgLog db1 = mgLog db @ [(n, content E n)] \<and> mgApplied db1 = (mgApplied db)(n \<mapsto> sha (content E n))"
      then show ?thesis unfolding r by (intro exI [of _ 1]) (auto simp: ran_until_def open_files_def)
    next
      assume "mgLog db1 = mgLog db \<and> (e1 = None \<longrightarrow> mgApplied db n \<noteq> None \<and> mgApplied db1 n = Some (sha (content E n))) \<and>
        (mgApplied db1 = mgApplied db \<or> mgApplied db n = Some [] \<and> mgApplied db1 = (mgApplied db)(n \<mapsto> sha (content E n)))"
      then show ?thesis unfolding r by (intro exI [of _ 0]) (auto simp: ran_until_def split: if_splits)
    qed
  next
    case None
    then have "apply_files sha E names db1 = (e, db')" using Cons.prems(1) one by simp
    from Cons.IH [OF this] Cons.prems(2)
    obtain k where k: "ran_until sha (content E) k (open_files db1 names) db1 db'" "e = None \<longrightarrow> k = length (open_files db1 names)" by auto
    have "mgApplied db1 n \<noteq> None" "n \<notin> set names" using C None Cons.prems(2) by auto
    from ran_until_Cons [OF k(1) this, of db] C None assms(3) k(2) show ?thesis by (metis (no_types))
  qed
qed

section \<open>Any number of runs\<close>

record attempt =
  atShuffle :: "(string \<times> int) list \<Rightarrow> (string \<times> int) list"
  atOpened :: bool
  atFiles :: "string \<Rightarrow> file_env"

definition attempt_run :: "(string \<Rightarrow> string) \<Rightarrow> (string \<times> bool) list \<Rightarrow> attempt \<Rightarrow> mig_db \<Rightarrow> err option \<times> mig_db" where
  "attempt_run sha es a db = run sha (atShuffle a) (atOpened a) (atFiles a) (Inr es) db"

fun attempts_run :: "(string \<Rightarrow> string) \<Rightarrow> (string \<times> bool) list \<Rightarrow> attempt list \<Rightarrow> mig_db \<Rightarrow> err option list \<times> mig_db" where
  "attempts_run sha es [] db = ([], db)"
| "attempts_run sha es (a # as) db = (let (e, db) = attempt_run sha es a db; (xs, db) = attempts_run sha es as db in (e # xs, db))"

text \<open>The scripts of the directory in the order of their versions, and runs that read them as they are.\<close>

definition scripts :: "(string \<times> int) list \<Rightarrow> string list" where
  "scripts ms = map fst (sort_key snd ms)"

definition faithful :: "(string \<Rightarrow> string) \<Rightarrow> attempt \<Rightarrow> bool" where
  "faithful src a \<longleftrightarrow> (\<forall>ms. mset (atShuffle a ms) = mset ms) \<and> (\<forall>n. (\<exists>e. feRead (atFiles a n) = Inl e) \<or> feRead (atFiles a n) = Inr (src n))"

lemma scripts_shuffle:
  assumes "mset xs = mset ms" and "distinct (map snd ms)"
  shows "map fst (sort_key snd xs) = scripts ms"
proof -
  have sets: "set xs = set ms" by (metis assms(1) set_mset_mset)
  have d: "distinct (map snd xs)" by (metis assms mset_map mset_eq_imp_distinct_iff)
  have inj: "inj_on snd (set (sort_key snd xs) \<union> set (sort_key snd ms))" using assms(2) sets by (simp add: distinct_map)
  have ds: "distinct (map snd (sort_key snd ys))" if "distinct (map snd ys)" for ys :: "(string \<times> int) list"
    using that by (simp add: distinct_map)
  have "sort_key snd xs = sort_key snd ms"
    by (rule map_sorted_distinct_set_unique [OF inj]) (use ds d assms(2) sets in simp_all)
  then show ?thesis by (simp add: scripts_def)
qed

text \<open>After any runs a prefix of the scripts is committed.\<close>

definition done_until :: "(string \<Rightarrow> string) \<Rightarrow> (string \<Rightarrow> string) \<Rightarrow> string list \<Rightarrow> nat \<Rightarrow> mig_db \<Rightarrow> bool" where
  "done_until sha src names k db \<longleftrightarrow> k \<le> length names \<and> mgLog db = map (\<lambda>n. (n, src n)) (take k names) \<and>
     (\<forall>n. mgApplied db n = (if n \<in> set (take k names) then Some (sha (src n)) else None))"

lemma apply_files_reads:
  "apply_files sha E names db = (e, db') \<Longrightarrow> x \<in> set (mgLog db') \<Longrightarrow> x \<in> set (mgLog db) \<or> feRead (E (fst x)) = Inr (snd x)"
proof (induction names arbitrary: db)
  case (Cons n names)
  obtain e1 db1 where one: "apply_file sha (E n) n db = (e1, db1)" by fastforce
  have new: "x \<in> set (mgLog db) \<or> feRead (E (fst x)) = Inr (snd x)" if "x \<in> set (mgLog db1)"
    using that one by (cases "feUpdate (E n)"; cases "feCommit (E n)") (auto simp: apply_file_def Let_def split: sum.splits if_splits option.splits)
  show ?case using Cons one new by (cases e1) auto
qed simp

lemma apply_files_done:
  assumes "faithful src a" and "apply_files sha (atFiles a) names db = (e, db')" and "done_until sha src names k db" and "distinct names" and "\<forall>s. sha s \<noteq> []"
  shows "\<exists>k'. done_until sha src names k' db' \<and> (e = None \<longrightarrow> k' = length names) \<and> k \<le> k'"
proof -
  let ?E = "atFiles a"
  have "filter (\<lambda>n. n \<notin> set (take k names)) (take k names @ drop k names) = drop k names"
    using assms(4) set_take_disj_set_drop_if_distinct [of names k k] by (auto simp: filter_id_conv simp del: append_take_drop_id)
  then have rest: "open_files db names = drop k names" using assms(3) by (simp add: open_files_def done_until_def)
  obtain j where j: "ran_until sha (content ?E) j (drop k names) db db'" "e = None \<longrightarrow> j = length (drop k names)"
    using apply_files_spec [OF assms(2,4,5)] unfolding rest by blast
  have same: "content ?E n = src n" if n: "n \<in> set (take j (drop k names))" for n
  proof -
    have "(n, content ?E n) \<in> set (mgLog db')" "n \<notin> set (take k names)"
      using j(1) n assms(4) set_take_disj_set_drop_if_distinct [of names k k] by (auto simp: ran_until_def dest: in_set_takeD)
    moreover have "(n, content ?E n) \<notin> set (mgLog db)" using calculation(2) assms(3) by (auto simp: done_until_def)
    ultimately have "feRead (?E n) = Inr (content ?E n)" using apply_files_reads [OF assms(2)] by fastforce
    then show ?thesis using assms(1) unfolding faithful_def by (metis Inl_Inr_False sum.inject(2))
  qed
  have all: "take (k + j) names = take k names @ take j (drop k names)" by (rule take_add)
  have "map (\<lambda>n. (n, content ?E n)) (take j (drop k names)) = map (\<lambda>n. (n, src n)) (take j (drop k names))" using same by simp
  then have log: "mgLog db' = map (\<lambda>n. (n, src n)) (take (k + j) names)" using j(1) assms(3) by (simp add: ran_until_def done_until_def all)
  have applied: "mgApplied db' n = (if n \<in> set (take (k + j) names) then Some (sha (src n)) else None)" for n
  proof (cases "n \<in> set (take j (drop k names))")
    case True
    then show ?thesis using j(1) same by (simp add: ran_until_def all)
  next
    case False
    then have "(mgApplied db' n = None \<longleftrightarrow> mgApplied db n = None) \<and> (\<forall>c. mgApplied db n = Some c \<and> c \<noteq> [] \<longrightarrow> mgApplied db' n = Some c)"
      using j(1) by (simp add: ran_until_def)
    then show ?thesis using False assms(3,5) by (auto simp: done_until_def all)
  qed
  have "k \<le> length names" "j \<le> length names - k" using j(1) assms(3) by (simp_all add: ran_until_def done_until_def)
  then show ?thesis using log applied j(2) by (intro exI [of _ "k + j"]) (auto simp: done_until_def)
qed

lemma migrationFiles_scripts:
  "collect_migrations es = Inr ms \<Longrightarrow> faithful src a \<Longrightarrow> distinct (map snd ms) \<Longrightarrow> migrationFiles (atShuffle a) (Inr es) = Inr (scripts ms)"
  using scripts_shuffle by (simp add: migrationFiles_def faithful_def)

lemma attempts_done:
  assumes "collect_migrations es = Inr ms" and "distinct (map snd ms)" and "distinct (scripts ms)" and "\<forall>s. sha s \<noteq> []"
    and "\<forall>a \<in> set as. faithful src a" and "done_until sha src (scripts ms) k db" and "attempts_run sha es as db = (xs, db')"
  shows "\<exists>k'. done_until sha src (scripts ms) k' db' \<and> (None \<in> set xs \<longrightarrow> k' = length (scripts ms)) \<and> k \<le> k'"
  using assms(5-)
proof (induction as arbitrary: k db xs)
  case Nil
  then show ?case by auto
next
  case (Cons a as)
  obtain e db1 where one: "attempt_run sha es a db = (e, db1)" by fastforce
  obtain ys db2 where rest: "attempts_run sha es as db1 = (ys, db2)" by fastforce
  have r: "xs = e # ys" "db' = db2" using Cons.prems(3) one rest by auto
  have fa: "faithful src a" using Cons.prems(1) by simp
  obtain k1 where k1: "done_until sha src (scripts ms) k1 db1" "e = None \<longrightarrow> k1 = length (scripts ms)" "k \<le> k1"
  proof (cases "atOpened a")
    case True
    then have "apply_files sha (atFiles a) (scripts ms) db = (e, db1)"
      using one migrationFiles_scripts [OF assms(1) fa assms(2)] by (simp add: attempt_run_def run_def)
    from apply_files_done [OF fa this Cons.prems(2) assms(3,4)] that show ?thesis by blast
  next
    case False
    then show ?thesis using one Cons.prems(2) that by (auto simp: attempt_run_def run_def)
  qed
  obtain k2 where k2: "done_until sha src (scripts ms) k2 db'" "None \<in> set ys \<longrightarrow> k2 = length (scripts ms)" "k1 \<le> k2"
    using Cons.IH [OF _ k1(1), of ys] Cons.prems(1) rest r(2) by auto
  have "k2 \<le> length (scripts ms)" using k2(1) by (simp add: done_until_def)
  then show ?case using k1 k2 r(1) by (intro exI [of _ k2]) auto
qed

lemma applied_unchanged:
  "apply_files sha E names db = (None, db') \<Longrightarrow> n \<in> set names \<Longrightarrow> mgApplied db n = Some c \<Longrightarrow> c \<noteq> [] \<Longrightarrow> feRead (E n) = Inr body \<Longrightarrow> sha body = c"
proof (induction names arbitrary: db)
  case (Cons m names)
  obtain db1 where one: "apply_file sha (E m) m db = (None, db1)" "apply_files sha E names db1 = (None, db')"
    using Cons.prems(1) by (auto split: prod.splits option.splits)
  show ?case
  proof (cases "n = m")
    case True
    then show ?thesis using one(1) Cons.prems(3-5) by (auto simp: apply_file_def Let_def split: if_splits)
  next
    case False
    then have "mgApplied db1 n = Some c" using apply_file_cases [of sha E m db None db1, OF one(1)] Cons.prems(3) by auto
    then show ?thesis using Cons.IH [OF one(2)] Cons.prems False by auto
  qed
qed simp

text \<open>
  C35. Every migration runs once, in the order of the versions. Take a directory whose scripts have
  different versions, a database without migrations, and any number of runs, each failing wherever it may
  or losing the reply of its commit. Then the scripts committed are exactly the first ones in numeric order of
  their versions, each once and with the text of its file; after a run that reports success it is all of them.
  And a later run that finds another text under the name of a committed script fails.
\<close>

theorem migrations_in_order_once:
  assumes "collect_migrations es = Inr ms" and "distinct (map fst ms)" and "distinct (map snd ms)" and "\<forall>s. sha s \<noteq> []"
    and "\<forall>a \<in> set as. faithful src a" and "attempts_run sha es as \<lparr>mgApplied = Map.empty, mgLog = []\<rparr> = (xs, db')"
  shows "\<exists>k. mgLog db' = map (\<lambda>n. (n, src n)) (take k (map fst (sort_key snd ms))) \<and> (None \<in> set xs \<longrightarrow> k = length ms) \<and>
    (\<forall>E n body. n \<in> fst ` set (mgLog db') \<and> feRead (E n) = Inr body \<and> sha body \<noteq> sha (src n) \<longrightarrow>
       (\<exists>e. fst (run sha id True E (Inr es) db') = Some e))"
proof -
  have ds: "distinct (scripts ms)" using assms(2) by (simp add: scripts_def distinct_map)
  have start: "done_until sha src (scripts ms) 0 \<lparr>mgApplied = Map.empty, mgLog = []\<rparr>" by (simp add: done_until_def)
  obtain k where k: "done_until sha src (scripts ms) k db'" "None \<in> set xs \<longrightarrow> k = length (scripts ms)"
    using attempts_done [OF assms(1,3) ds assms(4,5) start assms(6)] by blast
  have changed: "\<exists>e. fst (run sha id True E (Inr es) db') = Some e"
    if n: "n \<in> fst ` set (mgLog db')" "feRead (E n) = Inr body" "sha body \<noteq> sha (src n)" for E n body
  proof (rule ccontr)
    assume "\<nexists>e. fst (run sha id True E (Inr es) db') = Some e"
    then obtain db2 where ok: "run sha id True E (Inr es) db' = (None, db2)" by (metis option.exhaust prod.collapse)
    have at: "n \<in> set (scripts ms)" "mgApplied db' n = Some (sha (src n))" using n(1) k(1) by (auto simp: done_until_def dest: in_set_takeD)
    have "apply_files sha E (scripts ms) db' = (None, db2)" using ok assms(1) by (simp add: run_def migrationFiles_def scripts_def)
    from applied_unchanged [OF this at(1,2) _ n(2)] n(3) assms(4) show False by blast
  qed
  have "mgLog db' = map (\<lambda>n. (n, src n)) (take k (map fst (sort_key snd ms)))" using k(1) by (simp add: done_until_def scripts_def)
  moreover have "None \<in> set xs \<longrightarrow> k = length ms" using k(2) by (simp add: scripts_def)
  ultimately show ?thesis using changed by blast
qed

definition demo_dir :: "(string \<times> bool) list" where
  "demo_dir = [(''init.sql'', False), (''migrate_v10.sql'', False), (''migrate_v2.sql'', False)]"

definition calm_attempt :: attempt where
  "calm_attempt = \<lparr>atShuffle = id, atOpened = True, atFiles = (\<lambda>n. \<lparr>feRead = Inr n, feQuery = Done, feUpdate = Done, feExec = Done, feCommit = Done\<rparr>)\<rparr>"

lemma demo_versions: "collect_migrations demo_dir = Inr [(''init.sql'', 0), (''migrate_v10.sql'', 10), (''migrate_v2.sql'', 2)]"
  by (simp add: demo_dir_def is_migration_def migration_version_def HasPrefix_def HasSuffix_def TrimPrefix_def TrimSuffix_def Atoi_def ParseInt_def parse_magnitude_def digit_val_def)

theorem migrations_in_order_once_witness:
  "map fst (mgLog (snd (attempts_run (\<lambda>s. ''x'') demo_dir [calm_attempt] \<lparr>mgApplied = Map.empty, mgLog = []\<rparr>))) = [''init.sql'', ''migrate_v2.sql'', ''migrate_v10.sql'']"
proof -
  let ?ms = "[(''init.sql'', 0), (''migrate_v10.sql'', 10), (''migrate_v2.sql'', 2 :: int)]" and ?db = "\<lparr>mgApplied = Map.empty, mgLog = []\<rparr>"
  have srt: "map fst (sort_key snd ?ms) = [''init.sql'', ''migrate_v2.sql'', ''migrate_v10.sql'']" by simp
  have fa: "\<forall>a \<in> set [calm_attempt]. faithful id a" by (simp add: faithful_def calm_attempt_def)
  have files: "migrationFiles id (Inr demo_dir) = Inr [''init.sql'', ''migrate_v2.sql'', ''migrate_v10.sql'']" by (simp add: migrationFiles_def demo_versions)
  obtain db' where run: "attempts_run (\<lambda>s. ''x'') demo_dir [calm_attempt] ?db = ([None], db')"
    by (simp add: attempt_run_def run_def calm_attempt_def files apply_file_def)
  from migrations_in_order_once [OF demo_versions _ _ _ fa run] srt show ?thesis using run by (auto simp: comp_def)
qed

section \<open>The directory\<close>

text \<open>The tool and the routing of the game agree on the shard of a role.\<close>

lemma roleShard_ForRole: "in_i32 n \<Longrightarrow> 0 < n \<Longrightarrow> roleShard r n = ForRole r n"
proof -
  assume n: "in_i32 n" "0 < n"
  have b: "- n < go_rem r n" "go_rem r n < n" using go_rem_bounds [OF n(2)] by auto
  have "roleShard r n = (if go_rem r n < 0 then go_rem r n + n else go_rem r n)"
    using b n by (auto simp: roleShard_def Let_def in_i32_def intro!: i64_id simp: in_i64_def)
  then show ?thesis using go_rem_euclid [OF n(2), of r] ForRole_mod n by simp
qed

lemma upsert_dir_Some:
  assumes "upsert_dir x rows = Some rows'" and "distinct (map dID rows)"
  shows "set rows' = insert x {y \<in> set rows. dID y \<noteq> dID x} \<and> distinct (map dID rows') \<and> (\<forall>y \<in> set rows'. dID y \<noteq> dID x \<longrightarrow> \<not> role_conflict x y)"
proof -
  have nc: "\<forall>y \<in> set rows. dID y \<noteq> dID x \<longrightarrow> \<not> role_conflict x y" using assms(1) by (auto simp: upsert_dir_def list_ex_iff split: if_splits)
  show ?thesis
  proof (cases "dID x \<in> dID ` set rows")
    case True
    have ids: "map dID (map (\<lambda>y. if dID y = dID x then x else y) rows) = map dID rows" by auto
    have r: "rows' = map (\<lambda>y. if dID y = dID x then x else y) rows" using assms(1) True by (auto simp: upsert_dir_def split: if_splits)
    have "set rows' = insert x {y \<in> set rows. dID y \<noteq> dID x}" using True unfolding r by auto
    moreover have "distinct (map dID rows')" using assms(2) unfolding r ids .
    ultimately show ?thesis using nc by auto
  next
    case False
    then have "rows' = rows @ [x]" using assms(1) by (auto simp: upsert_dir_def split: if_splits)
    moreover have "\<forall>y \<in> set rows. dID y \<noteq> dID x" using False by (metis image_eqI)
    ultimately show ?thesis using False assms(2) nc by auto
  qed
qed

text \<open>The constraints of \<^verbatim>\<open>role_directory\<close>.\<close>

definition dir_ok :: "dir_role list \<Rightarrow> bool" where
  "dir_ok rows \<longleftrightarrow> distinct (map dID rows) \<and> (\<forall>y \<in> set rows. \<forall>z \<in> set rows. dID y \<noteq> dID z \<longrightarrow> \<not> role_conflict y z)"

lemma role_conflict_sym: "role_conflict x y = role_conflict y x"
  by (auto simp: role_conflict_def)

lemma upsert_dir_ok: "upsert_dir x rows = Some rows' \<Longrightarrow> dir_ok rows \<Longrightarrow> dir_ok rows'"
  using upsert_dir_Some [of x rows rows'] role_conflict_sym by (auto simp: dir_ok_def)

lemma upsert_all_spec:
  "upsert_all xs rows = Some rows' \<Longrightarrow> dir_ok rows \<Longrightarrow> distinct (map dID xs) \<Longrightarrow>
   dir_ok rows' \<and> set rows' = set xs \<union> {y \<in> set rows. dID y \<notin> dID ` set xs}"
proof (induction xs arbitrary: rows)
  case (Cons x xs)
  obtain rows1 where u: "upsert_dir x rows = Some rows1" "upsert_all xs rows1 = Some rows'" using Cons.prems(1) by (auto split: option.splits)
  have ok1: "dir_ok rows1" by (rule upsert_dir_ok [OF u(1) Cons.prems(2)])
  have s1: "set rows1 = insert x {y \<in> set rows. dID y \<noteq> dID x}" using upsert_dir_Some [OF u(1)] Cons.prems(2) by (simp add: dir_ok_def)
  have "dir_ok rows' \<and> set rows' = set xs \<union> {y \<in> set rows1. dID y \<notin> dID ` set xs}" using Cons.IH [OF u(2) ok1] Cons.prems(3) by simp
  then show ?case using s1 Cons.prems(3) by auto
qed simp

lemma upsert_all_append: "upsert_all (xs @ ys) rows = (case upsert_all xs rows of None \<Rightarrow> None | Some rows \<Rightarrow> upsert_all ys rows)"
  by (induction xs arbitrary: rows) (auto split: option.splits)

text \<open>A flush is all or nothing, and the batches do not matter: some prefix of the rows is in the directory, all of them after a success.\<close>

definition written :: "int \<Rightarrow> directoryRole list \<Rightarrow> nat \<Rightarrow> dir_role list \<Rightarrow> dir_role list \<Rightarrow> bool" where
  "written n xs k rows rows' \<longleftrightarrow> upsert_all (map (dir_of n) (take k xs)) rows = Some rows'"

lemma flush_written:
  "flush_roles oc n pending rows = (e, rows') \<Longrightarrow> (e \<noteq> None \<and> rows' = rows) \<or> upsert_all (map (dir_of n) pending) rows = Some rows'"
  by (cases oc) (auto simp: flush_roles_def split: if_splits option.splits)

lemma sync_rows_written:
  "sync_rows oc ok n i pending xs rows = (e, rows') \<Longrightarrow> \<exists>k \<le> length (pending @ xs). written n (pending @ xs) k rows rows' \<and> (e = None \<longrightarrow> k = length (pending @ xs))"
proof (induction xs arbitrary: i pending rows)
  case Nil
  show ?case
  proof (cases ok)
    case False
    then show ?thesis using Nil by (auto simp: written_def intro!: exI [of _ 0])
  next
    case True
    then have "flush_roles (oc i) n pending rows = (e, rows')" using Nil by simp
    from flush_written [OF this] show ?thesis
    proof
      assume "e \<noteq> None \<and> rows' = rows"
      then show ?thesis by (intro exI [of _ 0]) (auto simp: written_def)
    next
      assume "upsert_all (map (dir_of n) pending) rows = Some rows'"
      then show ?thesis by (intro exI [of _ "length pending"]) (simp add: written_def)
    qed
  qed
next
  case (Cons x xs)
  let ?p = "pending @ [x]"
  show ?case
  proof (cases "length ?p = batchSize")
    case False
    then have "sync_rows oc ok n i ?p xs rows = (e, rows')" using Cons.prems by (simp add: Let_def)
    from Cons.IH [OF this] show ?thesis by simp
  next
    case True
    obtain e1 rows1 where fl: "flush_roles (oc i) n ?p rows = (e1, rows1)" by fastforce
    show ?thesis
    proof (cases e1)
      case (Some err)
      then have r: "e = Some err" "rows' = rows1" using Cons.prems True fl by (auto simp: Let_def)
      from flush_written [OF fl] show ?thesis
      proof
        assume "e1 \<noteq> None \<and> rows1 = rows"
        then show ?thesis using r by (intro exI [of _ 0]) (auto simp: written_def)
      next
        assume "upsert_all (map (dir_of n) ?p) rows = Some rows1"
        then show ?thesis using r by (intro exI [of _ "length ?p"]) (simp add: written_def)
      qed
    next
      case None
      then have u: "upsert_all (map (dir_of n) ?p) rows = Some rows1" using flush_written [OF fl] by simp
      have "sync_rows oc ok n (i + 1) [] xs rows1 = (e, rows')" using Cons.prems True fl None by (simp add: Let_def)
      from Cons.IH [OF this] obtain k where k: "k \<le> length xs" "written n xs k rows1 rows'" "e = None \<longrightarrow> k = length xs" by auto
      have "take (length ?p + k) (pending @ x # xs) = ?p @ take k xs" by simp
      then have "written n (pending @ x # xs) (length ?p + k) rows rows'"
        using u k(2) unfolding written_def by (simp only: map_append upsert_all_append [of "map (dir_of n) ?p", unfolded map_append] option.case)
      then show ?thesis using k by (intro exI [of _ "length ?p + k"]) auto
    qed
  qed
qed

lemma sync_sources_written:
  "sync_sources E i n srcs rows = (e, rows') \<Longrightarrow> \<exists>k \<le> length (concat srcs). written n (concat srcs) k rows rows' \<and> (e = None \<longrightarrow> k = length (concat srcs))"
proof (induction srcs arbitrary: i rows)
  case Nil
  then show ?case by (simp add: written_def)
next
  case (Cons src srcs)
  obtain e1 rows1 where one: "syncRoleShard (E i) n src rows = (e1, rows1)" by fastforce
  obtain k1 where k1: "k1 \<le> length src" "written n src k1 rows rows1" "e1 = None \<longrightarrow> k1 = length src"
  proof (cases "soQuery (E i) = Done")
    case True
    then show ?thesis using sync_rows_written [of "soFlush (E i)" "soEnd (E i)" n 0 "[]" src rows e1 rows1] one that by (auto simp: syncRoleShard_def)
  next
    case False
    then show ?thesis using one that [of 0] by (auto simp: syncRoleShard_def written_def)
  qed
  show ?case
  proof (cases e1)
    case (Some err)
    then have "e = Some err" "rows' = rows1" using Cons.prems one by auto
    then show ?thesis using k1 by (intro exI [of _ k1]) (auto simp: written_def)
  next
    case None
    then have "sync_sources E (i + 1) n srcs rows1 = (e, rows')" using Cons.prems one by simp
    from Cons.IH [OF this] obtain k2 where k2: "k2 \<le> length (concat srcs)" "written n (concat srcs) k2 rows1 rows'" "e = None \<longrightarrow> k2 = length (concat srcs)" by blast
    have "written n (concat (src # srcs)) (length src + k2) rows rows'" using k1 None k2(2) by (simp add: written_def upsert_all_append)
    then show ?thesis using k2 by (intro exI [of _ "length src + k2"]) auto
  qed
qed

text \<open>
  C36. Login finds every role on its shard. When the tool has rebuilt the directory successfully from role
  databases in which every role occurs once, a login of the owner of a role in its zone gets that role from
  the directory, with the name and level of its database and the shard that the game routes it to; rows of
  roles that are in no database are unchanged. A rebuild that stops with an error has entered some first part
  of the roles, as they are, and nothing else.
\<close>

theorem directory_matches_shards:
  assumes "dir_ok rows" and "distinct (map drID (concat sources))" and "in_i32 n" and "0 < n"
    and "syncRoleDirectory True E sources n rows = (e, rows')"
  shows "\<exists>k. set rows' = dir_of n ` set (take k (concat sources)) \<union> {y \<in> set rows. dID y \<notin> drID ` set (take k (concat sources))} \<and>
    (e = None \<longrightarrow> (\<forall>x \<in> set (concat sources). \<forall>A acc sq name. aeSelect A = Done \<longrightarrow>
       GetOrCreateRole A (drAccountID x) (drZoneID x) name n \<lparr>adAccounts = acc, adSeq = sq, adRoles = rows'\<rparr> =
         (Inr \<lparr>dID = drID x, dAccountID = drAccountID x, dZoneID = drZoneID x, dName = drName x, dLevel = drLevel x, dShardID = ForRole (drID x) n\<rparr>,
          \<lparr>adAccounts = acc, adSeq = sq, adRoles = rows'\<rparr>)))"
proof -
  let ?xs = "concat sources"
  have "sync_sources E 0 n sources rows = (e, rows')" using assms(4,5) by (simp add: syncRoleDirectory_def)
  from sync_sources_written [OF this] obtain k where k: "written n ?xs k rows rows'" "e = None \<longrightarrow> k = length ?xs" by blast
  have ids: "dID (dir_of n x) = drID x" for x by (simp add: dir_of_def)
  have "distinct (map dID (map (dir_of n) (take k ?xs)))" using assms(2) by (simp add: comp_def ids take_map [symmetric] distinct_take)
  with upsert_all_spec [OF k(1) [unfolded written_def] assms(1)]
  have ok: "dir_ok rows'" and s: "set rows' = dir_of n ` set (take k ?xs) \<union> {y \<in> set rows. dID y \<notin> drID ` set (take k ?xs)}"
    by (auto simp: image_image ids)
  have "GetOrCreateRole A (drAccountID x) (drZoneID x) name n \<lparr>adAccounts = acc, adSeq = sq, adRoles = rows'\<rparr> = (Inr (dir_of n x), \<lparr>adAccounts = acc, adSeq = sq, adRoles = rows'\<rparr>)"
    if x: "e = None" "x \<in> set ?xs" "aeSelect A = Done" for x A acc sq name
  proof -
    let ?db = "\<lparr>adAccounts = acc, adSeq = sq, adRoles = rows'\<rparr>"
    have mem: "dir_of n x \<in> set rows'" using s k(2) x by auto
    have un: "q = dir_of n x" if q: "q \<in> set rows'" "dAccountID q = drAccountID x" "dZoneID q = drZoneID x" for q
    proof (rule ccontr)
      assume "q \<noteq> dir_of n x"
      then have "dID q \<noteq> dID (dir_of n x)" using ok q(1) mem by (auto simp: dir_ok_def distinct_map dest: inj_onD)
      then have "\<not> role_conflict q (dir_of n x)" using ok q(1) mem unfolding dir_ok_def by blast
      then show False using q(2,3) by (simp add: role_conflict_def dir_of_def)
    qed
    have "role_of (drAccountID x) (drZoneID x) ?db \<noteq> None" using mem unfolding role_of_def find_None_iff by (force simp: dir_of_def)
    then obtain q where q: "role_of (drAccountID x) (drZoneID x) ?db = Some q" by blast
    from role_of_Some [OF q] un have "q = dir_of n x" by auto
    then show ?thesis using q x(3) by (simp add: GetOrCreateRole_def)
  qed
  moreover have "dir_of n x = \<lparr>dID = drID x, dAccountID = drAccountID x, dZoneID = drZoneID x, dName = drName x, dLevel = drLevel x, dShardID = ForRole (drID x) n\<rparr>" for x
    by (simp add: dir_of_def roleShard_ForRole assms(3,4))
  ultimately show ?thesis using s by (intro exI [of _ k]) auto
qed

definition demo_source :: directoryRole where
  "demo_source = \<lparr>drID = 10001, drAccountID = 1, drZoneID = 1, drName = ''ann'', drLevel = 3\<rparr>"

theorem directory_matches_shards_witness:
  "\<exists>rows'. syncRoleDirectory True (\<lambda>_. \<lparr>soQuery = Done, soFlush = (\<lambda>_. Done), soEnd = True\<rparr>) [[demo_source]] 4 [] = (None, rows') \<and>
     fst (GetOrCreateRole quiet_account 1 1 ''ann'' 4 \<lparr>adAccounts = Map.empty, adSeq = 0, adRoles = rows'\<rparr>) =
       Inr \<lparr>dID = 10001, dAccountID = 1, dZoneID = 1, dName = ''ann'', dLevel = 3, dShardID = 1\<rparr>"
proof -
  obtain rows' where run: "syncRoleDirectory True (\<lambda>_. \<lparr>soQuery = Done, soFlush = (\<lambda>_. Done), soEnd = True\<rparr>) [[demo_source]] 4 [] = (None, rows')"
    by (simp add: syncRoleDirectory_def syncRoleShard_def batchSize_def flush_roles_def upsert_dir_def)
  have "dir_ok []" by (simp add: dir_ok_def)
  from directory_matches_shards [OF this _ _ _ run] show ?thesis using run
    by (auto simp: in_i32_def demo_source_def quiet_account_def ForRole_mod)
qed

end
