(* ===== verification/Social_Service.thy ===== *)
theory Social_Service
  imports Sessions
begin

text \<open>
  The social service (\<^verbatim>\<open>services/social/internal/server.go\<close>) and its repository
  (\<^verbatim>\<open>pkg/repo/social.go\<close>): friends and chat, in a database or, for chat only, in a bounded list in memory. Rows of
  \<^verbatim>\<open>chat_messages\<close> are in id order; the creation time is left out (nothing reads it). A query without
  \<^verbatim>\<open>ORDER BY\<close> returns its rows in an order of the database's choice, which is an argument.
\<close>

section \<open>The repository\<close>

record chat_message =
  cmID :: int
  cmChannel :: string
  cmRoleID :: int
  cmText :: string

record social_db =
  sdFriends :: "(int \<times> int) list"
  sdChat :: "chat_message list"
  sdSeq :: int

definition AddFriend :: "outcome \<Rightarrow> int \<Rightarrow> int \<Rightarrow> social_db \<Rightarrow> unit res \<times> social_db" where
  "AddFriend oc roleID friendID db = store_call oc db
     (Inr (), if (roleID, friendID) \<in> set (sdFriends db) then db else db\<lparr>sdFriends := sdFriends db @ [(roleID, friendID)]\<rparr>)"

definition ListFriends :: "outcome \<Rightarrow> (int list \<Rightarrow> int list) \<Rightarrow> int \<Rightarrow> social_db \<Rightarrow> int list res" where
  "ListFriends oc ord roleID db =
     (if oc \<noteq> Done then Inl ErrStore else Inr (ord (map snd (filter (\<lambda>p. fst p = roleID) (sdFriends db)))))"

text \<open>The column \<^verbatim>\<open>channel\<close> holds 32 characters: bytes that do not continue a character of UTF-8.\<close>

definition characters :: "string \<Rightarrow> nat" where
  "characters s = length (filter (\<lambda>c. of_char c div (64 :: nat) \<noteq> 2) s)"

definition InsertChat :: "outcome \<Rightarrow> string \<Rightarrow> int \<Rightarrow> string \<Rightarrow> social_db \<Rightarrow> unit res \<times> social_db" where
  "InsertChat oc channel roleID msg db = store_call oc db
     (if 32 < characters channel then (Inl ErrStore, db)
      else (Inr (), db\<lparr>sdChat := sdChat db @ [\<lparr>cmID = sdSeq db, cmChannel = channel, cmRoleID = roleID, cmText = msg\<rparr>], sdSeq := sdSeq db + 1\<rparr>))"

definition RecentChat :: "outcome \<Rightarrow> string \<Rightarrow> int \<Rightarrow> social_db \<Rightarrow> chat_message list res" where
  "RecentChat oc channel limit db =
     (if oc \<noteq> Done then Inl ErrStore
      else let limit = (if limit \<le> 0 then 50 else limit)
           in Inr (take (nat limit) (rev (filter (\<lambda>m. cmChannel m = channel) (sdChat db)))))"

section \<open>The service\<close>

definition globalChannel :: string where "globalChannel = ''global:world''"
definition maxMemChatMessages :: nat where "maxMemChatMessages = 1000"

text \<open>A message in memory is a map with the keys \<^verbatim>\<open>channel\<close>, \<^verbatim>\<open>role_id\<close> and \<^verbatim>\<open>text\<close>.\<close>

type_synonym content = "string \<times> int \<times> string"

record social_srv =
  ssRepo :: "social_db option"
  ssMem :: "content list"

text \<open>A listed message is a row, encoded with the names of its fields, or a map.\<close>

datatype chat_item = Row chat_message | Entry content

datatype social_data = Okay | Friends "int list" | Sent string | Messages string "chat_item list" | Guilds

definition appendMemChat :: "string \<Rightarrow> int \<Rightarrow> string \<Rightarrow> content list \<Rightarrow> content list" where
  "appendMemChat channel roleID msg mem =
     (let mem = mem @ [(channel, roleID, msg)]
      in if maxMemChatMessages < length mem then drop (length mem - maxMemChatMessages) mem else mem)"

definition handleFriendAdd :: "outcome \<Rightarrow> session_info \<Rightarrow> body \<Rightarrow> social_srv \<Rightarrow> social_data reply \<times> social_srv" where
  "handleFriendAdd oc info p s =
     (let friendID = json_int64 ''friend_id'' p in
      if \<not> json_valid [(''friend_id'', JNum 64)] p \<or> friendID \<le> 0 then (HttpError 400, s)
      else case ssRepo s of
        None \<Rightarrow> (ReplyOK Okay, s)
      | Some db \<Rightarrow>
          (case AddFriend oc (siRoleID info) friendID db of
             (Inl _, db) \<Rightarrow> (HttpError 500, s\<lparr>ssRepo := Some db\<rparr>)
           | (Inr _, db) \<Rightarrow> (ReplyOK Okay, s\<lparr>ssRepo := Some db\<rparr>)))"

definition handleFriendList :: "outcome \<Rightarrow> (int list \<Rightarrow> int list) \<Rightarrow> session_info \<Rightarrow> social_srv \<Rightarrow> social_data reply" where
  "handleFriendList oc ord info s =
     (case ssRepo s of
        None \<Rightarrow> ReplyOK (Friends [])
      | Some db \<Rightarrow> (case ListFriends oc ord (siRoleID info) db of Inl _ \<Rightarrow> HttpError 500 | Inr l \<Rightarrow> ReplyOK (Friends l)))"

definition chat_shape :: "(string \<times> json) list" where
  "chat_shape = [(''channel'', JStr []), (''text'', JStr [])]"

definition chat_channel :: "string \<Rightarrow> body \<Rightarrow> string" where
  "chat_channel channel p =
     (let channel = (if channel = [] then json_string ''channel'' p else channel)
      in if channel = [] then ''world'' else channel)"

definition chat_text :: "session_info \<Rightarrow> body \<Rightarrow> string" where
  "chat_text info p =
     (if 0 < siZoneID info then ''[z'' @ FormatInt (siZoneID info) @ ''] '' @ json_string ''text'' p else json_string ''text'' p)"

definition chatSend :: "outcome \<Rightarrow> session_info \<Rightarrow> string \<Rightarrow> body \<Rightarrow> social_srv \<Rightarrow> social_data reply \<times> social_srv" where
  "chatSend oc info channel p s =
     (if \<not> json_valid chat_shape p then (HttpError 400, s)
      else let channel = chat_channel channel p; msg = chat_text info p in
        case ssRepo s of
          Some db \<Rightarrow>
            (case InsertChat oc channel (siRoleID info) msg db of
               (Inl _, db) \<Rightarrow> (HttpError 500, s\<lparr>ssRepo := Some db\<rparr>)
             | (Inr _, db) \<Rightarrow> (ReplyOK (Sent channel), s\<lparr>ssRepo := Some db\<rparr>))
        | None \<Rightarrow> (ReplyOK (Sent channel), s\<lparr>ssMem := appendMemChat channel (siRoleID info) msg (ssMem s)\<rparr>))"

definition handleChatSend :: "outcome \<Rightarrow> session_info \<Rightarrow> string \<Rightarrow> body \<Rightarrow> social_srv \<Rightarrow> social_data reply \<times> social_srv" where
  "handleChatSend oc info query p s = chatSend oc info query p s"

definition handleGlobalChatSend :: "outcome \<Rightarrow> session_info \<Rightarrow> body \<Rightarrow> social_srv \<Rightarrow> social_data reply \<times> social_srv" where
  "handleGlobalChatSend oc info p s = chatSend oc info globalChannel p s"

text \<open>In memory every entry has a channel, so that the second disjunct of the filter never holds.\<close>

definition chatList :: "outcome \<Rightarrow> string \<Rightarrow> social_srv \<Rightarrow> social_data reply" where
  "chatList oc channel s =
     (case ssRepo s of
        Some db \<Rightarrow> (case RecentChat oc channel 50 db of Inl _ \<Rightarrow> HttpError 500 | Inr l \<Rightarrow> ReplyOK (Messages channel (map Row l)))
      | None \<Rightarrow> ReplyOK (Messages channel (map Entry (filter (\<lambda>m. fst m = channel) (ssMem s)))))"

definition handleChatList :: "outcome \<Rightarrow> string \<Rightarrow> social_srv \<Rightarrow> social_data reply" where
  "handleChatList oc query s = chatList oc (if query = [] then ''world'' else query) s"

definition handleGlobalChatList :: "outcome \<Rightarrow> social_srv \<Rightarrow> social_data reply" where
  "handleGlobalChatList oc s = chatList oc globalChannel s"

section \<open>The routes\<close>

text \<open>A request with the state of the session store when it arrives and the outcomes of its calls.\<close>

record social_req =
  sqPath :: string
  sqHeaders :: auth_headers
  sqSessions :: "session_store option"
  sqNow :: int
  sqAuth :: outcome
  sqStore :: outcome
  sqOrder :: "int list \<Rightarrow> int list"
  sqChannel :: string
  sqBody :: body

definition social_route :: "social_req \<Rightarrow> (session_info \<Rightarrow> social_srv \<Rightarrow> social_data reply \<times> social_srv) option" where
  "social_route q =
     (if sqPath q = ''/api/social/friend/add'' then Some (\<lambda>info s. handleFriendAdd (sqStore q) info (sqBody q) s)
      else if sqPath q = ''/api/social/friend/list'' then Some (\<lambda>info s. (handleFriendList (sqStore q) (sqOrder q) info s, s))
      else if sqPath q = ''/api/social/chat/send'' then Some (\<lambda>info s. handleChatSend (sqStore q) info (sqChannel q) (sqBody q) s)
      else if sqPath q = ''/api/social/chat/list'' then Some (\<lambda>info s. (handleChatList (sqStore q) (sqChannel q) s, s))
      else if sqPath q = ''/api/social/chat/global/send'' then Some (\<lambda>info s. handleGlobalChatSend (sqStore q) info (sqBody q) s)
      else if sqPath q = ''/api/social/chat/global/list'' then Some (\<lambda>info s. (handleGlobalChatList (sqStore q) s, s))
      else if sqPath q = ''/api/social/guild/info'' then Some (\<lambda>info s. (ReplyOK Guilds, s))
      else None)"

definition social_Handler :: "social_req \<Rightarrow> social_srv \<Rightarrow> social_data reply \<times> social_srv" where
  "social_Handler q s =
     (case social_route q of
        None \<Rightarrow> (HttpError 404, s)
      | Some h \<Rightarrow> session_HTTPMiddleware (sqAuth q) (sqNow q) (sqSessions q) (sqHeaders q) h s)"

fun social_run :: "social_req list \<Rightarrow> social_srv \<Rightarrow> social_data reply list \<times> social_srv" where
  "social_run [] s = ([], s)"
| "social_run (q # qs) s = (let (r, s) = social_Handler q s; (rs, s) = social_run qs s in (r # rs, s))"

section \<open>The reference\<close>

text \<open>Who sends a request, as the middleware decides it.\<close>

definition sender :: "social_req \<Rightarrow> session_info option" where
  "sender q =
     (if sqSessions q = None \<or> tokenFromRequest (sqHeaders q) = [] then None
      else case session_Load (sqAuth q) (sqNow q) (tokenFromRequest (sqHeaders q)) (sqSessions q) of Inl _ \<Rightarrow> None | Inr info \<Rightarrow> Some info)"

lemma social_Handler_sender:
  "social_Handler q s =
     (case social_route q of None \<Rightarrow> (HttpError 404, s) | Some h \<Rightarrow> (case sender q of None \<Rightarrow> (Unauthorized, s) | Some info \<Rightarrow> h info s))"
  by (auto simp: social_Handler_def session_HTTPMiddleware_def sender_def Let_def split: option.splits sum.splits)

text \<open>The message that a request asks to send: its channel, the role of the session and the text under the zone of the session.\<close>

definition send_channel :: "social_req \<Rightarrow> string option" where
  "send_channel q =
     (if sqPath q = ''/api/social/chat/send'' then Some (chat_channel (sqChannel q) (sqBody q))
      else if sqPath q = ''/api/social/chat/global/send'' then Some globalChannel else None)"

definition sent_message :: "social_req \<Rightarrow> content option" where
  "sent_message q =
     (case (send_channel q, sender q) of
        (Some channel, Some info) \<Rightarrow> if json_valid chat_shape (sqBody q) then Some (channel, siRoleID info, chat_text info (sqBody q)) else None
      | _ \<Rightarrow> None)"

definition kept_message :: "bool \<Rightarrow> social_req \<Rightarrow> content option" where
  "kept_message db q =
     (case sent_message q of
        None \<Rightarrow> None
      | Some m \<Rightarrow> if db \<and> (sqStore q = Failed \<or> 32 < characters (fst m)) then None else Some m)"

definition row_content :: "chat_message \<Rightarrow> content" where
  "row_content m = (cmChannel m, cmRoleID m, cmText m)"

fun item_content :: "chat_item \<Rightarrow> content" where
  "item_content (Row m) = row_content m"
| "item_content (Entry c) = c"

definition opt_list :: "'a option \<Rightarrow> 'a list" where
  "opt_list x = (case x of None \<Rightarrow> [] | Some y \<Rightarrow> [y])"

definition last_n :: "nat \<Rightarrow> 'a list \<Rightarrow> 'a list" where
  "last_n n xs = drop (length xs - n) xs"

text \<open>What the service holds, as the reference sees it.\<close>

definition held :: "social_srv \<Rightarrow> content list" where
  "held s = (case ssRepo s of Some db \<Rightarrow> map row_content (sdChat db) | None \<Rightarrow> ssMem s)"

definition bounded :: "bool \<Rightarrow> content list \<Rightarrow> content list" where
  "bounded db xs = (if db then xs else last_n maxMemChatMessages xs)"

lemma last_n_append: "length ys \<le> n \<Longrightarrow> last_n n (last_n n xs @ ys) = last_n n (xs @ ys)"
  by (cases "length xs \<le> n") (auto simp: last_n_def add.commute)

lemma appendMemChat_last: "appendMemChat c r t xs = last_n maxMemChatMessages (xs @ [(c, r, t)])"
  by (simp add: appendMemChat_def last_n_def Let_def del: drop_append)

lemma chatSend_held:
  assumes "chatSend oc info channel p s = (x, s')" and "ssRepo s \<noteq> None \<longleftrightarrow> db" and "m = (chat_channel channel p, siRoleID info, chat_text info p)"
  shows "(ssRepo s' \<noteq> None \<longleftrightarrow> db) \<and> (x = ReplyOK (Sent (fst m)) \<or> (\<exists>c. x = HttpError c)) \<and>
    (if \<not> json_valid chat_shape p \<or> db \<and> (oc = Failed \<or> 32 < characters (fst m)) then held s' = held s \<and> (\<exists>c. x = HttpError c)
     else held s' = (if db then held s @ [m] else last_n maxMemChatMessages (held s @ [m])))"
  using assms by (cases oc)
    (auto simp: chatSend_def InsertChat_def held_def row_content_def appendMemChat_last Let_def split: option.splits if_splits)

lemma chat_channel_global [simp]: "chat_channel globalChannel p = globalChannel"
  by (simp add: chat_channel_def globalChannel_def)

lemma handleFriendAdd_held:
  "handleFriendAdd oc info p s = (x, s') \<Longrightarrow> held s' = held s \<and> (ssRepo s' \<noteq> None \<longleftrightarrow> ssRepo s \<noteq> None) \<and> x \<noteq> ReplyOK (Sent ch)"
  by (cases oc) (auto simp: handleFriendAdd_def AddFriend_def held_def Let_def split: option.splits if_splits)

lemma sends_nothing:
  "send_channel q = None \<Longrightarrow> social_Handler q s = (x, s') \<Longrightarrow> held s' = held s \<and> (ssRepo s' \<noteq> None \<longleftrightarrow> ssRepo s \<noteq> None) \<and> x \<noteq> ReplyOK (Sent ch)"
  unfolding social_Handler_sender social_route_def send_channel_def
  by (auto simp: handleFriendList_def handleChatList_def handleGlobalChatList_def chatList_def
      split: option.splits sum.splits if_splits dest: handleFriendAdd_held)

lemma sends_message:
  assumes "send_channel q = Some c" and "social_Handler q s = (x, s')"
  shows "(case sender q of None \<Rightarrow> s' = s \<and> x = Unauthorized
    | Some info \<Rightarrow> \<exists>channel. chat_channel channel (sqBody q) = c \<and> chatSend (sqStore q) info channel (sqBody q) s = (x, s'))"
proof (cases "sqPath q = ''/api/social/chat/send''")
  case True
  then show ?thesis using assms by (auto simp: social_Handler_sender social_route_def send_channel_def handleChatSend_def split: option.splits)
next
  case False
  then have "sqPath q = ''/api/social/chat/global/send''" "c = globalChannel" using assms(1) by (auto simp: send_channel_def split: if_splits)
  then show ?thesis using assms(2) by (auto simp: social_Handler_sender social_route_def handleGlobalChatSend_def intro: chat_channel_global split: option.splits)
qed

lemma handler_step:
  assumes "social_Handler q s = (x, s')" and "ssRepo s \<noteq> None \<longleftrightarrow> db"
  shows "(ssRepo s' \<noteq> None \<longleftrightarrow> db) \<and> (held s = bounded db xs \<longrightarrow> held s' = bounded db (xs @ opt_list (kept_message db q)))
    \<and> (x = ReplyOK (Sent ch) \<longrightarrow> (\<exists>m. kept_message db q = Some m \<and> fst m = ch))"
proof (cases "send_channel q")
  case None
  then have "kept_message db q = None" by (simp add: kept_message_def sent_message_def)
  then show ?thesis using sends_nothing [OF None assms(1), of ch] assms(2) by (simp add: opt_list_def)
next
  case (Some c)
  show ?thesis
  proof (cases "sender q")
    case None
    then have "kept_message db q = None" by (simp add: kept_message_def sent_message_def Some)
    then show ?thesis using sends_message [OF Some assms(1)] None assms(2) by (simp add: opt_list_def)
  next
    case (Some info)
    let ?m = "(c, siRoleID info, chat_text info (sqBody q))"
    obtain channel where ch: "chat_channel channel (sqBody q) = c" "chatSend (sqStore q) info channel (sqBody q) s = (x, s')"
      using sends_message [OF \<open>send_channel q = Some c\<close> assms(1)] Some by auto
    have m: "?m = (chat_channel channel (sqBody q), siRoleID info, chat_text info (sqBody q))" using ch(1) by simp
    have kept: "kept_message db q = (if \<not> json_valid chat_shape (sqBody q) \<or> db \<and> (sqStore q = Failed \<or> 32 < characters c) then None else Some ?m)"
      by (simp add: kept_message_def sent_message_def Some \<open>send_channel q = Some c\<close>)
    from chatSend_held [OF ch(2) assms(2) m] show ?thesis unfolding kept
      by (auto simp: bounded_def opt_list_def last_n_append maxMemChatMessages_def split: if_splits)
  qed
qed

lemma run_held:
  "social_run qs s = (rs, s') \<Longrightarrow> (ssRepo s \<noteq> None \<longleftrightarrow> db) \<Longrightarrow> held s = bounded db xs \<Longrightarrow>
   (ssRepo s' \<noteq> None \<longleftrightarrow> db) \<and> held s' = bounded db (xs @ concat (map (\<lambda>q. opt_list (kept_message db q)) qs)) \<and>
   length rs = length qs \<and> (\<forall>i < length qs. \<forall>ch. rs ! i = ReplyOK (Sent ch) \<longrightarrow> (\<exists>m. kept_message db (qs ! i) = Some m \<and> fst m = ch))"
proof (induction qs arbitrary: s rs xs)
  case Nil
  then show ?case by simp
next
  case (Cons q qs)
  obtain x s1 rs1 where one: "social_Handler q s = (x, s1)" "social_run qs s1 = (rs1, s')" "rs = x # rs1"
    using Cons.prems(1) by (auto simp: Let_def split: prod.splits)
  have h: "ssRepo s1 \<noteq> None \<longleftrightarrow> db" "held s1 = bounded db (xs @ opt_list (kept_message db q))"
      "x = ReplyOK (Sent ch) \<longrightarrow> (\<exists>m. kept_message db q = Some m \<and> fst m = ch)" for ch
    using handler_step [OF one(1) Cons.prems(2)] Cons.prems(3) by blast+
  show ?case using Cons.IH [OF one(2) h(1,2)] h(3) one(3) by (auto simp: less_Suc_eq_0_disj)
qed

text \<open>
  C37. Chat lists are exact. Take any history of requests to a fresh social service, from any senders, with
  any faults. Compare with a reference that appends every message that was asked for by a logged-in sender
  and not refused, with the role of the session and the zone of the session in front of the text. Then the
  list of a channel is, with a database, the newest fifty messages of the channel, newest first; in memory, those
  of the channel among the last thousand messages, oldest first. Every send that is answered with success is
  one of those messages, in the channel the answer names.
\<close>

theorem chat_lists_exact:
  assumes "social_run qs \<lparr>ssRepo = (if db then Some \<lparr>sdFriends = [], sdChat = [], sdSeq = n\<rparr> else None), ssMem = []\<rparr> = (rs, s')"
    and "ms = concat (map (\<lambda>q. opt_list (kept_message db q)) qs)"
  shows "(\<exists>items. chatList Done c s' = ReplyOK (Messages c items) \<and>
      map item_content items = (if db then take 50 (rev (filter (\<lambda>m. fst m = c) ms)) else filter (\<lambda>m. fst m = c) (last_n 1000 ms)))
    \<and> length rs = length qs \<and> (\<forall>i < length qs. \<forall>ch. rs ! i = ReplyOK (Sent ch) \<longrightarrow> (\<exists>m. kept_message db (qs ! i) = Some m \<and> fst m = ch))"
proof -
  let ?s = "\<lparr>ssRepo = (if db then Some \<lparr>sdFriends = [], sdChat = [], sdSeq = n\<rparr> else None), ssMem = []\<rparr>"
  have start: "ssRepo ?s \<noteq> None \<longleftrightarrow> db" "held ?s = bounded db []" by (auto simp: held_def bounded_def last_n_def)
  note R = run_held [OF assms(1) start]
  have h: "held s' = bounded db ms" and d: "ssRepo s' \<noteq> None \<longleftrightarrow> db" using R assms(2) by simp_all
  have "\<exists>items. chatList Done c s' = ReplyOK (Messages c items) \<and>
      map item_content items = (if db then take 50 (rev (filter (\<lambda>m. fst m = c) ms)) else filter (\<lambda>m. fst m = c) (last_n 1000 ms))"
  proof (cases "ssRepo s'")
    case None
    then show ?thesis using h d by (simp add: chatList_def held_def bounded_def maxMemChatMessages_def comp_def)
  next
    case (Some d)
    then have "map row_content (sdChat d) = ms" "db" using h \<open>ssRepo s' \<noteq> None \<longleftrightarrow> db\<close> by (simp_all add: held_def bounded_def)
    then have "map row_content (filter (\<lambda>m. cmChannel m = c) (sdChat d)) = filter (\<lambda>m. fst m = c) ms"
      by (auto simp: filter_map comp_def row_content_def)
    then have "map row_content (take 50 (rev (filter (\<lambda>m. cmChannel m = c) (sdChat d)))) = take 50 (rev (filter (\<lambda>m. fst m = c) ms))"
      by (simp only: take_map [symmetric] rev_map [symmetric])
    then show ?thesis using Some \<open>db\<close> by (simp add: chatList_def RecentChat_def comp_def)
  qed
  then show ?thesis using R by blast
qed

definition demo_social_sessions :: session_store where
  "demo_social_sessions = (\<lambda>k. if k = session_key ''0123456789abcdef'' then Some (Some \<lparr>siRoleID = 7, siZoneID = 2\<rparr>, None) else None)"

definition demo_send :: "string \<Rightarrow> social_req" where
  "demo_send msg = \<lparr>sqPath = ''/api/social/chat/send'', sqHeaders = \<lparr>hAuthorization = [], hSession = ''0123456789abcdef''\<rparr>, sqSessions = Some demo_social_sessions,
     sqNow = 0, sqAuth = Done, sqStore = Done, sqOrder = id, sqChannel = [], sqBody = Some (JObj [(''text'', JStr msg)])\<rparr>"

lemma demo_sender: "sender (demo_send msg) = Some \<lparr>siRoleID = 7, siZoneID = 2\<rparr>"
proof -
  have "TrimSpace ''0123456789abcdef'' = ''0123456789abcdef''" by (rule TrimSpace_plain) (simp add: plain_def space_codes_def)
  moreover have "TrimSpace [] = []" by (rule TrimSpace_plain) (simp add: plain_def)
  ultimately have "tokenFromRequest (sqHeaders (demo_send msg)) = ''0123456789abcdef''" by (simp add: demo_send_def tokenFromRequest_def)
  then show ?thesis by (simp add: sender_def session_Load_def validToken_def redis_GET_def demo_social_sessions_def session_key_def demo_send_def)
qed

lemma demo_sent: "kept_message True (demo_send msg) = Some (''world'', 7, ''[z2] '' @ msg)"
proof -
  have fmt: "FormatInt 2 = ''2''" by (simp add: FormatInt_def nat_digits.simps digit_char_def)
  have rd: "json_valid chat_shape (Some (JObj [(''text'', JStr msg)]))" "json_string ''channel'' (Some (JObj [(''text'', JStr msg)])) = []"
      "json_string ''text'' (Some (JObj [(''text'', JStr msg)])) = msg"
    by (simp_all add: json_valid_def chat_shape_def same_key_def lower_char_def json_string_def read_field_def Json_Values.fields_def)
  show ?thesis using demo_sender [of msg] rd fmt
    by (simp add: kept_message_def sent_message_def send_channel_def chat_channel_def chat_text_def characters_def demo_send_def)
qed

theorem chat_lists_exact_witness:
  "\<exists>rs s' items. social_run [demo_send ''hi'', demo_send ''there''] \<lparr>ssRepo = Some \<lparr>sdFriends = [], sdChat = [], sdSeq = 1\<rparr>, ssMem = []\<rparr> = (rs, s') \<and>
     chatList Done ''world'' s' = ReplyOK (Messages ''world'' items) \<and> map item_content items = [(''world'', 7, ''[z2] there''), (''world'', 7, ''[z2] hi'')]"
proof -
  obtain rs s' where run: "social_run [demo_send ''hi'', demo_send ''there''] \<lparr>ssRepo = (if True then Some \<lparr>sdFriends = [], sdChat = [], sdSeq = 1\<rparr> else None), ssMem = []\<rparr> = (rs, s')"
    by fastforce
  from chat_lists_exact [OF run refl, of "''world''"] run show ?thesis by (auto simp: opt_list_def demo_sent)
qed

section \<open>Friends\<close>

text \<open>With a database, an acknowledged friend is listed, and nobody else's list changes.\<close>

lemma friend_listed:
  assumes "handleFriendAdd oc info p s = (ReplyOK Okay, s')" and "ssRepo s = Some db" and "\<forall>l. set (ord l) = set l"
  shows "\<exists>db' l l'. ssRepo s' = Some db' \<and> ListFriends Done ord (siRoleID other) db = Inr l \<and> handleFriendList Done ord other s' = ReplyOK (Friends l') \<and>
    set l' = (if siRoleID other = siRoleID info then insert (json_int64 ''friend_id'' p) (set l) else set l)"
  using assms by (cases oc) (auto simp: handleFriendAdd_def AddFriend_def handleFriendList_def ListFriends_def Let_def split: if_splits, (force simp: image_iff)+)

text \<open>Without a database an added friend is acknowledged and forgotten.\<close>

lemma friend_forgotten:
  assumes "ssRepo s = None" and "json_valid [(''friend_id'', JNum 64)] p" and "0 < json_int64 ''friend_id'' p"
  shows "handleFriendAdd oc info p s = (ReplyOK Okay, s) \<and> handleFriendList oc' ord info s = ReplyOK (Friends [])"
  using assms by (simp add: handleFriendAdd_def handleFriendList_def)

text \<open>A channel name of more than 32 characters is accepted in memory and an error of the server with a database.\<close>

lemma long_channel_differs:
  assumes "json_valid chat_shape p" and "32 < characters channel"
  shows "fst (chatSend Done info channel p \<lparr>ssRepo = Some db, ssMem = []\<rparr>) = HttpError 500"
    and "fst (chatSend Done info channel p \<lparr>ssRepo = None, ssMem = []\<rparr>) = ReplyOK (Sent channel)"
proof -
  have "channel \<noteq> []" using assms(2) by (auto simp: characters_def)
  then show "fst (chatSend Done info channel p \<lparr>ssRepo = Some db, ssMem = []\<rparr>) = HttpError 500"
    and "fst (chatSend Done info channel p \<lparr>ssRepo = None, ssMem = []\<rparr>) = ReplyOK (Sent channel)"
    using assms by (simp_all add: chatSend_def chat_channel_def InsertChat_def)
qed

end
