(* ===== verification/Push_Client.thy ===== *)
theory Push_Client
  imports Gate_Connections Mail_Service
begin

text \<open>
  Pushing to players who are online: the client (\<^verbatim>\<open>pkg/client/notify.go\<close>) looks up the presence record of
  the role, posts to the push endpoint of the Gate named there, and that Gate writes the frame to the
  connection of the role. The mail service announces new mails this way (\<^verbatim>\<open>pushNewMail\<close>). The body of a
  frame is JSON text; the encoder of the standard library is an argument.
\<close>

section \<open>The client\<close>

definition ErrOffline :: err where "ErrOffline = ErrMsg ''player offline''"
definition ActPushMail :: "16 word" where "ActPushMail = 4"

record notify_client =
  ncRedis :: "presence_store option"
  ncSecret :: string

definition NewNotifyClient :: "presence_store option \<Rightarrow> notify_client" where
  "NewNotifyClient rdb = \<lparr>ncRedis = rdb, ncSecret = []\<rparr>"

definition WithSecret :: "string \<Rightarrow> notify_client \<Rightarrow> notify_client" where
  "WithSecret secret c = c\<lparr>ncSecret := secret\<rparr>"

definition push_body :: "int \<Rightarrow> 16 word \<Rightarrow> 16 word \<Rightarrow> string \<Rightarrow> body" where
  "push_body roleID cmd act b =
     Some (JObj [(''act'', JNum (uint act)), (''body'', JStr b), (''cmd'', JNum (uint cmd)), (''role_id'', JNum roleID)])"

definition push_url :: "string \<Rightarrow> string" where
  "push_url gateHTTP = ''http://'' @ gateHTTP @ ''/internal/push''"

fun push_error :: "unit reply \<Rightarrow> err option" where
  "push_error (ReplyOK _) = None"
| "push_error (Reply n) = Some ErrOffline"
| "push_error (HttpError n) = Some (ErrMsg ''gate push status'')"
| "push_error Unauthorized = Some (ErrMsg ''gate push status'')"
| "push_error Aborted = Some (ErrMsg ''EOF'')"

text \<open>\<open>ocP\<close> is the read of the presence record, \<open>oc\<close> the request; \<open>post\<close> is the server at a URL.\<close>

definition Push :: "outcome \<Rightarrow> int \<Rightarrow> outcome \<Rightarrow> (string \<Rightarrow> string \<Rightarrow> body \<Rightarrow> 'w \<Rightarrow> unit reply \<times> 'w) \<Rightarrow> notify_client
    \<Rightarrow> int \<Rightarrow> 16 word \<Rightarrow> 16 word \<Rightarrow> string \<Rightarrow> 'w \<Rightarrow> err option \<times> 'w" where
  "Push ocP now oc post c roleID cmd act b w =
     (case ncRedis c of
        None \<Rightarrow> (Some ErrOffline, w)
      | Some ps \<Rightarrow>
          (case presence_Load ocP now roleID ps of
             Inl _ \<Rightarrow> (Some ErrOffline, w)
           | Inr rec \<Rightarrow>
               if prGateHTTP rec = [] then (Some (ErrMsg ''presence missing gate_http''), w)
               else let (r, w') = post (push_url (prGateHTTP rec)) (SetHTTP (ncSecret c)) (push_body roleID cmd act b) w in
                 (case oc of Failed \<Rightarrow> (Some ErrStore, w) | Lost \<Rightarrow> (Some ErrStore, w') | Done \<Rightarrow> (push_error r, w'))))"

text \<open>The announcement of a mail; errors are logged and otherwise ignored.\<close>

definition pushNewMail :: "(json \<Rightarrow> string) \<Rightarrow> outcome \<Rightarrow> int \<Rightarrow> outcome \<Rightarrow> (string \<Rightarrow> string \<Rightarrow> body \<Rightarrow> 'w \<Rightarrow> unit reply \<times> 'w) \<Rightarrow> notify_client option
    \<Rightarrow> int \<Rightarrow> string \<Rightarrow> 'w \<Rightarrow> 'w" where
  "pushNewMail marshal ocP now oc post notify roleID title w =
     (case notify of
        None \<Rightarrow> w
      | Some c \<Rightarrow> snd (Push ocP now oc post c roleID CmdPush ActPushMail (marshal (JObj [(''title'', JStr title)])) w))"

section \<open>The Gates\<close>

text \<open>The Gates by their HTTP address; a URL without a Gate refuses the connection, which is an aborted request.\<close>

type_synonym gates = "string \<Rightarrow> gate_srv option"

definition gate_of_url :: "string \<Rightarrow> string" where
  "gate_of_url url = take (length url - 21) (drop 7 url)"

lemma gate_of_push_url [simp]: "gate_of_url (push_url g) = g"
  by (simp add: gate_of_url_def push_url_def)

definition gates_post :: "bool \<Rightarrow> string \<Rightarrow> string \<Rightarrow> body \<Rightarrow> gates \<Rightarrow> unit reply \<times> gates" where
  "gates_post ok url header p gs =
     (let g = gate_of_url url in
      case gs g of
        None \<Rightarrow> (Aborted, gs)
      | Some s \<Rightarrow> (let (r, s') = internal_HTTPMiddleware (sInternalSecret (gtCfg s)) header (handlePush True ok p) s in (r, gs(g \<mapsto> s'))))"

section \<open>What the Gate receives\<close>

lemma uint_16: "0 \<le> uint (w :: 16 word) \<and> uint w < 65536"
  using uint_bounded [of w] by simp

lemma push_body_valid: "json_valid push_shape (push_body r cmd act b) \<longleftrightarrow> in_i64 r"
  using uint_16 [of cmd] uint_16 [of act] by (auto simp: json_valid_def push_shape_def push_body_def same_key_def lower_char_def)

lemma push_body_reads:
  "in_i64 r \<Longrightarrow> json_int64 ''role_id'' (push_body r cmd act b) = r" "json_string ''body'' (push_body r cmd act b) = b"
  "json_uint16 ''cmd'' (push_body r cmd act b) = cmd" "json_uint16 ''act'' (push_body r cmd act b) = act"
  using uint_16 [of cmd] uint_16 [of act]
  by (simp_all add: json_int64_def json_string_def json_uint16_def push_body_def body_defs)

definition push_frame :: "16 word \<Rightarrow> 16 word \<Rightarrow> string \<Rightarrow> response" where
  "push_frame cmd act b = \<lparr>gfCmd = (if cmd = 0 then CmdPush else cmd), gfAct = act, gfBody = RawBody b\<rparr>"

lemma pushed_body: "pushed (push_body r cmd act b) = push_frame cmd act b"
  by (simp add: pushed_def push_frame_def push_body_reads)

lemma handlePush_body:
  assumes "handlePush True ok (push_body r cmd act b) s = (x, s')"
  shows "s' = s \<and> push_error x \<noteq> None \<or>
    (\<exists>c. gtConns s r = Some c \<and> cnOpen (gtHeap s c) \<and> x = ReplyOK () \<and> s' = set_conn c (\<lambda>k. k\<lparr>cnOut := cnOut k @ [push_frame cmd act b]\<rparr>) s)"
proof (cases "in_i64 r \<and> r \<noteq> 0")
  case True
  then show ?thesis using assms by (auto simp: handlePush_def push_body_valid push_body_reads pushed_body conn_write_def split: option.splits sum.splits if_splits)
next
  case False
  then show ?thesis using assms by (auto simp: handlePush_def push_body_valid push_body_reads)
qed

lemma gates_post_cases:
  assumes "gates_post ok (push_url g) header (push_body r cmd act b) gs = (x, gs')"
  shows "gs' = gs \<and> push_error x \<noteq> None \<or>
    (\<exists>s c. gs g = Some s \<and> gtConns s r = Some c \<and> cnOpen (gtHeap s c) \<and> x = ReplyOK () \<and>
       gs' = gs(g \<mapsto> set_conn c (\<lambda>k. k\<lparr>cnOut := cnOut k @ [push_frame cmd act b]\<rparr>) s))"
proof (cases "gs g")
  case None
  then show ?thesis using assms by (auto simp: gates_post_def)
next
  case (Some s)
  obtain y s1 where h: "handlePush True ok (push_body r cmd act b) s = (y, s1)" by fastforce
  have "(gs' = gs \<and> push_error x \<noteq> None) \<or> (x = y \<and> gs' = gs(g \<mapsto> s1))"
    using assms Some h by (auto simp: gates_post_def internal_HTTPMiddleware_def Let_def split: if_splits prod.splits)
  then show ?thesis using handlePush_body [OF h] Some by auto
qed

lemma Push_cases:
  assumes "Push ocP now oc (gates_post ok) c r cmd act b gs = (x, gs')"
  shows "gs' = gs \<and> x \<noteq> None \<or>
    (\<exists>ps rec s k. ncRedis c = Some ps \<and> presence_Load ocP now r ps = Inr rec \<and> gs (prGateHTTP rec) = Some s \<and> gtConns s r = Some k \<and> cnOpen (gtHeap s k) \<and>
       (x = None \<longleftrightarrow> oc = Done) \<and> gs' = gs(prGateHTTP rec \<mapsto> set_conn k (\<lambda>n. n\<lparr>cnOut := cnOut n @ [push_frame cmd act b]\<rparr>) s))"
proof (cases "ncRedis c")
  case None
  then show ?thesis using assms by (auto simp: Push_def)
next
  case (Some ps)
  show ?thesis
  proof (cases "presence_Load ocP now r ps")
    case (Inl e)
    then show ?thesis using assms Some by (auto simp: Push_def)
  next
    case (Inr rec)
    obtain y gs1 where p: "gates_post ok (push_url (prGateHTTP rec)) (SetHTTP (ncSecret c)) (push_body r cmd act b) gs = (y, gs1)" by fastforce
    have "gs' = gs \<and> x \<noteq> None \<or> oc = Lost \<and> gs' = gs1 \<and> x \<noteq> None \<or> oc = Done \<and> x = push_error y \<and> gs' = gs1"
      using assms Some Inr p by (auto simp: Push_def split: if_splits outcome.splits)
    then show ?thesis using gates_post_cases [OF p] Some Inr by auto
  qed
qed

text \<open>
  C38. A push reaches the connection that serves the player, and no other. Take any Gates, each after any run
  since its start, and any push for a role. Either nothing changes on any Gate and the push reports an error, or
  exactly one frame, with the command, action and body of the push, is written to one connection: it is on
  the Gate that the presence record of the role names, it is open, it is in the table of that Gate for the
  role, and it registered last for it there. A push that reports success was written; one that was written
  reports an error only if the reply was lost.
\<close>

theorem push_reaches_player:
  assumes "\<forall>g s. gs g = Some s \<longrightarrow> gate_start (s0 g) \<and> gate_run (s0 g) (ls g) s"
    and "Push ocP now oc (gates_post ok) c r cmd act b gs = (x, gs')"
  shows "(gs' = gs \<and> x \<noteq> None) \<or>
    (\<exists>ps rec s k. ncRedis c = Some ps \<and> presence_Load ocP now r ps = Inr rec \<and> gs (prGateHTTP rec) = Some s \<and>
       gtConns s r = Some k \<and> last_registered r (ls (prGateHTTP rec)) = Some k \<and> cnOpen (gtHeap s k) \<and> (x = None \<longleftrightarrow> oc = Done) \<and>
       gs' = gs(prGateHTTP rec \<mapsto> set_conn k (\<lambda>n. n\<lparr>cnOut := cnOut n @ [push_frame cmd act b]\<rparr>) s))"
proof -
  have reg: "last_registered r (ls g) = Some k" if "gs g = Some s" "gtConns s r = Some k" for g s k
    using table_run [of "s0 g" "ls g" s] assms(1) that by (auto simp: table_inv_def)
  from Push_cases [OF assms(2)] show ?thesis using reg by blast
qed

definition demo_gates :: gates where
  "demo_gates = [''h1'' \<mapsto> demo_served []]"

definition demo_notify :: notify_client where
  "demo_notify = NewNotifyClient (Some demo_presences)"

lemma redis_GET_empty: "redis_GET now k (\<lambda>_. None) = None"
  by (simp add: redis_GET_def)

lemma demo_record: "\<exists>rec. presence_Load Done 0 7 demo_presences = Inr rec \<and> prGateHTTP rec = ''h1''"
  by (simp add: demo_presences_def presence_Load_def presence_Store_def storeScript_def redis_GET_empty day_def millis_def Let_def hex_encode_def login_record_def)
    (simp add: gate_at_def)

theorem push_reaches_player_witness:
  "\<exists>gs' s'. Push Done 0 Done (gates_post True) demo_notify 7 CmdPush ActPushMail ''hi'' demo_gates = (None, gs') \<and> gs' ''h1'' = Some s' \<and>
     cnOut (gtHeap s' 0) = [login_ok, push_frame CmdPush ActPushMail ''hi'']"
proof -
  have runs: "\<forall>g s. demo_gates g = Some s \<longrightarrow> gate_start demo_gate \<and> gate_run demo_gate demo_labels s"
    using demo_start demo_run by (auto simp: demo_gates_def split: if_splits)
  obtain x gs' where run: "Push Done 0 Done (gates_post True) demo_notify 7 CmdPush ActPushMail ''hi'' demo_gates = (x, gs')" by fastforce
  obtain rec where rec: "presence_Load Done 0 7 demo_presences = Inr rec" "prGateHTTP rec = ''h1''" using demo_record by blast
  have "fst (handlePush True True (push_body 7 CmdPush ActPushMail ''hi'') (demo_served [])) = ReplyOK ()"
    by (simp add: handlePush_def push_body_valid push_body_reads in_i64_def conn_write_def demo_conn_def new_conn_def EncodeInto_def text_bytes_def HeaderSize_def MaxFrameSize_def Let_def)
  then have "x = None" using run rec
    by (auto simp: Push_def demo_notify_def NewNotifyClient_def gates_post_def demo_gates_def internal_HTTPMiddleware_def zero_config_def Let_def split: prod.splits)
  from push_reaches_player [of demo_gates "\<lambda>_. demo_gate" "\<lambda>_. demo_labels", OF runs run] show ?thesis
    using run rec \<open>x = None\<close> by (auto simp: demo_notify_def NewNotifyClient_def demo_gates_def demo_conn_def split: if_splits)
qed

end
