(* ===== verification/GM_Service.thy ===== *)
theory GM_Service
  imports Discovery Game_Client
begin

text \<open>
  The GM console (\<^verbatim>\<open>services/gm/internal/server.go\<close>): operator requests that are relayed to the service
  that carries them out, found by discovery; game requests of a role go to the shard of the role. The
  clock, the registry faults and the health probes of each lookup, and the servers behind the URLs, are
  arguments. A URL without a host is an error of the HTTP client.
\<close>

section \<open>Addresses\<close>

record gm_srv =
  gmCfg :: service_config
  gmDisc :: "(resolver \<times> registry) option"

record lookup_env =
  luNow :: int
  luLater :: int
  luFaults :: disc_faults
  luZones :: "int \<Rightarrow> disc_faults"
  luShuffle :: "service_instance list \<Rightarrow> service_instance list"
  luProbe :: "string \<Rightarrow> bool"

definition gm_zoneID :: "string \<Rightarrow> gm_srv \<Rightarrow> int" where
  "gm_zoneID query s = (case ParseInt 32 query of (z, None) \<Rightarrow> if 0 < z then z else sZoneID (gmCfg s) | (_, Some _) \<Rightarrow> sZoneID (gmCfg s))"

definition gm_ports :: "(string \<times> (int \<times> string) list) list" where
  "gm_ports =
     [(''game'', [(1, ''http://127.0.0.1:9100''), (2, ''http://127.0.0.1:9110'')]), (''mail'', [(1, ''http://127.0.0.1:9500'')]),
      (''pay'', [(1, ''http://127.0.0.1:9800'')]), (''activity'', [(1, ''http://127.0.0.1:9700'')]), (''login'', [(1, ''http://127.0.0.1:8080'')])]"

definition fallbackURL :: "string \<Rightarrow> int \<Rightarrow> string" where
  "fallbackURL name zoneID =
     (case map_of gm_ports name of
        None \<Rightarrow> []
      | Some m \<Rightarrow> (case map_of m zoneID of Some u \<Rightarrow> u | None \<Rightarrow> (case map_of m 1 of Some u \<Rightarrow> u | None \<Rightarrow> [])))"

definition gm_resolve :: "lookup_env \<Rightarrow> string \<Rightarrow> int \<Rightarrow> gm_srv \<Rightarrow> service_instance option \<times> gm_srv" where
  "gm_resolve L name zoneID s =
     (let (x, d) = Resolve (luFaults L) (luShuffle L) (luProbe L) (luNow L) (luLater L) name zoneID (gmDisc s) in (x, s\<lparr>gmDisc := d\<rparr>))"

definition gm_resolveGlobal :: "lookup_env \<Rightarrow> string \<Rightarrow> gm_srv \<Rightarrow> service_instance option \<times> gm_srv" where
  "gm_resolveGlobal L name s =
     (let (x, d) = ResolveGlobal (luZones L) (luShuffle L) (luProbe L) (luNow L) (luLater L) name (gmDisc s) in (x, s\<lparr>gmDisc := d\<rparr>))"

definition serviceURL :: "lookup_env \<Rightarrow> lookup_env \<Rightarrow> string \<Rightarrow> int \<Rightarrow> gm_srv \<Rightarrow> string \<times> gm_srv" where
  "serviceURL L1 L2 name zoneID s =
     (if gmDisc s \<noteq> None \<and> dcEnabled (sDiscovery (gmCfg s)) then
        (case gm_resolve L1 name zoneID s of
           (Some inst, s) \<Rightarrow> (HTTPBase inst, s)
         | (None, s) \<Rightarrow>
             (case gm_resolveGlobal L2 name s of
                (Some inst, s) \<Rightarrow> (HTTPBase inst, s)
              | (None, s) \<Rightarrow> (if Production (gmCfg s) then [] else fallbackURL name zoneID, s)))
      else (fallbackURL name zoneID, s))"

definition role_shape :: "(string \<times> json) list" where
  "role_shape = [(''role_id'', JNum 64)]"

definition gameShardURL :: "lookup_env \<Rightarrow> body \<Rightarrow> int \<Rightarrow> gm_srv \<Rightarrow> string \<times> gm_srv" where
  "gameShardURL L p zoneID s =
     (let roleID = json_int64 ''role_id'' p in
      if \<not> json_valid role_shape p \<or> roleID = 0 then ([], s)
      else if gmDisc s = None then ([], s)
      else case gm_resolve L (ServiceName (ForRole roleID (scShardCount (sScale (gmCfg s))))) zoneID s of
        (Some inst, s) \<Rightarrow> (HTTPBase inst, s)
      | (None, s) \<Rightarrow> ([], s))"

section \<open>The proxy\<close>

record gm_env =
  gvLocal :: lookup_env
  gvGlobal :: lookup_env
  gvShard :: lookup_env
  gvCall :: outcome

text \<open>The base URL of a request.\<close>

definition gm_base :: "gm_env \<Rightarrow> string \<Rightarrow> int \<Rightarrow> body \<Rightarrow> gm_srv \<Rightarrow> string \<times> gm_srv" where
  "gm_base E service zoneID p s =
     (let (base, s) = serviceURL (gvLocal E) (gvGlobal E) service zoneID s in
      if service = ''game'' \<and> 0 < scShardCount (sScale (gmCfg s)) then
        (let (shardBase, s) = gameShardURL (gvShard E) p zoneID s in (if shardBase \<noteq> [] then shardBase else base, s))
      else (base, s))"

text \<open>\<open>post\<close> is the server at a URL: method, URL, authentication header and body. The reply is relayed with its status.\<close>

definition proxy :: "gm_env \<Rightarrow> (bool \<Rightarrow> string \<Rightarrow> string \<Rightarrow> body \<Rightarrow> 'w \<Rightarrow> 'r reply \<times> 'w) \<Rightarrow> bool \<Rightarrow> string \<Rightarrow> string \<Rightarrow> string \<Rightarrow> body \<Rightarrow> gm_srv \<times> 'w
    \<Rightarrow> 'r reply \<times> gm_srv \<times> 'w" where
  "proxy E post is_post service path query p st =
     (let (s, w) = st; (base, s) = gm_base E service (gm_zoneID query s) p s in
      if base = [] then (HttpError 502, s, w)
      else let (r, w') = post is_post (base @ path) (SetHTTP (sInternalSecret (gmCfg s))) p w in
        (case gvCall E of
           Failed \<Rightarrow> (HttpError 502, s, w)
         | Lost \<Rightarrow> (HttpError 502, s, w')
         | Done \<Rightarrow> (if r = Aborted then HttpError 502 else r, s, w')))"

definition gm_auth :: "string \<Rightarrow> (gm_srv \<times> 'w \<Rightarrow> 'r reply \<times> gm_srv \<times> 'w) \<Rightarrow> gm_srv \<times> 'w \<Rightarrow> 'r reply \<times> gm_srv \<times> 'w" where
  "gm_auth header h st = internal_HTTPMiddleware (sInternalSecret (gmCfg (fst st))) header h st"

definition grant_path :: string where "grant_path = ''/internal/player/grant''"

definition gm_handleDungeonPass where
  "gm_handleDungeonPass E post = proxy E post True ''game'' ''/internal/player/dungeon/pass''"

definition gm_handleMailSend where
  "gm_handleMailSend E post = proxy E post True ''mail'' ''/api/mail/send''"

definition gm_handleGrant where
  "gm_handleGrant E post = proxy E post True ''game'' grant_path"

definition gm_handlePayReconcile where
  "gm_handlePayReconcile E post = proxy E post False ''pay'' ''/api/pay/reconcile''"

definition gm_handleGuildWarReset where
  "gm_handleGuildWarReset E post = proxy E post True ''game'' ''/internal/guildwar/reset''"

definition gm_handleWorldBossReset where
  "gm_handleWorldBossReset E post = proxy E post True ''game'' ''/internal/worldboss/reset''"

text \<open>The routes that relay.\<close>

definition gm_Handler :: "gm_env \<Rightarrow> (bool \<Rightarrow> string \<Rightarrow> string \<Rightarrow> body \<Rightarrow> 'w \<Rightarrow> 'r reply \<times> 'w) \<Rightarrow> string \<Rightarrow> string \<Rightarrow> string \<Rightarrow> body \<Rightarrow> gm_srv \<times> 'w \<Rightarrow> 'r reply \<times> gm_srv \<times> 'w" where
  "gm_Handler E post path header query p st =
     (if path = ''/api/gm/dungeon/pass'' then gm_auth header (gm_handleDungeonPass E post query p) st
      else if path = ''/api/gm/mail/send'' then gm_auth header (gm_handleMailSend E post query p) st
      else if path = ''/api/gm/grant'' then gm_auth header (gm_handleGrant E post query p) st
      else if path = ''/api/gm/pay/reconcile'' then gm_auth header (gm_handlePayReconcile E post query p) st
      else if path = ''/api/gm/season/guildwar/reset'' then gm_auth header (gm_handleGuildWarReset E post query p) st
      else if path = ''/api/gm/season/worldboss/reset'' then gm_auth header (gm_handleWorldBossReset E post query p) st
      else (HttpError 404, st))"

definition service_names :: "string list" where
  "service_names = [''login'', ''gate'', ''game'', ''match'', ''battle'', ''social'', ''mail'', ''rank'', ''activity'', ''pay'', ''gm'']"

fun list_services :: "(string \<Rightarrow> lookup_env) \<Rightarrow> string list \<Rightarrow> registry \<Rightarrow> service_instance list \<times> registry" where
  "list_services L [] r = ([], r)"
| "list_services L (name # names) r =
     (case DiscoverAll (luZones (L name)) (luNow (L name)) name r of
        (Inl _, r) \<Rightarrow> list_services L names r
      | (Inr insts, r) \<Rightarrow> (let (out, r) = list_services L names r in (insts @ out, r)))"

definition handleServices :: "(string \<Rightarrow> lookup_env) \<Rightarrow> gm_srv \<Rightarrow> (service_instance list \<times> (int \<times> string) list) reply \<times> gm_srv" where
  "handleServices L s =
     (case gmDisc s of
        None \<Rightarrow> (ReplyOK ([], Catalog), s)
      | Some (rv, r) \<Rightarrow> (let (out, r) = list_services L service_names r in (ReplyOK (out, Catalog), s\<lparr>gmDisc := Some (rv, r)\<rparr>)))"

section \<open>Grants of an operator\<close>

text \<open>
  The game processes by their base URL. They share the databases, but each works on its own roles only, so
  a process is modelled with the tables it sees.
\<close>

type_synonym games = "string \<Rightarrow> manager option"

definition games_post :: "string \<Rightarrow> call_env \<Rightarrow> bool \<Rightarrow> string \<Rightarrow> string \<Rightarrow> body \<Rightarrow> games \<Rightarrow> grant_result reply \<times> games" where
  "games_post secret G is_post url header p gs =
     (let base = take (length url - length grant_path) url in
      case gs base of
        None \<Rightarrow> (Aborted, gs)
      | Some m \<Rightarrow> (let (r, m') = game_serve secret G base header p m in (r, gs(base \<mapsto> m'))))"

text \<open>The bundle that a body denotes, or the reply that refuses it.\<close>

definition request_bundle :: "body \<Rightarrow> grant_result reply + grant_bundle" where
  "request_bundle p =
     (if \<not> json_valid grant_shape p \<or> json_int64 ''role_id'' p = 0 then Inl (HttpError 400)
      else case (if json_string ''items_raw'' p \<noteq> [] then Parse (json_string ''items_raw'' p) else Inr empty_bundle) of
        Inl _ \<Rightarrow> Inl (HttpError 400)
      | Inr parsed \<Rightarrow>
          (case merge_items (json_items ''items'' p) (bItems parsed) of
             None \<Rightarrow> Inl Aborted
           | Some items \<Rightarrow>
               if json_string ''source'' p = [] then Inl (HttpError 400)
               else Inr \<lparr>bGold = i64 (json_int64 ''gold'' p + bGold parsed), bItems = (case items of None \<Rightarrow> [] | Some its \<Rightarrow> its)\<rparr>))"

lemma handleGrant_refused: "request_bundle p = Inl r \<Longrightarrow> handleGrant G p m = (r, m) \<and> (\<forall>y. r \<noteq> ReplyOK y)"
  by (auto simp: request_bundle_def handleGrant_def Let_def split: if_splits sum.splits option.splits)

lemma handleGrant_bundle:
  assumes "request_bundle p = Inr b"
  shows "json_string ''source'' p \<noteq> []" and "snd (handleGrant G p m) = snd (local_grant G (json_int64 ''role_id'' p) b (json_string ''source'' p) m)"
    and "(\<exists>y. fst (handleGrant G p m) = ReplyOK y) \<longleftrightarrow> fst (local_grant G (json_int64 ''role_id'' p) b (json_string ''source'' p) m) = None"
proof -
  obtain parsed items where q: "json_valid grant_shape p" "json_int64 ''role_id'' p \<noteq> 0" "json_string ''source'' p \<noteq> []"
      "(if json_string ''items_raw'' p \<noteq> [] then Parse (json_string ''items_raw'' p) else Inr empty_bundle) = Inr parsed"
      "merge_items (json_items ''items'' p) (bItems parsed) = Some items"
      "b = \<lparr>bGold = i64 (json_int64 ''gold'' p + bGold parsed), bItems = (case items of None \<Rightarrow> [] | Some its \<Rightarrow> its)\<rparr>"
    using assms by (auto simp: request_bundle_def split: if_splits sum.splits option.splits)
  show "json_string ''source'' p \<noteq> []" by (rule q(3))
  show "snd (handleGrant G p m) = snd (local_grant G (json_int64 ''role_id'' p) b (json_string ''source'' p) m)"
    and "(\<exists>y. fst (handleGrant G p m) = ReplyOK y) \<longleftrightarrow> fst (local_grant G (json_int64 ''role_id'' p) b (json_string ''source'' p) m) = None"
    using q by (simp_all add: handleGrant_def local_grant_def Let_def split: prod.splits sum.splits)
qed

text \<open>A process that does not own the role refuses and changes nothing.\<close>

lemma handleGrant_any:
  assumes "handleGrant G p m = (x, m')"
  shows "(m' = m \<and> (\<forall>y. x \<noteq> ReplyOK y)) \<or>
    (\<exists>b e. json_string ''source'' p \<noteq> [] \<and> manager_Owns m (json_int64 ''role_id'' p) \<and> local_grant G (json_int64 ''role_id'' p) b (json_string ''source'' p) m = (e, m')
       \<and> ((\<exists>y. x = ReplyOK y) \<longleftrightarrow> e = None))"
proof -
  let ?r = "json_int64 ''role_id'' p" and ?src = "json_string ''source'' p"
  have out: "(m' = m \<and> (\<forall>y. x \<noteq> ReplyOK y)) \<or> (\<exists>b e. ?src \<noteq> [] \<and> local_grant G ?r b ?src m = (e, m') \<and> ((\<exists>y. x = ReplyOK y) \<longleftrightarrow> e = None))"
  proof (cases "request_bundle p")
    case (Inl r)
    then show ?thesis using handleGrant_refused [OF Inl, of G m] assms by simp
  next
    case (Inr b)
    have "local_grant G ?r b ?src m = (fst (local_grant G ?r b ?src m), m')" using handleGrant_bundle(2) [OF Inr, of G m] assms by (simp add: prod_eq_iff)
    then show ?thesis using handleGrant_bundle(1,3) [OF Inr] assms by (metis fst_conv)
  qed
  show ?thesis
  proof (cases "manager_Owns m ?r")
    case True
    then show ?thesis using out by blast
  next
    case False
    then have "local_grant G ?r b ?src m = (e, m') \<Longrightarrow> m' = m \<and> e \<noteq> None" for b e
      by (auto simp: local_grant_def manager_ApplyGrant_def manager_Get_def split: if_splits prod.splits sum.splits)
    then show ?thesis using out by blast
  qed
qed

definition granted_at :: "int \<times> string \<Rightarrow> manager \<Rightarrow> manager \<Rightarrow> bool" where
  "granted_at k m m' \<longleftrightarrow> manager_live m' \<and> (\<forall>k' c. manager_credited m k' = Some c \<longrightarrow> manager_credited m' k' = Some c) \<and>
     (\<forall>k' c. manager_credited m k' = None \<and> manager_credited m' k' = Some c \<longrightarrow> k' = k)"

lemma games_post_grant:
  assumes "games_post secret G True (base @ grant_path) header p gs = (x, gs')" and "\<forall>m. gs base = Some m \<longrightarrow> manager_live m" and "benign (eBetween G)"
  shows "(gs' = gs \<and> (\<forall>y. x \<noteq> ReplyOK y)) \<or>
    (\<exists>m m'. gs base = Some m \<and> gs' = gs(base \<mapsto> m') \<and> manager_Owns m (json_int64 ''role_id'' p) \<and>
       granted_at (json_int64 ''role_id'' p, json_string ''source'' p) m m' \<and>
       ((\<exists>y. x = ReplyOK y) \<longrightarrow> manager_credited m' (json_int64 ''role_id'' p, json_string ''source'' p) \<noteq> None))"
proof (cases "gs base")
  case None
  then show ?thesis using assms(1) by (auto simp: games_post_def Let_def)
next
  case (Some m)
  obtain y m1 where h: "handleGrant G p m = (y, m1)" by fastforce
  have split: "(gs' = gs \<and> (\<forall>y. x \<noteq> ReplyOK y)) \<or> (x = request_boundary y \<and> gs' = gs(base \<mapsto> m1))"
    using assms(1) Some h by (auto simp: games_post_def game_serve_def withRequestBoundary_def internal_HTTPMiddleware_def Let_def split: if_splits prod.splits)
  have live: "manager_live m" using assms(2) Some by blast
  from handleGrant_any [OF h] show ?thesis
  proof
    assume "m1 = m \<and> (\<forall>z. y \<noteq> ReplyOK z)"
    then show ?thesis using split Some by auto
  next
    assume "\<exists>b e. json_string ''source'' p \<noteq> [] \<and> manager_Owns m (json_int64 ''role_id'' p) \<and>
      local_grant G (json_int64 ''role_id'' p) b (json_string ''source'' p) m = (e, m1) \<and> ((\<exists>z. y = ReplyOK z) \<longleftrightarrow> e = None)"
    then obtain b e where b: "json_string ''source'' p \<noteq> []" "manager_Owns m (json_int64 ''role_id'' p)"
      "local_grant G (json_int64 ''role_id'' p) b (json_string ''source'' p) m = (e, m1)" "(\<exists>z. y = ReplyOK z) \<longleftrightarrow> e = None" by blast
    note L = local_grant_ledger [OF b(3) live assms(3)]
    have g: "granted_at (json_int64 ''role_id'' p, json_string ''source'' p) m m1" using L unfolding granted_at_def by blast
    have c: "(\<exists>z. y = ReplyOK z) \<longrightarrow> manager_credited m1 (json_int64 ''role_id'' p, json_string ''source'' p) \<noteq> None" using L b(1,4) by blast
    show ?thesis
    proof (cases "gs' = gs \<and> (\<forall>y. x \<noteq> ReplyOK y)")
      case False
      then have "x = request_boundary y" "gs' = gs(base \<mapsto> m1)" using split by blast+
      then show ?thesis using Some b(2) g c by auto
    qed simp
  qed
qed

lemma proxy_cases:
  assumes "proxy E post is_post service path query p (s, w) = (x, s', w')" and "gm_base E service (gm_zoneID query s) p s = (base, s1)"
  shows "(w' = w \<and> (\<forall>y. x \<noteq> ReplyOK y)) \<or>
    (base \<noteq> [] \<and> (\<exists>r. post is_post (base @ path) (SetHTTP (sInternalSecret (gmCfg s1))) p w = (r, w') \<and> (\<forall>y. x = ReplyOK y \<longrightarrow> r = ReplyOK y)))"
  using assms by (cases "gvCall E") (auto simp: proxy_def Let_def split: if_splits prod.splits)

text \<open>With sharding and an instance of the role's shard, the request goes to that instance.\<close>

lemma gm_base_shard:
  assumes "serviceURL (gvLocal E) (gvGlobal E) ''game'' z s = (b0, s1)" and "0 < scShardCount (sScale (gmCfg s1))" and "json_valid role_shape p" and "json_int64 ''role_id'' p \<noteq> 0"
    and "gmDisc s1 \<noteq> None" and "gm_resolve (gvShard E) (ServiceName (ForRole (json_int64 ''role_id'' p) (scShardCount (sScale (gmCfg s1))))) z s1 = (Some inst, s2)" and "inHTTPAddr inst \<noteq> []"
  shows "gm_base E ''game'' z p s = (HTTPBase inst, s2)"
  using assms by (auto simp: gm_base_def gameShardURL_def Let_def HTTPBase_def)


definition demo_lookup :: lookup_env where
  "demo_lookup = \<lparr>luNow = 0, luLater = 0, luFaults = (Done, \<lambda>_. Done, Done), luZones = (\<lambda>_. (Done, \<lambda>_. Done, Done)), luShuffle = id, luProbe = (\<lambda>_. True)\<rparr>"

definition demo_gm_env :: gm_env where
  "demo_gm_env = \<lparr>gvLocal = demo_lookup, gvGlobal = demo_lookup, gvShard = demo_lookup, gvCall = Done\<rparr>"

definition demo_console :: gm_srv where
  "demo_console = \<lparr>gmCfg = zero_config, gmDisc = None\<rparr>"

definition demo_gift :: body where
  "demo_gift = grant_body 7 \<lparr>bGold = 0, bItems = [(''potion'', 1)]\<rparr> ''gm:1''"

lemma demo_console_base: "gm_base demo_gm_env ''game'' z demo_gift demo_console = (''http://127.0.0.1:9100'', demo_console)" if "z \<noteq> 2"
  using that by (simp add: gm_base_def serviceURL_def demo_console_def zero_config_def fallbackURL_def gm_ports_def)

lemma demo_gift_reads: "json_int64 ''role_id'' demo_gift = 7" "json_string ''source'' demo_gift = ''gm:1''"
  by (simp_all add: demo_gift_def grant_body_reads wire_ok_def bundle_wf_def in_i64_def in_i32_def)

lemma demo_gift_accepted: "\<exists>y. fst (handleGrant demo_env demo_gift market) = ReplyOK y"
proof -
  let ?b = "\<lparr>bGold = 0, bItems = [(''potion'', 1)]\<rparr>"
  have "wire_ok 7 ?b" "bundle_wf ?b" by (simp_all add: wire_ok_def bundle_wf_def in_i64_def in_i32_def)
  then show ?thesis
    by (simp add: demo_gift_def handleGrant_def grant_body_valid grant_body_reads merge_items_def empty_bundle_def Let_def market_simps i64_def i32_def)
qed


section \<open>Where the console falls short\<close>

text \<open>
  A sharded game process registers under the name of its shard, so that nobody answers to \<^verbatim>\<open>game\<close>; a reset of
  a season names no role and is looked up under that name. In production it always ends with status 502.
\<close>

lemma shard_not_game: "0 < scShardCount (sScale cfg) \<Longrightarrow> sType cfg = ''game'' \<Longrightarrow> inName (InstanceFromConfig pid cfg) \<noteq> ''game''"
  by (simp add: InstanceFromConfig_def ServiceName_def)

lemma season_reset_unreachable:
  assumes "gmDisc s \<noteq> None" and "dcEnabled (sDiscovery (gmCfg s))" and "Production (gmCfg s)" and "gm_resolve (gvLocal E) ''game'' (gm_zoneID query s) s = (None, s1)"
    and "gm_resolveGlobal (gvGlobal E) ''game'' s1 = (None, s2)" and "json_int64 ''role_id'' p = 0"
  shows "fst (gm_handleWorldBossReset E post query p (s, w)) = HttpError 502" and "fst (gm_handleGuildWarReset E post query p (s, w)) = HttpError 502"
proof -
  have "gmCfg s2 = gmCfg s" using assms(4,5) by (auto simp: gm_resolve_def gm_resolveGlobal_def split: prod.splits)
  then have "gm_base E ''game'' (gm_zoneID query s) p s = ([], s2)"
    using assms by (simp add: gm_base_def serviceURL_def gameShardURL_def)
  then show "fst (gm_handleWorldBossReset E post query p (s, w)) = HttpError 502" and "fst (gm_handleGuildWarReset E post query p (s, w)) = HttpError 502"
    by (simp_all add: gm_handleWorldBossReset_def gm_handleGuildWarReset_def proxy_def)
qed

text \<open>When the shard of the role is not found, the request goes to whatever answers to \<^verbatim>\<open>game\<close>, or to a local port.\<close>

lemma unknown_shard_falls_back:
  assumes "gmDisc s \<noteq> None" and "\<not> dcEnabled (sDiscovery (gmCfg s))" and "gm_resolve (gvShard E) (ServiceName (ForRole (json_int64 ''role_id'' p) (scShardCount (sScale (gmCfg s))))) 1 s = (None, s1)"
  shows "fst (gm_base E ''game'' 1 p s) = ''http://127.0.0.1:9100''"
  using assms by (simp add: gm_base_def serviceURL_def gameShardURL_def fallbackURL_def gm_ports_def Let_def)

end
