(* ===== verification/Player_Types.thy ===== *)
theory Player_Types
  imports Game_Server
begin

text \<open>
  The widths of a player's state. Go's \<^verbatim>\<open>int32\<close> and \<^verbatim>\<open>int64\<close> fields are integers of the model, with the wrap-around
  written out where the code computes. This theory shows that the model never leaves the widths: over every
  operation of a game process on its players, every field of every actor and of every stored snapshot is a
  value of its Go type. A number of a stored document that does not fit is an error of the decoder.
\<close>

section \<open>Typed states\<close>

definition map32 :: "string gomap \<Rightarrow> bool" where
  "map32 m \<longleftrightarrow> (\<forall>k v. m k = Some v \<longrightarrow> in_i32 v)"

definition maybe32 :: "string gomap option \<Rightarrow> bool" where
  "maybe32 x \<longleftrightarrow> (\<forall>m. x = Some m \<longrightarrow> map32 m)"

definition snap_typed :: "role_snapshot \<Rightarrow> bool" where
  "snap_typed s \<longleftrightarrow> in_i32 (snLevel s) \<and> in_i64 (snGold s) \<and> in_i64 (snGuildID s) \<and>
     maybe32 (snBag s) \<and> maybe32 (snSkills s) \<and> maybe32 (snQuests s) \<and> maybe32 (snQuestProg s)"

definition actor_typed :: "actor \<Rightarrow> bool" where
  "actor_typed p \<longleftrightarrow> in_i32 (pLevel p) \<and> in_i64 (pGold p) \<and> in_i64 (pGuildID p) \<and>
     map32 (pInv p) \<and> map32 (pSkills p) \<and> map32 (Status (pQuests p)) \<and> map32 (Prog (pQuests p))"

definition doc_typed :: "role_doc \<Rightarrow> bool" where
  "doc_typed d \<longleftrightarrow> (\<forall>n. docLevel d = Some n \<longrightarrow> in_i32 n) \<and> (\<forall>n. docGold d = Some n \<longrightarrow> in_i64 n) \<and> (\<forall>n. docGuildID d = Some n \<longrightarrow> in_i64 n) \<and>
     maybe32 (docBag d) \<and> maybe32 (docSkills d) \<and> maybe32 (docQuests d) \<and> maybe32 (docQuestProg d)"

definition row_typed :: "role_row \<Rightarrow> bool" where
  "row_typed row \<longleftrightarrow> in_i32 (rLevel row) \<and> (\<forall>d. rSnapshot row = RawDoc d \<longrightarrow> doc_typed d)"

definition db_typed :: "pgdb \<Rightarrow> bool" where
  "db_typed db \<longleftrightarrow> (\<forall>r row. roles db r = Some row \<longrightarrow> row_typed row)"

definition repo_typed :: "role_repo \<Rightarrow> bool" where
  "repo_typed rp \<longleftrightarrow> (\<forall>i. db_typed (pools rp i))"

definition store_typed :: "store \<Rightarrow> bool" where
  "store_typed st \<longleftrightarrow> (\<forall>rp. st = Some rp \<longrightarrow> repo_typed rp)"

definition manager_typed :: "manager \<Rightarrow> bool" where
  "manager_typed m \<longleftrightarrow> (\<forall>q. actor_typed (gHeap m q)) \<and> store_typed (gRoles m)"

named_theorems typed \<open>operations that keep the widths\<close>

lemma map32_empty [simp]: "map32 Map.empty" "maybe32 None" "maybe32 (Some m) = map32 m"
  by (simp_all add: map32_def maybe32_def)

lemma map32_upd [simp]: "map32 m \<Longrightarrow> in_i32 v \<Longrightarrow> map32 (m(k \<mapsto> v))" "map32 m \<Longrightarrow> map32 (m(k := None))"
  by (auto simp: map32_def)

lemma in_small [simp]: "in_i32 0" "in_i32 1" "in_i32 2" "in_i64 0"
  by (simp_all add: in_i32_def in_i64_def)

lemma map32_upd_None: "map32 m \<Longrightarrow> in_i32 v \<Longrightarrow> map32 (m(k := None, l \<mapsto> v))"
  by simp

section \<open>Snapshots, documents and rows\<close>

lemma snapshot_typed [typed]: "actor_typed p \<Longrightarrow> snap_typed (snapshotUnsafe p)"
  by (simp add: actor_typed_def snap_typed_def)

lemma restore_typed [typed]: "snap_typed s \<Longrightarrow> actor_typed (restoreUnsafe s p)"
  by (auto simp: actor_typed_def snap_typed_def restoreUnsafe_def skill_FromSnapshot_def quest_FromSnapshot_def maybe32_def split: option.splits)

lemma New_typed [typed]: "snap_typed s \<Longrightarrow> actor_typed (New now i s)"
  by (auto simp: actor_typed_def snap_typed_def New_def skill_FromSnapshot_def quest_FromSnapshot_def maybe32_def bag_New_def split: option.splits)

lemma nonnil_typed: "maybe32 x \<Longrightarrow> maybe32 (nonnil x)"
  by (auto simp: nonnil_def split: option.splits)

lemma decode_typed:
  assumes "row_typed row" and "decodeRoleSnapshot (row_columns row) (rSnapshot row) = Inr s"
  shows "snap_typed s"
  using assms by (cases "rSnapshot row")
    (auto simp: decodeRoleSnapshot_def row_typed_def doc_typed_def snap_typed_def row_columns_def zero_snapshot_def json_Unmarshal_def or_keep_def Let_def
      intro!: nonnil_typed split: option.splits)

lemma update_role_typed:
  assumes "update_role r s db = Some (v, db')" and "db_typed db" and "snap_typed s"
  shows "db_typed db'"
  using assms by (auto simp: update_role_def db_typed_def row_typed_def snap_typed_def doc_typed_def json_Marshal_def split: option.splits if_splits)

lemma Repo_Load_typed: "db_typed db \<Longrightarrow> Repo_Load oc r db = (x, db') \<Longrightarrow> db_typed db' \<and> (\<forall>s. x = Inr s \<longrightarrow> snap_typed s)"
  by (cases oc) (auto simp: Repo_Load_def db_typed_def split: option.splits dest: decode_typed)

lemma Repo_Acquire_typed:
  assumes "db_typed db" and "Repo_Acquire oc r db = (x, db')"
  shows "db_typed db' \<and> (\<forall>s. x = Inr s \<longrightarrow> snap_typed s)"
proof (cases "roles db r")
  case None
  then show ?thesis using assms by (cases oc) (auto simp: Repo_Acquire_def)
next
  case (Some row)
  define row' where "row' = row\<lparr>rOwnerEpoch := rOwnerEpoch row + 1\<rparr>"
  have t: "row_typed row'" using assms(1) Some by (auto simp: row'_def db_typed_def row_typed_def)
  have d: "db_typed (db\<lparr>roles := (roles db)(r \<mapsto> row')\<rparr>)" using assms(1) t by (simp add: db_typed_def)
  have "Repo_Acquire oc r db = store_call oc db (decodeRoleSnapshot (row_columns row') (rSnapshot row'), db\<lparr>roles := (roles db)(r \<mapsto> row')\<rparr>)"
    by (simp add: Repo_Acquire_def Some row'_def Let_def)
  then show ?thesis using assms d decode_typed [OF t] by (cases oc) auto
qed

lemma Repo_Save_typed: "db_typed db \<Longrightarrow> snap_typed s \<Longrightarrow> db_typed (snd (Repo_Save oc r s db))"
  by (cases oc) (auto simp: Repo_Save_def split: option.splits dest: update_role_typed)

lemma Repo_SaveIdempotent_typed: "db_typed db \<Longrightarrow> snap_typed s \<Longrightarrow> db_typed (snd (Repo_SaveIdempotent oc r src k s b db))"
proof -
  assume db: "db_typed db" and s: "snap_typed s"
  then have "db_typed (db\<lparr>ledger := l\<rparr>)" for l by (simp add: db_typed_def)
  then show ?thesis using db s Repo_Save_typed [OF db s, of oc r]
    by (cases oc) (auto simp: Repo_SaveIdempotent_def Let_def split: option.splits prod.splits sum.splits dest: update_role_typed)
qed

lemma Repo_SaveWithOutbox_typed: "db_typed db \<Longrightarrow> snap_typed s \<Longrightarrow> db_typed (snd (Repo_SaveWithOutbox oc now r s ev db))"
proof -
  assume db: "db_typed db" and s: "snap_typed s"
  have "db_typed d \<Longrightarrow> db_typed (insert_outbox t e d)" for d t e by (simp add: insert_outbox_def db_typed_def)
  then show ?thesis using db s
    by (cases oc) (auto simp: Repo_SaveWithOutbox_def split: option.splits prod.splits dest: update_role_typed)
qed

lemma on_pool_typed:
  "repo_typed rp \<Longrightarrow> (\<And>db. db_typed db \<Longrightarrow> db_typed (snd (f db))) \<Longrightarrow> repo_typed (snd (on_pool r f rp))"
  by (auto simp: on_pool_eq repo_typed_def role_db_def)

lemma RoleRepo_typed:
  "RoleRepo_Save oc r s rp = (x, rp') \<Longrightarrow> repo_typed rp \<Longrightarrow> snap_typed s \<Longrightarrow> repo_typed rp'"
  "RoleRepo_SaveIdempotent oc r src k s b rp = (y, rp') \<Longrightarrow> repo_typed rp \<Longrightarrow> snap_typed s \<Longrightarrow> repo_typed rp'"
  "RoleRepo_SaveWithOutbox oc now r s ev rp = (x, rp') \<Longrightarrow> repo_typed rp \<Longrightarrow> snap_typed s \<Longrightarrow> repo_typed rp'"
  unfolding RoleRepo_Save_def RoleRepo_SaveIdempotent_def RoleRepo_SaveWithOutbox_def
  by (metis on_pool_typed Repo_Save_typed Repo_SaveIdempotent_typed Repo_SaveWithOutbox_typed snd_conv)+

lemma RoleRepo_reads_typed:
  assumes "repo_typed rp"
  shows "RoleRepo_Load oc r rp = (x, rp') \<Longrightarrow> repo_typed rp' \<and> (\<forall>s. x = Inr s \<longrightarrow> snap_typed s)"
    and "RoleRepo_Acquire oc r rp = (x, rp') \<Longrightarrow> repo_typed rp' \<and> (\<forall>s. x = Inr s \<longrightarrow> snap_typed s)"
proof -
  have t: "db_typed (role_db rp r)" using assms by (simp add: repo_typed_def role_db_def)
  have put: "repo_typed (rp\<lparr>pools := (pools rp)(i := db)\<rparr>)" if "db_typed db" for i db using assms that by (simp add: repo_typed_def)
  show "RoleRepo_Load oc r rp = (x, rp') \<Longrightarrow> repo_typed rp' \<and> (\<forall>s. x = Inr s \<longrightarrow> snap_typed s)"
    using Repo_Load_typed [OF t] put by (auto simp: RoleRepo_Load_def on_pool_def split: prod.splits)
  show "RoleRepo_Acquire oc r rp = (x, rp') \<Longrightarrow> repo_typed rp' \<and> (\<forall>s. x = Inr s \<longrightarrow> snap_typed s)"
    using Repo_Acquire_typed [OF t] put by (auto simp: RoleRepo_Acquire_def on_pool_def split: prod.splits)
qed

section \<open>Tasks\<close>

definition typed_fn :: "(actor \<Rightarrow> 'r res \<times> actor) \<Rightarrow> bool" where
  "typed_fn fn \<longleftrightarrow> (\<forall>a. actor_typed a \<longrightarrow> actor_typed (snd (fn a)))"

definition typed_task :: "(actor \<times> store \<Rightarrow> 'r \<times> actor \<times> store) \<Rightarrow> bool" where
  "typed_task f \<longleftrightarrow> (\<forall>a st. actor_typed a \<and> store_typed st \<longrightarrow> actor_typed (fst (snd (f (a, st)))) \<and> store_typed (snd (snd (f (a, st)))))"

lemma typed_taskI: "(\<And>a st r a' st'. actor_typed a \<Longrightarrow> store_typed st \<Longrightarrow> f (a, st) = (r, a', st') \<Longrightarrow> actor_typed a' \<and> store_typed st') \<Longrightarrow> typed_task f"
  unfolding typed_task_def by (metis prod.collapse)

lemma typed_taskD: "typed_task f \<Longrightarrow> f (a, st) = (r, a', st') \<Longrightarrow> actor_typed a \<Longrightarrow> store_typed st \<Longrightarrow> actor_typed a' \<and> store_typed st'"
  unfolding typed_task_def by (metis fst_conv snd_conv)

lemma store_typed_simps [simp]: "store_typed None" "store_typed (Some rp) = repo_typed rp"
  by (simp_all add: store_typed_def)

lemma actor_typed_shell [simp]:
  "actor_typed (a\<lparr>pVersion := v\<rparr>) = actor_typed a" "actor_typed (touch now a) = actor_typed a" "actor_typed (Close a) = actor_typed a"
  "actor_typed (a\<lparr>pApplied := x\<rparr>) = actor_typed a"
  by (simp_all add: actor_typed_def touch_def Close_def)

lemma saveUnsafe_typed: "typed_task (saveUnsafe oc)"
proof (rule typed_taskI)
  fix a st r a' st'
  assume "actor_typed a" "store_typed st" "saveUnsafe oc (a, st) = (r, a', st')"
  then show "actor_typed a' \<and> store_typed st'"
    by (auto simp: saveUnsafe_def snapshot_typed dest!: RoleRepo_typed(1) split: option.splits prod.splits sum.splits)
qed

lemma saveWithOutboxUnsafe_typed: "typed_task (saveWithOutboxUnsafe oc now ev)"
proof (rule typed_taskI)
  fix a st r a' st'
  assume "actor_typed a" "store_typed st" "saveWithOutboxUnsafe oc now ev (a, st) = (r, a', st')"
  then show "actor_typed a' \<and> store_typed st'"
    by (auto simp: saveWithOutboxUnsafe_def snapshot_typed dest!: RoleRepo_typed(3) split: option.splits prod.splits sum.splits)
qed

lemma mailbox_Call_typed: "typed_task f \<Longrightarrow> typed_task (mailbox_Call adm f)"
  by (auto simp: typed_task_def mailbox_Call_def split: admission.splits)

lemma Invoke_typed: "typed_task f \<Longrightarrow> typed_task (Invoke adm now f)"
  by (auto simp: typed_task_def Invoke_def mailbox_Call_def split: admission.splits)

lemma as_res_typed: "typed_task f \<Longrightarrow> typed_task (\<lambda>s. as_res (f s))"
  by (simp add: typed_task_def as_res_def)

lemma Save_typed [typed]: "typed_task (Save adm oc)"
  using mailbox_Call_typed [OF as_res_typed [OF saveUnsafe_typed]] unfolding typed_task_def Save_def by (auto split: option.splits)

lemma SaveWithOutbox_typed [typed]: "typed_task (SaveWithOutbox adm oc now ev)"
  using mailbox_Call_typed [OF as_res_typed [OF saveWithOutboxUnsafe_typed]] unfolding typed_task_def SaveWithOutbox_def by (auto split: option.splits)

lemma plain_task_typed: "typed_fn fn \<Longrightarrow> typed_task (\<lambda>(a, st). let (r, a) = fn a in (r, a, st))"
  by (auto simp: typed_task_def typed_fn_def Let_def split: prod.splits)

lemma saved_task_typed:
  assumes "typed_fn fn"
  shows "typed_task (saved_task (saveUnsafe oc) fn)"
proof (rule typed_taskI)
  fix a st r a' st'
  assume a: "actor_typed a" "store_typed st" and run: "saved_task (saveUnsafe oc) fn (a, st) = (r, a', st')"
  obtain x b where b: "fn a = (x, b)" by fastforce
  have "actor_typed b" using assms a(1) b unfolding typed_fn_def by (metis snd_conv)
  then show "actor_typed a' \<and> store_typed st'" using run b a restore_typed [OF snapshot_typed [OF a(1)]]
    by (auto simp: saved_task_def Let_def dest!: typed_taskD [OF saveUnsafe_typed] split: sum.splits prod.splits option.splits)
qed

lemma outbox_task_typed:
  assumes "typed_fn fn"
  shows "typed_task (outbox_task oc now fn)"
proof (rule typed_taskI)
  fix a st r a' st'
  assume a: "actor_typed a" "store_typed st" and run: "outbox_task oc now fn (a, st) = (r, a', st')"
  obtain x b where b: "fn a = (x, b)" by fastforce
  have "actor_typed b" using assms a(1) b unfolding typed_fn_def by (metis snd_conv)
  then show "actor_typed a' \<and> store_typed st'" using run b a restore_typed [OF snapshot_typed [OF a(1)]]
    by (auto simp: outbox_task_def Let_def dest!: typed_taskD [OF saveWithOutboxUnsafe_typed] split: sum.splits prod.splits option.splits)
qed

section \<open>The operations on an actor\<close>

lemma bag_typed: "map32 bg \<Longrightarrow> map32 (bag_Add bg k n)" "map32 bg \<Longrightarrow> map32 (snd (bag_Remove bg k n))"
  by (auto simp: bag_Add_def bag_Remove_def Let_def)

lemma bag_Remove_typed: "bag_Remove bg k n = (x, bg') \<Longrightarrow> map32 bg \<Longrightarrow> map32 bg'"
  using bag_typed(2) [of bg k n] by simp

lemma apply_items_typed: "map32 bg \<Longrightarrow> map32 (apply_items bg its)"
proof (induction its arbitrary: bg)
  case (Cons kn its)
  then show ?case using bag_typed by (cases kn) (simp add: apply_items_Cons apply_item_def)
qed simp

lemma applyBundle_typed: "actor_typed p \<Longrightarrow> applyBundleUnsafe o1 o2 b p = (x, p') \<Longrightarrow> actor_typed p'"
  by (auto simp: applyBundleUnsafe_def actor_typed_def apply_items_typed split: if_splits option.splits)

lemma quest_typed:
  "quest_Accept s q = (x, s') \<Longrightarrow> map32 (Status s) \<and> map32 (Prog s) \<Longrightarrow> map32 (Status s') \<and> map32 (Prog s')"
  "quest_AddProgress s q d = (y, s') \<Longrightarrow> map32 (Status s) \<and> map32 (Prog s) \<Longrightarrow> map32 (Status s') \<and> map32 (Prog s')"
  by (auto simp: quest_Accept_def quest_AddProgress_def quest_status_defs Let_def split: if_splits)

lemma Handle_typed: "typed_fn (Handle cmd act payload)"
  unfolding typed_fn_def
proof (intro allI impI)
  fix a assume "actor_typed a"
  then show "actor_typed (snd (Handle cmd act payload a))"
    by (auto simp: Handle_def skill_Upgrade_def actor_typed_def Let_def dest!: quest_typed(1) split: prod.splits option.splits)
qed

lemma mutations_typed:
  "typed_fn (pass_fn z r)" "in_i64 g \<Longrightarrow> typed_fn (\<lambda>pl. (Inr () :: unit res, SetGuild g pl))" "typed_fn (\<lambda>pl. (Inr () :: unit res, AddGold n pl))"
  "typed_fn (remove_items i n)" "typed_fn (spend_and_take l)"
proof -
  have "map32 (Status s) \<and> map32 (Prog s) \<Longrightarrow> map32 (Status (snd (quest_AddProgress s q d))) \<and> map32 (Prog (snd (quest_AddProgress s q d)))" for s q d
    using quest_typed(2) by (metis prod.collapse)
  then show "typed_fn (pass_fn z r)" using bag_typed
    by (simp add: typed_fn_def pass_fn_def dungeon_Pass_def LevelUp_def AddGold_def actor_typed_def Let_def)
  show "in_i64 g \<Longrightarrow> typed_fn (\<lambda>pl. (Inr () :: unit res, SetGuild g pl))" "typed_fn (\<lambda>pl. (Inr () :: unit res, AddGold n pl))"
    by (simp_all add: typed_fn_def SetGuild_def AddGold_def actor_typed_def)
  show "typed_fn (remove_items i n)" by (auto simp: typed_fn_def remove_items_def actor_typed_def dest: bag_Remove_typed split: prod.splits bool.splits)
  show "typed_fn (spend_and_take l)" by (simp add: typed_fn_def spend_and_take_def SpendGold_def actor_typed_def bag_typed split: prod.splits bool.splits)
qed

lemma handle_task_typed: "typed_task (handle_task oc cmd act payload)"
proof (rule typed_taskI)
  fix a st r a' st'
  assume a: "actor_typed a" "store_typed st" and run: "handle_task oc cmd act payload (a, st) = (r, a', st')"
  obtain x b where b: "Handle cmd act payload a = (x, b)" by fastforce
  have "actor_typed b" using Handle_typed a(1) b unfolding typed_fn_def by (metis snd_conv)
  then show "actor_typed a' \<and> store_typed st'" using run b a restore_typed [OF snapshot_typed [OF a(1)]]
    by (auto simp: handle_task_def Let_def dest!: typed_taskD [OF saveUnsafe_typed] split: sum.splits prod.splits option.splits if_splits)
qed

definition typed_between :: "(role_repo \<Rightarrow> role_repo) \<Rightarrow> bool" where
  "typed_between bt \<longleftrightarrow> (\<forall>rp. repo_typed rp \<longrightarrow> repo_typed (bt rp))"

lemma grant_task_typed:
  assumes "typed_between bt"
  shows "typed_task (grant_task oc1 oc2 bt o1 o2 b src)"
proof (rule typed_taskI)
  fix a st r a' st'
  assume a: "actor_typed a" "store_typed st" and run: "grant_task oc1 oc2 bt o1 o2 b src (a, st) = (r, a', st')"
  obtain x p where p: "applyBundleUnsafe o1 o2 b a = (x, p)" by fastforce
  note tp = applyBundle_typed [OF a(1) p]
  note before = restore_typed [OF snapshot_typed [OF a(1)]]
  show "actor_typed a' \<and> store_typed st'"
  proof (cases st)
    case None
    then show ?thesis using run p tp a by (auto simp: grant_task_def Let_def split: if_splits option.splits)
  next
    case (Some rp)
    obtain y rp1 where s: "RoleRepo_SaveIdempotent oc1 (pID p) src ''grant'' (snapshotUnsafe p) b rp = (y, rp1)" by fastforce
    obtain z rp2 where l: "RoleRepo_Load oc2 (pID p) (bt rp1) = (z, rp2)" by fastforce
    have t1: "repo_typed rp1" using RoleRepo_typed(2) [OF s] a(2) Some snapshot_typed [OF tp] by simp
    then have "repo_typed (bt rp1)" using assms by (simp add: typed_between_def)
    note t2 = RoleRepo_reads_typed(1) [OF this l]
    show ?thesis
    proof (cases x)
      case None
      then show ?thesis using run p s l Some tp t1 t2 before restore_typed
        by (cases y; cases z) (auto simp: grant_task_def Let_def split: if_splits prod.splits)
    qed (use run p Some tp a in \<open>auto simp: grant_task_def Let_def split: if_splits\<close>)
  qed
qed

section \<open>The manager\<close>

lemma on_actor_typed: "manager_typed m \<Longrightarrow> typed_task f \<Longrightarrow> manager_typed (snd (on_actor q f m))"
  by (auto simp: manager_typed_def on_actor_def typed_task_def split: prod.splits) (metis fst_conv snd_conv)+

lemma bookkeeping_typed [simp]:
  "manager_typed (Schedule q m) = manager_typed m" "manager_typed (saver_Remove r m) = manager_typed m" "manager_typed (count_saved b m) = manager_typed m"
  "manager_typed (m\<lparr>gSaver := x\<rparr>) = manager_typed m" "manager_typed (m\<lparr>gPlayers := y\<rparr>) = manager_typed m"
  by (auto simp: manager_typed_def Schedule_def saver_Remove_def count_saved_def Let_def split: option.splits)

lemma close_typed: "manager_typed m \<Longrightarrow> manager_typed (close_actor q m)"
  by (simp add: manager_typed_def close_actor_def)

lemma unload_typed: "manager_typed m \<Longrightarrow> manager_typed (unload r q m)"
  by (simp add: unload_def close_typed)

lemma drop_typed: "manager_typed m \<Longrightarrow> manager_typed (dropIfStale r q x m)"
  using dropIfStale_unload [of r q x m] unload_typed by metis

lemma Get_typed:
  assumes "manager_typed m" and "manager_Get oc now r m = (x, m')"
  shows "manager_typed m'"
proof (cases "gRoles m")
  case None
  have "actor_typed (New now r (zero_snapshot\<lparr>snLevel := 1, snVersion := 1, snOwnerEpoch := 1\<rparr>))"
    by (rule New_typed) (simp add: snap_typed_def zero_snapshot_def)
  then show ?thesis using assms None by (auto simp: manager_Get_def manager_typed_def split: if_splits option.splits)
next
  case (Some rp)
  obtain y rp' where acq: "RoleRepo_Acquire oc r rp = (y, rp')" by fastforce
  have "repo_typed rp' \<and> (\<forall>s. y = Inr s \<longrightarrow> snap_typed s)" using RoleRepo_reads_typed(2) [OF _ acq] assms(1) Some by (simp add: manager_typed_def)
  then show ?thesis using assms Some acq by (auto simp: manager_Get_def manager_typed_def New_typed split: if_splits option.splits sum.splits)
qed

lemma got_typed:
  assumes "manager_typed m" and "\<And>q m'. manager_typed m' \<Longrightarrow> manager_typed (snd (g q m'))"
  shows "manager_typed (snd (case manager_Get oc now r m of (Inl e, m) \<Rightarrow> (Inl e, m) | (Inr q, m) \<Rightarrow> g q m))"
proof -
  obtain x m' where x: "manager_Get oc now r m = (x, m')" by fastforce
  from Get_typed [OF assms(1) x] assms(2) x show ?thesis by (cases x) simp_all
qed

lemma dropped_typed: "manager_typed m \<Longrightarrow> typed_task f \<Longrightarrow> manager_typed (snd (let (x, m) = on_actor q f m in (h x, dropIfStale r q x m)))"
  using on_actor_typed [of m f q] by (auto simp: Let_def drop_typed split: prod.splits)

lemma HandleMsg_typed: "manager_typed m \<Longrightarrow> manager_typed (snd (HandleMsg ocg adm oc now r cmd act payload m))"
  unfolding HandleMsg_def using dropped_typed [OF _ Invoke_typed [OF handle_task_typed], where h = id]
  by (intro got_typed) (auto simp: Let_def)

lemma WithPlayer_typed: "manager_typed m \<Longrightarrow> typed_fn fn \<Longrightarrow> manager_typed (snd (WithPlayer ocg adm now r fn m))"
  unfolding WithPlayer_def by (intro got_typed dropped_typed Invoke_typed plain_task_typed) simp_all

lemma WithPlayerSaved_typed: "manager_typed m \<Longrightarrow> typed_fn fn \<Longrightarrow> manager_typed (snd (WithPlayerSaved ocg adm oc now r fn m))"
  unfolding WithPlayerSaved_def by (intro got_typed dropped_typed Invoke_typed saved_task_typed) simp_all

lemma WithPlayerOutbox_typed: "manager_typed m \<Longrightarrow> typed_fn fn \<Longrightarrow> manager_typed (snd (WithPlayerOutbox ocg adm oc now r fn m))"
  unfolding WithPlayerOutbox_def by (intro got_typed dropped_typed Invoke_typed outbox_task_typed) simp_all

lemma ApplyGrant_typed: "manager_typed m \<Longrightarrow> typed_between bt \<Longrightarrow> manager_typed (snd (manager_ApplyGrant ocg adm now oc1 oc2 bt o1 o2 r b src m))"
  unfolding manager_ApplyGrant_def ApplyGrant_def by (intro got_typed dropped_typed Invoke_typed grant_task_typed) simp_all

lemma actor_Save_typed: "manager_typed m \<Longrightarrow> manager_typed (snd (actor_Save adm oc q m))"
  unfolding actor_Save_def by (intro on_actor_typed Save_typed)

lemma actor_Save_typedD: "actor_Save adm oc q m = (x, m') \<Longrightarrow> manager_typed m \<Longrightarrow> manager_typed m'"
  using actor_Save_typed [of m adm oc q] by simp

lemma FlushNow_typed: "manager_typed m \<Longrightarrow> manager_typed (snd (FlushNow adm oc q m))"
  by (auto simp: FlushNow_def dest!: actor_Save_typedD split: prod.splits sum.splits)

lemma flush_or_save_typed: "flush_or_save adm oc q m = (x, m') \<Longrightarrow> manager_typed m \<Longrightarrow> manager_typed m'"
  using FlushNow_typed [of m adm oc q] actor_Save_typed [of m adm oc q] by (auto simp: flush_or_save_def split: if_splits)

lemma ScheduleSave_typed: "manager_typed m \<Longrightarrow> manager_typed (ScheduleSave oc r m)"
  by (simp add: ScheduleSave_def actor_Save_typed split: option.splits)

lemma SaveNow_typed: "manager_typed m \<Longrightarrow> manager_typed (snd (SaveNow ocg adm oc now r m))"
  unfolding SaveNow_def
  by (intro got_typed) (auto simp: Let_def drop_typed dest: flush_or_save_typed split: prod.splits)

lemma SaveNowWithOutbox_typed: "manager_typed m \<Longrightarrow> manager_typed (snd (SaveNowWithOutbox ocg adm oc now r ev m))"
  unfolding SaveNowWithOutbox_def by (intro got_typed dropped_typed SaveWithOutbox_typed) simp_all

lemma Logout_typed: "manager_typed m \<Longrightarrow> manager_typed (snd (Logout adm oc r m))"
  by (auto simp: Logout_def drop_typed unload_typed dest!: flush_or_save_typed split: option.splits prod.splits sum.splits)

lemma evict_typed: "manager_typed m \<Longrightarrow> manager_typed (evict now adm oc rs m)"
proof (induction rs arbitrary: m)
  case (Cons k rs)
  show ?case unfolding evict.simps using Cons.prems
    by (intro Cons.IH) (auto simp: Let_def drop_typed unload_typed dest!: flush_or_save_typed split: option.splits prod.splits)
qed simp

lemma flush_jobs_typed: "manager_typed m \<Longrightarrow> manager_typed (flush_jobs adm oc qs m)"
proof (induction qs arbitrary: m)
  case (Cons q qs)
  obtain x m' where s: "actor_Save (adm (length qs)) (oc (length qs)) q m = (x, m')" by fastforce
  then show ?case using Cons actor_Save_typedD [OF s] by (cases x) simp_all
qed simp

lemma flushAll_typed: "manager_typed m \<Longrightarrow> manager_typed (flushAll adm oc order m)"
  by (auto simp: flushAll_def Let_def intro: flush_jobs_typed split: option.splits)

lemma stop_players_typed: "manager_typed m \<Longrightarrow> manager_typed (stop_players adm oc rs m)"
  by (induction rs arbitrary: m) (auto simp: close_typed actor_Save_typed split: option.splits)

section \<open>Every operation of a game process\<close>

text \<open>The steps of \<open>manager_step\<close> with the mutations that the handlers pass.\<close>

inductive player_step :: "manager \<Rightarrow> manager \<Rightarrow> bool" where
  msg: "player_step m (snd (HandleMsg ocg adm oc now r cmd act payload m))"
| pass: "player_step m (snd (WithPlayerOutbox ocg adm oc now r (pass_fn z r) m))"
| guild: "in_i64 g \<Longrightarrow> player_step m (snd (WithPlayerSaved ocg adm oc now r (\<lambda>pl. (Inr () :: unit res, SetGuild g pl)) m))"
| reward: "player_step m (snd (WithPlayerSaved ocg adm oc now r (\<lambda>pl. (Inr () :: unit res, AddGold n pl)) m))"
| escrow: "player_step m (snd (WithPlayerSaved ocg adm oc now r (remove_items i n) m))"
| buy: "player_step m (snd (WithPlayer ocg adm now r (spend_and_take l) m))"
| pay: "player_step m (snd (WithPlayer ocg adm now r (\<lambda>pl. (Inr () :: unit res, AddGold n pl)) m))"
| grant: "typed_between bt \<Longrightarrow> player_step m (snd (manager_ApplyGrant ocg adm now oc1 oc2 bt o1 o2 r b src m))"
| schedule: "player_step m (ScheduleSave oc r m)"
| save: "player_step m (snd (SaveNow ocg adm oc now r m))"
| save_outbox: "player_step m (snd (SaveNowWithOutbox ocg adm oc now r ev m))"
| logout: "player_step m (snd (Logout adm oc r m))"
| evict: "player_step m (evict now adms ocs rs m)"
| flush: "player_step m (flushAll admf ocf order m)"
| stop: "player_step m (StopAndFlush admf ocf order adms ocs rs m)"
| others: "typed_between bt \<Longrightarrow> player_step m (m\<lparr>gRoles := map_option bt (gRoles m)\<rparr>)"

lemma player_step_typed: "player_step m m' \<Longrightarrow> manager_typed m \<Longrightarrow> manager_typed m'"
proof (induction rule: player_step.induct)
  case (others bt m)
  then show ?case by (cases "gRoles m") (simp_all add: manager_typed_def typed_between_def)
next
  case (stop m admf ocf order adms ocs rs)
  then show ?case by (simp add: StopAndFlush_def FlushAll_def saver_Run_final_def stop_players_typed flushAll_typed)
qed (simp_all add: HandleMsg_typed WithPlayerOutbox_typed WithPlayerSaved_typed WithPlayer_typed ApplyGrant_typed mutations_typed
    ScheduleSave_typed SaveNow_typed SaveNowWithOutbox_typed Logout_typed evict_typed flushAll_typed)


definition demo_richest :: actor where
  "demo_richest = New 0 7 (zero_snapshot\<lparr>snLevel := 2 ^ 31 - 1, snGold := 2 ^ 63 - 1, snBag := Some [''potion'' \<mapsto> 2 ^ 31 - 1]\<rparr>)"

lemma demo_richest_typed: "actor_typed demo_richest"
  unfolding demo_richest_def by (rule New_typed) (simp add: snap_typed_def zero_snapshot_def in_i32_def in_i64_def)


end
