(* ===== verification/Startup.thy ===== *)
theory Startup
  imports Webhook Discovery Sessions "HOL-Library.Multiset"
begin

text \<open>
  The life of a process: what \<^verbatim>\<open>New\<close> of every service connects to and when it refuses to start, the guards
  around its routes (\<^verbatim>\<open>Handler\<close>), and \<^verbatim>\<open>Run\<close> with registration and shutdown (\<^verbatim>\<open>pkg/app/discovery.go\<close>,
  \<^verbatim>\<open>pkg/app/http.go\<close>, \<^verbatim>\<open>pkg/redis/client.go\<close>, \<^verbatim>\<open>pkg/db\<close>, \<^verbatim>\<open>pkg/internaltls\<close>). What the world outside answers is the
  record \<open>reach\<close>; the connections that a process holds are a multiset in the world that every step takes and
  returns, so that one can say what is released.
\<close>

section \<open>Connections\<close>

record redis_client =
  rlAddrs :: "string list"
  rlPoolSize :: int
  rlMinIdle :: int

record pool_config =
  pgMaxConns :: int
  pgMinConns :: int
  pgMaxConnLifetime :: int
  pgMaxConnIdleTime :: int

record pg_pool =
  plDSN :: string
  plConfig :: pool_config

datatype resource =
    RedisConn redis_client
  | PgPool pg_pool
  | NatsConn string
  | ForwardPool string
  | Tracer

text \<open>
  What a process finds outside: the number of processors, which Redis addresses answer a ping, how a DSN
  is parsed, whether its pool can be made and answers, NATS and its subscriptions, the three steps that load
  TLS files, the trace exporter, and the errors that closing a connection returns.
\<close>

record reach =
  rhProcs :: int
  rhPing :: "string list \<Rightarrow> bool"
  rhParse :: "string \<Rightarrow> pool_config option"
  rhOpen :: "string \<Rightarrow> bool"
  rhPgPing :: "string \<Rightarrow> bool"
  rhNats :: "string \<Rightarrow> bool"
  rhSubscribe :: "string \<Rightarrow> string \<Rightarrow> bool"
  rhKeyPair :: "string \<Rightarrow> string \<Rightarrow> bool"
  rhReadCA :: "string \<Rightarrow> string option"
  rhCAValid :: "string \<Rightarrow> bool"
  rhExporter :: "string \<Rightarrow> bool"
  rhTraceResource :: "string \<Rightarrow> bool"
  rhClose :: "resource \<Rightarrow> err option"
  rhRegister :: "outcome \<times> outcome \<times> int"
  rhDeregister :: "outcome \<times> outcome"
  rhPid :: int

record world =
  wHeld :: "resource multiset"
  wReg :: registry

definition hold :: "resource \<Rightarrow> world \<Rightarrow> world" where
  "hold r w = w\<lparr>wHeld := add_mset r (wHeld w)\<rparr>"

definition release :: "resource \<Rightarrow> world \<Rightarrow> world" where
  "release r w = w\<lparr>wHeld := wHeld w - {#r#}\<rparr>"

lemma held_simps [simp]:
  "release r (hold r w) = w" "wHeld (hold r w) = add_mset r (wHeld w)" "wHeld (release r w) = wHeld w - {#r#}"
  "wReg (hold r w) = wReg w" "wReg (release r w) = wReg w"
  by (simp_all add: hold_def release_def)

text \<open>One call after another; an error ends the sequence.\<close>

definition and_then :: "'a res \<times> 's \<Rightarrow> ('a \<Rightarrow> 's \<Rightarrow> 'b res \<times> 's) \<Rightarrow> 'b res \<times> 's" where
  "and_then m k = (case m of (Inl e, s) \<Rightarrow> (Inl e, s) | (Inr x, s) \<Rightarrow> k x s)"

lemma and_then_Inr [simp]: "and_then m k = (Inr y, s') \<longleftrightarrow> (\<exists>x s. m = (Inr x, s) \<and> k x s = (Inr y, s'))"
  by (auto simp: and_then_def split: prod.splits sum.splits)

lemma and_then_simps [simp]: "and_then (Inl e, s) k = (Inl e, s)" "and_then (Inr x, s) k = k x s"
  by (simp_all add: and_then_def)

subsection \<open>Redis\<close>

definition redis_options :: "reach \<Rightarrow> string list \<Rightarrow> redis_client" where
  "redis_options R addrs =
     (let pool = rhProcs R * 16; pool = (if pool < 32 then 32 else pool); pool = (if 128 < pool then 128 else pool)
      in \<lparr>rlAddrs = addrs, rlPoolSize = pool, rlMinIdle = 4\<rparr>)"

definition NewClient :: "reach \<Rightarrow> string \<Rightarrow> redis_client" where
  "NewClient R addr = redis_options R [addr]"

definition NewCluster :: "reach \<Rightarrow> string list \<Rightarrow> redis_client" where
  "NewCluster R addrs = redis_options R addrs"

definition redisx_New :: "reach \<Rightarrow> string \<Rightarrow> string list \<Rightarrow> redis_client" where
  "redisx_New R addr clusterAddrs = (if clusterAddrs \<noteq> [] then NewCluster R clusterAddrs else NewClient R addr)"

definition redisx_Ping :: "reach \<Rightarrow> redis_client \<Rightarrow> err option" where
  "redisx_Ping R c = (if rhPing R (rlAddrs c) then None else Some ErrStore)"

definition Require :: "reach \<Rightarrow> redis_client option \<Rightarrow> bool \<Rightarrow> err option" where
  "Require R c required =
     (if \<not> required then None
      else case c of
        None \<Rightarrow> Some (ErrMsg ''redis client is required'')
      | Some c \<Rightarrow> (case redisx_Ping R c of Some e \<Rightarrow> Some (ErrMsg ''connect redis'') | None \<Rightarrow> None))"

subsection \<open>PostgreSQL\<close>

definition pool_defaults :: "pool_config \<Rightarrow> pool_config" where
  "pool_defaults cfg =
     \<lparr>pgMaxConns = (if pgMaxConns cfg \<le> 0 then 20 else pgMaxConns cfg),
      pgMinConns = (if pgMinConns cfg \<le> 0 then 2 else pgMinConns cfg),
      pgMaxConnLifetime = (if pgMaxConnLifetime cfg \<le> 0 then 30 * 60 * second else pgMaxConnLifetime cfg),
      pgMaxConnIdleTime = (if pgMaxConnIdleTime cfg \<le> 0 then 5 * 60 * second else pgMaxConnIdleTime cfg)\<rparr>"

definition NewPool :: "reach \<Rightarrow> string \<Rightarrow> world \<Rightarrow> pg_pool res \<times> world" where
  "NewPool R dsn w =
     (case rhParse R dsn of
        None \<Rightarrow> (Inl (ErrMsg ''parse dsn''), w)
      | Some cfg \<Rightarrow>
          if \<not> rhOpen R dsn then (Inl ErrStore, w)
          else let pool = \<lparr>plDSN = dsn, plConfig = pool_defaults cfg\<rparr>; w = hold (PgPool pool) w
            in if \<not> rhPgPing R dsn then (Inl (ErrMsg ''ping postgres''), release (PgPool pool) w)
               else (Inr pool, w))"

definition pools_Close :: "pg_pool list \<Rightarrow> world \<Rightarrow> world" where
  "pools_Close ps w = fold (\<lambda>p. release (PgPool p)) ps w"

fun open_shards :: "reach \<Rightarrow> pg_pool list \<Rightarrow> string list \<Rightarrow> world \<Rightarrow> pg_pool list res \<times> world" where
  "open_shards R sp [] w = (Inr sp, w)"
| "open_shards R sp (dsn # dsns) w =
     (case NewPool R dsn w of
        (Inl e, w) \<Rightarrow> (Inl (ErrMsg ''postgres shard''), pools_Close sp w)
      | (Inr p, w) \<Rightarrow> open_shards R (sp @ [p]) dsns w)"

definition NewShardedPool :: "reach \<Rightarrow> string list \<Rightarrow> world \<Rightarrow> pg_pool list res \<times> world" where
  "NewShardedPool R dsns w =
     (if dsns = [] then (Inl (ErrMsg ''no postgres shards configured''), w) else open_shards R [] dsns w)"

subsection \<open>TLS\<close>

definition certificate :: "reach \<Rightarrow> internal_tls \<Rightarrow> (string \<times> string) res" where
  "certificate R cfg =
     (if \<not> rhKeyPair R (tlCertFile cfg) (tlKeyFile cfg) then Inl (ErrMsg ''load internal TLS certificate'')
      else case rhReadCA R (tlCAFile cfg) of
        None \<Rightarrow> Inl (ErrMsg ''read internal TLS CA'')
      | Some caPEM \<Rightarrow>
          if \<not> rhCAValid R caPEM then Inl (ErrMsg ''internal TLS CA contains no valid certificate'')
          else Inr (tlCertFile cfg, caPEM))"

text \<open>The TLS settings of a gRPC endpoint: its certificate, whether a peer must show one, the roots and the expected name.\<close>

record tls_creds =
  tcMinTLS13 :: bool
  tcCert :: string
  tcRequireClientCert :: bool
  tcRoots :: string
  tcServerName :: string

definition ServerCredentials :: "reach \<Rightarrow> internal_tls \<Rightarrow> tls_creds res" where
  "ServerCredentials R cfg =
     (case certificate R cfg of
        Inl e \<Rightarrow> Inl e
      | Inr (cert, roots) \<Rightarrow> Inr \<lparr>tcMinTLS13 = True, tcCert = cert, tcRequireClientCert = True, tcRoots = roots, tcServerName = []\<rparr>)"

definition ClientCredentials :: "reach \<Rightarrow> internal_tls \<Rightarrow> tls_creds res" where
  "ClientCredentials R cfg =
     (case certificate R cfg of
        Inl e \<Rightarrow> Inl e
      | Inr (cert, roots) \<Rightarrow> Inr \<lparr>tcMinTLS13 = True, tcCert = cert, tcRequireClientCert = False, tcRoots = roots, tcServerName = tlServerName cfg\<rparr>)"

subsection \<open>The client of the game processes\<close>

definition BastionClientSharded :: "bool \<Rightarrow> int \<Rightarrow> int \<Rightarrow> game_client" where
  "BastionClientSharded disc zoneID shardCount = \<lparr>cResolver = disc, cZoneID = zoneID, cShardCount = shardCount, cSecret = [], cStrict = False\<rparr>"

definition BastionClient :: "bool \<Rightarrow> int \<Rightarrow> game_client" where
  "BastionClient disc zoneID = BastionClientSharded disc zoneID 0"

definition game_WithSecret :: "string \<Rightarrow> game_client \<Rightarrow> game_client" where
  "game_WithSecret secret c = c\<lparr>cSecret := secret\<rparr>"

definition game_WithStrict :: "bool \<Rightarrow> game_client \<Rightarrow> game_client" where
  "game_WithStrict strict c = c\<lparr>cStrict := strict\<rparr>"

text \<open>The client that game, gate, mail, activity and pay make.\<close>

definition game_client_of :: "service_config \<Rightarrow> game_client" where
  "game_client_of cfg =
     game_WithStrict (Production cfg) (game_WithSecret (sInternalSecret cfg) (BastionClientSharded True (sZoneID cfg) (scShardCount (sScale cfg))))"

section \<open>Starting\<close>

text \<open>
  The resources of a server: the fields of the services' \<^verbatim>\<open>Server\<close> structures that hold connections. \<open>psTables\<close>
  is the pool behind the repositories of the service itself (accounts, guilds and auctions, mails, friends and
  chat, activities, orders), \<open>psRoles\<close> the pools of the role databases, \<open>psConsumer\<close> the subject and name of its
  durable subscription, \<open>psGame\<close> the client of the game processes, \<open>psPersist\<close> how a game process saves its players,
  \<open>psInst\<close> and \<open>psHTTP\<close> the identity that a Gate writes into presence records.
\<close>

record persist_config =
  pfMode :: string
  pfInterval :: int
  pfConcurrency :: int
  pfShardID :: int
  pfShardCount :: int

record proc =
  psCfg :: service_config
  psRedis :: "redis_client option"
  psNats :: "string option"
  psConsumer :: "(string \<times> string) option"
  psTables :: "pg_pool option"
  psRoles :: "pg_pool list"
  psForward :: "(string \<times> tls_creds option) option"
  psGame :: "game_client option"
  psPersist :: "persist_config option"
  psInst :: string
  psHTTP :: string

definition persist_of :: "scale_config \<Rightarrow> persist_config" where
  "persist_of sc = \<lparr>pfMode = scSaveMode sc, pfInterval = SaveInterval sc, pfConcurrency = scSaveConcurrency sc,
     pfShardID = scShardID sc, pfShardCount = scShardCount sc\<rparr>"

definition plain_proc :: "service_config \<Rightarrow> proc" where
  "plain_proc cfg = \<lparr>psCfg = cfg, psRedis = None, psNats = None, psConsumer = None, psTables = None, psRoles = [], psForward = None,
     psGame = None, psPersist = None, psInst = [], psHTTP = []\<rparr>"

text \<open>Redis as login and game connect to it: a ping that fails matters in production only, and nothing is closed.\<close>

definition redis_pinged :: "reach \<Rightarrow> service_config \<Rightarrow> world \<Rightarrow> redis_client res \<times> world" where
  "redis_pinged R cfg w =
     (let rdb = redisx_New R (ifRedis (sInfra cfg)) (ifRedisCluster (sInfra cfg)); w = hold (RedisConn rdb) w
      in case redisx_Ping R rdb of
           Some e \<Rightarrow> if Production cfg then (Inl (ErrMsg ''connect redis''), w) else (Inr rdb, w)
         | None \<Rightarrow> (Inr rdb, w))"

text \<open>Redis as gate, mail, social, activity, pay and rank connect to it: the client is closed when it is required and does not answer.\<close>

definition redis_required :: "reach \<Rightarrow> service_config \<Rightarrow> world \<Rightarrow> redis_client res \<times> world" where
  "redis_required R cfg w =
     (let rdb = redisx_New R (ifRedis (sInfra cfg)) (ifRedisCluster (sInfra cfg)); w = hold (RedisConn rdb) w
      in case Require R (Some rdb) (Production cfg) of
           Some e \<Rightarrow> (Inl e, release (RedisConn rdb) w)
         | None \<Rightarrow> (Inr rdb, w))"

text \<open>Redis as match and battle connect to it: no client at all when none is configured.\<close>

definition redis_configured :: "service_config \<Rightarrow> bool" where
  "redis_configured cfg \<longleftrightarrow> ifRedis (sInfra cfg) \<noteq> [] \<or> ifRedisCluster (sInfra cfg) \<noteq> []"

definition redis_optional :: "reach \<Rightarrow> service_config \<Rightarrow> world \<Rightarrow> redis_client option res \<times> world" where
  "redis_optional R cfg w =
     (let rdb = (if redis_configured cfg then Some (redisx_New R (ifRedis (sInfra cfg)) (ifRedisCluster (sInfra cfg))) else None);
          w = (case rdb of None \<Rightarrow> w | Some c \<Rightarrow> hold (RedisConn c) w)
      in case Require R rdb (Production cfg) of
           Some e \<Rightarrow> (Inl e, case rdb of None \<Rightarrow> w | Some c \<Rightarrow> release (RedisConn c) w)
         | None \<Rightarrow> (Inr rdb, w))"

definition open_tables :: "reach \<Rightarrow> string \<Rightarrow> world \<Rightarrow> pg_pool option res \<times> world" where
  "open_tables R dsn w =
     (if dsn = [] then (Inr None, w)
      else case NewPool R dsn w of
        (Inl e, w) \<Rightarrow> (Inl (ErrMsg ''connect postgres''), w)
      | (Inr p, w) \<Rightarrow> (Inr (Some p), w))"

definition open_nats :: "reach \<Rightarrow> service_config \<Rightarrow> world \<Rightarrow> string option res \<times> world" where
  "open_nats R cfg w =
     (let url = ifNATS (sInfra cfg) in
      if url = [] then (Inr None, w)
      else if rhNats R url then (Inr (Some url), hold (NatsConn url) w)
      else if Production cfg then (Inl (ErrMsg ''connect nats''), w) else (Inr None, w))"

definition open_consumer :: "reach \<Rightarrow> service_config \<Rightarrow> string \<Rightarrow> string \<Rightarrow> world \<Rightarrow> string option res \<times> world" where
  "open_consumer R cfg subject durable w =
     and_then (open_nats R cfg w) (\<lambda>nc w.
       case nc of
         None \<Rightarrow> (Inr None, w)
       | Some url \<Rightarrow> if rhSubscribe R subject durable then (Inr (Some url), w)
                     else (Inl (ErrMsg ''subscribe stream''), release (NatsConn url) w))"

text \<open>The role databases of a game process with the pool of its global tables.\<close>

definition game_databases :: "reach \<Rightarrow> service_config \<Rightarrow> world \<Rightarrow> pg_pool list res \<times> world" where
  "game_databases R cfg w =
     (if ifPostgresShards (sInfra cfg) \<noteq> [] then NewShardedPool R (ifPostgresShards (sInfra cfg)) w
      else if ifPostgres (sInfra cfg) \<noteq> [] then and_then (NewPool R (ifPostgres (sInfra cfg)) w) (\<lambda>p w. (Inr [p], w))
      else (Inr [], w))"

definition game_New :: "reach \<Rightarrow> service_config res \<Rightarrow> world \<Rightarrow> proc res \<times> world" where
  "game_New R loaded w =
     and_then (loaded, w) (\<lambda>cfg w.
     and_then (redis_pinged R cfg w) (\<lambda>rdb w.
     and_then (open_nats R cfg w) (\<lambda>nc w.
     and_then (game_databases R cfg w) (\<lambda>pools w.
       (Inr ((plain_proc cfg)\<lparr>psRedis := Some rdb, psNats := nc, psRoles := pools,
               psTables := (if pools = [] then None else Some (hd pools)),
               psGame := Some (game_client_of cfg), psPersist := Some (persist_of (sScale cfg))\<rparr>), w)))))"

definition login_roles :: "reach \<Rightarrow> service_config \<Rightarrow> pg_pool option \<Rightarrow> world \<Rightarrow> pg_pool list res \<times> world" where
  "login_roles R cfg pool w =
     (if ifPostgresShards (sInfra cfg) \<noteq> [] then NewShardedPool R (ifPostgresShards (sInfra cfg)) w
      else (Inr (case pool of None \<Rightarrow> [] | Some p \<Rightarrow> [p]), w))"

definition login_New :: "reach \<Rightarrow> service_config res \<Rightarrow> world \<Rightarrow> proc res \<times> world" where
  "login_New R loaded w =
     and_then (loaded, w) (\<lambda>cfg w.
     and_then (redis_pinged R cfg w) (\<lambda>rdb w.
       let accountDSN = (if ifPostgres (sInfra cfg) = [] \<and> ifPostgresShards (sInfra cfg) \<noteq> []
                         then hd (ifPostgresShards (sInfra cfg)) else ifPostgres (sInfra cfg)) in
     and_then (open_tables R accountDSN w) (\<lambda>pool w.
     and_then (login_roles R cfg pool w) (\<lambda>roles w.
       (Inr ((plain_proc cfg)\<lparr>psRedis := Some rdb, psTables := pool, psRoles := roles\<rparr>), w)))))"

definition match_New :: "reach \<Rightarrow> service_config res \<Rightarrow> world \<Rightarrow> proc res \<times> world" where
  "match_New R loaded w =
     and_then (loaded, w) (\<lambda>cfg w.
     and_then (redis_optional R cfg w) (\<lambda>rdb w.
       if sCrossZoneMatch cfg \<and> rdb = None then (Inl (ErrMsg ''cross_zone_match requires redis''), w)
       else (Inr ((plain_proc cfg)\<lparr>psRedis := rdb\<rparr>), w)))"

definition battle_New :: "reach \<Rightarrow> service_config res \<Rightarrow> world \<Rightarrow> proc res \<times> world" where
  "battle_New R loaded w =
     and_then (loaded, w) (\<lambda>cfg w.
     and_then (redis_optional R cfg w) (\<lambda>rdb w.
       (Inr ((plain_proc cfg)\<lparr>psRedis := rdb\<rparr>), w)))"

definition mail_New :: "reach \<Rightarrow> service_config res \<Rightarrow> world \<Rightarrow> proc res \<times> world" where
  "mail_New R loaded w =
     and_then (loaded, w) (\<lambda>cfg w.
     and_then (redis_required R cfg w) (\<lambda>rdb w.
     and_then (open_tables R (ifPostgres (sInfra cfg)) w) (\<lambda>pool w.
     and_then (open_consumer R cfg ''mail.send'' ''mail-v1'' w) (\<lambda>nc w.
       (Inr ((plain_proc cfg)\<lparr>psRedis := Some rdb, psTables := pool, psNats := nc,
               psConsumer := map_option (\<lambda>_. (''mail.send'', ''mail-v1'')) nc, psGame := Some (game_client_of cfg)\<rparr>), w)))))"

definition activity_New :: "reach \<Rightarrow> service_config res \<Rightarrow> world \<Rightarrow> proc res \<times> world" where
  "activity_New R loaded w =
     and_then (loaded, w) (\<lambda>cfg w.
     and_then (redis_required R cfg w) (\<lambda>rdb w.
     and_then (open_tables R (ifPostgres (sInfra cfg)) w) (\<lambda>pool w.
     and_then (open_consumer R cfg ''activity.event'' ''activity-v1'' w) (\<lambda>nc w.
       (Inr ((plain_proc cfg)\<lparr>psRedis := Some rdb, psTables := pool, psNats := nc,
               psConsumer := map_option (\<lambda>_. (''activity.event'', ''activity-v1'')) nc, psGame := Some (game_client_of cfg)\<rparr>), w)))))"

definition rank_New :: "reach \<Rightarrow> service_config res \<Rightarrow> world \<Rightarrow> proc res \<times> world" where
  "rank_New R loaded w =
     and_then (loaded, w) (\<lambda>cfg w.
     and_then (redis_required R cfg w) (\<lambda>rdb w.
     and_then (open_consumer R cfg ''rank.update'' ''rank-v1'' w) (\<lambda>nc w.
       (Inr ((plain_proc cfg)\<lparr>psRedis := Some rdb, psNats := nc,
               psConsumer := map_option (\<lambda>_. (''rank.update'', ''rank-v1'')) nc\<rparr>), w))))"

definition social_New :: "reach \<Rightarrow> service_config res \<Rightarrow> world \<Rightarrow> proc res \<times> world" where
  "social_New R loaded w =
     and_then (loaded, w) (\<lambda>cfg w.
     and_then (redis_required R cfg w) (\<lambda>rdb w.
     and_then (open_tables R (ifPostgres (sInfra cfg)) w) (\<lambda>pool w.
       (Inr ((plain_proc cfg)\<lparr>psRedis := Some rdb, psTables := pool\<rparr>), w))))"

definition pay_New :: "reach \<Rightarrow> service_config res \<Rightarrow> world \<Rightarrow> proc res \<times> world" where
  "pay_New R loaded w =
     and_then (loaded, w) (\<lambda>cfg w.
     and_then (redis_required R cfg w) (\<lambda>rdb w.
     and_then (open_tables R (ifPostgres (sInfra cfg)) w) (\<lambda>pool w.
       (Inr ((plain_proc cfg)\<lparr>psRedis := Some rdb, psTables := pool, psGame := Some (game_client_of cfg)\<rparr>), w))))"

definition gate_forwarder :: "reach \<Rightarrow> service_config \<Rightarrow> (string \<times> tls_creds option) res" where
  "gate_forwarder R cfg =
     (let transport = (if gcGameTransport (sGate cfg) = [] then ''http_pool'' else gcGameTransport (sGate cfg)) in
      if transport = ''grpc''
      then if tlEnabled (sInternalTLS cfg)
           then (case ClientCredentials R (sInternalTLS cfg) of Inl e \<Rightarrow> Inl e | Inr creds \<Rightarrow> Inr (transport, Some creds))
           else Inr (transport, None)
      else Inr (transport, None))"

definition gate_New :: "reach \<Rightarrow> service_config res \<Rightarrow> world \<Rightarrow> proc res \<times> world" where
  "gate_New R loaded w =
     and_then (loaded, w) (\<lambda>cfg w.
     and_then (redis_required R cfg w) (\<lambda>rdb w.
     and_then (gate_forwarder R cfg, w) (\<lambda>fwd w.
       (Inr ((plain_proc cfg)\<lparr>psRedis := Some rdb, psForward := Some fwd, psGame := Some (game_client_of cfg),
               psInst := (if dcEnabled (sDiscovery cfg) then inID (InstanceFromConfig (rhPid R) cfg) else []),
               psHTTP := AdvertiseAddr (sHTTPAddr cfg) (sAdvertiseHTTPAddr cfg)\<rparr>), hold (ForwardPool (fst fwd)) w))))"

definition gm_New :: "reach \<Rightarrow> service_config res \<Rightarrow> world \<Rightarrow> proc res \<times> world" where
  "gm_New R loaded w =
     and_then (loaded, w) (\<lambda>cfg w.
       if redis_configured cfg
       then and_then (redis_required R cfg w) (\<lambda>rdb w. (Inr ((plain_proc cfg)\<lparr>psRedis := Some rdb\<rparr>), w))
       else (Inr (plain_proc cfg), w))"

datatype service = SLogin | SGate | SGame | SMatch | SBattle | SSocial | SMail | SRank | SActivity | SPay | SGM

fun service_New :: "service \<Rightarrow> reach \<Rightarrow> service_config res \<Rightarrow> world \<Rightarrow> proc res \<times> world" where
  "service_New SLogin = login_New"
| "service_New SGate = gate_New"
| "service_New SGame = game_New"
| "service_New SMatch = match_New"
| "service_New SBattle = battle_New"
| "service_New SSocial = social_New"
| "service_New SMail = mail_New"
| "service_New SRank = rank_New"
| "service_New SActivity = activity_New"
| "service_New SPay = pay_New"
| "service_New SGM = gm_New"

fun service_type :: "service \<Rightarrow> string" where
  "service_type SLogin = ''login''"
| "service_type SGate = ''gate''"
| "service_type SGame = ''game''"
| "service_type SMatch = ''match''"
| "service_type SBattle = ''battle''"
| "service_type SSocial = ''social''"
| "service_type SMail = ''mail''"
| "service_type SRank = ''rank''"
| "service_type SActivity = ''activity''"
| "service_type SPay = ''pay''"
| "service_type SGM = ''gm''"

section \<open>Running and stopping\<close>

text \<open>
  \<^verbatim>\<open>app.CloseNoContext\<close> passes on the error of a closing function, \<^verbatim>\<open>app.CloseVoid\<close> has none. The tracer is
  closed by its own function, which takes a context.
\<close>

datatype close_func = CloseNoContext resource | CloseVoid "resource list" | ShutdownTrace

definition run_closer :: "reach \<Rightarrow> close_func \<Rightarrow> world \<Rightarrow> err option \<times> world" where
  "run_closer R c w =
     (case c of
        CloseNoContext r \<Rightarrow> (rhClose R r, release r w)
      | CloseVoid rs \<Rightarrow> (None, fold release rs w)
      | ShutdownTrace \<Rightarrow> (rhClose R Tracer, release Tracer w))"

text \<open>The loop over the closers, in the order in which they run: the first error is kept.\<close>

fun close_loop :: "reach \<Rightarrow> close_func list \<Rightarrow> err option \<Rightarrow> world \<Rightarrow> err option \<times> world" where
  "close_loop R [] err w = (err, w)"
| "close_loop R (c # cs) err w =
     (let (closeErr, w) = run_closer R c w in close_loop R cs (if closeErr \<noteq> None \<and> err = None then closeErr else err) w)"

definition InitTracing :: "reach \<Rightarrow> service_config \<Rightarrow> world \<Rightarrow> bool res \<times> world" where
  "InitTracing R cfg w =
     (if \<not> obTracingEnabled (sObservability cfg) then (Inr False, w)
      else if \<not> rhExporter R (obOTLPEndpoint (sObservability cfg)) then (Inl (ErrMsg ''trace exporter''), w)
      else if \<not> rhTraceResource R (sName cfg) then (Inl (ErrMsg ''trace resource''), w)
      else (Inr True, hold Tracer w))"

text \<open>A registered instance with the client of its registry; \<^verbatim>\<open>Start\<close> also begins the heartbeats.\<close>

record lifecycle =
  lcInst :: service_instance
  lcRedis :: redis_client
  lcHeartbeat :: int

definition registry_Start :: "reach \<Rightarrow> service_instance \<Rightarrow> int \<Rightarrow> redis_client \<Rightarrow> world \<Rightarrow> lifecycle res \<times> world" where
  "registry_Start R inst heartbeat rdb w =
     (let heartbeat = (if heartbeat \<le> 0 then 5 * second else heartbeat);
          (oc1, oc2, now) = rhRegister R;
          (ok, reg) = Register oc1 oc2 now inst (wReg w); w = w\<lparr>wReg := reg\<rparr>
      in case ok of Inl e \<Rightarrow> (Inl e, w) | Inr _ \<Rightarrow> (Inr \<lparr>lcInst = inst, lcRedis = rdb, lcHeartbeat = heartbeat\<rparr>, w))"

definition lifecycle_Stop :: "reach \<Rightarrow> lifecycle option \<Rightarrow> world \<Rightarrow> world" where
  "lifecycle_Stop R lc w =
     (case lc of
        None \<Rightarrow> w
      | Some lc \<Rightarrow>
          let (oc1, oc2) = rhDeregister R; (_, reg) = Deregister oc1 oc2 (lcInst lc) (wReg w)
          in release (RedisConn (lcRedis lc)) (w\<lparr>wReg := reg\<rparr>))"

definition StartDiscovery :: "reach \<Rightarrow> service_config \<Rightarrow> world \<Rightarrow> lifecycle option res \<times> world" where
  "StartDiscovery R cfg w =
     (if \<not> dcEnabled (sDiscovery cfg) \<or> ifRedis (sInfra cfg) = [] then (Inr None, w)
      else let rdb = redisx_New R (ifRedis (sInfra cfg)) (ifRedisCluster (sInfra cfg)); w = hold (RedisConn rdb) w;
               w = w\<lparr>wReg := (wReg w)\<lparr>dTTL := dTTL (NewRegistry (discovery_TTL (sDiscovery cfg)))\<rparr>\<rparr>
           in and_then (registry_Start R (InstanceFromConfig (rhPid R) cfg) (HeartbeatInterval (sDiscovery cfg)) rdb w)
                (\<lambda>lc w. (Inr (Some lc), w)))"

definition RunWithDiscoveryContext :: "reach \<Rightarrow> service_config \<Rightarrow> (world \<Rightarrow> err option \<times> world) \<Rightarrow> close_func list \<Rightarrow> world \<Rightarrow> err option \<times> world" where
  "RunWithDiscoveryContext R cfg fn closers w =
     (case InitTracing R cfg w of
        (Inl e, w) \<Rightarrow> (Some e, w)
      | (Inr traced, w) \<Rightarrow>
          case StartDiscovery R cfg w of
            (Inl e, w) \<Rightarrow> (Some e, w)
          | (Inr lc, w) \<Rightarrow>
              let closers = (if traced then closers @ [ShutdownTrace] else closers);
                  (err, w) = fn w;
                  (err, w) = close_loop R (rev closers) err w
              in (err, lifecycle_Stop R lc w))"

text \<open>The older loop without closers: a tracer that cannot be made is only reported, and the deferred calls run in reverse order.\<close>

definition RunWithDiscovery :: "reach \<Rightarrow> service_config \<Rightarrow> (world \<Rightarrow> err option \<times> world) \<Rightarrow> world \<Rightarrow> err option \<times> world" where
  "RunWithDiscovery R cfg fn w =
     (let (t, w) = InitTracing R cfg w; shutdown = (if t = Inr True then release Tracer else id)
      in case StartDiscovery R cfg w of
           (Inl e, w) \<Rightarrow> (Some e, shutdown w)
         | (Inr lc, w) \<Rightarrow> (let (err, w) = fn w in (err, shutdown (lifecycle_Stop R lc w))))"

text \<open>
  The closers that each \<^verbatim>\<open>Run\<close> lists, in the order of the source. What a process does while it runs is
  the argument \<open>fn\<close>; the game process then flushes the players that are still to be saved.
\<close>

definition redis_closer :: "proc \<Rightarrow> close_func list" where
  "redis_closer p = (case psRedis p of None \<Rightarrow> [] | Some c \<Rightarrow> [CloseNoContext (RedisConn c)])"

definition nats_closer :: "proc \<Rightarrow> close_func list" where
  "nats_closer p = (case psNats p of None \<Rightarrow> [] | Some url \<Rightarrow> [CloseNoContext (NatsConn url)])"

definition tables_closer :: "proc \<Rightarrow> close_func list" where
  "tables_closer p = (case psTables p of None \<Rightarrow> [] | Some pool \<Rightarrow> [CloseVoid [PgPool pool]])"

definition roles_closer :: "proc \<Rightarrow> close_func list" where
  "roles_closer p = (if psRoles p = [] then [] else [CloseVoid (map PgPool (psRoles p))])"

definition game_Run :: "reach \<Rightarrow> (world \<Rightarrow> err option \<times> world) \<Rightarrow> (world \<Rightarrow> world) \<Rightarrow> proc \<Rightarrow> world \<Rightarrow> err option \<times> world" where
  "game_Run R serving flush p w =
     RunWithDiscoveryContext R (psCfg p) (\<lambda>w. let (err, w) = serving w in (err, flush w))
       (redis_closer p @ nats_closer p @ roles_closer p) w"

definition login_Run :: "reach \<Rightarrow> (world \<Rightarrow> err option \<times> world) \<Rightarrow> proc \<Rightarrow> world \<Rightarrow> err option \<times> world" where
  "login_Run R fn p w =
     RunWithDiscoveryContext R (psCfg p) fn
       (redis_closer p @ (if ifPostgresShards (sInfra (psCfg p)) \<noteq> [] then roles_closer p else []) @ tables_closer p) w"

definition forward_closer :: "proc \<Rightarrow> close_func list" where
  "forward_closer p = (case psForward p of None \<Rightarrow> [] | Some f \<Rightarrow> [CloseVoid [ForwardPool (fst f)]])"

definition gate_Run :: "reach \<Rightarrow> (world \<Rightarrow> err option \<times> world) \<Rightarrow> proc \<Rightarrow> world \<Rightarrow> err option \<times> world" where
  "gate_Run R fn p w = RunWithDiscoveryContext R (psCfg p) fn (redis_closer p @ forward_closer p) w"

definition mail_Run :: "reach \<Rightarrow> (world \<Rightarrow> err option \<times> world) \<Rightarrow> proc \<Rightarrow> world \<Rightarrow> err option \<times> world" where
  "mail_Run R fn p w = RunWithDiscoveryContext R (psCfg p) fn (redis_closer p @ nats_closer p @ tables_closer p) w"

definition activity_Run :: "reach \<Rightarrow> (world \<Rightarrow> err option \<times> world) \<Rightarrow> proc \<Rightarrow> world \<Rightarrow> err option \<times> world" where
  "activity_Run R fn p w = RunWithDiscoveryContext R (psCfg p) fn (redis_closer p @ nats_closer p @ tables_closer p) w"

definition rank_Run :: "reach \<Rightarrow> (world \<Rightarrow> err option \<times> world) \<Rightarrow> proc \<Rightarrow> world \<Rightarrow> err option \<times> world" where
  "rank_Run R fn p w = RunWithDiscoveryContext R (psCfg p) fn (redis_closer p @ nats_closer p) w"

definition social_Run :: "reach \<Rightarrow> (world \<Rightarrow> err option \<times> world) \<Rightarrow> proc \<Rightarrow> world \<Rightarrow> err option \<times> world" where
  "social_Run R fn p w = RunWithDiscoveryContext R (psCfg p) fn (redis_closer p @ tables_closer p) w"

definition pay_Run :: "reach \<Rightarrow> (world \<Rightarrow> err option \<times> world) \<Rightarrow> proc \<Rightarrow> world \<Rightarrow> err option \<times> world" where
  "pay_Run R fn p w = RunWithDiscoveryContext R (psCfg p) fn (redis_closer p @ tables_closer p) w"

definition match_Run :: "reach \<Rightarrow> (world \<Rightarrow> err option \<times> world) \<Rightarrow> proc \<Rightarrow> world \<Rightarrow> err option \<times> world" where
  "match_Run R fn p w = RunWithDiscoveryContext R (psCfg p) fn (redis_closer p) w"

definition battle_Run :: "reach \<Rightarrow> (world \<Rightarrow> err option \<times> world) \<Rightarrow> proc \<Rightarrow> world \<Rightarrow> err option \<times> world" where
  "battle_Run R fn p w = RunWithDiscoveryContext R (psCfg p) fn (redis_closer p) w"

text \<open>The console closes the client of its registry; closing it has no error to report.\<close>

definition gm_Run :: "reach \<Rightarrow> (world \<Rightarrow> err option \<times> world) \<Rightarrow> proc \<Rightarrow> world \<Rightarrow> err option \<times> world" where
  "gm_Run R fn p w =
     RunWithDiscoveryContext R (psCfg p) fn (case psRedis p of None \<Rightarrow> [] | Some c \<Rightarrow> [CloseVoid [RedisConn c]]) w"

fun service_Run :: "service \<Rightarrow> reach \<Rightarrow> (world \<Rightarrow> err option \<times> world) \<Rightarrow> proc \<Rightarrow> world \<Rightarrow> err option \<times> world" where
  "service_Run SLogin R fn = login_Run R fn"
| "service_Run SGate R fn = gate_Run R fn"
| "service_Run SGame R fn = game_Run R fn id"
| "service_Run SMatch R fn = match_Run R fn"
| "service_Run SBattle R fn = battle_Run R fn"
| "service_Run SSocial R fn = social_Run R fn"
| "service_Run SMail R fn = mail_Run R fn"
| "service_Run SRank R fn = rank_Run R fn"
| "service_Run SActivity R fn = activity_Run R fn"
| "service_Run SPay R fn = pay_Run R fn"
| "service_Run SGM R fn = gm_Run R fn"

section \<open>The gRPC listener of a game process\<close>

definition runGRPC :: "reach \<Rightarrow> (string \<Rightarrow> bool) \<Rightarrow> service_config \<Rightarrow> tls_creds option option res" where
  "runGRPC R listen cfg =
     (if sGRPCAddr cfg = [] then Inr None
      else if \<not> listen (sGRPCAddr cfg) then Inl (ErrMsg ''listen'')
      else if tlEnabled (sInternalTLS cfg)
      then (case ServerCredentials R (sInternalTLS cfg) of Inl e \<Rightarrow> Inl e | Inr creds \<Rightarrow> Inr (Some (Some creds)))
      else Inr (Some None))"

text \<open>
  A connection of the Gate's gRPC pool: looked up, and made under the lock after a second look, with other calls
  (\<open>between\<close>) in between. A connection is its target with the credentials it was made with; without credentials it is insecure.
\<close>

type_synonym grpc_conns = "string \<Rightarrow> (string \<times> tls_creds option) option"

definition grpc_conn :: "(string \<Rightarrow> bool) \<Rightarrow> tls_creds option \<Rightarrow> (grpc_conns \<Rightarrow> grpc_conns) \<Rightarrow> string \<Rightarrow> grpc_conns \<Rightarrow> (string \<times> tls_creds option) res \<times> grpc_conns" where
  "grpc_conn NewClient_ok creds between target conns =
     (case conns target of
        Some cc \<Rightarrow> (Inr cc, conns)
      | None \<Rightarrow>
          let conns = between conns in
          case conns target of
            Some cc \<Rightarrow> (Inr cc, conns)
          | None \<Rightarrow> if NewClient_ok target then (Inr (target, creds), conns(target \<mapsto> (target, creds))) else (Inl (ErrMsg ''grpc client''), conns))"

definition GRPCPool_Close :: "grpc_conns \<Rightarrow> grpc_conns" where
  "GRPCPool_Close conns = Map.empty"

section \<open>Command line and listener\<close>

fun config_loop :: "string \<Rightarrow> string list \<Rightarrow> string" where
  "config_loop cfg [] = cfg"
| "config_loop cfg [a] = cfg"
| "config_loop cfg (a # b # rest) = config_loop (if a = ''-config'' then b else cfg) (b # rest)"

text \<open>The arguments without the program name; \<^const>\<open>None\<close> is a panic.\<close>

definition MustConfigFlag :: "string list \<Rightarrow> string option" where
  "MustConfigFlag args = (let cfg = config_loop ''./configs/service.yaml'' args in if cfg = [] then None else Some cfg)"

text \<open>How serving ends: by itself, or because the context is cancelled and the server shut down.\<close>

datatype serve_end = ServeEnds "err option" | Cancelled "err option" "err option"

definition RunHTTPContext :: "bool \<Rightarrow> serve_end \<Rightarrow> bool \<Rightarrow> err option \<times> bool" where
  "RunHTTPContext listening ending processReady =
     (if \<not> listening then (Some (ErrMsg ''listen''), processReady)
      else ((case ending of
               ServeEnds e \<Rightarrow> e
             | Cancelled shutdown e \<Rightarrow> (case shutdown of Some d \<Rightarrow> Some d | None \<Rightarrow> e)), False))"

text \<open>The whole of a process: its exit reports an error of \<^verbatim>\<open>New\<close> or of \<^verbatim>\<open>Run\<close>. \<open>load\<close> reads the configuration of a path.\<close>

definition service_main :: "service \<Rightarrow> reach \<Rightarrow> string list \<Rightarrow> (string \<Rightarrow> service_config res) \<Rightarrow> (world \<Rightarrow> err option \<times> world) \<Rightarrow> world \<Rightarrow> err option \<times> world" where
  "service_main svc R args load fn w =
     (case MustConfigFlag args of
        None \<Rightarrow> (Some (ErrMsg ''missing -config''), w)
      | Some path \<Rightarrow>
          case service_New svc R (load path) w of
            (Inl e, w) \<Rightarrow> (Some e, w)
          | (Inr p, w) \<Rightarrow> service_Run svc R fn p w)"

section \<open>Routes\<close>

text \<open>
  Every route of \<^verbatim>\<open>Handler\<close> with the middleware around its handler. A pattern without a trailing slash matches
  exactly its path. The routes of \<^verbatim>\<open>MountHealth\<close> are served by the process itself.
\<close>

datatype guard = Public | SessionGuard | InternalGuard | WebhookGuard

definition HealthHandler :: "'a \<Rightarrow> bool \<Rightarrow> 'a reply" where
  "HealthHandler ok processReady = (if \<not> processReady then HttpError 503 else ReplyOK ok)"

definition MountHealth :: "'a \<Rightarrow> 'a \<Rightarrow> bool \<Rightarrow> string \<Rightarrow> 'a reply option" where
  "MountHealth ok counters processReady path =
     (if path = ''/health'' \<or> path = ''/readyz'' then Some (HealthHandler ok processReady)
      else if path = ''/livez'' then Some (ReplyOK ok)
      else if path = ''/metrics'' \<or> path = ''/metrics/prometheus'' then Some (ReplyOK counters)
      else None)"

definition game_Handler :: "(string \<times> guard) list" where
  "game_Handler = map (\<lambda>path. (path, InternalGuard))
     [''/internal/player/msg'', ''/internal/player/logout'', ''/internal/player/dungeon/pass'', ''/internal/player/grant'',
      ''/internal/guild/join'', ''/internal/guild/info'', ''/internal/worldboss/state'', ''/internal/worldboss/attack'',
      ''/internal/guildwar/state'', ''/internal/guildwar/attack'', ''/internal/auction/list'', ''/internal/auction/create'',
      ''/internal/auction/buy'', ''/internal/guildwar/reset'', ''/internal/worldboss/reset'']"

definition login_Handler :: "(string \<times> guard) list" where
  "login_Handler = [(''/api/login'', Public), (''/api/enter'', Public), (''/api/zones'', Public)]"

definition match_Handler :: "(string \<times> guard) list" where
  "match_Handler = [(''/api/match/join'', SessionGuard), (''/api/match/room'', SessionGuard), (''/api/match/queue'', SessionGuard)]"

definition battle_Handler :: "(string \<times> guard) list" where
  "battle_Handler = [(''/api/battle/room/create'', InternalGuard), (''/api/battle/room'', InternalGuard), (''/api/battle/settle'', InternalGuard)]"

definition mail_Handler :: "(string \<times> guard) list" where
  "mail_Handler = (''/api/mail/send'', InternalGuard) # map (\<lambda>path. (path, SessionGuard))
     [''/api/mail/list'', ''/api/mail/claim'', ''/api/mail/claim-all'', ''/api/mail/read'', ''/api/mail/read-all'', ''/api/mail/unread'']"

definition rank_Handler :: "(string \<times> guard) list" where
  "rank_Handler = [(''/api/rank/update'', InternalGuard), (''/api/rank/top'', Public), (''/api/rank/global/top'', Public)]"

definition activity_Handler :: "(string \<times> guard) list" where
  "activity_Handler = [(''/api/activity/list'', SessionGuard), (''/api/activity/progress'', SessionGuard), (''/api/activity/claim'', SessionGuard)]"

definition pay_Handler :: "(string \<times> guard) list" where
  "pay_Handler = [(''/api/pay/notify'', WebhookGuard), (''/api/pay/order/create'', SessionGuard),
     (''/api/pay/retry'', InternalGuard), (''/api/pay/reconcile'', InternalGuard)]"

definition social_routes :: "(string \<times> guard) list" where
  "social_routes = map (\<lambda>path. (path, SessionGuard))
     [''/api/social/friend/add'', ''/api/social/friend/list'', ''/api/social/chat/send'', ''/api/social/chat/list'',
      ''/api/social/chat/global/send'', ''/api/social/chat/global/list'', ''/api/social/guild/info'']"

definition gm_routes :: "(string \<times> guard) list" where
  "gm_routes = map (\<lambda>path. (path, InternalGuard))
     [''/api/gm/dungeon/pass'', ''/api/gm/mail/send'', ''/api/gm/grant'', ''/api/gm/pay/reconcile'',
      ''/api/gm/season/guildwar/reset'', ''/api/gm/season/worldboss/reset'', ''/api/gm/services'']"

definition gate_routes :: "(string \<times> guard) list" where
  "gate_routes = [(''/internal/push'', InternalGuard), (''/internal/kick'', InternalGuard)]"

fun service_routes :: "service \<Rightarrow> (string \<times> guard) list" where
  "service_routes SLogin = login_Handler"
| "service_routes SGate = gate_routes"
| "service_routes SGame = game_Handler"
| "service_routes SMatch = match_Handler"
| "service_routes SBattle = battle_Handler"
| "service_routes SSocial = social_routes"
| "service_routes SMail = mail_Handler"
| "service_routes SRank = rank_Handler"
| "service_routes SActivity = activity_Handler"
| "service_routes SPay = pay_Handler"
| "service_routes SGM = gm_routes"

text \<open>
  A request at the HTTP server of a process: \<open>h\<close> is the service's handler of a path, run for a caller that the
  guard has made out, on the state of the service. The stores behind the guards are those of the process's Redis
  client, and absent without one.
\<close>

record http_req =
  hqPath :: string
  hqSecret :: string
  hqAuth :: auth_headers
  hqHook :: webhook_req
  hqNow :: int
  hqLoad :: outcome
  hqNonce :: outcome

datatype caller = Anyone | Internal | Player session_info | Provider string

definition through :: "(string \<Rightarrow> string \<Rightarrow> nat list) \<Rightarrow> (string \<Rightarrow> string) \<Rightarrow> proc \<Rightarrow> session_store \<Rightarrow> http_req
    \<Rightarrow> (caller \<Rightarrow> 's \<Rightarrow> 'a reply \<times> 's) \<Rightarrow> guard \<Rightarrow> string redis \<times> 's \<Rightarrow> 'a reply \<times> string redis \<times> 's" where
  "through hmac sha p st q h g ns =
     (case g of
        Public \<Rightarrow> apsnd (Pair (fst ns)) (h Anyone (snd ns))
      | InternalGuard \<Rightarrow> internal_HTTPMiddleware (sInternalSecret (psCfg p)) (hqSecret q) (\<lambda>(n, s). apsnd (Pair n) (h Internal s)) ns
      | SessionGuard \<Rightarrow> session_HTTPMiddleware (hqLoad q) (hqNow q) (map_option (\<lambda>_. st) (psRedis p)) (hqAuth q)
          (\<lambda>info (n, s). apsnd (Pair n) (h (Player info) s)) ns
      | WebhookGuard \<Rightarrow>
          let (r, rdb, s) = VerifyWebhook hmac sha (pcWebhookSecret (sPayment (psCfg p))) (MaxSkew (sPayment (psCfg p))) (hqNonce q) (hqNow q)
                (hqHook q) (\<lambda>body. h (Provider body)) (map_option (\<lambda>_. fst ns) (psRedis p), snd ns)
          in (r, (case rdb of None \<Rightarrow> fst ns | Some n \<Rightarrow> n), s))"

definition serve_http :: "(string \<Rightarrow> string \<Rightarrow> nat list) \<Rightarrow> (string \<Rightarrow> string) \<Rightarrow> (string \<Rightarrow> 'a reply option) \<Rightarrow> service \<Rightarrow> proc \<Rightarrow> session_store \<Rightarrow> http_req
    \<Rightarrow> (string \<Rightarrow> caller \<Rightarrow> 's \<Rightarrow> 'a reply \<times> 's) \<Rightarrow> string redis \<times> 's \<Rightarrow> 'a reply \<times> string redis \<times> 's" where
  "serve_http hmac sha health svc p st q h =
     withRequestBoundary (\<lambda>ns. case health (hqPath q) of
        Some r \<Rightarrow> (r, ns)
      | None \<Rightarrow>
          case map_of (service_routes svc) (hqPath q) of
            None \<Rightarrow> (HttpError 404, ns)
          | Some g \<Rightarrow> through hmac sha p st q (h (hqPath q)) g ns)"

section \<open>Pools\<close>

lemma NewPool_cases:
  assumes "NewPool R dsn w = (x, w')"
  obtains (failed) e where "x = Inl e" "w' = w"
  | (opened) pool where "x = Inr pool" "w' = hold (PgPool pool) w" "plDSN pool = dsn" "rhPgPing R dsn"
  using assms unfolding NewPool_def Let_def by (auto split: option.splits if_splits)

lemma fold_release: "wHeld (fold release rs w) = wHeld w - mset rs \<and> wReg (fold release rs w) = wReg w"
  by (induction rs arbitrary: w) (simp_all add: diff_diff_add)

lemma pools_Close_fold: "pools_Close ps w = fold release (map PgPool ps) w"
  by (simp add: pools_Close_def fold_map comp_def)

text \<open>
  Opening the role databases is all or nothing: on success the process holds one pool per DSN, in order, and each
  has answered; when one of them fails, those opened before it are closed again.
\<close>

lemma open_shards_held:
  "open_shards R sp dsns w = (x, w') \<Longrightarrow> mset (map PgPool sp) \<subseteq># wHeld w \<Longrightarrow>
   (case x of
      Inl _ \<Rightarrow> wHeld w' = wHeld w - mset (map PgPool sp)
    | Inr ps \<Rightarrow> \<exists>new. ps = sp @ new \<and> map plDSN new = dsns \<and> wHeld w' = wHeld w + mset (map PgPool new) \<and> (\<forall>dsn \<in> set dsns. rhPgPing R dsn))
   \<and> wReg w' = wReg w"
proof (induction dsns arbitrary: sp w)
  case Nil
  then show ?case by auto
next
  case (Cons dsn dsns)
  obtain y w1 where n: "NewPool R dsn w = (y, w1)" by fastforce
  then show ?case
  proof (cases rule: NewPool_cases)
    case (failed e)
    then show ?thesis using Cons.prems n by (auto simp: pools_Close_fold fold_release)
  next
    case (opened pool)
    have run: "open_shards R (sp @ [pool]) dsns w1 = (x, w')" using Cons.prems(1) n opened(1) by simp
    have "mset (map PgPool (sp @ [pool])) \<subseteq># wHeld w1" using Cons.prems(2) opened(2) by simp
    from Cons.IH [OF run this] show ?thesis
      using opened(2-4) by (cases x) auto
  qed
qed

definition answered :: "reach \<Rightarrow> pg_pool set \<Rightarrow> bool" where
  "answered R ps \<longleftrightarrow> (\<forall>pool \<in> ps. rhPgPing R (plDSN pool))"

lemma NewShardedPool_all_or_nothing:
  assumes "NewShardedPool R dsns w = (x, w')"
  shows "(case x of
      Inl _ \<Rightarrow> w' = w
    | Inr ps \<Rightarrow> ps \<noteq> [] \<and> map plDSN ps = dsns \<and> wHeld w' = wHeld w + mset (map PgPool ps) \<and> wReg w' = wReg w \<and> answered R (set ps))"
  using assms open_shards_held [of R "[]" dsns w x w'] by (cases x) (auto simp: NewShardedPool_def answered_def split: if_splits)

section \<open>What a process has reached when it starts\<close>

lemma redis_pinged_ok:
  "redis_pinged R cfg w = (Inr c, w') \<Longrightarrow> (Production cfg \<longrightarrow> rhPing R (rlAddrs c)) \<and> w' = hold (RedisConn c) w"
  by (auto simp: redis_pinged_def redisx_Ping_def Let_def split: if_splits)

lemma redis_required_ok:
  "redis_required R cfg w = (Inr c, w') \<Longrightarrow> (Production cfg \<longrightarrow> rhPing R (rlAddrs c)) \<and> w' = hold (RedisConn c) w"
  by (auto simp: redis_required_def Require_def redisx_Ping_def Let_def split: if_splits option.splits)

lemma redis_required_error: "redis_required R cfg w = (Inl e, w') \<Longrightarrow> w' = w"
  by (auto simp: redis_required_def Let_def split: option.splits)

lemma redis_optional_ok:
  "redis_optional R cfg w = (Inr c, w') \<Longrightarrow>
     (Production cfg \<longrightarrow> (\<exists>d. c = Some d \<and> rhPing R (rlAddrs d))) \<and> w' = (case c of None \<Rightarrow> w | Some d \<Rightarrow> hold (RedisConn d) w)"
  by (auto simp: redis_optional_def Require_def redisx_Ping_def Let_def split: if_splits option.splits)

lemma open_tables_ok:
  assumes "open_tables R dsn w = (Inr t, w')"
  shows "(t = None \<longleftrightarrow> dsn = []) \<and> answered R (set_option t) \<and> w' = (case t of None \<Rightarrow> w | Some p \<Rightarrow> hold (PgPool p) w)"
proof (cases "dsn = []")
  case False
  obtain x w1 where n: "NewPool R dsn w = (x, w1)" by fastforce
  then show ?thesis using n False assms by (cases rule: NewPool_cases) (auto simp: open_tables_def answered_def)
qed (use assms in \<open>simp add: open_tables_def answered_def\<close>)

lemma open_nats_ok:
  "open_nats R cfg w = (Inr nc, w') \<Longrightarrow>
     (Production cfg \<and> ifNATS (sInfra cfg) \<noteq> [] \<longrightarrow> nc \<noteq> None) \<and> (\<forall>url. nc = Some url \<longrightarrow> url = ifNATS (sInfra cfg) \<and> rhNats R url)
     \<and> w' = (case nc of None \<Rightarrow> w | Some url \<Rightarrow> hold (NatsConn url) w)"
  by (auto simp: open_nats_def Let_def split: if_splits)

lemma open_consumer_ok:
  assumes "open_consumer R cfg subject durable w = (Inr nc, w')"
  shows "(Production cfg \<and> ifNATS (sInfra cfg) \<noteq> [] \<longrightarrow> nc \<noteq> None) \<and> (\<forall>url. nc = Some url \<longrightarrow> url = ifNATS (sInfra cfg) \<and> rhNats R url)
     \<and> (nc \<noteq> None \<longrightarrow> rhSubscribe R subject durable) \<and> w' = (case nc of None \<Rightarrow> w | Some url \<Rightarrow> hold (NatsConn url) w)"
proof -
  obtain c w1 where c: "open_nats R cfg w = (Inr c, w1)"
      "(case c of None \<Rightarrow> (Inr None, w1) | Some url \<Rightarrow> if rhSubscribe R subject durable then (Inr (Some url), w1)
          else (Inl (ErrMsg ''subscribe stream''), release (NatsConn url) w1)) = (Inr nc, w')"
    using assms by (auto simp: open_consumer_def)
  then show ?thesis using open_nats_ok [OF c(1)] by (auto split: option.splits if_splits)
qed

lemma game_databases_ok:
  assumes "game_databases R cfg w = (Inr ps, w')"
  shows "(ps = [] \<longleftrightarrow> ifPostgres (sInfra cfg) = [] \<and> ifPostgresShards (sInfra cfg) = []) \<and> answered R (set ps)
    \<and> wHeld w' = wHeld w + mset (map PgPool ps)"
proof (cases "ifPostgresShards (sInfra cfg) = []")
  case True
  show ?thesis
  proof (cases "ifPostgres (sInfra cfg) = []")
    case False
    obtain x w1 where n: "NewPool R (ifPostgres (sInfra cfg)) w = (x, w1)" by fastforce
    then show ?thesis using n True False assms by (cases rule: NewPool_cases) (auto simp: game_databases_def answered_def)
  qed (use True assms in \<open>auto simp: game_databases_def answered_def\<close>)
next
  case False
  then show ?thesis using assms NewShardedPool_all_or_nothing [of R "ifPostgresShards (sInfra cfg)" w "Inr ps" w']
    by (auto simp: game_databases_def)
qed

lemma login_roles_ok:
  assumes "login_roles R cfg t w = (Inr ps, w')"
  shows "(ifPostgresShards (sInfra cfg) \<noteq> [] \<longrightarrow> ps \<noteq> [] \<and> answered R (set ps) \<and> wHeld w' = wHeld w + mset (map PgPool ps))
    \<and> (ifPostgresShards (sInfra cfg) = [] \<longrightarrow> set ps = set_option t \<and> w' = w)"
  using assms NewShardedPool_all_or_nothing [of R "ifPostgresShards (sInfra cfg)" w "Inr ps" w']
  by (auto simp: login_roles_def split: if_splits option.splits)

lemmas connection_facts = redis_pinged_ok redis_required_ok redis_optional_ok open_tables_ok open_nats_ok open_consumer_ok
  game_databases_ok login_roles_ok

text \<open>
  What holds of a server that \<^verbatim>\<open>New\<close> has returned. Only a production process insists on Redis and NATS; a database
  that is configured has answered in any case.
\<close>

definition redis_up :: "reach \<Rightarrow> proc \<Rightarrow> bool" where
  "redis_up R p \<longleftrightarrow> (Production (psCfg p) \<and> redis_configured (psCfg p) \<longrightarrow> (\<exists>c \<in> set_option (psRedis p). rhPing R (rlAddrs c)))"

definition nats_up :: "reach \<Rightarrow> proc \<Rightarrow> bool" where
  "nats_up R p \<longleftrightarrow> (let url = ifNATS (sInfra (psCfg p)) in Production (psCfg p) \<and> url \<noteq> [] \<longrightarrow> psNats p = Some url \<and> rhNats R url)"

definition consumer_up :: "reach \<Rightarrow> proc \<Rightarrow> bool" where
  "consumer_up R p \<longleftrightarrow> nats_up R p \<and> (psNats p \<noteq> None \<longrightarrow> (\<exists>(subject, durable) \<in> set_option (psConsumer p). rhSubscribe R subject durable))"

definition tables_up :: "reach \<Rightarrow> proc \<Rightarrow> bool" where
  "tables_up R p \<longleftrightarrow> (psTables p = None \<longleftrightarrow> ifPostgres (sInfra (psCfg p)) = []) \<and> answered R (set_option (psTables p))"

definition roles_up :: "reach \<Rightarrow> proc \<Rightarrow> bool" where
  "roles_up R p \<longleftrightarrow> answered R (set (psRoles p) \<union> set_option (psTables p)) \<and>
     (ifPostgres (sInfra (psCfg p)) \<noteq> [] \<or> ifPostgresShards (sInfra (psCfg p)) \<noteq> [] \<longrightarrow>
        psRoles p \<noteq> [] \<and> ([] \<notin> set (ifPostgresShards (sInfra (psCfg p))) \<longrightarrow> psTables p \<noteq> None))"

lemmas up_defs = redis_up_def nats_up_def consumer_up_def tables_up_def roles_up_def plain_proc_def Let_def

text \<open>The resources that a list of closers closes.\<close>

fun closed_by :: "close_func list \<Rightarrow> resource multiset" where
  "closed_by [] = {#}"
| "closed_by (CloseNoContext r # cs) = add_mset r (closed_by cs)"
| "closed_by (CloseVoid rs # cs) = mset rs + closed_by cs"
| "closed_by (ShutdownTrace # cs) = add_mset Tracer (closed_by cs)"

lemmas closer_defs = redis_closer_def nats_closer_def tables_closer_def roles_closer_def forward_closer_def

lemma game_started:
  assumes "game_New R loaded w = (Inr p, w')"
  shows "loaded = Inr (psCfg p)" and "redis_up R p" and "nats_up R p" and "roles_up R p"
    and "wHeld w' = wHeld w + closed_by (redis_closer p @ nats_closer p @ roles_closer p)"
proof -
  obtain cfg rdb w1 nc w2 ps where l: "loaded = Inr cfg" and r: "redis_pinged R cfg w = (Inr rdb, w1)"
    and n: "open_nats R cfg w1 = (Inr nc, w2)" and d: "game_databases R cfg w2 = (Inr ps, w')"
    and p: "p = (plain_proc cfg)\<lparr>psRedis := Some rdb, psNats := nc, psRoles := ps, psTables := (if ps = [] then None else Some (hd ps)),
      psGame := Some (game_client_of cfg), psPersist := Some (persist_of (sScale cfg))\<rparr>"
    using assms by (auto simp: game_New_def)
  note facts = redis_pinged_ok [OF r] open_nats_ok [OF n] game_databases_ok [OF d]
  show "loaded = Inr (psCfg p)" using l p by (simp add: plain_proc_def)
  show "redis_up R p" using facts p by (auto simp: up_defs)
  show "nats_up R p" using facts p by (auto simp: up_defs)
  show "roles_up R p" using facts p by (auto simp: up_defs answered_def)
  show "wHeld w' = wHeld w + closed_by (redis_closer p @ nats_closer p @ roles_closer p)"
    using facts p by (cases nc) (simp_all add: closer_defs plain_proc_def)
qed

lemma login_started:
  assumes "login_New R loaded w = (Inr p, w')"
  shows "loaded = Inr (psCfg p)" and "redis_up R p" and "roles_up R p"
    and "wHeld w' = wHeld w + closed_by (redis_closer p @ (if ifPostgresShards (sInfra (psCfg p)) \<noteq> [] then roles_closer p else []) @ tables_closer p)"
proof -
  obtain cfg rdb w1 t w2 ps where l: "loaded = Inr cfg" and r: "redis_pinged R cfg w = (Inr rdb, w1)"
    and t: "open_tables R (if ifPostgres (sInfra cfg) = [] \<and> ifPostgresShards (sInfra cfg) \<noteq> [] then hd (ifPostgresShards (sInfra cfg))
              else ifPostgres (sInfra cfg)) w1 = (Inr t, w2)" and d: "login_roles R cfg t w2 = (Inr ps, w')"
    and p: "p = (plain_proc cfg)\<lparr>psRedis := Some rdb, psTables := t, psRoles := ps\<rparr>"
    using assms by (auto simp: login_New_def Let_def)
  note facts = redis_pinged_ok [OF r] open_tables_ok [OF t] login_roles_ok [OF d]
  show "loaded = Inr (psCfg p)" using l p by (simp add: plain_proc_def)
  show "redis_up R p" using facts p by (auto simp: up_defs)
  have "[] \<in> set (ifPostgresShards (sInfra cfg))" if "ifPostgresShards (sInfra cfg) \<noteq> []" "hd (ifPostgresShards (sInfra cfg)) = []"
    using that hd_in_set by metis
  then show "roles_up R p" using facts p by (cases t) (auto simp: up_defs answered_def split: if_splits)
  show "wHeld w' = wHeld w + closed_by (redis_closer p @ (if ifPostgresShards (sInfra (psCfg p)) \<noteq> [] then roles_closer p else []) @ tables_closer p)"
    using facts p by (cases t) (simp_all add: closer_defs plain_proc_def)
qed

lemma mail_started:
  assumes "mail_New R loaded w = (Inr p, w')"
  shows "loaded = Inr (psCfg p)" and "redis_up R p" and "consumer_up R p" and "tables_up R p"
    and "wHeld w' = wHeld w + closed_by (redis_closer p @ nats_closer p @ tables_closer p)"
proof -
  obtain cfg rdb w1 t w2 nc where l: "loaded = Inr cfg" and r: "redis_required R cfg w = (Inr rdb, w1)"
    and t: "open_tables R (ifPostgres (sInfra cfg)) w1 = (Inr t, w2)" and n: "open_consumer R cfg ''mail.send'' ''mail-v1'' w2 = (Inr nc, w')"
    and p: "p = (plain_proc cfg)\<lparr>psRedis := Some rdb, psTables := t, psNats := nc, psConsumer := map_option (\<lambda>_. (''mail.send'', ''mail-v1'')) nc, psGame := Some (game_client_of cfg)\<rparr>"
    using assms by (auto simp: mail_New_def)
  note facts = redis_required_ok [OF r] open_tables_ok [OF t] open_consumer_ok [OF n]
  show "loaded = Inr (psCfg p)" using l p by (simp add: plain_proc_def)
  show "redis_up R p" using facts p by (auto simp: up_defs)
  show "consumer_up R p" using facts p by (auto simp: up_defs)
  show "tables_up R p" using facts p by (auto simp: up_defs)
  show "wHeld w' = wHeld w + closed_by (redis_closer p @ nats_closer p @ tables_closer p)"
    using facts p by (cases nc; cases t) (simp_all add: closer_defs plain_proc_def)
qed

lemma activity_started:
  assumes "activity_New R loaded w = (Inr p, w')"
  shows "loaded = Inr (psCfg p)" and "redis_up R p" and "consumer_up R p" and "tables_up R p"
    and "wHeld w' = wHeld w + closed_by (redis_closer p @ nats_closer p @ tables_closer p)"
proof -
  obtain cfg rdb w1 t w2 nc where l: "loaded = Inr cfg" and r: "redis_required R cfg w = (Inr rdb, w1)"
    and t: "open_tables R (ifPostgres (sInfra cfg)) w1 = (Inr t, w2)" and n: "open_consumer R cfg ''activity.event'' ''activity-v1'' w2 = (Inr nc, w')"
    and p: "p = (plain_proc cfg)\<lparr>psRedis := Some rdb, psTables := t, psNats := nc, psConsumer := map_option (\<lambda>_. (''activity.event'', ''activity-v1'')) nc, psGame := Some (game_client_of cfg)\<rparr>"
    using assms by (auto simp: activity_New_def)
  note facts = redis_required_ok [OF r] open_tables_ok [OF t] open_consumer_ok [OF n]
  show "loaded = Inr (psCfg p)" using l p by (simp add: plain_proc_def)
  show "redis_up R p" using facts p by (auto simp: up_defs)
  show "consumer_up R p" using facts p by (auto simp: up_defs)
  show "tables_up R p" using facts p by (auto simp: up_defs)
  show "wHeld w' = wHeld w + closed_by (redis_closer p @ nats_closer p @ tables_closer p)"
    using facts p by (cases nc; cases t) (simp_all add: closer_defs plain_proc_def)
qed

lemma rank_started:
  assumes "rank_New R loaded w = (Inr p, w')"
  shows "loaded = Inr (psCfg p)" and "redis_up R p" and "consumer_up R p"
    and "wHeld w' = wHeld w + closed_by (redis_closer p @ nats_closer p)"
proof -
  obtain cfg rdb w1 nc where l: "loaded = Inr cfg" and r: "redis_required R cfg w = (Inr rdb, w1)"
    and n: "open_consumer R cfg ''rank.update'' ''rank-v1'' w1 = (Inr nc, w')"
    and p: "p = (plain_proc cfg)\<lparr>psRedis := Some rdb, psNats := nc, psConsumer := map_option (\<lambda>_. (''rank.update'', ''rank-v1'')) nc\<rparr>"
    using assms by (auto simp: rank_New_def)
  note facts = redis_required_ok [OF r] open_consumer_ok [OF n]
  show "loaded = Inr (psCfg p)" using l p by (simp add: plain_proc_def)
  show "redis_up R p" using facts p by (auto simp: up_defs)
  show "consumer_up R p" using facts p by (auto simp: up_defs)
  show "wHeld w' = wHeld w + closed_by (redis_closer p @ nats_closer p)"
    using facts p by (cases nc) (simp_all add: closer_defs plain_proc_def)
qed

lemma social_started:
  assumes "social_New R loaded w = (Inr p, w')"
  shows "loaded = Inr (psCfg p)" and "redis_up R p" and "tables_up R p"
    and "wHeld w' = wHeld w + closed_by (redis_closer p @ tables_closer p)"
proof -
  obtain cfg rdb w1 t where l: "loaded = Inr cfg" and r: "redis_required R cfg w = (Inr rdb, w1)"
    and t: "open_tables R (ifPostgres (sInfra cfg)) w1 = (Inr t, w')"
    and p: "p = (plain_proc cfg)\<lparr>psRedis := Some rdb, psTables := t\<rparr>"
    using assms by (auto simp: social_New_def)
  note facts = redis_required_ok [OF r] open_tables_ok [OF t]
  show "loaded = Inr (psCfg p)" using l p by (simp add: plain_proc_def)
  show "redis_up R p" using facts p by (auto simp: up_defs)
  show "tables_up R p" using facts p by (auto simp: up_defs)
  show "wHeld w' = wHeld w + closed_by (redis_closer p @ tables_closer p)"
    using facts p by (cases t) (simp_all add: closer_defs plain_proc_def)
qed

lemma pay_started:
  assumes "pay_New R loaded w = (Inr p, w')"
  shows "loaded = Inr (psCfg p)" and "redis_up R p" and "tables_up R p"
    and "wHeld w' = wHeld w + closed_by (redis_closer p @ tables_closer p)"
proof -
  obtain cfg rdb w1 t where l: "loaded = Inr cfg" and r: "redis_required R cfg w = (Inr rdb, w1)"
    and t: "open_tables R (ifPostgres (sInfra cfg)) w1 = (Inr t, w')"
    and p: "p = (plain_proc cfg)\<lparr>psRedis := Some rdb, psTables := t, psGame := Some (game_client_of cfg)\<rparr>"
    using assms by (auto simp: pay_New_def)
  note facts = redis_required_ok [OF r] open_tables_ok [OF t]
  show "loaded = Inr (psCfg p)" using l p by (simp add: plain_proc_def)
  show "redis_up R p" using facts p by (auto simp: up_defs)
  show "tables_up R p" using facts p by (auto simp: up_defs)
  show "wHeld w' = wHeld w + closed_by (redis_closer p @ tables_closer p)"
    using facts p by (cases t) (simp_all add: closer_defs plain_proc_def)
qed

lemma battle_started:
  assumes "battle_New R loaded w = (Inr p, w')"
  shows "loaded = Inr (psCfg p) \<and> redis_up R p \<and> wHeld w' = wHeld w + closed_by (redis_closer p)"
proof -
  obtain cfg rdb where l: "loaded = Inr cfg" and r: "redis_optional R cfg w = (Inr rdb, w')" and p: "p = (plain_proc cfg)\<lparr>psRedis := rdb\<rparr>"
    using assms by (auto simp: battle_New_def)
  show ?thesis using l p redis_optional_ok [OF r] by (cases rdb) (auto simp: up_defs closer_defs)
qed

lemma match_as_battle: "match_New R loaded w = (Inr p, w') \<Longrightarrow> battle_New R loaded w = (Inr p, w')"
  by (auto simp: match_New_def battle_New_def split: if_splits)

lemma gate_started:
  assumes "gate_New R loaded w = (Inr p, w')"
  shows "loaded = Inr (psCfg p) \<and> redis_up R p \<and> wHeld w' = wHeld w + closed_by (redis_closer p @ forward_closer p)"
proof -
  obtain cfg rdb w1 fwd where l: "loaded = Inr cfg" and r: "redis_required R cfg w = (Inr rdb, w1)"
    and p: "p = (plain_proc cfg)\<lparr>psRedis := Some rdb, psForward := Some fwd, psGame := Some (game_client_of cfg),
        psInst := (if dcEnabled (sDiscovery cfg) then inID (InstanceFromConfig (rhPid R) cfg) else []),
        psHTTP := AdvertiseAddr (sHTTPAddr cfg) (sAdvertiseHTTPAddr cfg)\<rparr>" "w' = hold (ForwardPool (fst fwd)) w1"
    using assms by (auto simp: gate_New_def)
  show ?thesis using l p redis_required_ok [OF r] by (auto simp: up_defs closer_defs)
qed

lemma gm_started:
  assumes "gm_New R loaded w = (Inr p, w')"
  shows "loaded = Inr (psCfg p) \<and> redis_up R p \<and> wHeld w' = wHeld w + closed_by (case psRedis p of None \<Rightarrow> [] | Some c \<Rightarrow> [CloseVoid [RedisConn c]])"
  using assms by (auto simp: gm_New_def up_defs split: if_splits dest!: redis_required_ok)

lemma service_started:
  assumes "service_New svc R loaded w = (Inr p, w')"
  shows "loaded = Inr (psCfg p) \<and> redis_up R p \<and> (svc \<in> {SLogin, SGame} \<longrightarrow> roles_up R p)
    \<and> (svc \<in> {SMail, SSocial, SActivity, SPay} \<longrightarrow> tables_up R p) \<and> (svc = SGame \<longrightarrow> nats_up R p)
    \<and> (svc \<in> {SMail, SRank, SActivity} \<longrightarrow> consumer_up R p)"
proof (cases svc)
  case SLogin then show ?thesis using assms login_started [of R loaded w p w'] by simp
next
  case SGame then show ?thesis using assms game_started [of R loaded w p w'] by simp
next
  case SMail then show ?thesis using assms mail_started [of R loaded w p w'] by simp
next
  case SActivity then show ?thesis using assms activity_started [of R loaded w p w'] by simp
next
  case SRank then show ?thesis using assms rank_started [of R loaded w p w'] by simp
next
  case SSocial then show ?thesis using assms social_started [of R loaded w p w'] by simp
next
  case SPay then show ?thesis using assms pay_started [of R loaded w p w'] by simp
next
  case SBattle then show ?thesis using assms battle_started [of R loaded w p w'] by simp
next
  case SMatch then show ?thesis using assms battle_started [of R loaded w p w'] by (simp add: match_as_battle)
next
  case SGate then show ?thesis using assms gate_started [of R loaded w p w'] by simp
next
  case SGM then show ?thesis using assms gm_started [of R loaded w p w'] by simp
qed

section \<open>What a process serves\<close>

text \<open>The credentials behind a caller, for the process \<open>p\<close> with the sessions \<open>st\<close>.\<close>

definition authorised :: "(string \<Rightarrow> string \<Rightarrow> nat list) \<Rightarrow> proc \<Rightarrow> session_store \<Rightarrow> http_req \<Rightarrow> caller \<Rightarrow> bool" where
  "authorised hmac p st q c =
     (case c of
        Anyone \<Rightarrow> hqPath q \<in> set [''/api/login'', ''/api/enter'', ''/api/zones'', ''/api/rank/top'', ''/api/rank/global/top'']
      | Internal \<Rightarrow> hqSecret q \<noteq> [] \<and> hqSecret q = sInternalSecret (psCfg p)
      | Player info \<Rightarrow> validToken (tokenFromRequest (hqAuth q)) \<and> siRoleID info \<noteq> 0 \<and>
          redis_GET (hqNow q) (session_key (tokenFromRequest (hqAuth q))) st = Some (Some info)
      | Provider body \<Rightarrow> pcWebhookSecret (sPayment (psCfg p)) \<noteq> [] \<and>
          hex_decode (TrimSpace (wSignature (hqHook q))) =
            hex_decode (Sign hmac (pcWebhookSecret (sPayment (psCfg p))) (TrimSpace (wTimestamp (hqHook q))) (TrimSpace (wNonce (hqHook q))) body))"

lemma through_public: "through hmac sha p st q h Public (n, s) = (r, n', s') \<Longrightarrow> h Anyone s = (r, s')"
  by (cases "h Anyone s") (auto simp: through_def)

lemma through_internal:
  "through hmac sha p st q h InternalGuard (n, s) = (r, n', s') \<Longrightarrow> sInternalSecret (psCfg p) \<noteq> [] \<Longrightarrow>
     s' = s \<and> r = HttpError 403 \<or> h Internal s = (r, s') \<and> authorised hmac p st q Internal"
  by (cases "h Internal s") (auto simp: through_def internal_HTTPMiddleware_def authorised_def split: if_splits)

lemma session_Load_Inr:
  "session_Load oc now token (Some st) = Inr info \<Longrightarrow> validToken token \<and> siRoleID info \<noteq> 0 \<and> redis_GET now (session_key token) st = Some (Some info)"
  by (auto simp: session_Load_def split: if_splits option.splits)

lemma through_session:
  assumes "through hmac sha p st q h SessionGuard (n, s) = (r, n', s')"
  shows "s' = s \<and> r = Unauthorized \<or> (\<exists>info. h (Player info) s = (r, s') \<and> authorised hmac p st q (Player info))"
proof (cases "psRedis p = None \<or> tokenFromRequest (hqAuth q) = []")
  case True
  then show ?thesis using assms by (auto simp: through_def session_HTTPMiddleware_def Let_def split: if_splits)
next
  case False
  then obtain c where c: "psRedis p = Some c" by auto
  show ?thesis
  proof (cases "session_Load (hqLoad q) (hqNow q) (tokenFromRequest (hqAuth q)) (Some st)")
    case (Inl e)
    then show ?thesis using assms False c by (auto simp: through_def session_HTTPMiddleware_def Let_def)
  next
    case (Inr info)
    then have "authorised hmac p st q (Player info)" by (auto simp: authorised_def dest!: session_Load_Inr)
    moreover have "h (Player info) s = (r, s')"
      using assms False c Inr by (cases "h (Player info) s") (auto simp: through_def session_HTTPMiddleware_def Let_def)
    ultimately show ?thesis by blast
  qed
qed

lemma VerifyWebhook_runs:
  assumes "VerifyWebhook hmac sha secret skew oc now req next (rdb, s) = (r, rdb', s')"
  shows "s' = s \<and> (\<exists>n. r = HttpError n) \<or>
    (\<exists>body. next body s = (r, s') \<and> secret \<noteq> [] \<and>
       hex_decode (TrimSpace (wSignature req)) = hex_decode (Sign hmac secret (TrimSpace (wTimestamp req)) (TrimSpace (wNonce req)) body))"
  using assms unfolding VerifyWebhook_def Let_def
  by (auto split: if_splits prod.splits option.splits sum.splits bool.splits)

lemma through_webhook:
  assumes "through hmac sha p st q h WebhookGuard (n, s) = (r, n', s')"
  shows "s' = s \<and> (\<exists>k. r = HttpError k) \<or> (\<exists>body. h (Provider body) s = (r, s') \<and> authorised hmac p st q (Provider body))"
proof -
  obtain x rdb y where v: "VerifyWebhook hmac sha (pcWebhookSecret (sPayment (psCfg p))) (MaxSkew (sPayment (psCfg p))) (hqNonce q) (hqNow q)
      (hqHook q) (\<lambda>body. h (Provider body)) (map_option (\<lambda>_. n) (psRedis p), s) = (x, rdb, y)" by (rule prod_cases3)
  then have "r = x" "s' = y" using assms by (simp_all add: through_def)
  then show ?thesis using VerifyWebhook_runs [OF v] by (auto simp: authorised_def)
qed

lemma public_routes:
  "map_of (service_routes svc) path = Some Public \<Longrightarrow> path \<in> set [''/api/login'', ''/api/enter'', ''/api/zones'', ''/api/rank/top'', ''/api/rank/global/top'']"
  by (cases svc) (auto simp: login_Handler_def gate_routes_def game_Handler_def match_Handler_def battle_Handler_def social_routes_def
      mail_Handler_def rank_Handler_def activity_Handler_def pay_Handler_def gm_routes_def split: if_splits)

lemma through_authorised:
  assumes "through hmac sha p st q h g (n, s) = (r, n', s')" and "sInternalSecret (psCfg p) \<noteq> []" and "map_of (service_routes svc) (hqPath q) = Some g"
  shows "s' = s \<and> (\<forall>a. r \<noteq> ReplyOK a) \<or> (\<exists>c. h c s = (r, s') \<and> authorised hmac p st q c)"
proof (cases g)
  case Public
  then have "authorised hmac p st q Anyone" using public_routes assms(3) by (auto simp: authorised_def)
  moreover have "h Anyone s = (r, s')" using assms(1) unfolding Public by (rule through_public)
  ultimately show ?thesis by blast
next
  case SessionGuard
  show ?thesis using through_session [OF assms(1) [unfolded SessionGuard]] by blast
next
  case InternalGuard
  show ?thesis using through_internal [OF assms(1) [unfolded InternalGuard] assms(2)] by blast
next
  case WebhookGuard
  show ?thesis using through_webhook [OF assms(1) [unfolded WebhookGuard]] by blast
qed

text \<open>The two halves of the property: the stores behind a started process, and the guards in front of it.\<close>

lemma production_stores:
  assumes "service_New svc R (config_Load env parsed) w = (Inr p, w1)" and "Production (psCfg p)" and "sType (psCfg p) = service_type svc"
  shows "\<exists>c. psRedis p = Some c \<and> rhPing R (rlAddrs c)"
    and "svc \<in> {SLogin, SGame} \<longrightarrow> psRoles p \<noteq> [] \<and> (\<forall>pool \<in> set (psRoles p) \<union> set_option (psTables p). rhPgPing R (plDSN pool))"
    and "svc \<in> {SMail, SSocial, SActivity, SPay} \<and> ifPostgres (sInfra (psCfg p)) \<noteq> [] \<longrightarrow> (\<exists>pool. psTables p = Some pool \<and> rhPgPing R (plDSN pool))"
    and "svc \<in> {SGame, SMail, SRank, SActivity} \<and> ifNATS (sInfra (psCfg p)) \<noteq> [] \<longrightarrow> psNats p = Some (ifNATS (sInfra (psCfg p)))"
    and "svc \<in> {SMail, SRank, SActivity} \<and> ifNATS (sInfra (psCfg p)) \<noteq> [] \<longrightarrow> (\<exists>subject durable. psConsumer p = Some (subject, durable) \<and> rhSubscribe R subject durable)"
proof -
  note started = service_started [OF assms(1)]
  have load: "config_Load env parsed = Inr (psCfg p)" using started by blast
  note closed = production_fails_closed [OF load assms(2)]
  show "\<exists>c. psRedis p = Some c \<and> rhPing R (rlAddrs c)"
  proof -
    have "redis_configured (psCfg p)" using closed unfolding redis_configured_def by blast
    then show ?thesis using started assms(2) by (auto simp: redis_up_def)
  qed
  show "svc \<in> {SLogin, SGame} \<longrightarrow> psRoles p \<noteq> [] \<and> (\<forall>pool \<in> set (psRoles p) \<union> set_option (psTables p). rhPgPing R (plDSN pool))"
  proof
    assume svc: "svc \<in> {SLogin, SGame}"
    then have "sType (psCfg p) \<in> {''login'', ''game'', ''mail'', ''social'', ''activity'', ''pay''}" using assms(3) by auto
    then have "ifPostgres (sInfra (psCfg p)) \<noteq> [] \<or> ifPostgresShards (sInfra (psCfg p)) \<noteq> []" using closed by blast
    then show "psRoles p \<noteq> [] \<and> (\<forall>pool \<in> set (psRoles p) \<union> set_option (psTables p). rhPgPing R (plDSN pool))"
      using started svc unfolding roles_up_def answered_def by blast
  qed
  show "svc \<in> {SMail, SSocial, SActivity, SPay} \<and> ifPostgres (sInfra (psCfg p)) \<noteq> [] \<longrightarrow> (\<exists>pool. psTables p = Some pool \<and> rhPgPing R (plDSN pool))"
  proof
    assume a: "svc \<in> {SMail, SSocial, SActivity, SPay} \<and> ifPostgres (sInfra (psCfg p)) \<noteq> []"
    then have "tables_up R p" using started by blast
    then show "\<exists>pool. psTables p = Some pool \<and> rhPgPing R (plDSN pool)" using a by (cases "psTables p") (simp_all add: tables_up_def answered_def)
  qed
  show nats: "svc \<in> {SGame, SMail, SRank, SActivity} \<and> ifNATS (sInfra (psCfg p)) \<noteq> [] \<longrightarrow> psNats p = Some (ifNATS (sInfra (psCfg p)))"
  proof
    assume a: "svc \<in> {SGame, SMail, SRank, SActivity} \<and> ifNATS (sInfra (psCfg p)) \<noteq> []"
    then have "nats_up R p" using started unfolding consumer_up_def by blast
    then show "psNats p = Some (ifNATS (sInfra (psCfg p)))" using a assms(2) by (simp add: nats_up_def Let_def)
  qed
  show "svc \<in> {SMail, SRank, SActivity} \<and> ifNATS (sInfra (psCfg p)) \<noteq> [] \<longrightarrow> (\<exists>subject durable. psConsumer p = Some (subject, durable) \<and> rhSubscribe R subject durable)"
  proof
    assume a: "svc \<in> {SMail, SRank, SActivity} \<and> ifNATS (sInfra (psCfg p)) \<noteq> []"
    then have "consumer_up R p" "psNats p \<noteq> None" using started nats by blast+
    then show "\<exists>subject durable. psConsumer p = Some (subject, durable) \<and> rhSubscribe R subject durable"
      by (cases "psConsumer p") (auto simp: consumer_up_def)
  qed
qed

lemma serve_authorised:
  assumes "sInternalSecret (psCfg p) \<noteq> []" and "serve_http hmac sha (MountHealth ok counters ready) svc p st q h (n, s) = (r, n', s')"
  shows "s' = s \<and> (\<forall>a. r = ReplyOK a \<longrightarrow> MountHealth ok counters ready (hqPath q) = Some (ReplyOK a))
    \<or> (\<exists>c x. h (hqPath q) c s = (x, s') \<and> r = request_boundary x \<and> authorised hmac p st q c)"
proof (cases "MountHealth ok counters ready (hqPath q)")
  case (Some x)
  then show ?thesis using assms(2) by (auto simp: serve_http_def withRequestBoundary_def)
next
  case health: None
  show ?thesis
  proof (cases "map_of (service_routes svc) (hqPath q)")
    case None
    then show ?thesis using assms(2) health by (auto simp: serve_http_def withRequestBoundary_def)
  next
    case (Some g)
    obtain x m y where t: "through hmac sha p st q (h (hqPath q)) g (n, s) = (x, m, y)" by (rule prod_cases3)
    then have "r = request_boundary x" "s' = y" using assms(2) health Some by (simp_all add: serve_http_def withRequestBoundary_def)
    moreover have "sInternalSecret (psCfg p) \<noteq> []" using assms(1) .
    ultimately show ?thesis using through_authorised [OF t _ Some] by auto
  qed
qed


definition demo_reach :: reach where
  "demo_reach = \<lparr>rhProcs = 4, rhPing = (\<lambda>_. True), rhParse = (\<lambda>_. Some \<lparr>pgMaxConns = 0, pgMinConns = 0, pgMaxConnLifetime = 0, pgMaxConnIdleTime = 0\<rparr>),
     rhOpen = (\<lambda>_. True), rhPgPing = (\<lambda>_. True), rhNats = (\<lambda>_. True), rhSubscribe = (\<lambda>_ _. True), rhKeyPair = (\<lambda>_ _. True),
     rhReadCA = (\<lambda>_. None), rhCAValid = (\<lambda>_. False), rhExporter = (\<lambda>_. True), rhTraceResource = (\<lambda>_. True), rhClose = (\<lambda>_. None),
     rhRegister = (Done, Done, 0), rhDeregister = (Done, Done), rhPid = 1\<rparr>"

definition no_world :: world where
  "no_world = \<lparr>wHeld = {#}, wReg = NewRegistry 0\<rparr>"

definition demo_pool :: pg_pool where
  "demo_pool = \<lparr>plDSN = ''p'', plConfig = pool_defaults \<lparr>pgMaxConns = 0, pgMinConns = 0, pgMaxConnLifetime = 0, pgMaxConnIdleTime = 0\<rparr>\<rparr>"

definition demo_proc :: proc where
  "demo_proc = (plain_proc prod_cfg)\<lparr>psRedis := Some (NewClient demo_reach ''r:1''), psRoles := [demo_pool], psTables := Some demo_pool,
     psGame := Some (game_client_of prod_cfg), psPersist := Some (persist_of (sScale prod_cfg))\<rparr>"

lemma demo_game_starts: "\<exists>w. game_New demo_reach (config_Load prod_env (Inr zero_config)) no_world = (Inr demo_proc, w)"
  unfolding prod_cfg_load
  by (simp add: game_New_def redis_pinged_def redisx_Ping_def redisx_New_def open_nats_def game_databases_def NewPool_def demo_reach_def
      demo_proc_def demo_pool_def plain_proc_def prod_cfg_def zero_config_def Let_def)

definition demo_http_call :: http_req where
  "demo_http_call = \<lparr>hqPath = ''/internal/player/grant'', hqSecret = ''s3'', hqAuth = \<lparr>hAuthorization = [], hSession = []\<rparr>,
     hqHook = \<lparr>wTimestamp = [], wNonce = [], wSignature = [], wBody = [], wReadOK = False\<rparr>, hqNow = 0, hqLoad = Done, hqNonce = Done\<rparr>"

definition demo_count :: "string \<Rightarrow> caller \<Rightarrow> nat \<Rightarrow> nat reply \<times> nat" where
  "demo_count path c s = (ReplyOK s, Suc s)"

lemma demo_http_call_served:
  "serve_http (\<lambda>_ _. []) id (MountHealth 0 0 True) SGame demo_proc Map.empty demo_http_call demo_count (Map.empty, 0) = (ReplyOK 0, Map.empty, 1)"
  by (simp add: serve_http_def withRequestBoundary_def MountHealth_def game_Handler_def through_def internal_HTTPMiddleware_def
      demo_http_call_def demo_count_def demo_proc_def plain_proc_def prod_cfg_def)


section \<open>Shutting down\<close>

lemma run_closer_held: "run_closer R c w = (e, w') \<Longrightarrow> wHeld w' = wHeld w - closed_by [c] \<and> wReg w' = wReg w"
  by (cases c) (auto simp: run_closer_def fold_release)

lemma closed_by_append [simp]: "closed_by (cs @ ds) = closed_by cs + closed_by ds"
  by (induction cs rule: closed_by.induct) (simp_all add: add.assoc)

lemma closed_by_rev [simp]: "closed_by (rev cs) = closed_by cs"
proof (induction cs)
  case (Cons c cs)
  have "closed_by (c # cs) = closed_by [c] + closed_by cs" by (cases c) simp_all
  then show ?case using Cons by (simp add: add.commute)
qed simp

lemma close_loop_held:
  "close_loop R cs err w = (e, w') \<Longrightarrow> wHeld w' = wHeld w - closed_by cs \<and> wReg w' = wReg w \<and> (err \<noteq> None \<longrightarrow> e = err)"
proof (induction cs arbitrary: err w)
  case (Cons c cs)
  obtain x w1 where c: "run_closer R c w = (x, w1)" by fastforce
  then have "close_loop R cs (if x \<noteq> None \<and> err = None then x else err) w1 = (e, w')" using Cons.prems by simp
  from Cons.IH [OF this] run_closer_held [OF c]
  have "wHeld w' = wHeld w - closed_by [c] - closed_by cs \<and> wReg w' = wReg w \<and> (err \<noteq> None \<longrightarrow> e = err)" by auto
  moreover have "closed_by (c # cs) = closed_by [c] + closed_by cs" by (cases c) simp_all
  ultimately show ?case by (simp add: diff_diff_add)
qed simp

lemma InitTracing_held:
  "InitTracing R cfg w = (Inr traced, w') \<Longrightarrow> wHeld w' = wHeld w + (if traced then {#Tracer#} else {#}) \<and> wReg w' = wReg w"
  by (auto simp: InitTracing_def split: if_splits)

lemma StartDiscovery_held:
  assumes "StartDiscovery R cfg w = (Inr lc, w')"
  shows "wHeld w' = wHeld w + (case lc of None \<Rightarrow> {#} | Some l \<Rightarrow> {#RedisConn (lcRedis l)#})"
proof (cases "\<not> dcEnabled (sDiscovery cfg) \<or> ifRedis (sInfra cfg) = []")
  case False
  then show ?thesis using assms
    by (auto simp: StartDiscovery_def registry_Start_def Let_def split: prod.splits sum.splits)
qed (use assms in \<open>simp add: StartDiscovery_def\<close>)

lemma lifecycle_Stop_held:
  "wHeld (lifecycle_Stop R lc w) = wHeld w - (case lc of None \<Rightarrow> {#} | Some l \<Rightarrow> {#RedisConn (lcRedis l)#})"
  by (cases lc) (auto simp: lifecycle_Stop_def Let_def split: prod.splits)

lemma RunWithDiscoveryContext_held:
  assumes run: "RunWithDiscoveryContext R cfg fn closers w = (err, w')" and fn: "\<And>w. wHeld (snd (fn w)) = wHeld w"
    and t: "InitTracing R cfg w = (Inr traced, w1)" and d: "StartDiscovery R cfg w1 = (Inr lc, w2)"
  shows "wHeld w' = wHeld w - closed_by closers \<and> (fst (fn w2) \<noteq> None \<longrightarrow> err = fst (fn w2))"
proof -
  let ?cs = "if traced then closers @ [ShutdownTrace] else closers"
  let ?l = "case lc of None \<Rightarrow> {#} | Some l \<Rightarrow> {#RedisConn (lcRedis l)#}"
  obtain e w3 where f: "fn w2 = (e, w3)" by fastforce
  obtain e' w4 where c: "close_loop R (rev ?cs) e w3 = (e', w4)" by fastforce
  have "err = e'" "w' = lifecycle_Stop R lc w4" using run by (auto simp: RunWithDiscoveryContext_def t d f c Let_def split: if_splits)
  moreover have "wHeld w3 = wHeld w + (if traced then {#Tracer#} else {#}) + ?l"
    using fn [of w2] f InitTracing_held [OF t] StartDiscovery_held [OF d] by simp
  moreover have "wHeld w4 = wHeld w3 - closed_by ?cs" "e \<noteq> None \<longrightarrow> e' = e" using close_loop_held [OF c] by (simp_all split: if_splits)
  moreover have "wHeld w + (if traced then {#Tracer#} else {#}) + ?l - closed_by ?cs - ?l = wHeld w - closed_by closers"
    by (auto simp: diff_diff_add add.commute add.left_commute split: option.splits)
  ultimately show ?thesis using f by (simp add: lifecycle_Stop_held)
qed

lemma RunWithDiscovery_held:
  assumes run: "RunWithDiscovery R cfg fn w = (err, w')" and fn: "\<And>w. wHeld (snd (fn w)) = wHeld w"
    and d: "StartDiscovery R cfg (snd (InitTracing R cfg w)) = (Inr lc, w2)"
  shows "wHeld w' = wHeld w"
proof -
  obtain t w1 where t: "InitTracing R cfg w = (t, w1)" by fastforce
  obtain e w3 where f: "fn w2 = (e, w3)" by fastforce
  have w1: "wHeld w1 = wHeld w + (if t = Inr True then {#Tracer#} else {#})"
    using t by (auto simp: InitTracing_def split: if_splits)
  have "wHeld w3 = wHeld w1 + (case lc of None \<Rightarrow> {#} | Some l \<Rightarrow> {#RedisConn (lcRedis l)#})"
    using fn [of w2] f StartDiscovery_held [OF d] t by simp
  moreover have "w' = (if t = Inr True then release Tracer else id) (lifecycle_Stop R lc w3)"
    using run d t f by (simp add: RunWithDiscovery_def split: if_splits)
  ultimately show ?thesis using w1 by (simp add: lifecycle_Stop_held)
qed

text \<open>
  A service gives back everything that it opened. When it started from some world and was registered, and what it did in between
  kept its connections, then after \<^verbatim>\<open>Run\<close> the world holds exactly what it held before \<^verbatim>\<open>New\<close>, whatever errors closing
  reported; and an error of the service itself is the one that is returned.
\<close>

definition closers_of :: "service \<Rightarrow> proc \<Rightarrow> close_func list" where
  "closers_of svc p =
     (case svc of
        SGame \<Rightarrow> redis_closer p @ nats_closer p @ roles_closer p
      | SLogin \<Rightarrow> redis_closer p @ (if ifPostgresShards (sInfra (psCfg p)) \<noteq> [] then roles_closer p else []) @ tables_closer p
      | SGate \<Rightarrow> redis_closer p @ forward_closer p
      | SMail \<Rightarrow> redis_closer p @ nats_closer p @ tables_closer p
      | SActivity \<Rightarrow> redis_closer p @ nats_closer p @ tables_closer p
      | SRank \<Rightarrow> redis_closer p @ nats_closer p
      | SSocial \<Rightarrow> redis_closer p @ tables_closer p
      | SPay \<Rightarrow> redis_closer p @ tables_closer p
      | SMatch \<Rightarrow> redis_closer p
      | SBattle \<Rightarrow> redis_closer p
      | SGM \<Rightarrow> (case psRedis p of None \<Rightarrow> [] | Some c \<Rightarrow> [CloseVoid [RedisConn c]]))"

lemma service_Run_eq: "service_Run svc R fn p w = RunWithDiscoveryContext R (psCfg p) fn (closers_of svc p) w"
  by (cases svc) (simp_all add: closers_of_def game_Run_def login_Run_def gate_Run_def mail_Run_def activity_Run_def rank_Run_def
      social_Run_def pay_Run_def match_Run_def battle_Run_def gm_Run_def case_prod_unfold Let_def)

lemma service_held:
  assumes "service_New svc R loaded w = (Inr p, w')"
  shows "wHeld w' = wHeld w + closed_by (closers_of svc p)"
proof (cases svc)
  case SLogin then show ?thesis using assms login_started(4) [of R loaded w p w'] by (simp add: closers_of_def)
next
  case SGame then show ?thesis using assms game_started(5) [of R loaded w p w'] by (simp add: closers_of_def)
next
  case SMail then show ?thesis using assms mail_started(5) [of R loaded w p w'] by (simp add: closers_of_def)
next
  case SActivity then show ?thesis using assms activity_started(5) [of R loaded w p w'] by (simp add: closers_of_def)
next
  case SRank then show ?thesis using assms rank_started(4) [of R loaded w p w'] by (simp add: closers_of_def)
next
  case SSocial then show ?thesis using assms social_started(4) [of R loaded w p w'] by (simp add: closers_of_def)
next
  case SPay then show ?thesis using assms pay_started(4) [of R loaded w p w'] by (simp add: closers_of_def)
next
  case SBattle then show ?thesis using assms battle_started [of R loaded w p w'] by (simp add: closers_of_def)
next
  case SMatch then show ?thesis using assms battle_started [of R loaded w p w'] by (simp add: closers_of_def match_as_battle)
next
  case SGate then show ?thesis using assms gate_started [of R loaded w p w'] by (simp add: closers_of_def)
next
  case SGM then show ?thesis using assms gm_started [of R loaded w p w'] by (simp add: closers_of_def)
qed

theorem service_releases_everything:
  assumes "service_New svc R loaded w = (Inr p, w1)" and "service_Run svc R fn p w1 = (err, w')" and "\<And>w. wHeld (snd (fn w)) = wHeld w"
    and "InitTracing R (psCfg p) w1 = (Inr traced, w2)" and "StartDiscovery R (psCfg p) w2 = (Inr lc, w3)"
  shows "wHeld w' = wHeld w \<and> (fst (fn w3) \<noteq> None \<longrightarrow> err = fst (fn w3))"
  using RunWithDiscoveryContext_held [OF assms(2) [unfolded service_Run_eq] assms(3-5)] service_held [OF assms(1)] by simp

section \<open>Clients and credentials\<close>

text \<open>In production a role whose game process is not found is an error and never an address of the local host.\<close>

lemma production_client_strict:
  assumes "Production cfg" and "look (if 0 < scShardCount (sScale cfg) then ServiceName (ForRole roleID (scShardCount (sScale cfg))) else ''game'') (sZoneID cfg) = None"
  shows "baseURLForRole look (game_client_of cfg) roleID = []"
  using assms by (cases "0 < scShardCount (sScale cfg)")
    (simp_all add: baseURLForRole_def game_client_of_def game_WithStrict_def game_WithSecret_def BastionClientSharded_def Let_def)

text \<open>The pool keeps one connection per target: a call returns the one that the pool holds afterwards and replaces none that other calls made.\<close>

lemma grpc_conn_shared:
  assumes "grpc_conn mk creds between target conns = (Inr cc, conns')" and "\<And>c t x. c t = Some x \<Longrightarrow> between c t = Some x"
  shows "conns' target = Some cc \<and> (\<forall>t x. conns t = Some x \<longrightarrow> conns' t = Some x)"
  using assms by (auto simp: grpc_conn_def Let_def split: option.splits if_splits)

text \<open>gRPC in production: the game process asks every client for a certificate, and the Gate checks the name of the server and shows its own.\<close>

lemma validate_grpc:
  "validate_production cfg = None \<Longrightarrow> usesGRPC cfg \<Longrightarrow> tlEnabled (sInternalTLS cfg) \<and> (sType cfg = ''gate'' \<longrightarrow> tlServerName (sInternalTLS cfg) \<noteq> [])"
  by (auto simp: validate_production_def split: if_splits)

lemma ServerCredentials_ok: "ServerCredentials R t = Inr c \<Longrightarrow> tcRequireClientCert c \<and> tcMinTLS13 c"
  by (cases "certificate R t") (auto simp: ServerCredentials_def)

lemma ClientCredentials_ok: "ClientCredentials R t = Inr c \<Longrightarrow> tcServerName c = tlServerName t \<and> tcMinTLS13 c"
  by (cases "certificate R t") (auto simp: ClientCredentials_def)

lemma production_grpc_server:
  assumes "Validate cfg = None" and "Production cfg" and "sType cfg = ''game''" and "runGRPC R listen cfg = Inr (Some creds)"
  shows "\<exists>c. creds = Some c \<and> tcRequireClientCert c \<and> tcMinTLS13 c"
proof -
  have "sGRPCAddr cfg \<noteq> []" using assms(4) by (auto simp: runGRPC_def)
  then have "tlEnabled (sInternalTLS cfg)" using validate_grpc [OF Validate_production [OF assms(1,2)]] assms(3) by (simp add: usesGRPC_def)
  then obtain c where "ServerCredentials R (sInternalTLS cfg) = Inr c" "creds = Some c"
    using assms(4) \<open>sGRPCAddr cfg \<noteq> []\<close> by (cases "ServerCredentials R (sInternalTLS cfg)"; cases "listen (sGRPCAddr cfg)") (simp_all add: runGRPC_def)
  then show ?thesis using ServerCredentials_ok by blast
qed

lemma production_grpc_client:
  assumes "Validate cfg = None" and "Production cfg" and "sType cfg = ''gate''" and "gate_forwarder R cfg = Inr (''grpc'', creds)"
  shows "\<exists>c. creds = Some c \<and> tcServerName c \<noteq> [] \<and> tcMinTLS13 c"
proof -
  have "gcGameTransport (sGate cfg) = ''grpc''" using assms(4) by (auto simp: gate_forwarder_def Let_def split: if_splits sum.splits)
  then have "tlEnabled (sInternalTLS cfg)" "tlServerName (sInternalTLS cfg) \<noteq> []" "gcGameTransport (sGate cfg) = ''grpc''"
    using validate_grpc [OF Validate_production [OF assms(1,2)]] assms(3) by (simp_all add: usesGRPC_def)
  then obtain c where "ClientCredentials R (sInternalTLS cfg) = Inr c" "creds = Some c"
    using assms(4) by (cases "ClientCredentials R (sInternalTLS cfg)") (simp_all add: gate_forwarder_def)
  then show ?thesis using ClientCredentials_ok \<open>tlServerName (sInternalTLS cfg) \<noteq> []\<close> by metis
qed

text \<open>A process is ready only while it listens.\<close>

lemma not_ready_after: "\<not> snd (RunHTTPContext listening ending False)"
  by (auto simp: RunHTTPContext_def split: serve_end.splits option.splits)

text \<open>The last of several \<open>-config\<close> arguments counts.\<close>

lemma config_loop_append: "length args \<noteq> 0 \<Longrightarrow> last args \<noteq> ''-config'' \<Longrightarrow> config_loop cfg (args @ [''-config'', path]) = path"
  by (induction cfg args rule: config_loop.induct) auto

lemma last_config_counts: "path \<noteq> [] \<Longrightarrow> args \<noteq> [] \<Longrightarrow> last args \<noteq> ''-config'' \<Longrightarrow> MustConfigFlag (args @ [''-config'', path]) = Some path"
  using config_loop_append by (simp add: MustConfigFlag_def Let_def)

section \<open>Gaps\<close>

text \<open>A process that is configured with a Redis cluster only is never registered, although its services use the cluster.\<close>

lemma cluster_never_registers: "ifRedis (sInfra cfg) = [] \<Longrightarrow> StartDiscovery R cfg w = (Inr None, w)"
  by (simp add: StartDiscovery_def)

text \<open>
  Validation accepts a list of role databases in place of the one for the tables; the four services with tables
  of their own look only at the latter, and then run in production without their tables.
\<close>

definition shards_only :: "string \<Rightarrow> service_config" where
  "shards_only type = prod_cfg\<lparr>sType := type, sInfra := (sInfra prod_cfg)\<lparr>ifPostgres := [], ifPostgresShards := [''p'']\<rparr>\<rparr>"

lemma shards_only_valid: "type \<in> {''mail'', ''social'', ''activity''} \<Longrightarrow> Validate (shards_only type) = None \<and> Production (shards_only type)"
  by (auto simp: validate_simps shards_only_def prod_cfg_def zero_config_def)

lemma shards_only_in_memory:
  assumes "service_New svc R (Inr (shards_only (service_type svc))) w = (Inr p, w')" and "svc \<in> {SMail, SSocial, SActivity, SPay}"
  shows "psTables p = None"
proof -
  have "tables_up R p" "psCfg p = shards_only (service_type svc)" using service_started [OF assms(1)] assms(2) by auto
  then show ?thesis by (simp add: tables_up_def shards_only_def)
qed

text \<open>
  The mail and the activity service close their database before they drain NATS, so that events which arrive during the
  shutdown find a closed pool.
\<close>

lemma tables_close_before_nats:
  assumes "psRedis p = Some c" and "psNats p = Some url" and "psTables p = Some pool"
  shows "rev (closers_of SMail p) = [CloseVoid [PgPool pool], CloseNoContext (NatsConn url), CloseNoContext (RedisConn c)]"
  using assms by (simp add: closers_of_def closer_defs)

end
