(* ===== verification/Spec2Isabelle.thy ===== *)
theory Spec2Isabelle
  imports Wire_Protocol Hash_Ring Outbox_Delivery Mailbox Auction Webhook Mail_Service Discovery Rank_Service World_Events Game_Server Matchmaking Gate_Connections Login_Service Activity_Service Reshard Migrate Social_Service Push_Client GM_Service Player_Types Startup
begin

text \<open>
  A verification of the Bastion game server.

  \<^bold>\<open>The program.\<close> Bastion is a game server of eleven Go services and a handful of tools. A client logs in
  over HTTP (\<^verbatim>\<open>services/login\<close>), gets a session token and the address of a Gate, and keeps one TCP
  connection to that Gate (\<^verbatim>\<open>services/gate\<close>), which checks the token, owns the presence record of the role
  and forwards every frame to the game process that owns the role's shard (\<^verbatim>\<open>services/game\<close>). A game
  process keeps one actor per online role, saves it to PostgreSQL under a fencing epoch and an economy
  ledger, and writes the events for other services into an outbox of the same transaction. Match and
  battle make rooms; mail, social, rank, activity and pay keep their own tables or Redis keys; mail, pay,
  activity and the auction house credit roles through the grant endpoint of the game process; the GM
  console relays operator requests. Processes find each other through leases in Redis
  (\<^verbatim>\<open>pkg/discovery\<close>) and exchange events over JetStream (\<^verbatim>\<open>pkg/mq\<close>). Two tools change the databases:
  \<^verbatim>\<open>tools/migrate\<close> applies schema scripts, \<^verbatim>\<open>tools/reshard\<close> moves roles between databases.

  \<^bold>\<open>Conventions.\<close> Go's signed integers are integers with the wrap-around written out (\<^const>\<open>i32\<close>,
  \<^const>\<open>i64\<close>); bytes, lengths on the wire and hashes are words. Strings are byte strings. A Go error is a
  value of \<^typ>\<open>err\<close>. A struct is a record, with its fields in the order of the source; Redis, PostgreSQL
  and the heap of actors or connections are records of tables that every operation takes and returns. Each
  SQL statement, Lua script and critical section is one function, so that an operation is a sequence of
  atomic steps. Whether a call of a store is carried out is an argument of the operation: \<^const>\<open>Done\<close>,
  \<^const>\<open>Failed\<close> (not carried out, error seen) or \<^const>\<open>Lost\<close> (carried out, error seen all the same). What
  other processes do between two steps is an argument too (a function on the store, or further steps of
  the same relation). Statements quantify over all of these, so they hold under every fault and every
  interleaving that the arguments can express.

  \<^bold>\<open>Foundations.\<close>
  \<^item> \<open>Bastion_Prelude\<close>: fixed-width integers, Go maps, errors, outcomes, and the collections \<open>go_int\<close> and
    \<open>store_step\<close> that carry the component proofs.
  \<^item> \<open>Go_Strings\<close>, \<open>Go_Net\<close>, \<open>Json_Values\<close>: what the source uses of \<^verbatim>\<open>strings\<close>, \<^verbatim>\<open>strconv\<close>, \<^verbatim>\<open>net\<close>,
    \<^verbatim>\<open>net/url\<close> and \<^verbatim>\<open>encoding/json\<close>. Number printing and parsing are inverse to each other; request bodies are JSON values, and
    the fields a handler decodes are read with Go's zero defaults and type errors.
  \<^item> \<open>Redis_Store\<close>, \<open>Sorted_Sets\<close>: keys with an expiry on one clock, and sorted sets with the order of Redis.

  \<^bold>\<open>Routing and transport.\<close>
  \<^item> \<open>Wire_Protocol\<close> (\<^verbatim>\<open>pkg/protocol/frame.go\<close>): frames, \<open>EncodeInto\<close>, \<open>Decode\<close> and the read loop. A stream cut
    anywhere gives exactly its complete frames, and the length field bounds what is allocated.
  \<^item> \<open>Shard_Routing\<close> (\<^verbatim>\<open>pkg/shard/shard.go\<close>, \<^verbatim>\<open>pkg/db/sharded.go\<close>, \<^verbatim>\<open>pkg/scale\<close>) and \<open>Hash_Ring\<close>
    (\<^verbatim>\<open>pkg/shard/consistent.go\<close>): the locale \<open>router\<close> (a total, stable choice within the number of shards)
    is interpreted on both hash functions; the ring's \<open>Get\<close> refines "the clockwise successor", and \<open>Add\<close>
    and \<open>Remove\<close> keep its invariant as long as virtual nodes do not collide.
  \<^item> \<open>Config\<close> (\<^verbatim>\<open>pkg/config\<close>) and \<open>Discovery\<close> (\<^verbatim>\<open>pkg/discovery\<close>, \<^verbatim>\<open>pkg/zone\<close>): loading, overrides and
    validation of a configuration; leases, lookups, probes and the cached resolver.
  \<^item> \<open>Sessions\<close> (\<^verbatim>\<open>pkg/session\<close>, \<^verbatim>\<open>pkg/internalauth\<close>, \<^verbatim>\<open>pkg/presence\<close>): login sessions, the two middlewares
    that guard every route, presence records with their fence.
  \<^item> \<open>Mailbox\<close> (\<^verbatim>\<open>pkg/actor\<close>): the queue of an actor as a transition system, behind the locale \<open>channel\<close>.
  \<^item> \<open>Event_Queue\<close> (\<^verbatim>\<open>pkg/mq\<close>): publication, the callback of a durable consumer, dead letters. The locale
    \<open>consumer\<close> states what an event handler promises.

  \<^bold>\<open>The game process.\<close>
  \<^item> \<open>Grant_Bundle\<close> (\<^verbatim>\<open>pkg/grant\<close>): reward bundles and their parser. The locale \<open>granter\<close> is the contract of
    everything that credits a role under a source: at most once, and for certain after a success.
  \<^item> \<open>Player_State\<close>, \<open>Player_Actor\<close>, \<open>Player_Types\<close> (\<^verbatim>\<open>services/game/internal/player/actor.go\<close>, \<^verbatim>\<open>bag\<close>, \<^verbatim>\<open>skill\<close>,
    \<^verbatim>\<open>quest\<close>, \<^verbatim>\<open>dungeon\<close>, \<^verbatim>\<open>grant\<close>): the state of a player, each message handler, saving and loading; every
    field stays within its Go integer type.
  \<^item> \<open>Role_Repo\<close>, \<open>Outbox_Delivery\<close> (\<^verbatim>\<open>pkg/repo/role.go\<close>, \<^verbatim>\<open>outbox.go\<close>, the publisher of \<^verbatim>\<open>server.go\<close>): the
    role table with epochs and versions, the ledger, the outbox, its leases and its delivery.
  \<^item> \<open>Player_Manager\<close>, \<open>Player_Grants\<close> (\<^verbatim>\<open>player/manager.go\<close>, \<^verbatim>\<open>persist.go\<close>): the table of live actors on a
    heap, eviction, the asynchronous saver, shutdown. The locale \<open>transactional_task\<close> captures the tasks that
    are rolled back when their save fails; \<open>granter\<close> is interpreted on the manager.
  \<^item> \<open>Game_Client\<close>, \<open>Game_Server\<close> (\<^verbatim>\<open>services/game/internal/server.go\<close>, \<^verbatim>\<open>grpcserver.go\<close>, \<^verbatim>\<open>pkg/client/game.go\<close>):
    every HTTP handler, the gRPC entry, and the client that reaches the grant endpoint; \<open>granter\<close> is
    interpreted on the client as well, so that the services below rest on the same contract.
  \<^item> \<open>Auction\<close> and \<open>World_Events\<close> (\<^verbatim>\<open>auction\<close>, \<^verbatim>\<open>worldboss\<close>, \<^verbatim>\<open>guildwar\<close>, \<^verbatim>\<open>guild\<close>, \<^verbatim>\<open>pkg/repo/auction.go\<close>): the
    sagas of the auction house with the outcome of every call, and the shared activities; the locale
    \<open>membership\<close> is interpreted on the guilds.

  \<^bold>\<open>The other services.\<close>
  \<^item> \<open>Gate_Forward\<close>, \<open>Gate_Server\<close>, \<open>Gate_Connections\<close> (\<^verbatim>\<open>services/gate\<close>, \<^verbatim>\<open>pkg/gateforward\<close>, \<^verbatim>\<open>pkg/gamerpc\<close>): the
    locale \<open>forwarder\<close> on both transports, one function per step of the two goroutines of a connection, and
    the Gate as an inductive step relation with any number of connections.
  \<^item> \<open>Login_Service\<close>, \<open>Payment\<close>, \<open>Webhook\<close>, \<open>Mail_Service\<close>, \<open>Push_Client\<close>, \<open>Rank_Service\<close>, \<open>Activity_Service\<close>,
    \<open>Social_Service\<close>, \<open>GM_Service\<close>, \<open>Battle_Service\<close>, \<open>Matchmaking\<close>: the service of that name with its repository
    under \<^verbatim>\<open>pkg/repo\<close>, in both storage modes where the code has two. The locale \<open>room_provider\<close> is what
    matchmaking asks of battle.
  \<^item> \<open>Startup\<close> (\<^verbatim>\<open>New\<close>, \<^verbatim>\<open>Handler\<close> and \<^verbatim>\<open>Run\<close> of every service, \<^verbatim>\<open>pkg/app\<close>, \<^verbatim>\<open>pkg/redis\<close>, \<^verbatim>\<open>pkg/db\<close>,
    \<^verbatim>\<open>pkg/internaltls\<close>): what a process connects to, when it refuses to start, which guard stands before which
    route, registration, shutdown, and that everything opened is closed again.
  \<^item> \<open>Migrate\<close> and \<open>Reshard\<close> (\<^verbatim>\<open>tools\<close>): the two database tools with the faults of every statement.

  \<^bold>\<open>What is shown.\<close> Value is neither made nor lost: a grant changes a role once over any history of retries and
  crashes, and payments, mails, activity rewards, auctions and operator grants rest on that contract, each
  with the invariant that a settled record has exactly its ledger entry. State is not lost or overwritten: an
  older owner is fenced off, an acknowledged change is in the database, a refused one leaves no trace, one
  actor per role and one task at a time, committed events are eventually published, resharding and
  migration keep every row and order. Identity holds: a request or a Gate frame acts as a role only through a
  live session of it, a role needs its password, the newest connection serves, a callback is authentic and runs
  once. The optimised routines agree with references: frames, the ring, the trimmed leaderboards, the bounded
  chat lists, discovery by leases. A production process fails closed: it starts only on stores that answer, and
  no handler runs without the credentials of its route.

  \<^bold>\<open>Termination and bounds.\<close> Every definition is total. The scan loop of the resharding tool does not end for
  a batch size of zero; it is a partial function into options, and it returns for every positive size. The
  read loop of the Gate, the trimming loop and the ring's binary search are recursive with a measure.
  Waiting for ever (mailbox, retries, outbox, Gate runs) is a step relation or an explicit sequence of calls.
  The constants are those of the source, such as ten deliveries of an event, fifty orders of a retry sweep,
  five hundred rows of a reshard batch, fifty listed and a thousand kept chat messages.

  \<^bold>\<open>Parameters.\<close> SHA-256, HMAC and bcrypt are arguments of the definitions that use them; what is relied on
  (that HMAC gives bytes, that a password matches the hash made from it) is a named hypothesis. The YAML
  decoder, random tokens, the clock and what a starting process finds outside are arguments; a migration script
  is opaque text with an arbitrary effect.

  \<^bold>\<open>Not modelled.\<close> Sockets and HTTP parsing, timeouts, metrics and logging (\<^verbatim>\<open>pkg/app/metrics.go\<close>, \<^verbatim>\<open>pkg/log\<close>) have
  no logic of the game. The structs of \<^verbatim>\<open>pkg/protocol/http_api.go\<close> are declarations, represented by the JSON
  values of the handlers, and \<^verbatim>\<open>api/pb\<close> is generated. \<^verbatim>\<open>tools/robot\<close>, \<^verbatim>\<open>tools/loadtest\<close> and \<^verbatim>\<open>tools/cctest\<close> are
  clients that generate load. The eleven \<^verbatim>\<open>main\<close> functions are the same, and one definition. Owner epochs in the
  resharding tool are unbounded: it compares them and adds one per move.
\<close>

end
